(* ===== verification/Rust_Prelude.thy ===== *)
theory Rust_Prelude
  imports Main "HOL-Library.Word" "HOL-Library.AList" "HOL-Library.Monad_Syntax"
begin

text \<open>
  What every component of the model shares: the Rust integer types as words, \<open>Result\<close>
  and panics as values, \<open>HashMap\<close> and \<open>HashSet\<close> as lists with distinct keys,
  \<open>String\<close> as a list of bytes-as-characters with UTF-8 validity, the little-endian
  conversions of the integer types, and the \<open>Vec\<close> operations the code uses. Everything
  here is the language and its standard library; the generic lemmas below carry the
  component proofs.
\<close>

section \<open>Types\<close>

type_synonym u8 = "8 word"
type_synonym u16 = "16 word"
type_synonym u32 = "32 word"
type_synonym u64 = "64 word"

text \<open>
  \<open>Result<T, E>\<close> is a sum with the error on the left. A computation that can panic has
  type \<open>'a may_panic\<close>: \<open>None\<close> is the panic. \<open>usize\<close> is \<open>nat\<close>, on a 64-bit
  target: the conversions \<open>as usize\<close> from \<open>u32\<close> and \<open>u64\<close> lose nothing, and the
  checked operations below fail at \<open>2 ^ 64\<close>.
\<close>

type_synonym ('a, 'e) result = "'e + 'a"
type_synonym 'a may_panic = "'a option"
type_synonym ('k, 'v) hash_map = "('k \<times> 'v) list"
type_synonym 'a hash_set = "'a list"

named_theorems hm_simps \<open>lookup and membership in hash maps\<close>
named_theorems hm_distinct \<open>operations that keep the keys of a hash map distinct\<close>
named_theorems le_simps \<open>little-endian byte conversions\<close>
named_theorems str_simps \<open>strings and their bytes\<close>

section \<open>Definitions\<close>

subsection \<open>Hash maps and hash sets\<close>

text \<open>
  A \<open>HashMap\<close> is the list of its entries in the order an iteration visits them. Rust does
  not specify that order; the model keeps the order of insertion, and the properties of the
  development speak of sets of entries wherever the order is not fixed by the code.
\<close>

definition hm_get :: "('k, 'v) hash_map \<Rightarrow> 'k \<Rightarrow> 'v option" where
  "hm_get m k = map_of m k"

definition hm_insert :: "'k \<Rightarrow> 'v \<Rightarrow> ('k, 'v) hash_map \<Rightarrow> ('k, 'v) hash_map" where
  "hm_insert k v m = AList.update k v m"

definition hm_remove :: "'k \<Rightarrow> ('k, 'v) hash_map \<Rightarrow> ('k, 'v) hash_map" where
  "hm_remove k m = filter (\<lambda>(k', v). k' \<noteq> k) m"

definition hm_contains :: "'k \<Rightarrow> ('k, 'v) hash_map \<Rightarrow> bool" where
  "hm_contains k m \<longleftrightarrow> hm_get m k \<noteq> None"

definition hm_keys :: "('k, 'v) hash_map \<Rightarrow> 'k list" where
  "hm_keys m = map fst m"

definition hm_values :: "('k, 'v) hash_map \<Rightarrow> 'v list" where
  "hm_values m = map snd m"

definition hm_wf :: "('k, 'v) hash_map \<Rightarrow> bool" where
  "hm_wf m \<longleftrightarrow> distinct (map fst m)"

definition hs_insert :: "'a \<Rightarrow> 'a hash_set \<Rightarrow> 'a hash_set" where
  "hs_insert x s = (if x \<in> set s then s else s @ [x])"

definition hs_remove :: "'a \<Rightarrow> 'a hash_set \<Rightarrow> 'a hash_set" where
  "hs_remove x s = removeAll x s"

definition hs_from_iter :: "'a list \<Rightarrow> 'a hash_set" where
  "hs_from_iter xs = fold hs_insert xs []"

definition hs_eq :: "'a hash_set \<Rightarrow> 'a hash_set \<Rightarrow> bool" where
  "hs_eq s t \<longleftrightarrow> set s = set t"

subsection \<open>Strings and UTF-8\<close>

text \<open>
  A Rust string is a list of bytes, here the characters of \<open>string\<close>, whose bytes are
  well-formed UTF-8. \<open>utf8_valid\<close> is the table of well-formed byte sequences of the
  Unicode standard, which \<open>std::str::from_utf8\<close> accepts.
\<close>

definition byte_of_char :: "char \<Rightarrow> u8" where
  "byte_of_char c = word_of_nat (of_char c)"

definition char_of_byte :: "u8 \<Rightarrow> char" where
  "char_of_byte b = char_of (unat b)"

definition as_bytes :: "string \<Rightarrow> u8 list" where
  "as_bytes s = map byte_of_char s"

definition byte_in :: "nat \<Rightarrow> nat \<Rightarrow> u8 \<Rightarrow> bool" where
  "byte_in lo hi b \<longleftrightarrow> lo \<le> unat b \<and> unat b \<le> hi"

fun utf8_valid :: "u8 list \<Rightarrow> bool" where
  "utf8_valid [] \<longleftrightarrow> True"
| "utf8_valid (a # r0) \<longleftrightarrow>
     (if byte_in 0 0x7F a then utf8_valid r0
      else case r0 of [] \<Rightarrow> False | b # r1 \<Rightarrow>
        if byte_in 0xC2 0xDF a then byte_in 0x80 0xBF b \<and> utf8_valid r1
        else case r1 of [] \<Rightarrow> False | c # r2 \<Rightarrow>
          if byte_in 0xE0 0xEF a then
            byte_in (if byte_in 0xE0 0xE0 a then 0xA0 else 0x80)
                    (if byte_in 0xED 0xED a then 0x9F else 0xBF) b
            \<and> byte_in 0x80 0xBF c \<and> utf8_valid r2
          else case r2 of [] \<Rightarrow> False | d # r3 \<Rightarrow>
            byte_in 0xF0 0xF4 a
            \<and> byte_in (if byte_in 0xF0 0xF0 a then 0x90 else 0x80)
                      (if byte_in 0xF4 0xF4 a then 0x8F else 0xBF) b
            \<and> byte_in 0x80 0xBF c \<and> byte_in 0x80 0xBF d \<and> utf8_valid r3)"

declare utf8_valid.simps(2) [simp del]

definition is_str :: "string \<Rightarrow> bool" where
  "is_str s \<longleftrightarrow> utf8_valid (as_bytes s)"

text \<open>\<open>std::str::from_utf8\<close>: \<open>None\<close> is \<open>Utf8Error\<close>.\<close>

definition from_utf8 :: "u8 list \<Rightarrow> string option" where
  "from_utf8 bs = (if utf8_valid bs then Some (map char_of_byte bs) else None)"

subsection \<open>Little-endian conversions of the integer types\<close>

fun nat_to_le :: "nat \<Rightarrow> nat \<Rightarrow> u8 list" where
  "nat_to_le 0 n = []"
| "nat_to_le (Suc k) n = word_of_nat (n mod 256) # nat_to_le k (n div 256)"

fun nat_from_le :: "u8 list \<Rightarrow> nat" where
  "nat_from_le [] = 0"
| "nat_from_le (b # bs) = unat b + 256 * nat_from_le bs"

definition u16_from_le_bytes :: "u8 list \<Rightarrow> u16" where
  "u16_from_le_bytes bs = word_of_nat (nat_from_le bs)"

definition u32_to_le_bytes :: "u32 \<Rightarrow> u8 list" where
  "u32_to_le_bytes w = nat_to_le 4 (unat w)"

definition u32_from_le_bytes :: "u8 list \<Rightarrow> u32" where
  "u32_from_le_bytes bs = word_of_nat (nat_from_le bs)"

definition u64_to_le_bytes :: "u64 \<Rightarrow> u8 list" where
  "u64_to_le_bytes w = nat_to_le 8 (unat w)"

definition u64_from_le_bytes :: "u8 list \<Rightarrow> u64" where
  "u64_from_le_bytes bs = word_of_nat (nat_from_le bs)"

subsection \<open>Checked arithmetic, slices and vectors\<close>

definition usize_checked_mul :: "nat \<Rightarrow> nat \<Rightarrow> nat option" where
  "usize_checked_mul a b = (if a * b < 2 ^ 64 then Some (a * b) else None)"

definition u32_checked_add :: "u32 \<Rightarrow> u32 \<Rightarrow> u32 option" where
  "u32_checked_add a b = (if unat a + unat b < 2 ^ 32 then Some (a + b) else None)"

definition u32_checked_mul :: "u32 \<Rightarrow> u32 \<Rightarrow> u32 option" where
  "u32_checked_mul a b = (if unat a * unat b < 2 ^ 32 then Some (a * b) else None)"

text \<open>\<open>&data[..n]\<close>, \<open>&data[i..i + n]\<close> and \<open>data[i]\<close> panic out of range.\<close>

definition slice_to :: "nat \<Rightarrow> 'a list \<Rightarrow> 'a list may_panic" where
  "slice_to n xs = (if n \<le> length xs then Some (take n xs) else None)"

definition slice_range :: "nat \<Rightarrow> nat \<Rightarrow> 'a list \<Rightarrow> 'a list may_panic" where
  "slice_range i n xs = (if i + n \<le> length xs then Some (take n (drop i xs)) else None)"

definition index_at :: "'a list \<Rightarrow> nat \<Rightarrow> 'a may_panic" where
  "index_at xs i = (if i < length xs then Some (xs ! i) else None)"

text \<open>\<open>Vec::swap_remove\<close>: the last element takes the removed one's place.\<close>

definition swap_remove :: "'a list \<Rightarrow> nat \<Rightarrow> 'a list may_panic" where
  "swap_remove xs i = (if i < length xs then Some (butlast (xs[i := last xs])) else None)"

text \<open>\<open>slice::chunks\<close>, for a positive chunk size.\<close>

function chunks :: "nat \<Rightarrow> 'a list \<Rightarrow> 'a list list" where
  "chunks n xs = (if n = 0 \<or> xs = [] then [] else take n xs # chunks n (drop n xs))"
  by pat_completeness auto
termination
  by (relation "measure (\<lambda>(n, xs). length xs)") (auto simp: length_greater_0_conv)

declare chunks.simps [simp del]

section \<open>Lemmas\<close>

subsection \<open>Hash maps\<close>

lemma hm_get_Nil [simp]: "hm_get [] k = None"
  by (simp add: hm_get_def)

lemma hm_get_Cons [simp]: "hm_get ((k', v) # m) k = (if k' = k then Some v else hm_get m k)"
  by (simp add: hm_get_def)

lemma hm_get_insert [hm_simps]: "hm_get (hm_insert k v m) k' = (if k' = k then Some v else hm_get m k')"
  by (simp add: hm_get_def hm_insert_def update_conv')

lemma hm_get_remove [hm_simps]: "hm_get (hm_remove k m) k' = (if k' = k then None else hm_get m k')"
  by (induction m) (auto simp: hm_remove_def)

lemma hm_get_filter_None: "hm_get m k = None \<Longrightarrow> hm_get (filter P m) k = None"
  by (induction m) (auto split: if_splits)

lemma hm_get_Some_set: "hm_get m k = Some v \<Longrightarrow> (k, v) \<in> set m"
  by (simp add: hm_get_def map_of_SomeD)

lemma hm_wf_Nil [hm_distinct]: "hm_wf []"
  by (simp add: hm_wf_def)

lemma hm_wf_insert [hm_distinct]: "hm_wf m \<Longrightarrow> hm_wf (hm_insert k v m)"
  by (simp add: hm_wf_def hm_insert_def distinct_update)

lemma hm_wf_filter [hm_distinct]: "hm_wf m \<Longrightarrow> hm_wf (filter P m)"
  by (simp add: hm_wf_def distinct_map_filter)

lemma hm_wf_remove [hm_distinct]: "hm_wf m \<Longrightarrow> hm_wf (hm_remove k m)"
  by (simp add: hm_remove_def hm_wf_filter)

lemma hm_wf_map [hm_distinct]: "hm_wf m \<Longrightarrow> hm_wf (map (\<lambda>(k, v). (k, f k v)) m)"
  by (simp add: hm_wf_def comp_def case_prod_beta)

lemma hm_wf_in_iff: "hm_wf m \<Longrightarrow> (k, v) \<in> set m \<longleftrightarrow> hm_get m k = Some v"
  by (simp add: hm_wf_def hm_get_def map_of_eq_Some_iff)

lemma hm_wf_Ball:
  "hm_wf m \<Longrightarrow> (\<forall>x \<in> set m. P x) \<longleftrightarrow> (\<forall>k v. hm_get m k = Some v \<longrightarrow> P (k, v))"
  using hm_wf_in_iff [of m] by (metis surj_pair)

lemma hm_get_filter [hm_simps]:
  "hm_wf m \<Longrightarrow> hm_get (filter P m) k =
     (case hm_get m k of None \<Rightarrow> None | Some v \<Rightarrow> if P (k, v) then Some v else None)"
proof (induction m)
  case (Cons e m)
  obtain k' v' where e: "e = (k', v')" by (cases e)
  from Cons.prems e have wf: "hm_wf m" and fresh: "k' \<notin> fst ` set m"
    by (auto simp: hm_wf_def)
  from fresh have "hm_get m k' = None" by (simp add: hm_get_def map_of_eq_None_iff)
  then show ?case using Cons.IH [OF wf] e by (auto simp: hm_get_filter_None)
qed simp

lemma hm_get_map [hm_simps]:
  "hm_get (map (\<lambda>(k, v). (k, f k v)) m) k = map_option (f k) (hm_get m k)"
  by (induction m) auto

lemma hm_keys_iff [hm_simps]: "k \<in> set (hm_keys m) \<longleftrightarrow> hm_get m k \<noteq> None"
  by (auto simp: hm_keys_def hm_get_def map_of_eq_None_iff)

lemma hm_values_iff: "hm_wf m \<Longrightarrow> v \<in> set (hm_values m) \<longleftrightarrow> (\<exists>k. hm_get m k = Some v)"
proof -
  assume "hm_wf m"
  then have "(\<exists>k. hm_get m k = Some v) \<longleftrightarrow> (\<exists>k. (k, v) \<in> set m)"
    by (simp add: hm_wf_in_iff)
  moreover have "v \<in> set (hm_values m) \<longleftrightarrow> (\<exists>k. (k, v) \<in> set m)"
    by (force simp: hm_values_def)
  ultimately show ?thesis by simp
qed

lemma hm_keys_insert [simp]: "set (hm_keys (hm_insert k v m)) = insert k (set (hm_keys m))"
  by (auto simp: hm_keys_iff hm_get_insert split: if_splits)

lemma hm_keys_remove [simp]: "set (hm_keys (hm_remove k m)) = set (hm_keys m) - {k}"
  by (auto simp: hm_keys_iff hm_get_remove split: if_splits)

lemma hm_keys_Nil [simp]: "hm_keys [] = []"
  by (simp add: hm_keys_def)

lemma hm_keys_empty_iff [simp]: "hm_keys m = [] \<longleftrightarrow> m = []"
  by (simp add: hm_keys_def)

lemma hm_contains_keys: "hm_contains k m \<longleftrightarrow> k \<in> set (hm_keys m)"
  by (simp add: hm_contains_def hm_keys_iff)

lemma hm_contains_insert [simp]: "hm_contains k' (hm_insert k v m) \<longleftrightarrow> k' = k \<or> hm_contains k' m"
  by (simp add: hm_contains_def hm_get_insert)

lemma hm_contains_remove [simp]: "hm_contains k' (hm_remove k m) \<longleftrightarrow> k' \<noteq> k \<and> hm_contains k' m"
  by (simp add: hm_contains_def hm_get_remove)

lemma hm_contains_Nil [simp]: "\<not> hm_contains k []"
  by (simp add: hm_contains_def)

lemma hm_remove_empty_keys: "hm_remove k m = [] \<Longrightarrow> set (hm_keys m) \<subseteq> {k}"
  using hm_keys_remove [of k m] by auto

lemma hm_empty_iff: "m = [] \<longleftrightarrow> (\<forall>k. hm_get m k = None)"
  by (cases m) auto

lemma hm_contains_iff [hm_simps]: "hm_contains k m \<longleftrightarrow> (\<exists>v. hm_get m k = Some v)"
  by (auto simp: hm_contains_def)

lemma hm_insert_not_Nil [simp]: "hm_insert k v m \<noteq> []"
  by (simp add: hm_insert_def)

lemma hm_insert_simps [simp]:
  "hm_insert k v [] = [(k, v)]"
  "hm_insert k v ((k', v') # m) = (if k' = k then (k, v) # m else (k', v') # hm_insert k v m)"
  by (simp_all add: hm_insert_def)

lemma hm_insert_same: "hm_get m k = Some v \<Longrightarrow> hm_insert k v m = m"
  by (induction m) (auto split: if_splits)

lemma hm_remove_simps [simp]:
  "hm_remove k [] = []"
  "hm_remove k ((k', v) # m) = (if k' = k then hm_remove k m else (k', v) # hm_remove k m)"
  by (simp_all add: hm_remove_def)

lemma set_hs_insert [simp]: "set (hs_insert x s) = insert x (set s)"
  by (auto simp: hs_insert_def)

lemma set_hs_remove [simp]: "set (hs_remove x s) = set s - {x}"
  by (simp add: hs_remove_def)

lemma distinct_hs_insert [hm_distinct]: "distinct s \<Longrightarrow> distinct (hs_insert x s)"
  by (simp add: hs_insert_def)

lemma distinct_hs_remove [hm_distinct]: "distinct s \<Longrightarrow> distinct (hs_remove x s)"
  by (simp add: hs_remove_def distinct_removeAll)

lemma set_fold_hs_insert: "set (fold hs_insert xs s) = set xs \<union> set s"
  by (induction xs arbitrary: s) auto

lemma distinct_fold_hs_insert: "distinct s \<Longrightarrow> distinct (fold hs_insert xs s)"
  by (induction xs arbitrary: s) (simp_all add: distinct_hs_insert)

lemma set_hs_from_iter [simp]: "set (hs_from_iter xs) = set xs"
  by (simp add: hs_from_iter_def set_fold_hs_insert)

lemma distinct_hs_from_iter [hm_distinct]: "distinct (hs_from_iter xs)"
  by (simp add: hs_from_iter_def distinct_fold_hs_insert)

subsection \<open>Strings\<close>

lemma char_of_byte_of_char [str_simps]: "char_of_byte (byte_of_char c) = c"
proof -
  have "of_char c < (256 :: nat)" by simp
  then have "unat (word_of_nat (of_char c) :: u8) = of_char c"
    by (simp add: unat_of_nat)
  then show ?thesis by (simp add: char_of_byte_def byte_of_char_def)
qed

lemma unat_less_byte: "unat (b :: u8) < 256"
  using unsigned_less [of b, where ?'a = nat] by simp

lemma byte_of_char_of_byte [str_simps]: "byte_of_char (char_of_byte b) = b"
proof -
  have "unat b < 256" by (rule unat_less_byte)
  then show ?thesis by (simp add: char_of_byte_def byte_of_char_def)
qed

lemma length_as_bytes [str_simps]: "length (as_bytes s) = length s"
  by (simp add: as_bytes_def)

lemma chars_of_as_bytes [str_simps]: "map char_of_byte (as_bytes s) = s"
  by (simp add: as_bytes_def comp_def char_of_byte_of_char)

lemma as_bytes_inject [str_simps]: "as_bytes s = as_bytes t \<longleftrightarrow> s = t"
  by (metis chars_of_as_bytes)

lemma from_utf8_as_bytes [str_simps]: "is_str s \<Longrightarrow> from_utf8 (as_bytes s) = Some s"
  by (simp add: from_utf8_def is_str_def chars_of_as_bytes)

lemma from_utf8_Some: "from_utf8 bs = Some s \<Longrightarrow> as_bytes s = bs \<and> is_str s"
  by (auto simp: from_utf8_def is_str_def as_bytes_def comp_def byte_of_char_of_byte
      split: if_splits)

lemma utf8_valid_ascii: "(\<And>b. b \<in> set bs \<Longrightarrow> unat b \<le> 0x7F) \<Longrightarrow> utf8_valid bs"
  by (induction bs) (auto simp: utf8_valid.simps(2) byte_in_def)

lemma is_str_ascii: "(\<And>c. c \<in> set s \<Longrightarrow> (of_char c :: nat) \<le> 0x7F) \<Longrightarrow> is_str s"
  unfolding is_str_def
  by (rule utf8_valid_ascii) (auto simp: as_bytes_def byte_of_char_def unat_of_nat)

lemma is_str_Nil [simp]: "is_str []"
  by (simp add: is_str_def as_bytes_def)

subsection \<open>Little-endian bytes\<close>

lemma length_nat_to_le [simp]: "length (nat_to_le k n) = k"
  by (induction k arbitrary: n) auto

lemma nat_from_le_to_le: "nat_from_le (nat_to_le k n) = n mod 256 ^ k"
proof (induction k arbitrary: n)
  case (Suc k)
  have "unat (word_of_nat (n mod 256) :: u8) = n mod 256"
    by (simp add: unat_of_nat)
  then show ?case using Suc by (simp add: mod_mult2_eq)
qed simp

lemma nat_from_le_less: "nat_from_le bs < 256 ^ length bs"
proof (induction bs)
  case (Cons b bs)
  have "unat b < 256" by (rule unat_less_byte)
  with Cons show ?case by simp
qed simp

lemma nat_to_le_from_le: "nat_to_le (length bs) (nat_from_le bs) = bs"
proof (induction bs)
  case (Cons b bs)
  have "unat b < 256" by (rule unat_less_byte)
  with Cons show ?case by simp
qed simp

lemma u32_le_roundtrip [le_simps]: "u32_from_le_bytes (u32_to_le_bytes w) = w"
proof -
  have "unat w < 256 ^ 4" using unsigned_less [of w, where ?'a = nat] by simp
  then show ?thesis
    by (simp add: u32_from_le_bytes_def u32_to_le_bytes_def nat_from_le_to_le)
qed

lemma u64_le_roundtrip [le_simps]: "u64_from_le_bytes (u64_to_le_bytes w) = w"
proof -
  have "unat w < 256 ^ 8" using unsigned_less [of w, where ?'a = nat] by simp
  then show ?thesis
    by (simp add: u64_from_le_bytes_def u64_to_le_bytes_def nat_from_le_to_le)
qed

lemma length_u32_to_le_bytes [simp]: "length (u32_to_le_bytes w) = 4"
  by (simp add: u32_to_le_bytes_def)

lemma length_u64_to_le_bytes [simp]: "length (u64_to_le_bytes w) = 8"
  by (simp add: u64_to_le_bytes_def)

lemma u32_to_from_le [le_simps]: "length bs = 4 \<Longrightarrow> u32_to_le_bytes (u32_from_le_bytes bs) = bs"
proof -
  assume l: "length bs = 4"
  then have "nat_from_le bs < 2 ^ 32" using nat_from_le_less [of bs] by simp
  then have "unat (word_of_nat (nat_from_le bs) :: u32) = nat_from_le bs"
    by (simp add: unat_of_nat)
  then show ?thesis
    using nat_to_le_from_le [of bs] l by (simp add: u32_to_le_bytes_def u32_from_le_bytes_def)
qed

lemma u64_to_from_le [le_simps]: "length bs = 8 \<Longrightarrow> u64_to_le_bytes (u64_from_le_bytes bs) = bs"
proof -
  assume l: "length bs = 8"
  then have "nat_from_le bs < 2 ^ 64" using nat_from_le_less [of bs] by simp
  then have "unat (word_of_nat (nat_from_le bs) :: u64) = nat_from_le bs"
    by (simp add: unat_of_nat)
  then show ?thesis
    using nat_to_le_from_le [of bs] l by (simp add: u64_to_le_bytes_def u64_from_le_bytes_def)
qed

subsection \<open>Vectors\<close>

lemma swap_remove_eq:
  "i < length xs \<Longrightarrow> swap_remove xs i = Some (take i xs @
     (if i = length xs - 1 then [] else last xs # butlast (drop (Suc i) xs)))"
  by (auto simp: swap_remove_def upd_conv_take_nth_drop butlast_append last_drop butlast_take)

lemma swap_remove_length: "swap_remove xs i = Some ys \<Longrightarrow> length ys = length xs - 1"
  by (auto simp: swap_remove_def split: if_splits)

lemma swap_remove_take: "swap_remove xs i = Some ys \<Longrightarrow> take i ys = take i xs"
  by (auto simp: swap_remove_def take_butlast split: if_splits)

lemma concat_chunks: "0 < n \<Longrightarrow> concat (chunks n xs) = xs"
  by (induction n xs rule: chunks.induct) (simp add: chunks.simps)

lemma chunks_size: "c \<in> set (chunks n xs) \<Longrightarrow> c \<noteq> [] \<and> length c \<le> n"
proof (induction n xs rule: chunks.induct)
  case (1 n xs)
  show ?case
  proof (cases "n = 0 \<or> xs = []")
    case False
    with 1 show ?thesis by (auto simp: chunks.simps [of n xs])
  qed (use 1 in \<open>simp add: chunks.simps\<close>)
qed

end
