(* ===== verification/Sync_Primitives.thy ===== *)
theory Sync_Primitives
  imports Rust_Prelude
begin

text \<open>
  The small synchronisation components of the SDK: the log \<open>Throttler\<close>
  (\<open>throttler.rs\<close>), the counting \<open>Semaphore\<close> that admits service calls and asset
  fetches (\<open>websocket/semaphore.rs\<close>, at the granularity of its atomic operations), the
  copy-on-write vector of connected clients (\<open>websocket/cow_vec.rs\<close>) and the lossy send on
  a bounded queue (\<open>websocket/connected_client/send_lossy.rs\<close>). The flume queue that
  \<open>send_lossy\<close> uses is a third-party crate: its operations are a parameter.
\<close>

section \<open>Throttler\<close>

text \<open>\<open>Instant\<close> and \<open>Duration\<close> are counted in nanoseconds; the reading of
  \<open>Instant::now()\<close> is an argument.\<close>

record Throttler =
  interval :: nat
  next_at :: "nat option"

definition throttler_new :: "nat \<Rightarrow> Throttler" where
  "throttler_new i = \<lparr> interval = i, next_at = None \<rparr>"

definition throttler_try_acquire :: "nat \<Rightarrow> Throttler \<Rightarrow> bool \<times> Throttler" where
  "throttler_try_acquire now t =
     (if (case next_at t of None \<Rightarrow> False | Some u \<Rightarrow> now < u) then (False, t)
      else (True, t \<lparr> next_at := Some (now + interval t) \<rparr>))"

text \<open>A sequence of calls at the given instants; the result lists the instants at which the
  action was allowed.\<close>

fun throttler_run :: "Throttler \<Rightarrow> nat list \<Rightarrow> nat list" where
  "throttler_run t [] = []"
| "throttler_run t (now # rest) =
     (case throttler_try_acquire now t of (ok, t') \<Rightarrow>
        if ok then now # throttler_run t' rest else throttler_run t' rest)"

lemma throttler_run_ge:
  "next_at t = Some u \<Longrightarrow> x \<in> set (throttler_run t ns) \<Longrightarrow> u \<le> x"
proof (induction ns arbitrary: t u)
  case (Cons n ns)
  show ?case
  proof (cases "n < u")
    case True
    with Cons show ?thesis by (simp add: throttler_try_acquire_def)
  next
    case False
    with Cons.prems
    have "x = n \<or> x \<in> set (throttler_run (t \<lparr> next_at := Some (n + interval t) \<rparr>) ns)"
      by (simp add: throttler_try_acquire_def)
    with False Cons.IH [of "t \<lparr> next_at := Some (n + interval t) \<rparr>" "n + interval t"]
    show ?thesis by force
  qed
qed simp

lemma throttler_run_spaced:
  "sorted_wrt (\<lambda>a b. a + interval t \<le> b) (throttler_run t ns)"
proof (induction ns arbitrary: t)
  case (Cons n ns)
  let ?t = "t \<lparr> next_at := Some (n + interval t) \<rparr>"
  have "\<forall>x \<in> set (throttler_run ?t ns). n + interval t \<le> x"
    using throttler_run_ge [of ?t "n + interval t"] by simp
  then show ?case
    using Cons.IH [of ?t] Cons.IH [of t] by (simp add: throttler_try_acquire_def)
qed simp

section \<open>Semaphore\<close>

text \<open>
  The shared \<open>AtomicUsize\<close>, the guards alive, and for every thread where it stands in the
  loop of \<open>try_acquire\<close>: outside it, about to load, or holding the value it loaded and
  about to compare and exchange. A step is one atomic operation of one thread, so every
  interleaving is a run.
\<close>

datatype sem_pc = Outside | At_load | At_cas nat

record Semaphore =
  counter :: nat
  guards :: nat
  threads :: "nat \<Rightarrow> sem_pc"

definition semaphore_new :: "nat \<Rightarrow> Semaphore" where
  "semaphore_new n = \<lparr> counter = n, guards = 0, threads = (\<lambda>_. Outside) \<rparr>"

datatype sem_event = Call nat | Refused nat | Loaded nat | Acquired nat | Retried nat | Dropped

definition sem_load :: "nat \<Rightarrow> Semaphore \<Rightarrow> sem_event \<times> Semaphore" where
  "sem_load i s =
     (if counter s = 0 then (Refused i, s \<lparr> threads := (threads s)(i := Outside) \<rparr>)
      else (Loaded i, s \<lparr> threads := (threads s)(i := At_cas (counter s)) \<rparr>))"

definition sem_compare_exchange :: "nat \<Rightarrow> nat \<Rightarrow> Semaphore \<Rightarrow> sem_event \<times> Semaphore" where
  "sem_compare_exchange i current s =
     (if counter s = current
      then (Acquired i, s \<lparr> counter := current - 1, guards := Suc (guards s),
                           threads := (threads s)(i := Outside) \<rparr>)
      else (Retried i, s \<lparr> threads := (threads s)(i := At_load) \<rparr>))"

text \<open>\<open>fetch_add\<close> wraps around at the width of \<open>usize\<close>.\<close>

definition sem_guard_drop :: "Semaphore \<Rightarrow> Semaphore" where
  "sem_guard_drop s = s \<lparr> counter := (counter s + 1) mod 2 ^ 64, guards := guards s - 1 \<rparr>"

inductive sem_step :: "Semaphore \<Rightarrow> sem_event \<Rightarrow> Semaphore \<Rightarrow> bool" where
  step_call: "threads s i = Outside \<Longrightarrow>
    sem_step s (Call i) (s \<lparr> threads := (threads s)(i := At_load) \<rparr>)"
| step_load: "threads s i = At_load \<Longrightarrow> sem_load i s = (e, s') \<Longrightarrow> sem_step s e s'"
| step_cas: "threads s i = At_cas c \<Longrightarrow> sem_compare_exchange i c s = (e, s') \<Longrightarrow> sem_step s e s'"
| step_drop: "0 < guards s \<Longrightarrow> sem_step s Dropped (sem_guard_drop s)"

inductive sem_reachable :: "nat \<Rightarrow> sem_event list \<Rightarrow> Semaphore \<Rightarrow> bool" for n where
  reach_new: "sem_reachable n [] (semaphore_new n)"
| reach_step: "sem_reachable n es s \<Longrightarrow> sem_step s e s' \<Longrightarrow> sem_reachable n (es @ [e]) s'"

text \<open>The operation run by one thread with no other thread in between.\<close>

definition semaphore_try_acquire :: "Semaphore \<Rightarrow> bool \<times> Semaphore" where
  "semaphore_try_acquire s =
     (if counter s = 0 then (False, s)
      else (True, s \<lparr> counter := counter s - 1, guards := Suc (guards s) \<rparr>))"

definition sem_inv :: "nat \<Rightarrow> Semaphore \<Rightarrow> bool" where
  "sem_inv n s \<longleftrightarrow> counter s + guards s = n \<and> (\<forall>i c. threads s i = At_cas c \<longrightarrow> 0 < c)"

lemma sem_step_inv: "sem_step s e s' \<Longrightarrow> n < 2 ^ 64 \<Longrightarrow> sem_inv n s \<Longrightarrow> sem_inv n s'"
  by (induction rule: sem_step.induct)
    (auto simp: sem_inv_def sem_load_def sem_compare_exchange_def sem_guard_drop_def
      split: if_splits)

lemma sem_reachable_inv: "sem_reachable n es s \<Longrightarrow> n < 2 ^ 64 \<Longrightarrow> sem_inv n s"
proof (induction rule: sem_reachable.induct)
  case (reach_step es s e s')
  then show ?case by (blast intro: sem_step_inv)
qed (simp add: sem_inv_def semaphore_new_def)

lemma semaphore_try_acquire_steps:
  assumes "threads s i = Outside"
  shows "semaphore_try_acquire s =
    (let s1 = s \<lparr> threads := (threads s)(i := At_load) \<rparr>; (e2, s2) = sem_load i s1 in
     if e2 = Refused i then (False, s2)
     else let (e3, s3) = sem_compare_exchange i (counter s) s2 in (e3 = Acquired i, s3))"
  using assms
  by (simp add: semaphore_try_acquire_def sem_load_def sem_compare_exchange_def fun_upd_idem)

inductive_cases sem_step_RefusedE: "sem_step s (Refused i) s'"
inductive_cases sem_step_AcquiredE: "sem_step s (Acquired i) s'"

lemma sem_step_Refused: "sem_step s (Refused i) s' \<Longrightarrow> counter s = 0"
  by (erule sem_step_RefusedE) (auto simp: sem_load_def sem_compare_exchange_def split: if_splits)

definition sem_acquires :: "sem_event list \<Rightarrow> nat" where
  "sem_acquires es = length (filter (\<lambda>e. case e of Acquired _ \<Rightarrow> True | _ \<Rightarrow> False) es)"

definition sem_drops :: "sem_event list \<Rightarrow> nat" where
  "sem_drops es = length (filter (\<lambda>e. e = Dropped) es)"

lemma sem_step_count:
  "sem_step s e s' \<Longrightarrow> guards s' + sem_drops [e] = guards s + sem_acquires [e]"
  by (induction rule: sem_step.induct)
    (auto simp: sem_load_def sem_compare_exchange_def sem_guard_drop_def sem_drops_def
      sem_acquires_def split: if_splits)

lemma sem_reachable_count:
  "sem_reachable n es s \<Longrightarrow> guards s + sem_drops es = sem_acquires es"
proof (induction rule: sem_reachable.induct)
  case (reach_step es s e s')
  then show ?case using sem_step_count [of s e s']
    by (simp add: sem_drops_def sem_acquires_def)
qed (simp add: semaphore_new_def sem_drops_def sem_acquires_def)

section \<open>Copy-on-write vector\<close>

record 'a CowVec =
  inner :: "'a list"
  frozen :: bool

definition cowvec_new :: "'a CowVec" where
  "cowvec_new = \<lparr> inner = [], frozen = False \<rparr>"

definition cowvec_push :: "'a \<Rightarrow> 'a CowVec \<Rightarrow> bool \<times> 'a CowVec" where
  "cowvec_push x v = (if frozen v then (False, v) else (True, v \<lparr> inner := inner v @ [x] \<rparr>))"

text \<open>In a debug build \<open>retain\<close> asserts that a frozen vector is empty; \<open>None\<close> is that
  panic.\<close>

definition cowvec_retain :: "('a \<Rightarrow> bool) \<Rightarrow> 'a CowVec \<Rightarrow> 'a CowVec may_panic" where
  "cowvec_retain p v =
     (if frozen v then (if inner v = [] then Some v else None)
      else Some (v \<lparr> inner := filter p (inner v) \<rparr>))"

definition cowvec_take_and_freeze :: "'a CowVec \<Rightarrow> 'a list \<times> 'a CowVec" where
  "cowvec_take_and_freeze v = (inner v, \<lparr> inner = [], frozen = True \<rparr>)"

datatype 'a cow_op = Push 'a | Retain "'a \<Rightarrow> bool" | Take_and_freeze

fun cow_exec :: "'a cow_op \<Rightarrow> 'a CowVec \<Rightarrow> 'a CowVec may_panic" where
  "cow_exec (Push x) v = Some (snd (cowvec_push x v))"
| "cow_exec (Retain p) v = cowvec_retain p v"
| "cow_exec Take_and_freeze v = Some (snd (cowvec_take_and_freeze v))"

fun cow_run :: "'a cow_op list \<Rightarrow> 'a CowVec \<Rightarrow> 'a CowVec may_panic" where
  "cow_run [] v = Some v"
| "cow_run (e # es) v = do { v' \<leftarrow> cow_exec e v; cow_run es v' }"

definition cow_inv :: "'a CowVec \<Rightarrow> bool" where
  "cow_inv v \<longleftrightarrow> (frozen v \<longrightarrow> inner v = [])"

lemma cow_exec_inv: "cow_inv v \<Longrightarrow> \<exists>v'. cow_exec e v = Some v' \<and> cow_inv v'"
  by (cases e)
    (auto simp: cow_inv_def cowvec_push_def cowvec_retain_def cowvec_take_and_freeze_def)

lemma cow_run_inv: "cow_inv v \<Longrightarrow> \<exists>v'. cow_run es v = Some v' \<and> cow_inv v'"
proof (induction es arbitrary: v)
  case (Cons e es)
  then obtain v' where "cow_exec e v = Some v'" "cow_inv v'" using cow_exec_inv by blast
  with Cons.IH [of v'] show ?case by simp
qed simp

lemma cow_run_frozen: "frozen v \<Longrightarrow> cow_run es v = Some v' \<Longrightarrow> frozen v'"
proof (induction es arbitrary: v)
  case (Cons e es)
  then obtain u where u: "cow_exec e v = Some u" "cow_run es u = Some v'"
    by (auto split: bind_splits)
  with Cons.prems(1) have "frozen u"
    by (cases e) (auto simp: cowvec_push_def cowvec_retain_def cowvec_take_and_freeze_def
        split: if_splits)
  with u Cons.IH show ?case by blast
qed simp

section \<open>Lossy send on a bounded queue\<close>

text \<open>
  A flume queue of capacity \<open>cap\<close> is the list of the messages in it, oldest first.
  \<open>flume_laws\<close> is what flume documents for a queue whose receiver is held: \<open>try_send\<close>
  appends to a queue that is not full and hands the message back from a full one, and
  \<open>try_recv\<close> takes the oldest message. A queue of capacity 0 hands over to waiting
  receivers only and is left open.
\<close>

datatype 'm TrySendError = Full 'm | Disconnected 'm

record 'm flume =
  try_send :: "nat \<Rightarrow> 'm list \<Rightarrow> 'm \<Rightarrow> 'm TrySendError + 'm list"
  try_recv :: "'m list \<Rightarrow> ('m \<times> 'm list) option"

definition flume_laws :: "'m flume \<Rightarrow> bool" where
  "flume_laws F \<longleftrightarrow>
     (\<forall>cap q m. 0 < cap \<longrightarrow>
        try_send F cap q m = (if length q < cap then Inr (q @ [m]) else Inl (Full m)))
     \<and> (\<forall>q. try_recv F q = (case q of [] \<Rightarrow> None | x # r \<Rightarrow> Some (x, r)))"

datatype SendLossyResult = Sent | SentLossy nat | ExhaustedRetries

text \<open>
  The loop of \<open>send_lossy\<close>; \<open>now\<close> is the clock reading of the throttler of the log line
  and \<open>None\<close> the panic of \<open>unreachable!\<close>. The number of messages dropped grows up to
  \<open>retries\<close>.
\<close>

function send_lossy_loop ::
  "'m flume \<Rightarrow> nat \<Rightarrow> nat \<Rightarrow> 'm \<Rightarrow> nat \<Rightarrow> nat \<Rightarrow> 'm list \<Rightarrow> Throttler
    \<Rightarrow> (SendLossyResult \<times> 'm list \<times> Throttler) may_panic" where
  "send_lossy_loop F now cap m retries dropped q t =
     (case try_send F cap q m of
        Inr q' \<Rightarrow>
          if dropped = 0 then Some (Sent, q', t)
          else Some (SentLossy dropped, q', snd (throttler_try_acquire now t))
      | Inl (Disconnected _) \<Rightarrow> None
      | Inl (Full rejected) \<Rightarrow>
          if dropped \<ge> retries then Some (ExhaustedRetries, q, snd (throttler_try_acquire now t))
          else send_lossy_loop F now cap rejected retries (dropped + 1)
                 (case try_recv F q of None \<Rightarrow> q | Some (_, r) \<Rightarrow> r) t)"
  by pat_completeness auto
termination
  by (relation "measure (\<lambda>(F, now, cap, m, retries, dropped, q, t). retries - dropped)") auto

declare send_lossy_loop.simps [simp del]

definition send_lossy ::
  "'m flume \<Rightarrow> nat \<Rightarrow> nat \<Rightarrow> 'm \<Rightarrow> nat \<Rightarrow> 'm list \<Rightarrow> Throttler
    \<Rightarrow> (SendLossyResult \<times> 'm list \<times> Throttler) may_panic" where
  "send_lossy F now cap m retries q t = send_lossy_loop F now cap m retries 0 q t"

lemma send_lossy_room:
  assumes "flume_laws F" "length q < cap"
  shows "send_lossy_loop F now cap m retries d q t =
    Some (if d = 0 then (Sent, q @ [m], t)
          else (SentLossy d, q @ [m], snd (throttler_try_acquire now t)))"
proof -
  from assms have "try_send F cap q m = Inr (q @ [m])"
    unfolding flume_laws_def by (metis gr_implies_not_zero neq0_conv)
  then show ?thesis by (simp add: send_lossy_loop.simps)
qed

lemma send_lossy_full:
  assumes "flume_laws F" "cap \<le> length q" "0 < cap" "d < retries"
  shows "send_lossy_loop F now cap m retries d q t =
    send_lossy_loop F now cap m retries (Suc d) (drop 1 q) t"
proof -
  from assms have "try_send F cap q m = Inl (Full m)"
    unfolding flume_laws_def by (metis leD)
  moreover from assms have "(case try_recv F q of None \<Rightarrow> q | Some (_, r) \<Rightarrow> r) = drop 1 q"
    by (cases q) (auto simp: flume_laws_def)
  ultimately show ?thesis using assms by (subst send_lossy_loop.simps) simp
qed

text \<open>The queue the code maintains never holds more than its capacity, so a single drop makes
  room: with at least one retry the send always succeeds.\<close>

lemma send_lossy_bounded:
  assumes "flume_laws F" "length q \<le> cap" "0 < cap" "0 < retries"
  shows "send_lossy F now cap m retries q t =
    Some (if length q < cap then (Sent, q @ [m], t)
          else (SentLossy 1, drop 1 q @ [m], snd (throttler_try_acquire now t)))"
proof (cases "length q < cap")
  case True
  then show ?thesis using assms by (simp add: send_lossy_def send_lossy_room)
next
  case False
  then have "send_lossy_loop F now cap m retries 0 q t =
      send_lossy_loop F now cap m retries 1 (drop 1 q) t"
    using assms send_lossy_full [of F cap q 0 retries now m t] by simp
  then show ?thesis
    using assms False send_lossy_room [of F "drop 1 q" cap now m retries 1 t]
    by (simp add: send_lossy_def)
qed

text \<open>A sequence of lossy sends, with no receiver in between.\<close>

fun send_all_lossy ::
  "'m flume \<Rightarrow> nat \<Rightarrow> nat \<Rightarrow> nat \<Rightarrow> 'm list \<Rightarrow> 'm list \<Rightarrow> Throttler \<Rightarrow> 'm list may_panic" where
  "send_all_lossy F now cap retries [] q t = Some q"
| "send_all_lossy F now cap retries (m # ms) q t = do {
     (r, q', t') \<leftarrow> send_lossy F now cap m retries q t;
     send_all_lossy F now cap retries ms q' t'
   }"

definition last_n :: "nat \<Rightarrow> 'a list \<Rightarrow> 'a list" where
  "last_n n xs = drop (length xs - n) xs"

lemma last_n_snoc_full: "length q = n \<Longrightarrow> 0 < n \<Longrightarrow> last_n n (drop 1 q @ m # ms) = last_n n (q @ m # ms)"
  by (cases q) (auto simp: last_n_def)

lemma send_all_lossy_last_n:
  assumes "flume_laws F" "0 < cap" "0 < retries"
  shows "length q \<le> cap \<Longrightarrow> send_all_lossy F now cap retries ms q t = Some (last_n cap (q @ ms))"
proof (induction ms arbitrary: q t)
  case (Cons m ms)
  show ?case
  proof (cases "length q < cap")
    case True
    with Cons assms show ?thesis by (simp add: send_lossy_bounded)
  next
    case False
    with Cons.prems have full: "length q = cap" by simp
    then have "last_n cap (drop 1 q @ m # ms) = last_n cap (q @ m # ms)"
      using assms by (rule_tac last_n_snoc_full) auto
    with full Cons.IH [of "drop 1 q @ [m]"] assms show ?thesis
      by (simp add: send_lossy_bounded)
  qed
qed (simp add: last_n_def)

section \<open>Properties\<close>

lemma throttler_run_complete:
  "n \<in> set ns \<Longrightarrow> n \<in> set (throttler_run t ns) \<or> (\<exists>u \<in> set (throttler_run t ns). n < u + interval t)
     \<or> (\<exists>u. next_at t = Some u \<and> n < u)"
proof (induction ns arbitrary: t)
  case (Cons m ns)
  show ?case
  proof (cases "fst (throttler_try_acquire m t)")
    case True
    then have t: "throttler_try_acquire m t = (True, t \<lparr> next_at := Some (m + interval t) \<rparr>)"
      by (auto simp: throttler_try_acquire_def split: if_splits option.splits)
    then show ?thesis using Cons.prems Cons.IH [of "t \<lparr> next_at := Some (m + interval t) \<rparr>"] by auto
  next
    case False
    then have "throttler_try_acquire m t = (False, t)" and "\<exists>u. next_at t = Some u \<and> m < u"
      by (auto simp: throttler_try_acquire_def split: if_splits option.splits)
    then show ?thesis using Cons.prems Cons.IH [of t] by auto
  qed
qed simp

text \<open>C40: whatever the interleaving of the threads, the permits left and the guards alive add up
  to the initial number of permits, the guards alive are the acquisitions less the drops, a
  call is refused only while every permit is out, and a thread that runs alone gets a permit
  exactly when one is left.\<close>

theorem semaphore_admission:
  assumes "sem_reachable n es s" "n < 2 ^ 64"
  shows "counter s + guards s = n \<and> sem_acquires es = guards s + sem_drops es
    \<and> (\<forall>i s'. sem_step s (Refused i) s' \<longrightarrow> guards s = n)
    \<and> (fst (semaphore_try_acquire s) \<longleftrightarrow> guards s < n)"
proof -
  have inv: "counter s + guards s = n" using sem_reachable_inv [OF assms] by (simp add: sem_inv_def)
  moreover have "guards s = n" if "sem_step s (Refused i) s'" for i s'
    using sem_step_Refused [OF that] inv by simp
  moreover have "fst (semaphore_try_acquire s) \<longleftrightarrow> guards s < n"
    using inv by (auto simp: semaphore_try_acquire_def)
  ultimately show ?thesis using sem_reachable_count [OF assms(1)] by simp
qed

theorem semaphore_admission_witness:
  "\<exists>s. sem_reachable 1 [Call 7, Loaded 7, Acquired 7] s \<and> guards s = 1
     \<and> \<not> fst (semaphore_try_acquire s)"
proof -
  let ?s0 = "semaphore_new 1"
  let ?s1 = "?s0 \<lparr> threads := (threads ?s0)(7 := At_load) \<rparr>"
  let ?s2 = "?s1 \<lparr> threads := (threads ?s1)(7 := At_cas 1) \<rparr>"
  let ?s3 = "?s2 \<lparr> counter := 0, guards := 1, threads := (threads ?s2)(7 := Outside) \<rparr>"
  have "sem_step ?s0 (Call 7) ?s1" by (rule step_call) (simp add: semaphore_new_def)
  moreover have "sem_step ?s1 (Loaded 7) ?s2"
    by (rule step_load [where i = 7]) (simp_all add: semaphore_new_def sem_load_def)
  moreover have "sem_step ?s2 (Acquired 7) ?s3"
    by (rule step_cas [where i = 7 and c = 1]) (simp_all add: semaphore_new_def sem_compare_exchange_def)
  ultimately have r: "sem_reachable 1 ([] @ [Call 7] @ [Loaded 7] @ [Acquired 7]) ?s3"
    unfolding append_assoc [symmetric] by (intro reach_step [OF reach_step [OF reach_step [OF reach_new]]])
  then show ?thesis using semaphore_admission [OF r] by (intro exI [of _ ?s3]) simp
qed

text \<open>A sequence of lossy sends on a queue whose receiver does not read never panics and
  leaves exactly the newest messages in the queue, as many as its capacity admits and in the
  order in which they were sent; a single send loses at most one message.\<close>

theorem lossy_queue_keeps_newest:
  assumes "flume_laws F" "0 < cap" "0 < retries" "length q \<le> cap"
  shows "send_all_lossy F now cap retries ms q t = Some (last_n cap (q @ ms))
    \<and> (\<exists>t'. send_lossy F now cap m retries q t =
          Some (if length q < cap then Sent else SentLossy 1, last_n cap (q @ [m]), t'))"
  using assms send_all_lossy_last_n [OF assms(1-3), of q now ms t] send_lossy_bounded [OF assms(1,4,2,3), of now m t]
  by (cases q) (auto simp: last_n_def)

definition std_flume :: "'m flume" where
  "std_flume = \<lparr>
     try_send = (\<lambda>cap q m. if length q < cap then Inr (q @ [m]) else Inl (Full m)),
     try_recv = (\<lambda>q. case q of [] \<Rightarrow> None | x # r \<Rightarrow> Some (x, r)) \<rparr>"

theorem lossy_queue_keeps_newest_witness:
  "flume_laws (std_flume :: nat flume)
   \<and> send_all_lossy std_flume 5 2 3 [10, 20, 30] [1 :: nat] (throttler_new 30) = Some [20, 30]"
proof -
  have F: "flume_laws (std_flume :: nat flume)" by (simp add: flume_laws_def std_flume_def)
  then show ?thesis
    using lossy_queue_keeps_newest [OF F, of 2 3 "[1]" 5 "[10, 20, 30]" "throttler_new 30"]
    by (simp add: last_n_def)
qed

text \<open>Any two calls that a throttler lets through are at least its interval apart, and a
  call is refused only when it comes less than the interval after one that was let through.\<close>

theorem throttler_rate:
  "sorted_wrt (\<lambda>a b. a + i \<le> b) (throttler_run (throttler_new i) ns)
   \<and> (\<forall>n \<in> set ns. n \<in> set (throttler_run (throttler_new i) ns)
        \<or> (\<exists>u \<in> set (throttler_run (throttler_new i) ns). n < u + i))"
  using throttler_run_spaced [of "throttler_new i" ns] throttler_run_complete [of _ ns "throttler_new i"]
  by (auto simp: throttler_new_def)

theorem throttler_rate_witness:
  "throttler_run (throttler_new 30) [0, 10, 29, 30, 31] = [0, 30]
   \<and> (\<exists>u \<in> set (throttler_run (throttler_new 30) [0, 10, 29, 30, 31]). 29 < u + 30)"
proof -
  have run: "throttler_run (throttler_new 30) [0, 10, 29, 30, 31] = [0, 30]"
    by (simp add: throttler_new_def throttler_try_acquire_def)
  then show ?thesis using throttler_rate [of 30 "[0, 10, 29, 30, 31]"] by auto
qed

text \<open>No sequence of operations on the copy-on-write vector trips its assertion, and once it
  has been taken and frozen it stays empty whatever is pushed later.\<close>

theorem cowvec_frozen_stays_empty:
  "\<exists>v v'. cow_run es cowvec_new = Some v \<and> cow_run es' (snd (cowvec_take_and_freeze v)) = Some v'
     \<and> inner v' = [] \<and> fst (cowvec_take_and_freeze v) = inner v"
proof -
  obtain v where v: "cow_run es cowvec_new = Some v" "cow_inv v"
    using cow_run_inv [of cowvec_new es] by (auto simp: cow_inv_def cowvec_new_def)
  let ?f = "snd (cowvec_take_and_freeze v)"
  have f: "cow_inv ?f" "frozen ?f" by (simp_all add: cow_inv_def cowvec_take_and_freeze_def)
  obtain v' where v': "cow_run es' ?f = Some v'" "cow_inv v'" using cow_run_inv [OF f(1)] by blast
  with cow_run_frozen [OF f(2)] v show ?thesis
    by (auto simp: cow_inv_def cowvec_take_and_freeze_def)
qed

end
