(* ===== verification/Subscriptions.thy ===== *)
theory Subscriptions
  imports Rust_Prelude
begin

text \<open>
  The collection of sink subscriptions of a context (\<open>context/subscriptions.rs\<close>): its
  two maps, every operation with the boolean it returns, the invariant its documentation
  promises, and the refinement of an abstract index, a set of global subscribers and a set
  of subscribers for each channel. The locale \<open>subscriber_index\<close> states what the context
  relies on; it is interpreted here on the operations of the code.
\<close>

section \<open>Definitions\<close>

type_synonym ChannelId = u64
type_synonym SinkId = u64

text \<open>An \<open>Arc<dyn Sink>\<close> is a handle that carries the identifier that \<open>Sink::id\<close>
  returns, which is unique in the program (\<open>sink.rs\<close>).\<close>

datatype dyn_sink = Dyn_sink (sink_id: SinkId)

record Subscriptions =
  global :: "(SinkId, dyn_sink) hash_map"
  by_channel :: "(ChannelId, (SinkId, dyn_sink) hash_map) hash_map"

definition subs_default :: Subscriptions where
  "subs_default = \<lparr> global = [], by_channel = [] \<rparr>"

definition subs_clear :: "Subscriptions \<Rightarrow> Subscriptions" where
  "subs_clear s = s \<lparr> global := [], by_channel := [] \<rparr>"

text \<open>The \<open>retain\<close> of \<open>subscribe_global\<close> and \<open>remove_subscriber\<close>: take the sink out of
  every inner map and keep the inner maps that are not empty.\<close>

definition retain_without ::
  "SinkId \<Rightarrow> (ChannelId, (SinkId, dyn_sink) hash_map) hash_map
    \<Rightarrow> (ChannelId, (SinkId, dyn_sink) hash_map) hash_map" where
  "retain_without i m =
     filter (\<lambda>(c, subs). subs \<noteq> []) (map (\<lambda>(c, subs). (c, hm_remove i subs)) m)"

definition subscribe_global :: "dyn_sink \<Rightarrow> Subscriptions \<Rightarrow> bool \<times> Subscriptions" where
  "subscribe_global sink s =
     (let i = sink_id sink; s' = s \<lparr> global := hm_insert i sink (global s) \<rparr> in
      if hm_get (global s) i = None
      then (True, s' \<lparr> by_channel := retain_without i (by_channel s) \<rparr>)
      else (False, s'))"

text \<open>The body of the loop of \<open>subscribe_channels\<close>.\<close>

definition entry_insert ::
  "dyn_sink \<Rightarrow> ChannelId \<Rightarrow> bool \<times> (ChannelId, (SinkId, dyn_sink) hash_map) hash_map
    \<Rightarrow> bool \<times> (ChannelId, (SinkId, dyn_sink) hash_map) hash_map" where
  "entry_insert sink c = (\<lambda>(inserted, m).
     let subs = (case hm_get m c of None \<Rightarrow> [] | Some x \<Rightarrow> x) in
     (inserted \<or> hm_get subs (sink_id sink) = None,
      hm_insert c (hm_insert (sink_id sink) sink subs) m))"

definition subscribe_channels ::
  "dyn_sink \<Rightarrow> ChannelId list \<Rightarrow> Subscriptions \<Rightarrow> bool \<times> Subscriptions" where
  "subscribe_channels sink cs s =
     (if hm_contains (sink_id sink) (global s) then (False, s)
      else case fold (entry_insert sink) cs (False, by_channel s) of
        (inserted, m) \<Rightarrow> (inserted, s \<lparr> by_channel := m \<rparr>))"

text \<open>The body of the loop of \<open>unsubscribe_channels\<close>.\<close>

definition entry_remove ::
  "SinkId \<Rightarrow> ChannelId \<Rightarrow> bool \<times> (ChannelId, (SinkId, dyn_sink) hash_map) hash_map
    \<Rightarrow> bool \<times> (ChannelId, (SinkId, dyn_sink) hash_map) hash_map" where
  "entry_remove i c = (\<lambda>(removed, m).
     case hm_get m c of
       None \<Rightarrow> (removed, m)
     | Some subs \<Rightarrow>
         if hm_get subs i = None then (removed, m)
         else let subs' = hm_remove i subs in
              (True, if subs' = [] then hm_remove c m else hm_insert c subs' m))"

definition unsubscribe_channels ::
  "SinkId \<Rightarrow> ChannelId list \<Rightarrow> Subscriptions \<Rightarrow> bool \<times> Subscriptions" where
  "unsubscribe_channels i cs s =
     (case fold (entry_remove i) cs (False, by_channel s) of
        (removed, m) \<Rightarrow> (removed, s \<lparr> by_channel := m \<rparr>))"

definition remove_channel_subscriptions ::
  "ChannelId \<Rightarrow> Subscriptions \<Rightarrow> bool \<times> Subscriptions" where
  "remove_channel_subscriptions c s =
     (hm_contains c (by_channel s), s \<lparr> by_channel := hm_remove c (by_channel s) \<rparr>)"

definition remove_subscriber :: "SinkId \<Rightarrow> Subscriptions \<Rightarrow> bool \<times> Subscriptions" where
  "remove_subscriber i s =
     (if hm_contains i (global s) then (True, s \<lparr> global := hm_remove i (global s) \<rparr>)
      else (list_ex (\<lambda>(c, subs). hm_contains i subs) (by_channel s),
            s \<lparr> by_channel := retain_without i (by_channel s) \<rparr>))"

definition get_subscribers :: "Subscriptions \<Rightarrow> ChannelId \<Rightarrow> dyn_sink list" where
  "get_subscribers s c =
     hm_values (global s) @
     (case hm_get (by_channel s) c of None \<Rightarrow> [] | Some subs \<Rightarrow> hm_values subs)"

text \<open>The operations as data, for sequences of them. The result is whether something changed; \<open>clear\<close> has none,
  and is given one here.\<close>

datatype subs_op =
  Clear
| Subscribe_global dyn_sink
| Subscribe_channels dyn_sink "ChannelId list"
| Unsubscribe_channels SinkId "ChannelId list"
| Remove_channel_subscriptions ChannelId
| Remove_subscriber SinkId

fun subs_exec :: "subs_op \<Rightarrow> Subscriptions \<Rightarrow> bool \<times> Subscriptions" where
  "subs_exec Clear s = (s \<noteq> subs_default, subs_clear s)"
| "subs_exec (Subscribe_global k) s = subscribe_global k s"
| "subs_exec (Subscribe_channels k cs) s = subscribe_channels k cs s"
| "subs_exec (Unsubscribe_channels i cs) s = unsubscribe_channels i cs s"
| "subs_exec (Remove_channel_subscriptions c) s = remove_channel_subscriptions c s"
| "subs_exec (Remove_subscriber i) s = remove_subscriber i s"

definition subs_run :: "subs_op list \<Rightarrow> Subscriptions" where
  "subs_run es = fold (\<lambda>e s. snd (subs_exec e s)) es subs_default"

section \<open>The abstract index\<close>

text \<open>What the collection means: who is subscribed to everything, and who is subscribed to
  each channel in particular.\<close>

type_synonym index = "SinkId set \<times> (ChannelId \<Rightarrow> SinkId set)"

fun index_exec :: "subs_op \<Rightarrow> index \<Rightarrow> index" where
  "index_exec Clear (G, C) = ({}, \<lambda>_. {})"
| "index_exec (Subscribe_global k) (G, C) = (insert (sink_id k) G, \<lambda>c. C c - {sink_id k})"
| "index_exec (Subscribe_channels k cs) (G, C) =
     (if sink_id k \<in> G then (G, C)
      else (G, \<lambda>c. if c \<in> set cs then insert (sink_id k) (C c) else C c))"
| "index_exec (Unsubscribe_channels i cs) (G, C) =
     (G, \<lambda>c. if c \<in> set cs then C c - {i} else C c)"
| "index_exec (Remove_channel_subscriptions d) (G, C) = (G, C(d := {}))"
| "index_exec (Remove_subscriber i) (G, C) = (G - {i}, \<lambda>c. C c - {i})"

definition chan_ids :: "(ChannelId, (SinkId, dyn_sink) hash_map) hash_map \<Rightarrow> ChannelId \<Rightarrow> SinkId set"
  where "chan_ids m c = (case hm_get m c of None \<Rightarrow> {} | Some subs \<Rightarrow> set (hm_keys subs))"

definition subs_abs :: "Subscriptions \<Rightarrow> index" where
  "subs_abs s = (set (hm_keys (global s)), chan_ids (by_channel s))"

definition index_subscribers :: "index \<Rightarrow> ChannelId \<Rightarrow> SinkId set" where
  "index_subscribers ix c = fst ix \<union> snd ix c"

section \<open>The invariant\<close>

definition sinks_wf :: "(SinkId, dyn_sink) hash_map \<Rightarrow> bool" where
  "sinks_wf m \<longleftrightarrow> hm_wf m \<and> (\<forall>(k, v) \<in> set m. sink_id v = k)"

definition chans_wf :: "(ChannelId, (SinkId, dyn_sink) hash_map) hash_map \<Rightarrow> bool" where
  "chans_wf m \<longleftrightarrow> hm_wf m \<and> (\<forall>(c, subs) \<in> set m. subs \<noteq> [] \<and> sinks_wf subs)"

definition subs_wf :: "Subscriptions \<Rightarrow> bool" where
  "subs_wf s \<longleftrightarrow> sinks_wf (global s) \<and> chans_wf (by_channel s)
     \<and> (\<forall>c. set (hm_keys (global s)) \<inter> chan_ids (by_channel s) c = {})"

section \<open>Lemmas\<close>

lemma sinks_wf_alt:
  "sinks_wf m \<longleftrightarrow> hm_wf m \<and> (\<forall>k v. hm_get m k = Some v \<longrightarrow> sink_id v = k)"
  unfolding sinks_wf_def by (rule conj_cong [OF refl]) (simp add: hm_wf_Ball)

lemma sinks_wf_insert [hm_distinct]: "sinks_wf m \<Longrightarrow> sinks_wf (hm_insert (sink_id k) k m)"
  by (auto simp: sinks_wf_alt hm_wf_insert hm_simps)

lemma sinks_wf_remove [hm_distinct]: "sinks_wf m \<Longrightarrow> sinks_wf (hm_remove i m)"
  by (auto simp: sinks_wf_alt hm_wf_remove hm_simps)

lemma sinks_wf_values: "sinks_wf m \<Longrightarrow> map sink_id (hm_values m) = hm_keys m"
  by (auto simp: sinks_wf_def hm_keys_def hm_values_def)

lemma chans_wf_alt:
  "chans_wf m \<longleftrightarrow> hm_wf m \<and> (\<forall>c subs. hm_get m c = Some subs \<longrightarrow> subs \<noteq> [] \<and> sinks_wf subs)"
  unfolding chans_wf_def by (rule conj_cong [OF refl]) (simp add: hm_wf_Ball)

lemma sinks_wf_Nil [simp]: "sinks_wf []"
  by (simp add: sinks_wf_def hm_wf_Nil)

lemma chans_wf_Nil [simp]: "chans_wf []"
  by (simp add: chans_wf_def hm_wf_Nil)

lemma chan_ids_Nil [simp]: "chan_ids [] = (\<lambda>_. {})"
  by (simp add: chan_ids_def fun_eq_iff)

lemma chan_ids_insert [simp]:
  "chan_ids (hm_insert c subs m) = (chan_ids m)(c := set (hm_keys subs))"
  by (auto simp: chan_ids_def hm_get_insert fun_eq_iff)

lemma chan_ids_remove [simp]: "chan_ids (hm_remove c m) = (chan_ids m)(c := {})"
  by (auto simp: chan_ids_def hm_get_remove fun_eq_iff)

lemma hm_get_retain_without:
  assumes "hm_wf m"
  shows "hm_get (retain_without i m) c =
    (case hm_get m c of None \<Rightarrow> None
     | Some subs \<Rightarrow> if hm_remove i subs = [] then None else Some (hm_remove i subs))"
  unfolding retain_without_def
  using hm_wf_map [OF assms, of "\<lambda>_. hm_remove i"]
  by (auto simp: hm_get_filter hm_get_map [where f = "\<lambda>_. hm_remove i"] split: option.splits)

lemma chan_ids_retain_without [simp]:
  "hm_wf m \<Longrightarrow> chan_ids (retain_without i m) = (\<lambda>c. chan_ids m c - {i})"
  by (auto simp: chan_ids_def hm_get_retain_without fun_eq_iff split: option.splits
      dest!: hm_remove_empty_keys)

lemma chans_wf_retain_without: "chans_wf m \<Longrightarrow> chans_wf (retain_without i m)"
  unfolding chans_wf_alt
  using hm_wf_map [of m "\<lambda>_. hm_remove i"]
  by (auto simp: retain_without_def hm_wf_filter
      hm_get_retain_without [unfolded retain_without_def] sinks_wf_remove
      split: option.splits if_splits)

lemma entry_insert_spec:
  assumes "chans_wf m"
  shows "chans_wf (snd (entry_insert k c (b, m)))"
    and "chan_ids (snd (entry_insert k c (b, m))) = (chan_ids m)(c := insert (sink_id k) (chan_ids m c))"
    and "fst (entry_insert k c (b, m)) \<longleftrightarrow> b \<or> sink_id k \<notin> chan_ids m c"
proof -
  have "sinks_wf (case hm_get m c of None \<Rightarrow> [] | Some x \<Rightarrow> x)"
    using assms by (auto simp: chans_wf_alt split: option.splits)
  then show "chans_wf (snd (entry_insert k c (b, m)))"
    using assms by (auto simp: entry_insert_def Let_def chans_wf_alt hm_get_insert hm_wf_insert
        sinks_wf_insert)
  show "chan_ids (snd (entry_insert k c (b, m))) =
      (chan_ids m)(c := insert (sink_id k) (chan_ids m c))"
    by (auto simp: entry_insert_def Let_def chan_ids_def hm_get_insert fun_eq_iff
        split: option.splits)
  show "fst (entry_insert k c (b, m)) \<longleftrightarrow> b \<or> sink_id k \<notin> chan_ids m c"
    by (auto simp: entry_insert_def Let_def chan_ids_def hm_keys_iff split: option.splits)
qed

lemma fold_entry_insert:
  assumes "chans_wf m" "fold (entry_insert k) cs (b, m) = (b', m')"
  shows "chans_wf m' \<and> chan_ids m' = (\<lambda>c. if c \<in> set cs then insert (sink_id k) (chan_ids m c) else chan_ids m c)
    \<and> (b' \<longleftrightarrow> b \<or> (\<exists>c \<in> set cs. sink_id k \<notin> chan_ids m c))"
  using assms
proof (induction cs arbitrary: b m)
  case (Cons c cs)
  obtain b1 m1 where 1: "entry_insert k c (b, m) = (b1, m1)" by fastforce
  with Cons.prems entry_insert_spec [of m k c b]
  have "chans_wf m1" "chan_ids m1 = (chan_ids m)(c := insert (sink_id k) (chan_ids m c))"
    "b1 \<longleftrightarrow> b \<or> sink_id k \<notin> chan_ids m c" by simp_all
  with Cons.IH [of m1 b1] Cons.prems 1 show ?case by (auto simp: fun_eq_iff)
qed auto

lemma entry_remove_spec:
  assumes "chans_wf m"
  shows "chans_wf (snd (entry_remove i c (b, m)))"
    and "chan_ids (snd (entry_remove i c (b, m))) = (chan_ids m)(c := chan_ids m c - {i})"
    and "fst (entry_remove i c (b, m)) \<longleftrightarrow> b \<or> i \<in> chan_ids m c"
proof -
  show "chans_wf (snd (entry_remove i c (b, m)))"
    using assms
    by (auto simp: entry_remove_def Let_def chans_wf_alt hm_get_insert hm_get_remove
        hm_wf_insert hm_wf_remove sinks_wf_remove split: option.splits if_splits)
  show "fst (entry_remove i c (b, m)) \<longleftrightarrow> b \<or> i \<in> chan_ids m c"
    by (auto simp: entry_remove_def Let_def chan_ids_def hm_keys_iff split: option.splits)
  have gone: "set (hm_keys subs) - {i} = {}" if "hm_remove i subs = []" for subs :: "(SinkId, dyn_sink) hash_map"
    using hm_remove_empty_keys [OF that] by auto
  show "chan_ids (snd (entry_remove i c (b, m))) = (chan_ids m)(c := chan_ids m c - {i})"
  proof (cases "hm_get m c")
    case (Some subs)
    then have ids: "chan_ids m c = set (hm_keys subs)" by (simp add: chan_ids_def)
    show ?thesis
    proof (cases "hm_get subs i = None")
      case True
      then have "i \<notin> chan_ids m c" by (simp add: ids hm_keys_iff)
      then show ?thesis using True Some by (simp add: entry_remove_def)
    next
      case False
      then show ?thesis
        using Some ids gone [of subs] by (auto simp: entry_remove_def Let_def fun_eq_iff)
    qed
  qed (auto simp: entry_remove_def chan_ids_def fun_eq_iff)
qed

lemma fold_entry_remove:
  assumes "chans_wf m" "fold (entry_remove i) cs (b, m) = (b', m')"
  shows "chans_wf m' \<and> chan_ids m' = (\<lambda>c. if c \<in> set cs then chan_ids m c - {i} else chan_ids m c)
    \<and> (b' \<longleftrightarrow> b \<or> (\<exists>c \<in> set cs. i \<in> chan_ids m c))"
  using assms
proof (induction cs arbitrary: b m)
  case (Cons c cs)
  obtain b1 m1 where 1: "entry_remove i c (b, m) = (b1, m1)" by fastforce
  with Cons.prems entry_remove_spec [of m i c b]
  have "chans_wf m1" "chan_ids m1 = (chan_ids m)(c := chan_ids m c - {i})"
    "b1 \<longleftrightarrow> b \<or> i \<in> chan_ids m c" by simp_all
  with Cons.IH [of m1 b1] Cons.prems 1 show ?case by (auto simp: fun_eq_iff)
qed auto

lemma subs_wf_default: "subs_wf subs_default"
  by (simp add: subs_wf_def subs_default_def sinks_wf_def chans_wf_def hm_wf_Nil)

lemma subs_default_abs: "subs_wf s \<Longrightarrow> s = subs_default \<longleftrightarrow> subs_abs s = ({}, \<lambda>_. {})"
proof
  assume wf: "subs_wf s" and e: "subs_abs s = ({}, \<lambda>_. {})"
  then have "global s = []" by (simp add: subs_abs_def)
  moreover have "hm_get (by_channel s) c = None" for c
    using wf e by (auto simp: subs_abs_def subs_wf_def chans_wf_alt chan_ids_def fun_eq_iff
        split: option.splits)
  then have "by_channel s = []" by (simp add: hm_empty_iff)
  ultimately show "s = subs_default" by (simp add: subs_default_def)
qed (simp add: subs_default_def subs_abs_def)

lemma subs_exec_abs:
  assumes "subs_wf s"
  shows "subs_abs (snd (subs_exec e s)) = index_exec e (subs_abs s)"
proof (cases e)
  case (Subscribe_global k)
  have "chan_ids (by_channel s) c - {sink_id k} = chan_ids (by_channel s) c"
    if "hm_get (global s) (sink_id k) \<noteq> None" for c
    using assms that unfolding subs_wf_def hm_keys_iff [symmetric] by blast
  then show ?thesis
    using assms Subscribe_global
    by (auto simp: subs_wf_def chans_wf_def subscribe_global_def Let_def subs_abs_def)
next
  case (Subscribe_channels k cs)
  obtain b m where f: "fold (entry_insert k) cs (False, by_channel s) = (b, m)" by fastforce
  show ?thesis
    using assms fold_entry_insert [OF _ f] Subscribe_channels f
    by (simp add: subs_wf_def subscribe_channels_def subs_abs_def hm_contains_keys)
next
  case (Unsubscribe_channels i cs)
  obtain b m where f: "fold (entry_remove i) cs (False, by_channel s) = (b, m)" by fastforce
  show ?thesis
    using assms fold_entry_remove [OF _ f] Unsubscribe_channels f
    by (simp add: subs_wf_def unsubscribe_channels_def subs_abs_def)
next
  case (Remove_subscriber i)
  have "chan_ids (by_channel s) c - {i} = chan_ids (by_channel s) c"
    if "i \<in> set (hm_keys (global s))" for c
    using assms that unfolding subs_wf_def by blast
  then show ?thesis
    using assms Remove_subscriber
    by (auto simp: subs_wf_def chans_wf_def remove_subscriber_def subs_abs_def hm_contains_keys)
qed (simp_all add: subs_clear_def subs_abs_def remove_channel_subscriptions_def)

lemma subs_exec_maps_wf:
  assumes "subs_wf s"
  shows "sinks_wf (global (snd (subs_exec e s))) \<and> chans_wf (by_channel (snd (subs_exec e s)))"
proof (cases e)
  case (Subscribe_channels k cs)
  obtain b m where f: "fold (entry_insert k) cs (False, by_channel s) = (b, m)" by fastforce
  show ?thesis using assms fold_entry_insert [OF _ f] Subscribe_channels f
    by (simp add: subs_wf_def subscribe_channels_def)
next
  case (Unsubscribe_channels i cs)
  obtain b m where f: "fold (entry_remove i) cs (False, by_channel s) = (b, m)" by fastforce
  show ?thesis using assms fold_entry_remove [OF _ f] Unsubscribe_channels f
    by (simp add: subs_wf_def unsubscribe_channels_def)
next
  case (Remove_channel_subscriptions c)
  then show ?thesis using assms
    by (auto simp: subs_wf_def remove_channel_subscriptions_def chans_wf_alt hm_get_remove
        hm_wf_remove split: if_splits)
qed (use assms in \<open>auto simp: subs_wf_def subs_clear_def subscribe_global_def Let_def
      remove_subscriber_def sinks_wf_insert sinks_wf_remove chans_wf_retain_without\<close>)

lemma index_exec_disjoint:
  "(\<And>c. fst ix \<inter> snd ix c = {}) \<Longrightarrow> fst (index_exec e ix) \<inter> snd (index_exec e ix) c = {}"
  by (cases ix, cases e) (auto split: if_splits)

lemma subs_exec_wf: "subs_wf s \<Longrightarrow> subs_wf (snd (subs_exec e s))"
  using subs_exec_maps_wf [of s e] subs_exec_abs [of s e] index_exec_disjoint [of "subs_abs s" e]
  by (auto simp: subs_wf_def subs_abs_def prod_eq_iff)

text \<open>The boolean that an operation returns says whether the index changed.\<close>

lemma subs_exec_changed:
  assumes "subs_wf s"
  shows "fst (subs_exec e s) \<longleftrightarrow> index_exec e (subs_abs s) \<noteq> subs_abs s"
proof (cases e)
  case Clear
  then show ?thesis using subs_default_abs [OF assms] by (cases "subs_abs s") auto
next
  case (Subscribe_global k)
  have "chan_ids (by_channel s) c - {sink_id k} = chan_ids (by_channel s) c"
    if "hm_get (global s) (sink_id k) \<noteq> None" for c
    using assms that unfolding subs_wf_def hm_keys_iff [symmetric] by blast
  moreover have "hm_get (global s) (sink_id k) = None \<longleftrightarrow> sink_id k \<notin> set (hm_keys (global s))"
    by (simp add: hm_keys_iff)
  ultimately show ?thesis using Subscribe_global
    by (auto simp: subscribe_global_def Let_def subs_abs_def insert_absorb)
next
  case (Subscribe_channels k cs)
  obtain b m where f: "fold (entry_insert k) cs (False, by_channel s) = (b, m)" by fastforce
  show ?thesis
    using assms fold_entry_insert [OF _ f] Subscribe_channels f
    by (auto simp: subs_wf_def subscribe_channels_def subs_abs_def hm_contains_keys fun_eq_iff)
next
  case (Unsubscribe_channels i cs)
  obtain b m where f: "fold (entry_remove i) cs (False, by_channel s) = (b, m)" by fastforce
  show ?thesis
    using assms fold_entry_remove [OF _ f] Unsubscribe_channels f
    by (auto simp: subs_wf_def unsubscribe_channels_def subs_abs_def fun_eq_iff)
next
  case (Remove_channel_subscriptions c)
  then show ?thesis using assms
    by (auto simp: remove_channel_subscriptions_def subs_abs_def chan_ids_def subs_wf_def
        chans_wf_alt hm_contains_def fun_eq_iff split: option.splits)
next
  case (Remove_subscriber i)
  have "list_ex (\<lambda>(c, subs). hm_contains i subs) (by_channel s)
      \<longleftrightarrow> (\<exists>c. i \<in> chan_ids (by_channel s) c)"
  proof -
    have "(\<forall>(c, subs) \<in> set (by_channel s). \<not> hm_contains i subs)
        \<longleftrightarrow> (\<forall>c. i \<notin> chan_ids (by_channel s) c)"
      using assms by (subst hm_wf_Ball)
        (auto simp: subs_wf_def chans_wf_def chan_ids_def hm_contains_keys split: option.splits)
    then show ?thesis by (auto simp: list_ex_iff)
  qed
  then show ?thesis using Remove_subscriber
    by (auto simp: remove_subscriber_def subs_abs_def hm_contains_keys fun_eq_iff)
qed

lemma get_subscribers_ids:
  "subs_wf s \<Longrightarrow> sink_id ` set (get_subscribers s c) = index_subscribers (subs_abs s) c"
  by (auto simp: get_subscribers_def index_subscribers_def subs_abs_def chan_ids_def subs_wf_def
      chans_wf_alt image_Un simp flip: sinks_wf_values split: option.splits)

lemma get_subscribers_distinct:
  assumes "subs_wf s"
  shows "distinct (map sink_id (get_subscribers s c))"
proof (cases "hm_get (by_channel s) c")
  case None
  with assms show ?thesis
    by (simp add: get_subscribers_def subs_wf_def sinks_wf_values)
      (simp add: sinks_wf_def hm_wf_def hm_keys_def)
next
  case (Some subs)
  with assms have "sinks_wf subs" "set (hm_keys (global s)) \<inter> set (hm_keys subs) = {}"
    by (auto simp: subs_wf_def chans_wf_alt chan_ids_def dest!: spec [of _ c])
  with assms Some show ?thesis
    by (simp add: get_subscribers_def subs_wf_def sinks_wf_values)
      (simp add: sinks_wf_def hm_wf_def hm_keys_def)
qed

lemma subs_run_wf: "subs_wf (subs_run es)"
proof -
  have "subs_wf s \<Longrightarrow> subs_wf (fold (\<lambda>e s. snd (subs_exec e s)) es s)" for s
    by (induction es arbitrary: s) (auto simp: subs_exec_wf)
  then show ?thesis by (simp add: subs_run_def subs_wf_default)
qed

lemma subs_run_abs: "subs_abs (subs_run es) = fold index_exec es ({}, \<lambda>_. {})"
proof -
  have "subs_wf s \<Longrightarrow> subs_abs (fold (\<lambda>e s. snd (subs_exec e s)) es s) = fold index_exec es (subs_abs s)"
    for s
    by (induction es arbitrary: s) (auto simp: subs_exec_wf subs_exec_abs)
  from this [OF subs_wf_default] show ?thesis
    by (simp add: subs_run_def) (simp add: subs_abs_def subs_default_def)
qed

section \<open>The interface the context relies on\<close>

text \<open>
  A client of the index caches the subscribers of some channels. The contract: an operation
  that returns false changes no channel's subscribers, and one that returns true changes them
  at most for the channels it touches. Then refreshing the cache for the touched channels,
  only when the operation returned true, keeps every cached entry current.
\<close>

locale subscriber_index =
  fixes wf :: "'s \<Rightarrow> bool"
    and subscribers :: "'s \<Rightarrow> ChannelId \<Rightarrow> dyn_sink list"
    and exec :: "'op \<Rightarrow> 's \<Rightarrow> bool \<times> 's"
    and touched :: "'op \<Rightarrow> ChannelId set"
  assumes exec_wf: "wf s \<Longrightarrow> wf (snd (exec e s))"
    and exec_false: "wf s \<Longrightarrow> \<not> fst (exec e s) \<Longrightarrow>
      set (subscribers (snd (exec e s)) c) = set (subscribers s c)"
    and exec_frame: "wf s \<Longrightarrow> c \<notin> touched e \<Longrightarrow>
      set (subscribers (snd (exec e s)) c) = set (subscribers s c)"
    and subscribers_distinct: "wf s \<Longrightarrow> distinct (map sink_id (subscribers s c))"
begin

definition current :: "'s \<Rightarrow> (ChannelId \<Rightarrow> dyn_sink list option) \<Rightarrow> bool" where
  "current s cache \<longleftrightarrow> (\<forall>c l. cache c = Some l \<longrightarrow> set l = set (subscribers s c))"

lemma current_exec:
  assumes "wf s" "current s cache"
    and refreshed: "\<And>c. fst (exec e s) \<Longrightarrow> c \<in> touched e \<Longrightarrow>
      cache' c = map_option (\<lambda>_. subscribers (snd (exec e s)) c) (cache c)"
    and kept: "\<And>c. \<not> (fst (exec e s) \<and> c \<in> touched e) \<Longrightarrow> cache' c = cache c"
  shows "current (snd (exec e s)) cache'"
  unfolding current_def
proof (intro allI impI)
  fix c l
  assume l: "cache' c = Some l"
  show "set l = set (subscribers (snd (exec e s)) c)"
  proof (cases "fst (exec e s) \<and> c \<in> touched e")
    case True
    with refreshed l show ?thesis by auto
  next
    case False
    with kept l assms(2) have "set l = set (subscribers s c)" by (auto simp: current_def)
    with False exec_false exec_frame assms(1) show ?thesis by metis
  qed
qed

end

fun subs_touched :: "subs_op \<Rightarrow> ChannelId set" where
  "subs_touched (Subscribe_channels k cs) = set cs"
| "subs_touched (Unsubscribe_channels i cs) = set cs"
| "subs_touched (Remove_channel_subscriptions c) = {c}"
| "subs_touched e = UNIV"

lemma set_eq_sink_ids: "sink_id ` A = sink_id ` B \<Longrightarrow> A = B"
proof -
  have "inj sink_id" by (rule injI) (metis dyn_sink.expand)
  then show "sink_id ` A = sink_id ` B \<Longrightarrow> A = B" by (simp add: inj_image_eq_iff)
qed

lemma get_subscribers_eq:
  assumes "subs_wf s" "subs_wf s'"
    "index_subscribers (subs_abs s) c = index_subscribers (subs_abs s') c"
  shows "set (get_subscribers s c) = set (get_subscribers s' c)"
  using assms by (intro set_eq_sink_ids) (simp add: get_subscribers_ids)

interpretation subs: subscriber_index subs_wf get_subscribers subs_exec subs_touched
proof
  fix s :: Subscriptions and e c
  assume wf: "subs_wf s"
  show "subs_wf (snd (subs_exec e s))" using wf by (rule subs_exec_wf)
  show "distinct (map sink_id (get_subscribers s c))" using wf by (rule get_subscribers_distinct)
  show "set (get_subscribers (snd (subs_exec e s)) c) = set (get_subscribers s c)"
    if "\<not> fst (subs_exec e s)"
    using wf that by (intro get_subscribers_eq) (auto simp: subs_exec_wf subs_exec_abs subs_exec_changed)
  show "set (get_subscribers (snd (subs_exec e s)) c) = set (get_subscribers s c)"
    if "c \<notin> subs_touched e"
  proof (rule get_subscribers_eq)
    show "index_subscribers (subs_abs (snd (subs_exec e s))) c = index_subscribers (subs_abs s) c"
      unfolding subs_exec_abs [OF wf] index_subscribers_def
      using that by (cases "subs_abs s"; cases e) auto
  qed (use wf in \<open>simp_all add: subs_exec_wf\<close>)
qed

section \<open>Properties\<close>

text \<open>C1: every operation of the collection keeps its invariant (no subscriber is in both
  maps, no inner map is empty, keys are unique), does to the abstract index what its
  documentation says, and returns true exactly when it changed the index.\<close>

theorem subs_exec_refines:
  assumes "subs_wf s"
  shows "subs_wf (snd (subs_exec e s)) \<and> subs_abs (snd (subs_exec e s)) = index_exec e (subs_abs s)
    \<and> (fst (subs_exec e s) \<longleftrightarrow> index_exec e (subs_abs s) \<noteq> subs_abs s)"
  using assms by (simp add: subs_exec_wf subs_exec_abs subs_exec_changed)

theorem subs_exec_refines_witness:
  "subs_wf (subs_run [Subscribe_channels (Dyn_sink 7) [1, 2]])
   \<and> subs_wf (snd (subs_exec (Subscribe_global (Dyn_sink 7)) (subs_run [Subscribe_channels (Dyn_sink 7) [1, 2]])))"
  using subs_exec_refines [OF subs_run_wf [of "[Subscribe_channels (Dyn_sink 7) [1, 2]]"],
      of "Subscribe_global (Dyn_sink 7)"] subs_run_wf
  by blast

text \<open>C2: after any sequence of operations, the subscribers that \<open>get_subscribers\<close> returns
  for a channel are the union of the global subscribers and the channel's own, and no
  subscriber is listed twice, so that logging delivers a message to a sink at most once.\<close>

theorem subs_run_subscribers:
  "distinct (map sink_id (get_subscribers (subs_run es) c))
   \<and> sink_id ` set (get_subscribers (subs_run es) c)
       = index_subscribers (fold index_exec es ({}, \<lambda>_. {})) c"
  by (simp add: get_subscribers_distinct subs_run_wf get_subscribers_ids subs_run_abs)

end
