(* ===== verification/Channels.thy ===== *)
theory Channels
  imports Sync_Primitives Subscriptions
begin

text \<open>
  Channels and sinks: \<open>schema.rs\<close>, \<open>metadata.rs\<close>, \<open>channel/channel_descriptor.rs\<close>,
  \<open>channel/raw_channel.rs\<close>, \<open>log_sink_set.rs\<close>, \<open>channel.rs\<close>, \<open>sink.rs\<close> and the
  builder's data of \<open>channel_builder.rs\<close>. The trait \<open>Sink\<close> is a record of functions on a
  world that all the sinks of the program share; a channel logs by calling it.
\<close>

section \<open>Data\<close>

record Schema =
  schema_name :: string
  schema_encoding :: string
  schema_data :: "u8 list"

definition schema_new :: "string \<Rightarrow> string \<Rightarrow> u8 list \<Rightarrow> Schema" where
  "schema_new n e d = \<lparr> schema_name = n, schema_encoding = e, schema_data = d \<rparr>"

text \<open>A \<open>BTreeMap\<close> is the list of its entries in the order of their keys.\<close>

type_synonym btree_metadata = "(string \<times> string) list"

record ChannelDescriptor =
  desc_id :: ChannelId
  desc_topic :: string
  desc_message_encoding :: string
  desc_metadata :: btree_metadata
  desc_schema :: "Schema option"

definition channel_descriptor_new ::
  "ChannelId \<Rightarrow> string \<Rightarrow> string \<Rightarrow> btree_metadata \<Rightarrow> Schema option \<Rightarrow> ChannelDescriptor" where
  "channel_descriptor_new i t e m s =
     \<lparr> desc_id = i, desc_topic = t, desc_message_encoding = e, desc_metadata = m, desc_schema = s \<rparr>"

definition descriptor_matches :: "ChannelDescriptor \<Rightarrow> ChannelDescriptor \<Rightarrow> bool" where
  "descriptor_matches a b \<longleftrightarrow>
     desc_topic a = desc_topic b
     \<and> desc_message_encoding a = desc_message_encoding b
     \<and> desc_metadata a = desc_metadata b
     \<and> desc_schema a = desc_schema b"

record PartialMetadata =
  opt_log_time :: "u64 option"

definition partial_metadata_default :: PartialMetadata where
  "partial_metadata_default = \<lparr> opt_log_time = None \<rparr>"

definition with_log_time :: "u64 \<Rightarrow> PartialMetadata" where
  "with_log_time t = \<lparr> opt_log_time = Some t \<rparr>"

record Metadata =
  log_time :: u64

record RawChannel =
  descriptor :: ChannelDescriptor
  log_sinks :: "dyn_sink list"
  closed :: bool
  warn_throttler :: Throttler

definition WARN_THROTTLER_INTERVAL :: nat where
  "WARN_THROTTLER_INTERVAL = 10 * 1000000000"

definition raw_channel_new ::
  "ChannelId \<Rightarrow> string \<Rightarrow> string \<Rightarrow> Schema option \<Rightarrow> btree_metadata \<Rightarrow> RawChannel" where
  "raw_channel_new i t e s m =
     \<lparr> descriptor = channel_descriptor_new i t e m s, log_sinks = [], closed = False,
       warn_throttler = throttler_new WARN_THROTTLER_INTERVAL \<rparr>"

definition raw_channel_id :: "RawChannel \<Rightarrow> ChannelId" where
  "raw_channel_id ch = desc_id (descriptor ch)"

definition raw_channel_topic :: "RawChannel \<Rightarrow> string" where
  "raw_channel_topic ch = desc_topic (descriptor ch)"

definition raw_channel_matches :: "RawChannel \<Rightarrow> RawChannel \<Rightarrow> bool" where
  "raw_channel_matches a b \<longleftrightarrow> descriptor_matches (descriptor a) (descriptor b)"

definition remove_from_context :: "RawChannel \<Rightarrow> RawChannel" where
  "remove_from_context ch = ch \<lparr> closed := True, log_sinks := [] \<rparr>"

text \<open>\<open>now\<close> is the reading of \<open>Instant::now()\<close>; the boolean says that the warning is
  issued.\<close>

definition log_warn_if_closed :: "nat \<Rightarrow> RawChannel \<Rightarrow> bool \<times> RawChannel" where
  "log_warn_if_closed now ch =
     (if closed ch then
        (case throttler_try_acquire now (warn_throttler ch) of
           (ok, t) \<Rightarrow> (ok, ch \<lparr> warn_throttler := t \<rparr>))
      else (False, ch))"

definition update_sinks :: "dyn_sink list \<Rightarrow> RawChannel \<Rightarrow> RawChannel" where
  "update_sinks ks ch = ch \<lparr> log_sinks := ks \<rparr>"

definition has_sinks :: "RawChannel \<Rightarrow> bool" where
  "has_sinks ch \<longleftrightarrow> log_sinks ch \<noteq> []"

section \<open>Errors\<close>

text \<open>\<open>FoxgloveError\<close>; the boxed and foreign error values are represented by their
  message.\<close>

datatype FoxgloveError =
  Unspecified string
| ValueError string
| Utf8Error string
| SinkClosed
| SchemaRequired
| MessageEncodingRequired
| ServerAlreadyStarted
| Bind string
| DuplicateService string
| MissingRequestEncoding string
| ServicesNotSupported
| ConnectionGraphNotSupported
| IoError string
| McapError string
| EncodeError string
| ConfigurationError string

section \<open>The trait Sink and the fan-out of a log call\<close>

record 'w sink_ops =
  auto_subscribe :: "dyn_sink \<Rightarrow> bool"
  sink_add_channels :: "dyn_sink \<Rightarrow> RawChannel list \<Rightarrow> 'w \<Rightarrow> ChannelId list option \<times> 'w"
  sink_remove_channel :: "dyn_sink \<Rightarrow> RawChannel \<Rightarrow> 'w \<Rightarrow> 'w"
  sink_log :: "dyn_sink \<Rightarrow> RawChannel \<Rightarrow> u8 list \<Rightarrow> Metadata \<Rightarrow> 'w \<Rightarrow> (unit, FoxgloveError) result \<times> 'w"

text \<open>The provided method \<open>Sink::add_channel\<close>.\<close>

definition sink_add_channel :: "'w sink_ops \<Rightarrow> dyn_sink \<Rightarrow> RawChannel \<Rightarrow> 'w \<Rightarrow> bool \<times> 'w" where
  "sink_add_channel T k ch w =
     (case sink_add_channels T k [ch] w of (ids, w') \<Rightarrow>
        ((case ids of None \<Rightarrow> False | Some l \<Rightarrow> raw_channel_id ch \<in> set l), w'))"

text \<open>\<open>LogSinkSet::for_each\<close> and \<open>for_each_filtered\<close>: an error is logged and the loop
  goes on.\<close>

fun for_each :: "(dyn_sink \<Rightarrow> 'w \<Rightarrow> (unit, FoxgloveError) result \<times> 'w) \<Rightarrow> dyn_sink list \<Rightarrow> 'w \<Rightarrow> 'w" where
  "for_each f [] w = w"
| "for_each f (k # ks) w =
     (case f k w of
        (Inl err, w') \<Rightarrow> for_each f ks w'
      | (Inr _, w') \<Rightarrow> for_each f ks w')"

fun for_each_filtered ::
  "(dyn_sink \<Rightarrow> bool) \<Rightarrow> (dyn_sink \<Rightarrow> 'w \<Rightarrow> (unit, FoxgloveError) result \<times> 'w) \<Rightarrow> dyn_sink list \<Rightarrow> 'w \<Rightarrow> 'w"
where
  "for_each_filtered p f [] w = w"
| "for_each_filtered p f (k # ks) w =
     (if p k then
        (case f k w of
           (Inl err, w') \<Rightarrow> for_each_filtered p f ks w'
         | (Inr _, w') \<Rightarrow> for_each_filtered p f ks w')
      else for_each_filtered p f ks w)"

text \<open>\<open>unix_now\<close> is the reading of \<open>nanoseconds_since_epoch\<close>.\<close>

definition log_to_sinks ::
  "'w sink_ops \<Rightarrow> u64 \<Rightarrow> RawChannel \<Rightarrow> u8 list \<Rightarrow> PartialMetadata \<Rightarrow> SinkId option \<Rightarrow> 'w \<Rightarrow> 'w" where
  "log_to_sinks T unix_now ch msg opts target w =
     (let metadata = \<lparr> log_time = (case opt_log_time opts of None \<Rightarrow> unix_now | Some t \<Rightarrow> t) \<rparr> in
      case target of
        Some i \<Rightarrow> for_each_filtered (\<lambda>k. sink_id k = i) (\<lambda>k. sink_log T k ch msg metadata) (log_sinks ch) w
      | None \<Rightarrow> for_each (\<lambda>k. sink_log T k ch msg metadata) (log_sinks ch) w)"

definition log_with_meta_to_sink ::
  "'w sink_ops \<Rightarrow> nat \<Rightarrow> u64 \<Rightarrow> RawChannel \<Rightarrow> u8 list \<Rightarrow> PartialMetadata \<Rightarrow> SinkId option \<Rightarrow> 'w
    \<Rightarrow> RawChannel \<times> 'w" where
  "log_with_meta_to_sink T now unix_now ch msg opts target w =
     (if has_sinks ch then (ch, log_to_sinks T unix_now ch msg opts target w)
      else (snd (log_warn_if_closed now ch), w))"

text \<open>A typed channel encodes first: \<open>encode\<close> stands for the \<open>Encode\<close> implementation of
  the message type, \<open>None\<close> for its error, on which the \<open>unwrap\<close> panics. A channel without
  sinks does not encode.\<close>

definition channel_log_with_meta_to_sink ::
  "('m \<Rightarrow> u8 list option) \<Rightarrow> 'w sink_ops \<Rightarrow> nat \<Rightarrow> u64 \<Rightarrow> RawChannel \<Rightarrow> 'm \<Rightarrow> PartialMetadata
    \<Rightarrow> SinkId option \<Rightarrow> 'w \<Rightarrow> (RawChannel \<times> 'w) may_panic" where
  "channel_log_with_meta_to_sink encode T now unix_now ch msg opts target w =
     (if has_sinks ch then do {
        buf \<leftarrow> encode msg;
        Some (ch, log_to_sinks T unix_now ch buf opts target w)
      }
      else Some (snd (log_warn_if_closed now ch), w))"

section \<open>Channel builder\<close>

record ChannelBuilder =
  cb_topic :: string
  cb_message_encoding :: "string option"
  cb_schema :: "Schema option"
  cb_metadata :: btree_metadata

definition channel_builder_new :: "string \<Rightarrow> ChannelBuilder" where
  "channel_builder_new t =
     \<lparr> cb_topic = t, cb_message_encoding = None, cb_schema = None, cb_metadata = [] \<rparr>"

text \<open>The order of \<open>String\<close> is the lexicographic order of its bytes.\<close>

fun str_less :: "string \<Rightarrow> string \<Rightarrow> bool" where
  "str_less _ [] \<longleftrightarrow> False"
| "str_less [] (_ # _) \<longleftrightarrow> True"
| "str_less (a # as) (b # bs) \<longleftrightarrow>
     (of_char a :: nat) < of_char b \<or> (a = b \<and> str_less as bs)"

fun btree_insert :: "string \<Rightarrow> 'v \<Rightarrow> (string \<times> 'v) list \<Rightarrow> (string \<times> 'v) list" where
  "btree_insert k v [] = [(k, v)]"
| "btree_insert k v ((k', v') # m) =
     (if k = k' then (k, v) # m
      else if str_less k k' then (k, v) # (k', v') # m
      else (k', v') # btree_insert k v m)"

definition builder_schema :: "Schema option \<Rightarrow> ChannelBuilder \<Rightarrow> ChannelBuilder" where
  "builder_schema s b = b \<lparr> cb_schema := s \<rparr>"

definition builder_message_encoding :: "string \<Rightarrow> ChannelBuilder \<Rightarrow> ChannelBuilder" where
  "builder_message_encoding e b = b \<lparr> cb_message_encoding := Some e \<rparr>"

definition builder_metadata :: "btree_metadata \<Rightarrow> ChannelBuilder \<Rightarrow> ChannelBuilder" where
  "builder_metadata m b = b \<lparr> cb_metadata := m \<rparr>"

definition builder_add_metadata :: "string \<Rightarrow> string \<Rightarrow> ChannelBuilder \<Rightarrow> ChannelBuilder" where
  "builder_add_metadata k v b = b \<lparr> cb_metadata := btree_insert k v (cb_metadata b) \<rparr>"

text \<open>What \<open>build\<close> fills in from the \<open>Encode\<close> implementation before \<open>build_raw\<close>.\<close>

definition builder_fill :: "string \<Rightarrow> Schema option \<Rightarrow> ChannelBuilder \<Rightarrow> ChannelBuilder" where
  "builder_fill enc sch b =
     (let b1 = (if cb_message_encoding b = None then b \<lparr> cb_message_encoding := Some enc \<rparr> else b) in
      if cb_schema b1 = None then b1 \<lparr> cb_schema := sch \<rparr> else b1)"

section \<open>Lemmas\<close>

lemma for_each_Cons: "for_each f (k # ks) w = for_each f ks (snd (f k w))"
  by (simp split: prod.split sum.split)

lemma for_each_filtered_Cons:
  "for_each_filtered p f (k # ks) w = for_each_filtered p f ks (if p k then snd (f k w) else w)"
  by (simp split: prod.split sum.split)

lemma for_each_fold: "for_each f ks w = fold (\<lambda>k w. snd (f k w)) ks w"
  by (induction ks arbitrary: w) (simp_all add: for_each_Cons del: for_each.simps(2))

lemma for_each_filtered_fold:
  "for_each_filtered p f ks w = fold (\<lambda>k w. snd (f k w)) (filter p ks) w"
  by (induction ks arbitrary: w)
    (simp_all add: for_each_filtered_Cons del: for_each_filtered.simps(2))

lemma log_to_sinks_fold:
  "log_to_sinks T unix_now ch msg opts target w =
     fold (\<lambda>k w. snd (sink_log T k ch msg
         \<lparr> log_time = (case opt_log_time opts of None \<Rightarrow> unix_now | Some t \<Rightarrow> t) \<rparr> w))
       (filter (\<lambda>k. target = None \<or> target = Some (sink_id k)) (log_sinks ch)) w"
  by (cases target)
    (auto simp: log_to_sinks_def for_each_fold for_each_filtered_fold eq_commute intro!: fold_cong)

lemma raw_channel_fields [simp]:
  "raw_channel_id (raw_channel_new i t e s m) = i"
  "raw_channel_topic (raw_channel_new i t e s m) = t"
  "log_sinks (raw_channel_new i t e s m) = []"
  "\<not> closed (raw_channel_new i t e s m)"
  "descriptor (update_sinks ks ch) = descriptor ch"
  "log_sinks (update_sinks ks ch) = ks"
  "closed (update_sinks ks ch) = closed ch"
  "descriptor (remove_from_context ch) = descriptor ch"
  "log_sinks (remove_from_context ch) = []"
  "closed (remove_from_context ch)"
  by (simp_all add: raw_channel_id_def raw_channel_topic_def raw_channel_new_def
      channel_descriptor_new_def update_sinks_def remove_from_context_def)

lemma log_warn_if_closed_fields [simp]:
  "descriptor (snd (log_warn_if_closed now ch)) = descriptor ch"
  "log_sinks (snd (log_warn_if_closed now ch)) = log_sinks ch"
  "closed (snd (log_warn_if_closed now ch)) = closed ch"
  by (auto simp: log_warn_if_closed_def split: prod.splits)

lemma raw_channel_matches_equiv:
  "raw_channel_matches a a"
  "raw_channel_matches a b \<longleftrightarrow> raw_channel_matches b a"
  "raw_channel_matches a b \<Longrightarrow> raw_channel_matches b c \<Longrightarrow> raw_channel_matches a c"
  "raw_channel_matches a b \<Longrightarrow> raw_channel_topic a = raw_channel_topic b"
  by (auto simp: raw_channel_matches_def descriptor_matches_def raw_channel_topic_def)

lemma str_less_total: "str_less a b \<or> a = b \<or> str_less b a"
proof (induction a b rule: str_less.induct)
  case (1 a)
  then show ?case by (cases a) auto
next
  case (3 a as b bs)
  have "(of_char a :: nat) = of_char b \<longleftrightarrow> a = b" by simp
  with 3 show ?case using linorder_less_linear [of "of_char a :: nat" "of_char b"] by auto
qed simp

lemma str_less_trans: "str_less a b \<Longrightarrow> str_less b c \<Longrightarrow> str_less a c"
proof (induction a b arbitrary: c rule: str_less.induct)
  case (3 a as b bs)
  then show ?case by (cases c) auto
next
  case (2 x xs)
  then show ?case by (cases c) auto
qed simp

lemma str_less_irrefl [simp]: "\<not> str_less a a"
  by (induction a) auto

lemma btree_insert_keys: "fst ` set (btree_insert k v m) = insert k (fst ` set m)"
  by (induction k v m rule: btree_insert.induct) auto

lemma btree_insert_sorted:
  "sorted_wrt str_less (map fst m) \<Longrightarrow> sorted_wrt str_less (map fst (btree_insert k v m))"
proof (induction k v m rule: btree_insert.induct)
  case (2 k v k' v' m)
  then show ?case
    using btree_insert_keys [of k v m] str_less_total [of k k']
    by (auto intro: str_less_trans simp flip: set_map)
qed simp

lemma btree_insert_get:
  "map_of (btree_insert k v m) k'' = (if k'' = k then Some v else map_of m k'')"
  by (induction k v m rule: btree_insert.induct) auto

end
