(* ===== verification/Context.thy ===== *)
theory Context
  imports Channels
begin

text \<open>
  The context, the binding between channels and sinks (\<open>context.rs\<close>), with the operations
  of \<open>channel/raw_channel.rs\<close> and \<open>channel_builder.rs\<close> that go through it. An
  \<open>Arc<RawChannel>\<close> is the identifier under which the channel was allocated in an explicit
  heap, since the context, its topic index and the callers share the channel and the context
  mutates it. The invariant \<open>ctx_wf\<close> is proved for every reachable state, for any
  implementation of the trait \<open>Sink\<close>.
\<close>

section \<open>State\<close>

type_synonym chan_ref = ChannelId

record ContextInner =
  channels :: "(ChannelId, chan_ref) hash_map"
  channels_by_topic :: "(string, chan_ref list) hash_map"
  sinks :: "(SinkId, dyn_sink) hash_map"
  subs :: Subscriptions

definition context_inner_default :: ContextInner where
  "context_inner_default = \<lparr> channels = [], channels_by_topic = [], sinks = [], subs = subs_default \<rparr>"

text \<open>
  The program as the context sees it: the heap of channels, the static counter of channel
  identifiers, the context behind its lock, whether the context is still alive (what
  \<open>Weak::upgrade\<close> tests) and the world of the sinks.
\<close>

record 'w program =
  heap :: "(chan_ref, RawChannel) hash_map"
  next_channel_id :: u64
  ctx :: ContextInner
  ctx_alive :: bool
  world :: 'w

definition program_new :: "'w \<Rightarrow> 'w program" where
  "program_new w = \<lparr> heap = [], next_channel_id = 1, ctx = context_inner_default,
     ctx_alive = True, world = w \<rparr>"

text \<open>Reading a reference. A reference that is not in the heap cannot exist in Rust; the
  invariant shows it does not arise here either.\<close>

definition deref :: "'w program \<Rightarrow> chan_ref \<Rightarrow> RawChannel" where
  "deref s r = (case hm_get (heap s) r of Some ch \<Rightarrow> ch | None \<Rightarrow> raw_channel_new r [] [] None [])"

definition modify_channel :: "chan_ref \<Rightarrow> (RawChannel \<Rightarrow> RawChannel) \<Rightarrow> 'w program \<Rightarrow> 'w program" where
  "modify_channel r f s = s \<lparr> heap := hm_insert r (f (deref s r)) (heap s) \<rparr>"

section \<open>Operations of the context\<close>

definition get_channel_by_topic :: "string \<Rightarrow> 'w program \<Rightarrow> chan_ref option" where
  "get_channel_by_topic t s =
     (case hm_get (channels_by_topic (ctx s)) t of
        None \<Rightarrow> None
      | Some rs \<Rightarrow> (case rs of [] \<Rightarrow> None | r # _ \<Rightarrow> Some r))"

text \<open>One sink is told of the new channel, and subscribed when it asks for it.\<close>

definition notify_sink ::
  "'w sink_ops \<Rightarrow> RawChannel \<Rightarrow> dyn_sink \<Rightarrow> Subscriptions \<times> 'w \<Rightarrow> Subscriptions \<times> 'w" where
  "notify_sink T ch k = (\<lambda>(b, w).
     case sink_add_channel T k ch w of (wants, w') \<Rightarrow>
       (if wants \<and> \<not> auto_subscribe T k
        then snd (Subscriptions.subscribe_channels k [raw_channel_id ch] b) else b, w'))"

definition ctx_add_channel :: "'w sink_ops \<Rightarrow> chan_ref \<Rightarrow> 'w program \<Rightarrow> chan_ref \<times> 'w program" where
  "ctx_add_channel T r s =
     (let ch = deref s r; t = raw_channel_topic ch; c = ctx s;
          topic_channels = (case hm_get (channels_by_topic c) t of None \<Rightarrow> [] | Some rs \<Rightarrow> rs) in
      case find (\<lambda>r'. raw_channel_matches ch (deref s r')) topic_channels of
        Some r' \<Rightarrow>
          (r', s \<lparr> ctx := c \<lparr> channels_by_topic := hm_insert t topic_channels (channels_by_topic c) \<rparr> \<rparr>)
      | None \<Rightarrow>
          let (b, w) = fold (notify_sink T ch) (hm_values (sinks c)) (subs c, world s);
              s' = s \<lparr> ctx := c \<lparr> channels := hm_insert (raw_channel_id ch) r (channels c),
                                  channels_by_topic := hm_insert t (topic_channels @ [r]) (channels_by_topic c),
                                  subs := b \<rparr>, world := w \<rparr> in
          (r, modify_channel r (update_sinks (get_subscribers b (raw_channel_id ch))) s'))"

text \<open>The loop of \<open>update_channel_sinks\<close>.\<close>

definition update_channel_sinks :: "chan_ref list \<Rightarrow> 'w program \<Rightarrow> 'w program" where
  "update_channel_sinks rs s =
     fold (\<lambda>r s. modify_channel r
             (update_sinks (get_subscribers (subs (ctx s)) (raw_channel_id (deref s r)))) s) rs s"

definition update_channel_sinks_by_ids :: "ChannelId list \<Rightarrow> 'w program \<Rightarrow> 'w program" where
  "update_channel_sinks_by_ids ids s =
     update_channel_sinks (List.map_filter (hm_get (channels (ctx s))) ids) s"

definition ctx_remove_channel :: "'w sink_ops \<Rightarrow> ChannelId \<Rightarrow> 'w program \<Rightarrow> bool \<times> 'w program" where
  "ctx_remove_channel T i s =
     (let c = ctx s in
      case hm_get (channels c) i of
        None \<Rightarrow> (False, s)
      | Some r \<Rightarrow>
          let t = raw_channel_topic (deref s r);
              by_topic =
                (case hm_get (channels_by_topic c) t of
                   None \<Rightarrow> channels_by_topic c
                 | Some rs \<Rightarrow>
                     let rs' = filter (\<lambda>r'. raw_channel_id (deref s r') \<noteq> i) rs in
                     if rs' = [] then hm_remove t (channels_by_topic c)
                     else hm_insert t rs' (channels_by_topic c));
              b = snd (remove_channel_subscriptions (raw_channel_id (deref s r)) (subs c));
              s' = modify_channel r remove_from_context
                (s \<lparr> ctx := c \<lparr> channels := hm_remove i (channels c), channels_by_topic := by_topic,
                               subs := b \<rparr> \<rparr>) in
          (True, s' \<lparr> world := fold (\<lambda>k w. sink_remove_channel T k (deref s' r) w)
                                 (hm_values (sinks c)) (world s') \<rparr>))"

definition ctx_add_sink :: "'w sink_ops \<Rightarrow> dyn_sink \<Rightarrow> 'w program \<Rightarrow> bool \<times> 'w program" where
  "ctx_add_sink T k s =
     (let c = ctx s in
      if hm_contains (sink_id k) (sinks c) then (False, s)
      else
        let chans = hm_values (channels c);
            (ids, w) = (if chans \<noteq> [] then sink_add_channels T k (map (deref s) chans) (world s)
                        else (None, world s));
            s1 = s \<lparr> ctx := c \<lparr> sinks := hm_insert (sink_id k) k (sinks c) \<rparr>, world := w \<rparr> in
        (True,
         if auto_subscribe T k then
           (case subscribe_global k (subs c) of (changed, b) \<Rightarrow>
              let s2 = s1 \<lparr> ctx := ctx s1 \<lparr> subs := b \<rparr> \<rparr> in
              if changed then update_channel_sinks chans s2 else s2)
         else
           (case ids of
              None \<Rightarrow> s1
            | Some l \<Rightarrow>
                let l' = filter (\<lambda>i. hm_contains i (channels c)) l in
                if l' = [] then s1
                else (case Subscriptions.subscribe_channels k l' (subs c) of (changed, b) \<Rightarrow>
                        let s2 = s1 \<lparr> ctx := ctx s1 \<lparr> subs := b \<rparr> \<rparr> in
                        if changed then update_channel_sinks_by_ids l' s2 else s2))))"

definition ctx_remove_sink :: "SinkId \<Rightarrow> 'w program \<Rightarrow> bool \<times> 'w program" where
  "ctx_remove_sink i s =
     (case remove_subscriber i (subs (ctx s)) of (changed, b) \<Rightarrow>
        let s1 = s \<lparr> ctx := ctx s \<lparr> subs := b \<rparr> \<rparr>;
            s2 = (if changed then update_channel_sinks (hm_values (channels (ctx s1))) s1 else s1) in
        (hm_contains i (sinks (ctx s2)),
         s2 \<lparr> ctx := ctx s2 \<lparr> sinks := hm_remove i (sinks (ctx s2)) \<rparr> \<rparr>))"

definition ctx_subscribe_channels :: "SinkId \<Rightarrow> ChannelId list \<Rightarrow> 'w program \<Rightarrow> 'w program" where
  "ctx_subscribe_channels i ids s =
     (case hm_get (sinks (ctx s)) i of
        None \<Rightarrow> s
      | Some k \<Rightarrow>
          (case Subscriptions.subscribe_channels k ids (subs (ctx s)) of (changed, b) \<Rightarrow>
             let s1 = s \<lparr> ctx := ctx s \<lparr> subs := b \<rparr> \<rparr> in
             if changed then update_channel_sinks_by_ids ids s1 else s1))"

definition ctx_unsubscribe_channels :: "SinkId \<Rightarrow> ChannelId list \<Rightarrow> 'w program \<Rightarrow> 'w program" where
  "ctx_unsubscribe_channels i ids s =
     (case Subscriptions.unsubscribe_channels i ids (subs (ctx s)) of (changed, b) \<Rightarrow>
        let s1 = s \<lparr> ctx := ctx s \<lparr> subs := b \<rparr> \<rparr> in
        if changed then update_channel_sinks_by_ids ids s1 else s1)"

text \<open>\<open>clear\<close> drains the channels, closing each and telling every sink.\<close>

definition clear_channel :: "'w sink_ops \<Rightarrow> chan_ref \<Rightarrow> 'w program \<Rightarrow> 'w program" where
  "clear_channel T r s =
     (let s' = modify_channel r remove_from_context s in
      s' \<lparr> world := fold (\<lambda>k w. sink_remove_channel T k (deref s' r) w)
                      (hm_values (sinks (ctx s'))) (world s') \<rparr>)"

definition ctx_clear :: "'w sink_ops \<Rightarrow> 'w program \<Rightarrow> 'w program" where
  "ctx_clear T s =
     (let s1 = fold (clear_channel T) (hm_values (channels (ctx s))) s in
      s1 \<lparr> ctx := ctx s1 \<lparr> channels := [], channels_by_topic := [], sinks := [],
                         subs := subs_clear (subs (ctx s1)) \<rparr> \<rparr>)"

text \<open>Dropping the last strong reference.\<close>

definition ctx_drop :: "'w sink_ops \<Rightarrow> 'w program \<Rightarrow> 'w program" where
  "ctx_drop T s = (ctx_clear T s) \<lparr> ctx_alive := False \<rparr>"

section \<open>Operations of a channel that go through its context\<close>

definition alloc_channel ::
  "string \<Rightarrow> string \<Rightarrow> Schema option \<Rightarrow> btree_metadata \<Rightarrow> 'w program \<Rightarrow> chan_ref \<times> 'w program" where
  "alloc_channel t e sch m s =
     (let i = next_channel_id s in
      (i, s \<lparr> next_channel_id := i + 1, heap := hm_insert i (raw_channel_new i t e sch m) (heap s) \<rparr>))"

definition build_raw ::
  "'w sink_ops \<Rightarrow> ChannelBuilder \<Rightarrow> 'w program \<Rightarrow> (chan_ref, FoxgloveError) result \<times> 'w program" where
  "build_raw T b s =
     (case cb_message_encoding b of
        None \<Rightarrow> (Inl MessageEncodingRequired, s)
      | Some e \<Rightarrow>
          (case alloc_channel (cb_topic b) e (cb_schema b) (cb_metadata b) s of (r, s1) \<Rightarrow>
             case ctx_add_channel T r s1 of (r', s2) \<Rightarrow> (Inr r', s2)))"

text \<open>\<open>None\<close> is the panic of \<open>expect\<close>.\<close>

definition build ::
  "'w sink_ops \<Rightarrow> string \<Rightarrow> Schema option \<Rightarrow> ChannelBuilder \<Rightarrow> 'w program \<Rightarrow> (chan_ref \<times> 'w program) may_panic"
  where
  "build T enc sch b s =
     (case build_raw T (builder_fill enc sch b) s of
        (Inl _, _) \<Rightarrow> None
      | (Inr r, s') \<Rightarrow> Some (r, s'))"

definition channel_close :: "'w sink_ops \<Rightarrow> chan_ref \<Rightarrow> 'w program \<Rightarrow> 'w program" where
  "channel_close T r s =
     (if \<not> closed (deref s r) \<and> ctx_alive s
      then snd (ctx_remove_channel T (raw_channel_id (deref s r)) s) else s)"

definition channel_log ::
  "'w sink_ops \<Rightarrow> nat \<Rightarrow> u64 \<Rightarrow> chan_ref \<Rightarrow> u8 list \<Rightarrow> PartialMetadata \<Rightarrow> SinkId option \<Rightarrow> 'w program
    \<Rightarrow> 'w program" where
  "channel_log T now unix_now r msg opts target s =
     (case log_with_meta_to_sink T now unix_now (deref s r) msg opts target (world s) of
        (ch, w) \<Rightarrow> (modify_channel r (\<lambda>_. ch) s) \<lparr> world := w \<rparr>)"

section \<open>Runs\<close>

text \<open>A call that logs a message on a channel, with the readings of the two clocks.\<close>

type_synonym log_call = "nat \<times> u64 \<times> chan_ref \<times> u8 list \<times> PartialMetadata"

definition stamp :: "u64 \<Rightarrow> PartialMetadata \<Rightarrow> Metadata" where
  "stamp unow opts = \<lparr> log_time = (case opt_log_time opts of None \<Rightarrow> unow | Some t \<Rightarrow> t) \<rparr>"

fun log_call :: "'w sink_ops \<Rightarrow> log_call \<Rightarrow> 'w program \<Rightarrow> 'w program" where
  "log_call T (now, unow, r, msg, opts) s = channel_log T now unow r msg opts None s"

abbreviation channel_of_call :: "log_call \<Rightarrow> chan_ref" where
  "channel_of_call l \<equiv> fst (snd (snd l))"

text \<open>The public operations. The world of the sinks may also change on its own, for instance
  when a client of a server sends a message.\<close>

datatype 'w ctx_op =
  Build ChannelBuilder
| Close chan_ref
| Log nat u64 chan_ref "u8 list" PartialMetadata "SinkId option"
| Add_sink dyn_sink
| Remove_sink SinkId
| Ctx_subscribe SinkId "ChannelId list"
| Ctx_unsubscribe SinkId "ChannelId list"
| Drop_context
| Sinks_move "'w \<Rightarrow> 'w"

fun ctx_exec :: "'w sink_ops \<Rightarrow> 'w ctx_op \<Rightarrow> 'w program \<Rightarrow> 'w program" where
  "ctx_exec T (Build b) s = snd (build_raw T b s)"
| "ctx_exec T (Close r) s = channel_close T r s"
| "ctx_exec T (Log now unow r msg opts target) s = channel_log T now unow r msg opts target s"
| "ctx_exec T (Add_sink k) s = snd (ctx_add_sink T k s)"
| "ctx_exec T (Remove_sink i) s = snd (ctx_remove_sink i s)"
| "ctx_exec T (Ctx_subscribe i ids) s = ctx_subscribe_channels i ids s"
| "ctx_exec T (Ctx_unsubscribe i ids) s = ctx_unsubscribe_channels i ids s"
| "ctx_exec T Drop_context s = ctx_drop T s"
| "ctx_exec T (Sinks_move f) s = s \<lparr> world := f (world s) \<rparr>"

text \<open>
  The states a program can reach: callers only hold references of channels that exist, only a
  context that is alive can be used to create channels or manage sinks, and fewer than
  \<open>2 ^ 64\<close> channels are allocated, so that the counter does not wrap around.
\<close>

fun ctx_allowed :: "'w ctx_op \<Rightarrow> 'w program \<Rightarrow> bool" where
  "ctx_allowed (Build b) s \<longleftrightarrow> ctx_alive s \<and> unat (next_channel_id s) + 1 < 2 ^ 64"
| "ctx_allowed (Close r) s \<longleftrightarrow> hm_contains r (heap s)"
| "ctx_allowed (Log now unow r msg opts target) s \<longleftrightarrow> hm_contains r (heap s)"
| "ctx_allowed (Sinks_move f) s \<longleftrightarrow> True"
| "ctx_allowed _ s \<longleftrightarrow> ctx_alive s"

inductive ctx_reachable :: "'w sink_ops \<Rightarrow> 'w program \<Rightarrow> bool" for T where
  reach_start: "ctx_reachable T (program_new w)"
| reach_exec: "ctx_reachable T s \<Longrightarrow> ctx_allowed e s \<Longrightarrow> ctx_reachable T (ctx_exec T e s)"

text \<open>A sequence of allowed operations; \<open>None\<close> when one of them is not allowed.\<close>

fun ctx_run :: "'w sink_ops \<Rightarrow> 'w ctx_op list \<Rightarrow> 'w program \<Rightarrow> 'w program option" where
  "ctx_run T [] s = Some s"
| "ctx_run T (e # es) s = (if ctx_allowed e s then ctx_run T es (ctx_exec T e s) else None)"

section \<open>The invariant\<close>

definition registered :: "'w program \<Rightarrow> chan_ref \<Rightarrow> bool" where
  "registered s r \<longleftrightarrow> hm_contains r (channels (ctx s))"

definition topic_list :: "'w program \<Rightarrow> string \<Rightarrow> chan_ref list" where
  "topic_list s t = (case hm_get (channels_by_topic (ctx s)) t of None \<Rightarrow> [] | Some rs \<Rightarrow> rs)"

definition heap_ok :: "'w program \<Rightarrow> bool" where
  "heap_ok s \<longleftrightarrow> hm_wf (heap s)
     \<and> (\<forall>r. hm_contains r (heap s) \<longrightarrow> raw_channel_id (deref s r) = r \<and> r < next_channel_id s)"

definition chans_ok :: "'w program \<Rightarrow> bool" where
  "chans_ok s \<longleftrightarrow> hm_wf (channels (ctx s))
     \<and> (\<forall>i r. hm_get (channels (ctx s)) i = Some r \<longrightarrow> r = i \<and> hm_contains i (heap s))"

definition topics_ok :: "'w program \<Rightarrow> bool" where
  "topics_ok s \<longleftrightarrow> hm_wf (channels_by_topic (ctx s))
     \<and> (\<forall>t. hm_get (channels_by_topic (ctx s)) t \<noteq> Some [])
     \<and> (\<forall>t. distinct (topic_list s t)
            \<and> set (topic_list s t) = {r. registered s r \<and> raw_channel_topic (deref s r) = t})"

definition unique_ok :: "'w program \<Rightarrow> bool" where
  "unique_ok s \<longleftrightarrow> (\<forall>r r'. registered s r \<longrightarrow> registered s r' \<longrightarrow>
     raw_channel_matches (deref s r) (deref s r') \<longrightarrow> r = r')"

definition links_ok :: "'w sink_ops \<Rightarrow> 'w program \<Rightarrow> bool" where
  "links_ok T s \<longleftrightarrow> sinks_wf (sinks (ctx s)) \<and> subs_wf (subs (ctx s))
     \<and> fst (subs_abs (subs (ctx s))) = {i. \<exists>k. hm_get (sinks (ctx s)) i = Some k \<and> auto_subscribe T k}
     \<and> (\<forall>c. snd (subs_abs (subs (ctx s))) c \<subseteq> set (hm_keys (sinks (ctx s))))"

definition cache_ok :: "'w program \<Rightarrow> bool" where
  "cache_ok s \<longleftrightarrow> (\<forall>r. hm_contains r (heap s) \<longrightarrow>
     (if registered s r
      then \<not> closed (deref s r)
           \<and> set (log_sinks (deref s r)) = set (get_subscribers (subs (ctx s)) r)
           \<and> distinct (map sink_id (log_sinks (deref s r)))
      else log_sinks (deref s r) = []))"

text \<open>The whole invariant: the heap has no dangling or aliased identifier, the topic index
  agrees with the set of channels, no two registered channels match, every subscription
  belongs to a registered sink, and every channel's set of sinks is current.\<close>

definition ctx_wf :: "'w sink_ops \<Rightarrow> 'w program \<Rightarrow> bool" where
  "ctx_wf T s \<longleftrightarrow> heap_ok s \<and> chans_ok s \<and> topics_ok s \<and> unique_ok s \<and> links_ok T s \<and> cache_ok s"

lemmas ctx_ok_defs = heap_ok_def chans_ok_def topics_ok_def unique_ok_def links_ok_def cache_ok_def

section \<open>Lemmas\<close>

subsection \<open>The heap\<close>

lemma deref_modify [simp]:
  "deref (modify_channel r f s) r' = (if r' = r then f (deref s r) else deref s r')"
  by (simp add: deref_def modify_channel_def hm_get_insert)

lemma modify_channel_fields [simp]:
  "ctx (modify_channel r f s) = ctx s"
  "next_channel_id (modify_channel r f s) = next_channel_id s"
  "world (modify_channel r f s) = world s"
  "ctx_alive (modify_channel r f s) = ctx_alive s"
  "hm_contains r' (heap (modify_channel r f s)) \<longleftrightarrow> r' = r \<or> hm_contains r' (heap s)"
  "hm_wf (heap s) \<Longrightarrow> hm_wf (heap (modify_channel r f s))"
  by (auto simp: modify_channel_def hm_contains_def hm_get_insert hm_wf_insert)

lemma deref_cong [simp]:
  "deref (s \<lparr> ctx := c \<rparr>) = deref s"
  "deref (s \<lparr> world := w \<rparr>) = deref s"
  "deref (s \<lparr> ctx_alive := b \<rparr>) = deref s"
  by (auto simp: deref_def fun_eq_iff)

lemma update_channel_sinks_fields [simp]:
  "ctx (update_channel_sinks rs s) = ctx s"
  "next_channel_id (update_channel_sinks rs s) = next_channel_id s"
  "world (update_channel_sinks rs s) = world s"
  "ctx_alive (update_channel_sinks rs s) = ctx_alive s"
  by (induction rs arbitrary: s) (simp_all add: update_channel_sinks_def)

lemma modify_channel_ctx: "modify_channel r f (s \<lparr> ctx := c \<rparr>) = (modify_channel r f s) \<lparr> ctx := c \<rparr>"
  by (simp add: modify_channel_def)

lemma update_channel_sinks_ctx:
  "subs c = subs (ctx s) \<Longrightarrow>
   update_channel_sinks rs (s \<lparr> ctx := c \<rparr>) = (update_channel_sinks rs s) \<lparr> ctx := c \<rparr>"
  by (induction rs arbitrary: s) (simp_all add: update_channel_sinks_def modify_channel_ctx)

lemma update_channel_sinks_deref:
  "deref (update_channel_sinks rs s) r =
     (if r \<in> set rs
      then update_sinks (get_subscribers (subs (ctx s)) (raw_channel_id (deref s r))) (deref s r)
      else deref s r)"
  by (induction rs arbitrary: s)
    (auto simp: update_channel_sinks_def update_sinks_def raw_channel_id_def)

lemma update_channel_sinks_heap:
  "hm_contains r (heap (update_channel_sinks rs s)) \<longleftrightarrow> r \<in> set rs \<or> hm_contains r (heap s)"
  "hm_wf (heap s) \<Longrightarrow> hm_wf (heap (update_channel_sinks rs s))"
  by (induction rs arbitrary: s) (auto simp: update_channel_sinks_def)

text \<open>A change that keeps the descriptors, the identifiers and the channel maps keeps the
  static part of the invariant.\<close>

definition same_shape :: "'w program \<Rightarrow> 'w program \<Rightarrow> bool" where
  "same_shape s s' \<longleftrightarrow>
     hm_wf (heap s') \<and> (\<forall>r. hm_contains r (heap s') \<longleftrightarrow> hm_contains r (heap s))
     \<and> (\<forall>r. descriptor (deref s' r) = descriptor (deref s r))
     \<and> next_channel_id s' = next_channel_id s
     \<and> channels (ctx s') = channels (ctx s)
     \<and> channels_by_topic (ctx s') = channels_by_topic (ctx s)"

lemma same_shape_static:
  assumes "same_shape s s'" "heap_ok s" "chans_ok s" "topics_ok s" "unique_ok s"
  shows "heap_ok s' \<and> chans_ok s' \<and> topics_ok s' \<and> unique_ok s'"
  using assms
  by (simp add: same_shape_def heap_ok_def chans_ok_def topics_ok_def unique_ok_def topic_list_def
      registered_def raw_channel_id_def raw_channel_topic_def raw_channel_matches_def)

lemma registered_heap: "chans_ok s \<Longrightarrow> registered s r \<Longrightarrow> hm_contains r (heap s)"
  by (auto simp: chans_ok_def registered_def hm_contains_iff)

lemma registered_values: "chans_ok s \<Longrightarrow> set (hm_values (channels (ctx s))) = {r. registered s r}"
  by (auto simp: chans_ok_def registered_def hm_contains_iff hm_values_iff) (metis, metis)

lemma registered_ids:
  "chans_ok s \<Longrightarrow> set (List.map_filter (hm_get (channels (ctx s))) ids) = {r \<in> set ids. registered s r}"
  by (fastforce simp: chans_ok_def registered_def hm_contains_iff List.map_filter_def image_iff)

subsection \<open>Changing subscriptions and refreshing the channels\<close>

definition refresh :: "bool \<Rightarrow> chan_ref list \<Rightarrow> 'w program \<Rightarrow> 'w program" where
  "refresh changed rs s = (if changed then update_channel_sinks rs s else s)"

definition channel_cache :: "'w program \<Rightarrow> ChannelId \<Rightarrow> dyn_sink list option" where
  "channel_cache s r = (if registered s r then Some (log_sinks (deref s r)) else None)"

lemma cache_ok_current: "chans_ok s \<Longrightarrow> cache_ok s \<Longrightarrow> subs.current (subs (ctx s)) (channel_cache s)"
  by (auto simp: subs.current_def channel_cache_def cache_ok_def registered_heap split: if_splits)

lemma refresh_wf:
  assumes ok: "heap_ok s" "chans_ok s" "topics_ok s" "unique_ok s" "cache_ok s" "subs_wf (subs (ctx s))"
    and rs: "set rs = {r \<in> subs_touched e. registered s r}"
    and s1: "s1 = s \<lparr> ctx := ctx s \<lparr> sinks := ks, subs := snd (subs_exec e (subs (ctx s))) \<rparr>, world := w \<rparr>"
    and s2: "s2 = refresh (fst (subs_exec e (subs (ctx s)))) rs s1"
  shows "heap_ok s2 \<and> chans_ok s2 \<and> topics_ok s2 \<and> unique_ok s2 \<and> cache_ok s2 \<and> ctx s2 = ctx s1"
proof -
  let ?ch = "fst (subs_exec e (subs (ctx s)))" and ?b = "snd (subs_exec e (subs (ctx s)))"
  have heap1: "heap s1 = heap s" "deref s1 = deref s" "next_channel_id s1 = next_channel_id s"
    by (simp_all add: s1 deref_def fun_eq_iff)
  have ctx2: "ctx s2 = ctx s1" by (simp add: s2 refresh_def)
  have id: "raw_channel_id (deref s r) = r" if "registered s r" for r
    using that ok registered_heap by (auto simp: heap_ok_def)
  have deref2: "deref s2 r = (if ?ch \<and> r \<in> set rs then update_sinks (get_subscribers ?b r) (deref s r)
      else deref s r)" for r
    using rs id by (auto simp: s2 refresh_def update_channel_sinks_deref heap1 s1)
  have in2: "hm_contains r (heap s2) \<longleftrightarrow> hm_contains r (heap s)" for r
    using rs registered_heap [OF ok(2)] by (auto simp: s2 refresh_def update_channel_sinks_heap heap1)
  have shape: "same_shape s s2"
  proof -
    have "hm_wf (heap s2)"
      using ok(1) by (simp add: s2 refresh_def update_channel_sinks_heap heap1 heap_ok_def)
    moreover have "next_channel_id s2 = next_channel_id s" by (simp add: s2 refresh_def heap1)
    moreover have "descriptor (deref s2 r) = descriptor (deref s r)" for r by (simp add: deref2)
    ultimately show ?thesis by (simp add: same_shape_def in2 ctx2) (simp add: s1)
  qed
  have reg2: "registered s2 r \<longleftrightarrow> registered s r" for r
    using shape by (simp add: registered_def same_shape_def)
  have "subs.current ?b (channel_cache s2)"
  proof (rule subs.current_exec [OF ok(6) cache_ok_current [OF ok(2) ok(5)]])
    show "channel_cache s2 c = map_option (\<lambda>_. get_subscribers ?b c) (channel_cache s c)"
      if "?ch" "c \<in> subs_touched e" for c
      using that rs by (auto simp: channel_cache_def reg2 deref2)
    show "channel_cache s2 c = channel_cache s c" if "\<not> (?ch \<and> c \<in> subs_touched e)" for c
      using that rs by (auto simp: channel_cache_def reg2 deref2)
  qed
  moreover have "distinct (map sink_id (get_subscribers ?b c))" for c
    using subs.subscribers_distinct subs.exec_wf ok(6) by blast
  ultimately have "cache_ok s2"
    using ok(5) rs
    by (auto simp: cache_ok_def subs.current_def channel_cache_def in2 reg2 deref2 ctx2 s1
        split: if_splits)
  with same_shape_static [OF shape ok(1-4)] ctx2 show ?thesis by blast
qed

lemma ctx_wfI:
  assumes "heap_ok s \<and> chans_ok s \<and> topics_ok s \<and> unique_ok s \<and> cache_ok s \<and> ctx s = c"
    and "links_ok T (s \<lparr> ctx := c \<rparr>)"
  shows "ctx_wf T s"
  using assms by (simp add: ctx_wf_def links_ok_def)

text \<open>Nothing but the sinks and the world changes.\<close>

lemma frame_ok:
  assumes "s' = s \<lparr> ctx := ctx s \<lparr> sinks := ks \<rparr>, world := w \<rparr>"
    and "heap_ok s \<and> chans_ok s \<and> topics_ok s \<and> unique_ok s \<and> cache_ok s"
  shows "heap_ok s' \<and> chans_ok s' \<and> topics_ok s' \<and> unique_ok s' \<and> cache_ok s'"
proof -
  have "deref s' = deref s" by (simp add: assms(1))
  then show ?thesis using assms
    by (simp add: heap_ok_def chans_ok_def topics_ok_def unique_ok_def cache_ok_def topic_list_def
        registered_def)
qed

lemma hm_get_sinks: "sinks_wf m \<Longrightarrow> hm_get m i = Some k \<Longrightarrow> sink_id k = i"
  by (simp add: sinks_wf_alt)

lemma sink_of_id: "sinks_wf m \<Longrightarrow> hm_get m (sink_id k) \<noteq> None \<Longrightarrow> hm_get m (sink_id k) = Some k"
  using hm_get_sinks dyn_sink.expand by fastforce

text \<open>What a change of the subscriptions has to do to keep the links.\<close>

lemma links_exec:
  assumes "links_ok T s" "sinks_wf ks"
    and "fst (index_exec e (subs_abs (subs (ctx s)))) = {i. \<exists>k. hm_get ks i = Some k \<and> auto_subscribe T k}"
    and "\<And>c. snd (index_exec e (subs_abs (subs (ctx s)))) c \<subseteq> set (hm_keys ks)"
  shows "links_ok T (s \<lparr> ctx := ctx s \<lparr> sinks := ks, subs := snd (subs_exec e (subs (ctx s))) \<rparr>, world := w \<rparr>)"
  using assms subs_exec_wf [of "subs (ctx s)" e] subs_exec_abs [of "subs (ctx s)" e]
  by (simp add: links_ok_def)

lemma refresh_ctx_wf:
  assumes wf: "ctx_wf T s"
    and rs: "set rs = {r \<in> subs_touched e. registered s r}"
    and s1: "s1 = s \<lparr> ctx := ctx s \<lparr> sinks := ks, subs := snd (subs_exec e (subs (ctx s))) \<rparr>, world := w \<rparr>"
    and links: "links_ok T s1"
  shows "ctx_wf T (refresh (fst (subs_exec e (subs (ctx s)))) rs s1)"
proof -
  have "heap_ok s" "chans_ok s" "topics_ok s" "unique_ok s" "cache_ok s" "subs_wf (subs (ctx s))"
    using wf by (simp_all add: ctx_wf_def links_ok_def)
  from refresh_wf [OF this rs s1 refl] links show ?thesis
    by (intro ctx_wfI [where c = "ctx s1"]) (simp_all add: links_ok_def)
qed

lemma ctx_subscribe_channels_refresh:
  "ctx_subscribe_channels i ids s =
     (case hm_get (sinks (ctx s)) i of None \<Rightarrow> s | Some k \<Rightarrow>
        let e = Subscribe_channels k ids in
        refresh (fst (subs_exec e (subs (ctx s)))) (List.map_filter (hm_get (channels (ctx s))) ids)
          (s \<lparr> ctx := ctx s \<lparr> subs := snd (subs_exec e (subs (ctx s))) \<rparr> \<rparr>))"
  by (auto simp: ctx_subscribe_channels_def refresh_def update_channel_sinks_by_ids_def Let_def
      split: option.splits prod.splits)

lemma ctx_unsubscribe_channels_refresh:
  "ctx_unsubscribe_channels i ids s =
     (let e = Unsubscribe_channels i ids in
      refresh (fst (subs_exec e (subs (ctx s)))) (List.map_filter (hm_get (channels (ctx s))) ids)
        (s \<lparr> ctx := ctx s \<lparr> subs := snd (subs_exec e (subs (ctx s))) \<rparr> \<rparr>))"
  by (auto simp: ctx_unsubscribe_channels_def refresh_def update_channel_sinks_by_ids_def Let_def
      split: prod.splits)

lemma ctx_subscribe_channels_wf:
  assumes wf: "ctx_wf T s"
  shows "ctx_wf T (ctx_subscribe_channels i ids s)"
proof (cases "hm_get (sinks (ctx s)) i")
  case None
  with wf show ?thesis by (simp add: ctx_subscribe_channels_def)
next
  case (Some k)
  let ?e = "Subscribe_channels k ids"
  have chans: "chans_ok s" and links: "links_ok T s" using wf by (simp_all add: ctx_wf_def)
  from links Some have k: "hm_get (sinks (ctx s)) (sink_id k) = Some k"
    by (auto simp: links_ok_def dest: hm_get_sinks)
  have "links_ok T (s \<lparr> ctx := ctx s \<lparr> sinks := sinks (ctx s),
      subs := snd (subs_exec ?e (subs (ctx s))) \<rparr>, world := world s \<rparr>)"
    using links k
    by (intro links_exec) (auto simp: links_ok_def hm_keys_iff case_prod_beta' subs_abs_def)
  moreover have "set (List.map_filter (hm_get (channels (ctx s))) ids) = {r \<in> subs_touched ?e. registered s r}"
    using registered_ids [OF chans] by simp
  ultimately show ?thesis
    using refresh_ctx_wf [OF wf _ refl] Some by (fastforce simp: ctx_subscribe_channels_refresh)
qed

lemma ctx_unsubscribe_channels_wf:
  assumes wf: "ctx_wf T s"
  shows "ctx_wf T (ctx_unsubscribe_channels i ids s)"
proof -
  let ?e = "Unsubscribe_channels i ids"
  have chans: "chans_ok s" and links: "links_ok T s" using wf by (simp_all add: ctx_wf_def)
  have "links_ok T (s \<lparr> ctx := ctx s \<lparr> sinks := sinks (ctx s),
      subs := snd (subs_exec ?e (subs (ctx s))) \<rparr>, world := world s \<rparr>)"
    using links by (intro links_exec) (auto simp: links_ok_def subs_abs_def)
  moreover have "set (List.map_filter (hm_get (channels (ctx s))) ids) = {r \<in> subs_touched ?e. registered s r}"
    using registered_ids [OF chans] by simp
  ultimately show ?thesis
    using refresh_ctx_wf [OF wf _ refl] by (fastforce simp: ctx_unsubscribe_channels_refresh)
qed

lemma inner_update_comm:
  "(c :: ContextInner) \<lparr> subs := b, sinks := k \<rparr> = c \<lparr> sinks := k, subs := b \<rparr>"
  by simp

lemma program_update_comm:
  "(s :: 'w program) \<lparr> world := w, ctx := c \<rparr> = s \<lparr> ctx := c, world := w \<rparr>"
  by simp

lemma ctx_remove_sink_wf:
  assumes wf: "ctx_wf T s"
  shows "ctx_wf T (snd (ctx_remove_sink i s))"
proof -
  let ?e = "Remove_subscriber i" and ?ks = "hm_remove i (sinks (ctx s))"
  have chans: "chans_ok s" and links: "links_ok T s" using wf by (simp_all add: ctx_wf_def)
  have "links_ok T (s \<lparr> ctx := ctx s \<lparr> sinks := ?ks, subs := snd (subs_exec ?e (subs (ctx s))) \<rparr>,
      world := world s \<rparr>)"
    using links
    by (intro links_exec) (auto simp: links_ok_def subs_abs_def sinks_wf_remove hm_get_remove)
  moreover have "set (hm_values (channels (ctx s))) = {r \<in> subs_touched ?e. registered s r}"
    using registered_values [OF chans] by simp
  ultimately have "ctx_wf T (refresh (fst (subs_exec ?e (subs (ctx s)))) (hm_values (channels (ctx s)))
      (s \<lparr> ctx := ctx s \<lparr> sinks := ?ks, subs := snd (subs_exec ?e (subs (ctx s))) \<rparr>, world := world s \<rparr>))"
    using refresh_ctx_wf [OF wf _ refl] by blast
  then show ?thesis
    using update_channel_sinks_ctx [of "ctx s \<lparr> sinks := ?ks, subs := snd (subs_exec ?e (subs (ctx s))) \<rparr>"
        "s \<lparr> ctx := ctx s \<lparr> subs := snd (subs_exec ?e (subs (ctx s))) \<rparr> \<rparr>" "hm_values (channels (ctx s))"]
    by (cases "remove_subscriber i (subs (ctx s))")
      (simp add: ctx_remove_sink_def refresh_def Let_def inner_update_comm split: if_splits)
qed

lemma ctx_add_sink_wf:
  assumes wf: "ctx_wf T s"
  shows "ctx_wf T (snd (ctx_add_sink T k s))"
proof (cases "hm_contains (sink_id k) (sinks (ctx s))")
  case False
  have chans: "chans_ok s" and links: "links_ok T s" using wf by (simp_all add: ctx_wf_def)
  let ?ks = "hm_insert (sink_id k) k (sinks (ctx s))" and ?chans = "hm_values (channels (ctx s))"
  obtain ids w where iw: "(if ?chans \<noteq> [] then sink_add_channels T k (map (deref s) ?chans) (world s)
      else (None, world s)) = (ids, w)" by fastforce
  define upd where "upd e = s \<lparr> ctx := ctx s \<lparr> sinks := ?ks, subs := snd (subs_exec e (subs (ctx s))) \<rparr>,
      world := w \<rparr>" for e
  have fresh: "hm_get (sinks (ctx s)) (sink_id k) = None" using False by (simp add: hm_contains_def)
  have ks: "sinks_wf ?ks" using links by (simp add: links_ok_def sinks_wf_insert)
  have frame: "links_ok T (s \<lparr> ctx := ctx s \<lparr> sinks := ?ks \<rparr>, world := w \<rparr>)" if "\<not> auto_subscribe T k"
    using links fresh that ks by (auto simp: links_ok_def hm_get_insert)
  show ?thesis
  proof (cases "auto_subscribe T k")
    case True
    let ?e = "Subscribe_global k"
    have "links_ok T (upd ?e)"
      unfolding upd_def
      using links fresh True ks
      by (intro links_exec) (auto simp: links_ok_def subs_abs_def hm_get_insert)
    moreover have "set ?chans = {r \<in> subs_touched ?e. registered s r}"
      using registered_values [OF chans] by simp
    ultimately have "ctx_wf T (refresh (fst (subs_exec ?e (subs (ctx s)))) ?chans (upd ?e))"
      using refresh_ctx_wf [OF wf _ upd_def] by blast
    then show ?thesis using True False iw
      by (cases "subscribe_global k (subs (ctx s))")
        (simp add: ctx_add_sink_def refresh_def Let_def upd_def program_update_comm split: if_splits)
  next
    case noauto: False
    show ?thesis
    proof (cases "case ids of None \<Rightarrow> [] | Some l \<Rightarrow> filter (\<lambda>i. hm_contains i (channels (ctx s))) l")
      case Nil
      have "ctx_wf T (s \<lparr> ctx := ctx s \<lparr> sinks := ?ks \<rparr>, world := w \<rparr>)"
        using wf frame [OF noauto] frame_ok [OF refl, where s = s and ks = ?ks and w = w] by (simp add: ctx_wf_def)
      then show ?thesis using Nil noauto False iw
        by (auto simp: ctx_add_sink_def Let_def split: option.splits)
    next
      case (Cons j js)
      then obtain l where l: "ids = Some l" by (cases ids) auto
      let ?l = "filter (\<lambda>i. hm_contains i (channels (ctx s))) l"
      let ?e = "Subscribe_channels k ?l"
      have "links_ok T (upd ?e)"
        unfolding upd_def
        using links fresh noauto ks
        by (intro links_exec) (auto simp: links_ok_def subs_abs_def hm_get_insert)
      moreover have "set (List.map_filter (hm_get (channels (ctx s))) ?l) = {r \<in> subs_touched ?e. registered s r}"
        using registered_ids [OF chans] by simp
      ultimately have "ctx_wf T (refresh (fst (subs_exec ?e (subs (ctx s))))
          (List.map_filter (hm_get (channels (ctx s))) ?l) (upd ?e))"
        using refresh_ctx_wf [OF wf _ upd_def] by blast
      then show ?thesis using noauto False iw l Cons
        by (cases "Subscriptions.subscribe_channels k ?l (subs (ctx s))")
          (simp add: ctx_add_sink_def refresh_def Let_def upd_def update_channel_sinks_by_ids_def
            program_update_comm split: if_splits)
    qed
  qed
qed (simp add: ctx_add_sink_def wf)

subsection \<open>Removing channels\<close>

lemma ctx_wf_world [simp]: "ctx_wf T (s \<lparr> world := w \<rparr>) = ctx_wf T s"
  by (simp add: ctx_wf_def ctx_ok_defs topic_list_def registered_def)

lemma ctx_wf_alive [simp]: "ctx_wf T (s \<lparr> ctx_alive := b \<rparr>) = ctx_wf T s"
  by (simp add: ctx_wf_def ctx_ok_defs topic_list_def registered_def)

definition unlink_channel :: "ChannelId \<Rightarrow> 'w program \<Rightarrow> 'w program" where
  "unlink_channel i s =
     (let t = raw_channel_topic (deref s i); rs = filter (\<lambda>r. r \<noteq> i) (topic_list s t) in
      modify_channel i remove_from_context
        (s \<lparr> ctx := ctx s \<lparr> channels := hm_remove i (channels (ctx s)),
             channels_by_topic := (if rs = [] then hm_remove t (channels_by_topic (ctx s))
                                   else hm_insert t rs (channels_by_topic (ctx s))),
             subs := snd (remove_channel_subscriptions i (subs (ctx s))) \<rparr> \<rparr>))"

lemma unlink_channel_simps:
  "registered (unlink_channel i s) r \<longleftrightarrow> r \<noteq> i \<and> registered s r"
  "deref (unlink_channel i s) r = (if r = i then remove_from_context (deref s i) else deref s r)"
  "topic_list (unlink_channel i s) t =
     (if t = raw_channel_topic (deref s i) then filter (\<lambda>r. r \<noteq> i) (topic_list s t) else topic_list s t)"
  "sinks (ctx (unlink_channel i s)) = sinks (ctx s)"
  "subs (ctx (unlink_channel i s)) = snd (remove_channel_subscriptions i (subs (ctx s)))"
  "next_channel_id (unlink_channel i s) = next_channel_id s"
  "hm_contains r (heap (unlink_channel i s)) \<longleftrightarrow> r = i \<or> hm_contains r (heap s)"
  "channels (ctx (unlink_channel i s)) = hm_remove i (channels (ctx s))"
  by (auto simp: unlink_channel_def Let_def registered_def hm_get_remove
      hm_get_insert topic_list_def split: option.splits if_splits)

lemma descriptor_unlink [simp]: "descriptor (deref (unlink_channel i s) r) = descriptor (deref s r)"
  by (simp add: unlink_channel_simps)

lemma topic_of_registered:
  "topics_ok s \<Longrightarrow> registered s i \<Longrightarrow>
   hm_get (channels_by_topic (ctx s)) (raw_channel_topic (deref s i)) =
     Some (topic_list s (raw_channel_topic (deref s i)))"
proof -
  assume "topics_ok s" "registered s i"
  then have "i \<in> set (topic_list s (raw_channel_topic (deref s i)))" by (simp add: topics_ok_def)
  then show ?thesis
    by (cases "hm_get (channels_by_topic (ctx s)) (raw_channel_topic (deref s i))")
      (simp_all add: topic_list_def)
qed

lemma unlink_channel_wf:
  assumes wf: "ctx_wf T s" and reg: "registered s i"
  shows "ctx_wf T (unlink_channel i s)"
proof -
  let ?s = "unlink_channel i s" and ?e = "Remove_channel_subscriptions i"
  have heap: "heap_ok s" and chans: "chans_ok s" and topics: "topics_ok s" and uniq: "unique_ok s"
    and links: "links_ok T s" and cache: "cache_ok s" using wf by (simp_all add: ctx_wf_def)
  have i: "hm_contains i (heap s)" using chans reg by (rule registered_heap)
  have subs: "subs_wf (subs (ctx s))" using links by (simp add: links_ok_def)
  have frame: "set (get_subscribers (snd (remove_channel_subscriptions i (subs (ctx s)))) r) =
      set (get_subscribers (subs (ctx s)) r)" if "r \<noteq> i" for r
    using subs.exec_frame [OF subs, of r ?e] that by simp
  have "heap_ok ?s"
    using heap i by (auto simp: heap_ok_def unlink_channel_simps raw_channel_id_def)
      (simp add: unlink_channel_def Let_def)
  moreover have "chans_ok ?s"
    using chans by (auto simp: chans_ok_def unlink_channel_simps hm_wf_remove hm_get_remove
        split: if_splits)
  moreover have "topics_ok ?s"
    using topics
    by (auto simp: topics_ok_def unlink_channel_simps raw_channel_topic_def)
      (auto simp: unlink_channel_def Let_def hm_wf_remove hm_wf_insert hm_get_insert hm_get_remove
        split: if_splits)
  moreover have "unique_ok ?s"
    using uniq by (simp add: unique_ok_def unlink_channel_simps raw_channel_matches_def)
  moreover have "links_ok T ?s"
    using links subs_exec_wf [OF subs, of ?e] subs_exec_abs [OF subs, of ?e]
    by (simp add: links_ok_def unlink_channel_simps subs_abs_def)
  moreover have "cache_ok ?s"
    using cache frame by (auto simp: cache_ok_def unlink_channel_simps)
  ultimately show ?thesis by (simp add: ctx_wf_def)
qed

lemma ctx_remove_channel_unlink:
  assumes wf: "ctx_wf T s" and reg: "registered s i"
  shows "ctx_remove_channel T i s = (True, (unlink_channel i s) \<lparr> world :=
    fold (\<lambda>k w. sink_remove_channel T k (remove_from_context (deref s i)) w) (hm_values (sinks (ctx s))) (world s) \<rparr>)"
proof -
  have heap: "heap_ok s" and chans: "chans_ok s" and topics: "topics_ok s"
    using wf by (simp_all add: ctx_wf_def)
  have id: "raw_channel_id (deref s r) = r" if "registered s r" for r
    using that heap registered_heap [OF chans] by (auto simp: heap_ok_def)
  have get: "hm_get (channels (ctx s)) i = Some i"
    using reg chans by (auto simp: registered_def hm_contains_iff chans_ok_def)
  have "filter (\<lambda>r'. raw_channel_id (deref s r') \<noteq> i) (topic_list s t) =
      filter (\<lambda>r'. r' \<noteq> i) (topic_list s t)" for t
    using topics id by (intro filter_cong) (auto simp: topics_ok_def)
  then show ?thesis
    using get id [OF reg] topic_of_registered [OF topics reg]
    by (simp add: ctx_remove_channel_def unlink_channel_def Let_def)
qed

lemma ctx_remove_channel_wf:
  assumes wf: "ctx_wf T s"
  shows "ctx_wf T (snd (ctx_remove_channel T i s))"
proof (cases "registered s i")
  case True
  then show ?thesis using unlink_channel_wf [OF wf True] by (simp add: ctx_remove_channel_unlink [OF wf])
next
  case False
  then show ?thesis using wf by (simp add: ctx_remove_channel_def Let_def registered_def hm_contains_def)
qed

lemma fold_clear_channel:
  "ctx (fold (clear_channel T) rs s) = ctx s"
  "next_channel_id (fold (clear_channel T) rs s) = next_channel_id s"
  "hm_contains r (heap (fold (clear_channel T) rs s)) \<longleftrightarrow> r \<in> set rs \<or> hm_contains r (heap s)"
  "hm_wf (heap s) \<Longrightarrow> hm_wf (heap (fold (clear_channel T) rs s))"
  "deref (fold (clear_channel T) rs s) r =
     (if r \<in> set rs then remove_from_context (deref s r) else deref s r)"
  by (induction rs arbitrary: s) (auto simp: clear_channel_def Let_def remove_from_context_def)

lemma ctx_clear_wf:
  assumes wf: "ctx_wf T s"
  shows "ctx_wf T (ctx_clear T s)"
    and "closed (deref (ctx_clear T s) r) \<longleftrightarrow> registered s r \<or> closed (deref s r)"
    and "ctx (ctx_clear T s) = context_inner_default"
proof -
  have heap: "heap_ok s" and chans: "chans_ok s" and cache: "cache_ok s"
    using wf by (simp_all add: ctx_wf_def)
  let ?s = "ctx_clear T s"
  show ctx: "ctx ?s = context_inner_default"
    by (simp add: ctx_clear_def Let_def context_inner_default_def subs_clear_def subs_default_def)
  have deref: "deref ?s r = (if registered s r then remove_from_context (deref s r) else deref s r)" for r
    by (simp add: ctx_clear_def Let_def fold_clear_channel registered_values [OF chans])
  have in_heap: "hm_contains r (heap ?s) \<longleftrightarrow> hm_contains r (heap s)" for r
    using registered_heap [OF chans]
    by (auto simp: ctx_clear_def Let_def fold_clear_channel registered_values [OF chans])
  have "heap_ok ?s"
    using heap in_heap deref
    by (auto simp: heap_ok_def raw_channel_id_def)
      (auto simp: ctx_clear_def Let_def fold_clear_channel)
  moreover have "cache_ok ?s"
    using cache by (auto simp: cache_ok_def in_heap deref registered_def ctx context_inner_default_def)
  ultimately show "ctx_wf T ?s"
    by (simp add: ctx_wf_def chans_ok_def topics_ok_def unique_ok_def links_ok_def ctx
        context_inner_default_def topic_list_def registered_def hm_wf_Nil subs_wf_default)
      (simp add: subs_abs_def subs_default_def)
  show "closed (deref ?s r) \<longleftrightarrow> registered s r \<or> closed (deref s r)"
    by (simp add: deref)
qed

subsection \<open>Adding channels\<close>

lemma notify_sink_subs:
  "fst (notify_sink T ch k (b, w)) = b
   \<or> (\<not> auto_subscribe T k
      \<and> fst (notify_sink T ch k (b, w)) = snd (subs_exec (Subscribe_channels k [raw_channel_id ch]) b))"
  by (auto simp: notify_sink_def split: prod.splits)

text \<open>What the notification of the sinks keeps of the subscriptions: it is a sequence of
  subscriptions of registered sinks to the new channel.\<close>

lemma fold_notify_sink:
  assumes "subs_wf b" "\<And>k. k \<in> set ks \<Longrightarrow> sink_id k \<in> K" "\<And>c. snd (subs_abs b) c \<subseteq> K"
    and "fold (notify_sink T ch) ks (b, w) = (b', w')"
  shows "subs_wf b' \<and> fst (subs_abs b') = fst (subs_abs b) \<and> (\<forall>c. snd (subs_abs b') c \<subseteq> K)
    \<and> (\<forall>c. c \<noteq> raw_channel_id ch \<longrightarrow> set (get_subscribers b' c) = set (get_subscribers b c))"
  using assms
proof (induction ks arbitrary: b w)
  case (Cons k ks)
  let ?e = "Subscribe_channels k [raw_channel_id ch]"
  obtain b1 w1 where 1: "notify_sink T ch k (b, w) = (b1, w1)" by fastforce
  have "subs_wf b1 \<and> fst (subs_abs b1) = fst (subs_abs b) \<and> (\<forall>c. snd (subs_abs b1) c \<subseteq> K)
    \<and> (\<forall>c. c \<noteq> raw_channel_id ch \<longrightarrow> set (get_subscribers b1 c) = set (get_subscribers b c))"
  proof (cases "b1 = b")
    case False
    with 1 notify_sink_subs [of T ch k b w] have b1: "b1 = snd (subs_exec ?e b)" by auto
    show ?thesis
      using Cons.prems subs_exec_wf [of b ?e] subs_exec_abs [of b ?e]
        subs.exec_frame [of b _ ?e]
      by (cases "subs_abs b") (auto simp: b1 split: if_splits)
  qed (use Cons.prems in auto)
  moreover have "fold (notify_sink T ch) ks (b1, w1) = (b', w')" using Cons.prems 1 by simp
  ultimately show ?case using Cons.IH [of b1 w1] Cons.prems(2) by simp
qed auto

lemma alloc_channel_wf:
  assumes wf: "ctx_wf T s" and room: "unat (next_channel_id s) + 1 < 2 ^ 64"
    and a: "alloc_channel t e sch m s = (r, s1)"
  shows "ctx_wf T s1 \<and> hm_contains r (heap s1) \<and> \<not> registered s1 r
    \<and> deref s1 r = raw_channel_new r t e sch m \<and> ctx s1 = ctx s \<and> \<not> hm_contains r (heap s)
    \<and> r = next_channel_id s \<and> (\<forall>r'. r' \<noteq> r \<longrightarrow> deref s1 r' = deref s r')"
proof -
  have heap: "heap_ok s" and chans: "chans_ok s" and cache: "cache_ok s"
    using wf by (simp_all add: ctx_wf_def)
  have r: "r = next_channel_id s" and s1: "s1 = s \<lparr> next_channel_id := r + 1,
      heap := hm_insert r (raw_channel_new r t e sch m) (heap s) \<rparr>"
    using a by (auto simp: alloc_channel_def Let_def)
  have deref1: "deref s1 r' = (if r' = r then raw_channel_new r t e sch m else deref s r')" for r'
    by (simp add: deref_def s1 hm_get_insert)
  have fresh: "\<not> hm_contains r (heap s)" using heap by (auto simp: heap_ok_def r)
  have old: "r' < r \<Longrightarrow> r' < r + 1" and new: "r < r + 1" for r'
    using room unfolding r word_less_nat_alt by (simp_all add: unat_word_ariths)
  have unreg: "\<not> registered s r" using fresh registered_heap [OF chans] by blast
  have reg1: "registered s1 = registered s" by (simp add: registered_def s1 fun_eq_iff)
  have "heap_ok s1"
    using heap old new by (auto simp: heap_ok_def deref1) (auto simp: s1 hm_wf_insert r)
  moreover have "chans_ok s1" using chans by (auto simp: chans_ok_def s1)
  moreover have "topics_ok s1"
    using wf unreg by (auto simp: ctx_wf_def topics_ok_def reg1 deref1) (auto simp: topic_list_def s1)
  moreover have "unique_ok s1"
    using wf unreg by (auto simp: ctx_wf_def unique_ok_def reg1 deref1)
  moreover have "links_ok T s1" using wf by (simp add: ctx_wf_def links_ok_def s1)
  moreover have "cache_ok s1"
    using cache unreg by (auto simp: cache_ok_def reg1 deref1) (auto simp: s1)
  ultimately show ?thesis
    using fresh unreg by (auto simp: ctx_wf_def reg1 deref1 r) (simp_all add: s1 r)
qed

lemma find_topic_match:
  assumes "topics_ok s"
  shows "(case find (\<lambda>r'. raw_channel_matches ch (deref s r')) (topic_list s (raw_channel_topic ch)) of
      Some r' \<Rightarrow> registered s r' \<and> raw_channel_matches ch (deref s r')
    | None \<Rightarrow> \<forall>r'. registered s r' \<longrightarrow> \<not> raw_channel_matches ch (deref s r'))"
proof -
  have members: "set (topic_list s (raw_channel_topic ch)) =
      {r. registered s r \<and> raw_channel_topic (deref s r) = raw_channel_topic ch}"
    using assms by (simp add: topics_ok_def)
  show ?thesis
  proof (cases "find (\<lambda>r'. raw_channel_matches ch (deref s r')) (topic_list s (raw_channel_topic ch))")
    case None
    then have "\<forall>r \<in> set (topic_list s (raw_channel_topic ch)). \<not> raw_channel_matches ch (deref s r)"
      by (simp add: find_None_iff)
    then show ?thesis using None members raw_channel_matches_equiv(4) [of ch] by simp metis
  next
    case (Some r)
    then have "r \<in> set (topic_list s (raw_channel_topic ch))" "raw_channel_matches ch (deref s r)"
      by (auto simp: find_Some_iff)
    then show ?thesis using Some members by simp
  qed
qed

text \<open>A channel that matches a registered one is not added: the state does not change.\<close>

lemma ctx_add_channel_existing:
  assumes wf: "ctx_wf T s" and m: "registered s r'" "raw_channel_matches (deref s r) (deref s r')"
  shows "ctx_add_channel T r s = (r', s)"
proof -
  have topics: "topics_ok s" and uniq: "unique_ok s" using wf by (simp_all add: ctx_wf_def)
  let ?t = "raw_channel_topic (deref s r)"
  let ?f = "find (\<lambda>r'. raw_channel_matches (deref s r) (deref s r')) (topic_list s ?t)"
  obtain r1 where f: "?f = Some r1" "registered s r1" "raw_channel_matches (deref s r) (deref s r1)"
    using find_topic_match [OF topics, of "deref s r"] m by (cases ?f) auto
  have "r1 = r'"
    using uniq f m raw_channel_matches_equiv(2,3) unfolding unique_ok_def by metis
  moreover have "hm_get (channels_by_topic (ctx s)) ?t = Some (topic_list s ?t)"
    using topic_of_registered [OF topics f(2)] raw_channel_matches_equiv(4) [OF f(3)] by simp
  ultimately show ?thesis
    using f(1) by (simp add: ctx_add_channel_def Let_def topic_list_def [symmetric] hm_insert_same)
qed

lemma ctx_add_channel_new:
  assumes wf: "ctx_wf T s" and r: "hm_contains r (heap s)" "\<not> closed (deref s r)" "\<not> registered s r"
    and nomatch: "\<And>r'. registered s r' \<Longrightarrow> \<not> raw_channel_matches (deref s r) (deref s r')"
    and a: "ctx_add_channel T r s = (x, s')"
  shows "x = r \<and> ctx_wf T s' \<and> registered s' = (registered s)(r := True)
    \<and> (\<forall>r'. descriptor (deref s' r') = descriptor (deref s r'))
    \<and> topic_list s' (raw_channel_topic (deref s r)) = topic_list s (raw_channel_topic (deref s r)) @ [r]
    \<and> (\<forall>t. t \<noteq> raw_channel_topic (deref s r) \<longrightarrow> topic_list s' t = topic_list s t)"
proof -
  have heap: "heap_ok s" and chans: "chans_ok s" and topics: "topics_ok s" and uniq: "unique_ok s"
    and links: "links_ok T s" and cache: "cache_ok s" using wf by (simp_all add: ctx_wf_def)
  let ?ch = "deref s r" let ?t = "raw_channel_topic ?ch"
  have id: "raw_channel_id ?ch = r" using heap r by (simp add: heap_ok_def)
  obtain b w where bw: "fold (notify_sink T ?ch) (hm_values (sinks (ctx s))) (subs (ctx s), world s) = (b, w)"
    by fastforce
  have none: "find (\<lambda>r'. raw_channel_matches ?ch (deref s r')) (topic_list s ?t) = None"
    using find_topic_match [OF topics, of ?ch] nomatch by (auto split: option.splits)
  define s1 where "s1 = s \<lparr> ctx := ctx s \<lparr> channels := hm_insert r r (channels (ctx s)),
      channels_by_topic := hm_insert ?t (topic_list s ?t @ [r]) (channels_by_topic (ctx s)), subs := b \<rparr>,
      world := w \<rparr>"
  have x: "x = r" and s': "s' = modify_channel r (update_sinks (get_subscribers b r)) s1"
    using a none bw id by (auto simp: ctx_add_channel_def Let_def topic_list_def [symmetric] s1_def)
  have deref': "deref s' r' = (if r' = r then update_sinks (get_subscribers b r) ?ch else deref s r')" for r'
    by (simp add: s' s1_def)
  have heap': "hm_contains r' (heap s') \<longleftrightarrow> hm_contains r' (heap s)" for r'
    using r(1) by (auto simp: s' s1_def)
  have reg': "registered s' = (registered s)(r := True)"
    by (auto simp: registered_def s' s1_def fun_eq_iff)
  have topic': "topic_list s' t = (if t = ?t then topic_list s ?t @ [r] else topic_list s t)" for t
    by (simp add: topic_list_def s' s1_def hm_get_insert)
  have desc: "descriptor (deref s' r') = descriptor (deref s r')" for r' by (simp add: deref')
  have K: "sink_id k \<in> set (hm_keys (sinks (ctx s)))" if "k \<in> set (hm_values (sinks (ctx s)))" for k
  proof -
    have "sinks_wf (sinks (ctx s))" using links by (simp add: links_ok_def)
    from sinks_wf_values [OF this, symmetric] that show ?thesis by simp
  qed
  note n = fold_notify_sink [OF _ K _ bw]
  have b: "subs_wf b" "fst (subs_abs b) = fst (subs_abs (subs (ctx s)))"
    "\<And>c. snd (subs_abs b) c \<subseteq> set (hm_keys (sinks (ctx s)))"
    "\<And>c. c \<noteq> r \<Longrightarrow> set (get_subscribers b c) = set (get_subscribers (subs (ctx s)) c)"
    using n links id by (simp_all add: links_ok_def)
  have "heap_ok s'"
    using heap by (auto simp: heap_ok_def heap' raw_channel_id_def desc) (auto simp: s' s1_def)
  moreover have "chans_ok s'"
    using chans r(1) heap' by (auto simp: chans_ok_def) (auto simp: s' s1_def hm_wf_insert hm_get_insert split: if_splits)
  moreover have "topics_ok s'"
    using topics r(3)
    by (auto simp: topics_ok_def topic' reg' raw_channel_topic_def desc)
      (auto simp: s' s1_def hm_wf_insert hm_get_insert split: if_splits)
  moreover have "unique_ok s'"
    using uniq nomatch raw_channel_matches_equiv(2)
    by (auto simp: unique_ok_def reg' raw_channel_matches_def desc)
  moreover have "links_ok T s'"
    using links b by (simp add: links_ok_def s' s1_def)
  moreover have "cache_ok s'"
    using cache b(4) r get_subscribers_distinct [OF b(1)]
    by (auto simp: cache_ok_def heap' reg' deref') (auto simp: s' s1_def)
  ultimately show ?thesis using x reg' desc topic' by (simp add: ctx_wf_def)
qed

lemma build_raw_wf:
  assumes wf: "ctx_wf T s" and room: "unat (next_channel_id s) + 1 < 2 ^ 64"
  shows "ctx_wf T (snd (build_raw T b s))"
proof (cases "cb_message_encoding b")
  case None
  with wf show ?thesis by (simp add: build_raw_def)
next
  case (Some e)
  obtain r s1 where a: "alloc_channel (cb_topic b) e (cb_schema b) (cb_metadata b) s = (r, s1)" by fastforce
  obtain x s2 where c: "ctx_add_channel T r s1 = (x, s2)" by fastforce
  from alloc_channel_wf [OF wf room a] have 1: "ctx_wf T s1" "hm_contains r (heap s1)"
    "\<not> registered s1 r" "\<not> closed (deref s1 r)" by auto
  have "ctx_wf T s2"
  proof (cases "\<exists>r'. registered s1 r' \<and> raw_channel_matches (deref s1 r) (deref s1 r')")
    case True
    then show ?thesis using ctx_add_channel_existing [OF 1(1)] 1(1) c by auto
  next
    case False
    then show ?thesis using ctx_add_channel_new [OF 1(1,2,4,3) _ c] by blast
  qed
  then show ?thesis using Some a c by (simp add: build_raw_def)
qed

lemma channel_log_wf:
  assumes "ctx_wf T s" "hm_contains r (heap s)"
  shows "ctx_wf T (channel_log T now unow r msg opts target s)"
proof -
  obtain ch w where c: "log_with_meta_to_sink T now unow (deref s r) msg opts target (world s) = (ch, w)"
    by fastforce
  then have ch: "descriptor ch = descriptor (deref s r)" "log_sinks ch = log_sinks (deref s r)"
    "closed ch = closed (deref s r)"
    by (auto simp: log_with_meta_to_sink_def split: if_splits)
  let ?s = "modify_channel r (\<lambda>_. ch) s"
  have "same_shape s ?s"
    using assms by (auto simp: same_shape_def ch ctx_wf_def heap_ok_def)
  then have "heap_ok ?s \<and> chans_ok ?s \<and> topics_ok ?s \<and> unique_ok ?s"
    using assms same_shape_static by (auto simp: ctx_wf_def)
  moreover have "cache_ok ?s"
    using assms by (auto simp: cache_ok_def ch ctx_wf_def registered_def)
  ultimately have "ctx_wf T ?s" using assms by (simp add: ctx_wf_def links_ok_def)
  then show ?thesis by (simp add: channel_log_def c)
qed

lemma ctx_exec_wf:
  assumes "ctx_wf T s" "ctx_allowed e s"
  shows "ctx_wf T (ctx_exec T e s)"
  using assms
  by (cases e)
    (auto simp: build_raw_wf channel_close_def ctx_remove_channel_wf channel_log_wf ctx_add_sink_wf
      ctx_remove_sink_wf ctx_subscribe_channels_wf ctx_unsubscribe_channels_wf ctx_drop_def ctx_clear_wf)

lemma program_new_wf: "ctx_wf T (program_new w)"
  by (simp add: ctx_wf_def heap_ok_def chans_ok_def topics_ok_def unique_ok_def links_ok_def
      cache_ok_def program_new_def context_inner_default_def topic_list_def registered_def hm_wf_Nil
      subs_wf_default)
    (simp add: subs_abs_def subs_default_def)

lemma ctx_reachable_wf: "ctx_reachable T s \<Longrightarrow> ctx_wf T s"
  by (induction rule: ctx_reachable.induct) (auto simp: program_new_wf ctx_exec_wf)

lemma ctx_wf_channel_sinks:
  assumes "ctx_wf T s" "registered s r"
  shows "sink_id ` set (log_sinks (deref s r)) = index_subscribers (subs_abs (subs (ctx s))) r
    \<and> distinct (log_sinks (deref s r)) \<and> \<not> closed (deref s r)"
proof -
  have "hm_contains r (heap s)" using assms registered_heap by (auto simp: ctx_wf_def)
  with assms have "set (log_sinks (deref s r)) = set (get_subscribers (subs (ctx s)) r)"
    "distinct (map sink_id (log_sinks (deref s r)))" "\<not> closed (deref s r)" "subs_wf (subs (ctx s))"
    by (auto simp: ctx_wf_def cache_ok_def links_ok_def)
  then show ?thesis by (simp add: get_subscribers_ids distinct_map)
qed

subsection \<open>Log calls\<close>

lemma log_call_fields:
  "ctx (log_call T l s) = ctx s" "registered (log_call T l s) = registered s"
  "ctx_alive (log_call T l s) = ctx_alive s"
  by (cases l, simp add: channel_log_def modify_channel_def case_prod_beta registered_def fun_eq_iff)+

lemma log_call_descriptor: "descriptor (deref (log_call T l s) r) = descriptor (deref s r)"
  by (cases l) (auto simp: channel_log_def log_with_meta_to_sink_def case_prod_beta)

lemma log_call_wf: "ctx_wf T s \<Longrightarrow> registered s (channel_of_call l) \<Longrightarrow> ctx_wf T (log_call T l s)"
  using registered_heap [of s "channel_of_call l"] by (cases l) (simp add: channel_log_wf ctx_wf_def [of T s])

lemma log_call_world:
  "world (log_call T (now, unow, r, msg, opts) s) =
     fold (\<lambda>k w. snd (sink_log T k (deref s r) msg (stamp unow opts) w)) (log_sinks (deref s r)) (world s)"
  by (simp add: channel_log_def log_with_meta_to_sink_def has_sinks_def log_to_sinks_fold stamp_def)

text \<open>The other operations of the context do not touch the world of the sinks.\<close>

lemma ctx_world [simp]:
  "world (ctx_subscribe_channels i ids s) = world s"
  "world (ctx_unsubscribe_channels i ids s) = world s"
  "world (snd (ctx_remove_sink i s)) = world s"
  by (simp_all add: ctx_subscribe_channels_def ctx_unsubscribe_channels_def ctx_remove_sink_def
      update_channel_sinks_by_ids_def Let_def case_prod_beta split: option.split)

subsection \<open>Closed channels stay closed\<close>

lemma closed_update_sinks: "closed (deref s r) \<Longrightarrow> closed (deref (update_channel_sinks rs s) r)"
  by (simp add: update_channel_sinks_deref)

lemma closed_add_sink: "closed (deref s r) \<Longrightarrow> closed (deref (snd (ctx_add_sink T k s)) r)"
  by (auto simp: ctx_add_sink_def Let_def update_channel_sinks_by_ids_def closed_update_sinks
      split: prod.splits option.splits if_splits)

lemma closed_add_channel: "closed (deref s r) \<Longrightarrow> closed (deref (snd (ctx_add_channel T r' s)) r)"
  by (auto simp: ctx_add_channel_def Let_def split: option.splits prod.splits)

lemma closed_build_raw:
  assumes "ctx_wf T s" "hm_contains r (heap s)" "closed (deref s r)"
  shows "closed (deref (snd (build_raw T b s)) r)"
proof -
  have "r \<noteq> next_channel_id s" using assms by (auto simp: ctx_wf_def heap_ok_def)
  then have "closed (deref (snd (alloc_channel t e sch m s)) r)" for t e sch m
    using assms by (simp add: alloc_channel_def Let_def deref_def hm_get_insert)
  then have "closed (deref (snd (ctx_add_channel T r' (snd (alloc_channel t e sch m s)))) r)"
    for r' t e sch m by (rule closed_add_channel)
  then show ?thesis using assms by (simp add: build_raw_def split: option.split prod.split) (metis snd_conv)
qed

lemma closed_exec:
  assumes "ctx_wf T s" "hm_contains r (heap s)" "closed (deref s r)"
  shows "closed (deref (ctx_exec T e s) r)"
proof (cases e)
  case (Log now unow r' msg opts target)
  then show ?thesis using assms
    by (auto simp: channel_log_def log_with_meta_to_sink_def split: prod.splits if_splits)
qed (use assms in \<open>auto simp: closed_build_raw channel_close_def ctx_remove_channel_def Let_def
      closed_add_sink ctx_remove_sink_def ctx_subscribe_channels_def ctx_unsubscribe_channels_def
      update_channel_sinks_by_ids_def closed_update_sinks ctx_drop_def ctx_clear_wf
      split: option.splits prod.splits if_splits\<close>)

lemma heap_grows:
  assumes "hm_contains r (heap s)"
  shows "hm_contains r (heap (ctx_exec T e s))"
  using assms
  by (cases e) (auto simp: build_raw_def alloc_channel_def ctx_add_channel_def channel_close_def
      ctx_remove_channel_def Let_def channel_log_def ctx_add_sink_def ctx_remove_sink_def
      ctx_subscribe_channels_def ctx_unsubscribe_channels_def update_channel_sinks_by_ids_def
      update_channel_sinks_heap ctx_drop_def ctx_clear_def fold_clear_channel
      split: option.splits prod.splits if_splits)

section \<open>Properties\<close>

lemma hm_get_registered: "ctx_wf T s \<Longrightarrow> registered s r \<Longrightarrow> hm_get (channels (ctx s)) r = Some r"
  by (auto simp: ctx_wf_def chans_ok_def registered_def hm_contains_iff)

definition demo_sinks :: "(SinkId \<times> ChannelId \<times> u8 list) list sink_ops" where
  "demo_sinks = \<lparr> auto_subscribe = (\<lambda>k. sink_id k = 1),
     sink_add_channels = (\<lambda>k chs w. (None, w)),
     sink_remove_channel = (\<lambda>k ch w. w),
     sink_log = (\<lambda>k ch msg m w. (Inl SinkClosed, w @ [(sink_id k, raw_channel_id ch, msg)])) \<rparr>"

definition demo_builder :: ChannelBuilder where
  "demo_builder = builder_message_encoding ''json'' (channel_builder_new ''/t'')"

text \<open>A program with one channel, a sink that subscribes to everything and a second sink that
  subscribed to the channel.\<close>

definition demo_program :: "(SinkId \<times> ChannelId \<times> u8 list) list program" where
  "demo_program = fold (ctx_exec demo_sinks)
     [Add_sink (Dyn_sink 1), Build demo_builder, Add_sink (Dyn_sink 2), Ctx_subscribe 2 [1]]
     (program_new [])"

lemmas ctx_eval = program_new_def context_inner_default_def ctx_add_sink_def Let_def hm_values_def
  update_channel_sinks_def update_channel_sinks_by_ids_def modify_channel_def deref_def
  subscribe_global_def retain_without_def subs_default_def get_subscribers_def build_raw_def
  alloc_channel_def ctx_add_channel_def raw_channel_new_def channel_descriptor_new_def
  raw_channel_id_def raw_channel_topic_def update_sinks_def sink_add_channel_def notify_sink_def
  Subscriptions.subscribe_channels_def entry_insert_def hm_contains_def ctx_subscribe_channels_def
  channel_builder_new_def builder_message_encoding_def List.map_filter_def registered_def

lemma demo_program_eval:
  "demo_program = \<lparr>
     heap = [(1, (raw_channel_new 1 ''/t'' ''json'' None []) \<lparr> log_sinks := [Dyn_sink 1, Dyn_sink 2] \<rparr>)],
     next_channel_id = 2,
     ctx = \<lparr> channels = [(1, 1)], channels_by_topic = [(''/t'', [1])],
       sinks = [(1, Dyn_sink 1), (2, Dyn_sink 2)],
       subs = \<lparr> global = [(1, Dyn_sink 1)], by_channel = [(1, [(2, Dyn_sink 2)])] \<rparr> \<rparr>,
     ctx_alive = True, world = [] \<rparr>"
  by (simp add: demo_program_def demo_sinks_def demo_builder_def ctx_eval)

lemma demo_reachable: "ctx_reachable demo_sinks demo_program"
  unfolding demo_program_def fold_simps
  by (intro reach_exec reach_start)
    (simp_all add: demo_sinks_def demo_builder_def ctx_eval)

lemma demo_registered: "registered demo_program 1"
  by (simp add: demo_program_eval registered_def hm_contains_def)

lemma ctx_run_closed:
  "ctx_wf T s \<Longrightarrow> hm_contains r (heap s) \<Longrightarrow> closed (deref s r) \<Longrightarrow> ctx_run T es s = Some s' \<Longrightarrow>
   ctx_wf T s' \<and> hm_contains r (heap s') \<and> closed (deref s' r)"
proof (induction es arbitrary: s)
  case (Cons e es)
  then have "ctx_allowed e s" "ctx_run T es (ctx_exec T e s) = Some s'" by (auto split: if_splits)
  with Cons show ?case using ctx_exec_wf heap_grows closed_exec by blast
qed simp

lemma closed_unregistered:
  assumes "ctx_wf T s" "hm_contains r (heap s)" "closed (deref s r)"
  shows "\<not> registered s r \<and> log_sinks (deref s r) = [] \<and> (\<forall>t. get_channel_by_topic t s \<noteq> Some r)"
proof -
  have un: "\<not> registered s r" "log_sinks (deref s r) = []"
    using assms by (auto simp: ctx_wf_def cache_ok_def split: if_splits)
  have "r \<notin> set (topic_list s t)" for t using assms un by (simp add: ctx_wf_def topics_ok_def)
  then have "get_channel_by_topic t s \<noteq> Some r" for t
    by (auto simp: get_channel_by_topic_def topic_list_def split: option.splits list.splits)
      (metis list.set_intros(1) option.simps(5))
  with un show ?thesis by blast
qed

lemma get_channel_by_topic_list:
  "get_channel_by_topic t s = (case topic_list s t of [] \<Rightarrow> None | r # _ \<Rightarrow> Some r)"
  by (simp add: get_channel_by_topic_def topic_list_def split: option.split)

text \<open>C3: in every reachable state of a context, for every implementation of the sinks, the
  topic index and the channel map agree, no two registered channels match, every subscription
  belongs to a registered sink, a sink is a global subscriber exactly when it auto-subscribes,
  the sink set stored in a registered channel is the current set of its subscribers without
  duplicates, and a channel outside the context has none.\<close>

theorem context_invariant:
  assumes "ctx_reachable T s"
  shows "ctx_wf T s"
  using assms by (rule ctx_reachable_wf)

theorem context_invariant_witness: "ctx_reachable demo_sinks demo_program \<and> ctx_wf demo_sinks demo_program"
  using context_invariant [OF demo_reachable] demo_reachable by blast

text \<open>C4: a message logged on a registered channel is handed exactly once to every registered
  sink that auto-subscribes or is subscribed to the channel, and to no other sink, even when
  sinks return errors; with a target sink, only that one of them gets it. The log time is the
  caller's if given.\<close>

theorem log_fan_out:
  assumes "ctx_reachable T s" "registered s r"
  shows "\<exists>ks. distinct ks
    \<and> sink_id ` set ks = {i. \<exists>k. hm_get (sinks (ctx s)) i = Some k
          \<and> (auto_subscribe T k \<or> i \<in> snd (subs_abs (subs (ctx s))) r)}
    \<and> world (channel_log T now unow r msg opts target s) =
        fold (\<lambda>k w. snd (sink_log T k (deref s r) msg
               \<lparr> log_time = (case opt_log_time opts of None \<Rightarrow> unow | Some t \<Rightarrow> t) \<rparr> w))
          (filter (\<lambda>k. target = None \<or> target = Some (sink_id k)) ks) (world s)"
proof (intro exI conjI)
  let ?ks = "log_sinks (deref s r)"
  have wf: "ctx_wf T s" using assms(1) by (rule ctx_reachable_wf)
  then have l: "links_ok T s" by (simp add: ctx_wf_def)
  note c = ctx_wf_channel_sinks [OF wf assms(2)]
  show "distinct ?ks" using c by simp
  have glob: "fst (subs_abs (subs (ctx s))) = {i. \<exists>k. hm_get (sinks (ctx s)) i = Some k \<and> auto_subscribe T k}"
    and "snd (subs_abs (subs (ctx s))) r \<subseteq> set (hm_keys (sinks (ctx s)))"
    using l by (simp_all add: links_ok_def)
  then have sub: "\<exists>k. hm_get (sinks (ctx s)) i = Some k" if "i \<in> snd (subs_abs (subs (ctx s))) r" for i
    using that by (auto simp: hm_keys_iff)
  have "sink_id ` set ?ks = fst (subs_abs (subs (ctx s))) \<union> snd (subs_abs (subs (ctx s))) r"
    using c by (simp add: index_subscribers_def)
  then show "sink_id ` set ?ks = {i. \<exists>k. hm_get (sinks (ctx s)) i = Some k
      \<and> (auto_subscribe T k \<or> i \<in> snd (subs_abs (subs (ctx s))) r)}"
    using sub by (auto simp: glob)
  show "world (channel_log T now unow r msg opts target s) =
        fold (\<lambda>k w. snd (sink_log T k (deref s r) msg
               \<lparr> log_time = (case opt_log_time opts of None \<Rightarrow> unow | Some t \<Rightarrow> t) \<rparr> w))
          (filter (\<lambda>k. target = None \<or> target = Some (sink_id k)) ?ks) (world s)"
    by (simp add: channel_log_def log_with_meta_to_sink_def has_sinks_def log_to_sinks_fold)
qed

theorem log_fan_out_witness:
  "world (channel_log demo_sinks 0 5 1 [9] partial_metadata_default None demo_program) = [(1, 1, [9]), (2, 1, [9])]
   \<and> (\<exists>ks. distinct ks \<and> world (channel_log demo_sinks 0 5 1 [9] partial_metadata_default None demo_program) =
        fold (\<lambda>k w. snd (sink_log demo_sinks k (deref demo_program 1) [9] \<lparr> log_time = 5 \<rparr> w))
          (filter (\<lambda>k. None = None \<or> None = Some (sink_id k)) ks) (world demo_program))"
  using log_fan_out [OF demo_reachable demo_registered, of 0 5 "[9]" partial_metadata_default None]
  by (auto simp: demo_program_eval channel_log_def log_with_meta_to_sink_def deref_def has_sinks_def
      log_to_sinks_def partial_metadata_default_def demo_sinks_def raw_channel_new_def
      raw_channel_id_def channel_descriptor_new_def modify_channel_def)

text \<open>C5: once a channel is closed, no sequence of operations registers it again, finds it by
  topic, or delivers a message logged on it.\<close>

theorem closed_channel_is_final:
  assumes "ctx_reachable T s" "hm_contains r (heap s)" "closed (deref s r)" "ctx_run T es s = Some s'"
  shows "closed (deref s' r) \<and> \<not> registered s' r \<and> get_channel_by_topic t s' \<noteq> Some r
    \<and> world (channel_log T now unow r msg opts target s') = world s'"
proof -
  have "ctx_wf T s' \<and> hm_contains r (heap s') \<and> closed (deref s' r)"
    using ctx_run_closed [OF ctx_reachable_wf] assms by blast
  with closed_unregistered [of T s' r] show ?thesis
    by (auto simp: channel_log_def log_with_meta_to_sink_def has_sinks_def)
qed

definition demo_closed :: "(SinkId \<times> ChannelId \<times> u8 list) list program" where
  "demo_closed = ctx_exec demo_sinks (Close 1) demo_program"

lemmas ctx_close_eval = demo_closed_def channel_close_def ctx_remove_channel_def Let_def
  demo_program_eval deref_def raw_channel_new_def channel_descriptor_new_def raw_channel_id_def
  raw_channel_topic_def modify_channel_def remove_from_context_def remove_channel_subscriptions_def
  hm_values_def demo_sinks_def

lemma demo_closed: "ctx_reachable demo_sinks demo_closed" "hm_contains 1 (heap demo_closed)"
  "closed (deref demo_closed 1)"
proof -
  show "ctx_reachable demo_sinks demo_closed"
    unfolding demo_closed_def
    by (rule reach_exec [OF demo_reachable]) (simp add: demo_program_eval hm_contains_def)
  show "hm_contains 1 (heap demo_closed)" "closed (deref demo_closed 1)"
    by (simp_all add: ctx_close_eval hm_contains_def)
qed

theorem closed_channel_is_final_witness:
  "closed (deref demo_closed 1) \<and> \<not> registered demo_closed 1
   \<and> world (channel_log demo_sinks 0 5 1 [9] partial_metadata_default None demo_closed) = world demo_closed"
  using closed_channel_is_final [OF demo_closed, of "[]" demo_closed]
  by simp

text \<open>closing a registered channel of a live context marks it closed, takes it out of the
  context and the topic index, empties its sinks, tells every sink once, and changes no other
  channel.\<close>

theorem close_unregisters:
  assumes "ctx_reachable T s" "registered s r" "ctx_alive s"
  shows "closed (deref (channel_close T r s) r) \<and> log_sinks (deref (channel_close T r s) r) = []
    \<and> (\<forall>r'. registered (channel_close T r s) r' \<longleftrightarrow> r' \<noteq> r \<and> registered s r')
    \<and> (\<forall>r'. r' \<noteq> r \<longrightarrow> deref (channel_close T r s) r' = deref s r')
    \<and> (\<forall>t. topic_list (channel_close T r s) t = filter (\<lambda>r'. r' \<noteq> r) (topic_list s t))
    \<and> world (channel_close T r s) =
        fold (\<lambda>k w. sink_remove_channel T k (remove_from_context (deref s r)) w) (hm_values (sinks (ctx s))) (world s)"
proof -
  have wf: "ctx_wf T s" using assms(1) by (rule ctx_reachable_wf)
  have open_: "\<not> closed (deref s r)" using ctx_wf_channel_sinks [OF wf assms(2)] by simp
  have id: "raw_channel_id (deref s r) = r"
    using wf assms(2) registered_heap by (auto simp: ctx_wf_def heap_ok_def)
  have "r \<notin> set (topic_list s t)" if "t \<noteq> raw_channel_topic (deref s r)" for t
    using wf that by (auto simp: ctx_wf_def topics_ok_def)
  then have same: "filter (\<lambda>r'. r' \<noteq> r) (topic_list s t) = topic_list s t"
    if "t \<noteq> raw_channel_topic (deref s r)" for t
    using that by (metis (mono_tags, lifting) filter_True)
  have cl: "channel_close T r s = (unlink_channel r s) \<lparr> world :=
      fold (\<lambda>k w. sink_remove_channel T k (remove_from_context (deref s r)) w) (hm_values (sinks (ctx s))) (world s) \<rparr>"
    using open_ assms(3) id by (simp add: channel_close_def ctx_remove_channel_unlink [OF wf assms(2)])
  have w: "registered (x \<lparr> world := w \<rparr>) = registered x" "topic_list (x \<lparr> world := w \<rparr>) = topic_list x"
    for x :: "'a program" and w
    by (simp_all add: registered_def topic_list_def fun_eq_iff)
  show ?thesis
    unfolding cl w using same by (simp add: unlink_channel_simps)
qed

theorem close_unregisters_witness:
  "ctx_alive demo_program \<and> closed (deref (channel_close demo_sinks 1 demo_program) 1)"
  using close_unregisters [OF demo_reachable demo_registered] by (simp add: demo_program_eval)

text \<open>Building a channel returns the registered channel that has the same topic,
  encoding, metadata and schema, if there is one, and then nothing changes in the context and
  no sink is called; otherwise it registers a new channel under a fresh identifier, after the
  channels already on its topic, so that a lookup by topic still finds the one added first.\<close>

theorem build_raw_registers:
  assumes "ctx_reachable T s" "ctx_allowed (Build b) s" "cb_message_encoding b = Some e"
    and "build_raw T b s = (res, s')"
    and "ch = raw_channel_new (next_channel_id s) (cb_topic b) e (cb_schema b) (cb_metadata b)"
  shows "(\<exists>r. registered s r \<and> raw_channel_matches ch (deref s r) \<and> res = Inr r
            \<and> ctx s' = ctx s \<and> world s' = world s)
    \<or> ((\<forall>r. registered s r \<longrightarrow> \<not> raw_channel_matches ch (deref s r))
        \<and> res = Inr (next_channel_id s) \<and> \<not> hm_contains (next_channel_id s) (heap s)
        \<and> registered s' = (registered s)(next_channel_id s := True)
        \<and> get_channel_by_topic (cb_topic b) s' =
            (case get_channel_by_topic (cb_topic b) s of None \<Rightarrow> Some (next_channel_id s) | Some r \<Rightarrow> Some r))"
proof -
  have wf: "ctx_wf T s" using assms(1) by (rule ctx_reachable_wf)
  obtain r s1 where a: "alloc_channel (cb_topic b) e (cb_schema b) (cb_metadata b) s = (r, s1)" by fastforce
  obtain x s2 where c: "ctx_add_channel T r s1 = (x, s2)" by fastforce
  have room: "unat (next_channel_id s) + 1 < 2 ^ 64" using assms(2) by simp
  from alloc_channel_wf [OF wf room a] have 1: "ctx_wf T s1" "hm_contains r (heap s1)"
    "\<not> registered s1 r" "deref s1 r = ch" "ctx s1 = ctx s" "\<not> hm_contains r (heap s)"
    "r = next_channel_id s" "\<And>r'. r' \<noteq> r \<Longrightarrow> deref s1 r' = deref s r'"
    by (auto simp: assms(5))
  have reg: "registered s1 = registered s" "topic_list s1 = topic_list s"
    using 1(5) by (simp_all add: registered_def topic_list_def fun_eq_iff)
  have old: "deref s1 r' = deref s r'" if "registered s r'" for r'
    using 1(3,8) reg(1) that by metis
  have out: "res = Inr x" "s' = s2" using assms(3,4) a c by (auto simp: build_raw_def)
  have w1: "world s1 = world s" using a by (auto simp: alloc_channel_def Let_def)
  show ?thesis
  proof (cases "\<exists>r'. registered s r' \<and> raw_channel_matches ch (deref s r')")
    case True
    then show ?thesis
      using ctx_add_channel_existing [OF 1(1)] 1(4,5) c out old reg w1 by fastforce
  next
    case False
    have nc: "\<not> closed (deref s1 r)" by (simp add: 1(4) assms(5))
    have "\<not> raw_channel_matches (deref s1 r) (deref s1 r')" if "registered s1 r'" for r'
      using False that old by (simp add: 1(4) reg)
    note n = ctx_add_channel_new [OF 1(1,2) nc 1(3) this c]
    have t: "raw_channel_topic (deref s1 r) = cb_topic b" by (simp add: 1(4) assms(5))
    have "get_channel_by_topic (cb_topic b) s' =
        (case get_channel_by_topic (cb_topic b) s of None \<Rightarrow> Some (next_channel_id s) | Some r \<Rightarrow> Some r)"
      using n t reg out 1(7) by (simp add: get_channel_by_topic_list split: list.split)
    with n False 1(6,7) out reg show ?thesis by simp
  qed
qed

theorem build_raw_registers_witness:
  "fst (build_raw demo_sinks demo_builder demo_program) = Inr 1
   \<and> registered demo_program 1"
proof -
  have "ctx_allowed (Build demo_builder) demo_program" by (simp add: demo_program_eval)
  moreover have "cb_message_encoding demo_builder = Some ''json''"
    by (simp add: demo_builder_def builder_message_encoding_def)
  moreover obtain res s' where b: "build_raw demo_sinks demo_builder demo_program = (res, s')" by fastforce
  moreover have "raw_channel_matches (raw_channel_new (next_channel_id demo_program) (cb_topic demo_builder)
      ''json'' (cb_schema demo_builder) (cb_metadata demo_builder)) (deref demo_program 1)"
    by (simp add: demo_program_eval deref_def raw_channel_matches_def descriptor_matches_def
        raw_channel_new_def channel_descriptor_new_def demo_builder_def builder_message_encoding_def
        channel_builder_new_def)
  moreover have "r = 1" if "registered demo_program r" for r
    using that by (auto simp: registered_def demo_program_eval hm_contains_def split: if_splits)
  ultimately show ?thesis
    using build_raw_registers [OF demo_reachable _ _ b refl] demo_registered by fastforce
qed

text \<open>Dropping the context closes every channel registered on it, leaves no channel
  with a sink, and makes later log calls on all its channels no-ops for the sinks.\<close>

theorem drop_silences_channels:
  assumes "ctx_reachable T s" "hm_contains r (heap s)"
  shows "log_sinks (deref (ctx_drop T s) r) = [] \<and> (registered s r \<longrightarrow> closed (deref (ctx_drop T s) r))
    \<and> world (channel_log T now unow r msg opts target (ctx_drop T s)) = world (ctx_drop T s)"
proof -
  have wf: "ctx_wf T s" using assms(1) by (rule ctx_reachable_wf)
  note c = ctx_clear_wf [OF wf]
  have "hm_contains r (heap (ctx_drop T s))"
    using heap_grows [OF assms(2), of T Drop_context] by simp
  then have "log_sinks (deref (ctx_clear T s) r) = []"
    using c(1,3) by (auto simp: ctx_wf_def cache_ok_def registered_def context_inner_default_def
        ctx_drop_def split: if_splits)
  then show ?thesis
    using c(2) [of r] by (simp add: ctx_drop_def channel_log_def log_with_meta_to_sink_def has_sinks_def)
qed

theorem drop_silences_channels_witness:
  "hm_contains 1 (heap demo_program) \<and> log_sinks (deref (ctx_drop demo_sinks demo_program) 1) = []"
proof -
  have "hm_contains 1 (heap demo_program)" by (simp add: demo_program_eval hm_contains_def)
  then show ?thesis using drop_silences_channels [OF demo_reachable] by blast
qed

end
