(* ===== verification/Protocol_Payload.thy ===== *)
theory Protocol_Payload
  imports Rust_Prelude
begin

text \<open>
  The binary payloads of the Foxglove protocol (\<open>protocol/common\<close>, \<open>protocol/v1\<close> and
  \<open>protocol/v2\<close>): for every message that implements \<open>BinaryPayload\<close>, its struct and its
  \<open>parse_payload\<close>, \<open>payload_size\<close> and \<open>write_payload\<close>. A parser returns \<open>None\<close> where
  the code would panic and a \<open>ParseError\<close> on the left where it returns one. The reads and
  writes of the \<open>bytes\<close> crate are a parameter with their documented behaviour as the
  predicate \<open>bytes_laws\<close>. The locale \<open>binary_payload\<close> is the contract of the trait.
\<close>

section \<open>The bytes crate\<close>

text \<open>The \<open>Buf\<close> methods on a slice return the value and the rest; they panic (\<open>None\<close>)
  when the slice is too short. The \<open>BufMut\<close> methods on a vector append. An \<open>f32\<close> is its
  32-bit pattern.\<close>

record bytes_ops =
  get_u8 :: "u8 list \<Rightarrow> (u8 \<times> u8 list) may_panic"
  get_u32_le :: "u8 list \<Rightarrow> (u32 \<times> u8 list) may_panic"
  get_u64_le :: "u8 list \<Rightarrow> (u64 \<times> u8 list) may_panic"
  get_f32_le :: "u8 list \<Rightarrow> (u32 \<times> u8 list) may_panic"
  advance :: "nat \<Rightarrow> u8 list \<Rightarrow> u8 list may_panic"
  put_u8 :: "u8 \<Rightarrow> u8 list \<Rightarrow> u8 list"
  put_u32_le :: "u32 \<Rightarrow> u8 list \<Rightarrow> u8 list"
  put_u64_le :: "u64 \<Rightarrow> u8 list \<Rightarrow> u8 list"
  put_f32_le :: "u32 \<Rightarrow> u8 list \<Rightarrow> u8 list"
  put_slice :: "u8 list \<Rightarrow> u8 list \<Rightarrow> u8 list"

definition bytes_laws :: "bytes_ops \<Rightarrow> bool" where
  "bytes_laws B \<longleftrightarrow>
     (\<forall>d. get_u8 B d = (case d of [] \<Rightarrow> None | b # r \<Rightarrow> Some (b, r)))
     \<and> (\<forall>d. get_u32_le B d =
          (if length d < 4 then None else Some (u32_from_le_bytes (take 4 d), drop 4 d)))
     \<and> (\<forall>d. get_u64_le B d =
          (if length d < 8 then None else Some (u64_from_le_bytes (take 8 d), drop 8 d)))
     \<and> (\<forall>d. get_f32_le B d =
          (if length d < 4 then None else Some (u32_from_le_bytes (take 4 d), drop 4 d)))
     \<and> (\<forall>n d. advance B n d = (if length d < n then None else Some (drop n d)))
     \<and> (\<forall>x buf. put_u8 B x buf = buf @ [x])
     \<and> (\<forall>x buf. put_u32_le B x buf = buf @ u32_to_le_bytes x)
     \<and> (\<forall>x buf. put_u64_le B x buf = buf @ u64_to_le_bytes x)
     \<and> (\<forall>x buf. put_f32_le B x buf = buf @ u32_to_le_bytes x)
     \<and> (\<forall>x buf. put_slice B x buf = buf @ x)"

text \<open>A concrete crate, for evaluation.\<close>

definition std_bytes :: bytes_ops where
  "std_bytes = \<lparr>
     get_u8 = (\<lambda>d. case d of [] \<Rightarrow> None | b # r \<Rightarrow> Some (b, r)),
     get_u32_le = (\<lambda>d. if length d < 4 then None else Some (u32_from_le_bytes (take 4 d), drop 4 d)),
     get_u64_le = (\<lambda>d. if length d < 8 then None else Some (u64_from_le_bytes (take 8 d), drop 8 d)),
     get_f32_le = (\<lambda>d. if length d < 4 then None else Some (u32_from_le_bytes (take 4 d), drop 4 d)),
     advance = (\<lambda>n d. if length d < n then None else Some (drop n d)),
     put_u8 = (\<lambda>x buf. buf @ [x]),
     put_u32_le = (\<lambda>x buf. buf @ u32_to_le_bytes x),
     put_u64_le = (\<lambda>x buf. buf @ u64_to_le_bytes x),
     put_f32_le = (\<lambda>x buf. buf @ u32_to_le_bytes x),
     put_slice = (\<lambda>x buf. buf @ x) \<rparr>"

section \<open>Parse errors\<close>

text \<open>The errors of \<open>std::str\<close> and \<open>serde_json\<close> are represented by the constructor alone and by
  a message.\<close>

datatype ParseError =
  EmptyBinaryMessage
| UnhandledMessageType
| InvalidOpcode u8
| BufferTooShort
| InvalidFetchAssetStatus u8
| Utf8
| Json string
| InvalidPlaybackCommand u8
| InvalidPlaybackStatus u8

type_synonym 'm parsed = "('m, ParseError) result may_panic"

section \<open>Client payloads\<close>

record ClientMessageData =
  cmd_channel_id :: u32
  cmd_data :: "u8 list"

definition client_message_data_parse :: "bytes_ops \<Rightarrow> u8 list \<Rightarrow> ClientMessageData parsed" where
  "client_message_data_parse B data =
     (if length data < 4 then Some (Inl BufferTooShort)
      else do {
        (channel_id, data) \<leftarrow> get_u32_le B data;
        Some (Inr \<lparr> cmd_channel_id = channel_id, cmd_data = data \<rparr>)
      })"

definition client_message_data_size :: "ClientMessageData \<Rightarrow> nat" where
  "client_message_data_size m = 4 + length (cmd_data m)"

definition client_message_data_write :: "bytes_ops \<Rightarrow> ClientMessageData \<Rightarrow> u8 list \<Rightarrow> u8 list" where
  "client_message_data_write B m buf = put_slice B (cmd_data m) (put_u32_le B (cmd_channel_id m) buf)"

record ServiceCallRequest =
  scr_service_id :: u32
  scr_call_id :: u32
  scr_encoding :: string
  scr_payload :: "u8 list"

definition service_call_request_parse :: "bytes_ops \<Rightarrow> u8 list \<Rightarrow> ServiceCallRequest parsed" where
  "service_call_request_parse B data =
     (if length data < 4 + 4 + 4 then Some (Inl BufferTooShort)
      else do {
        (service_id, data) \<leftarrow> get_u32_le B data;
        (call_id, data) \<leftarrow> get_u32_le B data;
        (encoding_length, data) \<leftarrow> get_u32_le B data;
        if length data < unat encoding_length then Some (Inl BufferTooShort)
        else do {
          enc \<leftarrow> slice_to (unat encoding_length) data;
          case from_utf8 enc of
            None \<Rightarrow> Some (Inl Utf8)
          | Some encoding \<Rightarrow> do {
              data \<leftarrow> advance B (unat encoding_length) data;
              Some (Inr \<lparr> scr_service_id = service_id, scr_call_id = call_id,
                          scr_encoding = encoding, scr_payload = data \<rparr>)
            }
        }
      })"

definition service_call_request_size :: "ServiceCallRequest \<Rightarrow> nat" where
  "service_call_request_size m = 4 + 4 + 4 + length (scr_encoding m) + length (scr_payload m)"

text \<open>\<open>len() as u32\<close> keeps the low 32 bits of the length.\<close>

definition service_call_request_write :: "bytes_ops \<Rightarrow> ServiceCallRequest \<Rightarrow> u8 list \<Rightarrow> u8 list" where
  "service_call_request_write B m buf =
     (let buf = put_u32_le B (scr_service_id m) buf;
          buf = put_u32_le B (scr_call_id m) buf;
          buf = put_u32_le B (word_of_nat (length (scr_encoding m))) buf;
          buf = put_slice B (as_bytes (scr_encoding m)) buf in
      put_slice B (scr_payload m) buf)"

datatype PlaybackCommand = Play | Pause

definition playback_command_try_from :: "u8 \<Rightarrow> (PlaybackCommand, u8) result" where
  "playback_command_try_from v = (if v = 0 then Inr Play else if v = 1 then Inr Pause else Inl v)"

fun playback_command_repr :: "PlaybackCommand \<Rightarrow> u8" where
  "playback_command_repr Play = 0"
| "playback_command_repr Pause = 1"

record PlaybackControlRequest =
  pcr_playback_command :: PlaybackCommand
  pcr_playback_speed :: u32
  pcr_seek_time :: "u64 option"
  pcr_request_id :: string

definition playback_control_request_parse :: "bytes_ops \<Rightarrow> u8 list \<Rightarrow> PlaybackControlRequest parsed" where
  "playback_control_request_parse B data =
     (if length data < 1 + 4 + 1 + 8 + 4 then Some (Inl BufferTooShort)
      else do {
        (state_byte, data) \<leftarrow> get_u8 B data;
        case playback_command_try_from state_byte of
          Inl _ \<Rightarrow> Some (Inl (InvalidPlaybackCommand state_byte))
        | Inr playback_command \<Rightarrow> do {
            (playback_speed, data) \<leftarrow> get_f32_le B data;
            (had_seek, data) \<leftarrow> get_u8 B data;
            (seek_time, data) \<leftarrow>
              (if had_seek \<noteq> 0 then do { (t, data) \<leftarrow> get_u64_le B data; Some (Some t, data) }
               else do { data \<leftarrow> advance B 8 data; Some (None, data) });
            (request_id_len, data) \<leftarrow> get_u32_le B data;
            if length data < unat request_id_len then Some (Inl BufferTooShort)
            else do {
              request_id_bytes \<leftarrow> slice_to (unat request_id_len) data;
              case from_utf8 request_id_bytes of
                None \<Rightarrow> Some (Inl Utf8)
              | Some request_id \<Rightarrow>
                  Some (Inr \<lparr> pcr_playback_command = playback_command, pcr_playback_speed = playback_speed,
                              pcr_seek_time = seek_time, pcr_request_id = request_id \<rparr>)
            }
          }
      })"

definition playback_control_request_size :: "PlaybackControlRequest \<Rightarrow> nat" where
  "playback_control_request_size m = 1 + 4 + 1 + 8 + 4 + length (pcr_request_id m)"

definition playback_control_request_write :: "bytes_ops \<Rightarrow> PlaybackControlRequest \<Rightarrow> u8 list \<Rightarrow> u8 list" where
  "playback_control_request_write B m buf =
     (let buf = put_u8 B (playback_command_repr (pcr_playback_command m)) buf;
          buf = put_f32_le B (pcr_playback_speed m) buf;
          buf = put_u8 B (if pcr_seek_time m \<noteq> None then 1 else 0) buf;
          buf = put_u64_le B (case pcr_seek_time m of None \<Rightarrow> 0 | Some t \<Rightarrow> t) buf;
          buf = put_u32_le B (word_of_nat (length (pcr_request_id m))) buf in
      put_slice B (as_bytes (pcr_request_id m)) buf)"

text \<open>The two id lists of protocol v2 share their layout.\<close>

record Subscribe_v2 =
  sub_channel_ids :: "u32 list"

record Unsubscribe_v2 =
  unsub_channel_ids :: "u32 list"

text \<open>The loop \<open>for _ in 0..count\<close> over \<open>get_u32_le\<close>.\<close>

fun read_u32s :: "bytes_ops \<Rightarrow> nat \<Rightarrow> u8 list \<Rightarrow> (u32 list \<times> u8 list) may_panic" where
  "read_u32s B 0 data = Some ([], data)"
| "read_u32s B (Suc n) data = do {
     (x, data) \<leftarrow> get_u32_le B data;
     (xs, data) \<leftarrow> read_u32s B n data;
     Some (x # xs, data)
   }"

definition subscribe_v2_parse :: "bytes_ops \<Rightarrow> u8 list \<Rightarrow> Subscribe_v2 parsed" where
  "subscribe_v2_parse B data =
     (if length data < 4 then Some (Inl BufferTooShort)
      else do {
        (count, data) \<leftarrow> get_u32_le B data;
        case usize_checked_mul (unat count) 4 of
          None \<Rightarrow> Some (Inl BufferTooShort)
        | Some required_len \<Rightarrow>
            if length data < required_len then Some (Inl BufferTooShort)
            else do {
              (ids, data) \<leftarrow> read_u32s B (unat count) data;
              Some (Inr \<lparr> sub_channel_ids = ids \<rparr>)
            }
      })"

definition subscribe_v2_size :: "Subscribe_v2 \<Rightarrow> nat" where
  "subscribe_v2_size m = 4 + length (sub_channel_ids m) * 4"

definition subscribe_v2_write :: "bytes_ops \<Rightarrow> Subscribe_v2 \<Rightarrow> u8 list \<Rightarrow> u8 list" where
  "subscribe_v2_write B m buf =
     fold (put_u32_le B) (sub_channel_ids m)
       (put_u32_le B (word_of_nat (length (sub_channel_ids m))) buf)"

definition unsubscribe_v2_parse :: "bytes_ops \<Rightarrow> u8 list \<Rightarrow> Unsubscribe_v2 parsed" where
  "unsubscribe_v2_parse B data =
     (if length data < 4 then Some (Inl BufferTooShort)
      else do {
        (count, data) \<leftarrow> get_u32_le B data;
        case usize_checked_mul (unat count) 4 of
          None \<Rightarrow> Some (Inl BufferTooShort)
        | Some required_len \<Rightarrow>
            if length data < required_len then Some (Inl BufferTooShort)
            else do {
              (ids, data) \<leftarrow> read_u32s B (unat count) data;
              Some (Inr \<lparr> unsub_channel_ids = ids \<rparr>)
            }
      })"

definition unsubscribe_v2_size :: "Unsubscribe_v2 \<Rightarrow> nat" where
  "unsubscribe_v2_size m = 4 + length (unsub_channel_ids m) * 4"

definition unsubscribe_v2_write :: "bytes_ops \<Rightarrow> Unsubscribe_v2 \<Rightarrow> u8 list \<Rightarrow> u8 list" where
  "unsubscribe_v2_write B m buf =
     fold (put_u32_le B) (unsub_channel_ids m)
       (put_u32_le B (word_of_nat (length (unsub_channel_ids m))) buf)"

section \<open>Server payloads\<close>

text \<open>The first field is the subscription identifier in protocol v1 and the channel
  identifier in protocol v2.\<close>

record ServerMessageData_v1 =
  smd_subscription_id :: u32
  smd_log_time :: u64
  smd_data :: "u8 list"

definition message_data_v1_parse :: "bytes_ops \<Rightarrow> u8 list \<Rightarrow> ServerMessageData_v1 parsed" where
  "message_data_v1_parse B data =
     (if length data < 4 + 8 then Some (Inl BufferTooShort)
      else do {
        (subscription_id, data) \<leftarrow> get_u32_le B data;
        (log_time, data) \<leftarrow> get_u64_le B data;
        Some (Inr \<lparr> smd_subscription_id = subscription_id, smd_log_time = log_time, smd_data = data \<rparr>)
      })"

definition message_data_v1_size :: "ServerMessageData_v1 \<Rightarrow> nat" where
  "message_data_v1_size m = 4 + 8 + length (smd_data m)"

definition message_data_v1_write :: "bytes_ops \<Rightarrow> ServerMessageData_v1 \<Rightarrow> u8 list \<Rightarrow> u8 list" where
  "message_data_v1_write B m buf =
     put_slice B (smd_data m) (put_u64_le B (smd_log_time m) (put_u32_le B (smd_subscription_id m) buf))"

record ServerMessageData_v2 =
  smd2_channel_id :: u32
  smd2_log_time :: u64
  smd2_data :: "u8 list"

definition message_data_v2_parse :: "bytes_ops \<Rightarrow> u8 list \<Rightarrow> ServerMessageData_v2 parsed" where
  "message_data_v2_parse B data =
     (if length data < 4 + 8 then Some (Inl BufferTooShort)
      else do {
        (channel_id, data) \<leftarrow> get_u32_le B data;
        (log_time, data) \<leftarrow> get_u64_le B data;
        Some (Inr \<lparr> smd2_channel_id = channel_id, smd2_log_time = log_time, smd2_data = data \<rparr>)
      })"

definition message_data_v2_size :: "ServerMessageData_v2 \<Rightarrow> nat" where
  "message_data_v2_size m = 4 + 8 + length (smd2_data m)"

definition message_data_v2_write :: "bytes_ops \<Rightarrow> ServerMessageData_v2 \<Rightarrow> u8 list \<Rightarrow> u8 list" where
  "message_data_v2_write B m buf =
     put_slice B (smd2_data m) (put_u64_le B (smd2_log_time m) (put_u32_le B (smd2_channel_id m) buf))"

record Time =
  timestamp :: u64

definition time_parse :: "bytes_ops \<Rightarrow> u8 list \<Rightarrow> Time parsed" where
  "time_parse B data =
     (if length data < 8 then Some (Inl BufferTooShort)
      else do { (t, data) \<leftarrow> get_u64_le B data; Some (Inr \<lparr> timestamp = t \<rparr>) })"

definition time_size :: "Time \<Rightarrow> nat" where
  "time_size m = 8"

definition time_write :: "bytes_ops \<Rightarrow> Time \<Rightarrow> u8 list \<Rightarrow> u8 list" where
  "time_write B m buf = put_u64_le B (timestamp m) buf"

record ServiceCallResponse =
  scp_service_id :: u32
  scp_call_id :: u32
  scp_encoding :: string
  scp_payload :: "u8 list"

definition service_call_response_parse :: "bytes_ops \<Rightarrow> u8 list \<Rightarrow> ServiceCallResponse parsed" where
  "service_call_response_parse B data =
     (if length data < 4 + 4 + 4 then Some (Inl BufferTooShort)
      else do {
        (service_id, data) \<leftarrow> get_u32_le B data;
        (call_id, data) \<leftarrow> get_u32_le B data;
        (encoding_len, data) \<leftarrow> get_u32_le B data;
        if length data < unat encoding_len then Some (Inl BufferTooShort)
        else do {
          enc \<leftarrow> slice_to (unat encoding_len) data;
          case from_utf8 enc of
            None \<Rightarrow> Some (Inl Utf8)
          | Some encoding \<Rightarrow> do {
              data \<leftarrow> advance B (unat encoding_len) data;
              Some (Inr \<lparr> scp_service_id = service_id, scp_call_id = call_id,
                          scp_encoding = encoding, scp_payload = data \<rparr>)
            }
        }
      })"

definition service_call_response_size :: "ServiceCallResponse \<Rightarrow> nat" where
  "service_call_response_size m = 4 + 4 + 4 + length (scp_encoding m) + length (scp_payload m)"

definition service_call_response_write :: "bytes_ops \<Rightarrow> ServiceCallResponse \<Rightarrow> u8 list \<Rightarrow> u8 list" where
  "service_call_response_write B m buf =
     (let buf = put_u32_le B (scp_service_id m) buf;
          buf = put_u32_le B (scp_call_id m) buf;
          buf = put_u32_le B (word_of_nat (length (scp_encoding m))) buf;
          buf = put_slice B (as_bytes (scp_encoding m)) buf in
      put_slice B (scp_payload m) buf)"

datatype AssetPayload = ErrorMessage string | AssetData "u8 list"

record FetchAssetResponse =
  far_request_id :: u32
  far_payload :: AssetPayload

datatype AssetStatus = Success | Error

definition asset_status_from_repr :: "u8 \<Rightarrow> AssetStatus option" where
  "asset_status_from_repr v = (if v = 0 then Some Success else if v = 1 then Some Error else None)"

fun asset_status_repr :: "AssetStatus \<Rightarrow> u8" where
  "asset_status_repr Success = 0"
| "asset_status_repr Error = 1"

definition fetch_asset_error_message :: "u32 \<Rightarrow> string \<Rightarrow> FetchAssetResponse" where
  "fetch_asset_error_message i msg = \<lparr> far_request_id = i, far_payload = ErrorMessage msg \<rparr>"

definition fetch_asset_data :: "u32 \<Rightarrow> u8 list \<Rightarrow> FetchAssetResponse" where
  "fetch_asset_data i d = \<lparr> far_request_id = i, far_payload = AssetData d \<rparr>"

definition fetch_asset_response_parse :: "bytes_ops \<Rightarrow> u8 list \<Rightarrow> FetchAssetResponse parsed" where
  "fetch_asset_response_parse B data =
     (if length data < 4 + 1 + 4 then Some (Inl BufferTooShort)
      else do {
        (request_id, data) \<leftarrow> get_u32_le B data;
        (raw_status, data) \<leftarrow> get_u8 B data;
        case asset_status_from_repr raw_status of
          None \<Rightarrow> Some (Inl (InvalidFetchAssetStatus raw_status))
        | Some status \<Rightarrow> do {
            (error_message_len, data) \<leftarrow> get_u32_le B data;
            if length data < unat error_message_len then Some (Inl BufferTooShort)
            else
              case status of
                Success \<Rightarrow> do {
                  data \<leftarrow> advance B (unat error_message_len) data;
                  Some (Inr \<lparr> far_request_id = request_id, far_payload = AssetData data \<rparr>)
                }
              | Error \<Rightarrow> do {
                  bs \<leftarrow> slice_to (unat error_message_len) data;
                  case from_utf8 bs of
                    None \<Rightarrow> Some (Inl Utf8)
                  | Some msg \<Rightarrow> Some (Inr \<lparr> far_request_id = request_id, far_payload = ErrorMessage msg \<rparr>)
                }
          }
      })"

definition fetch_asset_response_size :: "FetchAssetResponse \<Rightarrow> nat" where
  "fetch_asset_response_size m =
     4 + 1 + 4 + (case far_payload m of ErrorMessage msg \<Rightarrow> length msg | AssetData d \<Rightarrow> length d)"

definition fetch_asset_response_write :: "bytes_ops \<Rightarrow> FetchAssetResponse \<Rightarrow> u8 list \<Rightarrow> u8 list" where
  "fetch_asset_response_write B m buf =
     (let (status, error_message_len, payload) =
            (case far_payload m of
               ErrorMessage msg \<Rightarrow> (Error, length msg, as_bytes msg)
             | AssetData d \<Rightarrow> (Success, 0, d));
          buf = put_u32_le B (far_request_id m) buf;
          buf = put_u8 B (asset_status_repr status) buf;
          buf = put_u32_le B (word_of_nat error_message_len) buf in
      put_slice B payload buf)"

datatype PlaybackStatus = Playing | Paused | Buffering | Ended

definition playback_status_try_from :: "u8 \<Rightarrow> (PlaybackStatus, u8) result" where
  "playback_status_try_from v =
     (if v = 0 then Inr Playing else if v = 1 then Inr Paused else if v = 2 then Inr Buffering
      else if v = 3 then Inr Ended else Inl v)"

fun playback_status_repr :: "PlaybackStatus \<Rightarrow> u8" where
  "playback_status_repr Playing = 0"
| "playback_status_repr Paused = 1"
| "playback_status_repr Buffering = 2"
| "playback_status_repr Ended = 3"

record PlaybackState =
  pbs_status :: PlaybackStatus
  pbs_current_time :: u64
  pbs_playback_speed :: u32
  pbs_did_seek :: bool
  pbs_request_id :: "string option"

definition playback_state_parse :: "bytes_ops \<Rightarrow> u8 list \<Rightarrow> PlaybackState parsed" where
  "playback_state_parse B data =
     (if length data < 1 + 8 + 4 + 1 + 4 then Some (Inl BufferTooShort)
      else do {
        (status_byte, data) \<leftarrow> get_u8 B data;
        case playback_status_try_from status_byte of
          Inl _ \<Rightarrow> Some (Inl (InvalidPlaybackStatus status_byte))
        | Inr status \<Rightarrow> do {
            (current_time, data) \<leftarrow> get_u64_le B data;
            (playback_speed, data) \<leftarrow> get_f32_le B data;
            (did_seek, data) \<leftarrow> get_u8 B data;
            (request_id_len, data) \<leftarrow> get_u32_le B data;
            if unat request_id_len = 0 then
              Some (Inr \<lparr> pbs_status = status, pbs_current_time = current_time,
                          pbs_playback_speed = playback_speed, pbs_did_seek = (did_seek \<noteq> 0),
                          pbs_request_id = None \<rparr>)
            else if length data < unat request_id_len then Some (Inl BufferTooShort)
            else do {
              request_id_bytes \<leftarrow> slice_to (unat request_id_len) data;
              case from_utf8 request_id_bytes of
                None \<Rightarrow> Some (Inl Utf8)
              | Some request_id \<Rightarrow>
                  Some (Inr \<lparr> pbs_status = status, pbs_current_time = current_time,
                              pbs_playback_speed = playback_speed, pbs_did_seek = (did_seek \<noteq> 0),
                              pbs_request_id = Some request_id \<rparr>)
            }
          }
      })"

definition playback_state_size :: "PlaybackState \<Rightarrow> nat" where
  "playback_state_size m =
     1 + 8 + 4 + 1 + 4 + (case pbs_request_id m of None \<Rightarrow> 0 | Some i \<Rightarrow> length i)"

definition playback_state_write :: "bytes_ops \<Rightarrow> PlaybackState \<Rightarrow> u8 list \<Rightarrow> u8 list" where
  "playback_state_write B m buf =
     (let request_id_len = (case pbs_request_id m of Some i \<Rightarrow> word_of_nat (length i) | None \<Rightarrow> 0);
          buf = put_u8 B (playback_status_repr (pbs_status m)) buf;
          buf = put_u64_le B (pbs_current_time m) buf;
          buf = put_f32_le B (pbs_playback_speed m) buf;
          buf = put_u8 B (if pbs_did_seek m then 1 else 0) buf;
          buf = put_u32_le B request_id_len buf in
      case pbs_request_id m of Some i \<Rightarrow> put_slice B (as_bytes i) buf | None \<Rightarrow> buf)"

section \<open>The contract of BinaryPayload\<close>

text \<open>
  \<open>ok\<close> is the set of messages whose lengths fit the 32-bit length fields and whose strings
  are strings. The trait promises: parsing never panics, the size is the number of bytes
  written, writing appends to the buffer, and parsing what was written gives the message
  back. Every framed message (an opcode byte and the payload) inherits it.
\<close>

locale binary_payload =
  fixes parse :: "u8 list \<Rightarrow> 'm parsed"
    and payload_size :: "'m \<Rightarrow> nat"
    and write_payload :: "'m \<Rightarrow> u8 list \<Rightarrow> u8 list"
    and ok :: "'m \<Rightarrow> bool"
  assumes parse_total: "\<exists>r. parse d = Some r"
    and write_append: "write_payload m buf = buf @ write_payload m []"
    and write_size: "length (write_payload m []) = payload_size m"
    and parse_write: "ok m \<Longrightarrow> parse (write_payload m []) = Some (Inr m)"
begin

lemma framed_size: "length (write_payload m [opc]) = 1 + payload_size m"
  using write_append [of m "[opc]"] write_size [of m] by simp

lemma framed_cons: "write_payload m [opc] = opc # write_payload m []"
  using write_append [of m "[opc]"] by simp

lemma write_inj: "ok m \<Longrightarrow> ok m' \<Longrightarrow> write_payload m [] = write_payload m' [] \<Longrightarrow> m = m'"
  using parse_write by (metis option.inject sum.inject(2))

end

section \<open>Lemmas\<close>

lemma std_bytes_laws: "bytes_laws std_bytes"
  by (simp add: bytes_laws_def std_bytes_def)

lemma bytes_get:
  assumes "bytes_laws B"
  shows "get_u8 B (b # r) = Some (b, r)"
    and "get_u32_le B (u32_to_le_bytes x @ r) = Some (x, r)"
    and "get_u32_le B (u32_to_le_bytes x) = Some (x, [])"
    and "get_f32_le B (u32_to_le_bytes x @ r) = Some (x, r)"
    and "get_u64_le B (u64_to_le_bytes y @ r) = Some (y, r)"
    and "get_u64_le B (u64_to_le_bytes y) = Some (y, [])"
    and "n \<le> length d \<Longrightarrow> advance B n d = Some (drop n d)"
  using assms by (auto simp: bytes_laws_def le_simps)

lemma bytes_put:
  assumes "bytes_laws B"
  shows "put_u8 B b buf = buf @ [b]" "put_u32_le B x buf = buf @ u32_to_le_bytes x"
    "put_f32_le B x buf = buf @ u32_to_le_bytes x" "put_u64_le B y buf = buf @ u64_to_le_bytes y"
    "put_slice B s buf = buf @ s"
  using assms by (auto simp: bytes_laws_def)

lemma bytes_total:
  assumes "bytes_laws B"
  shows "d \<noteq> [] \<Longrightarrow> get_u8 B d = Some (hd d, tl d)"
    and "4 \<le> length d \<Longrightarrow> get_u32_le B d = Some (u32_from_le_bytes (take 4 d), drop 4 d)"
    and "4 \<le> length d \<Longrightarrow> get_f32_le B d = Some (u32_from_le_bytes (take 4 d), drop 4 d)"
    and "8 \<le> length d \<Longrightarrow> get_u64_le B d = Some (u64_from_le_bytes (take 8 d), drop 8 d)"
    and "n \<le> length d \<Longrightarrow> advance B n d = Some (drop n d)"
  using assms by (auto simp: bytes_laws_def split: list.split)

lemma unat_u32_of_nat: "n < 2 ^ 32 \<Longrightarrow> unat (word_of_nat n :: u32) = n"
  by (simp add: unat_of_nat)

lemma fold_put_u32:
  "bytes_laws B \<Longrightarrow> fold (put_u32_le B) xs buf = buf @ concat (map u32_to_le_bytes xs)"
  by (induction xs arbitrary: buf) (simp_all add: bytes_put)

lemma read_u32s_total:
  "bytes_laws B \<Longrightarrow> 4 * n \<le> length d \<Longrightarrow> \<exists>xs r. read_u32s B n d = Some (xs, r)"
proof (induction n arbitrary: d)
  case (Suc n)
  then have "get_u32_le B d = Some (u32_from_le_bytes (take 4 d), drop 4 d)"
    by (intro bytes_total) auto
  moreover obtain xs r where "read_u32s B n (drop 4 d) = Some (xs, r)"
  proof -
    have "4 * n \<le> length (drop 4 d)" using Suc.prems by simp
    then show thesis using Suc.IH Suc.prems(1) that by blast
  qed
  ultimately show ?case by simp
qed simp

lemma read_u32s_concat:
  "bytes_laws B \<Longrightarrow> read_u32s B (length xs) (concat (map u32_to_le_bytes xs)) = Some (xs, [])"
  by (induction xs) (simp_all add: bytes_get)

lemma length_concat_u32: "length (concat (map u32_to_le_bytes xs)) = 4 * length xs"
  by (induction xs) simp_all

subsection \<open>Every payload satisfies the contract\<close>

lemma binary_client_message_data:
  assumes "bytes_laws B"
  shows "binary_payload (client_message_data_parse B) client_message_data_size
    (client_message_data_write B) (\<lambda>_. True)"
  by unfold_locales
    (simp_all add: client_message_data_parse_def client_message_data_size_def
      client_message_data_write_def bytes_put [OF assms] bytes_get [OF assms] bytes_total [OF assms])

definition service_call_request_ok :: "ServiceCallRequest \<Rightarrow> bool" where
  "service_call_request_ok m \<longleftrightarrow> is_str (scr_encoding m) \<and> length (scr_encoding m) < 2 ^ 32"

lemma binary_service_call_request:
  assumes "bytes_laws B"
  shows "binary_payload (service_call_request_parse B) service_call_request_size
    (service_call_request_write B) service_call_request_ok"
  by unfold_locales
    (auto simp: service_call_request_parse_def service_call_request_size_def
      service_call_request_write_def service_call_request_ok_def Let_def slice_to_def str_simps
      unat_u32_of_nat bytes_put [OF assms] bytes_get [OF assms] bytes_total [OF assms]
      split: option.split)

definition playback_control_request_ok :: "PlaybackControlRequest \<Rightarrow> bool" where
  "playback_control_request_ok m \<longleftrightarrow> is_str (pcr_request_id m) \<and> length (pcr_request_id m) < 2 ^ 32"

lemma playback_command_roundtrip [simp]:
  "playback_command_try_from (playback_command_repr c) = Inr c"
  by (cases c) (simp_all add: playback_command_try_from_def)

lemma binary_playback_control_request:
  assumes "bytes_laws B"
  shows "binary_payload (playback_control_request_parse B) playback_control_request_size
    (playback_control_request_write B) playback_control_request_ok"
proof
  fix d m buf
  show "\<exists>r. playback_control_request_parse B d = Some r"
    using assms
    by (cases d) (auto simp: playback_control_request_parse_def slice_to_def
        bytes_get [OF assms] bytes_total [OF assms] split: option.split sum.split)
  show "playback_control_request_write B m buf = buf @ playback_control_request_write B m []"
    "length (playback_control_request_write B m []) = playback_control_request_size m"
    by (simp_all add: playback_control_request_write_def playback_control_request_size_def Let_def
        bytes_put [OF assms] str_simps)
  show "playback_control_request_parse B (playback_control_request_write B m []) = Some (Inr m)"
    if "playback_control_request_ok m"
    using that
    by (cases "pcr_seek_time m")
      (simp_all add: playback_control_request_parse_def playback_control_request_write_def Let_def
        playback_control_request_ok_def bytes_put [OF assms] bytes_get [OF assms] str_simps
        unat_u32_of_nat slice_to_def)
qed

definition subscribe_v2_ok :: "Subscribe_v2 \<Rightarrow> bool" where
  "subscribe_v2_ok m \<longleftrightarrow> length (sub_channel_ids m) < 2 ^ 32"

definition unsubscribe_v2_ok :: "Unsubscribe_v2 \<Rightarrow> bool" where
  "unsubscribe_v2_ok m \<longleftrightarrow> length (unsub_channel_ids m) < 2 ^ 32"

lemma usize_mul4: "usize_checked_mul (unat (c :: u32)) 4 = Some (unat c * 4)"
proof -
  have "unat c < 2 ^ 32" using unsigned_less [of c, where ?'a = nat] by simp
  then show ?thesis by (simp add: usize_checked_mul_def)
qed

lemma binary_subscribe_v2:
  assumes "bytes_laws B"
  shows "binary_payload (subscribe_v2_parse B) subscribe_v2_size (subscribe_v2_write B) subscribe_v2_ok"
proof
  fix d m buf
  show "\<exists>r. subscribe_v2_parse B d = Some r"
    using read_u32s_total [OF assms, of "unat (u32_from_le_bytes (take 4 d))" "drop 4 d"]
    by (auto simp: subscribe_v2_parse_def usize_mul4 bytes_total [OF assms] mult.commute)
  show "subscribe_v2_write B m buf = buf @ subscribe_v2_write B m []"
    "length (subscribe_v2_write B m []) = subscribe_v2_size m"
    by (simp_all add: subscribe_v2_write_def subscribe_v2_size_def fold_put_u32 [OF assms]
        bytes_put [OF assms] length_concat_u32)
  show "subscribe_v2_parse B (subscribe_v2_write B m []) = Some (Inr m)" if "subscribe_v2_ok m"
    using that
    by (simp add: subscribe_v2_parse_def subscribe_v2_write_def subscribe_v2_ok_def usize_mul4
        fold_put_u32 [OF assms] bytes_put [OF assms] bytes_get [OF assms] unat_u32_of_nat
        length_concat_u32 read_u32s_concat [OF assms])
qed

lemma binary_unsubscribe_v2:
  assumes "bytes_laws B"
  shows "binary_payload (unsubscribe_v2_parse B) unsubscribe_v2_size (unsubscribe_v2_write B)
    unsubscribe_v2_ok"
proof
  fix d m buf
  show "\<exists>r. unsubscribe_v2_parse B d = Some r"
    using read_u32s_total [OF assms, of "unat (u32_from_le_bytes (take 4 d))" "drop 4 d"]
    by (auto simp: unsubscribe_v2_parse_def usize_mul4 bytes_total [OF assms] mult.commute)
  show "unsubscribe_v2_write B m buf = buf @ unsubscribe_v2_write B m []"
    "length (unsubscribe_v2_write B m []) = unsubscribe_v2_size m"
    by (simp_all add: unsubscribe_v2_write_def unsubscribe_v2_size_def fold_put_u32 [OF assms]
        bytes_put [OF assms] length_concat_u32)
  show "unsubscribe_v2_parse B (unsubscribe_v2_write B m []) = Some (Inr m)" if "unsubscribe_v2_ok m"
    using that
    by (simp add: unsubscribe_v2_parse_def unsubscribe_v2_write_def unsubscribe_v2_ok_def usize_mul4
        fold_put_u32 [OF assms] bytes_put [OF assms] bytes_get [OF assms] unat_u32_of_nat
        length_concat_u32 read_u32s_concat [OF assms])
qed

lemma binary_message_data_v1:
  assumes "bytes_laws B"
  shows "binary_payload (message_data_v1_parse B) message_data_v1_size (message_data_v1_write B) (\<lambda>_. True)"
  by unfold_locales
    (simp_all add: message_data_v1_parse_def message_data_v1_size_def message_data_v1_write_def
      bytes_put [OF assms] bytes_get [OF assms] bytes_total [OF assms])

lemma binary_message_data_v2:
  assumes "bytes_laws B"
  shows "binary_payload (message_data_v2_parse B) message_data_v2_size (message_data_v2_write B) (\<lambda>_. True)"
  by unfold_locales
    (simp_all add: message_data_v2_parse_def message_data_v2_size_def message_data_v2_write_def
      bytes_put [OF assms] bytes_get [OF assms] bytes_total [OF assms])

lemma binary_time:
  assumes "bytes_laws B"
  shows "binary_payload (time_parse B) time_size (time_write B) (\<lambda>_. True)"
  by unfold_locales
    (simp_all add: time_parse_def time_size_def time_write_def bytes_put [OF assms]
      bytes_get [OF assms] bytes_total [OF assms])

definition service_call_response_ok :: "ServiceCallResponse \<Rightarrow> bool" where
  "service_call_response_ok m \<longleftrightarrow> is_str (scp_encoding m) \<and> length (scp_encoding m) < 2 ^ 32"

lemma binary_service_call_response:
  assumes "bytes_laws B"
  shows "binary_payload (service_call_response_parse B) service_call_response_size
    (service_call_response_write B) service_call_response_ok"
  by unfold_locales
    (auto simp: service_call_response_parse_def service_call_response_size_def
      service_call_response_write_def service_call_response_ok_def Let_def slice_to_def str_simps
      unat_u32_of_nat bytes_put [OF assms] bytes_get [OF assms] bytes_total [OF assms]
      split: option.split)

definition fetch_asset_response_ok :: "FetchAssetResponse \<Rightarrow> bool" where
  "fetch_asset_response_ok m \<longleftrightarrow>
     (case far_payload m of ErrorMessage msg \<Rightarrow> is_str msg \<and> length msg < 2 ^ 32 | AssetData _ \<Rightarrow> True)"

lemma asset_status_roundtrip [simp]: "asset_status_from_repr (asset_status_repr c) = Some c"
  by (cases c) (simp_all add: asset_status_from_repr_def)

lemma binary_fetch_asset_response:
  assumes "bytes_laws B"
  shows "binary_payload (fetch_asset_response_parse B) fetch_asset_response_size
    (fetch_asset_response_write B) fetch_asset_response_ok"
proof
  fix d m buf
  show "\<exists>r. fetch_asset_response_parse B d = Some r"
  proof (cases "length d < 9")
    case False
    then have "drop 4 d \<noteq> []" "4 \<le> length (tl (drop 4 d))" by (auto simp: drop_eq_Nil)
    then show ?thesis using False
      by (auto simp: fetch_asset_response_parse_def slice_to_def bytes_total [OF assms]
          split: option.split AssetStatus.split)
  qed (simp add: fetch_asset_response_parse_def)
  show "fetch_asset_response_write B m buf = buf @ fetch_asset_response_write B m []"
    "length (fetch_asset_response_write B m []) = fetch_asset_response_size m"
    by (simp_all add: fetch_asset_response_write_def fetch_asset_response_size_def Let_def
        bytes_put [OF assms] str_simps split: AssetPayload.split)
  show "fetch_asset_response_parse B (fetch_asset_response_write B m []) = Some (Inr m)"
    if "fetch_asset_response_ok m"
  proof (cases "far_payload m")
    case (ErrorMessage msg)
    with that show ?thesis
      by (simp add: fetch_asset_response_parse_def fetch_asset_response_write_def
          fetch_asset_response_ok_def bytes_put [OF assms] bytes_get [OF assms] str_simps
          unat_u32_of_nat slice_to_def asset_status_from_repr_def)
  next
    case (AssetData d)
    then show ?thesis
      by (simp add: fetch_asset_response_parse_def fetch_asset_response_write_def
          bytes_put [OF assms] bytes_get [OF assms] asset_status_from_repr_def)
  qed
qed

text \<open>The messages that parse back to themselves: a present but empty request identifier is written as
  an absent one.\<close>

definition playback_state_ok :: "PlaybackState \<Rightarrow> bool" where
  "playback_state_ok m \<longleftrightarrow>
     (case pbs_request_id m of None \<Rightarrow> True | Some i \<Rightarrow> i \<noteq> [] \<and> is_str i \<and> length i < 2 ^ 32)"

lemma playback_status_roundtrip [simp]:
  "playback_status_try_from (playback_status_repr c) = Inr c"
  by (cases c) (simp_all add: playback_status_try_from_def)

lemma binary_playback_state:
  assumes "bytes_laws B"
  shows "binary_payload (playback_state_parse B) playback_state_size (playback_state_write B)
    playback_state_ok"
proof
  fix d m buf
  show "\<exists>r. playback_state_parse B d = Some r"
  proof (cases "length d < 18")
    case False
    then obtain b e where d: "d = b # e" "17 \<le> length e" by (cases d) auto
    then have "drop 12 e \<noteq> []" "4 \<le> length (tl (drop 12 e))" by auto
    then show ?thesis using d
      by (auto simp: playback_state_parse_def slice_to_def bytes_get [OF assms] bytes_total [OF assms]
          drop_drop split: option.split sum.split)
  qed (simp add: playback_state_parse_def)
  show "playback_state_write B m buf = buf @ playback_state_write B m []"
    "length (playback_state_write B m []) = playback_state_size m"
    by (simp_all add: playback_state_write_def playback_state_size_def Let_def bytes_put [OF assms]
        str_simps split: option.split)
  show "playback_state_parse B (playback_state_write B m []) = Some (Inr m)" if "playback_state_ok m"
    using that
    by (cases "pbs_request_id m")
      (auto simp: playback_state_parse_def playback_state_write_def Let_def playback_state_ok_def
        bytes_put [OF assms] bytes_get [OF assms] str_simps unat_u32_of_nat slice_to_def)
qed

text \<open>What the other side reads: an empty request identifier arrives as none.\<close>

definition playback_received :: "PlaybackState \<Rightarrow> PlaybackState" where
  "playback_received m = (if pbs_request_id m = Some [] then m \<lparr> pbs_request_id := None \<rparr> else m)"

lemma playback_received_write:
  assumes "bytes_laws B"
  shows "playback_state_write B (playback_received m) buf = playback_state_write B m buf"
  by (simp add: playback_received_def playback_state_write_def Let_def bytes_put [OF assms] as_bytes_def)

end
