(* ===== verification/Protocol_Parameter.thy ===== *)
theory Protocol_Parameter
  imports Rust_Prelude
begin

text \<open>
  Parameters of the protocol (\<open>protocol/common/parameter.rs\<close>) and the schema data of
  advertisements (\<open>protocol/common/schema.rs\<close>). The base64 engine and \<open>serde_json\<close> are
  third-party: the operations the code calls are parameters, with what their documentation
  says as the predicates \<open>base64_laws\<close> and \<open>serde_laws\<close>.
\<close>

section \<open>Third-party interfaces\<close>

text \<open>\<open>BASE64_STANDARD\<close>; the decode error is represented by its message.\<close>

record base64_ops =
  b64_encode :: "u8 list \<Rightarrow> string"
  b64_decode :: "string \<Rightarrow> (u8 list, string) result"

definition base64_laws :: "base64_ops \<Rightarrow> bool" where
  "base64_laws E \<longleftrightarrow> (\<forall>d. b64_decode E (b64_encode E d) = Inr d)"

text \<open>\<open>serde_json::Value\<close>, with the type of numbers left open.\<close>

datatype 'n json =
  JNull
| JBool bool
| JNumber 'n
| JString string
| JArray "'n json list"
| JObject "(string \<times> 'n json) list"

datatype ParameterType = ByteArray | Float64Type | Float64Array

text \<open>An \<open>i64\<close> and an \<open>f64\<close> are their 64-bit patterns.\<close>

datatype ParameterValue =
  Integer u64
| Float64 u64
| PBool bool
| PString string
| PArray "ParameterValue list"
| PDict "(string \<times> ParameterValue) list"

text \<open>The predicates on numbers, and the deserialisation of a value, of a string and of a
  parameter type from a \<open>Value\<close>.\<close>

record 'n serde_ops =
  num_is_i64 :: "'n \<Rightarrow> bool"
  num_is_f64 :: "'n \<Rightarrow> bool"
  num_as_f64 :: "'n \<Rightarrow> u64 option"
  from_value :: "'n json \<Rightarrow> (ParameterValue, string) result"
  de_string :: "'n json \<Rightarrow> (string, string) result"
  de_parameter_type :: "'n json \<Rightarrow> (ParameterType, string) result"

definition serde_laws :: "'n serde_ops \<Rightarrow> bool" where
  "serde_laws S \<longleftrightarrow>
     (\<forall>n. num_is_i64 S n \<or> num_is_f64 S n \<longrightarrow> (\<exists>f. num_as_f64 S n = Some f))
     \<and> (\<forall>n. \<not> (num_is_i64 S n \<and> num_is_f64 S n))"

section \<open>Parameters\<close>

datatype ParamDecodeError = WrongType | Base64Error string

record Parameter =
  param_name :: string
  param_type :: "ParameterType option"
  param_value :: "ParameterValue option"

text \<open>\<open>Value::is_i64\<close> and \<open>Value::is_f64\<close> are false of anything but a number.\<close>

fun value_is_i64 :: "'n serde_ops \<Rightarrow> 'n json \<Rightarrow> bool" where
  "value_is_i64 S (JNumber n) = num_is_i64 S n"
| "value_is_i64 S _ = False"

fun value_is_f64 :: "'n serde_ops \<Rightarrow> 'n json \<Rightarrow> bool" where
  "value_is_f64 S (JNumber n) = num_is_f64 S n"
| "value_is_f64 S _ = False"

fun convert_to_float64_value :: "'n serde_ops \<Rightarrow> 'n json \<Rightarrow> (ParameterValue, string) result" where
  "convert_to_float64_value S (JNumber n) =
     (case num_as_f64 S n of
        Some f \<Rightarrow> Inr (Float64 f)
      | None \<Rightarrow> Inl ''Invalid number for float64'')"
| "convert_to_float64_value S _ = Inl ''Non-numeric value had type set to float64''"

text \<open>The loop over the items, with the values pushed so far.\<close>

fun float64_items ::
  "'n serde_ops \<Rightarrow> 'n json list \<Rightarrow> ParameterValue list \<Rightarrow> (ParameterValue list, string) result" where
  "float64_items S [] acc = Inr acc"
| "float64_items S (JNumber n # items) acc =
     (case num_as_f64 S n of
        Some f \<Rightarrow> float64_items S items (acc @ [Float64 f])
      | None \<Rightarrow> Inl ''Invalid number in float64 array'')"
| "float64_items S (_ # items) acc = Inl ''Non-numeric value in float64 array''"

fun convert_to_float64_array_value :: "'n serde_ops \<Rightarrow> 'n json \<Rightarrow> (ParameterValue, string) result" where
  "convert_to_float64_array_value S (JArray arr) =
     (case float64_items S arr [] of Inl e \<Rightarrow> Inl e | Inr vs \<Rightarrow> Inr (PArray vs))"
| "convert_to_float64_array_value S _ =
     Inl ''Value with type set to float64_array was not an array of numbers''"

fun convert_to_byte_array_value :: "base64_ops \<Rightarrow> 'n json \<Rightarrow> (ParameterValue, string) result" where
  "convert_to_byte_array_value E (JString s) =
     (case b64_decode E s of Inl e \<Rightarrow> Inl e | Inr _ \<Rightarrow> Inr (PString s))"
| "convert_to_byte_array_value E _ = Inl ''Value with type set to byte_array was not a string''"

text \<open>The three flags of the scan over the items.\<close>

definition scan_items :: "'n serde_ops \<Rightarrow> 'n json list \<Rightarrow> bool \<times> bool \<times> bool" where
  "scan_items S arr = fold (\<lambda>item (has_int, has_float, has_other).
     if value_is_i64 S item then (True, has_float, has_other)
     else if value_is_f64 S item then (has_int, True, has_other)
     else (has_int, has_float, True)) arr (False, False, False)"

text \<open>The homogenising loop; \<open>None\<close> is \<open>unreachable!\<close>.\<close>

fun mixed_items ::
  "'n serde_ops \<Rightarrow> 'n json list \<Rightarrow> ParameterValue list \<Rightarrow> (ParameterValue list, string) result may_panic" where
  "mixed_items S [] acc = Some (Inr acc)"
| "mixed_items S (JNumber n # items) acc =
     (case num_as_f64 S n of
        Some f \<Rightarrow> mixed_items S items (acc @ [Float64 f])
      | None \<Rightarrow> Some (Inl ''Invalid number in mixed array''))"
| "mixed_items S (_ # items) acc = None"

fun convert_value_with_homogenization ::
  "'n serde_ops \<Rightarrow> 'n json \<Rightarrow> (ParameterValue, string) result may_panic" where
  "convert_value_with_homogenization S (JArray arr) =
     (case scan_items S arr of (has_int, has_float, has_other) \<Rightarrow>
        if (has_float \<or> has_int) \<and> has_other then
          Some (Inl ''Array contains a mix of numeric and non-numeric-values'')
        else if has_int \<and> has_float then do {
          r \<leftarrow> mixed_items S arr [];
          Some (case r of Inl e \<Rightarrow> Inl e | Inr vs \<Rightarrow> Inr (PArray vs))
        }
        else Some (from_value S (JArray arr)))"
| "convert_value_with_homogenization S v = Some (from_value S v)"

datatype de_error = UnknownField string | MissingField string | Custom string

text \<open>The visitor's loop over the entries of the map.\<close>

fun visit_entries ::
  "'n serde_ops \<Rightarrow> (string \<times> 'n json) list \<Rightarrow> string option \<Rightarrow> ParameterType option \<Rightarrow> 'n json option
    \<Rightarrow> (string option \<times> ParameterType option \<times> 'n json option, de_error) result" where
  "visit_entries S [] nm ty v = Inr (nm, ty, v)"
| "visit_entries S ((key, x) # es) nm ty v =
     (if key = ''name'' then
        (case de_string S x of Inl e \<Rightarrow> Inl (Custom e) | Inr s \<Rightarrow> visit_entries S es (Some s) ty v)
      else if key = ''type'' then
        (case de_parameter_type S x of Inl e \<Rightarrow> Inl (Custom e) | Inr t \<Rightarrow> visit_entries S es nm (Some t) v)
      else if key = ''value'' then visit_entries S es nm ty (Some x)
      else Inl (UnknownField key))"

definition parameter_deserialize ::
  "base64_ops \<Rightarrow> 'n serde_ops \<Rightarrow> (string \<times> 'n json) list \<Rightarrow> (Parameter, de_error) result may_panic" where
  "parameter_deserialize E S es =
     (case visit_entries S es None None None of
        Inl e \<Rightarrow> Some (Inl e)
      | Inr (nm, ty, v) \<Rightarrow>
          (case nm of
             None \<Rightarrow> Some (Inl (MissingField ''name''))
           | Some n \<Rightarrow> do {
               conv \<leftarrow> (case (ty, v) of
                   (Some Float64Type, Some x) \<Rightarrow> Some (Some (convert_to_float64_value S x))
                 | (Some Float64Array, Some x) \<Rightarrow> Some (Some (convert_to_float64_array_value S x))
                 | (Some ByteArray, Some x) \<Rightarrow> Some (Some (convert_to_byte_array_value E x))
                 | (_, Some x) \<Rightarrow> do { r \<leftarrow> convert_value_with_homogenization S x; Some (Some r) }
                 | (_, None) \<Rightarrow> Some None);
               case conv of
                 Some (Inl e) \<Rightarrow> Some (Inl (Custom e))
               | Some (Inr p) \<Rightarrow> Some (Inr \<lparr> param_name = n, param_type = ty, param_value = Some p \<rparr>)
               | None \<Rightarrow> Some (Inr \<lparr> param_name = n, param_type = ty, param_value = None \<rparr>)
             }))"

definition parameter_empty :: "string \<Rightarrow> Parameter" where
  "parameter_empty n = \<lparr> param_name = n, param_type = None, param_value = None \<rparr>"

definition parameter_float64 :: "string \<Rightarrow> u64 \<Rightarrow> Parameter" where
  "parameter_float64 n v = \<lparr> param_name = n, param_type = Some Float64Type, param_value = Some (Float64 v) \<rparr>"

definition parameter_integer :: "string \<Rightarrow> u64 \<Rightarrow> Parameter" where
  "parameter_integer n v = \<lparr> param_name = n, param_type = None, param_value = Some (Integer v) \<rparr>"

definition parameter_integer_array :: "string \<Rightarrow> u64 list \<Rightarrow> Parameter" where
  "parameter_integer_array n vs =
     \<lparr> param_name = n, param_type = None, param_value = Some (PArray (map Integer vs)) \<rparr>"

definition parameter_float64_array :: "string \<Rightarrow> u64 list \<Rightarrow> Parameter" where
  "parameter_float64_array n vs =
     \<lparr> param_name = n, param_type = Some Float64Array, param_value = Some (PArray (map Float64 vs)) \<rparr>"

definition parameter_string :: "string \<Rightarrow> string \<Rightarrow> Parameter" where
  "parameter_string n v = \<lparr> param_name = n, param_type = None, param_value = Some (PString v) \<rparr>"

definition parameter_byte_array :: "base64_ops \<Rightarrow> string \<Rightarrow> u8 list \<Rightarrow> Parameter" where
  "parameter_byte_array E n d =
     \<lparr> param_name = n, param_type = Some ByteArray, param_value = Some (PString (b64_encode E d)) \<rparr>"

definition parameter_bool :: "string \<Rightarrow> bool \<Rightarrow> Parameter" where
  "parameter_bool n v = \<lparr> param_name = n, param_type = None, param_value = Some (PBool v) \<rparr>"

definition parameter_dict :: "string \<Rightarrow> (string \<times> ParameterValue) list \<Rightarrow> Parameter" where
  "parameter_dict n v = \<lparr> param_name = n, param_type = None, param_value = Some (PDict v) \<rparr>"

definition decode_byte_array :: "base64_ops \<Rightarrow> Parameter \<Rightarrow> (u8 list option, ParamDecodeError) result" where
  "decode_byte_array E p =
     (case (param_type p, param_value p) of
        (Some ByteArray, Some (PString s)) \<Rightarrow>
          (case b64_decode E s of Inl e \<Rightarrow> Inl (Base64Error e) | Inr d \<Rightarrow> Inr (Some d))
      | (_, None) \<Rightarrow> Inr None
      | _ \<Rightarrow> Inl WrongType)"

section \<open>Schema data\<close>

datatype SchemaEncodeError = SchemaUtf8 | MissingSchemaEnc
datatype SchemaDecodeError = SchemaBase64 string | MissingSchemaDec

definition is_schema_required :: "string \<Rightarrow> bool" where
  "is_schema_required e \<longleftrightarrow> e = ''flatbuffer'' \<or> e = ''protobuf'' \<or> e = ''ros1'' \<or> e = ''cdr''"

definition is_known_binary_schema_encoding :: "string \<Rightarrow> bool" where
  "is_known_binary_schema_encoding e \<longleftrightarrow> e = ''protobuf'' \<or> e = ''flatbuffer''"

definition encode_schema_data :: "base64_ops \<Rightarrow> string \<Rightarrow> u8 list \<Rightarrow> (string, SchemaEncodeError) result" where
  "encode_schema_data E enc data =
     (if is_known_binary_schema_encoding enc then Inr (b64_encode E data)
      else case from_utf8 data of None \<Rightarrow> Inl SchemaUtf8 | Some s \<Rightarrow> Inr s)"

definition decode_schema_data :: "base64_ops \<Rightarrow> string \<Rightarrow> string \<Rightarrow> (u8 list, SchemaDecodeError) result" where
  "decode_schema_data E enc data =
     (if is_known_binary_schema_encoding enc then
        (case b64_decode E data of Inl e \<Rightarrow> Inl (SchemaBase64 e) | Inr d \<Rightarrow> Inr d)
      else Inr (as_bytes data))"

section \<open>Lemmas\<close>

lemma scan_items_flags:
  "scan_items S arr =
     (\<exists>v \<in> set arr. value_is_i64 S v,
      \<exists>v \<in> set arr. \<not> value_is_i64 S v \<and> value_is_f64 S v,
      \<exists>v \<in> set arr. \<not> value_is_i64 S v \<and> \<not> value_is_f64 S v)"
proof -
  have "fold (\<lambda>item (has_int, has_float, has_other).
     if value_is_i64 S item then (True, has_float, has_other)
     else if value_is_f64 S item then (has_int, True, has_other)
     else (has_int, has_float, True)) arr (a, b, c) =
     (a \<or> (\<exists>v \<in> set arr. value_is_i64 S v),
      b \<or> (\<exists>v \<in> set arr. \<not> value_is_i64 S v \<and> value_is_f64 S v),
      c \<or> (\<exists>v \<in> set arr. \<not> value_is_i64 S v \<and> \<not> value_is_f64 S v))" for a b c
    by (induction arr arbitrary: a b c) auto
  then show ?thesis by (simp add: scan_items_def)
qed

lemma value_is_number: "value_is_i64 S v \<or> value_is_f64 S v \<Longrightarrow> \<exists>n. v = JNumber n"
  by (cases v) auto

lemma float64_items_floats:
  "float64_items S arr acc = Inr vs \<Longrightarrow> set acc \<subseteq> range Float64 \<Longrightarrow> set vs \<subseteq> range Float64"
  by (induction S arr acc rule: float64_items.induct) (auto split: option.splits)

lemma mixed_items_total:
  "(\<And>v. v \<in> set arr \<Longrightarrow> \<exists>n. v = JNumber n) \<Longrightarrow> \<exists>r. mixed_items S arr acc = Some r"
proof (induction S arr acc rule: mixed_items.induct)
  case (2 S n items acc)
  then show ?case by (cases "num_as_f64 S n") auto
qed (force+)

lemma mixed_items_floats:
  "(\<And>v. v \<in> set arr \<Longrightarrow> \<exists>n f. v = JNumber n \<and> num_as_f64 S n = Some f) \<Longrightarrow>
   mixed_items S arr acc = Some (Inr (acc @ map (\<lambda>v. case v of JNumber n \<Rightarrow> Float64 (the (num_as_f64 S n))) arr))"
proof (induction arr arbitrary: acc)
  case (Cons v arr)
  then obtain n f where "v = JNumber n" "num_as_f64 S n = Some f" by (meson list.set_intros(1))
  with Cons show ?case by simp
qed simp

lemma homogenization_total: "\<exists>r. convert_value_with_homogenization S v = Some r"
proof (cases v)
  case (JArray arr)
  show ?thesis
  proof (cases "\<exists>w \<in> set arr. \<not> value_is_i64 S w \<and> \<not> value_is_f64 S w")
    case False
    then have "\<exists>r. mixed_items S arr [] = Some r"
      using value_is_number by (intro mixed_items_total) blast
    then show ?thesis using JArray by (auto simp: scan_items_flags)
  qed (use JArray in \<open>auto simp: scan_items_flags\<close>)
qed auto

text \<open>What the type of a parameter says about its value.\<close>

fun parameter_typed :: "base64_ops \<Rightarrow> ParameterType option \<Rightarrow> ParameterValue \<Rightarrow> bool" where
  "parameter_typed E (Some Float64Type) v \<longleftrightarrow> (\<exists>f. v = Float64 f)"
| "parameter_typed E (Some Float64Array) v \<longleftrightarrow> (\<exists>fs. v = PArray (map Float64 fs))"
| "parameter_typed E (Some ByteArray) v \<longleftrightarrow> (\<exists>s d. v = PString s \<and> b64_decode E s = Inr d)"
| "parameter_typed E None v \<longleftrightarrow> True"

lemma convert_to_float64_typed: "convert_to_float64_value S x = Inr v \<Longrightarrow> parameter_typed E (Some Float64Type) v"
  by (cases x) (auto split: option.splits)

lemma convert_to_float64_array_typed:
  assumes "convert_to_float64_array_value S x = Inr v"
  shows "parameter_typed E (Some Float64Array) v"
proof -
  from assms obtain arr vs where "x = JArray arr" "float64_items S arr [] = Inr vs" "v = PArray vs"
    by (cases x) (auto split: sum.splits)
  moreover from this have "set vs \<subseteq> range Float64" using float64_items_floats by fastforce
  moreover have "set vs \<subseteq> range Float64 \<Longrightarrow> \<exists>fs. vs = map Float64 fs"
    by (induction vs) (auto, metis list.simps(9))
  ultimately show ?thesis by auto
qed

lemma convert_to_byte_array_typed:
  "convert_to_byte_array_value E x = Inr v \<Longrightarrow> parameter_typed E (Some ByteArray) v"
  by (cases x) (auto split: sum.splits)

section \<open>Properties\<close>

text \<open>Deserialising a parameter never reaches its \<open>unreachable!\<close> branch, whatever the
  entries of the map are; and a parameter it returns has a value that agrees with its type:
  a float64 for \<open>float64\<close>, an array of float64 for \<open>float64_array\<close>, a base64 string for
  \<open>byte_array\<close>, which therefore decodes without error.\<close>

theorem parameter_deserialize_typed:
  "\<exists>r. parameter_deserialize E S es = Some r \<and>
     (case r of Inl _ \<Rightarrow> True | Inr p \<Rightarrow>
        (case param_value p of None \<Rightarrow> True | Some v \<Rightarrow> parameter_typed E (param_type p) v)
        \<and> (case param_type p of Some ByteArray \<Rightarrow> \<exists>d. decode_byte_array E p = Inr d | _ \<Rightarrow> True))"
proof (cases "visit_entries S es None None None")
  case (Inl e)
  then show ?thesis by (simp add: parameter_deserialize_def)
next
  case (Inr x)
  obtain nm ty v where x: "x = (nm, ty, v)" by (cases x)
  show ?thesis
  proof (cases nm)
    case None
    then show ?thesis using Inr x by (simp add: parameter_deserialize_def)
  next
    case (Some n)
    show ?thesis
    proof (cases v)
      case None
      then show ?thesis using Inr x Some
        by (auto simp: parameter_deserialize_def decode_byte_array_def split: option.split ParameterType.split)
    next
      case v: (Some y)
      consider "ty = None" | "ty = Some Float64Type" | "ty = Some Float64Array" | "ty = Some ByteArray"
        by (metis ParameterType.exhaust option.exhaust)
      then show ?thesis
      proof cases
        case 1
        moreover obtain r where "convert_value_with_homogenization S y = Some r"
          using homogenization_total by blast
        ultimately show ?thesis using Inr x Some v
          by (cases r) (simp_all add: parameter_deserialize_def)
      next
        case 2
        then show ?thesis using Inr x Some v convert_to_float64_typed [of S y]
          by (auto simp: parameter_deserialize_def split: sum.split)
      next
        case 3
        then show ?thesis using Inr x Some v convert_to_float64_array_typed [of S y]
          by (auto simp: parameter_deserialize_def split: sum.split)
      next
        case 4
        then show ?thesis using Inr x Some v convert_to_byte_array_typed [of E y]
          by (auto simp: parameter_deserialize_def decode_byte_array_def split: sum.split)
      qed
    qed
  qed
qed

text \<open>an untyped array that mixes integers and floats becomes an array of float64 with one
  element per item, in order; an array with a number next to something that is neither an
  i64 nor an f64 is refused; every other array is left to the deserialiser.\<close>

theorem homogenization_cases:
  assumes "serde_laws S"
  shows "convert_value_with_homogenization S (JArray arr) =
    (if (\<exists>v \<in> set arr. value_is_i64 S v \<or> value_is_f64 S v)
          \<and> (\<exists>v \<in> set arr. \<not> value_is_i64 S v \<and> \<not> value_is_f64 S v)
     then Some (Inl ''Array contains a mix of numeric and non-numeric-values'')
     else if (\<exists>v \<in> set arr. value_is_i64 S v) \<and> (\<exists>v \<in> set arr. value_is_f64 S v)
     then Some (Inr (PArray (map (\<lambda>v. case v of JNumber n \<Rightarrow> Float64 (the (num_as_f64 S n))) arr)))
     else Some (from_value S (JArray arr)))"
proof -
  have excl: "\<not> value_is_i64 S v \<or> \<not> value_is_f64 S v" for v
    using assms by (cases v) (auto simp: serde_laws_def)
  have f: "(\<exists>v \<in> set arr. \<not> value_is_i64 S v \<and> value_is_f64 S v) \<longleftrightarrow> (\<exists>v \<in> set arr. value_is_f64 S v)"
    using excl by blast
  have "\<exists>n f. v = JNumber n \<and> num_as_f64 S n = Some f"
    if "value_is_i64 S v \<or> value_is_f64 S v" for v
    using assms that by (cases v) (auto simp: serde_laws_def)
  then have "mixed_items S arr [] = Some (Inr (map (\<lambda>v. case v of JNumber n \<Rightarrow> Float64 (the (num_as_f64 S n))) arr))"
    if "\<not> (\<exists>v \<in> set arr. \<not> value_is_i64 S v \<and> \<not> value_is_f64 S v)"
    using that mixed_items_floats [of arr S "[]"] by fastforce
  then show ?thesis by (auto simp: scan_items_flags f)
qed

definition demo_serde :: "nat serde_ops" where
  "demo_serde = \<lparr> num_is_i64 = (\<lambda>n. n = 1), num_is_f64 = (\<lambda>n. n = 2), num_as_f64 = (\<lambda>n. Some (word_of_nat n)),
     from_value = (\<lambda>v. Inl []), de_string = (\<lambda>v. Inl []), de_parameter_type = (\<lambda>v. Inl []) \<rparr>"

theorem homogenization_cases_witness:
  "serde_laws demo_serde \<and> convert_value_with_homogenization demo_serde (JArray [JNumber 1, JNumber 2])
     = Some (Inr (PArray [Float64 1, Float64 2]))"
proof -
  have "serde_laws demo_serde" by (simp add: serde_laws_def demo_serde_def)
  then show ?thesis using homogenization_cases [of demo_serde "[JNumber 1, JNumber 2]"]
    by (simp add: demo_serde_def)
qed

text \<open>schema data survives the protocol encoding: whatever \<open>encode_schema_data\<close> produces
  decodes to the same bytes, and it refuses exactly the data of a text encoding that is not
  UTF-8. The same engine makes a byte-array parameter decode to its bytes.\<close>

theorem schema_data_roundtrip:
  assumes "base64_laws E"
  shows "(case encode_schema_data E enc data of
      Inl e \<Rightarrow> e = SchemaUtf8 \<and> \<not> is_known_binary_schema_encoding enc \<and> \<not> utf8_valid data
    | Inr s \<Rightarrow> decode_schema_data E enc s = Inr data)
    \<and> decode_byte_array E (parameter_byte_array E n data) = Inr (Some data)"
  using assms from_utf8_Some [of data]
  by (auto simp: encode_schema_data_def decode_schema_data_def base64_laws_def decode_byte_array_def
      parameter_byte_array_def split: option.split) (auto simp: from_utf8_def split: if_splits)

definition demo_base64 :: base64_ops where
  "demo_base64 = \<lparr> b64_encode = map char_of_byte, b64_decode = (\<lambda>s. Inr (as_bytes s)) \<rparr>"

lemma demo_base64_laws: "base64_laws demo_base64"
  by (simp add: base64_laws_def demo_base64_def as_bytes_def comp_def byte_of_char_of_byte)

theorem schema_data_roundtrip_witness:
  "base64_laws demo_base64 \<and> decode_byte_array demo_base64 (parameter_byte_array demo_base64 ''p'' [1, 2]) = Inr (Some [1, 2])"
  using schema_data_roundtrip [OF demo_base64_laws, of "''json''" "[1, 2]" "''p''"] demo_base64_laws by simp

end
