(* ===== verification/Protocol_Messages.thy ===== *)
theory Protocol_Messages
  imports Protocol_Payload Protocol_Parameter
begin

text \<open>
  The messages of the protocol: the JSON messages of clients and servers
  (\<open>protocol/common/client\<close>, \<open>protocol/common/server\<close>, \<open>protocol/v1/client\<close>), the
  advertisement builders, and the two protocol versions' \<open>ClientMessage\<close> and
  \<open>ServerMessage\<close> with their opcodes, framing and parsers (\<open>protocol/v1\<close>,
  \<open>protocol/v2\<close>). JSON text is read and written by \<open>serde_json\<close>, a parameter.
\<close>

section \<open>Schemas and advertisements\<close>

text \<open>\<open>protocol::schema::Schema\<close>.\<close>

record ProtoSchema =
  ps_name :: string
  ps_encoding :: string
  ps_data :: "u8 list"

text \<open>A client's channel advertisement and its builder.\<close>

record ClientAdChannel =
  cac_id :: u32
  cac_topic :: string
  cac_encoding :: string
  cac_schema_name :: string
  cac_schema_encoding :: "string option"
  cac_schema :: "string option"

record ClientAdBuilder =
  cab_id :: u32
  cab_topic :: string
  cab_encoding :: string
  cab_schema :: "ProtoSchema option"

definition client_channel_builder :: "u32 \<Rightarrow> string \<Rightarrow> string \<Rightarrow> ClientAdBuilder" where
  "client_channel_builder i t e = \<lparr> cab_id = i, cab_topic = t, cab_encoding = e, cab_schema = None \<rparr>"

definition client_channel_with_schema :: "ProtoSchema \<Rightarrow> ClientAdBuilder \<Rightarrow> ClientAdBuilder" where
  "client_channel_with_schema s b = b \<lparr> cab_schema := Some s \<rparr>"

definition client_channel_build :: "base64_ops \<Rightarrow> ClientAdBuilder \<Rightarrow> (ClientAdChannel, SchemaEncodeError) result" where
  "client_channel_build E b =
     (case cab_schema b of
        None \<Rightarrow>
          if is_schema_required (cab_encoding b) then Inl MissingSchemaEnc
          else Inr \<lparr> cac_id = cab_id b, cac_topic = cab_topic b, cac_encoding = cab_encoding b,
                     cac_schema_name = [], cac_schema_encoding = None, cac_schema = None \<rparr>
      | Some s \<Rightarrow>
          (case encode_schema_data E (ps_encoding s) (ps_data s) of
             Inl e \<Rightarrow> Inl e
           | Inr d \<Rightarrow> Inr \<lparr> cac_id = cab_id b, cac_topic = cab_topic b, cac_encoding = cab_encoding b,
                           cac_schema_name = ps_name s, cac_schema_encoding = Some (ps_encoding s),
                           cac_schema = Some d \<rparr>))"

definition client_channel_decode_schema :: "base64_ops \<Rightarrow> ClientAdChannel \<Rightarrow> (u8 list, SchemaDecodeError) result" where
  "client_channel_decode_schema E c =
     (case (cac_schema_encoding c, cac_schema c) of
        (Some enc, Some s) \<Rightarrow> decode_schema_data E enc s
      | _ \<Rightarrow> Inl MissingSchemaDec)"

definition client_channel_schema :: "base64_ops \<Rightarrow> ClientAdChannel \<Rightarrow> (ProtoSchema, SchemaDecodeError) result" where
  "client_channel_schema E c =
     (case client_channel_decode_schema E c of
        Inl e \<Rightarrow> Inl e
      | Inr d \<Rightarrow> Inr \<lparr> ps_name = cac_schema_name c,
                      ps_encoding = (case cac_schema_encoding c of None \<Rightarrow> [] | Some e \<Rightarrow> e),
                      ps_data = d \<rparr>)"

text \<open>A server's channel advertisement and its builder.\<close>

record ServerAdChannel =
  sac_id :: u64
  sac_topic :: string
  sac_encoding :: string
  sac_schema_name :: string
  sac_schema_encoding :: "string option"
  sac_schema :: string

record ServerAdBuilder =
  sab_id :: u64
  sab_topic :: string
  sab_encoding :: string
  sab_schema :: "ProtoSchema option"

definition server_channel_builder :: "u64 \<Rightarrow> string \<Rightarrow> string \<Rightarrow> ServerAdBuilder" where
  "server_channel_builder i t e = \<lparr> sab_id = i, sab_topic = t, sab_encoding = e, sab_schema = None \<rparr>"

definition server_channel_with_schema :: "ProtoSchema \<Rightarrow> ServerAdBuilder \<Rightarrow> ServerAdBuilder" where
  "server_channel_with_schema s b = b \<lparr> sab_schema := Some s \<rparr>"

definition server_channel_build :: "base64_ops \<Rightarrow> ServerAdBuilder \<Rightarrow> (ServerAdChannel, SchemaEncodeError) result" where
  "server_channel_build E b =
     (case sab_schema b of
        None \<Rightarrow>
          if is_schema_required (sab_encoding b) then Inl MissingSchemaEnc
          else Inr \<lparr> sac_id = sab_id b, sac_topic = sab_topic b, sac_encoding = sab_encoding b,
                     sac_schema_name = [], sac_schema_encoding = None, sac_schema = [] \<rparr>
      | Some s \<Rightarrow>
          (case encode_schema_data E (ps_encoding s) (ps_data s) of
             Inl e \<Rightarrow> Inl e
           | Inr d \<Rightarrow> Inr \<lparr> sac_id = sab_id b, sac_topic = sab_topic b, sac_encoding = sab_encoding b,
                           sac_schema_name = ps_name s, sac_schema_encoding = Some (ps_encoding s),
                           sac_schema = d \<rparr>))"

definition server_channel_decode_schema :: "base64_ops \<Rightarrow> ServerAdChannel \<Rightarrow> (u8 list, SchemaDecodeError) result" where
  "server_channel_decode_schema E c =
     (case sac_schema_encoding c of
        Some enc \<Rightarrow> decode_schema_data E enc (sac_schema c)
      | None \<Rightarrow> Inl MissingSchemaDec)"

definition server_channel_schema :: "base64_ops \<Rightarrow> ServerAdChannel \<Rightarrow> (ProtoSchema, SchemaDecodeError) result" where
  "server_channel_schema E c =
     (case server_channel_decode_schema E c of
        Inl e \<Rightarrow> Inl e
      | Inr d \<Rightarrow> Inr \<lparr> ps_name = sac_schema_name c,
                      ps_encoding = (case sac_schema_encoding c of None \<Rightarrow> [] | Some e \<Rightarrow> e),
                      ps_data = d \<rparr>)"

text \<open>Service advertisements.\<close>

record MessageSchema =
  ms_encoding :: string
  ms_schema_name :: string
  ms_schema_encoding :: string
  ms_schema :: string

record ServiceAd =
  sad_id :: u32
  sad_name :: string
  sad_type :: string
  sad_request :: "MessageSchema option"
  sad_request_schema :: "string option"
  sad_response :: "MessageSchema option"
  sad_response_schema :: "string option"

definition service_ad_new :: "u32 \<Rightarrow> string \<Rightarrow> string \<Rightarrow> ServiceAd" where
  "service_ad_new i n t = \<lparr> sad_id = i, sad_name = n, sad_type = t, sad_request = None,
     sad_request_schema = Some [], sad_response = None, sad_response_schema = Some [] \<rparr>"

definition service_ad_with_request ::
  "base64_ops \<Rightarrow> string \<Rightarrow> ProtoSchema \<Rightarrow> ServiceAd \<Rightarrow> (ServiceAd, SchemaEncodeError) result" where
  "service_ad_with_request E enc s a =
     (case encode_schema_data E (ps_encoding s) (ps_data s) of
        Inl e \<Rightarrow> Inl e
      | Inr d \<Rightarrow> Inr (a \<lparr> sad_request := Some \<lparr> ms_encoding = enc, ms_schema_name = ps_name s,
                          ms_schema_encoding = ps_encoding s, ms_schema = d \<rparr>,
                        sad_request_schema := None \<rparr>))"

definition service_ad_with_response ::
  "base64_ops \<Rightarrow> string \<Rightarrow> ProtoSchema \<Rightarrow> ServiceAd \<Rightarrow> (ServiceAd, SchemaEncodeError) result" where
  "service_ad_with_response E enc s a =
     (case encode_schema_data E (ps_encoding s) (ps_data s) of
        Inl e \<Rightarrow> Inl e
      | Inr d \<Rightarrow> Inr (a \<lparr> sad_response := Some \<lparr> ms_encoding = enc, ms_schema_name = ps_name s,
                          ms_schema_encoding = ps_encoding s, ms_schema = d \<rparr>,
                        sad_response_schema := None \<rparr>))"

definition service_ad_with_request_schema :: "string \<Rightarrow> ServiceAd \<Rightarrow> ServiceAd" where
  "service_ad_with_request_schema n a = a \<lparr> sad_request := None, sad_request_schema := Some n \<rparr>"

definition service_ad_with_response_schema :: "string \<Rightarrow> ServiceAd \<Rightarrow> ServiceAd" where
  "service_ad_with_response_schema n a = a \<lparr> sad_response := None, sad_response_schema := Some n \<rparr>"

definition message_schema_decode :: "base64_ops \<Rightarrow> MessageSchema \<Rightarrow> (ProtoSchema, SchemaDecodeError) result" where
  "message_schema_decode E m =
     (case decode_schema_data E (ms_schema_encoding m) (ms_schema m) of
        Inl e \<Rightarrow> Inl e
      | Inr d \<Rightarrow> Inr \<lparr> ps_name = ms_schema_name m, ps_encoding = ms_schema_encoding m, ps_data = d \<rparr>)"

section \<open>Server info, status and the other JSON messages\<close>

record SerializedTimestamp =
  ts_sec :: u32
  ts_nsec :: u32

text \<open>\<open>u32::try_from(..).unwrap_or(u32::MAX)\<close> saturates; the remainder fits 32 bits.\<close>

definition from_nsecs :: "u64 \<Rightarrow> SerializedTimestamp" where
  "from_nsecs t =
     (let q = t div 1000000000; r = t mod 1000000000 in
      \<lparr> ts_sec = (if unat q < 2 ^ 32 then ucast q else - 1), ts_nsec = ucast r \<rparr>)"

datatype ProtoCapability =
  PClientPublish | PParameters | PParametersSubscribe | PTime | PServices | PConnectionGraph
| PAssets | PRangedPlayback

record ServerInfo =
  si_name :: string
  si_capabilities :: "ProtoCapability list"
  si_supported_encodings :: "string list"
  si_metadata :: "(string, string) hash_map"
  si_session_id :: "string option"
  si_data_start_time :: "SerializedTimestamp option"
  si_data_end_time :: "SerializedTimestamp option"

definition server_info_new :: "string \<Rightarrow> ServerInfo" where
  "server_info_new n = \<lparr> si_name = n, si_capabilities = [], si_supported_encodings = [],
     si_metadata = [], si_session_id = None, si_data_start_time = None, si_data_end_time = None \<rparr>"

definition with_playback_time_range :: "(u64 \<times> u64) option \<Rightarrow> ServerInfo \<Rightarrow> ServerInfo" where
  "with_playback_time_range r si =
     (case r of
        Some (start_time, end_time) \<Rightarrow>
          si \<lparr> si_data_start_time := Some (from_nsecs start_time),
               si_data_end_time := Some (from_nsecs end_time) \<rparr>
      | None \<Rightarrow> si \<lparr> si_data_start_time := None, si_data_end_time := None \<rparr>)"

datatype Level = LevelInfo | LevelWarning | LevelError

record Status =
  st_level :: Level
  st_message :: string
  st_id :: "string option"

definition status_new :: "Level \<Rightarrow> string \<Rightarrow> Status" where
  "status_new l m = \<lparr> st_level = l, st_message = m, st_id = None \<rparr>"

record ParameterValues =
  pv_parameters :: "Parameter list"
  pv_id :: "string option"

definition parameter_values_new :: "Parameter list \<Rightarrow> ParameterValues" where
  "parameter_values_new ps = \<lparr> pv_parameters = ps, pv_id = None \<rparr>"

definition parameter_values_with_id :: "string \<Rightarrow> ParameterValues \<Rightarrow> ParameterValues" where
  "parameter_values_with_id i m = m \<lparr> pv_id := Some i \<rparr>"

record ServiceCallFailure =
  scf_service_id :: u32
  scf_call_id :: u32
  scf_message :: string

record PublishedTopic =
  pt_name :: string
  pt_publisher_ids :: "string list"

record SubscribedTopic =
  stp_name :: string
  stp_subscriber_ids :: "string list"

record AdvertisedService =
  as_name :: string
  as_provider_ids :: "string list"

record ConnectionGraphUpdate =
  cgu_published_topics :: "PublishedTopic list"
  cgu_subscribed_topics :: "SubscribedTopic list"
  cgu_advertised_services :: "AdvertisedService list"
  cgu_removed_topics :: "string list"
  cgu_removed_services :: "string list"

record GetParameters =
  gp_parameter_names :: "string list"
  gp_id :: "string option"

record SetParameters =
  sp_parameters :: "Parameter list"
  sp_id :: "string option"

record FetchAsset =
  fa_request_id :: u32
  fa_uri :: string

text \<open>Protocol v1 subscriptions name a subscription and a channel.\<close>

record SubscriptionV1 =
  sv1_id :: u32
  sv1_channel_id :: u64

section \<open>Client messages\<close>

text \<open>The messages a client can send in JSON; \<open>'sub\<close> and \<open>'unsub\<close> are the payloads of the
  protocol version's subscribe and unsubscribe messages.\<close>

datatype ('sub, 'unsub) ClientMessage =
  CSubscribe 'sub
| CUnsubscribe 'unsub
| CAdvertise "ClientAdChannel list"
| CUnadvertise "u32 list"
| CMessageData ClientMessageData
| CGetParameters GetParameters
| CSetParameters SetParameters
| CSubscribeParameterUpdates "string list"
| CUnsubscribeParameterUpdates "string list"
| CServiceCallRequest ServiceCallRequest
| CSubscribeConnectionGraph
| CUnsubscribeConnectionGraph
| CFetchAsset FetchAsset
| CPlaybackControlRequest PlaybackControlRequest

type_synonym ClientMessage_v1 = "(SubscriptionV1 list, u32 list) ClientMessage"
type_synonym ClientMessage_v2 = "(Subscribe_v2, Unsubscribe_v2) ClientMessage"

datatype ClientOpcode_v1 = C1_MessageData | C1_ServiceCallRequest | C1_PlaybackControlRequest

definition client_opcode_v1_from_repr :: "u8 \<Rightarrow> ClientOpcode_v1 option" where
  "client_opcode_v1_from_repr v =
     (if v = 1 then Some C1_MessageData
      else if v = 2 then Some C1_ServiceCallRequest
      else if v = 3 then Some C1_PlaybackControlRequest
      else None)"

fun client_opcode_v1_repr :: "ClientOpcode_v1 \<Rightarrow> u8" where
  "client_opcode_v1_repr C1_MessageData = 1"
| "client_opcode_v1_repr C1_ServiceCallRequest = 2"
| "client_opcode_v1_repr C1_PlaybackControlRequest = 3"

definition client_message_data_to_bytes :: "bytes_ops \<Rightarrow> ClientMessageData \<Rightarrow> u8 list" where
  "client_message_data_to_bytes B m =
     client_message_data_write B m (put_u8 B (client_opcode_v1_repr C1_MessageData) [])"

definition service_call_request_to_bytes :: "bytes_ops \<Rightarrow> ServiceCallRequest \<Rightarrow> u8 list" where
  "service_call_request_to_bytes B m =
     service_call_request_write B m (put_u8 B (client_opcode_v1_repr C1_ServiceCallRequest) [])"

definition playback_control_request_to_bytes :: "bytes_ops \<Rightarrow> PlaybackControlRequest \<Rightarrow> u8 list" where
  "playback_control_request_to_bytes B m =
     playback_control_request_write B m (put_u8 B (client_opcode_v1_repr C1_PlaybackControlRequest) [])"

text \<open>\<open>Result::map\<close> under a possible panic.\<close>

definition map_parsed :: "('a \<Rightarrow> 'b) \<Rightarrow> 'a parsed \<Rightarrow> 'b parsed" where
  "map_parsed f = map_option (map_sum id f)"

definition client_parse_binary_v1 :: "bytes_ops \<Rightarrow> u8 list \<Rightarrow> ClientMessage_v1 parsed" where
  "client_parse_binary_v1 B data =
     (if data = [] then Some (Inl EmptyBinaryMessage)
      else do {
        (opcode, data) \<leftarrow> get_u8 B data;
        case client_opcode_v1_from_repr opcode of
          Some C1_MessageData \<Rightarrow> map_parsed CMessageData (client_message_data_parse B data)
        | Some C1_ServiceCallRequest \<Rightarrow> map_parsed CServiceCallRequest (service_call_request_parse B data)
        | Some C1_PlaybackControlRequest \<Rightarrow>
            map_parsed CPlaybackControlRequest (playback_control_request_parse B data)
        | None \<Rightarrow> Some (Inl (InvalidOpcode opcode))
      })"

datatype ClientOpcode_v2 =
  C2_MessageData | C2_ServiceCallRequest | C2_PlaybackControlRequest | C2_Subscribe | C2_Unsubscribe

definition client_opcode_v2_from_repr :: "u8 \<Rightarrow> ClientOpcode_v2 option" where
  "client_opcode_v2_from_repr v =
     (if v = 1 then Some C2_MessageData
      else if v = 2 then Some C2_ServiceCallRequest
      else if v = 3 then Some C2_PlaybackControlRequest
      else if v = 4 then Some C2_Subscribe
      else if v = 5 then Some C2_Unsubscribe
      else None)"

fun client_opcode_v2_repr :: "ClientOpcode_v2 \<Rightarrow> u8" where
  "client_opcode_v2_repr C2_MessageData = 1"
| "client_opcode_v2_repr C2_ServiceCallRequest = 2"
| "client_opcode_v2_repr C2_PlaybackControlRequest = 3"
| "client_opcode_v2_repr C2_Subscribe = 4"
| "client_opcode_v2_repr C2_Unsubscribe = 5"

text \<open>The five \<open>to_bytes\<close> of protocol v2; the JSON messages have none.\<close>

fun client_v2_to_bytes :: "bytes_ops \<Rightarrow> ClientMessage_v2 \<Rightarrow> u8 list option" where
  "client_v2_to_bytes B (CMessageData m) =
     Some (client_message_data_write B m (put_u8 B (client_opcode_v2_repr C2_MessageData) []))"
| "client_v2_to_bytes B (CServiceCallRequest m) =
     Some (service_call_request_write B m (put_u8 B (client_opcode_v2_repr C2_ServiceCallRequest) []))"
| "client_v2_to_bytes B (CPlaybackControlRequest m) =
     Some (playback_control_request_write B m (put_u8 B (client_opcode_v2_repr C2_PlaybackControlRequest) []))"
| "client_v2_to_bytes B (CSubscribe m) =
     Some (subscribe_v2_write B m (put_u8 B (client_opcode_v2_repr C2_Subscribe) []))"
| "client_v2_to_bytes B (CUnsubscribe m) =
     Some (unsubscribe_v2_write B m (put_u8 B (client_opcode_v2_repr C2_Unsubscribe) []))"
| "client_v2_to_bytes B _ = None"

fun client_v1_to_bytes :: "bytes_ops \<Rightarrow> ClientMessage_v1 \<Rightarrow> u8 list option" where
  "client_v1_to_bytes B (CMessageData m) = Some (client_message_data_to_bytes B m)"
| "client_v1_to_bytes B (CServiceCallRequest m) = Some (service_call_request_to_bytes B m)"
| "client_v1_to_bytes B (CPlaybackControlRequest m) = Some (playback_control_request_to_bytes B m)"
| "client_v1_to_bytes B _ = None"

definition client_parse_binary_v2 :: "bytes_ops \<Rightarrow> u8 list \<Rightarrow> ClientMessage_v2 parsed" where
  "client_parse_binary_v2 B data =
     (if data = [] then Some (Inl EmptyBinaryMessage)
      else do {
        (opcode, data) \<leftarrow> get_u8 B data;
        case client_opcode_v2_from_repr opcode of
          Some C2_MessageData \<Rightarrow> map_parsed CMessageData (client_message_data_parse B data)
        | Some C2_ServiceCallRequest \<Rightarrow> map_parsed CServiceCallRequest (service_call_request_parse B data)
        | Some C2_PlaybackControlRequest \<Rightarrow>
            map_parsed CPlaybackControlRequest (playback_control_request_parse B data)
        | Some C2_Subscribe \<Rightarrow> map_parsed CSubscribe (subscribe_v2_parse B data)
        | Some C2_Unsubscribe \<Rightarrow> map_parsed CUnsubscribe (unsubscribe_v2_parse B data)
        | None \<Rightarrow> Some (Inl (InvalidOpcode opcode))
      })"

section \<open>Server messages\<close>

datatype 'md ServerMessage =
  SServerInfo ServerInfo
| SStatus Status
| SRemoveStatus "string list"
| SAdvertise "ServerAdChannel list"
| SUnadvertise "u64 list"
| SMessageData 'md
| STime Time
| SParameterValues ParameterValues
| SAdvertiseServices "ServiceAd list"
| SUnadvertiseServices "u32 list"
| SServiceCallResponse ServiceCallResponse
| SConnectionGraphUpdate ConnectionGraphUpdate
| SFetchAssetResponse FetchAssetResponse
| SServiceCallFailure ServiceCallFailure
| SPlaybackState PlaybackState

datatype ServerOpcode =
  S_MessageData | S_Time | S_ServiceCallResponse | S_FetchAssetResponse | S_PlaybackState

definition server_opcode_from_repr :: "u8 \<Rightarrow> ServerOpcode option" where
  "server_opcode_from_repr v =
     (if v = 1 then Some S_MessageData
      else if v = 2 then Some S_Time
      else if v = 3 then Some S_ServiceCallResponse
      else if v = 4 then Some S_FetchAssetResponse
      else if v = 5 then Some S_PlaybackState
      else None)"

fun server_opcode_repr :: "ServerOpcode \<Rightarrow> u8" where
  "server_opcode_repr S_MessageData = 1"
| "server_opcode_repr S_Time = 2"
| "server_opcode_repr S_ServiceCallResponse = 3"
| "server_opcode_repr S_FetchAssetResponse = 4"
| "server_opcode_repr S_PlaybackState = 5"

text \<open>The \<open>to_bytes\<close> of the server's binary messages; both versions differ only in the
  message data.\<close>

fun server_v1_to_bytes :: "bytes_ops \<Rightarrow> ServerMessageData_v1 ServerMessage \<Rightarrow> u8 list option" where
  "server_v1_to_bytes B (SMessageData m) =
     Some (message_data_v1_write B m (put_u8 B (server_opcode_repr S_MessageData) []))"
| "server_v1_to_bytes B (STime m) = Some (time_write B m (put_u8 B (server_opcode_repr S_Time) []))"
| "server_v1_to_bytes B (SServiceCallResponse m) =
     Some (service_call_response_write B m (put_u8 B (server_opcode_repr S_ServiceCallResponse) []))"
| "server_v1_to_bytes B (SFetchAssetResponse m) =
     Some (fetch_asset_response_write B m (put_u8 B (server_opcode_repr S_FetchAssetResponse) []))"
| "server_v1_to_bytes B (SPlaybackState m) =
     Some (playback_state_write B m (put_u8 B (server_opcode_repr S_PlaybackState) []))"
| "server_v1_to_bytes B _ = None"

fun server_v2_to_bytes :: "bytes_ops \<Rightarrow> ServerMessageData_v2 ServerMessage \<Rightarrow> u8 list option" where
  "server_v2_to_bytes B (SMessageData m) =
     Some (message_data_v2_write B m (put_u8 B (server_opcode_repr S_MessageData) []))"
| "server_v2_to_bytes B (STime m) = Some (time_write B m (put_u8 B (server_opcode_repr S_Time) []))"
| "server_v2_to_bytes B (SServiceCallResponse m) =
     Some (service_call_response_write B m (put_u8 B (server_opcode_repr S_ServiceCallResponse) []))"
| "server_v2_to_bytes B (SFetchAssetResponse m) =
     Some (fetch_asset_response_write B m (put_u8 B (server_opcode_repr S_FetchAssetResponse) []))"
| "server_v2_to_bytes B (SPlaybackState m) =
     Some (playback_state_write B m (put_u8 B (server_opcode_repr S_PlaybackState) []))"
| "server_v2_to_bytes B _ = None"

definition server_parse_binary_v1 :: "bytes_ops \<Rightarrow> u8 list \<Rightarrow> ServerMessageData_v1 ServerMessage parsed" where
  "server_parse_binary_v1 B data =
     (if data = [] then Some (Inl EmptyBinaryMessage)
      else do {
        (opcode, data) \<leftarrow> get_u8 B data;
        case server_opcode_from_repr opcode of
          Some S_MessageData \<Rightarrow> map_parsed SMessageData (message_data_v1_parse B data)
        | Some S_Time \<Rightarrow> map_parsed STime (time_parse B data)
        | Some S_ServiceCallResponse \<Rightarrow> map_parsed SServiceCallResponse (service_call_response_parse B data)
        | Some S_FetchAssetResponse \<Rightarrow> map_parsed SFetchAssetResponse (fetch_asset_response_parse B data)
        | Some S_PlaybackState \<Rightarrow> map_parsed SPlaybackState (playback_state_parse B data)
        | None \<Rightarrow> Some (Inl (InvalidOpcode opcode))
      })"

definition server_parse_binary_v2 :: "bytes_ops \<Rightarrow> u8 list \<Rightarrow> ServerMessageData_v2 ServerMessage parsed" where
  "server_parse_binary_v2 B data =
     (if data = [] then Some (Inl EmptyBinaryMessage)
      else do {
        (opcode, data) \<leftarrow> get_u8 B data;
        case server_opcode_from_repr opcode of
          Some S_MessageData \<Rightarrow> map_parsed SMessageData (message_data_v2_parse B data)
        | Some S_Time \<Rightarrow> map_parsed STime (time_parse B data)
        | Some S_ServiceCallResponse \<Rightarrow> map_parsed SServiceCallResponse (service_call_response_parse B data)
        | Some S_FetchAssetResponse \<Rightarrow> map_parsed SFetchAssetResponse (fetch_asset_response_parse B data)
        | Some S_PlaybackState \<Rightarrow> map_parsed SPlaybackState (playback_state_parse B data)
        | None \<Rightarrow> Some (Inl (InvalidOpcode opcode))
      })"

section \<open>Websocket messages\<close>

text \<open>A tungstenite message; \<open>from_json\<close> stands for the derived deserialisation.\<close>

datatype ws_message = WsText string | WsBinary "u8 list" | WsOther

fun client_message_try_from ::
  "bytes_ops \<Rightarrow> (string \<Rightarrow> (ClientMessage_v1, ParseError) result) \<Rightarrow> ws_message \<Rightarrow> ClientMessage_v1 parsed" where
  "client_message_try_from B from_json (WsText s) = Some (from_json s)"
| "client_message_try_from B from_json (WsBinary d) = client_parse_binary_v1 B d"
| "client_message_try_from B from_json WsOther = Some (Inl UnhandledMessageType)"

fun server_message_try_from ::
  "bytes_ops \<Rightarrow> (string \<Rightarrow> (ServerMessageData_v1 ServerMessage, ParseError) result) \<Rightarrow> ws_message
    \<Rightarrow> ServerMessageData_v1 ServerMessage parsed" where
  "server_message_try_from B from_json (WsText s) = Some (from_json s)"
| "server_message_try_from B from_json (WsBinary d) = server_parse_binary_v1 B d"
| "server_message_try_from B from_json WsOther = Some (Inl UnhandledMessageType)"

text \<open>The conversions into a websocket message: binary where the message has \<open>to_bytes\<close>,
  JSON text otherwise.\<close>

definition server_message_to_ws ::
  "bytes_ops \<Rightarrow> (ServerMessageData_v1 ServerMessage \<Rightarrow> string) \<Rightarrow> ServerMessageData_v1 ServerMessage \<Rightarrow> ws_message"
  where
  "server_message_to_ws B to_json m =
     (case server_v1_to_bytes B m of Some d \<Rightarrow> WsBinary d | None \<Rightarrow> WsText (to_json m))"

definition client_message_to_ws ::
  "bytes_ops \<Rightarrow> (ClientMessage_v1 \<Rightarrow> string) \<Rightarrow> ClientMessage_v1 \<Rightarrow> ws_message" where
  "client_message_to_ws B to_json m =
     (case client_v1_to_bytes B m of Some d \<Rightarrow> WsBinary d | None \<Rightarrow> WsText (to_json m))"

section \<open>Lemmas\<close>

lemma map_parsed_total: "\<exists>r. p = Some r \<Longrightarrow> \<exists>r. map_parsed f p = Some r"
  by (auto simp: map_parsed_def)

lemma map_parsed_Inr [simp]: "map_parsed f (Some (Inr m)) = Some (Inr (f m))"
  by (simp add: map_parsed_def)

text \<open>The contracts of the payloads, for any crate that satisfies the laws.\<close>

lemmas payload_contracts = binary_client_message_data binary_service_call_request
  binary_playback_control_request binary_subscribe_v2 binary_unsubscribe_v2 binary_message_data_v1
  binary_message_data_v2 binary_time binary_service_call_response binary_fetch_asset_response
  binary_playback_state

lemmas payload_total = payload_contracts [THEN binary_payload.parse_total, THEN map_parsed_total]

lemmas payload_framed = payload_contracts [THEN binary_payload.framed_cons]
  payload_contracts [THEN binary_payload.parse_write]

lemmas payload_framed_size = payload_contracts [THEN binary_payload.framed_size]

fun client_message_ok :: "('s \<Rightarrow> bool) \<Rightarrow> ('u \<Rightarrow> bool) \<Rightarrow> ('s, 'u) ClientMessage \<Rightarrow> bool" where
  "client_message_ok f g (CServiceCallRequest m) = service_call_request_ok m"
| "client_message_ok f g (CPlaybackControlRequest m) = playback_control_request_ok m"
| "client_message_ok f g (CSubscribe m) = f m"
| "client_message_ok f g (CUnsubscribe m) = g m"
| "client_message_ok f g _ = True"

text \<open>The strings are UTF-8 and the lengths fit the length fields.\<close>

fun server_message_ok :: "'md ServerMessage \<Rightarrow> bool" where
  "server_message_ok (SServiceCallResponse m) = service_call_response_ok m"
| "server_message_ok (SFetchAssetResponse m) = fetch_asset_response_ok m"
| "server_message_ok (SPlaybackState m) = (\<forall>i. pbs_request_id m = Some i \<longrightarrow> is_str i \<and> length i < 2 ^ 32)"
| "server_message_ok _ = True"

text \<open>What the client receives, and the messages that do not arrive as they were sent.\<close>

fun server_received :: "'md ServerMessage \<Rightarrow> 'md ServerMessage" where
  "server_received (SPlaybackState m) = SPlaybackState (playback_received m)"
| "server_received m = m"

fun empty_request_id :: "'md ServerMessage \<Rightarrow> bool" where
  "empty_request_id (SPlaybackState m) = (pbs_request_id m = Some [])"
| "empty_request_id m = False"

lemma server_received_id: "server_received m = m \<longleftrightarrow> \<not> empty_request_id m"
  by (cases m) (auto simp: playback_received_def dest: arg_cong [of _ _ pbs_request_id])

lemma playback_received_ok: "server_message_ok (SPlaybackState m) \<Longrightarrow> playback_state_ok (playback_received m)"
  by (auto simp: playback_state_ok_def playback_received_def split: option.split)

lemma parse_binary_total:
  assumes "bytes_laws B"
  shows "\<exists>r. client_parse_binary_v1 B d = Some r" "\<exists>r. client_parse_binary_v2 B d = Some r"
    "\<exists>r. server_parse_binary_v1 B d = Some r" "\<exists>r. server_parse_binary_v2 B d = Some r"
  by (cases d; simp add: client_parse_binary_v1_def client_parse_binary_v2_def
      server_parse_binary_v1_def server_parse_binary_v2_def bytes_get [OF assms]
      payload_total [OF assms] split: option.split ClientOpcode_v1.split ClientOpcode_v2.split ServerOpcode.split)+

interpretation client_md: binary_payload "client_message_data_parse std_bytes" client_message_data_size
  "client_message_data_write std_bytes" "\<lambda>_. True"
  by (rule binary_client_message_data [OF std_bytes_laws])

interpretation server_pbs: binary_payload "playback_state_parse std_bytes" playback_state_size
  "playback_state_write std_bytes" playback_state_ok
  by (rule binary_playback_state [OF std_bytes_laws])

section \<open>Properties\<close>

text \<open>C11: no binary message makes a parser panic: for every byte string, the client and
  server parsers of both protocol versions return a message or a \<open>ParseError\<close>.\<close>

theorem parse_never_panics:
  assumes "bytes_laws B"
  shows "(\<exists>r. client_parse_binary_v1 B d = Some r) \<and> (\<exists>r. client_parse_binary_v2 B d = Some r)
    \<and> (\<exists>r. server_parse_binary_v1 B d = Some r) \<and> (\<exists>r. server_parse_binary_v2 B d = Some r)"
  using parse_binary_total [OF assms] by blast

theorem parse_never_panics_witness:
  "bytes_laws std_bytes \<and> (\<exists>r. server_parse_binary_v1 std_bytes [5, 0, 255] = Some r)"
  using parse_never_panics [OF std_bytes_laws, of "[5, 0, 255]"] std_bytes_laws by blast

lemma client_v1_roundtrip:
  assumes "bytes_laws B" "client_message_ok (\<lambda>_. True) (\<lambda>_. True) m" "client_v1_to_bytes B m = Some b"
  shows "client_parse_binary_v1 B b = Some (Inr m)"
  using assms(2,3)
  by (cases m) (auto simp: client_parse_binary_v1_def client_message_data_to_bytes_def
        service_call_request_to_bytes_def playback_control_request_to_bytes_def
        client_opcode_v1_from_repr_def bytes_get [OF assms(1)] bytes_put [OF assms(1)]
        payload_framed [OF assms(1)])

lemma client_v2_roundtrip:
  assumes "bytes_laws B" "client_message_ok subscribe_v2_ok unsubscribe_v2_ok m" "client_v2_to_bytes B m = Some b"
  shows "client_parse_binary_v2 B b = Some (Inr m)"
  using assms(2,3)
  by (cases m) (auto simp: client_parse_binary_v2_def client_opcode_v2_from_repr_def
        bytes_get [OF assms(1)] bytes_put [OF assms(1)] payload_framed [OF assms(1)])

lemma server_v1_roundtrip:
  assumes "bytes_laws B" "server_message_ok m" "server_v1_to_bytes B m = Some b"
  shows "server_parse_binary_v1 B b = Some (Inr (server_received m))"
proof (cases "\<exists>p. m = SPlaybackState p")
  case True
  then obtain p where p: "m = SPlaybackState p" ..
  have "playback_state_parse B (playback_state_write B p []) = Some (Inr (playback_received p))"
    using payload_framed [OF assms(1)] playback_received_ok [of p] assms(2) p
    by (metis playback_received_write [OF assms(1)])
  then show ?thesis using assms(3) p
    by (auto simp: server_parse_binary_v1_def server_opcode_from_repr_def
        bytes_get [OF assms(1)] bytes_put [OF assms(1)] payload_framed [OF assms(1)])
next
  case False
  then show ?thesis using assms(2,3)
    by (cases m) (auto simp: server_parse_binary_v1_def server_opcode_from_repr_def
        bytes_get [OF assms(1)] bytes_put [OF assms(1)] payload_framed [OF assms(1)])
qed

lemma server_v2_roundtrip:
  assumes "bytes_laws B" "server_message_ok m" "server_v2_to_bytes B m = Some b"
  shows "server_parse_binary_v2 B b = Some (Inr (server_received m))"
proof (cases "\<exists>p. m = SPlaybackState p")
  case True
  then obtain p where p: "m = SPlaybackState p" ..
  have "playback_state_parse B (playback_state_write B p []) = Some (Inr (playback_received p))"
    using payload_framed [OF assms(1)] playback_received_ok [of p] assms(2) p
    by (metis playback_received_write [OF assms(1)])
  then show ?thesis using assms(3) p
    by (auto simp: server_parse_binary_v2_def server_opcode_from_repr_def
        bytes_get [OF assms(1)] bytes_put [OF assms(1)] payload_framed [OF assms(1)])
next
  case False
  then show ?thesis using assms(2,3)
    by (cases m) (auto simp: server_parse_binary_v2_def server_opcode_from_repr_def
        bytes_get [OF assms(1)] bytes_put [OF assms(1)] payload_framed [OF assms(1)])
qed

text \<open>C12: a client message that has a binary form parses back to itself, in both protocol
  versions, when its strings are UTF-8 and its lengths fit the 32-bit length fields.\<close>

theorem client_binary_roundtrip:
  assumes "bytes_laws B"
    and "client_message_ok (\<lambda>_. True) (\<lambda>_. True) m1" "client_v1_to_bytes B m1 = Some b1"
    and "client_message_ok subscribe_v2_ok unsubscribe_v2_ok m2" "client_v2_to_bytes B m2 = Some b2"
  shows "client_parse_binary_v1 B b1 = Some (Inr m1) \<and> client_parse_binary_v2 B b2 = Some (Inr m2)"
  using assms client_v1_roundtrip client_v2_roundtrip by blast

theorem client_binary_roundtrip_witness:
  "client_parse_binary_v2 std_bytes (the (client_v2_to_bytes std_bytes (CSubscribe \<lparr> sub_channel_ids = [7, 8] \<rparr>)))
     = Some (Inr (CSubscribe \<lparr> sub_channel_ids = [7, 8] \<rparr>))"
  using client_binary_roundtrip [OF std_bytes_laws, of "CMessageData \<lparr> cmd_channel_id = 1, cmd_data = [2] \<rparr>" _
      "CSubscribe \<lparr> sub_channel_ids = [7, 8] \<rparr>", OF _ _ _ ]
  by (simp add: subscribe_v2_ok_def)

text \<open>C13: a server message that has a binary form and whose strings are UTF-8 and whose lengths fit
  the 32-bit length fields is read by the client, in both protocol versions. It arrives as it was
  sent, except that a playback state with an empty request identifier arrives without one.\<close>

theorem server_binary_roundtrip:
  assumes "bytes_laws B"
    and "server_message_ok m1" "server_v1_to_bytes B m1 = Some b1"
    and "server_message_ok m2" "server_v2_to_bytes B m2 = Some b2"
  shows "server_parse_binary_v1 B b1 = Some (Inr (server_received m1))
    \<and> server_parse_binary_v2 B b2 = Some (Inr (server_received m2))
    \<and> (server_received m1 = m1 \<longleftrightarrow> \<not> empty_request_id m1)
    \<and> (server_received m2 = m2 \<longleftrightarrow> \<not> empty_request_id m2)"
  using server_v1_roundtrip [OF assms(1-3)] server_v2_roundtrip [OF assms(1,4,5)] by (simp add: server_received_id)

theorem server_binary_roundtrip_witness:
  "\<exists>p b. pbs_request_id p = Some [] \<and> server_v1_to_bytes std_bytes (SPlaybackState p) = Some b
     \<and> server_parse_binary_v1 std_bytes b = Some (Inr (SPlaybackState (p \<lparr> pbs_request_id := None \<rparr>)))"
proof -
  let ?p = "\<lparr> pbs_status = Paused, pbs_current_time = 7, pbs_playback_speed = 0, pbs_did_seek = False, pbs_request_id = Some [] \<rparr>"
  have str: "is_str []" by (rule is_str_ascii) auto
  have b: "server_v1_to_bytes std_bytes (SPlaybackState ?p) = Some (the (server_v1_to_bytes std_bytes (SPlaybackState ?p)))"
    and t: "server_v2_to_bytes std_bytes (STime \<lparr> timestamp = 5 \<rparr>) = Some (the (server_v2_to_bytes std_bytes (STime \<lparr> timestamp = 5 \<rparr>)))"
    by (simp_all only: server_v1_to_bytes.simps server_v2_to_bytes.simps option.sel)
  have "server_message_ok (SPlaybackState ?p)" "server_message_ok (STime \<lparr> timestamp = 5 \<rparr>)" using str by simp_all
  note server_binary_roundtrip [OF std_bytes_laws this(1) b this(2) t, THEN conjunct1]
  moreover have "server_received (SPlaybackState ?p) = SPlaybackState (?p \<lparr> pbs_request_id := None \<rparr>)"
    by (simp add: playback_received_def)
  moreover have "pbs_request_id ?p = Some []" by simp
  ultimately show ?thesis using b by metis
qed

text \<open>The buffer a binary message is written to has exactly the size the code reserves,
  one byte for the opcode and \<open>payload_size\<close>, for every message, also those whose length
  fields wrap around.\<close>

theorem framed_sizes:
  assumes "bytes_laws B"
  shows "length (client_message_data_to_bytes B cm) = 1 + client_message_data_size cm
    \<and> length (service_call_request_to_bytes B cr) = 1 + service_call_request_size cr
    \<and> length (playback_control_request_to_bytes B cp) = 1 + playback_control_request_size cp
    \<and> map_option length (server_v1_to_bytes B (SMessageData sm)) = Some (1 + message_data_v1_size sm)
    \<and> map_option length (server_v2_to_bytes B (SMessageData sm2)) = Some (1 + message_data_v2_size sm2)
    \<and> map_option length (server_v1_to_bytes B (STime st)) = Some (1 + time_size st)
    \<and> map_option length (server_v1_to_bytes B (SServiceCallResponse sr)) = Some (1 + service_call_response_size sr)
    \<and> map_option length (server_v1_to_bytes B (SFetchAssetResponse sf)) = Some (1 + fetch_asset_response_size sf)
    \<and> map_option length (server_v1_to_bytes B (SPlaybackState sp)) = Some (1 + playback_state_size sp)
    \<and> map_option length (client_v2_to_bytes B (CSubscribe cs)) = Some (1 + subscribe_v2_size cs)
    \<and> map_option length (client_v2_to_bytes B (CUnsubscribe cu)) = Some (1 + unsubscribe_v2_size cu)"
  by (simp add: client_message_data_to_bytes_def service_call_request_to_bytes_def
      playback_control_request_to_bytes_def bytes_put [OF assms] payload_framed_size [OF assms, simplified])

theorem framed_sizes_witness:
  "map_option length (client_v2_to_bytes std_bytes (CSubscribe \<lparr> sub_channel_ids = [7, 8] \<rparr>)) = Some 13"
  using framed_sizes [OF std_bytes_laws, where cs = "\<lparr> sub_channel_ids = [7, 8] \<rparr>"]
  by (simp add: subscribe_v2_size_def)

text \<open>An advertisement carries its schema: when a channel advertisement with a schema can
  be built, by a server or by a client, decoding it gives that schema back; without a schema
  it is built exactly when the message encoding does not require one.\<close>

theorem advertised_schema_roundtrip:
  assumes "base64_laws E"
  shows "(case server_channel_build E (server_channel_with_schema s (server_channel_builder i t e)) of
        Inl err \<Rightarrow> err = SchemaUtf8 | Inr c \<Rightarrow> server_channel_schema E c = Inr s)
    \<and> (case client_channel_build E (client_channel_with_schema s (client_channel_builder j t e)) of
        Inl err \<Rightarrow> err = SchemaUtf8 | Inr c \<Rightarrow> client_channel_schema E c = Inr s)
    \<and> ((\<exists>c. server_channel_build E (server_channel_builder i t e) = Inr c) \<longleftrightarrow> \<not> is_schema_required e)
    \<and> ((\<exists>c. client_channel_build E (client_channel_builder j t e) = Inr c) \<longleftrightarrow> \<not> is_schema_required e)"
proof -
  have "case encode_schema_data E (ps_encoding s) (ps_data s) of Inl err \<Rightarrow> err = SchemaUtf8
      | Inr d \<Rightarrow> decode_schema_data E (ps_encoding s) d = Inr (ps_data s)"
    using assms from_utf8_Some [of "ps_data s"]
    by (auto simp: encode_schema_data_def decode_schema_data_def base64_laws_def split: option.split)
  then show ?thesis
    by (auto simp: server_channel_build_def server_channel_with_schema_def server_channel_builder_def
        client_channel_build_def client_channel_with_schema_def client_channel_builder_def
        server_channel_schema_def server_channel_decode_schema_def client_channel_schema_def
        client_channel_decode_schema_def split: sum.splits)
qed

theorem advertised_schema_roundtrip_witness:
  "base64_laws demo_base64 \<and> \<not> (\<exists>c. server_channel_build demo_base64 (server_channel_builder 1 ''/t'' ''protobuf'') = Inr c)"
  using advertised_schema_roundtrip [OF demo_base64_laws, of "\<lparr> ps_name = [], ps_encoding = [], ps_data = [] \<rparr>" 1 "''/t''"
      "''protobuf''"] demo_base64_laws
  by (simp add: is_schema_required_def)

text \<open>A playback time becomes seconds and nanoseconds below one second; the conversion is
  exact while the seconds fit 32 bits, and the seconds saturate beyond.\<close>

theorem from_nsecs_exact:
  "unat (ts_nsec (from_nsecs t)) < 1000000000
   \<and> (if unat t div 1000000000 < 2 ^ 32
      then unat (ts_sec (from_nsecs t)) * 1000000000 + unat (ts_nsec (from_nsecs t)) = unat t
      else ts_sec (from_nsecs t) = - 1)"
proof -
  have q: "unat (t div 1000000000) = unat t div 1000000000"
    and r: "unat (t mod 1000000000) = unat t mod 1000000000"
    by (simp_all add: unat_div unat_mod)
  have "unat (ucast (t mod 1000000000) :: u32) = unat t mod 1000000000"
    by (simp add: unsigned_ucast_eq take_bit_eq_mod r)
  moreover have "unat (ucast (t div 1000000000) :: u32) = unat t div 1000000000"
    if "unat t div 1000000000 < 2 ^ 32"
    using that by (simp add: unsigned_ucast_eq take_bit_eq_mod q)
  ultimately show ?thesis by (simp add: from_nsecs_def q r)
qed

end
