(* ===== verification/Services.thy ===== *)
theory Services
  imports Channels Protocol_Messages
begin

text \<open>
  Services (\<open>websocket/service.rs\<close>, \<open>websocket/service/schema.rs\<close>,
  \<open>websocket/service/request.rs\<close>) and the advertisements of channels and services
  (\<open>websocket/advertise.rs\<close>). The handler of a service is user code and not part of the
  record; a call of it is represented where the client hands over the request. The locale
  \<open>service_registry\<close> is what the server relies on of the service map.
\<close>

section \<open>Services\<close>

text \<open>\<open>ServiceId::next\<close> on its static counter; \<open>None\<close> is the failed assertion.\<close>

definition service_id_next :: "u32 \<Rightarrow> (u32 \<times> u32) may_panic" where
  "service_id_next n = (if n = 0 then None else Some (n, n + 1))"

record SvcMessageSchema =
  sms_encoding :: string
  sms_schema :: Schema

record ServiceSchema =
  ss_name :: string
  ss_request :: "SvcMessageSchema option"
  ss_response :: "SvcMessageSchema option"

definition service_schema_new :: "string \<Rightarrow> ServiceSchema" where
  "service_schema_new n = \<lparr> ss_name = n, ss_request = None, ss_response = None \<rparr>"

definition service_schema_with_request :: "string \<Rightarrow> Schema \<Rightarrow> ServiceSchema \<Rightarrow> ServiceSchema" where
  "service_schema_with_request e sch s = s \<lparr> ss_request := Some \<lparr> sms_encoding = e, sms_schema = sch \<rparr> \<rparr>"

definition service_schema_with_response :: "string \<Rightarrow> Schema \<Rightarrow> ServiceSchema \<Rightarrow> ServiceSchema" where
  "service_schema_with_response e sch s = s \<lparr> ss_response := Some \<lparr> sms_encoding = e, sms_schema = sch \<rparr> \<rparr>"

record Service =
  svc_id :: u32
  svc_name :: string
  svc_schema :: ServiceSchema

text \<open>\<open>Service::builder\<close> followed by one of the functions that set the handler.\<close>

definition service_build :: "string \<Rightarrow> ServiceSchema \<Rightarrow> u32 \<Rightarrow> (Service \<times> u32) may_panic" where
  "service_build n sch cnt = do {
     (i, cnt') \<leftarrow> service_id_next cnt;
     Some (\<lparr> svc_id = i, svc_name = n, svc_schema = sch \<rparr>, cnt')
   }"

definition service_request_encoding :: "Service \<Rightarrow> string option" where
  "service_request_encoding s = map_option sms_encoding (ss_request (svc_schema s))"

definition service_response_encoding :: "Service \<Rightarrow> string option" where
  "service_response_encoding s = map_option sms_encoding (ss_response (svc_schema s))"

record Request =
  rq_service :: Service
  rq_client_id :: u32
  rq_call_id :: u32
  rq_encoding :: string
  rq_payload :: "u8 list"

section \<open>The service map\<close>

record ServiceMap =
  sm_id :: "(u32, Service) hash_map"
  sm_name :: "(string, u32) hash_map"

definition service_map_default :: ServiceMap where
  "service_map_default = \<lparr> sm_id = [], sm_name = [] \<rparr>"

definition service_map_insert :: "Service \<Rightarrow> ServiceMap \<Rightarrow> ServiceMap may_panic" where
  "service_map_insert s m =
     (let m1 = m \<lparr> sm_name := hm_insert (svc_name s) (svc_id s) (sm_name m) \<rparr> in
      if hm_get (sm_name m) (svc_name s) \<noteq> None then None
      else
        let m2 = m1 \<lparr> sm_id := hm_insert (svc_id s) s (sm_id m1) \<rparr> in
        if hm_get (sm_id m1) (svc_id s) \<noteq> None then None else Some m2)"

fun service_map_insert_all :: "Service list \<Rightarrow> ServiceMap \<Rightarrow> ServiceMap may_panic" where
  "service_map_insert_all [] m = Some m"
| "service_map_insert_all (s # ss) m = do { m' \<leftarrow> service_map_insert s m; service_map_insert_all ss m' }"

definition service_map_from_iter :: "Service list \<Rightarrow> ServiceMap may_panic" where
  "service_map_from_iter ss = service_map_insert_all ss service_map_default"

definition service_map_remove_by_name :: "string \<Rightarrow> ServiceMap \<Rightarrow> Service option \<times> ServiceMap" where
  "service_map_remove_by_name n m =
     (case hm_get (sm_name m) n of
        Some i \<Rightarrow>
          (hm_get (sm_id m) i,
           m \<lparr> sm_name := hm_remove n (sm_name m), sm_id := hm_remove i (sm_id m) \<rparr>)
      | None \<Rightarrow> (None, m))"

text \<open>Removing several names, as \<open>Server::remove_services\<close> does; the services that were removed
  are returned.\<close>

fun service_map_remove_all :: "string list \<Rightarrow> ServiceMap \<Rightarrow> Service list \<times> ServiceMap" where
  "service_map_remove_all [] m = ([], m)"
| "service_map_remove_all (n # ns) m =
     (let (r, m') = service_map_remove_by_name n m; (rs, m'') = service_map_remove_all ns m' in
      ((case r of None \<Rightarrow> rs | Some s \<Rightarrow> s # rs), m''))"

definition service_map_contains_name :: "string \<Rightarrow> ServiceMap \<Rightarrow> bool" where
  "service_map_contains_name n m \<longleftrightarrow> hm_contains n (sm_name m)"

definition service_map_contains_id :: "u32 \<Rightarrow> ServiceMap \<Rightarrow> bool" where
  "service_map_contains_id i m \<longleftrightarrow> hm_contains i (sm_id m)"

definition service_map_values :: "ServiceMap \<Rightarrow> Service list" where
  "service_map_values m = hm_values (sm_id m)"

definition service_map_get_by_id :: "ServiceMap \<Rightarrow> u32 \<Rightarrow> Service option" where
  "service_map_get_by_id m i = hm_get (sm_id m) i"

section \<open>Advertisements\<close>

definition schema_to_protocol :: "Schema \<Rightarrow> ProtoSchema" where
  "schema_to_protocol s = \<lparr> ps_name = schema_name s, ps_encoding = schema_encoding s, ps_data = schema_data s \<rparr>"

definition channel_ad_try_from :: "base64_ops \<Rightarrow> ChannelDescriptor \<Rightarrow> (ServerAdChannel, SchemaEncodeError) result" where
  "channel_ad_try_from E ch =
     (let builder = server_channel_builder (desc_id ch) (desc_topic ch) (desc_message_encoding ch);
          builder = (case desc_schema ch of
              Some s \<Rightarrow> server_channel_with_schema (schema_to_protocol s) builder
            | None \<Rightarrow> builder) in
      server_channel_build E builder)"

definition result_ok :: "('a, 'e) result \<Rightarrow> 'a option" where
  "result_ok r = (case r of Inr x \<Rightarrow> Some x | Inl _ \<Rightarrow> None)"

definition maybe_advertise_channel :: "base64_ops \<Rightarrow> ChannelDescriptor \<Rightarrow> ServerAdChannel option" where
  "maybe_advertise_channel E ch = result_ok (channel_ad_try_from E ch)"

definition advertise_channels_msg :: "base64_ops \<Rightarrow> ChannelDescriptor list \<Rightarrow> ServerAdChannel list" where
  "advertise_channels_msg E chs = List.map_filter (maybe_advertise_channel E) chs"

definition service_ad_try_from :: "base64_ops \<Rightarrow> Service \<Rightarrow> (ServiceAd, SchemaEncodeError) result" where
  "service_ad_try_from E s =
     (let schema = svc_schema s;
          service = service_ad_new (svc_id s) (svc_name s) (ss_name schema);
          with_req = (case ss_request schema of
              Some r \<Rightarrow> service_ad_with_request E (sms_encoding r) (schema_to_protocol (sms_schema r)) service
            | None \<Rightarrow> Inr service) in
      case with_req of
        Inl e \<Rightarrow> Inl e
      | Inr service \<Rightarrow>
          (case ss_response schema of
             Some r \<Rightarrow> service_ad_with_response E (sms_encoding r) (schema_to_protocol (sms_schema r)) service
           | None \<Rightarrow> Inr service))"

definition maybe_advertise_service :: "base64_ops \<Rightarrow> Service \<Rightarrow> ServiceAd option" where
  "maybe_advertise_service E s = result_ok (service_ad_try_from E s)"

definition advertise_services_msg :: "base64_ops \<Rightarrow> Service list \<Rightarrow> ServiceAd list" where
  "advertise_services_msg E ss = List.map_filter (maybe_advertise_service E) ss"

section \<open>What the server relies on\<close>

locale service_registry =
  fixes inv :: "'m \<Rightarrow> bool"
    and get :: "'m \<Rightarrow> u32 \<Rightarrow> Service option"
    and has_name :: "string \<Rightarrow> 'm \<Rightarrow> bool"
    and ins :: "Service \<Rightarrow> 'm \<Rightarrow> 'm may_panic"
    and del :: "string \<Rightarrow> 'm \<Rightarrow> Service option \<times> 'm"
  assumes get_id: "inv m \<Longrightarrow> get m i = Some s \<Longrightarrow> svc_id s = i"
    and names: "inv m \<Longrightarrow> has_name n m \<longleftrightarrow> (\<exists>i s. get m i = Some s \<and> svc_name s = n)"
    and name_unique: "inv m \<Longrightarrow> get m i = Some s \<Longrightarrow> get m j = Some t \<Longrightarrow> svc_name s = svc_name t \<Longrightarrow> i = j"
    and ins_ok: "inv m \<Longrightarrow> \<not> has_name (svc_name s) m \<Longrightarrow> get m (svc_id s) = None \<Longrightarrow>
      \<exists>m'. ins s m = Some m' \<and> inv m' \<and> get m' = (get m)(svc_id s \<mapsto> s)"
    and ins_panic: "inv m \<Longrightarrow> has_name (svc_name s) m \<or> get m (svc_id s) \<noteq> None \<Longrightarrow> ins s m = None"
    and del_inv: "inv m \<Longrightarrow> inv (snd (del n m))"
    and del_hit: "inv m \<Longrightarrow> get m i = Some s \<Longrightarrow> svc_name s = n \<Longrightarrow>
      fst (del n m) = Some s \<and> get (snd (del n m)) = (get m)(i := None)"
    and del_miss: "inv m \<Longrightarrow> \<not> has_name n m \<Longrightarrow> del n m = (None, m)"
begin

fun ins_all :: "Service list \<Rightarrow> 'm \<Rightarrow> 'm may_panic" where
  "ins_all [] m = Some m"
| "ins_all (s # ss) m = do { m' \<leftarrow> ins s m; ins_all ss m' }"

fun del_all :: "string list \<Rightarrow> 'm \<Rightarrow> Service list \<times> 'm" where
  "del_all [] m = ([], m)"
| "del_all (n # ns) m =
     (let (r, m') = del n m; (rs, m'') = del_all ns m' in
      ((case r of None \<Rightarrow> rs | Some s \<Rightarrow> s # rs), m''))"

lemma has_name_ins:
  assumes "inv m" "ins s m = Some m'"
  shows "inv m' \<and> get m' = (get m)(svc_id s \<mapsto> s) \<and> (has_name n m' \<longleftrightarrow> n = svc_name s \<or> has_name n m)"
proof -
  have free: "\<not> has_name (svc_name s) m" "get m (svc_id s) = None"
    using ins_panic [OF assms(1), of s] assms(2) by (metis option.distinct(1))+
  then have m': "inv m'" "get m' = (get m)(svc_id s \<mapsto> s)" using ins_ok [OF assms(1) free] assms(2) by auto
  moreover have "has_name n m' \<longleftrightarrow> n = svc_name s \<or> has_name n m"
    unfolding names [OF m'(1)] names [OF assms(1)] m'(2) using free(2)
    by (metis (full_types) fun_upd_apply option.inject option.distinct(1))
  ultimately show ?thesis by blast
qed

text \<open>Services that are new to the map and distinct among themselves are inserted without a
  panic, and exactly they are added.\<close>

lemma ins_all_ok:
  "inv m \<Longrightarrow> distinct (map svc_name ss) \<Longrightarrow> distinct (map svc_id ss) \<Longrightarrow>
   \<forall>s \<in> set ss. \<not> has_name (svc_name s) m \<and> get m (svc_id s) = None \<Longrightarrow>
   \<exists>m'. ins_all ss m = Some m' \<and> inv m'
     \<and> (\<forall>i s. get m' i = Some s \<longleftrightarrow> (s \<in> set ss \<and> svc_id s = i) \<or> get m i = Some s)"
proof (induction ss arbitrary: m)
  case (Cons s ss)
  then obtain m1 where m1: "ins s m = Some m1" using ins_ok [of m s] by auto
  note step = has_name_ins [OF Cons.prems(1) m1]
  have "\<exists>m'. ins_all ss m1 = Some m' \<and> inv m'
     \<and> (\<forall>i t. get m' i = Some t \<longleftrightarrow> (t \<in> set ss \<and> svc_id t = i) \<or> get m1 i = Some t)"
    using Cons.prems step by (intro Cons.IH) (auto simp: image_iff)
  then show ?case using m1 step Cons.prems(4) by (fastforce split: if_splits)
qed simp

lemma ins_all_Some:
  "inv m \<Longrightarrow> ins_all ss m = Some m' \<Longrightarrow>
   distinct (map svc_name ss) \<and> distinct (map svc_id ss)
   \<and> (\<forall>s \<in> set ss. \<not> has_name (svc_name s) m \<and> get m (svc_id s) = None)"
proof (induction ss arbitrary: m)
  case (Cons s ss)
  then obtain m1 where m1: "ins s m = Some m1" "ins_all ss m1 = Some m'" by (auto split: bind_splits)
  note step = has_name_ins [OF Cons.prems(1) m1(1)]
  have free: "\<not> has_name (svc_name s) m" "get m (svc_id s) = None"
    using ins_panic [OF Cons.prems(1), of s] m1(1) by (metis option.distinct(1))+
  have "distinct (map svc_name ss) \<and> distinct (map svc_id ss)
      \<and> (\<forall>t \<in> set ss. \<not> has_name (svc_name t) m1 \<and> get m1 (svc_id t) = None)"
    using Cons.IH [OF _ m1(2)] step by blast
  then show ?case using step free by (auto split: if_splits)
qed simp

lemma del_cases:
  assumes "inv m"
  obtains (hit) i s where "get m i = Some s" "svc_name s = n" "fst (del n m) = Some s"
    "get (snd (del n m)) = (get m)(i := None)"
  | (miss) "\<not> has_name n m" "del n m = (None, m)"
proof (cases "has_name n m")
  case True
  then obtain i s where "get m i = Some s" "svc_name s = n" using names [OF assms] by blast
  with del_hit [OF assms this] show thesis by (intro hit) auto
next
  case False
  then show thesis using miss del_miss [OF assms] by blast
qed

text \<open>Removing a list of names returns the services of that name that were in the map, once
  each, and leaves the others.\<close>

lemma del_all_ok:
  "inv m \<Longrightarrow> del_all ns m = (rs, m') \<Longrightarrow>
   inv m' \<and> (\<forall>i s. get m' i = Some s \<longleftrightarrow> get m i = Some s \<and> svc_name s \<notin> set ns)
   \<and> set rs = {s. (\<exists>i. get m i = Some s) \<and> svc_name s \<in> set ns} \<and> distinct (map svc_id rs)"
proof (induction ns arbitrary: m rs)
  case (Cons n ns)
  obtain r m1 where d: "del n m = (r, m1)" by (cases "del n m")
  obtain rs1 where d1: "del_all ns m1 = (rs1, m')" and rs: "rs = (case r of None \<Rightarrow> rs1 | Some s \<Rightarrow> s # rs1)"
    using Cons.prems(2) d by (auto split: prod.splits)
  have inv1: "inv m1" using del_inv [OF Cons.prems(1), of n] d by simp
  note ih = Cons.IH [OF inv1 d1]
  show ?case using Cons.prems(1)
  proof (cases rule: del_cases [where n = n])
    case (hit i s)
    have own: "get m j = Some t \<and> svc_name t = n \<longleftrightarrow> j = i \<and> t = s" for j t
      using name_unique [OF Cons.prems(1) hit(1), of j t] hit(1,2) by auto
    have g1: "get m1 j = Some t \<longleftrightarrow> get m j = Some t \<and> svc_name t \<noteq> n" for j t
      using own [of j t] hit(1,2,4) d by auto
    have "rs = s # rs1" using rs hit(3) d by simp
    moreover have "s \<notin> set rs1" using ih g1 hit(2) by auto
    moreover have "svc_id s \<noteq> svc_id t" if "t \<in> set rs1" for t
    proof
      assume eq: "svc_id s = svc_id t"
      from that ih obtain j where "get m1 j = Some t" by blast
      then have "get m j = Some t" "svc_name t \<noteq> n" using g1 by auto
      then have "j = i" using get_id [OF Cons.prems(1)] hit(1) eq by metis
      with \<open>get m j = Some t\<close> \<open>svc_name t \<noteq> n\<close> hit(1,2) show False by simp
    qed
    moreover have "set rs = {t. (\<exists>j. get m j = Some t) \<and> svc_name t \<in> set (n # ns)}"
    proof (rule set_eqI)
      fix t
      have "t \<in> set rs1 \<longleftrightarrow> (\<exists>j. get m j = Some t) \<and> svc_name t \<noteq> n \<and> svc_name t \<in> set ns"
        using ih g1 by auto
      moreover have "svc_name t = n \<Longrightarrow> (\<exists>j. get m j = Some t) \<longleftrightarrow> t = s" using own by blast
      ultimately show "t \<in> set rs \<longleftrightarrow> t \<in> {t. (\<exists>j. get m j = Some t) \<and> svc_name t \<in> set (n # ns)}"
        using \<open>rs = s # rs1\<close> hit(1,2) by auto
    qed
    moreover have "get m' j = Some t \<longleftrightarrow> get m j = Some t \<and> svc_name t \<notin> set (n # ns)" for j t
      using ih g1 by auto
    ultimately show ?thesis using ih by auto
  next
    case miss
    have none: "svc_name t \<noteq> n" if "get m j = Some t" for j t
      using miss(1) names [OF Cons.prems(1), of n] that by blast
    have "r = None" "m1 = m" using miss(2) d by auto
    then show ?thesis using ih rs none by auto
  qed
qed simp

end

text \<open>Both maps have the same services, each under its own identifier and name.\<close>

definition service_map_wf :: "ServiceMap \<Rightarrow> bool" where
  "service_map_wf m \<longleftrightarrow> hm_wf (sm_id m) \<and> hm_wf (sm_name m)
     \<and> (\<forall>i s. hm_get (sm_id m) i = Some s \<longrightarrow> svc_id s = i)
     \<and> (\<forall>n i. hm_get (sm_name m) n = Some i \<longleftrightarrow> (\<exists>s. hm_get (sm_id m) i = Some s \<and> svc_name s = n))"

lemma service_map_wf_default: "service_map_wf service_map_default"
  by (simp add: service_map_wf_def service_map_default_def hm_wf_def)

lemma service_map_insert_wf:
  assumes "service_map_wf m" "hm_get (sm_name m) (svc_name s) = None" "hm_get (sm_id m) (svc_id s) = None"
  shows "\<exists>m'. service_map_insert s m = Some m' \<and> service_map_wf m'
    \<and> service_map_get_by_id m' = (service_map_get_by_id m)(svc_id s \<mapsto> s)"
proof -
  have "svc_name t \<noteq> svc_name s" if "hm_get (sm_id m) i = Some t" for i t
    using assms that unfolding service_map_wf_def by (metis option.distinct(1))
  then show ?thesis using assms
    by (auto simp: service_map_insert_def service_map_wf_def service_map_get_by_id_def hm_get_insert
        hm_wf_insert fun_eq_iff Let_def)
qed

lemma service_map_remove_wf:
  assumes "service_map_wf m" "hm_get (sm_id m) i = Some s"
  shows "fst (service_map_remove_by_name (svc_name s) m) = Some s
    \<and> service_map_wf (snd (service_map_remove_by_name (svc_name s) m))
    \<and> service_map_get_by_id (snd (service_map_remove_by_name (svc_name s) m)) = (service_map_get_by_id m)(i := None)"
proof -
  have n: "hm_get (sm_name m) (svc_name s) = Some i" using assms by (auto simp: service_map_wf_def)
  have "hm_get (sm_name m) n' = Some i \<longleftrightarrow> n' = svc_name s" for n' using assms n by (auto simp: service_map_wf_def)
  moreover have "service_map_remove_by_name (svc_name s) m = (Some s,
      m \<lparr> sm_name := hm_remove (svc_name s) (sm_name m), sm_id := hm_remove i (sm_id m) \<rparr>)"
    by (simp add: service_map_remove_by_name_def n assms(2))
  moreover have "svc_name t \<noteq> svc_name s" if "hm_get (sm_id m) j = Some t" "j \<noteq> i" for j t
    using assms(1) n that unfolding service_map_wf_def by (metis option.inject)
  ultimately show ?thesis using assms
    by (auto simp: service_map_wf_def service_map_get_by_id_def hm_get_remove hm_wf_remove fun_eq_iff)
qed

interpretation svcs: service_registry service_map_wf service_map_get_by_id service_map_contains_name
  service_map_insert service_map_remove_by_name
proof
  fix m :: ServiceMap and i j :: u32 and s t :: Service and n :: string
  assume wf: "service_map_wf m"
  show "service_map_get_by_id m i = Some s \<Longrightarrow> svc_id s = i"
    using wf by (simp add: service_map_wf_def service_map_get_by_id_def)
  show "service_map_contains_name n m \<longleftrightarrow> (\<exists>i s. service_map_get_by_id m i = Some s \<and> svc_name s = n)"
    using wf by (auto simp: service_map_wf_def service_map_get_by_id_def service_map_contains_name_def hm_contains_def)
  show "service_map_get_by_id m i = Some s \<Longrightarrow> service_map_get_by_id m j = Some t \<Longrightarrow> svc_name s = svc_name t \<Longrightarrow> i = j"
  proof -
    assume a: "service_map_get_by_id m i = Some s" "service_map_get_by_id m j = Some t" "svc_name s = svc_name t"
    have "hm_get (sm_name m) (svc_name s) = Some i" "hm_get (sm_name m) (svc_name s) = Some j"
      using wf a by (simp_all add: service_map_wf_def service_map_get_by_id_def)
    then show "i = j" by simp
  qed
  show "\<not> service_map_contains_name (svc_name s) m \<Longrightarrow> service_map_get_by_id m (svc_id s) = None \<Longrightarrow>
      \<exists>m'. service_map_insert s m = Some m' \<and> service_map_wf m'
        \<and> service_map_get_by_id m' = (service_map_get_by_id m)(svc_id s \<mapsto> s)"
    using service_map_insert_wf [OF wf, of s]
    by (simp add: service_map_contains_name_def hm_contains_def service_map_get_by_id_def)
  show "service_map_contains_name (svc_name s) m \<or> service_map_get_by_id m (svc_id s) \<noteq> None \<Longrightarrow>
      service_map_insert s m = None"
    by (auto simp: service_map_insert_def service_map_contains_name_def hm_contains_def
        service_map_get_by_id_def Let_def)
  show "service_map_wf (snd (service_map_remove_by_name n m))"
  proof (cases "hm_get (sm_name m) n")
    case None
    then show ?thesis using wf by (simp add: service_map_remove_by_name_def)
  next
    case (Some k)
    then obtain u where "hm_get (sm_id m) k = Some u" "svc_name u = n" using wf by (auto simp: service_map_wf_def)
    then show ?thesis using service_map_remove_wf [OF wf] by blast
  qed
  show "service_map_get_by_id m i = Some s \<Longrightarrow> svc_name s = n \<Longrightarrow>
      fst (service_map_remove_by_name n m) = Some s
      \<and> service_map_get_by_id (snd (service_map_remove_by_name n m)) = (service_map_get_by_id m)(i := None)"
    using service_map_remove_wf [OF wf, of i s] by (auto simp: service_map_get_by_id_def)
  show "\<not> service_map_contains_name n m \<Longrightarrow> service_map_remove_by_name n m = (None, m)"
    by (simp add: service_map_contains_name_def hm_contains_def service_map_remove_by_name_def)
qed

lemma service_map_insert_all_eq: "service_map_insert_all ss = svcs.ins_all ss"
proof (induction ss)
  case (Cons s ss)
  show ?case by (rule ext) (simp add: Cons)
qed (simp add: fun_eq_iff)

lemma service_map_remove_all_eq: "service_map_remove_all ns m = svcs.del_all ns m"
  by (induction ns arbitrary: m) simp_all

lemma service_map_values_set:
  "service_map_wf m \<Longrightarrow> s \<in> set (service_map_values m) \<longleftrightarrow> (\<exists>i. service_map_get_by_id m i = Some s)"
  by (simp add: service_map_wf_def service_map_values_def service_map_get_by_id_def hm_values_iff)

text \<open>Inserting services into a map: it succeeds exactly when names and identifiers are
  distinct and new.\<close>

lemma service_map_insert_all_iff:
  assumes "service_map_wf m"
  shows "(\<exists>m'. service_map_insert_all ss m = Some m') \<longleftrightarrow>
      distinct (map svc_name ss) \<and> distinct (map svc_id ss)
      \<and> (\<forall>s \<in> set ss. \<not> service_map_contains_name (svc_name s) m \<and> \<not> service_map_contains_id (svc_id s) m)"
    and "service_map_insert_all ss m = Some m' \<Longrightarrow> service_map_wf m'
      \<and> (\<forall>i s. service_map_get_by_id m' i = Some s \<longleftrightarrow>
           (s \<in> set ss \<and> svc_id s = i) \<or> service_map_get_by_id m i = Some s)"
proof -
  have c: "\<not> service_map_contains_id i m \<longleftrightarrow> service_map_get_by_id m i = None" for i
    by (simp add: service_map_contains_id_def hm_contains_def service_map_get_by_id_def)
  show "(\<exists>m'. service_map_insert_all ss m = Some m') \<longleftrightarrow>
      distinct (map svc_name ss) \<and> distinct (map svc_id ss)
      \<and> (\<forall>s \<in> set ss. \<not> service_map_contains_name (svc_name s) m \<and> \<not> service_map_contains_id (svc_id s) m)"
    unfolding c service_map_insert_all_eq using svcs.ins_all_Some [OF assms] svcs.ins_all_ok [OF assms] by metis
  assume i: "service_map_insert_all ss m = Some m'"
  show "service_map_wf m' \<and> (\<forall>i s. service_map_get_by_id m' i = Some s \<longleftrightarrow>
           (s \<in> set ss \<and> svc_id s = i) \<or> service_map_get_by_id m i = Some s)"
    using svcs.ins_all_Some [OF assms] svcs.ins_all_ok [OF assms] i unfolding service_map_insert_all_eq
    by (metis option.inject)
qed

section \<open>Properties\<close>

text \<open>building a service map panics exactly when two services share a name or an identifier;
  otherwise looking up an identifier finds exactly the service that has it, and removing names
  returns the services of those names, once each, and keeps exactly the others.\<close>

theorem service_map_lifecycle:
  "((\<exists>m. service_map_from_iter ss = Some m) \<longleftrightarrow> distinct (map svc_name ss) \<and> distinct (map svc_id ss))
   \<and> (service_map_from_iter ss = Some m \<longrightarrow>
        (\<forall>i s. service_map_get_by_id m i = Some s \<longleftrightarrow> s \<in> set ss \<and> svc_id s = i)
        \<and> (case service_map_remove_all ns m of (rs, m') \<Rightarrow>
             set rs = {s \<in> set ss. svc_name s \<in> set ns} \<and> distinct (map svc_id rs)
             \<and> set (service_map_values m') = {s \<in> set ss. svc_name s \<notin> set ns}))"
proof (intro conjI impI)
  show "(\<exists>m. service_map_from_iter ss = Some m) \<longleftrightarrow> distinct (map svc_name ss) \<and> distinct (map svc_id ss)"
    unfolding service_map_from_iter_def service_map_insert_all_iff(1) [OF service_map_wf_default]
    by (simp add: service_map_default_def service_map_contains_name_def service_map_contains_id_def)
  assume "service_map_from_iter ss = Some m"
  then have m: "service_map_wf m" "\<forall>i s. service_map_get_by_id m i = Some s \<longleftrightarrow> s \<in> set ss \<and> svc_id s = i"
    using service_map_insert_all_iff(2) [OF service_map_wf_default, of ss m]
    by (auto simp: service_map_from_iter_def) (simp_all add: service_map_default_def service_map_get_by_id_def)
  then show "\<forall>i s. service_map_get_by_id m i = Some s \<longleftrightarrow> s \<in> set ss \<and> svc_id s = i" by blast
  obtain rs m' where d: "service_map_remove_all ns m = (rs, m')" by (cases "service_map_remove_all ns m")
  note del = svcs.del_all_ok [OF m(1) d [unfolded service_map_remove_all_eq]]
  then have "s \<in> set (service_map_values m') \<longleftrightarrow> s \<in> set ss \<and> svc_name s \<notin> set ns" for s
    using m(2) service_map_values_set [of m' s] by auto
  then show "case service_map_remove_all ns m of (rs, m') \<Rightarrow>
      set rs = {s \<in> set ss. svc_name s \<in> set ns} \<and> distinct (map svc_id rs)
      \<and> set (service_map_values m') = {s \<in> set ss. svc_name s \<notin> set ns}"
    using del m(2) d by auto
qed

definition demo_service :: "u32 \<Rightarrow> string \<Rightarrow> Service" where
  "demo_service i n = \<lparr> svc_id = i, svc_name = n, svc_schema = service_schema_new ''std_srvs/Empty'' \<rparr>"

theorem service_map_lifecycle_witness:
  "service_map_from_iter [demo_service 1 ''/a'', demo_service 2 ''/b''] =
     Some \<lparr> sm_id = [(1, demo_service 1 ''/a''), (2, demo_service 2 ''/b'')], sm_name = [(''/a'', 1), (''/b'', 2)] \<rparr>
   \<and> set (fst (service_map_remove_all [''/b'', ''/c'']
        \<lparr> sm_id = [(1, demo_service 1 ''/a''), (2, demo_service 2 ''/b'')], sm_name = [(''/a'', 1), (''/b'', 2)] \<rparr>))
     = {demo_service 2 ''/b''}"
proof -
  let ?m = "\<lparr> sm_id = [(1, demo_service 1 ''/a''), (2, demo_service 2 ''/b'')], sm_name = [(''/a'', 1), (''/b'', 2)] \<rparr>"
  have m: "service_map_from_iter [demo_service 1 ''/a'', demo_service 2 ''/b''] = Some ?m"
    by (simp add: service_map_from_iter_def service_map_insert_def service_map_default_def demo_service_def)
  let ?ss = "[demo_service 1 ''/a'', demo_service 2 ''/b'']"
  have "set (fst (service_map_remove_all [''/b'', ''/c''] ?m))
      = {s \<in> set ?ss. svc_name s \<in> set [''/b'', ''/c'']}"
    using service_map_lifecycle [of ?ss ?m "[''/b'', ''/c'']"] m by (simp only: case_prod_beta)
  moreover have "{s \<in> set ?ss. svc_name s \<in> set [''/b'', ''/c'']} = {demo_service 2 ''/b''}"
    by (auto simp: demo_service_def)
  ultimately show ?thesis using m by (simp only:)
qed

end
