(* ===== verification/Catalogue_Token.thy ===== *)
theory Catalogue_Token
  imports Services "HOL-Library.Multiset" "HOL-Library.List_Lexorder" "HOL-Library.Product_Lexorder"
begin

text \<open>
  The advertisement token, a fingerprint of the channels and services a server advertises
  (\<open>compute_advertisement_token\<close> of \<open>websocket/server.rs\<close>), and the query parameter by
  which a client offers it back (\<open>websocket/handshake.rs\<close>). The hash is computed on 64-bit
  words, as in the code.
\<close>

unbundle bit_operations_syntax

section \<open>The hash\<close>

definition OFFSET_BASIS_A :: u64 where "OFFSET_BASIS_A = 0xcbf29ce484222325"
definition OFFSET_BASIS_B :: u64 where "OFFSET_BASIS_B = 0x9e3779b97f4a7c15"
definition FNV_PRIME :: u64 where "FNV_PRIME = 0x00000100000001b3"

definition absorb_byte :: "u8 \<Rightarrow> u64 \<times> u64 \<Rightarrow> u64 \<times> u64" where
  "absorb_byte b = (\<lambda>(hash_a, hash_b).
     ((hash_a XOR ucast b) * FNV_PRIME, (hash_b XOR word_rotl 3 (ucast b)) * FNV_PRIME))"

definition absorb :: "u8 list \<Rightarrow> u64 \<times> u64 \<Rightarrow> u64 \<times> u64" where
  "absorb bytes h =
     (case fold absorb_byte bytes h of (hash_a, hash_b) \<Rightarrow>
        (hash_a XOR word_of_nat (length bytes), word_rotl 7 hash_b XOR word_of_nat (length bytes)))"

text \<open>The fields in the order in which they are absorbed. Strings are ordered by their bytes.\<close>

definition channel_fields :: "ChannelDescriptor \<Rightarrow> u8 list list" where
  "channel_fields ch =
     [u64_to_le_bytes (desc_id ch), as_bytes (desc_topic ch), as_bytes (desc_message_encoding ch)] @
     (case desc_schema ch of
        Some s \<Rightarrow> [as_bytes (schema_name s), as_bytes (schema_encoding s), schema_data s]
      | None \<Rightarrow> [])"

definition service_fields :: "string \<times> u32 \<Rightarrow> u8 list list" where
  "service_fields = (\<lambda>(name, i). [as_bytes name, u32_to_le_bytes i])"

definition service_sort_key :: "string \<times> u32 \<Rightarrow> nat list \<times> nat" where
  "service_sort_key = (\<lambda>(name, i). (map of_char name, unat i))"

definition token_fields :: "ChannelDescriptor list \<Rightarrow> (string \<times> u32) list \<Rightarrow> u8 list list" where
  "token_fields channels services =
     concat (map channel_fields (sort_key (\<lambda>ch. unat (desc_id ch)) channels)) @
     concat (map service_fields (sort_key service_sort_key services))"

definition hex_digit :: "nat \<Rightarrow> char" where
  "hex_digit n = ''0123456789abcdef'' ! n"

text \<open>The format \<open>016x\<close>.\<close>

definition hex16 :: "u64 \<Rightarrow> string" where
  "hex16 w = map (\<lambda>i. hex_digit (unat (drop_bit (4 * i) w AND 15))) (rev [0..<16])"

definition compute_advertisement_token :: "ChannelDescriptor list \<Rightarrow> (string \<times> u32) list \<Rightarrow> string" where
  "compute_advertisement_token channels services =
     (case fold absorb (token_fields channels services) (OFFSET_BASIS_A, OFFSET_BASIS_B) of
        (hash_a, hash_b) \<Rightarrow> hex16 hash_a @ hex16 hash_b)"

section \<open>The query parameter\<close>

definition ADVERTISEMENT_TOKEN_PARAM :: string where
  "ADVERTISEMENT_TOKEN_PARAM = ''advertisement_token''"

text \<open>\<open>str::split\<close> and \<open>str::split_once\<close> with a character.\<close>

fun split_char :: "char \<Rightarrow> string \<Rightarrow> string list" where
  "split_char c [] = [[]]"
| "split_char c (x # xs) =
     (if x = c then [] # split_char c xs
      else (case split_char c xs of [] \<Rightarrow> [[x]] | p # ps \<Rightarrow> (x # p) # ps))"

fun split_once :: "char \<Rightarrow> string \<Rightarrow> (string \<times> string) option" where
  "split_once c [] = None"
| "split_once c (x # xs) =
     (if x = c then Some ([], xs) else map_option (\<lambda>(k, v). (x # k, v)) (split_once c xs))"

fun find_map :: "('a \<Rightarrow> 'b option) \<Rightarrow> 'a list \<Rightarrow> 'b option" where
  "find_map f [] = None"
| "find_map f (x # xs) = (case f x of None \<Rightarrow> find_map f xs | Some y \<Rightarrow> Some y)"

definition parse_advertisement_token :: "string option \<Rightarrow> string option" where
  "parse_advertisement_token query = do {
     q \<leftarrow> query;
     find_map (\<lambda>pair.
       let (key, val) = (case split_once (CHR ''='') pair of Some kv \<Rightarrow> kv | None \<Rightarrow> (pair, [])) in
       if key = ADVERTISEMENT_TOKEN_PARAM then Some val else None)
       (split_char (CHR ''&'') q)
   }"

section \<open>Lemmas\<close>

text \<open>The prime is odd, so that multiplication by it can be undone.\<close>

lemma fnv_prime_inverse: "FNV_PRIME * 0xce965057aff6957b = 1"
  by (simp add: FNV_PRIME_def)

lemma mult_fnv_inject: "x * FNV_PRIME = y * FNV_PRIME \<longleftrightarrow> x = y"
proof
  assume "x * FNV_PRIME = y * FNV_PRIME"
  then have "x * (FNV_PRIME * 0xce965057aff6957b) = y * (FNV_PRIME * 0xce965057aff6957b)"
    by (simp only: mult.assoc [symmetric])
  then show "x = y" by (simp only: fnv_prime_inverse mult_1_right)
qed simp

lemma xor_inject: "x XOR z = y XOR z \<longleftrightarrow> x = (y :: 'a :: len word)"
  by (metis xor.assoc xor.right_neutral xor_self_eq)

lemma absorb_byte_a: "fst (absorb_byte b h) = (fst h XOR ucast b) * FNV_PRIME"
  by (cases h) (simp add: absorb_byte_def)

lemma fold_absorb_byte_inject:
  "fst (fold absorb_byte bs h) = fst (fold absorb_byte bs h') \<longleftrightarrow> fst h = fst h'"
  by (induction bs arbitrary: h h') (simp_all add: absorb_byte_a mult_fnv_inject xor_inject)

lemma absorb_a: "fst (absorb bs h) = fst (fold absorb_byte bs h) XOR word_of_nat (length bs)"
  by (simp add: absorb_def split: prod.split)

lemma fold_absorb_inject: "fst (fold absorb fs h) = fst (fold absorb fs h') \<longleftrightarrow> fst h = fst h'"
  by (induction fs arbitrary: h h') (simp_all add: absorb_a xor_inject fold_absorb_byte_inject)

lemma ucast_byte_inject: "(ucast (b :: u8) :: u64) = ucast b' \<longleftrightarrow> b = b'"
proof -
  have "uint (ucast c :: u64) = uint c" for c :: u8
    using uint_lt2p [of c] by (simp add: unsigned_ucast_eq take_bit_eq_mod)
  then show ?thesis by (metis word_uint_eq_iff)
qed

lemma absorb_one_byte:
  assumes "b \<noteq> b'"
  shows "fst (absorb (u @ b # v) h) \<noteq> fst (absorb (u @ b' # v) h)"
proof -
  have "fst (absorb_byte b k) \<noteq> fst (absorb_byte b' k)" for k
    using assms by (simp add: absorb_byte_a mult_fnv_inject)
      (metis ucast_byte_inject xor.commute xor_inject)
  then show ?thesis by (simp add: absorb_a xor_inject fold_absorb_byte_inject)
qed

lemma hex_digit_inject: "m < 16 \<Longrightarrow> n < 16 \<Longrightarrow> hex_digit m = hex_digit n \<longleftrightarrow> m = n"
proof -
  have "distinct ''0123456789abcdef''" by simp
  moreover assume "m < 16" "n < 16"
  ultimately show ?thesis unfolding hex_digit_def by (intro nth_eq_iff_index_eq) simp_all
qed

lemma nibble: "unat (drop_bit (4 * i) (w :: u64) AND 15) = unat w div 16 ^ i mod 16"
proof -
  have "unat (x AND 15) = unat x mod 16" for x :: u64
  proof -
    have "unat (x AND 15) = unat x AND mask 4" by (simp add: unsigned_and_eq mask_eq_exp_minus_1)
    then show ?thesis by (simp flip: take_bit_eq_mask add: take_bit_eq_mod)
  qed
  moreover have "unat (drop_bit n w) = unat w div 2 ^ n" for n
    using unsigned_less [of w, where ?'a = nat] by (simp only: unsigned_drop_bit_eq) (simp add: drop_bit_eq_div take_bit_eq_mod)
  ultimately show ?thesis by (simp add: power_mult)
qed

lemma digits_inject:
  "(\<forall>i < k. m div 16 ^ i mod 16 = n div 16 ^ i mod 16) \<Longrightarrow> m mod 16 ^ k = (n mod 16 ^ k :: nat)"
proof (induction k)
  case (Suc k)
  have "m mod 16 ^ Suc k = 16 ^ k * (m div 16 ^ k mod 16) + m mod 16 ^ k" for m :: nat
    unfolding power_Suc2 by (rule mod_mult2_eq)
  with Suc show ?case by simp
qed simp

lemma hex16_inject: "hex16 v = hex16 w \<longleftrightarrow> v = w"
proof
  assume h: "hex16 v = hex16 w"
  have "unat v div 16 ^ i mod 16 = unat w div 16 ^ i mod 16" if "i < 16" for i
    using h that by (simp add: hex16_def nibble hex_digit_inject)
  then have "unat v mod 16 ^ 16 = unat w mod 16 ^ 16" by (intro digits_inject) simp
  moreover have "unat x < 16 ^ 16" for x :: u64 using unsigned_less [of x] by simp
  ultimately show "v = w" by (simp add: word_unat_eq_iff)
qed simp

lemma length_hex16: "length (hex16 w) = 16"
  by (simp add: hex16_def)

lemma token_inject_a:
  "compute_advertisement_token cs ss = compute_advertisement_token cs' ss' \<Longrightarrow>
   fst (fold absorb (token_fields cs ss) (OFFSET_BASIS_A, OFFSET_BASIS_B)) =
   fst (fold absorb (token_fields cs' ss') (OFFSET_BASIS_A, OFFSET_BASIS_B))"
  by (simp add: compute_advertisement_token_def length_hex16 hex16_inject split: prod.splits)

lemma sort_key_mset:
  assumes "mset xs = mset ys" "inj_on f (set xs)"
  shows "sort_key f xs = sort_key f ys"
  using assms by (intro sort_key_inj_key_eq) simp_all

lemma service_sort_key_inj: "inj service_sort_key"
proof (rule injI)
  fix x y :: "string \<times> u32"
  assume "service_sort_key x = service_sort_key y"
  moreover have "map (of_char :: char \<Rightarrow> nat) a = map of_char b \<longleftrightarrow> a = b" for a b
    by (rule inj_map_eq_map) (simp add: inj_def)
  ultimately show "x = y"
    by (cases x; cases y) (simp add: service_sort_key_def word_unat_eq_iff)
qed

lemma split_char_not_Nil: "split_char c xs \<noteq> []"
  by (induction xs) (auto split: list.split)

lemma split_char_append:
  "c \<notin> set xs \<Longrightarrow> split_char c (xs @ c # ys) = xs # split_char c ys"
  "c \<notin> set xs \<Longrightarrow> split_char c xs = [xs]"
  by (induction xs) auto

lemma split_once_append: "c \<notin> set k \<Longrightarrow> split_once c (k @ c # v) = Some (k, v)"
  by (induction k) auto

lemma split_once_None: "c \<notin> set k \<Longrightarrow> split_once c k = None"
  by (induction k) auto

lemma find_map_append: "find_map f (xs @ ys) = (case find_map f xs of None \<Rightarrow> find_map f ys | Some y \<Rightarrow> Some y)"
  by (induction xs) (auto split: option.split)

section \<open>Properties\<close>

text \<open>The token depends only on the catalogue and not on the order in which the channels and
  services are listed: listings of the same channels, with distinct identifiers, and the same
  services give the same token.\<close>

theorem token_order_irrelevant:
  assumes "mset cs = mset cs'" "mset ss = mset ss'" "distinct (map desc_id cs)"
  shows "compute_advertisement_token cs ss = compute_advertisement_token cs' ss'"
proof -
  have "inj_on (\<lambda>ch. unat (desc_id ch)) (set cs)"
    using assms(3) by (auto simp: distinct_map inj_on_def word_unat_eq_iff)
  moreover have "inj_on service_sort_key (set ss)" using service_sort_key_inj by (rule inj_on_subset) simp
  ultimately show ?thesis
    using assms by (simp add: compute_advertisement_token_def token_fields_def sort_key_mset [of cs cs'] sort_key_mset [of ss ss'])
qed

definition demo_channel :: "u64 \<Rightarrow> string \<Rightarrow> Schema option \<Rightarrow> ChannelDescriptor" where
  "demo_channel i t s = channel_descriptor_new i t ''json'' [] s"

theorem token_order_irrelevant_witness:
  "compute_advertisement_token [demo_channel 1 ''/a'' None, demo_channel 2 ''/b'' None] [(''/s'', 4), (''/r'', 9)]
   = compute_advertisement_token [demo_channel 2 ''/b'' None, demo_channel 1 ''/a'' None] [(''/r'', 9), (''/s'', 4)]"
  by (rule token_order_irrelevant) (simp_all add: demo_channel_def channel_descriptor_new_def add_mset_commute)

text \<open>The token detects every change of a single byte: two catalogues whose absorbed fields
  are the same but for one byte of one field never have the same token.\<close>

theorem token_detects_byte_change:
  assumes "token_fields cs ss = pre @ (u @ b # v) # post" "token_fields cs' ss' = pre @ (u @ b' # v) # post"
    "b \<noteq> b'"
  shows "compute_advertisement_token cs ss \<noteq> compute_advertisement_token cs' ss'"
proof
  assume "compute_advertisement_token cs ss = compute_advertisement_token cs' ss'"
  from token_inject_a [OF this] show False
    using absorb_one_byte [OF assms(3)] unfolding assms(1,2) by (simp add: fold_absorb_inject)
qed

theorem token_detects_byte_change_witness:
  "compute_advertisement_token [] [(''/get'', 3)] \<noteq> compute_advertisement_token [] [(''/get'', 7)]"
proof (rule token_detects_byte_change)
  show "token_fields [] [(''/get'', 3)] = [as_bytes ''/get''] @ ([] @ 3 # [0, 0, 0]) # []"
    by code_simp
  show "token_fields [] [(''/get'', 7)] = [as_bytes ''/get''] @ ([] @ 7 # [0, 0, 0]) # []"
    by code_simp
qed simp

definition aliased_schema :: Schema where
  "aliased_schema = \<lparr> schema_name = map char_of_byte (u64_to_le_bytes 2), schema_encoding = ''/b'',
     schema_data = as_bytes ''json'' \<rparr>"

text \<open>the fields are not marked by the part of the catalogue they belong to, so different
  catalogues can have the same token: a channel with a schema and two channels without one.\<close>

theorem token_not_injective:
  "compute_advertisement_token [demo_channel 1 ''/a'' (Some aliased_schema)] ss
   = compute_advertisement_token [demo_channel 1 ''/a'' None, demo_channel 2 ''/b'' None] ss
   \<and> is_str (schema_name aliased_schema)"
proof
  have "as_bytes (map char_of_byte bs) = bs" for bs
    by (induction bs) (simp_all add: as_bytes_def byte_of_char_of_byte)
  then show "compute_advertisement_token [demo_channel 1 ''/a'' (Some aliased_schema)] ss
   = compute_advertisement_token [demo_channel 1 ''/a'' None, demo_channel 2 ''/b'' None] ss"
    by (simp add: compute_advertisement_token_def token_fields_def channel_fields_def demo_channel_def
        channel_descriptor_new_def aliased_schema_def)
  show "is_str (schema_name aliased_schema)"
    by code_simp
qed

text \<open>A token that does not contain the separator of pairs is recovered from any query string
  that carries it, whatever pairs with other keys precede it and whatever pairs follow; the
  valueless form yields the empty token.\<close>

theorem token_query_parsed:
  assumes "CHR ''&'' \<notin> set tok" "tail = [] \<or> hd tail = CHR ''&''"
    "\<forall>p \<in> set others. CHR ''&'' \<notin> set p
       \<and> (case split_once (CHR ''='') p of Some (k, v) \<Rightarrow> k | None \<Rightarrow> p) \<noteq> ''advertisement_token''"
  shows "parse_advertisement_token (Some (concat (map (\<lambda>p. p @ ''&'') others) @ ''advertisement_token='' @ tok @ tail))
      = Some tok
    \<and> parse_advertisement_token (Some (concat (map (\<lambda>p. p @ ''&'') others) @ ''advertisement_token'')) = Some []"
proof -
  let ?f = "\<lambda>pair. let (key, val) = (case split_once (CHR ''='') pair of Some kv \<Rightarrow> kv | None \<Rightarrow> (pair, [])) in
       if key = ADVERTISEMENT_TOKEN_PARAM then Some val else None"
  have skip: "find_map ?f (split_char (CHR ''&'') (concat (map (\<lambda>p. p @ ''&'') others) @ q)) =
      find_map ?f (split_char (CHR ''&'') q)" for q
    using assms(3)
  proof (induction others)
    case (Cons p others)
    then have "?f p = None" by (auto simp: ADVERTISEMENT_TOKEN_PARAM_def split: option.splits)
    then show ?case using Cons by (simp add: split_char_append)
  qed simp
  have hit: "?f (''advertisement_token'' @ CHR ''='' # t) = Some t" for t
    by (subst split_once_append) (simp_all add: ADVERTISEMENT_TOKEN_PARAM_def)
  have amp: "CHR ''&'' \<notin> set (''advertisement_token'' @ CHR ''='' # tok)" using assms(1) by simp
  have "find_map ?f (split_char (CHR ''&'') ((''advertisement_token'' @ CHR ''='' # tok) @ tail)) = Some tok"
  proof (cases tail)
    case Nil
    then show ?thesis by (simp only: append_Nil2 split_char_append(2) [OF amp] find_map.simps hit option.simps)
  next
    case (Cons c cs)
    then have "tail = CHR ''&'' # cs" using assms(2) by simp
    then show ?thesis by (simp only: split_char_append(1) [OF amp] find_map.simps hit option.simps)
  qed
  moreover have "find_map ?f (split_char (CHR ''&'') ''advertisement_token'') = Some []"
    by (simp add: ADVERTISEMENT_TOKEN_PARAM_def)
  ultimately show ?thesis
    unfolding parse_advertisement_token_def bind.bind_lunit skip by simp
qed

theorem token_query_parsed_witness:
  "parse_advertisement_token (Some ''foo=1&advertisement_token=abc123&bar=2'') = Some ''abc123''"
  using token_query_parsed [of "''abc123''" "''&bar=2''" "[''foo=1'']"] by simp

end
