(* ===== verification/Connected_Client.thy ===== *)
theory Connected_Client
  imports Context Catalogue_Token
begin

text \<open>
  A client session of the websocket server, as far as it acts on its own state
  (\<open>websocket/connected_client.rs\<close>, \<open>websocket/client_channel.rs\<close>): the two outgoing
  queues, the advertised channels, the subscriptions, and the trait \<open>Sink\<close> that the context
  calls. The handlers that also act on the server or the context are in \<open>Client_Handlers\<close>.

  The flume queues, the \<open>BiHashMap\<close> of the bimap crate, serde and the formatting of errors
  are parameters, collected in \<open>ws_env\<close>. An \<open>Arc<RawChannel>\<close> in the session's cache is
  only read for its immutable descriptor, and is that descriptor here. The semaphores are the
  record of \<open>Sync_Primitives\<close>.
\<close>

section \<open>Parameters\<close>

type_synonym bimap = "(ChannelId \<times> u32) list"

record bimap_ops =
  insert_no_overwrite :: "ChannelId \<Rightarrow> u32 \<Rightarrow> bimap \<Rightarrow> bool \<times> bimap"
  remove_by_right :: "u32 \<Rightarrow> bimap \<Rightarrow> (ChannelId \<times> u32) option \<times> bimap"
  get_by_left :: "bimap \<Rightarrow> ChannelId \<Rightarrow> u32 option"
  contains_left :: "bimap \<Rightarrow> ChannelId \<Rightarrow> bool"
  contains_right :: "bimap \<Rightarrow> u32 \<Rightarrow> bool"
  left_values :: "bimap \<Rightarrow> ChannelId list"

text \<open>A bimap is a one-to-one relation; the order of its iteration is not specified.\<close>

definition bimap_wf :: "bimap \<Rightarrow> bool" where
  "bimap_wf m \<longleftrightarrow> distinct (map fst m) \<and> distinct (map snd m)"

definition bimap_query_law :: "bimap_ops \<Rightarrow> bimap \<Rightarrow> bool" where
  "bimap_query_law M m \<longleftrightarrow>
     (\<forall>l. get_by_left M m l = map_of m l \<and> (contains_left M m l \<longleftrightarrow> l \<in> fst ` set m))
     \<and> (\<forall>r. contains_right M m r \<longleftrightarrow> r \<in> snd ` set m)
     \<and> set (left_values M m) = fst ` set m"

definition bimap_insert_law :: "bimap_ops \<Rightarrow> bimap \<Rightarrow> bool" where
  "bimap_insert_law M m \<longleftrightarrow> (\<forall>l r ok m'. insert_no_overwrite M l r m = (ok, m') \<longrightarrow>
     (ok \<longleftrightarrow> l \<notin> fst ` set m \<and> r \<notin> snd ` set m)
     \<and> bimap_wf m' \<and> set m' = (if ok then insert (l, r) (set m) else set m))"

definition bimap_remove_law :: "bimap_ops \<Rightarrow> bimap \<Rightarrow> bool" where
  "bimap_remove_law M m \<longleftrightarrow> (\<forall>r p m'. remove_by_right M r m = (p, m') \<longrightarrow>
     bimap_wf m' \<and> set m' = {x \<in> set m. snd x \<noteq> r}
     \<and> (case p of None \<Rightarrow> r \<notin> snd ` set m | Some x \<Rightarrow> x \<in> set m \<and> snd x = r))"

definition bimap_laws :: "bimap_ops \<Rightarrow> bool" where
  "bimap_laws M \<longleftrightarrow>
     (\<forall>m. bimap_wf m \<longrightarrow> bimap_query_law M m \<and> bimap_insert_law M m \<and> bimap_remove_law M m)"

definition std_bimap :: bimap_ops where
  "std_bimap = \<lparr>
     insert_no_overwrite = (\<lambda>l r m. if l \<in> fst ` set m \<or> r \<in> snd ` set m then (False, m) else (True, m @ [(l, r)])),
     remove_by_right = (\<lambda>r m. (find (\<lambda>x. snd x = r) m, filter (\<lambda>x. snd x \<noteq> r) m)),
     get_by_left = map_of,
     contains_left = (\<lambda>m l. l \<in> fst ` set m),
     contains_right = (\<lambda>m r. r \<in> snd ` set m),
     left_values = map fst \<rparr>"

text \<open>\<open>env_filter\<close> is the \<open>SinkChannelFilter\<close> of the user, \<open>env_display\<close> the \<open>Display\<close>
  implementation that \<open>thiserror\<close> derives for the parse error.\<close>

record ws_env =
  env_bytes :: bytes_ops
  env_base64 :: base64_ops
  env_to_json :: "ServerMessageData_v1 ServerMessage \<Rightarrow> string"
  env_from_json :: "string \<Rightarrow> (ClientMessage_v1, ParseError) result"
  env_flume :: "ws_message flume"
  env_bimap :: bimap_ops
  env_display :: "ParseError \<Rightarrow> string"
  env_filter :: "(ChannelDescriptor \<Rightarrow> bool) option"

text \<open>What is assumed of the parameters.\<close>

definition env_laws :: "ws_env \<Rightarrow> bool" where
  "env_laws E \<longleftrightarrow> flume_laws (env_flume E) \<and> bimap_laws (env_bimap E) \<and> bytes_laws (env_bytes E)"

section \<open>State\<close>

definition MAX_SEND_RETRIES :: nat where "MAX_SEND_RETRIES = 10"
definition ADVERTISE_CHANNEL_BATCH_SIZE :: nat where "ADVERTISE_CHANNEL_BATCH_SIZE = 100"
definition DEFAULT_SERVICE_CALLS_PER_CLIENT :: nat where "DEFAULT_SERVICE_CALLS_PER_CLIENT = 32"
definition DEFAULT_FETCH_ASSET_CALLS_PER_CLIENT :: nat where "DEFAULT_FETCH_ASSET_CALLS_PER_CLIENT = 32"

datatype ShutdownReason = ClientDisconnected | ServerStopped | ControlPlaneQueueFull

record ClientChannel =
  cch_id :: u32
  cch_topic :: string
  cch_encoding :: string
  cch_schema_name :: string
  cch_schema_encoding :: "string option"
  cch_schema :: "u8 list option"

definition client_channel_try_from :: "base64_ops \<Rightarrow> ClientAdChannel \<Rightarrow> (ClientChannel, SchemaDecodeError) result" where
  "client_channel_try_from B ch =
     (let schema = (case client_channel_decode_schema B ch of
            Inr s \<Rightarrow> Inr (Some s)
          | Inl MissingSchemaDec \<Rightarrow> Inr None
          | Inl e \<Rightarrow> Inl e) in
      case schema of
        Inl e \<Rightarrow> Inl e
      | Inr s \<Rightarrow> Inr \<lparr> cch_id = cac_id ch, cch_topic = cac_topic ch, cch_encoding = cac_encoding ch,
                       cch_schema_name = cac_schema_name ch, cch_schema_encoding = cac_schema_encoding ch,
                       cch_schema = s \<rparr>)"

text \<open>\<open>cc_shutdown\<close> is the reason that was sent on the one-shot channel, whose sender is taken
  by the first call.\<close>

record ConnectedClient =
  cc_id :: u32
  cc_sink_id :: SinkId
  cc_channels :: "(ChannelId, ChannelDescriptor) hash_map"
  cc_backlog :: nat
  cc_data_plane :: "ws_message list"
  cc_control_plane :: "ws_message list"
  cc_service_call_sem :: Semaphore
  cc_fetch_asset_sem :: Semaphore
  cc_subscriptions :: bimap
  cc_advertised_channels :: "(u32, ClientChannel) hash_map"
  cc_shutdown :: "ShutdownReason option"
  cc_suppress :: bool
  cc_token_push :: bool

definition connected_client_new :: "u32 \<Rightarrow> SinkId \<Rightarrow> nat \<Rightarrow> ConnectedClient" where
  "connected_client_new i k backlog = \<lparr> cc_id = i, cc_sink_id = k, cc_channels = [], cc_backlog = backlog,
     cc_data_plane = [], cc_control_plane = [],
     cc_service_call_sem = semaphore_new DEFAULT_SERVICE_CALLS_PER_CLIENT,
     cc_fetch_asset_sem = semaphore_new DEFAULT_FETCH_ASSET_CALLS_PER_CLIENT,
     cc_subscriptions = [], cc_advertised_channels = [], cc_shutdown = None,
     cc_suppress = False, cc_token_push = False \<rparr>"

definition suppress_initial_advertisement :: "ConnectedClient \<Rightarrow> ConnectedClient" where
  "suppress_initial_advertisement c = c \<lparr> cc_suppress := True \<rparr>"

definition is_initial_advertisement_suppressed :: "ConnectedClient \<Rightarrow> bool" where
  "is_initial_advertisement_suppressed c \<longleftrightarrow> cc_suppress c"

definition enable_advertisement_token_push :: "ConnectedClient \<Rightarrow> ConnectedClient" where
  "enable_advertisement_token_push c = c \<lparr> cc_token_push := True \<rparr>"

section \<open>Sending\<close>

definition ws :: "ws_env \<Rightarrow> ServerMessageData_v1 ServerMessage \<Rightarrow> ws_message" where
  "ws E m = server_message_to_ws (env_bytes E) (env_to_json E) m"

definition client_shutdown :: "ShutdownReason \<Rightarrow> ConnectedClient \<Rightarrow> ConnectedClient" where
  "client_shutdown reason c =
     (case cc_shutdown c of None \<Rightarrow> c \<lparr> cc_shutdown := Some reason \<rparr> | Some _ \<Rightarrow> c)"

definition send_control_ws :: "ws_env \<Rightarrow> ws_message \<Rightarrow> ConnectedClient \<Rightarrow> bool \<times> ConnectedClient" where
  "send_control_ws E m c =
     (case try_send (env_flume E) (cc_backlog c) (cc_control_plane c) m of
        Inl (Full _) \<Rightarrow> (False, client_shutdown ControlPlaneQueueFull c)
      | Inl (Disconnected _) \<Rightarrow> (True, c)
      | Inr q \<Rightarrow> (True, c \<lparr> cc_control_plane := q \<rparr>))"

definition send_control_msg ::
  "ws_env \<Rightarrow> ServerMessageData_v1 ServerMessage \<Rightarrow> ConnectedClient \<Rightarrow> bool \<times> ConnectedClient" where
  "send_control_msg E m c = send_control_ws E (ws E m) c"

text \<open>\<open>now\<close> and the throttler belong to the log line of \<open>send_lossy\<close>.\<close>

definition send_data_lossy ::
  "ws_env \<Rightarrow> nat \<Rightarrow> ServerMessageData_v1 ServerMessage \<Rightarrow> nat \<Rightarrow> ConnectedClient \<Rightarrow> Throttler
    \<Rightarrow> (SendLossyResult \<times> ConnectedClient \<times> Throttler) may_panic" where
  "send_data_lossy E now m retries c t = do {
     (r, q, t') \<leftarrow> send_lossy (env_flume E) now (cc_backlog c) (ws E m) retries (cc_data_plane c) t;
     Some (r, c \<lparr> cc_data_plane := q \<rparr>, t')
   }"

definition client_send_status ::
  "ws_env \<Rightarrow> nat \<Rightarrow> Status \<Rightarrow> ConnectedClient \<Rightarrow> Throttler \<Rightarrow> (ConnectedClient \<times> Throttler) may_panic" where
  "client_send_status E now st c t =
     (case st_level st of
        LevelInfo \<Rightarrow> do {
          (r, c', t') \<leftarrow> send_data_lossy E now (SStatus st) MAX_SEND_RETRIES c t;
          Some (c', t')
        }
      | _ \<Rightarrow> Some (snd (send_control_msg E (SStatus st) c), t))"

text \<open>Errors and warnings take the second branch.\<close>

definition send_error :: "ws_env \<Rightarrow> string \<Rightarrow> ConnectedClient \<Rightarrow> ConnectedClient" where
  "send_error E m c = snd (send_control_msg E (SStatus (status_new LevelError m)) c)"

definition send_warning :: "ws_env \<Rightarrow> string \<Rightarrow> ConnectedClient \<Rightarrow> ConnectedClient" where
  "send_warning E m c = snd (send_control_msg E (SStatus (status_new LevelWarning m)) c)"

definition send_service_call_failure :: "ws_env \<Rightarrow> u32 \<Rightarrow> u32 \<Rightarrow> string \<Rightarrow> ConnectedClient \<Rightarrow> ConnectedClient" where
  "send_service_call_failure E service_id call_id m c =
     snd (send_control_msg E (SServiceCallFailure
       \<lparr> scf_service_id = service_id, scf_call_id = call_id, scf_message = m \<rparr>) c)"

definition send_asset_error :: "ws_env \<Rightarrow> string \<Rightarrow> u32 \<Rightarrow> ConnectedClient \<Rightarrow> ConnectedClient" where
  "send_asset_error E err request_id c =
     snd (send_control_msg E (SFetchAssetResponse (fetch_asset_error_message request_id err)) c)"

definition send_asset_response :: "ws_env \<Rightarrow> u8 list \<Rightarrow> u32 \<Rightarrow> ConnectedClient \<Rightarrow> ConnectedClient" where
  "send_asset_response E response request_id c =
     snd (send_control_msg E (SFetchAssetResponse (fetch_asset_data request_id response)) c)"

definition update_parameters :: "ws_env \<Rightarrow> Parameter list \<Rightarrow> string option \<Rightarrow> ConnectedClient \<Rightarrow> ConnectedClient" where
  "update_parameters E parameters request_id c =
     (let msg = parameter_values_new (filter (\<lambda>p. param_value p \<noteq> None) parameters);
          msg = (case request_id of Some i \<Rightarrow> parameter_values_with_id i msg | None \<Rightarrow> msg) in
      snd (send_control_msg E (SParameterValues msg) c))"

section \<open>The advertisement token\<close>

definition token_message :: "string \<Rightarrow> string" where
  "token_message token =
     [CHR 0x7B, CHR 0x22] @ ''op'' @ [CHR 0x22] @ '':'' @ [CHR 0x22] @ ''advertisementToken'' @ [CHR 0x22] @ '',''
     @ [CHR 0x22] @ ''token'' @ [CHR 0x22] @ '':'' @ [CHR 0x22] @ token @ [CHR 0x22, CHR 0x7D]"

definition send_advertisement_token :: "ws_env \<Rightarrow> string \<Rightarrow> ConnectedClient \<Rightarrow> ConnectedClient" where
  "send_advertisement_token E token c =
     (if \<not> cc_token_push c then c else snd (send_control_ws E (WsText (token_message token)) c))"

text \<open>\<open>service_ids\<close> is \<open>None\<close> when the server is gone.\<close>

definition push_advertisement_token :: "ws_env \<Rightarrow> (string \<times> u32) list option \<Rightarrow> ConnectedClient \<Rightarrow> ConnectedClient" where
  "push_advertisement_token E service_ids c =
     (if \<not> cc_token_push c then c
      else case service_ids of
        None \<Rightarrow> c
      | Some ids \<Rightarrow>
          send_advertisement_token E (compute_advertisement_token (hm_values (cc_channels c)) ids) c)"

section \<open>Channels of the server\<close>

definition advertise_channels :: "ws_env \<Rightarrow> ChannelDescriptor list \<Rightarrow> ConnectedClient \<Rightarrow> ConnectedClient" where
  "advertise_channels E chans c =
     (let message = advertise_channels_msg (env_base64 E) chans in
      if message = [] then c
      else (case send_control_msg E (SAdvertise message) c of (ok, c') \<Rightarrow>
        if ok then
          let advertised_ids = map sac_id message in
          c' \<lparr> cc_channels := fold (\<lambda>ch m. if desc_id ch \<in> set advertised_ids then hm_insert (desc_id ch) ch m else m)
                 chans (cc_channels c') \<rparr>
        else c'))"

definition unadvertise_channel :: "ws_env \<Rightarrow> ChannelId \<Rightarrow> ConnectedClient \<Rightarrow> ConnectedClient" where
  "unadvertise_channel E i c =
     (if hm_get (cc_channels c) i = None then c
      else snd (send_control_msg E (SUnadvertise [i]) (c \<lparr> cc_channels := hm_remove i (cc_channels c) \<rparr>)))"

definition client_add_channels ::
  "ws_env \<Rightarrow> (string \<times> u32) list option \<Rightarrow> ChannelDescriptor list \<Rightarrow> ConnectedClient \<Rightarrow> ConnectedClient" where
  "client_add_channels E service_ids chans c =
     (let filtered = filter (\<lambda>ch. case env_filter E of None \<Rightarrow> True | Some f \<Rightarrow> f ch) chans in
      if cc_suppress c then
        c \<lparr> cc_suppress := False,
             cc_channels := fold (\<lambda>ch m. hm_insert (desc_id ch) ch m) filtered (cc_channels c) \<rparr>
      else push_advertisement_token E service_ids
        (fold (advertise_channels E) (chunks ADVERTISE_CHANNEL_BATCH_SIZE filtered) c))"

definition client_remove_channel ::
  "ws_env \<Rightarrow> (string \<times> u32) list option \<Rightarrow> ChannelId \<Rightarrow> ConnectedClient \<Rightarrow> ConnectedClient" where
  "client_remove_channel E service_ids i c =
     push_advertisement_token E service_ids (unadvertise_channel E i c)"

definition client_log ::
  "ws_env \<Rightarrow> nat \<Rightarrow> ChannelId \<Rightarrow> u8 list \<Rightarrow> Metadata \<Rightarrow> ConnectedClient \<Rightarrow> Throttler
    \<Rightarrow> (ConnectedClient \<times> Throttler) may_panic" where
  "client_log E now i msg meta c t =
     (case get_by_left (env_bimap E) (cc_subscriptions c) i of
        None \<Rightarrow> Some (c, t)
      | Some subscription_id \<Rightarrow> do {
          (r, c', t') \<leftarrow> send_data_lossy E now (SMessageData \<lparr> smd_subscription_id = subscription_id,
              smd_log_time = log_time meta, smd_data = msg \<rparr>) MAX_SEND_RETRIES c t;
          Some (c', t')
        })"

section \<open>The loops over client requests\<close>

text \<open>\<open>Display\<close> of an unsigned integer.\<close>

function show_nat :: "nat \<Rightarrow> string" where
  "show_nat n = (if n < 10 then [char_of (48 + n)] else show_nat (n div 10) @ [char_of (48 + n mod 10)])"
  by pat_completeness auto
termination
  by (relation "measure id") auto

declare show_nat.simps [simp del]

text \<open>The first loop of \<open>on_subscribe\<close>: subscriptions of unknown channels are taken out with
  \<open>swap_remove\<close>.\<close>

function prune_subscriptions ::
  "ws_env \<Rightarrow> nat \<Rightarrow> SubscriptionV1 list \<Rightarrow> ChannelDescriptor list \<Rightarrow> ConnectedClient
    \<Rightarrow> (SubscriptionV1 list \<times> ChannelDescriptor list \<times> ConnectedClient) may_panic" where
  "prune_subscriptions E i subscriptions subscribed_channels c =
     (if i < length subscriptions then
        (case hm_get (cc_channels c) (sv1_channel_id (subscriptions ! i)) of
           None \<Rightarrow>
             (case swap_remove subscriptions i of
                None \<Rightarrow> None
              | Some rest \<Rightarrow> prune_subscriptions E i rest subscribed_channels
                  (send_error E (''Unknown channel ID: '' @ show_nat (unat (sv1_channel_id (subscriptions ! i)))) c))
         | Some channel \<Rightarrow> prune_subscriptions E (i + 1) subscriptions (subscribed_channels @ [channel]) c)
      else Some (subscriptions, subscribed_channels, c))"
  by pat_completeness auto
termination
  by (relation "measure (\<lambda>(E, i, subscriptions, _, _). length subscriptions - i)")
    (auto dest: swap_remove_length)

declare prune_subscriptions.simps [simp del]

text \<open>The loop of \<open>on_unadvertise\<close>.\<close>

function unadvertise_loop ::
  "ws_env \<Rightarrow> nat \<Rightarrow> u32 list \<Rightarrow> ClientChannel list \<Rightarrow> ConnectedClient
    \<Rightarrow> (ClientChannel list \<times> ConnectedClient) may_panic" where
  "unadvertise_loop E i channel_ids client_channels c =
     (if i < length channel_ids then
        let cid = channel_ids ! i in
        (case hm_get (cc_advertised_channels c) cid of
           None \<Rightarrow>
             (case swap_remove channel_ids i of
                None \<Rightarrow> None
              | Some rest \<Rightarrow> unadvertise_loop E i rest client_channels
                  (send_warning E (''Client is not advertising channel: '' @ show_nat (unat cid)
                     @ ''; ignoring unadvertisement'') c))
         | Some channel \<Rightarrow> unadvertise_loop E (i + 1) channel_ids (client_channels @ [channel])
             (c \<lparr> cc_advertised_channels := hm_remove cid (cc_advertised_channels c) \<rparr>))
      else Some (client_channels, c))"
  by pat_completeness auto
termination
  by (relation "measure (\<lambda>(E, i, channel_ids, _, _). length channel_ids - i)")
    (auto dest: swap_remove_length)

declare unadvertise_loop.simps [simp del]

text \<open>The loop of \<open>on_unsubscribe\<close>.\<close>

fun unsubscribe_loop :: "ws_env \<Rightarrow> u32 list \<Rightarrow> ChannelId list \<Rightarrow> ConnectedClient \<Rightarrow> ChannelId list \<times> ConnectedClient" where
  "unsubscribe_loop E [] acc c = (acc, c)"
| "unsubscribe_loop E (subscription_id # rest) acc c =
     (case remove_by_right (env_bimap E) subscription_id (cc_subscriptions c) of
        (Some (channel_id, _), m) \<Rightarrow> unsubscribe_loop E rest (acc @ [channel_id]) (c \<lparr> cc_subscriptions := m \<rparr>)
      | (None, m) \<Rightarrow> unsubscribe_loop E rest acc (c \<lparr> cc_subscriptions := m \<rparr>))"

text \<open>The insertion of one subscription by \<open>on_subscribe\<close>; the boolean says whether it is new,
  and \<open>None\<close> is the failed assertion.\<close>

definition insert_subscription :: "ws_env \<Rightarrow> SubscriptionV1 \<Rightarrow> ConnectedClient \<Rightarrow> (bool \<times> ConnectedClient) may_panic" where
  "insert_subscription E s c =
     (case insert_no_overwrite (env_bimap E) (sv1_channel_id s) (sv1_id s) (cc_subscriptions c) of
        (True, m) \<Rightarrow> Some (True, c \<lparr> cc_subscriptions := m \<rparr>)
      | (False, m) \<Rightarrow>
          let c' = c \<lparr> cc_subscriptions := m \<rparr> in
          if contains_left (env_bimap E) m (sv1_channel_id s) then
            Some (False, send_warning E (''Client is already subscribed to channel: ''
              @ show_nat (unat (sv1_channel_id s)) @ ''; ignoring subscription'') c')
          else if contains_right (env_bimap E) m (sv1_id s) then
            Some (False, send_error E (''Subscription ID was already used: ''
              @ show_nat (unat (sv1_id s)) @ ''; ignoring subscription'') c')
          else None)"

text \<open>The insertion of one advertisement by \<open>on_advertise\<close>.\<close>

definition insert_client_channel :: "ws_env \<Rightarrow> ClientChannel \<Rightarrow> ConnectedClient \<Rightarrow> bool \<times> ConnectedClient" where
  "insert_client_channel E ch c =
     (case hm_get (cc_advertised_channels c) (cch_id ch) of
        Some _ \<Rightarrow> (False, send_warning E (''Client is already advertising channel: ''
          @ show_nat (unat (cch_id ch)) @ ''; ignoring advertisement'') c)
      | None \<Rightarrow> (True, c \<lparr> cc_advertised_channels := hm_insert (cch_id ch) ch (cc_advertised_channels c) \<rparr>))"

section \<open>Lemmas\<close>

subsection \<open>What a send changes\<close>

text \<open>A session without its queues and its shutdown signal: what sending does not touch.\<close>

definition idle :: "ConnectedClient \<Rightarrow> ConnectedClient" where
  "idle c = c \<lparr> cc_data_plane := [], cc_control_plane := [], cc_shutdown := None \<rparr>"

lemma idle_sel:
  assumes "idle c' = idle c"
  shows "cc_id c' = cc_id c" "cc_sink_id c' = cc_sink_id c" "cc_channels c' = cc_channels c"
    "cc_backlog c' = cc_backlog c" "cc_service_call_sem c' = cc_service_call_sem c"
    "cc_fetch_asset_sem c' = cc_fetch_asset_sem c" "cc_subscriptions c' = cc_subscriptions c"
    "cc_advertised_channels c' = cc_advertised_channels c" "cc_suppress c' = cc_suppress c"
    "cc_token_push c' = cc_token_push c"
  using assms by (cases c; cases c'; simp add: idle_def)+

lemma idle_upd [simp]:
  "idle (c \<lparr> cc_data_plane := q \<rparr>) = idle c"
  "idle (c \<lparr> cc_control_plane := q \<rparr>) = idle c"
  "idle (c \<lparr> cc_shutdown := r \<rparr>) = idle c"
  by (simp_all add: idle_def)

lemma idle_client_shutdown [simp]: "idle (client_shutdown r c) = idle c"
  by (simp add: client_shutdown_def split: option.split)

lemma idle_send_control_ws [simp]: "idle (snd (send_control_ws E m c)) = idle c"
  by (simp add: send_control_ws_def split: sum.split TrySendError.split)

lemma idle_sends [simp]:
  "idle (snd (send_control_msg E sm c)) = idle c"
  "idle (send_error E m c) = idle c"
  "idle (send_warning E m c) = idle c"
  "idle (send_service_call_failure E x y m c) = idle c"
  "idle (send_asset_error E m x c) = idle c"
  "idle (send_asset_response E d x c) = idle c"
  "idle (update_parameters E ps r c) = idle c"
  "idle (send_advertisement_token E tok c) = idle c"
  "idle (push_advertisement_token E ids c) = idle c"
  by (simp_all add: send_control_msg_def send_error_def send_warning_def send_service_call_failure_def
      send_asset_error_def send_asset_response_def update_parameters_def send_advertisement_token_def
      push_advertisement_token_def Let_def split: option.split)

lemma idle_send_data_lossy: "send_data_lossy E now m r c t = Some (x, c', t') \<Longrightarrow> idle c' = idle c"
  by (auto simp: send_data_lossy_def split: bind_splits)

subsection \<open>The control plane\<close>

text \<open>The control plane delivers messages in order until it is full; the first message that does
  not fit signals the shutdown.\<close>

definition deliver :: "ws_message list \<Rightarrow> ConnectedClient \<Rightarrow> ConnectedClient" where
  "deliver ms c = c \<lparr> cc_control_plane := take (cc_backlog c) (cc_control_plane c @ ms),
     cc_shutdown := (if cc_backlog c < length (cc_control_plane c) + length ms \<and> cc_shutdown c = None
                     then Some ControlPlaneQueueFull else cc_shutdown c) \<rparr>"

definition queues_ok :: "ConnectedClient \<Rightarrow> bool" where
  "queues_ok c \<longleftrightarrow> 0 < cc_backlog c \<and> length (cc_control_plane c) \<le> cc_backlog c
     \<and> length (cc_data_plane c) \<le> cc_backlog c"

lemma deliver_Nil: "queues_ok c \<Longrightarrow> deliver [] c = c"
  by (simp add: deliver_def queues_ok_def)

lemma deliver_queues_ok: "queues_ok (deliver ms c) \<longleftrightarrow> 0 < cc_backlog c \<and> length (cc_data_plane c) \<le> cc_backlog c"
  by (auto simp: deliver_def queues_ok_def)

lemma deliver_ok [simp]: "queues_ok c \<Longrightarrow> queues_ok (deliver ms c)"
  by (simp add: deliver_queues_ok queues_ok_def [of c])

lemma queues_ok_upd [simp]:
  "queues_ok (c \<lparr> cc_channels := x \<rparr>) = queues_ok c"
  "queues_ok (c \<lparr> cc_subscriptions := y \<rparr>) = queues_ok c"
  "queues_ok (c \<lparr> cc_advertised_channels := z \<rparr>) = queues_ok c"
  "queues_ok (c \<lparr> cc_suppress := b \<rparr>) = queues_ok c"
  "queues_ok (c \<lparr> cc_service_call_sem := sm \<rparr>) = queues_ok c"
  "queues_ok (c \<lparr> cc_fetch_asset_sem := sm \<rparr>) = queues_ok c"
  "queues_ok (c \<lparr> cc_shutdown := sd \<rparr>) = queues_ok c"
  by (simp_all add: queues_ok_def)

lemma deliver_append: "deliver ms' (deliver ms c) = deliver (ms @ ms') c"
  by (auto simp: deliver_def min_def)

lemma idle_deliver [simp]: "idle (deliver ms c) = idle c"
  by (simp add: deliver_def)

lemmas deliver_sel [simp] = idle_sel [OF idle_deliver]

lemma deliver_data [simp]: "cc_data_plane (deliver ms c) = cc_data_plane c"
  by (simp add: deliver_def)

lemma send_control_ws_deliver:
  assumes "flume_laws (env_flume E)" "queues_ok c"
  shows "send_control_ws E m c = (length (cc_control_plane c) < cc_backlog c, deliver [m] c)"
proof -
  have "try_send (env_flume E) (cc_backlog c) (cc_control_plane c) m =
      (if length (cc_control_plane c) < cc_backlog c then Inr (cc_control_plane c @ [m]) else Inl (Full m))"
    using assms by (simp add: flume_laws_def queues_ok_def)
  then show ?thesis using assms(2)
    by (auto simp: send_control_ws_def deliver_def client_shutdown_def queues_ok_def split: option.split)
qed

lemma deliver_updates:
  "deliver ms (c \<lparr> cc_channels := x \<rparr>) = (deliver ms c) \<lparr> cc_channels := x \<rparr>"
  "deliver ms (c \<lparr> cc_subscriptions := y \<rparr>) = (deliver ms c) \<lparr> cc_subscriptions := y \<rparr>"
  "deliver ms (c \<lparr> cc_advertised_channels := z \<rparr>) = (deliver ms c) \<lparr> cc_advertised_channels := z \<rparr>"
  by (simp_all add: deliver_def)

subsection \<open>Removal by swapping\<close>

lemma swap_remove_mset: "i < length xs \<Longrightarrow> swap_remove xs i = Some ys \<Longrightarrow> add_mset (xs ! i) (mset ys) = mset xs"
proof -
  assume i: "i < length xs" and s: "swap_remove xs i = Some ys"
  then have ys: "ys = butlast (xs[i := last xs])" by (simp add: swap_remove_def)
  let ?zs = "xs[i := last xs]"
  have ne: "?zs \<noteq> []" using i by auto
  have "mset ?zs = add_mset (last ?zs) (mset (butlast ?zs))"
    by (subst append_butlast_last_id [OF ne, symmetric]) simp
  moreover have "last ?zs = last xs" using i by (cases xs rule: rev_cases) (auto simp: list_update_append)
  ultimately have "add_mset (last xs) (mset ys) = mset ?zs" using ys by simp
  also have "\<dots> = add_mset (last xs) (mset xs - {#xs ! i#})" using i by (simp add: mset_update)
  finally have "mset ys = mset xs - {#xs ! i#}" by simp
  then show ?thesis using i by (simp add: insert_DiffM)
qed

lemma swap_remove_drop_mset:
  assumes "i < length xs" "swap_remove xs i = Some ys"
  shows "add_mset (xs ! i) (mset (drop i ys)) = mset (drop i xs)"
proof -
  have split: "mset zs = mset (take i zs) + mset (drop i zs)" for zs :: "'a list"
    by (simp flip: mset_append)
  have "mset (take i xs) + add_mset (xs ! i) (mset (drop i ys)) = add_mset (xs ! i) (mset ys)"
    unfolding swap_remove_take [OF assms(2), symmetric] by (simp flip: mset_append)
  also have "\<dots> = mset (take i xs) + mset (drop i xs)"
    unfolding swap_remove_mset [OF assms] by (rule split)
  finally show ?thesis by simp
qed

definition known_subscription :: "ConnectedClient \<Rightarrow> SubscriptionV1 \<Rightarrow> bool" where
  "known_subscription c s \<longleftrightarrow> hm_contains (sv1_channel_id s) (cc_channels c)"

definition unknown_channel_error :: "ws_env \<Rightarrow> SubscriptionV1 \<Rightarrow> ws_message" where
  "unknown_channel_error E s =
     ws E (SStatus (status_new LevelError (''Unknown channel ID: '' @ show_nat (unat (sv1_channel_id s)))))"

lemma known_idle: "idle c' = idle c \<Longrightarrow> known_subscription c' = known_subscription c"
  using idle_sel(3) [of c' c] by (simp add: known_subscription_def fun_eq_iff)

lemma send_error_deliver:
  assumes "flume_laws (env_flume E)" "queues_ok c"
  shows "send_error E m c = deliver [ws E (SStatus (status_new LevelError m))] c"
    "send_warning E m c = deliver [ws E (SStatus (status_new LevelWarning m))] c"
  by (simp_all add: send_error_def send_warning_def send_control_msg_def send_control_ws_deliver [OF assms])

lemma prune_subscriptions_ok:
  assumes "flume_laws (env_flume E)" "queues_ok c" "i \<le> length xs"
    "list_all2 (\<lambda>s ch. hm_get (cc_channels c) (sv1_channel_id s) = Some ch) (take i xs) acc"
  shows "\<exists>xs' chans msgs. prune_subscriptions E i xs acc c = Some (xs', chans, deliver msgs c)
    \<and> mset xs' = mset (take i xs) + filter_mset (known_subscription c) (mset (drop i xs))
    \<and> mset msgs = image_mset (unknown_channel_error E) (filter_mset (\<lambda>s. \<not> known_subscription c s) (mset (drop i xs)))
    \<and> list_all2 (\<lambda>s ch. hm_get (cc_channels c) (sv1_channel_id s) = Some ch) xs' chans"
  using assms
proof (induction E i xs acc c rule: prune_subscriptions.induct)
  case (1 E i xs acc c)
  show ?case
  proof (cases "i < length xs")
    case False
    then have "prune_subscriptions E i xs acc c = Some (xs, acc, deliver [] c)"
      using "1.prems"(2) by (simp add: prune_subscriptions.simps [of E i xs] deliver_Nil)
    then show ?thesis using "1.prems" False by (intro exI [of _ xs] exI [of _ acc] exI [of _ "[]"]) simp
  next
    case True
    let ?s = "xs ! i"
    have dr: "drop i xs = ?s # drop (Suc i) xs" using True by (simp add: Cons_nth_drop_Suc)
    show ?thesis
    proof (cases "hm_get (cc_channels c) (sv1_channel_id ?s)")
      case (Some ch)
      have "list_all2 (\<lambda>s ch. hm_get (cc_channels c) (sv1_channel_id s) = Some ch) (take (i + 1) xs) (acc @ [ch])"
        using "1.prems"(4) True Some by (simp add: take_Suc_conv_app_nth list_all2_appendI)
      then show ?thesis
        using "1.IH"(2) [OF True Some] "1.prems"(1,2) True Some dr
        by (simp add: prune_subscriptions.simps [of E i] known_subscription_def hm_contains_def take_Suc_conv_app_nth)
    next
      case None
      then obtain rest where rest: "swap_remove xs i = Some rest" using True by (simp add: swap_remove_def)
      let ?c = "deliver [unknown_channel_error E ?s] c"
      have c: "send_error E (''Unknown channel ID: '' @ show_nat (unat (sv1_channel_id ?s))) c = ?c"
        using send_error_deliver(1) [OF "1.prems"(1,2)] by (simp add: unknown_channel_error_def)
      have k: "known_subscription ?c = known_subscription c" by (rule known_idle) simp
      have len: "i \<le> length rest" using swap_remove_length [OF rest] True by simp
      have tk: "take i rest = take i xs" by (rule swap_remove_take [OF rest])
      have ok: "queues_ok ?c" using "1.prems"(2) by (rule deliver_ok)
      obtain xs' chans msgs where r: "prune_subscriptions E i rest acc ?c = Some (xs', chans, deliver msgs ?c)"
        "mset xs' = mset (take i rest) + filter_mset (known_subscription ?c) (mset (drop i rest))"
        "mset msgs = image_mset (unknown_channel_error E) (filter_mset (\<lambda>s. \<not> known_subscription ?c s) (mset (drop i rest)))"
        "list_all2 (\<lambda>s ch. hm_get (cc_channels ?c) (sv1_channel_id s) = Some ch) xs' chans"
        using "1.IH"(1) [OF True None rest] "1.prems"(1,4) ok len tk unfolding c by auto
      have m: "mset (drop i xs) = add_mset ?s (mset (drop i rest))"
        by (rule swap_remove_drop_mset [OF True rest, symmetric])
      have "\<not> known_subscription c ?s" using None by (simp add: known_subscription_def hm_contains_def)
      then have "mset xs' = mset (take i xs) + filter_mset (known_subscription c) (mset (drop i xs))"
        "mset (unknown_channel_error E ?s # msgs) =
           image_mset (unknown_channel_error E) (filter_mset (\<lambda>s. \<not> known_subscription c s) (mset (drop i xs)))"
        using r(2,3) by (simp_all add: m k tk)
      moreover have "prune_subscriptions E i xs acc c = Some (xs', chans, deliver (unknown_channel_error E ?s # msgs) c)"
        using True None rest r(1) c by (simp add: prune_subscriptions.simps [of E i xs] deliver_append)
      ultimately show ?thesis using r(4) by fastforce
    qed
  qed
qed

lemma unadvertise_loop_ok:
  assumes "flume_laws (env_flume E)" "queues_ok c" "i \<le> length ids"
  shows "\<exists>chs msgs. unadvertise_loop E i ids acc c = Some (acc @ chs,
      deliver msgs (c \<lparr> cc_advertised_channels := filter (\<lambda>(k, v). k \<notin> set (drop i ids)) (cc_advertised_channels c) \<rparr>))
    \<and> set chs = {ch. \<exists>k \<in> set (drop i ids). hm_get (cc_advertised_channels c) k = Some ch}
    \<and> length chs + length msgs = length (drop i ids)"
  using assms
proof (induction E i ids acc c rule: unadvertise_loop.induct)
  case (1 E i ids acc c)
  let ?adv = "cc_advertised_channels c"
  show ?case
  proof (cases "i < length ids")
    case False
    then have "unadvertise_loop E i ids acc c = Some (acc @ [], deliver [] c)"
      using "1.prems"(2) by (simp add: unadvertise_loop.simps [of E i ids] deliver_Nil)
    then show ?thesis using False by (intro exI [of _ "[]"]) simp
  next
    case True
    let ?k = "ids ! i"
    have dr: "drop i ids = ?k # drop (Suc i) ids" using True by (simp add: Cons_nth_drop_Suc)
    show ?thesis
    proof (cases "hm_get ?adv ?k")
      case (Some ch)
      let ?c = "c \<lparr> cc_advertised_channels := hm_remove ?k ?adv \<rparr>"
      have f: "filter (\<lambda>(k, v). k \<notin> set (drop (i + 1) ids)) (hm_remove ?k ?adv) =
          filter (\<lambda>(k, v). k \<notin> set (drop i ids)) ?adv"
        unfolding dr hm_remove_def filter_filter by (rule filter_cong) auto
      obtain chs msgs where ih: "unadvertise_loop E (i + 1) ids (acc @ [ch]) ?c = Some ((acc @ [ch]) @ chs,
          deliver msgs (?c \<lparr> cc_advertised_channels := filter (\<lambda>(k, v). k \<notin> set (drop (i + 1) ids)) (hm_remove ?k ?adv) \<rparr>))"
        "set chs = {ch. \<exists>k \<in> set (drop (i + 1) ids). hm_get (hm_remove ?k ?adv) k = Some ch}"
        "length chs + length msgs = length (drop (i + 1) ids)"
        using "1.IH"(2) [OF True refl Some] "1.prems"(1,2) True by auto
      have "unadvertise_loop E i ids acc c = Some (acc @ ch # chs,
          deliver msgs (c \<lparr> cc_advertised_channels := filter (\<lambda>(k, v). k \<notin> set (drop i ids)) ?adv \<rparr>))"
        using True Some ih(1) f by (simp add: unadvertise_loop.simps [of E i ids] Let_def)
      moreover have "set (ch # chs) = {ch. \<exists>k \<in> set (drop i ids). hm_get ?adv k = Some ch}"
      proof -
        have "set chs = {x. \<exists>k \<in> set (drop (Suc i) ids). k \<noteq> ?k \<and> hm_get ?adv k = Some x}"
          using ih(2) by (simp add: hm_get_remove) meson
        then show ?thesis unfolding dr using Some by (auto, metis option.inject)
      qed
      moreover have "length (ch # chs) + length msgs = length (drop i ids)" using ih(3) dr by simp
      ultimately show ?thesis by blast
    next
      case None
      then obtain rest where rest: "swap_remove ids i = Some rest" using True by (simp add: swap_remove_def)
      let ?w = "ws E (SStatus (status_new LevelWarning (''Client is not advertising channel: '' @ show_nat (unat ?k)
                     @ ''; ignoring unadvertisement'')))"
      have c: "send_warning E (''Client is not advertising channel: '' @ show_nat (unat ?k)
                     @ ''; ignoring unadvertisement'') c = deliver [?w] c"
        using send_error_deliver(2) [OF "1.prems"(1,2)] by blast
      have "mset (drop i ids) = add_mset ?k (mset (drop i rest))"
        by (rule swap_remove_drop_mset [OF True rest, symmetric])
      then have m: "set (drop i ids) = insert ?k (set (drop i rest))" and l: "length (drop i ids) = Suc (length (drop i rest))"
        by (metis set_mset_add_mset_insert set_mset_mset) (metis \<open>mset (drop i ids) = _\<close> size_add_mset size_mset)
      have len: "i \<le> length rest" using swap_remove_length [OF rest] True by simp
      obtain chs msgs where ih: "unadvertise_loop E i rest acc (deliver [?w] c) = Some (acc @ chs,
          deliver msgs ((deliver [?w] c) \<lparr> cc_advertised_channels := filter (\<lambda>(k, v). k \<notin> set (drop i rest)) ?adv \<rparr>))"
        "set chs = {ch. \<exists>k \<in> set (drop i rest). hm_get ?adv k = Some ch}"
        "length chs + length msgs = length (drop i rest)"
        using "1.IH"(1) [OF True refl None rest] "1.prems"(1) deliver_ok [OF "1.prems"(2)] len
        unfolding c by auto
      have f: "filter (\<lambda>(k, v). k \<notin> set (drop i rest)) ?adv = filter (\<lambda>(k, v). k \<notin> set (drop i ids)) ?adv"
        using None by (intro filter_cong) (auto simp: m hm_get_def map_of_eq_None_iff image_iff)
      have "unadvertise_loop E i ids acc c = Some (acc @ chs, deliver (?w # msgs)
          (c \<lparr> cc_advertised_channels := filter (\<lambda>(k, v). k \<notin> set (drop i ids)) ?adv \<rparr>))"
        using True None rest ih(1) f c
        by (simp add: unadvertise_loop.simps [of E i ids] Let_def deliver_updates [symmetric] deliver_append)
      moreover have "set chs = {ch. \<exists>k \<in> set (drop i ids). hm_get ?adv k = Some ch}"
        unfolding m using ih(2) None by auto
      ultimately show ?thesis using ih(3) l by (intro exI [of _ chs] exI [of _ "?w # msgs"]) simp
    qed
  qed
qed

lemma bimap_insert:
  assumes "bimap_laws M" "bimap_wf m" "insert_no_overwrite M l r m = (ok, m')"
  shows "(ok \<longleftrightarrow> l \<notin> fst ` set m \<and> r \<notin> snd ` set m) \<and> bimap_wf m'
    \<and> set m' = (if ok then insert (l, r) (set m) else set m)"
  using assms by (simp add: bimap_laws_def bimap_insert_law_def)

lemma bimap_remove:
  assumes "bimap_laws M" "bimap_wf m" "remove_by_right M r m = (p, m')"
  shows "bimap_wf m' \<and> set m' = {x \<in> set m. snd x \<noteq> r}
    \<and> (case p of None \<Rightarrow> r \<notin> snd ` set m | Some x \<Rightarrow> x \<in> set m \<and> snd x = r)"
  using assms by (simp add: bimap_laws_def bimap_remove_law_def)

lemma bimap_query:
  assumes "bimap_laws M" "bimap_wf m"
  shows "get_by_left M m l = map_of m l" "contains_left M m l \<longleftrightarrow> l \<in> fst ` set m"
    "contains_right M m r \<longleftrightarrow> r \<in> snd ` set m" "set (left_values M m) = fst ` set m"
  using assms by (simp_all add: bimap_laws_def bimap_query_law_def)

lemma bimap_right_unique: "bimap_wf m \<Longrightarrow> (l, r) \<in> set m \<Longrightarrow> (l', r) \<in> set m \<Longrightarrow> l = l'"
  using inj_onD [of snd "set m" "(l, r)" "(l', r)"] by (simp add: bimap_wf_def distinct_map)

lemma std_bimap_laws: "bimap_laws std_bimap"
proof -
  have "bimap_query_law std_bimap m" for m by (simp add: bimap_query_law_def std_bimap_def)
  moreover have "bimap_insert_law std_bimap m" if "bimap_wf m" for m
    using that by (auto simp: bimap_insert_law_def std_bimap_def bimap_wf_def split: if_splits)
  moreover have "bimap_remove_law std_bimap m" if "bimap_wf m" for m
  proof -
    have "case find (\<lambda>x. snd x = r) m of None \<Rightarrow> r \<notin> snd ` set m | Some x \<Rightarrow> x \<in> set m \<and> snd x = r" for r
      by (induction m) (auto split: option.splits)
    moreover have "bimap_wf (filter (\<lambda>x. snd x \<noteq> r) m)" for r
      using that by (simp add: bimap_wf_def distinct_map_filter)
    ultimately show ?thesis by (simp add: bimap_remove_law_def std_bimap_def)
  qed
  ultimately show ?thesis by (simp add: bimap_laws_def)
qed

lemma unsubscribe_loop_ok:
  assumes "bimap_laws (env_bimap E)" "bimap_wf (cc_subscriptions c)"
  shows "\<exists>ls m. unsubscribe_loop E ids acc c = (acc @ ls, c \<lparr> cc_subscriptions := m \<rparr>)
    \<and> bimap_wf m \<and> set m = {x \<in> set (cc_subscriptions c). snd x \<notin> set ids}
    \<and> set ls = {l. \<exists>r \<in> set ids. (l, r) \<in> set (cc_subscriptions c)}"
  using assms(2)
proof (induction ids arbitrary: acc c)
  case (Cons r ids)
  obtain p m where pm: "remove_by_right (env_bimap E) r (cc_subscriptions c) = (p, m)" by fastforce
  have laws: "bimap_wf m" "set m = {x \<in> set (cc_subscriptions c). snd x \<noteq> r}"
    "case p of None \<Rightarrow> r \<notin> snd ` set (cc_subscriptions c) | Some x \<Rightarrow> x \<in> set (cc_subscriptions c) \<and> snd x = r"
    using bimap_remove [OF assms(1) Cons.prems pm] by blast+
  have inj: "l = l'" if "(l, r) \<in> set (cc_subscriptions c)" "(l', r) \<in> set (cc_subscriptions c)" for l l'
    using bimap_right_unique [OF Cons.prems] that by blast
  let ?c = "c \<lparr> cc_subscriptions := m \<rparr>"
  have wf: "bimap_wf (cc_subscriptions ?c)" using laws(1) by simp
  note ih = Cons.IH [OF wf]
  show ?case
  proof (cases p)
    case None
    obtain ls m' where "unsubscribe_loop E ids acc ?c = (acc @ ls, ?c \<lparr> cc_subscriptions := m' \<rparr>)"
      "bimap_wf m'" "set m' = {x \<in> set m. snd x \<notin> set ids}" "set ls = {l. \<exists>r \<in> set ids. (l, r) \<in> set m}"
      using ih [of acc] by auto
    moreover have "set m = set (cc_subscriptions c)" using None laws by (auto simp: image_iff)
    moreover have "r \<notin> snd ` set (cc_subscriptions c)" using None laws by simp
    ultimately show ?thesis using None pm by (intro exI [of _ ls] exI [of _ m']) (auto simp: image_iff)
  next
    case (Some x)
    obtain l where x: "x = (l, r)" using Some laws(3) by (cases x) auto
    obtain ls m' where h: "unsubscribe_loop E ids (acc @ [l]) ?c = ((acc @ [l]) @ ls, ?c \<lparr> cc_subscriptions := m' \<rparr>)"
      "bimap_wf m'" "set m' = {x \<in> set m. snd x \<notin> set ids}" "set ls = {l. \<exists>r \<in> set ids. (l, r) \<in> set m}"
      using ih [of "acc @ [l]"] by auto
    have "set (l # ls) = {l. \<exists>r \<in> set (r # ids). (l, r) \<in> set (cc_subscriptions c)}"
      using h(4) laws(2,3) Some x inj by auto
    then show ?thesis using Some x pm h laws(2) by (intro exI [of _ "l # ls"] exI [of _ m']) auto
  qed
qed (auto intro!: exI [of _ "cc_subscriptions _"])

lemma insert_subscription_ok:
  assumes "env_laws E" "queues_ok c" "bimap_wf (cc_subscriptions c)"
  shows "\<exists>ok m msgs. insert_subscription E s c = Some (ok, deliver msgs (c \<lparr> cc_subscriptions := m \<rparr>))
    \<and> (ok \<longleftrightarrow> sv1_channel_id s \<notin> fst ` set (cc_subscriptions c) \<and> sv1_id s \<notin> snd ` set (cc_subscriptions c))
    \<and> bimap_wf m \<and> length msgs = (if ok then 0 else 1)
    \<and> set m = (if ok then insert (sv1_channel_id s, sv1_id s) (set (cc_subscriptions c)) else set (cc_subscriptions c))"
proof -
  obtain ok m where im: "insert_no_overwrite (env_bimap E) (sv1_channel_id s) (sv1_id s) (cc_subscriptions c) = (ok, m)"
    by fastforce
  have l: "ok \<longleftrightarrow> sv1_channel_id s \<notin> fst ` set (cc_subscriptions c) \<and> sv1_id s \<notin> snd ` set (cc_subscriptions c)"
    "bimap_wf m" "set m = (if ok then insert (sv1_channel_id s, sv1_id s) (set (cc_subscriptions c)) else set (cc_subscriptions c))"
    using bimap_insert [OF _ assms(3) im] assms(1) by (simp_all add: env_laws_def)
  have cs: "contains_left (env_bimap E) m (sv1_channel_id s) \<longleftrightarrow> sv1_channel_id s \<in> fst ` set m"
    "contains_right (env_bimap E) m (sv1_id s) \<longleftrightarrow> sv1_id s \<in> snd ` set m"
    using bimap_query [OF _ l(2)] assms(1) by (simp_all add: env_laws_def)
  let ?c = "c \<lparr> cc_subscriptions := m \<rparr>"
  have q: "queues_ok ?c" using assms(2) by simp
  have fl: "flume_laws (env_flume E)" using assms(1) by (simp add: env_laws_def)
  show ?thesis
  proof (cases ok)
    case True
    then show ?thesis using im l q
      by (intro exI [of _ True] exI [of _ m] exI [of _ "[]"]) (simp add: insert_subscription_def deliver_Nil)
  next
    case False
    then have "contains_left (env_bimap E) m (sv1_channel_id s) \<or> contains_right (env_bimap E) m (sv1_id s)"
      using l(1,3) cs by simp
    then obtain w where "insert_subscription E s c = Some (False, deliver [w] ?c)"
      using im False by (cases "contains_left (env_bimap E) m (sv1_channel_id s)")
        (simp_all add: insert_subscription_def Let_def send_error_deliver [OF fl q])
    then show ?thesis using False l by (intro exI [of _ False] exI [of _ m] exI [of _ "[w]"]) auto
  qed
qed

subsection \<open>Advertising in batches\<close>

definition advertisable :: "ws_env \<Rightarrow> ChannelDescriptor \<Rightarrow> bool" where
  "advertisable E ch \<longleftrightarrow> maybe_advertise_channel (env_base64 E) ch \<noteq> None"

definition filtered_channels :: "ws_env \<Rightarrow> ChannelDescriptor list \<Rightarrow> ChannelDescriptor list" where
  "filtered_channels E chans = filter (\<lambda>ch. case env_filter E of None \<Rightarrow> True | Some f \<Rightarrow> f ch) chans"

text \<open>The advertisements of the messages, one per batch that has any.\<close>

definition advert_batches :: "ws_env \<Rightarrow> ChannelDescriptor list list \<Rightarrow> ServerAdChannel list list" where
  "advert_batches E bs = filter (\<lambda>ads. ads \<noteq> []) (map (advertise_channels_msg (env_base64 E)) bs)"

definition record_channels :: "(ChannelDescriptor \<Rightarrow> bool) \<Rightarrow> ChannelDescriptor list
    \<Rightarrow> (ChannelId, ChannelDescriptor) hash_map \<Rightarrow> (ChannelId, ChannelDescriptor) hash_map" where
  "record_channels P chs m = fold (\<lambda>ch m. if P ch then hm_insert (desc_id ch) ch m else m) chs m"

lemma advert_id: "maybe_advertise_channel B ch = Some ad \<Longrightarrow> sac_id ad = desc_id ch"
  by (auto simp: maybe_advertise_channel_def channel_ad_try_from_def result_ok_def server_channel_build_def
      server_channel_builder_def server_channel_with_schema_def Let_def split: option.splits sum.splits if_splits)

lemma map_filter_Cons: "List.map_filter f (x # xs) = (case f x of None \<Rightarrow> [] | Some y \<Rightarrow> [y]) @ List.map_filter f xs"
  by (simp add: map_filter_simps split: option.split)

lemma advertised_ids:
  "map sac_id (advertise_channels_msg (env_base64 E) chs) = map desc_id (filter (advertisable E) chs)"
  by (induction chs) (auto simp: advertise_channels_msg_def map_filter_simps advertisable_def advert_id
      split: option.splits)

lemma advertised_empty: "advertise_channels_msg (env_base64 E) chs = [] \<longleftrightarrow> (\<forall>ch \<in> set chs. \<not> advertisable E ch)"
  using arg_cong [OF advertised_ids [of E chs], of length] by (auto simp: filter_empty_conv)

lemma record_channels_cong:
  "(\<And>ch. ch \<in> set chs \<Longrightarrow> P ch = Q ch) \<Longrightarrow> record_channels P chs m = record_channels Q chs m"
  by (induction chs arbitrary: m) (simp_all add: record_channels_def)

lemma record_channels_append: "record_channels P (xs @ ys) m = record_channels P ys (record_channels P xs m)"
  by (simp add: record_channels_def)

lemma record_channels_none: "(\<And>ch. ch \<in> set chs \<Longrightarrow> \<not> P ch) \<Longrightarrow> record_channels P chs m = m"
  by (induction chs) (simp_all add: record_channels_def)

lemma record_channels_get:
  "distinct (map desc_id chs) \<Longrightarrow> hm_get (record_channels P chs m) i =
     (case find (\<lambda>ch. P ch \<and> desc_id ch = i) chs of Some ch \<Rightarrow> Some ch | None \<Rightarrow> hm_get m i)"
proof (induction chs arbitrary: m)
  case (Cons ch chs)
  have "find (\<lambda>x. P x \<and> desc_id x = desc_id ch) chs = None"
    using Cons.prems by (auto simp: find_None_iff image_iff)
  then show ?case using Cons by (auto simp: record_channels_def hm_get_insert split: option.split)
qed (simp add: record_channels_def)

lemma record_channels_wf: "hm_wf m \<Longrightarrow> hm_wf (record_channels P chs m)"
  by (induction chs arbitrary: m) (simp_all add: record_channels_def hm_wf_insert)

text \<open>One batch. Within a batch an identifier is advertised exactly when its channel can be.\<close>

lemma advertise_channels_room:
  assumes "flume_laws (env_flume E)" "queues_ok c" "length (cc_control_plane c) < cc_backlog c"
    "distinct (map desc_id chs)"
  shows "advertise_channels E chs c =
    deliver (map (\<lambda>ads. ws E (SAdvertise ads)) (advert_batches E [chs]))
      (c \<lparr> cc_channels := record_channels (advertisable E) chs (cc_channels c) \<rparr>)"
proof (cases "advertise_channels_msg (env_base64 E) chs = []")
  case True
  then show ?thesis using assms(2)
    by (simp add: advertise_channels_def advert_batches_def advertised_empty record_channels_none deliver_Nil)
next
  case False
  let ?m = "advertise_channels_msg (env_base64 E) chs"
  have "desc_id ch \<in> set (map sac_id ?m) \<longleftrightarrow> advertisable E ch" if "ch \<in> set chs" for ch
    unfolding advertised_ids using that assms(4) by (auto simp: distinct_map dest: inj_onD)
  then have "record_channels (\<lambda>ch. desc_id ch \<in> set (map sac_id ?m)) chs m = record_channels (advertisable E) chs m" for m
    by (rule record_channels_cong)
  then show ?thesis using False assms(3)
    by (simp add: advertise_channels_def advert_batches_def send_control_msg_def
        send_control_ws_deliver [OF assms(1,2)] deliver_updates record_channels_def)
qed

lemma advertise_batches_room:
  assumes "flume_laws (env_flume E)"
  shows "queues_ok c \<Longrightarrow> length (cc_control_plane c) + length bs \<le> cc_backlog c \<Longrightarrow>
    \<forall>b \<in> set bs. distinct (map desc_id b) \<Longrightarrow>
    fold (advertise_channels E) bs c = deliver (map (\<lambda>ads. ws E (SAdvertise ads)) (advert_batches E bs))
      (c \<lparr> cc_channels := record_channels (advertisable E) (concat bs) (cc_channels c) \<rparr>)"
proof (induction bs arbitrary: c)
  case Nil
  then show ?case by (simp add: advert_batches_def record_channels_def deliver_Nil)
next
  case (Cons b bs)
  let ?ms = "map (\<lambda>ads. ws E (SAdvertise ads)) (advert_batches E [b])"
  let ?c = "deliver ?ms (c \<lparr> cc_channels := record_channels (advertisable E) b (cc_channels c) \<rparr>)"
  have l: "length ?ms \<le> 1" by (simp add: advert_batches_def)
  have ok: "queues_ok ?c" using Cons.prems(1) by (simp add: deliver_ok)
  have "length (cc_control_plane ?c) + length bs \<le> cc_backlog ?c"
    using Cons.prems(2) l by (simp add: deliver_def)
  with Cons.IH [OF ok] Cons.prems
  have "fold (advertise_channels E) bs ?c = deliver (map (\<lambda>ads. ws E (SAdvertise ads)) (advert_batches E bs))
      (?c \<lparr> cc_channels := record_channels (advertisable E) (concat bs) (cc_channels ?c) \<rparr>)" by simp
  moreover have "advertise_channels E b c = ?c"
    using advertise_channels_room [OF assms Cons.prems(1), of b] Cons.prems(2,3) by simp
  moreover have "advert_batches E (b # bs) = advert_batches E [b] @ advert_batches E bs"
    by (simp add: advert_batches_def)
  ultimately show ?case by (simp add: deliver_updates deliver_append record_channels_append)
qed

lemma distinct_chunk: "0 < n \<Longrightarrow> distinct (map f xs) \<Longrightarrow> b \<in> set (chunks n xs) \<Longrightarrow> distinct (map f b)"
proof (induction n xs rule: chunks.induct)
  case (1 n xs)
  have "xs \<noteq> []" using "1.prems"(3) by (auto simp: chunks.simps [of n xs] split: if_splits)
  then have c: "chunks n xs = take n xs # chunks n (drop n xs)" using "1.prems"(1) by (simp add: chunks.simps [of n xs])
  have "distinct (map f (take n xs))" "distinct (map f (drop n xs))"
    using "1.prems"(2) by (metis append_take_drop_id distinct_append map_append)+
  then show ?case using "1.IH" "1.prems" c \<open>xs \<noteq> []\<close> by auto
qed

lemma advert_batches_concat:
  "concat (advert_batches E bs) = advertise_channels_msg (env_base64 E) (concat bs)"
  by (induction bs) (auto simp: advert_batches_def advertise_channels_msg_def map_filter_def)

subsection \<open>Logging\<close>

lemma send_data_lossy_ok:
  assumes "flume_laws (env_flume E)" "queues_ok c" "0 < r"
  shows "\<exists>res t'. send_data_lossy E now m r c t =
    Some (res, c \<lparr> cc_data_plane := last_n (cc_backlog c) (cc_data_plane c @ [ws E m]) \<rparr>, t')"
proof -
  have "0 < cc_backlog c" "length (cc_data_plane c) \<le> cc_backlog c" using assms(2) by (simp_all add: queues_ok_def)
  then have "\<exists>res t'. send_lossy (env_flume E) now (cc_backlog c) (ws E m) r (cc_data_plane c) t =
      Some (res, last_n (cc_backlog c) (cc_data_plane c @ [ws E m]), t')"
    using send_lossy_bounded [OF assms(1) _ _ assms(3), of "cc_data_plane c" "cc_backlog c" now "ws E m" t]
    by (cases "cc_data_plane c") (auto simp: last_n_def)
  then show ?thesis by (auto simp: send_data_lossy_def)
qed

lemma data_plane_ok: "queues_ok c \<Longrightarrow> queues_ok (c \<lparr> cc_data_plane := last_n (cc_backlog c) q \<rparr>)"
  by (simp add: queues_ok_def last_n_def)

text \<open>The session after a message was logged on channel \<open>i\<close>.\<close>

definition logged :: "ws_env \<Rightarrow> ChannelId \<Rightarrow> u8 list \<Rightarrow> Metadata \<Rightarrow> ConnectedClient \<Rightarrow> ConnectedClient" where
  "logged E i msg meta c =
     (case map_of (cc_subscriptions c) i of
        None \<Rightarrow> c
      | Some sid \<Rightarrow> c \<lparr> cc_data_plane := last_n (cc_backlog c) (cc_data_plane c @
          [ws E (SMessageData \<lparr> smd_subscription_id = sid, smd_log_time = log_time meta, smd_data = msg \<rparr>)]) \<rparr>)"

lemma client_log_eq:
  assumes "env_laws E" "queues_ok c" "bimap_wf (cc_subscriptions c)"
  shows "\<exists>t'. client_log E now i msg meta c t = Some (logged E i msg meta c, t')"
proof (cases "map_of (cc_subscriptions c) i")
  case None
  then show ?thesis using assms bimap_query(1) [of "env_bimap E" "cc_subscriptions c" i]
    by (simp add: client_log_def env_laws_def logged_def)
next
  case (Some sid)
  have "flume_laws (env_flume E)" "0 < MAX_SEND_RETRIES" using assms(1) by (simp_all add: env_laws_def MAX_SEND_RETRIES_def)
  then obtain res t' where "send_data_lossy E now (SMessageData \<lparr> smd_subscription_id = sid,
      smd_log_time = log_time meta, smd_data = msg \<rparr>) MAX_SEND_RETRIES c t =
      Some (res, c \<lparr> cc_data_plane := last_n (cc_backlog c) (cc_data_plane c @
        [ws E (SMessageData \<lparr> smd_subscription_id = sid, smd_log_time = log_time meta, smd_data = msg \<rparr>)]) \<rparr>, t')"
    using send_data_lossy_ok [OF _ assms(2)] by meson
  then show ?thesis using Some assms bimap_query(1) [of "env_bimap E" "cc_subscriptions c" i]
    by (simp add: client_log_def env_laws_def logged_def)
qed

text \<open>A session whose client already holds the catalogue records the channels and sends nothing.\<close>

lemma add_channels_suppressed:
  "cc_suppress c \<Longrightarrow> client_add_channels E ids chans c = c \<lparr> cc_suppress := False,
     cc_channels := record_channels (\<lambda>_. True) (filtered_channels E chans) (cc_channels c) \<rparr>"
  by (simp add: client_add_channels_def filtered_channels_def record_channels_def)

section \<open>A concrete environment\<close>

text \<open>Parameters that satisfy what is assumed of them.\<close>

definition demo_env :: ws_env where
  "demo_env = \<lparr> env_bytes = std_bytes, env_base64 = demo_base64, env_to_json = (\<lambda>_. ''{}''),
     env_from_json = (\<lambda>_. Inl (Json ''unsupported'')), env_flume = std_flume, env_bimap = std_bimap,
     env_display = (\<lambda>_. ''error''), env_filter = None \<rparr>"

lemma std_flume_laws: "flume_laws (std_flume :: 'm flume)"
  by (simp add: flume_laws_def std_flume_def)

lemma demo_env_laws: "env_laws demo_env"
  by (simp add: env_laws_def demo_env_def std_flume_laws std_bimap_laws std_bytes_laws)

definition demo_session :: ConnectedClient where
  "demo_session = (connected_client_new 7 3 8) \<lparr> cc_subscriptions := [(1, 40)] \<rparr>"

lemma demo_session_ok: "queues_ok demo_session" "bimap_wf (cc_subscriptions demo_session)" "\<not> cc_suppress demo_session"
  "cc_control_plane demo_session = []" "cc_data_plane demo_session = []" "cc_backlog demo_session = 8"
  "cc_shutdown demo_session = None"
  by (simp_all add: demo_session_def connected_client_new_def queues_ok_def bimap_wf_def)

section \<open>Properties\<close>

text \<open>C15: when a session is told of channels and its control plane has room, it sends the
  advertisements of exactly the channels that pass the filter and can be advertised, in order,
  in messages of at most 100 channels, records exactly those channels, and follows them with the
  token of the resulting catalogue if the client asked for tokens.\<close>

theorem add_channels_advertises:
  assumes "env_laws E" "queues_ok c" "\<not> cc_suppress c" "distinct (map desc_id chans)"
    "length (cc_control_plane c) + length (chunks ADVERTISE_CHANNEL_BATCH_SIZE (filtered_channels E chans)) < cc_backlog c"
  shows "\<exists>batches cache. concat batches = advertise_channels_msg (env_base64 E) (filtered_channels E chans)
    \<and> list_all (\<lambda>ads. ads \<noteq> [] \<and> length ads \<le> 100) batches
    \<and> (\<forall>i. hm_get cache i =
         (case find (\<lambda>ch. advertisable E ch \<and> desc_id ch = i) (filtered_channels E chans) of
            Some ch \<Rightarrow> Some ch | None \<Rightarrow> hm_get (cc_channels c) i))
    \<and> client_add_channels E (Some ids) chans c =
        deliver (map (\<lambda>ads. ws E (SAdvertise ads)) batches
          @ (if cc_token_push c then [WsText (token_message (compute_advertisement_token (hm_values cache) ids))] else []))
          (c \<lparr> cc_channels := cache \<rparr>)"
proof -
  have fl: "flume_laws (env_flume E)" using assms(1) by (simp add: env_laws_def)
  let ?f = "filtered_channels E chans"
  let ?bs = "chunks ADVERTISE_CHANNEL_BATCH_SIZE ?f"
  let ?batches = "advert_batches E ?bs"
  let ?cache = "record_channels (advertisable E) ?f (cc_channels c)"
  let ?c = "deliver (map (\<lambda>ads. ws E (SAdvertise ads)) ?batches) (c \<lparr> cc_channels := ?cache \<rparr>)"
  have pos: "0 < ADVERTISE_CHANNEL_BATCH_SIZE" by (simp add: ADVERTISE_CHANNEL_BATCH_SIZE_def)
  have dist: "distinct (map desc_id ?f)" using assms(4) by (simp add: filtered_channels_def distinct_map_filter)
  have "fold (advertise_channels E) ?bs c = ?c"
    using advertise_batches_room [OF fl assms(2), of ?bs] assms(5) distinct_chunk [OF pos dist] concat_chunks [OF pos, of ?f]
    by simp
  then have add: "client_add_channels E (Some ids) chans c = push_advertisement_token E (Some ids) ?c"
    using assms(3) by (simp add: client_add_channels_def filtered_channels_def)
  have "push_advertisement_token E (Some ids) ?c =
      deliver (if cc_token_push c then [WsText (token_message (compute_advertisement_token (hm_values ?cache) ids))] else []) ?c"
    using send_control_ws_deliver [OF fl, of ?c] assms(2)
    by (simp add: push_advertisement_token_def send_advertisement_token_def deliver_Nil)
  moreover have "length ads \<le> 100" if ads: "ads \<in> set ?batches" for ads
  proof -
    obtain b where b: "b \<in> set ?bs" "ads = advertise_channels_msg (env_base64 E) b"
      using ads unfolding advert_batches_def by auto
    have "length ads = length (filter (advertisable E) b)"
      using arg_cong [OF advertised_ids [of E b], of length] b(2) by simp
    then show ?thesis
      using chunks_size [OF b(1)] order_trans [OF length_filter_le [of "advertisable E" b], of 100]
      by (simp add: ADVERTISE_CHANNEL_BATCH_SIZE_def)
  qed
  moreover have "concat ?batches = advertise_channels_msg (env_base64 E) ?f"
    by (simp add: advert_batches_concat concat_chunks [OF pos])
  ultimately show ?thesis
    using record_channels_get [OF dist] add
    by (intro exI [of _ ?batches] exI [of _ ?cache])
      (auto simp: list_all_iff advert_batches_def deliver_append split: option.split)
qed

theorem add_channels_advertises_witness:
  "\<exists>batches cache. concat batches = advertise_channels_msg demo_base64 [demo_channel 1 ''/a'' None]
    \<and> client_add_channels demo_env (Some []) [demo_channel 1 ''/a'' None] demo_session
      = deliver (map (\<lambda>ads. ws demo_env (SAdvertise ads)) batches) (demo_session \<lparr> cc_channels := cache \<rparr>)"
proof -
  have f: "filtered_channels demo_env [demo_channel 1 ''/a'' None] = [demo_channel 1 ''/a'' None]"
    by (simp add: filtered_channels_def demo_env_def)
  have "length (chunks ADVERTISE_CHANNEL_BATCH_SIZE [demo_channel 1 ''/a'' None]) = 1"
    by (simp add: chunks.simps ADVERTISE_CHANNEL_BATCH_SIZE_def)
  then show ?thesis
    using add_channels_advertises [OF demo_env_laws demo_session_ok(1,3), of "[demo_channel 1 ''/a'' None]" "[]"]
    by (auto simp: f demo_session_ok) (auto simp: demo_env_def demo_session_def connected_client_new_def)
qed

text \<open>A session queues a logged message exactly when its client is subscribed to the channel,
  under the client's own subscription identifier and with the log time of the call; it never
  panics, keeps the newest messages when the queue is full and touches nothing else.\<close>

theorem session_log:
  assumes "env_laws E" "queues_ok c" "bimap_wf (cc_subscriptions c)"
  shows "\<exists>t'. client_log E now i msg meta c t = Some (
      case map_of (cc_subscriptions c) i of
        None \<Rightarrow> c
      | Some sid \<Rightarrow> c \<lparr> cc_data_plane := last_n (cc_backlog c) (cc_data_plane c @
          [ws E (SMessageData \<lparr> smd_subscription_id = sid, smd_log_time = log_time meta, smd_data = msg \<rparr>)]) \<rparr>, t')"
  using client_log_eq [OF assms] by (simp add: logged_def)

theorem session_log_witness:
  "env_laws demo_env \<and> (\<exists>c t'. client_log demo_env 0 1 [9] \<lparr> log_time = 5 \<rparr> demo_session (throttler_new 30) = Some (c, t')
     \<and> cc_data_plane c = [ws demo_env (SMessageData \<lparr> smd_subscription_id = 40, smd_log_time = 5, smd_data = [9] \<rparr>)])"
proof -
  have "map_of (cc_subscriptions demo_session) 1 = Some 40" by (simp add: demo_session_def)
  then show ?thesis
    using session_log [OF demo_env_laws demo_session_ok(1,2), of 0 1 "[9]" "\<lparr> log_time = 5 \<rparr>" "throttler_new 30"]
    by (auto simp: demo_session_ok demo_env_laws last_n_def)
qed

text \<open>C16: the control plane never holds more than the backlog, delivers in the order of the sends
  the messages that fit, and the first one that does not fit signals a shutdown whose reason
  later signals do not replace.\<close>

theorem control_plane_overflow:
  assumes "flume_laws (env_flume E)" "queues_ok c"
  shows "fold (\<lambda>m c. snd (send_control_ws E m c)) ms c = deliver ms c \<and> queues_ok (deliver ms c)
    \<and> (cc_shutdown c = None \<longrightarrow> cc_shutdown (deliver ms c) =
        (if length (cc_control_plane c) + length ms \<le> cc_backlog c then None else Some ControlPlaneQueueFull))
    \<and> (cc_shutdown c = Some r \<longrightarrow> cc_shutdown (client_shutdown r' (deliver ms c)) = Some r)"
proof -
  have "fold (\<lambda>m c. snd (send_control_ws E m c)) ms c = deliver ms c" if "queues_ok c" for c
    using that
  proof (induction ms arbitrary: c)
    case (Cons m ms)
    then show ?case using deliver_append [of ms "[m]" c] by (simp add: send_control_ws_deliver [OF assms(1)])
  qed (simp add: deliver_Nil)
  then show ?thesis using assms(2) by (auto simp: deliver_def client_shutdown_def queues_ok_def)
qed

theorem control_plane_overflow_witness:
  "cc_shutdown (deliver (replicate 9 WsOther) demo_session) = Some ControlPlaneQueueFull
   \<and> fold (\<lambda>m c. snd (send_control_ws demo_env m c)) (replicate 9 WsOther) demo_session
      = deliver (replicate 9 WsOther) demo_session"
  using control_plane_overflow [of demo_env demo_session "replicate 9 WsOther" _ ServerStopped]
    demo_env_laws demo_session_ok
  by (simp add: env_laws_def)

end
