(* ===== verification/Connection_Graph.thy ===== *)
theory Connection_Graph
  imports Protocol_Messages
begin

text \<open>
  The connection graph (\<open>websocket/connection_graph.rs\<close>): maps from topic and service names
  to sets of ids, the clients subscribed to the graph, and the difference of two graphs that
  is sent to them. The abstract side is the view that a receiver of the updates keeps.
\<close>

section \<open>The graph\<close>

type_synonym MapOfSets = "(string, string hash_set) hash_map"

record ConnectionGraph =
  published_topics :: MapOfSets
  subscribed_topics :: MapOfSets
  advertised_services :: MapOfSets
  graph_subscribers :: "u32 hash_set"

definition graph_new :: ConnectionGraph where
  "graph_new = \<lparr> published_topics = [], subscribed_topics = [], advertised_services = [],
     graph_subscribers = [] \<rparr>"

definition set_published_topic :: "string \<Rightarrow> string list \<Rightarrow> ConnectionGraph \<Rightarrow> ConnectionGraph" where
  "set_published_topic topic publisher_ids g =
     g \<lparr> published_topics := hm_insert topic (hs_from_iter publisher_ids) (published_topics g) \<rparr>"

definition set_subscribed_topic :: "string \<Rightarrow> string list \<Rightarrow> ConnectionGraph \<Rightarrow> ConnectionGraph" where
  "set_subscribed_topic topic subscriber_ids g =
     g \<lparr> subscribed_topics := hm_insert topic (hs_from_iter subscriber_ids) (subscribed_topics g) \<rparr>"

definition set_advertised_service :: "string \<Rightarrow> string list \<Rightarrow> ConnectionGraph \<Rightarrow> ConnectionGraph" where
  "set_advertised_service service provider_ids g =
     g \<lparr> advertised_services := hm_insert service (hs_from_iter provider_ids) (advertised_services g) \<rparr>"

definition graph_add_subscriber :: "u32 \<Rightarrow> ConnectionGraph \<Rightarrow> bool \<times> ConnectionGraph" where
  "graph_add_subscriber client_id g =
     (client_id \<notin> set (graph_subscribers g),
      g \<lparr> graph_subscribers := hs_insert client_id (graph_subscribers g) \<rparr>)"

definition graph_remove_subscriber :: "u32 \<Rightarrow> ConnectionGraph \<Rightarrow> bool \<times> ConnectionGraph" where
  "graph_remove_subscriber client_id g =
     (client_id \<in> set (graph_subscribers g),
      g \<lparr> graph_subscribers := hs_remove client_id (graph_subscribers g) \<rparr>)"

definition graph_has_subscribers :: "ConnectionGraph \<Rightarrow> bool" where
  "graph_has_subscribers g \<longleftrightarrow> graph_subscribers g \<noteq> []"

definition graph_is_subscriber :: "u32 \<Rightarrow> ConnectionGraph \<Rightarrow> bool" where
  "graph_is_subscriber client_id g \<longleftrightarrow> client_id \<in> set (graph_subscribers g)"

section \<open>Differences\<close>

text \<open>The loop that collects the new and changed entries; the code repeats it for each of the
  three maps.\<close>

fun changed_entries :: "MapOfSets \<Rightarrow> MapOfSets \<Rightarrow> MapOfSets" where
  "changed_entries self [] = []"
| "changed_entries self ((name, ids) # rest) =
     (case hm_get self name of
        Some self_ids \<Rightarrow>
          if hs_eq self_ids ids then changed_entries self rest
          else (name, ids) # changed_entries self rest
      | None \<Rightarrow> (name, ids) # changed_entries self rest)"

definition removed_services :: "ConnectionGraph \<Rightarrow> ConnectionGraph \<Rightarrow> string list" where
  "removed_services self other =
     filter (\<lambda>name. \<not> hm_contains name (advertised_services other)) (hm_keys (advertised_services self))"

definition removed_topics :: "ConnectionGraph \<Rightarrow> ConnectionGraph \<Rightarrow> string list" where
  "removed_topics self other =
     hs_from_iter (filter
       (\<lambda>name. \<not> hm_contains name (published_topics other) \<and> \<not> hm_contains name (subscribed_topics other))
       (hm_keys (published_topics self) @ hm_keys (subscribed_topics self)))"

definition graph_diff :: "ConnectionGraph \<Rightarrow> ConnectionGraph \<Rightarrow> ConnectionGraphUpdate" where
  "graph_diff self other = \<lparr>
     cgu_published_topics = map (\<lambda>(name, ids). \<lparr> pt_name = name, pt_publisher_ids = ids \<rparr>)
       (changed_entries (published_topics self) (published_topics other)),
     cgu_subscribed_topics = map (\<lambda>(name, ids). \<lparr> stp_name = name, stp_subscriber_ids = ids \<rparr>)
       (changed_entries (subscribed_topics self) (subscribed_topics other)),
     cgu_advertised_services = map (\<lambda>(name, ids). \<lparr> as_name = name, as_provider_ids = ids \<rparr>)
       (changed_entries (advertised_services self) (advertised_services other)),
     cgu_removed_topics = removed_topics self other,
     cgu_removed_services = removed_services self other \<rparr>"

definition as_initial_update :: "ConnectionGraph \<Rightarrow> ConnectionGraphUpdate" where
  "as_initial_update g = graph_diff graph_new g"

definition graph_update :: "ConnectionGraph \<Rightarrow> ConnectionGraph \<Rightarrow> ConnectionGraphUpdate \<times> ConnectionGraph" where
  "graph_update self new =
     (graph_diff self new,
      self \<lparr> published_topics := published_topics new, subscribed_topics := subscribed_topics new,
             advertised_services := advertised_services new \<rparr>)"

section \<open>The view of a receiver\<close>

text \<open>A receiver of the updates keeps a map of sets for each part of the graph. An update first
  removes the names it lists as removed and then overwrites the entries it carries.\<close>

type_synonym name_view = "string \<rightharpoonup> string set"

record graph_view =
  view_published :: name_view
  view_subscribed :: name_view
  view_services :: name_view

definition view_step :: "(string \<times> string list) list \<Rightarrow> string list \<Rightarrow> name_view \<Rightarrow> name_view" where
  "view_step entries removed v =
     fold (\<lambda>(name, ids) w. w(name \<mapsto> set ids)) entries (v |` (- set removed))"

definition view_apply :: "ConnectionGraphUpdate \<Rightarrow> graph_view \<Rightarrow> graph_view" where
  "view_apply u v = \<lparr>
     view_published = view_step (map (\<lambda>t. (pt_name t, pt_publisher_ids t)) (cgu_published_topics u))
       (cgu_removed_topics u) (view_published v),
     view_subscribed = view_step (map (\<lambda>t. (stp_name t, stp_subscriber_ids t)) (cgu_subscribed_topics u))
       (cgu_removed_topics u) (view_subscribed v),
     view_services = view_step (map (\<lambda>t. (as_name t, as_provider_ids t)) (cgu_advertised_services u))
       (cgu_removed_services u) (view_services v) \<rparr>"

definition view_map :: "MapOfSets \<Rightarrow> name_view" where
  "view_map m name = map_option set (hm_get m name)"

definition view_of :: "ConnectionGraph \<Rightarrow> graph_view" where
  "view_of g = \<lparr> view_published = view_map (published_topics g),
     view_subscribed = view_map (subscribed_topics g),
     view_services = view_map (advertised_services g) \<rparr>"

definition graph_wf :: "ConnectionGraph \<Rightarrow> bool" where
  "graph_wf g \<longleftrightarrow> hm_wf (published_topics g) \<and> hm_wf (subscribed_topics g)
     \<and> hm_wf (advertised_services g) \<and> distinct (graph_subscribers g)"

text \<open>A topic that leaves one of the two topic maps leaves the graph.\<close>

definition leaves_both :: "ConnectionGraph \<Rightarrow> ConnectionGraph \<Rightarrow> bool" where
  "leaves_both self other \<longleftrightarrow>
     (\<forall>name \<in> set (hm_keys (published_topics self)).
        hm_contains name (subscribed_topics other) \<longrightarrow> hm_contains name (published_topics other))
     \<and> (\<forall>name \<in> set (hm_keys (subscribed_topics self)).
        hm_contains name (published_topics other) \<longrightarrow> hm_contains name (subscribed_topics other))"

section \<open>Lemmas\<close>

lemma hm_wf_Cons: "hm_wf ((k, v) # m) \<longleftrightarrow> hm_wf m \<and> hm_get m k = None"
  by (auto simp: hm_wf_def hm_get_def map_of_eq_None_iff)

lemma fold_view_entries:
  "hm_wf xs \<Longrightarrow> fold (\<lambda>(name, ids) w. w(name \<mapsto> set ids)) xs w k =
     (case hm_get xs k of None \<Rightarrow> w k | Some ids \<Rightarrow> Some (set ids))"
proof (induction xs arbitrary: w)
  case (Cons x xs)
  then show ?case by (cases x) (auto simp: hm_wf_Cons)
qed simp

lemma changed_entries_eq:
  "changed_entries self other =
     filter (\<lambda>(name, ids). \<not> (\<exists>s. hm_get self name = Some s \<and> hs_eq s ids)) other"
  by (induction self other rule: changed_entries.induct) (auto split: option.split)

lemma changed_entries_wf: "hm_wf other \<Longrightarrow> hm_wf (changed_entries self other)"
  by (simp add: changed_entries_eq hm_wf_filter)

lemma changed_entries_get:
  "hm_wf other \<Longrightarrow> hm_get (changed_entries self other) k =
     (if view_map self k = view_map other k then None else hm_get other k)"
  by (auto simp: changed_entries_eq hm_get_filter view_map_def hs_eq_def split: option.splits)

text \<open>One part of the view after a difference: entries of the new map win; of the others those
  that are listed as removed are gone and the rest is as before.\<close>

lemma view_step_changed:
  assumes "hm_wf other"
  shows "view_step (changed_entries self other) removed (view_map self) k =
    (if hm_contains k other \<and> k \<notin> set removed then view_map other k
     else if hm_contains k other then (if view_map self k = view_map other k then None else view_map other k)
     else if k \<in> set removed then None else view_map self k)"
  using assms
  by (auto simp: view_step_def fold_view_entries changed_entries_wf changed_entries_get restrict_map_def
      hm_contains_def view_map_def split: option.splits)

lemma set_removed_topics:
  "name \<in> set (removed_topics self other) \<longleftrightarrow>
     (hm_contains name (published_topics self) \<or> hm_contains name (subscribed_topics self))
     \<and> \<not> hm_contains name (published_topics other) \<and> \<not> hm_contains name (subscribed_topics other)"
  by (auto simp: removed_topics_def hm_contains_keys)

lemma set_removed_services:
  "name \<in> set (removed_services self other) \<longleftrightarrow>
     hm_contains name (advertised_services self) \<and> \<not> hm_contains name (advertised_services other)"
  by (auto simp: removed_services_def hm_contains_keys)

lemma view_entries [simp]:
  "map (\<lambda>t. (pt_name t, pt_publisher_ids t)) (map (\<lambda>(name, ids). \<lparr> pt_name = name, pt_publisher_ids = ids \<rparr>) xs) = xs"
  "map (\<lambda>t. (stp_name t, stp_subscriber_ids t)) (map (\<lambda>(name, ids). \<lparr> stp_name = name, stp_subscriber_ids = ids \<rparr>) xs) = xs"
  "map (\<lambda>t. (as_name t, as_provider_ids t)) (map (\<lambda>(name, ids). \<lparr> as_name = name, as_provider_ids = ids \<rparr>) xs) = xs"
  by (simp_all add: comp_def case_prod_beta)

lemma view_map_None: "view_map m k = None \<longleftrightarrow> \<not> hm_contains k m"
  by (simp add: view_map_def hm_contains_def)

lemma view_map_absent: "k \<notin> set (hm_keys m) \<Longrightarrow> view_map m k = None"
  by (simp add: view_map_None hm_contains_keys)

definition expected_topic :: "MapOfSets \<Rightarrow> MapOfSets \<Rightarrow> MapOfSets \<Rightarrow> name_view" where
  "expected_topic self other partner name =
     (if hm_contains name other then view_map other name
      else if hm_contains name partner then view_map self name else None)"

lemma view_apply_diff:
  assumes "graph_wf other"
  shows "view_apply (graph_diff self other) (view_of self) = \<lparr>
    view_published = expected_topic (published_topics self) (published_topics other) (subscribed_topics other),
    view_subscribed = expected_topic (subscribed_topics self) (subscribed_topics other) (published_topics other),
    view_services = view_map (advertised_services other) \<rparr>"
proof -
  have wf: "hm_wf (published_topics other)" "hm_wf (subscribed_topics other)" "hm_wf (advertised_services other)"
    using assms by (simp_all add: graph_wf_def)
  have "view_step (changed_entries (published_topics self) (published_topics other)) (removed_topics self other)
      (view_map (published_topics self)) k =
      expected_topic (published_topics self) (published_topics other) (subscribed_topics other) k" for k
    using view_map_None [of "published_topics self" k]
    by (auto simp: view_step_changed [OF wf(1)] set_removed_topics expected_topic_def)
  moreover have "view_step (changed_entries (subscribed_topics self) (subscribed_topics other)) (removed_topics self other)
      (view_map (subscribed_topics self)) k =
      expected_topic (subscribed_topics self) (subscribed_topics other) (published_topics other) k" for k
    using view_map_None [of "subscribed_topics self" k]
    by (auto simp: view_step_changed [OF wf(2)] set_removed_topics expected_topic_def)
  moreover have "view_step (changed_entries (advertised_services self) (advertised_services other))
      (removed_services self other) (view_map (advertised_services self)) k = view_map (advertised_services other) k" for k
    using view_map_None [of "advertised_services self" k] view_map_None [of "advertised_services other" k]
    by (auto simp: view_step_changed [OF wf(3)] set_removed_services)
  ultimately show ?thesis by (simp add: view_apply_def graph_diff_def view_of_def fun_eq_iff del: map_map)
qed

lemma expected_topic_exact:
  "expected_topic self other partner = view_map other \<longleftrightarrow>
     (\<forall>k \<in> set (hm_keys self). hm_contains k partner \<longrightarrow> hm_contains k other)"
proof
  assume e: "expected_topic self other partner = view_map other"
  show "\<forall>k \<in> set (hm_keys self). hm_contains k partner \<longrightarrow> hm_contains k other"
  proof (intro ballI impI)
    fix k assume "k \<in> set (hm_keys self)" "hm_contains k partner"
    then show "hm_contains k other"
      using fun_cong [OF e, of k] view_map_None [of self k] view_map_None [of other k]
      by (auto simp: expected_topic_def hm_contains_keys split: if_splits)
  qed
next
  assume "\<forall>k \<in> set (hm_keys self). hm_contains k partner \<longrightarrow> hm_contains k other"
  then show "expected_topic self other partner = view_map other"
    by (intro ext) (auto simp: expected_topic_def hm_contains_keys view_map_absent)
qed

text \<open>What a subscriber receives: the initial update when it subscribes, then one update for
  each graph that is published.\<close>

fun graph_feed :: "ConnectionGraph \<Rightarrow> ConnectionGraph list \<Rightarrow> ConnectionGraphUpdate list \<times> ConnectionGraph" where
  "graph_feed g [] = ([], g)"
| "graph_feed g (new # rest) =
     (let (u, g') = graph_update g new; (us, last) = graph_feed g' rest in (u # us, last))"

fun each_leaves_both :: "ConnectionGraph \<Rightarrow> ConnectionGraph list \<Rightarrow> bool" where
  "each_leaves_both g [] = True"
| "each_leaves_both g (new # rest) \<longleftrightarrow> leaves_both g new \<and> each_leaves_both (snd (graph_update g new)) rest"

lemma view_apply_exact:
  assumes "graph_wf other"
  shows "view_apply (graph_diff self other) (view_of self) = view_of other \<longleftrightarrow> leaves_both self other"
  unfolding view_apply_diff [OF assms]
  by (simp add: view_of_def leaves_both_def expected_topic_exact)

lemma view_of_update: "view_of (snd (graph_update g new)) = view_of new"
  by (simp add: view_of_def graph_update_def)

lemma graph_update_wf: "graph_wf g \<Longrightarrow> graph_wf new \<Longrightarrow> graph_wf (snd (graph_update g new))"
  by (simp add: graph_wf_def graph_update_def)

lemma graph_feed_view:
  assumes "each_leaves_both g news" "list_all graph_wf news"
  shows "fold view_apply (fst (graph_feed g news)) (view_of g) = view_of (snd (graph_feed g news))"
  using assms
proof (induction g news rule: graph_feed.induct)
  case (2 g new rest)
  have "view_apply (graph_diff g new) (view_of g) = view_of (snd (graph_update g new))"
    using 2(2,3) by (simp add: view_apply_exact view_of_update)
  with 2 show ?case by (simp add: graph_update_def split: prod.split) (metis fst_conv snd_conv)
qed simp

section \<open>Properties\<close>

text \<open>C14: the difference of two graphs brings the view of a receiver from the old graph exactly to
  the new one if and only if no topic leaves one of the topic maps while it stays in the
  other; services are always exact, and a topic for which this fails keeps its old entry.\<close>

theorem diff_transforms_view:
  assumes "graph_wf new"
  shows "(view_apply (fst (graph_update g new)) (view_of g) = view_of (snd (graph_update g new))
      \<longleftrightarrow> leaves_both g new)
    \<and> view_services (view_apply (fst (graph_update g new)) (view_of g)) = view_services (view_of new)
    \<and> (hm_contains name (published_topics g) \<and> \<not> hm_contains name (published_topics new)
        \<and> hm_contains name (subscribed_topics new) \<longrightarrow>
       view_published (view_apply (fst (graph_update g new)) (view_of g)) name = view_map (published_topics g) name)"
proof -
  have "fst (graph_update g new) = graph_diff g new" by (simp add: graph_update_def)
  then show ?thesis
    using assms view_apply_exact [OF assms, of g]
    by (simp add: view_of_update view_apply_diff expected_topic_def) (simp add: view_of_def)
qed

definition demo_graph :: ConnectionGraph where
  "demo_graph = set_subscribed_topic ''/a'' [''s1''] (set_published_topic ''/a'' [''p1'', ''p2''] graph_new)"

definition demo_graph_unpublished :: ConnectionGraph where
  "demo_graph_unpublished = set_subscribed_topic ''/a'' [''s1''] graph_new"

theorem diff_transforms_view_witness:
  "graph_wf demo_graph_unpublished
   \<and> view_apply (fst (graph_update demo_graph demo_graph_unpublished)) (view_of demo_graph)
       \<noteq> view_of (snd (graph_update demo_graph demo_graph_unpublished))
   \<and> view_published (view_apply (fst (graph_update demo_graph demo_graph_unpublished)) (view_of demo_graph)) ''/a''
       = Some {''p1'', ''p2''}"
proof -
  have w: "graph_wf demo_graph_unpublished"
    by (simp add: graph_wf_def demo_graph_unpublished_def set_subscribed_topic_def graph_new_def hm_wf_def)
  have h: "hm_contains ''/a'' (published_topics demo_graph)"
    "\<not> hm_contains ''/a'' (published_topics demo_graph_unpublished)"
    "hm_contains ''/a'' (subscribed_topics demo_graph_unpublished)"
    by (simp_all add: demo_graph_def demo_graph_unpublished_def set_subscribed_topic_def
        set_published_topic_def graph_new_def hm_contains_def)
  moreover from h have "\<not> leaves_both demo_graph demo_graph_unpublished"
    by (auto simp: leaves_both_def hm_contains_keys)
  moreover have "view_map (published_topics demo_graph) ''/a'' = Some {''p1'', ''p2''}"
    by (auto simp: view_map_def demo_graph_def set_subscribed_topic_def set_published_topic_def
        graph_new_def hm_simps)
  ultimately show ?thesis using diff_transforms_view [OF w, of demo_graph "''/a''"] w by simp
qed

text \<open>a receiver that starts from the initial update and applies one update per published
  graph holds the content of the last graph, provided that no topic ever leaves only one of
  the two topic maps; the set of graph subscribers is not changed by publishing.\<close>

theorem graph_subscriber_tracks:
  assumes "graph_wf g" "list_all graph_wf news" "each_leaves_both g news"
  shows "fold view_apply (as_initial_update g # fst (graph_feed g news)) (view_of graph_new)
      = view_of (snd (graph_feed g news))
    \<and> graph_subscribers (snd (graph_feed g news)) = graph_subscribers g"
proof -
  have "leaves_both graph_new g" by (simp add: leaves_both_def graph_new_def)
  then have "view_apply (as_initial_update g) (view_of graph_new) = view_of g"
    using assms(1) by (simp add: as_initial_update_def view_apply_exact)
  moreover have "graph_subscribers (snd (graph_feed h ns)) = graph_subscribers h" for h ns
    by (induction h ns rule: graph_feed.induct) (auto simp: graph_update_def split: prod.split)
  ultimately show ?thesis using graph_feed_view [OF assms(3,2)] by simp
qed

theorem graph_subscriber_tracks_witness:
  "fold view_apply (as_initial_update demo_graph # fst (graph_feed demo_graph [graph_new, demo_graph_unpublished]))
     (view_of graph_new) = view_of (snd (graph_feed demo_graph [graph_new, demo_graph_unpublished]))"
proof -
  have "graph_wf demo_graph" "list_all graph_wf [graph_new, demo_graph_unpublished]"
    by (simp_all add: graph_wf_def demo_graph_def demo_graph_unpublished_def set_subscribed_topic_def
        set_published_topic_def graph_new_def hm_wf_def)
  moreover have "each_leaves_both demo_graph [graph_new, demo_graph_unpublished]"
    by (simp add: leaves_both_def graph_update_def graph_new_def)
  ultimately show ?thesis using graph_subscriber_tracks by blast
qed

end
