(* ===== verification/Server_State.thy ===== *)
theory Server_State
  imports Connected_Client Connection_Graph
begin

text \<open>
  The websocket server as far as it acts on its own state and on the sessions of its clients
  (\<open>websocket/server.rs\<close>, \<open>websocket/capability.rs\<close>, \<open>websocket/client.rs\<close>): options,
  capabilities, parameter and connection-graph subscriptions and broadcasts. An
  \<open>Arc<ConnectedClient>\<close> is the identifier of the client in a heap of sessions, since the
  server, the context and outstanding requests share the session.

  The \<open>ServerListener\<close> is user code: the calls it receives are recorded in order, and the
  three callbacks with a result are functions of that history, which is everything a
  deterministic listener can depend on. A listener that calls back into the server within a
  callback is not covered.
\<close>

section \<open>The listener\<close>

datatype listener_call =
  On_message_data u32 ClientChannel "u8 list"
| On_subscribe u32 ChannelId string
| On_unsubscribe u32 ChannelId string
| On_client_advertise u32 ClientChannel
| On_client_unadvertise u32 ClientChannel
| On_get_parameters u32 "string list" "string option"
| On_set_parameters u32 "Parameter list" "string option"
| On_parameters_subscribe "string list"
| On_parameters_unsubscribe "string list"
| On_connection_graph_subscribe
| On_connection_graph_unsubscribe
| On_client_connect
| On_client_disconnect
| On_playback_control_request PlaybackControlRequest

record listener =
  get_parameters_answer :: "listener_call list \<Rightarrow> Parameter list"
  set_parameters_answer :: "listener_call list \<Rightarrow> Parameter list"
  playback_answer :: "listener_call list \<Rightarrow> PlaybackState option"

section \<open>Capabilities and options\<close>

datatype Capability =
  ClientPublish | Parameters | Time_cap | Services_cap | Assets | ConnectionGraph_cap | RangedPlayback

fun as_protocol_capabilities :: "Capability \<Rightarrow> ProtoCapability list" where
  "as_protocol_capabilities ClientPublish = [PClientPublish]"
| "as_protocol_capabilities Parameters = [PParameters, PParametersSubscribe]"
| "as_protocol_capabilities Time_cap = [PTime]"
| "as_protocol_capabilities Services_cap = [PServices]"
| "as_protocol_capabilities Assets = [PAssets]"
| "as_protocol_capabilities ConnectionGraph_cap = [PConnectionGraph]"
| "as_protocol_capabilities RangedPlayback = [PRangedPlayback]"

definition DEFAULT_MESSAGE_BACKLOG_SIZE :: nat where "DEFAULT_MESSAGE_BACKLOG_SIZE = 1024"

definition ADVERTISEMENT_TOKEN_METADATA_KEY :: string where
  "ADVERTISEMENT_TOKEN_METADATA_KEY = ''advertisement-token''"

record ServerOptions =
  so_session_id :: "string option"
  so_name :: "string option"
  so_message_backlog_size :: "nat option"
  so_listener :: "listener option"
  so_capabilities :: "Capability hash_set option"
  so_services :: "(string, Service) hash_map"
  so_supported_encodings :: "string hash_set option"
  so_fetch_asset_handler :: bool
  so_server_info :: "(string, string) hash_map option"
  so_playback_time_range :: "(u64 \<times> u64) option"

text \<open>\<open>sv_tasks\<close> says that the server was started and not stopped since.\<close>

record Server =
  sv_message_backlog_size :: u32
  sv_session_id :: string
  sv_name :: string
  sv_clients :: "u32 CowVec"
  sv_listener :: "listener option"
  sv_capabilities :: "Capability hash_set"
  sv_subscribed_parameters :: "(string, u32 hash_set) hash_map"
  sv_supported_encodings :: "string hash_set"
  sv_connection_graph :: ConnectionGraph
  sv_cancelled :: bool
  sv_services :: ServiceMap
  sv_fetch_asset_handler :: bool
  sv_tasks :: bool
  sv_server_info :: "(string, string) hash_map"
  sv_playback_time_range :: "(u64 \<times> u64) option"

text \<open>\<open>generated\<close> is the result of \<open>generate_session_id\<close>. The backlog size is cast to 32
  bits. \<open>None\<close> is the panic on a missing time range or on duplicate services.\<close>

definition server_new :: "string \<Rightarrow> ServerOptions \<Rightarrow> Server may_panic" where
  "server_new generated opts =
     (let capabilities = (case so_capabilities opts of None \<Rightarrow> [] | Some cs \<Rightarrow> cs);
          supported_encodings = (case so_supported_encodings opts of None \<Rightarrow> [] | Some es \<Rightarrow> es);
          (capabilities, supported_encodings) =
            (if so_services opts \<noteq> [] then
               (hs_insert Services_cap capabilities,
                fold hs_insert (List.map_filter service_request_encoding (hm_values (so_services opts))) supported_encodings)
             else (capabilities, supported_encodings)) in
      if so_playback_time_range opts = None \<and> RangedPlayback \<in> set capabilities then None
      else
        let capabilities = (if so_playback_time_range opts \<noteq> None then hs_insert RangedPlayback capabilities else capabilities);
            capabilities = (if so_fetch_asset_handler opts then hs_insert Assets capabilities else capabilities) in
        do {
          services \<leftarrow> service_map_from_iter (hm_values (so_services opts));
          Some \<lparr>
            sv_message_backlog_size = word_of_nat (case so_message_backlog_size opts of
                None \<Rightarrow> DEFAULT_MESSAGE_BACKLOG_SIZE | Some n \<Rightarrow> n),
            sv_session_id = (case so_session_id opts of None \<Rightarrow> generated | Some i \<Rightarrow> i),
            sv_name = (case so_name opts of None \<Rightarrow> [] | Some n \<Rightarrow> n),
            sv_clients = cowvec_new,
            sv_listener = so_listener opts,
            sv_capabilities = capabilities,
            sv_subscribed_parameters = [],
            sv_supported_encodings = supported_encodings,
            sv_connection_graph = graph_new,
            sv_cancelled = False,
            sv_services = services,
            sv_fetch_asset_handler = so_fetch_asset_handler opts,
            sv_tasks = False,
            sv_server_info = (case so_server_info opts of None \<Rightarrow> [] | Some m \<Rightarrow> m),
            sv_playback_time_range = so_playback_time_range opts \<rparr>
        })"

definition has_capability :: "Server \<Rightarrow> Capability \<Rightarrow> bool" where
  "has_capability s cap \<longleftrightarrow> cap \<in> set (sv_capabilities s)"

definition supports_encoding :: "Server \<Rightarrow> string \<Rightarrow> bool" where
  "supports_encoding s e \<longleftrightarrow> e \<in> set (sv_supported_encodings s)"

definition service_ids :: "Server \<Rightarrow> (string \<times> u32) list" where
  "service_ids s = map (\<lambda>svc. (svc_name svc, svc_id svc)) (service_map_values (sv_services s))"

section \<open>The world of the sessions\<close>

text \<open>A request that a service or asset handler has not answered yet, with the guard of its
  semaphore.\<close>

record ServiceResponder =
  srs_client :: u32
  srs_service_id :: u32
  srs_call_id :: u32
  srs_encoding :: string

record AssetResponder =
  ars_client :: u32
  ars_request_id :: u32

record ws_world =
  ww_sessions :: "(u32, ConnectedClient) hash_map"
  ww_server :: Server
  ww_server_alive :: bool
  ww_calls :: "listener_call list"
  ww_service_calls :: "(Request \<times> ServiceResponder) list"
  ww_asset_calls :: "(string \<times> AssetResponder) list"
  ww_next_client_id :: u32
  ww_next_sink_id :: SinkId
  ww_throttler :: Throttler
  ww_now :: nat
  ww_panicked :: bool

definition update_session :: "u32 \<Rightarrow> (ConnectedClient \<Rightarrow> ConnectedClient) \<Rightarrow> ws_world \<Rightarrow> ws_world" where
  "update_session cid f w =
     (case hm_get (ww_sessions w) cid of
        None \<Rightarrow> w
      | Some c \<Rightarrow> w \<lparr> ww_sessions := hm_insert cid (f c) (ww_sessions w) \<rparr>)"

definition update_server :: "(Server \<Rightarrow> Server) \<Rightarrow> ws_world \<Rightarrow> ws_world" where
  "update_server f w = w \<lparr> ww_server := f (ww_server w) \<rparr>"

text \<open>A callback, if there is a listener.\<close>

definition notify :: "listener_call \<Rightarrow> ws_world \<Rightarrow> ws_world" where
  "notify call w =
     (if sv_listener (ww_server w) = None then w else w \<lparr> ww_calls := ww_calls w @ [call] \<rparr>)"

definition for_clients :: "(u32 \<Rightarrow> ws_world \<Rightarrow> ws_world) \<Rightarrow> ws_world \<Rightarrow> ws_world" where
  "for_clients f w = fold f (inner (sv_clients (ww_server w))) w"

section \<open>Broadcasts\<close>

definition broadcast_time :: "ws_env \<Rightarrow> u64 \<Rightarrow> ws_world \<Rightarrow> ws_world" where
  "broadcast_time E t w =
     (if \<not> has_capability (ww_server w) Time_cap then w
      else for_clients (\<lambda>cid. update_session cid (\<lambda>c. snd (send_control_msg E (STime \<lparr> timestamp = t \<rparr>) c))) w)"

definition broadcast_playback_state :: "ws_env \<Rightarrow> PlaybackState \<Rightarrow> ws_world \<Rightarrow> ws_world" where
  "broadcast_playback_state E p w =
     (if \<not> has_capability (ww_server w) RangedPlayback then w
      else for_clients (\<lambda>cid. update_session cid (\<lambda>c. snd (send_control_msg E (SPlaybackState p) c))) w)"

definition send_status_to :: "ws_env \<Rightarrow> Status \<Rightarrow> u32 \<Rightarrow> ws_world \<Rightarrow> ws_world" where
  "send_status_to E st cid w =
     (case hm_get (ww_sessions w) cid of
        None \<Rightarrow> w
      | Some c \<Rightarrow>
          (case client_send_status E (ww_now w) st c (ww_throttler w) of
             None \<Rightarrow> w \<lparr> ww_panicked := True \<rparr>
           | Some (c', t) \<Rightarrow> w \<lparr> ww_sessions := hm_insert cid c' (ww_sessions w), ww_throttler := t \<rparr>))"

definition publish_status :: "ws_env \<Rightarrow> Status \<Rightarrow> ws_world \<Rightarrow> ws_world" where
  "publish_status E st w = for_clients (send_status_to E st) w"

definition remove_status :: "ws_env \<Rightarrow> string list \<Rightarrow> ws_world \<Rightarrow> ws_world" where
  "remove_status E ids w =
     for_clients (\<lambda>cid. update_session cid (\<lambda>c. snd (send_control_msg E (SRemoveStatus ids) c))) w"

section \<open>Parameter subscriptions\<close>

type_synonym param_subs = "(string, u32 hash_set) hash_map"

fun param_subscribe_loop :: "u32 \<Rightarrow> string list \<Rightarrow> param_subs \<times> string list \<Rightarrow> param_subs \<times> string list" where
  "param_subscribe_loop cid [] acc = acc"
| "param_subscribe_loop cid (name # names) (ps, new_names) =
     (case hm_get ps name of
        Some ids \<Rightarrow> param_subscribe_loop cid names (hm_insert name (hs_insert cid ids) ps, new_names)
      | None \<Rightarrow> param_subscribe_loop cid names (hm_insert name [cid] ps, new_names @ [name]))"

fun param_unsubscribe_loop :: "u32 \<Rightarrow> string list \<Rightarrow> param_subs \<times> string list \<Rightarrow> param_subs \<times> string list" where
  "param_unsubscribe_loop cid [] acc = acc"
| "param_unsubscribe_loop cid (name # names) (ps, old_names) =
     (case hm_get ps name of
        None \<Rightarrow> param_unsubscribe_loop cid names (ps, old_names)
      | Some ids \<Rightarrow>
          let ids' = hs_remove cid ids in
          if cid \<in> set ids \<and> ids' = []
          then param_unsubscribe_loop cid names (hm_remove name ps, old_names @ [name])
          else param_unsubscribe_loop cid names (hm_insert name ids' ps, old_names))"

text \<open>\<open>iter_mut\<close> over the map, followed by the removal of the names that were left without a
  subscriber.\<close>

definition param_unsubscribe_all :: "u32 \<Rightarrow> param_subs \<Rightarrow> param_subs \<times> string list" where
  "param_unsubscribe_all cid ps =
     (let old_names = map fst (filter (\<lambda>(name, ids). cid \<in> set ids \<and> hs_remove cid ids = []) ps);
          ps' = map (\<lambda>(name, ids). (name, hs_remove cid ids)) ps in
      (fold hm_remove old_names ps', old_names))"

definition set_params :: "param_subs \<Rightarrow> ws_world \<Rightarrow> ws_world" where
  "set_params ps w = update_server (\<lambda>s. s \<lparr> sv_subscribed_parameters := ps \<rparr>) w"

definition subscribe_parameters :: "u32 \<Rightarrow> string list \<Rightarrow> ws_world \<Rightarrow> ws_world" where
  "subscribe_parameters cid names w =
     (let (ps, new_names) = param_subscribe_loop cid names (sv_subscribed_parameters (ww_server w), []);
          w' = set_params ps w in
      if new_names \<noteq> [] then notify (On_parameters_subscribe new_names) w' else w')"

definition unsubscribe_parameters :: "u32 \<Rightarrow> string list \<Rightarrow> ws_world \<Rightarrow> ws_world" where
  "unsubscribe_parameters cid names w =
     (let (ps, old_names) = param_unsubscribe_loop cid names (sv_subscribed_parameters (ww_server w), []);
          w' = set_params ps w in
      if old_names \<noteq> [] then notify (On_parameters_unsubscribe old_names) w' else w')"

definition unsubscribe_all_parameters :: "u32 \<Rightarrow> ws_world \<Rightarrow> ws_world" where
  "unsubscribe_all_parameters cid w =
     (let (ps, old_names) = param_unsubscribe_all cid (sv_subscribed_parameters (ww_server w));
          w' = set_params ps w in
      if old_names \<noteq> [] then notify (On_parameters_unsubscribe old_names) w' else w')"

definition param_subscribed :: "param_subs \<Rightarrow> u32 \<Rightarrow> string \<Rightarrow> bool" where
  "param_subscribed ps cid name = (case hm_get ps name of Some ids \<Rightarrow> cid \<in> set ids | None \<Rightarrow> False)"

definition publish_parameter_values :: "ws_env \<Rightarrow> Parameter list \<Rightarrow> ws_world \<Rightarrow> ws_world" where
  "publish_parameter_values E parameters w =
     (if \<not> has_capability (ww_server w) Parameters then w
      else for_clients (\<lambda>cid w.
        let filtered = filter (\<lambda>p. param_subscribed (sv_subscribed_parameters (ww_server w)) cid (param_name p)) parameters in
        if filtered \<noteq> [] then update_session cid (update_parameters E filtered None) w else w) w)"

section \<open>Connection graph\<close>

definition set_graph :: "ConnectionGraph \<Rightarrow> ws_world \<Rightarrow> ws_world" where
  "set_graph g w = update_server (\<lambda>s. s \<lparr> sv_connection_graph := g \<rparr>) w"

definition subscribe_connection_graph :: "u32 \<Rightarrow> ws_world \<Rightarrow> ConnectionGraphUpdate option \<times> ws_world" where
  "subscribe_connection_graph cid w =
     (let graph = sv_connection_graph (ww_server w); is_first = \<not> graph_has_subscribers graph in
      case graph_add_subscriber cid graph of (added, graph') \<Rightarrow>
        if \<not> added then (None, set_graph graph' w)
        else
          let w' = set_graph graph' w;
              w'' = (if is_first then notify On_connection_graph_subscribe w' else w') in
          (Some (as_initial_update graph'), w''))"

definition unsubscribe_connection_graph :: "u32 \<Rightarrow> ws_world \<Rightarrow> bool \<times> ws_world" where
  "unsubscribe_connection_graph cid w =
     (case graph_remove_subscriber cid (sv_connection_graph (ww_server w)) of (removed, graph') \<Rightarrow>
        let w' = set_graph graph' w in
        if \<not> removed then (False, w')
        else (True, if \<not> graph_has_subscribers graph' then notify On_connection_graph_unsubscribe w' else w'))"

definition replace_connection_graph ::
  "ws_env \<Rightarrow> ConnectionGraph \<Rightarrow> ws_world \<Rightarrow> (unit, FoxgloveError) result \<times> ws_world" where
  "replace_connection_graph E new w =
     (if \<not> has_capability (ww_server w) ConnectionGraph_cap then (Inl ConnectionGraphNotSupported, w)
      else
        let (msg, graph) = graph_update (sv_connection_graph (ww_server w)) new in
        (Inr (), for_clients (\<lambda>cid w.
           if graph_is_subscriber cid graph
           then update_session cid (\<lambda>c. snd (send_control_msg E (SConnectionGraphUpdate msg) c)) w else w)
           (set_graph graph w)))"

section \<open>Start and stop\<close>

text \<open>\<open>bound\<close> is the outcome of binding the listening socket.\<close>

definition server_start :: "('addr, string) result \<Rightarrow> ws_world \<Rightarrow> ('addr, FoxgloveError) result \<times> ws_world" where
  "server_start bound w =
     (if sv_tasks (ww_server w) \<or> sv_cancelled (ww_server w) then (Inl ServerAlreadyStarted, w)
      else
        let w' = update_server (\<lambda>s. s \<lparr> sv_tasks := True \<rparr>) w in
        (case bound of Inl e \<Rightarrow> (Inl (Bind e), w') | Inr addr \<Rightarrow> (Inr addr, w')))"

text \<open>The boolean says whether a shutdown handle is returned.\<close>

definition server_stop :: "ws_world \<Rightarrow> bool \<times> ws_world" where
  "server_stop w =
     (if \<not> sv_tasks (ww_server w) then (False, w)
      else
        let (cs, frozen_clients) = cowvec_take_and_freeze (sv_clients (ww_server w));
            w' = update_server (\<lambda>s. s \<lparr> sv_tasks := False, sv_cancelled := True, sv_clients := frozen_clients \<rparr>) w in
        (True, fold (\<lambda>cid. update_session cid (client_shutdown ServerStopped)) cs w'))"

definition client_count :: "ws_world \<Rightarrow> nat" where
  "client_count w = length (inner (sv_clients (ww_server w)))"


section \<open>Lemmas\<close>

subsection \<open>Sessions\<close>

lemma update_session_fields [simp]:
  "ww_server (update_session cid f w) = ww_server w"
  "ww_server_alive (update_session cid f w) = ww_server_alive w"
  "ww_calls (update_session cid f w) = ww_calls w"
  "ww_service_calls (update_session cid f w) = ww_service_calls w"
  "ww_asset_calls (update_session cid f w) = ww_asset_calls w"
  "ww_panicked (update_session cid f w) = ww_panicked w"
  "ww_throttler (update_session cid f w) = ww_throttler w"
  "ww_now (update_session cid f w) = ww_now w"
  "ww_next_client_id (update_session cid f w) = ww_next_client_id w"
  "ww_next_sink_id (update_session cid f w) = ww_next_sink_id w"
  by (simp_all add: update_session_def split: option.split)

lemma update_session_get:
  "hm_get (ww_sessions (update_session cid f w)) i =
     (if i = cid then map_option f (hm_get (ww_sessions w) i) else hm_get (ww_sessions w) i)"
  by (auto simp: update_session_def hm_get_insert split: option.split)

lemma update_server_fields [simp]:
  "ww_server (update_server f w) = f (ww_server w)"
  "ww_sessions (update_server f w) = ww_sessions w"
  "ww_calls (update_server f w) = ww_calls w"
  "ww_panicked (update_server f w) = ww_panicked w"
  "ww_server_alive (update_server f w) = ww_server_alive w"
  "ww_service_calls (update_server f w) = ww_service_calls w"
  "ww_asset_calls (update_server f w) = ww_asset_calls w"
  by (simp_all add: update_server_def)

lemma notify_fields [simp]:
  "ww_server (notify call w) = ww_server w"
  "ww_sessions (notify call w) = ww_sessions w"
  "ww_panicked (notify call w) = ww_panicked w"
  "ww_server_alive (notify call w) = ww_server_alive w"
  "ww_service_calls (notify call w) = ww_service_calls w"
  "ww_asset_calls (notify call w) = ww_asset_calls w"
  by (simp_all add: notify_def)

text \<open>Every client of a list is handed its own update, once.\<close>

lemma fold_update_session_fields [simp]:
  "ww_server (fold (\<lambda>cid. update_session cid (f cid)) cs w) = ww_server w"
  "ww_calls (fold (\<lambda>cid. update_session cid (f cid)) cs w) = ww_calls w"
  "ww_panicked (fold (\<lambda>cid. update_session cid (f cid)) cs w) = ww_panicked w"
  by (induction cs arbitrary: w) simp_all

lemma fold_update_session_get:
  "distinct cs \<Longrightarrow> hm_get (ww_sessions (fold (\<lambda>cid. update_session cid (f cid)) cs w)) i =
     (if i \<in> set cs then map_option (f i) (hm_get (ww_sessions w) i) else hm_get (ww_sessions w) i)"
  by (induction cs arbitrary: w) (auto simp: update_session_get)

lemma update_session_id [simp]: "update_session cid (\<lambda>c. c) w = w"
  by (simp add: update_session_def hm_insert_same split: option.split)

lemma update_session_if:
  "(if b then update_session cid f w else w) = update_session cid (\<lambda>c. if b then f c else c) w"
  by simp

subsection \<open>Parameter subscriptions\<close>

definition params_wf :: "param_subs \<Rightarrow> bool" where
  "params_wf ps \<longleftrightarrow> hm_wf ps \<and> (\<forall>name ids. hm_get ps name = Some ids \<longrightarrow> ids \<noteq> [] \<and> distinct ids)"

text \<open>The abstract state: which client watches which name.\<close>

definition params_abs :: "param_subs \<Rightarrow> (u32 \<times> string) set" where
  "params_abs ps = {(cid, name). param_subscribed ps cid name}"

lemma params_abs_mem: "(cid, name) \<in> params_abs ps \<longleftrightarrow> (\<exists>ids. hm_get ps name = Some ids \<and> cid \<in> set ids)"
  by (simp add: params_abs_def param_subscribed_def split: option.split)

lemma params_abs_Nil [simp]: "params_abs [] = {}"
  by (simp add: params_abs_def param_subscribed_def)

lemma params_abs_names: "params_wf ps \<Longrightarrow> name \<in> snd ` params_abs ps \<longleftrightarrow> hm_get ps name \<noteq> None"
proof
  assume wf: "params_wf ps" and "hm_get ps name \<noteq> None"
  then obtain ids where "hm_get ps name = Some ids" "ids \<noteq> []" by (auto simp: params_wf_def)
  then have "(hd ids, name) \<in> params_abs ps" by (simp add: params_abs_mem)
  then show "name \<in> snd ` params_abs ps" by force
qed (auto simp: params_abs_mem)

lemma params_insert:
  assumes "params_wf ps" "ids \<noteq> []" "distinct ids"
  shows "params_wf (hm_insert name ids ps)"
    "params_abs (hm_insert name ids ps) = {(c, n). if n = name then c \<in> set ids else (c, n) \<in> params_abs ps}"
  using assms by (auto simp: params_wf_def hm_wf_insert hm_get_insert params_abs_mem split: if_splits)

lemma params_remove:
  assumes "params_wf ps"
  shows "params_wf (hm_remove name ps)"
    "params_abs (hm_remove name ps) = {(c, n) \<in> params_abs ps. n \<noteq> name}"
  using assms by (auto simp: params_wf_def hm_wf_remove hm_get_remove params_abs_mem split: if_splits)

lemma param_subscribe_loop_ok:
  "params_wf ps \<Longrightarrow> param_subscribe_loop cid names (ps, acc) = (ps', new) \<Longrightarrow>
   params_wf ps' \<and> params_abs ps' = params_abs ps \<union> {cid} \<times> set names
   \<and> (\<exists>fresh. new = acc @ fresh \<and> distinct fresh \<and> set fresh = set names - snd ` params_abs ps)"
proof (induction names arbitrary: ps acc)
  case (Cons name names)
  show ?case
  proof (cases "hm_get ps name")
    case None
    have ins: "params_wf (hm_insert name [cid] ps)"
      "params_abs (hm_insert name [cid] ps) = insert (cid, name) (params_abs ps)"
      using params_insert [OF Cons.prems(1), of "[cid]"] None by (auto simp: params_abs_mem)
    have "name \<notin> snd ` params_abs ps" using None params_abs_names [OF Cons.prems(1)] by simp
    then show ?thesis using Cons.IH [OF ins(1), of "acc @ [name]"] Cons.prems(2) None ins(2) by auto
  next
    case (Some ids)
    have "distinct (hs_insert cid ids)" "hs_insert cid ids \<noteq> []"
      using Cons.prems(1) Some by (auto simp: params_wf_def hs_insert_def)
    then have ins: "params_wf (hm_insert name (hs_insert cid ids) ps)"
      "params_abs (hm_insert name (hs_insert cid ids) ps) = insert (cid, name) (params_abs ps)"
      using params_insert [OF Cons.prems(1), of "hs_insert cid ids"] Some by (auto simp: params_abs_mem)
    have "name \<in> snd ` params_abs ps" using Some params_abs_names [OF Cons.prems(1)] by simp
    then have "set names - snd ` insert (cid, name) (params_abs ps) = set (name # names) - snd ` params_abs ps"
      by (simp add: insert_absorb)
    then show ?thesis using Cons.IH [OF ins(1), of acc] Cons.prems(2) Some ins(2) by simp
  qed
qed auto

text \<open>Taking one client from one name.\<close>

definition drop_subscriber :: "u32 \<Rightarrow> string \<Rightarrow> param_subs \<Rightarrow> param_subs" where
  "drop_subscriber cid name ps =
     (case hm_get ps name of
        None \<Rightarrow> ps
      | Some ids \<Rightarrow> if hs_remove cid ids = [] then hm_remove name ps else hm_insert name (hs_remove cid ids) ps)"

lemma drop_subscriber_ok:
  assumes "params_wf ps"
  shows "params_wf (drop_subscriber cid name ps)"
    "params_abs (drop_subscriber cid name ps) = params_abs ps - {(cid, name)}"
proof (atomize (full), cases "hm_get ps name")
  case None
  then show "params_wf (drop_subscriber cid name ps) \<and> params_abs (drop_subscriber cid name ps) = params_abs ps - {(cid, name)}"
    using assms by (auto simp: drop_subscriber_def params_abs_mem)
next
  case (Some ids)
  show "params_wf (drop_subscriber cid name ps) \<and> params_abs (drop_subscriber cid name ps) = params_abs ps - {(cid, name)}"
  proof (cases "hs_remove cid ids = []")
    case True
    then have "set ids \<subseteq> {cid}" using set_hs_remove [of cid ids] by auto
    then show ?thesis using True Some params_remove [OF assms] by (auto simp: drop_subscriber_def params_abs_mem)
  next
    case False
    have "distinct (hs_remove cid ids)" using assms Some by (simp add: params_wf_def distinct_hs_remove)
    then show ?thesis using False Some params_insert [OF assms False] by (auto simp: drop_subscriber_def params_abs_mem)
  qed
qed

lemma hs_remove_empty: "hs_remove c ids = [] \<longleftrightarrow> set ids \<subseteq> {c}"
  by (metis set_empty set_hs_remove Diff_eq_empty_iff)

lemma last_subscriber:
  "params_wf ps \<Longrightarrow> hm_get ps name = Some ids \<Longrightarrow>
     cid \<in> set ids \<and> hs_remove cid ids = [] \<longleftrightarrow> {c. (c, name) \<in> params_abs ps} = {cid}"
  by (auto simp: params_abs_mem hs_remove_empty)

lemma param_unsubscribe_loop_step:
  assumes "params_wf ps"
  shows "param_unsubscribe_loop cid (name # names) (ps, acc) =
    param_unsubscribe_loop cid names (drop_subscriber cid name ps,
      if {c. (c, name) \<in> params_abs ps} = {cid} then acc @ [name] else acc)"
proof (cases "hm_get ps name")
  case (Some ids)
  then have "ids \<noteq> []" using assms by (simp add: params_wf_def)
  then have "hs_remove cid ids = [] \<Longrightarrow> cid \<in> set ids"
    by (cases ids) (auto simp: hs_remove_empty)
  then show ?thesis using Some last_subscriber [OF assms Some, of cid]
    by (auto simp: drop_subscriber_def Let_def)
next
  case None
  then have "{c. (c, name) \<in> params_abs ps} = {}" by (simp add: params_abs_mem)
  then show ?thesis using None by (simp add: drop_subscriber_def)
qed

lemma param_unsubscribe_loop_ok:
  "params_wf ps \<Longrightarrow> param_unsubscribe_loop cid names (ps, acc) = (ps', old) \<Longrightarrow>
   params_wf ps' \<and> params_abs ps' = params_abs ps - {cid} \<times> set names
   \<and> (\<exists>gone. old = acc @ gone \<and> distinct gone
        \<and> set gone = {n \<in> set names. {c. (c, n) \<in> params_abs ps} = {cid}})"
proof (induction names arbitrary: ps acc)
  case (Cons name names)
  note d = drop_subscriber_ok [OF Cons.prems(1), of cid name]
  let ?last = "{c. (c, name) \<in> params_abs ps} = {cid}"
  obtain gone where ih: "params_wf ps'" "params_abs ps' = params_abs (drop_subscriber cid name ps) - {cid} \<times> set names"
    "old = (if ?last then acc @ [name] else acc) @ gone" "distinct gone"
    "set gone = {n \<in> set names. {c. (c, n) \<in> params_abs (drop_subscriber cid name ps)} = {cid}}"
    using Cons.IH [OF d(1)] Cons.prems(2) unfolding param_unsubscribe_loop_step [OF Cons.prems(1)] by blast
  have gone: "set gone = {n \<in> set names. n \<noteq> name \<and> {c. (c, n) \<in> params_abs ps} = {cid}}"
    unfolding ih(5) d(2) by auto
  have "old = acc @ (if ?last then [name] else []) @ gone" using ih(3) by simp
  moreover have "distinct ((if ?last then [name] else []) @ gone)"
    "set ((if ?last then [name] else []) @ gone) = {n \<in> set (name # names). {c. (c, n) \<in> params_abs ps} = {cid}}"
    using ih(4) gone by auto
  ultimately show ?case using ih(1,2) d(2) by auto
qed auto

lemma hm_get_fold_remove: "hm_get (fold hm_remove ns m) n = (if n \<in> set ns then None else hm_get m n)"
  by (induction ns arbitrary: m) (auto simp: hm_get_remove)

lemma hm_wf_fold_remove: "hm_wf m \<Longrightarrow> hm_wf (fold hm_remove ns m)"
  by (induction ns arbitrary: m) (simp_all add: hm_wf_remove)

lemma param_unsubscribe_all_ok:
  assumes "params_wf ps" "param_unsubscribe_all cid ps = (ps', old)"
  shows "params_wf ps' \<and> params_abs ps' = params_abs ps - {cid} \<times> UNIV
   \<and> distinct old \<and> set old = {n. {c. (c, n) \<in> params_abs ps} = {cid}}"
proof -
  have wf: "hm_wf ps" using assms(1) by (simp add: params_wf_def)
  have old: "old = map fst (filter (\<lambda>(name, ids). cid \<in> set ids \<and> hs_remove cid ids = []) ps)"
    using assms(2) by (simp add: param_unsubscribe_all_def Let_def)
  then have set_old: "n \<in> set old \<longleftrightarrow> (\<exists>ids. hm_get ps n = Some ids \<and> cid \<in> set ids \<and> hs_remove cid ids = [])" for n
    using hm_wf_in_iff [OF wf] by (auto simp: image_iff)
  have get: "hm_get ps' n = (if n \<in> set old then None else map_option (hs_remove cid) (hm_get ps n))" for n
    using assms(2) by (auto simp: param_unsubscribe_all_def Let_def old [symmetric] hm_get_fold_remove hm_get_map)
  have set_old': "n \<in> set old \<longleftrightarrow> {c. (c, n) \<in> params_abs ps} = {cid}" for n
    using set_old [of n] last_subscriber [OF assms(1), of n] params_abs_mem [of _ n ps] by (cases "hm_get ps n") auto
  have "params_wf ps'"
  proof -
    have "hm_wf ps'" using assms(2) wf by (auto simp: param_unsubscribe_all_def Let_def hm_wf_fold_remove hm_wf_map)
    moreover have "ids \<noteq> [] \<and> distinct ids" if g: "hm_get ps' n = Some ids" for n ids
    proof -
      obtain ids' where i: "hm_get ps n = Some ids'" "ids = hs_remove cid ids'" "n \<notin> set old"
        using g by (auto simp: get split: if_splits)
      moreover have "ids' \<noteq> []" "distinct ids'" using assms(1) i(1) by (auto simp: params_wf_def)
      ultimately show ?thesis using set_old [of n] by (auto simp: distinct_hs_remove hs_remove_empty)
        (metis hs_remove_empty insertE list.set_intros(1) neq_Nil_conv singletonD subsetD)
    qed
    ultimately show ?thesis by (simp add: params_wf_def)
  qed
  moreover have "params_abs ps' = params_abs ps - {cid} \<times> UNIV"
  proof -
    have "(c, n) \<in> params_abs ps' \<longleftrightarrow> c \<noteq> cid \<and> (c, n) \<in> params_abs ps" for c n
      using set_old' [of n] by (auto simp: params_abs_mem get)
    then show ?thesis by auto
  qed
  moreover have "distinct old" using wf unfolding old hm_wf_def by (simp add: distinct_map_filter)
  ultimately show ?thesis using set_old' by blast
qed

subsection \<open>Listeners that are told of the first and the last subscriber\<close>

text \<open>What a listener knows of the watched names from the calls it got. A call that repeats
  what the listener already knows gives \<open>None\<close>.\<close>

fun watched_names :: "listener_call list \<Rightarrow> string set \<Rightarrow> string set option" where
  "watched_names [] S = Some S"
| "watched_names (On_parameters_subscribe ns # calls) S =
     (if distinct ns \<and> set ns \<inter> S = {} then watched_names calls (S \<union> set ns) else None)"
| "watched_names (On_parameters_unsubscribe ns # calls) S =
     (if distinct ns \<and> set ns \<subseteq> S then watched_names calls (S - set ns) else None)"
| "watched_names (_ # calls) S = watched_names calls S"

fun watched_graph :: "listener_call list \<Rightarrow> bool \<Rightarrow> bool option" where
  "watched_graph [] b = Some b"
| "watched_graph (On_connection_graph_subscribe # calls) b = (if b then None else watched_graph calls True)"
| "watched_graph (On_connection_graph_unsubscribe # calls) b = (if b then watched_graph calls False else None)"
| "watched_graph (_ # calls) b = watched_graph calls b"

lemma watched_names_append:
  "watched_names (xs @ ys) S = Option.bind (watched_names xs S) (watched_names ys)"
  by (induction xs S rule: watched_names.induct) simp_all

lemma watched_graph_append:
  "watched_graph (xs @ ys) b = Option.bind (watched_graph xs b) (watched_graph ys)"
  by (induction xs b rule: watched_graph.induct) simp_all

text \<open>The contract that the server keeps towards the listener for parameters and for the
  connection graph: every operation changes the abstract set of subscriptions as specified,
  and the calls it makes take the listener from the old view of that set to the new one.\<close>

locale notified_subscriptions =
  fixes inv :: "ws_world \<Rightarrow> bool"
    and subs_of :: "ws_world \<Rightarrow> 's"
    and exec :: "'op \<Rightarrow> ws_world \<Rightarrow> ws_world"
    and spec :: "'op \<Rightarrow> 's \<Rightarrow> 's"
    and view :: "'s \<Rightarrow> 'v"
    and replay :: "listener_call list \<Rightarrow> 'v \<Rightarrow> 'v option"
  assumes replay_Nil: "replay [] v = Some v"
    and replay_append: "replay (xs @ ys) v = Option.bind (replay xs v) (replay ys)"
    and step_inv: "inv w \<Longrightarrow> inv (exec e w)"
    and step_spec: "inv w \<Longrightarrow> subs_of (exec e w) = spec e (subs_of w)"
    and step_calls: "inv w \<Longrightarrow> \<exists>calls. ww_calls (exec e w) = ww_calls w @ calls
      \<and> replay calls (view (subs_of w)) = Some (view (spec e (subs_of w)))"
begin

lemma run_ok:
  "inv w \<Longrightarrow> inv (fold exec es w) \<and> subs_of (fold exec es w) = fold spec es (subs_of w)
   \<and> (\<exists>calls. ww_calls (fold exec es w) = ww_calls w @ calls
        \<and> replay calls (view (subs_of w)) = Some (view (fold spec es (subs_of w))))"
proof (induction es arbitrary: w)
  case (Cons e es)
  obtain c1 where c1: "ww_calls (exec e w) = ww_calls w @ c1"
    "replay c1 (view (subs_of w)) = Some (view (spec e (subs_of w)))"
    using step_calls [OF Cons.prems] by blast
  obtain c2 where c2: "ww_calls (fold exec es (exec e w)) = ww_calls (exec e w) @ c2"
    "replay c2 (view (subs_of (exec e w))) = Some (view (fold spec es (subs_of (exec e w))))"
    using Cons.IH [OF step_inv [OF Cons.prems, of e]] by blast
  show ?case using Cons.IH [OF step_inv [OF Cons.prems, of e]] step_spec [OF Cons.prems, of e] c1 c2
    by (auto simp: replay_append intro!: exI [of _ "c1 @ c2"])
qed (simp add: replay_Nil)

text \<open>From a state in which the listener's view is right, it stays right.\<close>

lemma view_kept:
  assumes "inv w" "replay (ww_calls w) v0 = Some (view (subs_of w))"
  shows "replay (ww_calls (fold exec es w)) v0 = Some (view (fold spec es (subs_of w)))"
  using run_ok [OF assms(1), of es] assms(2) by (auto simp: replay_append)

end

datatype param_op =
  Param_subscribe u32 "string list"
| Param_unsubscribe u32 "string list"
| Param_unsubscribe_all u32

fun param_exec :: "param_op \<Rightarrow> ws_world \<Rightarrow> ws_world" where
  "param_exec (Param_subscribe cid names) w = subscribe_parameters cid names w"
| "param_exec (Param_unsubscribe cid names) w = unsubscribe_parameters cid names w"
| "param_exec (Param_unsubscribe_all cid) w = unsubscribe_all_parameters cid w"

fun param_spec :: "param_op \<Rightarrow> (u32 \<times> string) set \<Rightarrow> (u32 \<times> string) set" where
  "param_spec (Param_subscribe cid names) A = A \<union> {cid} \<times> set names"
| "param_spec (Param_unsubscribe cid names) A = A - {cid} \<times> set names"
| "param_spec (Param_unsubscribe_all cid) A = A - {cid} \<times> UNIV"

definition params_inv :: "ws_world \<Rightarrow> bool" where
  "params_inv w \<longleftrightarrow> params_wf (sv_subscribed_parameters (ww_server w)) \<and> sv_listener (ww_server w) \<noteq> None"

definition params_of :: "ws_world \<Rightarrow> (u32 \<times> string) set" where
  "params_of w = params_abs (sv_subscribed_parameters (ww_server w))"

lemma names_gone:
  fixes A :: "(u32 \<times> string) set"
  shows "snd ` (A - {cid} \<times> N) = snd ` A - {n \<in> N. {c. (c, n) \<in> A} = {cid}}"
proof (rule set_eqI)
  fix n
  have mem: "n \<in> snd ` X \<longleftrightarrow> (\<exists>c. (c, n) \<in> X)" for X :: "(u32 \<times> string) set" by force
  show "n \<in> snd ` (A - {cid} \<times> N) \<longleftrightarrow> n \<in> snd ` A - {n \<in> N. {c. (c, n) \<in> A} = {cid}}"
    unfolding mem Diff_iff mem_Collect_eq by blast
qed

lemma params_told:
  assumes "params_inv w" "params_wf ps"
  shows "params_inv (set_params ps w)" "params_inv (notify call (set_params ps w))"
    "params_of (set_params ps w) = params_abs ps" "params_of (notify call (set_params ps w)) = params_abs ps"
    "ww_calls (set_params ps w) = ww_calls w" "ww_calls (notify call (set_params ps w)) = ww_calls w @ [call]"
  using assms by (simp_all add: params_inv_def params_of_def set_params_def update_server_def notify_def)

lemma param_exec_ok:
  assumes "params_inv w"
  shows "params_inv (param_exec e w) \<and> params_of (param_exec e w) = param_spec e (params_of w)
    \<and> (\<exists>calls. ww_calls (param_exec e w) = ww_calls w @ calls
        \<and> watched_names calls (snd ` params_of w) = Some (snd ` param_spec e (params_of w)))"
proof -
  let ?ps = "sv_subscribed_parameters (ww_server w)"
  have wf: "params_wf ?ps" using assms by (simp add: params_inv_def)
  have gone: "params_inv (if old \<noteq> [] then notify (On_parameters_unsubscribe old) (set_params ps w) else set_params ps w)
      \<and> params_of (if old \<noteq> [] then notify (On_parameters_unsubscribe old) (set_params ps w) else set_params ps w)
          = params_of w - {cid} \<times> N
      \<and> (\<exists>calls. ww_calls (if old \<noteq> [] then notify (On_parameters_unsubscribe old) (set_params ps w) else set_params ps w)
          = ww_calls w @ calls \<and> watched_names calls (snd ` params_of w) = Some (snd ` (params_of w - {cid} \<times> N)))"
    if o: "params_wf ps" "params_abs ps = params_abs ?ps - {cid} \<times> N" "distinct old"
      "set old = {n \<in> N. {c. (c, n) \<in> params_abs ?ps} = {cid}}" for ps old cid N
  proof -
    have "snd ` (params_abs ?ps - {cid} \<times> N) = snd ` params_abs ?ps - set old" unfolding o(4) by (rule names_gone)
    moreover have "set old \<subseteq> snd ` params_abs ?ps" unfolding o(4) by force
    ultimately show ?thesis
      using o(2,3) params_told [OF assms o(1)]
      by (cases "old = []") (auto simp: params_of_def)
  qed
  show ?thesis
  proof (cases e)
    case (Param_subscribe cid names)
    obtain ps new where l: "param_subscribe_loop cid names (?ps, []) = (ps, new)" by fastforce
    have o: "params_wf ps" "params_abs ps = params_abs ?ps \<union> {cid} \<times> set names" "distinct new"
      "set new = set names - snd ` params_abs ?ps"
      using param_subscribe_loop_ok [OF wf l] by auto
    have v: "snd ` (params_abs ?ps \<union> {cid} \<times> set names) = snd ` params_abs ?ps \<union> set new"
      unfolding o(4) by (auto simp: image_Un snd_image_times)
    have disj: "set new \<inter> snd ` params_abs ?ps = {}" unfolding o(4) by auto
    show ?thesis
      using Param_subscribe l o v disj params_told [OF assms o(1)]
      by (cases "new = []") (auto simp: subscribe_parameters_def params_of_def Let_def)
  next
    case (Param_unsubscribe cid names)
    obtain ps old where l: "param_unsubscribe_loop cid names (?ps, []) = (ps, old)" by fastforce
    have o: "params_wf ps" "params_abs ps = params_abs ?ps - {cid} \<times> set names" "distinct old"
      "set old = {n \<in> set names. {c. (c, n) \<in> params_abs ?ps} = {cid}}"
      using param_unsubscribe_loop_ok [OF wf l] by auto
    show ?thesis using gone [OF o] l Param_unsubscribe by (simp add: unsubscribe_parameters_def Let_def)
  next
    case (Param_unsubscribe_all cid)
    obtain ps old where l: "param_unsubscribe_all cid ?ps = (ps, old)" by fastforce
    have o: "params_wf ps" "params_abs ps = params_abs ?ps - {cid} \<times> UNIV" "distinct old"
      "set old = {n \<in> UNIV. {c. (c, n) \<in> params_abs ?ps} = {cid}}"
      using param_unsubscribe_all_ok [OF wf l] by auto
    show ?thesis using gone [OF o] l Param_unsubscribe_all by (simp add: unsubscribe_all_parameters_def Let_def)
  qed
qed

interpretation param_watch: notified_subscriptions params_inv params_of param_exec param_spec "\<lambda>A. snd ` A" watched_names
  by unfold_locales (use param_exec_ok watched_names_append in auto)

datatype graph_op =
  Graph_subscribe u32
| Graph_unsubscribe u32
| Graph_replace ConnectionGraph

fun graph_exec :: "ws_env \<Rightarrow> graph_op \<Rightarrow> ws_world \<Rightarrow> ws_world" where
  "graph_exec E (Graph_subscribe cid) w = snd (subscribe_connection_graph cid w)"
| "graph_exec E (Graph_unsubscribe cid) w = snd (unsubscribe_connection_graph cid w)"
| "graph_exec E (Graph_replace g) w = snd (replace_connection_graph E g w)"

fun graph_spec :: "graph_op \<Rightarrow> u32 set \<Rightarrow> u32 set" where
  "graph_spec (Graph_subscribe cid) A = insert cid A"
| "graph_spec (Graph_unsubscribe cid) A = A - {cid}"
| "graph_spec (Graph_replace g) A = A"

definition graph_subs_of :: "ws_world \<Rightarrow> u32 set" where
  "graph_subs_of w = set (graph_subscribers (sv_connection_graph (ww_server w)))"

definition listening :: "ws_world \<Rightarrow> bool" where
  "listening w \<longleftrightarrow> sv_listener (ww_server w) \<noteq> None"

lemma set_graph_fields [simp]:
  "ww_calls (set_graph g w) = ww_calls w"
  "sv_listener (ww_server (set_graph g w)) = sv_listener (ww_server w)"
  "sv_connection_graph (ww_server (set_graph g w)) = g"
  "sv_clients (ww_server (set_graph g w)) = sv_clients (ww_server w)"
  "ww_sessions (set_graph g w) = ww_sessions w"
  by (simp_all add: set_graph_def)

lemma replace_connection_graph_eq:
  "has_capability (ww_server w) ConnectionGraph_cap \<Longrightarrow> replace_connection_graph E new w =
    (Inr (), fold (\<lambda>cid. update_session cid (\<lambda>c. if cid \<in> graph_subs_of w
        then snd (send_control_msg E (SConnectionGraphUpdate (graph_diff (sv_connection_graph (ww_server w)) new)) c) else c))
      (inner (sv_clients (ww_server w)))
      (set_graph (snd (graph_update (sv_connection_graph (ww_server w)) new)) w))"
  by (simp add: replace_connection_graph_def for_clients_def graph_update_def graph_is_subscriber_def
      graph_subs_of_def update_session_if)

lemma replace_connection_graph_refused:
  "\<not> has_capability (ww_server w) ConnectionGraph_cap \<Longrightarrow>
     replace_connection_graph E new w = (Inl ConnectionGraphNotSupported, w)"
  by (simp add: replace_connection_graph_def)

lemma graph_exec_ok:
  assumes "listening w"
  shows "listening (graph_exec E e w) \<and> graph_subs_of (graph_exec E e w) = graph_spec e (graph_subs_of w)
    \<and> (\<exists>calls. ww_calls (graph_exec E e w) = ww_calls w @ calls
        \<and> watched_graph calls (graph_subs_of w \<noteq> {}) = Some (graph_spec e (graph_subs_of w) \<noteq> {}))"
proof (cases e)
  case (Graph_subscribe cid)
  then show ?thesis using assms
    by (auto simp: subscribe_connection_graph_def graph_add_subscriber_def graph_has_subscribers_def notify_def
        listening_def graph_subs_of_def Let_def insert_absorb)
next
  case (Graph_unsubscribe cid)
  have "cid \<notin> A \<Longrightarrow> A - {cid} = A" "cid \<in> A \<Longrightarrow> A \<subseteq> {cid} \<longleftrightarrow> A - {cid} = {}" for A by auto
  with Graph_unsubscribe show ?thesis using assms
    by (cases "cid \<in> graph_subs_of w")
      (auto simp: unsubscribe_connection_graph_def graph_remove_subscriber_def graph_has_subscribers_def notify_def
        listening_def graph_subs_of_def Let_def hs_remove_empty)
next
  case (Graph_replace g)
  then show ?thesis using assms
    by (cases "has_capability (ww_server w) ConnectionGraph_cap")
      (simp_all add: replace_connection_graph_eq replace_connection_graph_refused listening_def graph_subs_of_def
        graph_update_def)
qed

interpretation graph_watch: notified_subscriptions listening graph_subs_of "graph_exec E" graph_spec "\<lambda>A. A \<noteq> {}" watched_graph
  for E
  by unfold_locales (use graph_exec_ok watched_graph_append in auto)

subsection \<open>Delivery of a broadcast\<close>

lemma send_control_msg_deliver:
  "flume_laws (env_flume E) \<Longrightarrow> queues_ok c \<Longrightarrow> snd (send_control_msg E m c) = deliver [ws E m] c"
  by (simp add: send_control_msg_def send_control_ws_deliver)

lemma update_parameters_deliver:
  "flume_laws (env_flume E) \<Longrightarrow> queues_ok c \<Longrightarrow> update_parameters E ps None c =
     deliver [ws E (SParameterValues (parameter_values_new (filter (\<lambda>p. param_value p \<noteq> None) ps)))] c"
  by (simp add: update_parameters_def send_control_msg_deliver)

text \<open>The parameters that client \<open>cid\<close> watches.\<close>

definition watched_parameters :: "ws_world \<Rightarrow> u32 \<Rightarrow> Parameter list \<Rightarrow> Parameter list" where
  "watched_parameters w cid ps = filter (\<lambda>p. (cid, param_name p) \<in> params_of w) ps"

lemma publish_parameter_values_eq:
  assumes "has_capability (ww_server w) Parameters"
  shows "publish_parameter_values E ps w = fold (\<lambda>cid. update_session cid (\<lambda>c.
      if watched_parameters w cid ps \<noteq> [] then update_parameters E (watched_parameters w cid ps) None c else c))
      (inner (sv_clients (ww_server w))) w"
proof -
  let ?step = "\<lambda>cid w.
    let filtered = filter (\<lambda>p. param_subscribed (sv_subscribed_parameters (ww_server w)) cid (param_name p)) ps in
        if filtered \<noteq> [] then update_session cid (update_parameters E filtered None) w else w"
  let ?to = "\<lambda>cid. update_session cid (\<lambda>c.
      if watched_parameters w cid ps \<noteq> [] then update_parameters E (watched_parameters w cid ps) None c else c)"
  have "fold ?step cs w' = fold ?to cs w'" if "ww_server w' = ww_server w" for cs w'
    using that
  proof (induction cs arbitrary: w')
    case (Cons cid cs)
    have "?step cid w' = ?to cid w'"
      using Cons.prems by (simp add: watched_parameters_def params_of_def params_abs_def Let_def)
    then show ?case using Cons by simp
  qed simp
  then show ?thesis using assms by (simp add: publish_parameter_values_def for_clients_def)
qed

section \<open>Properties\<close>

text \<open>C36: whatever sequence of requests and disconnections the clients make, the server's map of
  parameter subscriptions is the set of the pairs of client and name that were subscribed and
  not unsubscribed since, and the listener, replaying the calls it got, knows exactly the names
  that have a subscriber; it is never told twice of the same name.\<close>

theorem parameter_watch_refines:
  assumes "params_inv w" "watched_names (ww_calls w) {} = Some (snd ` params_of w)"
  shows "params_inv (fold param_exec ops w)
    \<and> params_of (fold param_exec ops w) = fold param_spec ops (params_of w)
    \<and> watched_names (ww_calls (fold param_exec ops w)) {} = Some (snd ` fold param_spec ops (params_of w))"
  using param_watch.run_ok [OF assms(1)] param_watch.view_kept [OF assms] by blast

definition demo_listener :: listener where
  "demo_listener = \<lparr> get_parameters_answer = (\<lambda>_. []), set_parameters_answer = (\<lambda>_. []), playback_answer = (\<lambda>_. None) \<rparr>"

definition demo_server :: Server where
  "demo_server = \<lparr> sv_message_backlog_size = 8, sv_session_id = ''s'', sv_name = ''demo'', sv_clients = cowvec_new,
     sv_listener = Some demo_listener,
     sv_capabilities = [ClientPublish, Parameters, Services_cap, Assets, ConnectionGraph_cap],
     sv_subscribed_parameters = [], sv_supported_encodings = [''json''], sv_connection_graph = graph_new,
     sv_cancelled = False, sv_services = service_map_default, sv_fetch_asset_handler = True, sv_tasks = False,
     sv_server_info = [], sv_playback_time_range = None \<rparr>"

definition demo_world :: ws_world where
  "demo_world = \<lparr> ww_sessions = [(7, demo_session)], ww_server = demo_server \<lparr> sv_clients := \<lparr> inner = [7], frozen = False \<rparr> \<rparr>,
     ww_server_alive = True, ww_calls = [], ww_service_calls = [], ww_asset_calls = [], ww_next_client_id = 8,
     ww_next_sink_id = 4, ww_throttler = throttler_new 30, ww_now = 0, ww_panicked = False \<rparr>"

theorem parameter_watch_refines_witness:
  "params_of (fold param_exec [Param_subscribe 7 [''a'', ''b''], Param_subscribe 9 [''a''], Param_unsubscribe_all 7] demo_world)
      = {(9, ''a'')}
   \<and> watched_names (ww_calls (fold param_exec
       [Param_subscribe 7 [''a'', ''b''], Param_subscribe 9 [''a''], Param_unsubscribe_all 7] demo_world)) {} = Some {''a''}"
proof -
  have "params_of demo_world = {}" by (simp add: params_of_def demo_world_def demo_server_def)
  moreover have "params_inv demo_world" "ww_calls demo_world = []"
    by (simp_all add: params_inv_def params_wf_def demo_world_def demo_server_def hm_wf_Nil)
  moreover have "fold param_spec [Param_subscribe 7 [''a'', ''b''], Param_subscribe 9 [''a''], Param_unsubscribe_all 7] {}
      = {(9, ''a'')}" by auto
  ultimately show ?thesis
    using parameter_watch_refines [of demo_world
      "[Param_subscribe 7 [''a'', ''b''], Param_subscribe 9 [''a''], Param_unsubscribe_all 7]"] by simp
qed

text \<open>The same for the connection graph: the listener's last call says whether the graph has
  a subscriber, calls alternate, and replacing the graph leaves the subscribers alone; a
  replacement queues the difference for exactly the clients that are subscribed.\<close>

theorem graph_watch_refines:
  assumes "listening w" "watched_graph (ww_calls w) False = Some (graph_subs_of w \<noteq> {})"
    "env_laws E" "distinct (inner (sv_clients (ww_server w)))"
  shows "graph_subs_of (fold (graph_exec E) ops w) = fold graph_spec ops (graph_subs_of w)
    \<and> watched_graph (ww_calls (fold (graph_exec E) ops w)) False = Some (fold graph_spec ops (graph_subs_of w) \<noteq> {})
    \<and> (has_capability (ww_server w) ConnectionGraph_cap \<and> hm_get (ww_sessions w) cid = Some c \<and> queues_ok c \<longrightarrow>
        hm_get (ww_sessions (graph_exec E (Graph_replace g) w)) cid =
          Some (if cid \<in> set (inner (sv_clients (ww_server w))) \<and> cid \<in> graph_subs_of w
                then deliver [ws E (SConnectionGraphUpdate (graph_diff (sv_connection_graph (ww_server w)) g))] c else c))"
proof -
  have "flume_laws (env_flume E)" using assms(3) by (simp add: env_laws_def)
  then show ?thesis
    using graph_watch.run_ok [OF assms(1), of E ops] graph_watch.view_kept [OF assms(1,2), of E ops] assms(4)
    by (auto simp: replace_connection_graph_eq fold_update_session_get send_control_msg_deliver)
qed

theorem graph_watch_refines_witness:
  "graph_subs_of (fold (graph_exec demo_env) [Graph_subscribe 7, Graph_replace graph_new, Graph_unsubscribe 7] demo_world) = {}
   \<and> watched_graph (ww_calls (fold (graph_exec demo_env) [Graph_subscribe 7, Graph_replace graph_new] demo_world)) False = Some True"
proof -
  have "graph_subs_of demo_world = {}" "ww_calls demo_world = []" "listening demo_world"
    "inner (sv_clients (ww_server demo_world)) = [7]"
    by (simp_all add: graph_subs_of_def listening_def demo_world_def demo_server_def graph_new_def)
  then show ?thesis
    using graph_watch_refines [OF _ _ demo_env_laws, of demo_world "[Graph_subscribe 7, Graph_replace graph_new, Graph_unsubscribe 7]"]
      graph_watch_refines [OF _ _ demo_env_laws, of demo_world "[Graph_subscribe 7, Graph_replace graph_new]"] by simp
qed

text \<open>publishing parameter values queues for each connected client the values that are set of
  exactly the parameters it watches, in one message, and nothing for a client that watches none;
  a server without the capability sends nothing.\<close>

theorem publish_reaches_watchers:
  assumes "env_laws E" "distinct (inner (sv_clients (ww_server w)))" "hm_get (ww_sessions w) cid = Some c" "queues_ok c"
  shows "hm_get (ww_sessions (publish_parameter_values E ps w)) cid =
    Some (if has_capability (ww_server w) Parameters \<and> cid \<in> set (inner (sv_clients (ww_server w)))
             \<and> watched_parameters w cid ps \<noteq> []
          then deliver [ws E (SParameterValues (parameter_values_new
                 (filter (\<lambda>p. param_value p \<noteq> None) (watched_parameters w cid ps))))] c
          else c)"
proof (cases "has_capability (ww_server w) Parameters")
  case True
  have "flume_laws (env_flume E)" using assms(1) by (simp add: env_laws_def)
  then show ?thesis using True assms(2-4)
    by (simp add: publish_parameter_values_eq fold_update_session_get update_parameters_deliver)
qed (use assms(3) in \<open>simp add: publish_parameter_values_def\<close>)

definition demo_parameter :: Parameter where
  "demo_parameter = \<lparr> param_name = ''a'', param_type = None, param_value = Some (PBool True) \<rparr>"

definition demo_watching :: ws_world where
  "demo_watching = demo_world \<lparr> ww_server := (ww_server demo_world) \<lparr> sv_subscribed_parameters := [(''a'', [7])] \<rparr> \<rparr>"

theorem publish_reaches_watchers_witness:
  "hm_get (ww_sessions (publish_parameter_values demo_env [demo_parameter, demo_parameter \<lparr> param_name := ''b'' \<rparr>] demo_watching)) 7
     = Some (deliver [ws demo_env (SParameterValues (parameter_values_new [demo_parameter]))] demo_session)"
proof -
  let ?ps = "[demo_parameter, demo_parameter \<lparr> param_name := ''b'' \<rparr>]"
  have "watched_parameters demo_watching 7 ?ps = [demo_parameter]"
    by (simp add: watched_parameters_def params_of_def params_abs_mem demo_watching_def demo_parameter_def)
  moreover have "has_capability (ww_server demo_watching) Parameters" "inner (sv_clients (ww_server demo_watching)) = [7]"
    "hm_get (ww_sessions demo_watching) 7 = Some demo_session"
    by (simp_all add: demo_watching_def demo_world_def demo_server_def has_capability_def)
  ultimately show ?thesis
    using publish_reaches_watchers [OF demo_env_laws, of demo_watching 7 demo_session ?ps] demo_session_ok(1)
    by (simp add: demo_parameter_def)
qed

datatype phase = Fresh | Started | Stopped

datatype life_op = Start "(string, string) result" | Stop

definition phase_of :: "ws_world \<Rightarrow> phase" where
  "phase_of w = (if sv_cancelled (ww_server w) then Stopped else if sv_tasks (ww_server w) then Started else Fresh)"

fun life_exec :: "life_op \<Rightarrow> ws_world \<Rightarrow> bool \<times> ws_world" where
  "life_exec (Start bound) w = (case server_start bound w of (r, w') \<Rightarrow> (r \<noteq> Inl ServerAlreadyStarted, w'))"
| "life_exec Stop w = server_stop w"

fun phase_step :: "life_op \<Rightarrow> phase \<Rightarrow> bool \<times> phase" where
  "phase_step (Start _) Fresh = (True, Started)"
| "phase_step Stop Started = (True, Stopped)"
| "phase_step _ p = (False, p)"

definition life_inv :: "ws_world \<Rightarrow> bool" where
  "life_inv w \<longleftrightarrow> distinct (inner (sv_clients (ww_server w)))
     \<and> (sv_cancelled (ww_server w) \<longrightarrow> \<not> sv_tasks (ww_server w) \<and> sv_clients (ww_server w) = \<lparr> inner = [], frozen = True \<rparr>)"

fun answers :: "('op \<Rightarrow> 's \<Rightarrow> bool \<times> 's) \<Rightarrow> 'op list \<Rightarrow> 's \<Rightarrow> bool list" where
  "answers f [] s = []"
| "answers f (e # es) s = (case f e s of (b, s') \<Rightarrow> b # answers f es s')"

lemma server_stop_started:
  "sv_tasks (ww_server w) \<Longrightarrow> server_stop w = (True, fold (\<lambda>cid. update_session cid (client_shutdown ServerStopped))
     (inner (sv_clients (ww_server w))) (update_server (\<lambda>s. s \<lparr> sv_tasks := False, sv_cancelled := True,
       sv_clients := \<lparr> inner = [], frozen = True \<rparr> \<rparr>) w))"
  by (simp add: server_stop_def cowvec_take_and_freeze_def)

lemma life_step:
  assumes "life_inv w"
  shows "fst (life_exec e w) = fst (phase_step e (phase_of w))
    \<and> phase_of (snd (life_exec e w)) = snd (phase_step e (phase_of w)) \<and> life_inv (snd (life_exec e w))"
proof (cases e)
  case (Start bound)
  then show ?thesis using assms
    by (cases bound; cases "sv_cancelled (ww_server w)") (simp_all add: life_inv_def phase_of_def server_start_def)
next
  case Stop
  show ?thesis
  proof (cases "sv_tasks (ww_server w)")
    case True
    then have "\<not> sv_cancelled (ww_server w)" using assms by (auto simp: life_inv_def)
    then show ?thesis using True Stop by (simp add: server_stop_started life_inv_def phase_of_def)
  qed (use Stop assms in \<open>simp add: server_stop_def phase_of_def\<close>)
qed

text \<open>C39: a server is started at most once and stopped at most once, in this order, whatever
  sequence of calls is made: it behaves like a machine with the phases fresh, started and
  stopped. Stopping signals every registered client that had no earlier reason, and no client is
  registered afterwards. A start that fails to bind still takes the server out of the fresh
  phase, so that a second attempt is refused as already started.\<close>

theorem server_lifecycle:
  assumes "life_inv w"
  shows "answers life_exec ops w = answers phase_step ops (phase_of w)
    \<and> (phase_of w = Started \<longrightarrow> (\<forall>cid c. hm_get (ww_sessions w) cid = Some c \<longrightarrow>
         hm_get (ww_sessions (snd (server_stop w))) cid =
           Some (if cid \<in> set (inner (sv_clients (ww_server w))) then client_shutdown ServerStopped c else c)))
    \<and> (phase_of w = Started \<longrightarrow> client_count (fold (\<lambda>e w. snd (life_exec e w)) (Stop # ops) w) = 0)
    \<and> (phase_of w = Fresh \<longrightarrow> fst (server_start (Inl e :: (string, string) result) w) = Inl (Bind e)
         \<and> server_start bound (snd (server_start (Inl e :: (string, string) result) w))
             = (Inl ServerAlreadyStarted :: (string, FoxgloveError) result, snd (server_start (Inl e :: (string, string) result) w)))"
proof (intro conjI impI allI)
  show "answers life_exec ops w = answers phase_step ops (phase_of w)"
    using assms
  proof (induction ops arbitrary: w)
    case (Cons e es)
    show ?case using Cons.IH [of "snd (life_exec e w)"] life_step [OF Cons.prems, of e]
      by (simp add: case_prod_beta)
  qed simp
next
  fix cid c
  assume "phase_of w = Started" "hm_get (ww_sessions w) cid = Some c"
  then show "hm_get (ww_sessions (snd (server_stop w))) cid =
      Some (if cid \<in> set (inner (sv_clients (ww_server w))) then client_shutdown ServerStopped c else c)"
    using assms fold_update_session_get [of "inner (sv_clients (ww_server w))" "\<lambda>_. client_shutdown ServerStopped"]
    by (simp add: server_stop_started phase_of_def life_inv_def split: if_splits)
next
  assume st: "phase_of w = Started"
  have stays: "phase_of (fold (\<lambda>e w. snd (life_exec e w)) ops w') = Stopped \<and> life_inv (fold (\<lambda>e w. snd (life_exec e w)) ops w')"
    if "phase_of w' = Stopped" "life_inv w'" for w'
    using that
  proof (induction ops arbitrary: w')
    case (Cons e es)
    show ?case using Cons.IH [of "snd (life_exec e w')"] life_step [OF Cons.prems(2), of e] Cons.prems(1) by (cases e) simp_all
  qed simp
  have "phase_of (snd (life_exec Stop w)) = Stopped" "life_inv (snd (life_exec Stop w))"
    using life_step [OF assms, of Stop] st by simp_all
  from stays [OF this] show "client_count (fold (\<lambda>e w. snd (life_exec e w)) (Stop # ops) w) = 0"
    by (auto simp: client_count_def phase_of_def life_inv_def split: if_splits)
qed (simp_all add: server_start_def phase_of_def split: if_splits)

theorem server_lifecycle_witness:
  "answers life_exec [Stop, Start (Inr ''addr''), Start (Inr ''addr''), Stop, Stop, Start (Inr ''addr'')] demo_world
     = [False, True, False, True, False, False]
   \<and> fst (server_start (Inl ''in use'' :: (string, string) result) demo_world) = Inl (Bind ''in use'')"
proof -
  have "life_inv demo_world" "phase_of demo_world = Fresh"
    by (simp_all add: life_inv_def phase_of_def demo_world_def demo_server_def)
  then show ?thesis
    using server_lifecycle [of demo_world "[Stop, Start (Inr ''addr''), Start (Inr ''addr''), Stop, Stop, Start (Inr ''addr'')]" "''in use''"]
    by simp
qed

end
