(* ===== verification/Client_Handlers.thy ===== *)
theory Client_Handlers
  imports Server_State
begin

text \<open>
  The requests of a client (\<open>websocket/connected_client.rs\<close>, \<open>service/response.rs\<close>,
  \<open>fetch_asset.rs\<close>) and the part of the server that goes through the context
  (\<open>websocket/server.rs\<close>): registration, services, session information. The state is the
  program of \<open>Context\<close> whose sinks are the sessions of \<open>Server_State\<close>.

  A session that nothing refers to any more stays in the heap of sessions; a message that is
  queued for it is read by nobody, as one for an expired \<open>Weak\<close> reference.
  A service or asset handler is user code: it is handed the request and a responder, which are
  recorded as outstanding, and completes the responder in a step of its own, at once if it is
  synchronous.
\<close>

section \<open>State\<close>

type_synonym prog = "ws_world program"

definition in_world :: "(ws_world \<Rightarrow> ws_world) \<Rightarrow> prog \<Rightarrow> prog" where
  "in_world f s = s \<lparr> world := f (world s) \<rparr>"

definition session :: "prog \<Rightarrow> u32 \<Rightarrow> ConnectedClient option" where
  "session s cid = hm_get (ww_sessions (world s)) cid"

definition set_session :: "u32 \<Rightarrow> ConnectedClient \<Rightarrow> prog \<Rightarrow> prog" where
  "set_session cid c s = in_world (\<lambda>w. w \<lparr> ww_sessions := hm_insert cid c (ww_sessions w) \<rparr>) s"

definition to_client :: "u32 \<Rightarrow> (ConnectedClient \<Rightarrow> ConnectedClient) \<Rightarrow> prog \<Rightarrow> prog" where
  "to_client cid f s = in_world (update_session cid f) s"

definition server_of :: "prog \<Rightarrow> Server" where
  "server_of s = ww_server (world s)"

section \<open>Sessions as sinks\<close>

text \<open>\<open>service_ids\<close> of the server, if its weak reference can be upgraded.\<close>

definition live_service_ids :: "ws_world \<Rightarrow> (string \<times> u32) list option" where
  "live_service_ids w = (if ww_server_alive w then Some (service_ids (ww_server w)) else None)"

definition client_of_sink :: "SinkId \<Rightarrow> ws_world \<Rightarrow> u32 option" where
  "client_of_sink i w = map_option fst (find (\<lambda>(cid, c). cc_sink_id c = i) (ww_sessions w))"

definition on_sink :: "dyn_sink \<Rightarrow> (ConnectedClient \<Rightarrow> ConnectedClient) \<Rightarrow> ws_world \<Rightarrow> ws_world" where
  "on_sink k f w = (case client_of_sink (sink_id k) w of None \<Rightarrow> w | Some cid \<Rightarrow> update_session cid f w)"

definition session_log_to :: "ws_env \<Rightarrow> RawChannel \<Rightarrow> u8 list \<Rightarrow> Metadata \<Rightarrow> u32 \<Rightarrow> ws_world \<Rightarrow> ws_world" where
  "session_log_to E ch msg meta cid w =
     (case hm_get (ww_sessions w) cid of
        None \<Rightarrow> w
      | Some c \<Rightarrow>
          (case client_log E (ww_now w) (raw_channel_id ch) msg meta c (ww_throttler w) of
             None \<Rightarrow> w \<lparr> ww_panicked := True \<rparr>
           | Some (c', t) \<Rightarrow> w \<lparr> ww_sessions := hm_insert cid c' (ww_sessions w), ww_throttler := t \<rparr>))"

definition ws_sinks :: "ws_env \<Rightarrow> ws_world sink_ops" where
  "ws_sinks E = \<lparr>
     auto_subscribe = (\<lambda>k. False),
     sink_add_channels = (\<lambda>k chs w.
       (None, on_sink k (client_add_channels E (live_service_ids w) (map descriptor chs)) w)),
     sink_remove_channel = (\<lambda>k ch w.
       on_sink k (client_remove_channel E (live_service_ids w) (raw_channel_id ch)) w),
     sink_log = (\<lambda>k ch msg meta w.
       (Inr (), case client_of_sink (sink_id k) w of None \<Rightarrow> w | Some cid \<Rightarrow> session_log_to E ch msg meta cid w)) \<rparr>"

section \<open>Subscriptions of a client\<close>

fun subscribe_loop ::
  "ws_env \<Rightarrow> u32 \<Rightarrow> (SubscriptionV1 \<times> ChannelDescriptor) list \<Rightarrow> prog \<Rightarrow> prog may_panic" where
  "subscribe_loop E cid [] s = Some s"
| "subscribe_loop E cid ((subscription, channel) # rest) s =
     (case session s cid of
        None \<Rightarrow> Some s
      | Some c \<Rightarrow> do {
          (is_new, c') \<leftarrow> insert_subscription E subscription c;
          let s1 = set_session cid c' s;
          if \<not> is_new then subscribe_loop E cid rest s1
          else
            let s2 = (if ctx_alive s1 then ctx_subscribe_channels (cc_sink_id c) [desc_id channel] s1 else s1);
                s3 = in_world (notify (On_subscribe cid (desc_id channel) (desc_topic channel))) s2 in
            subscribe_loop E cid rest s3
        })"

definition on_subscribe :: "ws_env \<Rightarrow> u32 \<Rightarrow> SubscriptionV1 list \<Rightarrow> prog \<Rightarrow> prog may_panic" where
  "on_subscribe E cid subscriptions s =
     (case session s cid of
        None \<Rightarrow> Some s
      | Some c \<Rightarrow> do {
          (subscriptions, subscribed_channels, c') \<leftarrow> prune_subscriptions E 0 subscriptions [] c;
          subscribe_loop E cid (zip subscriptions subscribed_channels) (set_session cid c' s)
        })"

definition unsubscribe_channel_ids :: "u32 \<Rightarrow> ChannelId list \<Rightarrow> prog \<Rightarrow> prog" where
  "unsubscribe_channel_ids cid ids s =
     (case session s cid of
        None \<Rightarrow> s
      | Some c \<Rightarrow>
          let s1 = (if ctx_alive s then ctx_unsubscribe_channels (cc_sink_id c) ids s else s) in
          if ww_server_alive (world s1) then
            in_world (fold (\<lambda>ch. notify (On_unsubscribe cid (desc_id ch) (desc_topic ch)))
              (List.map_filter (hm_get (cc_channels c)) ids)) s1
          else s1)"

definition on_unsubscribe :: "ws_env \<Rightarrow> u32 \<Rightarrow> u32 list \<Rightarrow> prog \<Rightarrow> prog" where
  "on_unsubscribe E cid subscription_ids s =
     (case session s cid of
        None \<Rightarrow> s
      | Some c \<Rightarrow>
          (case unsubscribe_loop E subscription_ids [] c of (ids, c') \<Rightarrow>
             unsubscribe_channel_ids cid ids (set_session cid c' s)))"

definition on_disconnect :: "ws_env \<Rightarrow> u32 \<Rightarrow> prog \<Rightarrow> prog" where
  "on_disconnect E cid s =
     (case session s cid of
        None \<Rightarrow> s
      | Some c \<Rightarrow> unsubscribe_channel_ids cid (left_values (env_bimap E) (cc_subscriptions c)) s)"

section \<open>Channels of a client\<close>

fun advertise_loop :: "ws_env \<Rightarrow> u32 \<Rightarrow> ClientChannel list \<Rightarrow> prog \<Rightarrow> prog" where
  "advertise_loop E cid [] s = s"
| "advertise_loop E cid (channel # rest) s =
     (case session s cid of
        None \<Rightarrow> s
      | Some c \<Rightarrow>
          (case insert_client_channel E channel c of (is_new, c') \<Rightarrow>
             let s1 = set_session cid c' s in
             if \<not> is_new then advertise_loop E cid rest s1
             else advertise_loop E cid rest (in_world (notify (On_client_advertise cid channel)) s1)))"

definition on_advertise :: "ws_env \<Rightarrow> u32 \<Rightarrow> ClientAdChannel list \<Rightarrow> prog \<Rightarrow> prog" where
  "on_advertise E cid chans s =
     (if \<not> has_capability (server_of s) ClientPublish
      then to_client cid (send_error E ''Server does not support clientPublish capability'') s
      else advertise_loop E cid
        (List.map_filter (\<lambda>ch. result_ok (client_channel_try_from (env_base64 E) ch)) chans) s)"

definition on_unadvertise :: "ws_env \<Rightarrow> u32 \<Rightarrow> u32 list \<Rightarrow> prog \<Rightarrow> prog may_panic" where
  "on_unadvertise E cid ids s =
     (case session s cid of
        None \<Rightarrow> Some s
      | Some c \<Rightarrow> do {
          (client_channels, c') \<leftarrow> unadvertise_loop E 0 ids [] c;
          Some (in_world (fold (\<lambda>ch. notify (On_client_unadvertise cid ch)) client_channels) (set_session cid c' s))
        })"

definition on_message_data :: "ws_env \<Rightarrow> u32 \<Rightarrow> ClientMessageData \<Rightarrow> prog \<Rightarrow> prog" where
  "on_message_data E cid m s =
     (case session s cid of
        None \<Rightarrow> s
      | Some c \<Rightarrow>
          (case hm_get (cc_advertised_channels c) (cmd_channel_id m) of
             None \<Rightarrow> to_client cid (send_error E (''Unknown channel ID: '' @ show_nat (unat (cmd_channel_id m)))) s
           | Some channel \<Rightarrow> in_world (notify (On_message_data cid channel (cmd_data m))) s))"

section \<open>Parameters\<close>

definition on_get_parameters :: "ws_env \<Rightarrow> u32 \<Rightarrow> string list \<Rightarrow> string option \<Rightarrow> prog \<Rightarrow> prog" where
  "on_get_parameters E cid names request_id s =
     (if \<not> has_capability (server_of s) Parameters
      then to_client cid (send_error E ''Server does not support parameters capability'') s
      else
        (case sv_listener (server_of s) of
           None \<Rightarrow> s
         | Some handler \<Rightarrow>
             let s1 = in_world (notify (On_get_parameters cid names request_id)) s in
             to_client cid (update_parameters E (get_parameters_answer handler (ww_calls (world s1))) request_id) s1))"

definition on_set_parameters :: "ws_env \<Rightarrow> u32 \<Rightarrow> Parameter list \<Rightarrow> string option \<Rightarrow> prog \<Rightarrow> prog" where
  "on_set_parameters E cid parameters request_id s =
     (if \<not> has_capability (server_of s) Parameters
      then to_client cid (send_error E ''Server does not support parameters capability'') s
      else
        (case sv_listener (server_of s) of
           None \<Rightarrow> in_world (publish_parameter_values E parameters) s
         | Some handler \<Rightarrow>
             let s1 = in_world (notify (On_set_parameters cid parameters request_id)) s;
                 updated = set_parameters_answer handler (ww_calls (world s1));
                 s2 = (if request_id \<noteq> None then to_client cid (update_parameters E updated request_id) s1 else s1) in
             in_world (publish_parameter_values E updated) s2))"

definition on_parameters_subscribe :: "ws_env \<Rightarrow> u32 \<Rightarrow> string list \<Rightarrow> prog \<Rightarrow> prog" where
  "on_parameters_subscribe E cid names s =
     (if has_capability (server_of s) Parameters then in_world (subscribe_parameters cid names) s
      else to_client cid (send_error E ''Server does not support parametersSubscribe capability'') s)"

definition on_parameters_unsubscribe :: "ws_env \<Rightarrow> u32 \<Rightarrow> string list \<Rightarrow> prog \<Rightarrow> prog" where
  "on_parameters_unsubscribe E cid names s =
     (if has_capability (server_of s) Parameters then in_world (unsubscribe_parameters cid names) s
      else to_client cid (send_error E ''Server does not support parametersSubscribe capability'') s)"

section \<open>Service calls\<close>

definition get_service :: "u32 \<Rightarrow> prog \<Rightarrow> Service option" where
  "get_service i s = service_map_get_by_id (sv_services (server_of s)) i"

definition on_service_call :: "ws_env \<Rightarrow> u32 \<Rightarrow> ServiceCallRequest \<Rightarrow> prog \<Rightarrow> prog" where
  "on_service_call E cid req s =
     (let refuse = (\<lambda>m. to_client cid (send_service_call_failure E (scr_service_id req) (scr_call_id req) m) s) in
      if \<not> has_capability (server_of s) Services_cap then refuse ''Server does not support services''
      else
        (case get_service (scr_service_id req) s of
           None \<Rightarrow> refuse ''Unknown service''
         | Some service \<Rightarrow>
             if \<not> (case service_request_encoding service of
                      Some e \<Rightarrow> e = scr_encoding req
                    | None \<Rightarrow> supports_encoding (server_of s) (scr_encoding req))
             then refuse ''Unsupported encoding''
             else
               (case session s cid of
                  None \<Rightarrow> s
                | Some c \<Rightarrow>
                    (case semaphore_try_acquire (cc_service_call_sem c) of
                       (False, _) \<Rightarrow> refuse ''Too many requests''
                     | (True, sem) \<Rightarrow>
                         let responder = \<lparr> srs_client = cid, srs_service_id = svc_id service,
                               srs_call_id = scr_call_id req,
                               srs_encoding = (case service_response_encoding service of
                                  Some e \<Rightarrow> e | None \<Rightarrow> scr_encoding req) \<rparr>;
                             request = \<lparr> rq_service = service, rq_client_id = cid, rq_call_id = scr_call_id req,
                               rq_encoding = scr_encoding req, rq_payload = scr_payload req \<rparr> in
                         in_world (\<lambda>w. w \<lparr> ww_service_calls := ww_service_calls w @ [(request, responder)] \<rparr>)
                           (set_session cid (c \<lparr> cc_service_call_sem := sem \<rparr>) s)))))"

text \<open>\<open>Inner::respond\<close>, and the release of the guard when the inner value is dropped.\<close>

definition service_reply :: "ServiceResponder \<Rightarrow> (u8 list, string) result \<Rightarrow> ServerMessageData_v1 ServerMessage" where
  "service_reply r result =
     (case result of
        Inr payload \<Rightarrow> SServiceCallResponse \<lparr> scp_service_id = srs_service_id r, scp_call_id = srs_call_id r,
          scp_encoding = srs_encoding r, scp_payload = payload \<rparr>
      | Inl message \<Rightarrow> SServiceCallFailure \<lparr> scf_service_id = srs_service_id r, scf_call_id = srs_call_id r,
          scf_message = message \<rparr>)"

definition release_service_guard :: "ConnectedClient \<Rightarrow> ConnectedClient" where
  "release_service_guard c = c \<lparr> cc_service_call_sem := sem_guard_drop (cc_service_call_sem c) \<rparr>"

text \<open>The handler completes the \<open>i\<close>-th outstanding call. The responder is consumed, so it
  answers once.\<close>

definition service_respond :: "ws_env \<Rightarrow> nat \<Rightarrow> (u8 list, string) result \<Rightarrow> ws_world \<Rightarrow> ws_world" where
  "service_respond E i result w =
     (if i < length (ww_service_calls w) then
        let r = snd (ww_service_calls w ! i) in
        update_session (srs_client r) (\<lambda>c. release_service_guard (snd (send_control_msg E (service_reply r result) c)))
          (w \<lparr> ww_service_calls := take i (ww_service_calls w) @ drop (Suc i) (ww_service_calls w) \<rparr>)
      else w)"

text \<open>\<open>Drop\<close> of a responder that was not used.\<close>

definition service_responder_drop :: "ws_env \<Rightarrow> nat \<Rightarrow> ws_world \<Rightarrow> ws_world" where
  "service_responder_drop E i w =
     service_respond E i (Inl ''Internal server error: service failed to send a response'') w"

definition set_encoding :: "nat \<Rightarrow> string \<Rightarrow> ws_world \<Rightarrow> ws_world" where
  "set_encoding i e w =
     (if i < length (ww_service_calls w) then
        w \<lparr> ww_service_calls := (ww_service_calls w)[i := (fst (ww_service_calls w ! i),
              (snd (ww_service_calls w ! i)) \<lparr> srs_encoding := e \<rparr>)] \<rparr>
      else w)"

section \<open>Assets\<close>

definition release_asset_guard :: "ConnectedClient \<Rightarrow> ConnectedClient" where
  "release_asset_guard c = c \<lparr> cc_fetch_asset_sem := sem_guard_drop (cc_fetch_asset_sem c) \<rparr>"

text \<open>Without a handler the guard is dropped at the end of the function.\<close>

definition on_fetch_asset :: "ws_env \<Rightarrow> u32 \<Rightarrow> string \<Rightarrow> u32 \<Rightarrow> prog \<Rightarrow> prog" where
  "on_fetch_asset E cid uri request_id s =
     (if \<not> has_capability (server_of s) Assets
      then to_client cid (send_error E ''Server does not support assets capability'') s
      else
        (case session s cid of
           None \<Rightarrow> s
         | Some c \<Rightarrow>
             (case semaphore_try_acquire (cc_fetch_asset_sem c) of
                (False, _) \<Rightarrow> to_client cid (send_asset_error E ''Too many concurrent fetch asset requests'' request_id) s
              | (True, sem) \<Rightarrow>
                  let s1 = set_session cid (c \<lparr> cc_fetch_asset_sem := sem \<rparr>) s in
                  if sv_fetch_asset_handler (server_of s) then
                    in_world (\<lambda>w. w \<lparr> ww_asset_calls := ww_asset_calls w
                      @ [(uri, \<lparr> ars_client = cid, ars_request_id = request_id \<rparr>)] \<rparr>) s1
                  else to_client cid (\<lambda>c. release_asset_guard
                    (send_asset_error E ''Server does not have a fetch asset handler'' request_id c)) s1)))"

definition asset_respond :: "ws_env \<Rightarrow> nat \<Rightarrow> (u8 list, string) result \<Rightarrow> ws_world \<Rightarrow> ws_world" where
  "asset_respond E i result w =
     (if i < length (ww_asset_calls w) then
        let r = snd (ww_asset_calls w ! i) in
        update_session (ars_client r) (\<lambda>c. release_asset_guard
            (case result of
               Inr data \<Rightarrow> send_asset_response E data (ars_request_id r) c
             | Inl err \<Rightarrow> send_asset_error E err (ars_request_id r) c))
          (w \<lparr> ww_asset_calls := take i (ww_asset_calls w) @ drop (Suc i) (ww_asset_calls w) \<rparr>)
      else w)"

definition asset_responder_drop :: "ws_env \<Rightarrow> nat \<Rightarrow> ws_world \<Rightarrow> ws_world" where
  "asset_responder_drop E i w =
     asset_respond E i (Inl ''Internal server error: asset handler failed to send a response'') w"

section \<open>Connection graph and playback\<close>

definition on_connection_graph_subscribe :: "ws_env \<Rightarrow> u32 \<Rightarrow> prog \<Rightarrow> prog" where
  "on_connection_graph_subscribe E cid s =
     (if \<not> has_capability (server_of s) ConnectionGraph_cap
      then to_client cid (send_error E ''Server does not support connection graph capability'') s
      else
        (case subscribe_connection_graph cid (world s) of (update, w) \<Rightarrow>
           let s1 = s \<lparr> world := w \<rparr> in
           (case update of
              Some u \<Rightarrow> to_client cid (\<lambda>c. snd (send_control_msg E (SConnectionGraphUpdate u) c)) s1
            | None \<Rightarrow> s1)))"

definition on_connection_graph_unsubscribe :: "ws_env \<Rightarrow> u32 \<Rightarrow> prog \<Rightarrow> prog" where
  "on_connection_graph_unsubscribe E cid s =
     (if \<not> has_capability (server_of s) ConnectionGraph_cap
      then to_client cid (send_error E ''Server does not support connection graph capability'') s
      else in_world (\<lambda>w. snd (unsubscribe_connection_graph cid w)) s)"

definition on_playback_control_request :: "ws_env \<Rightarrow> u32 \<Rightarrow> PlaybackControlRequest \<Rightarrow> prog \<Rightarrow> prog" where
  "on_playback_control_request E cid msg s =
     (if \<not> has_capability (server_of s) RangedPlayback
      then to_client cid (send_error E ''Server does not support ranged playback capability'') s
      else
        (case sv_listener (server_of s) of
           None \<Rightarrow> to_client cid (send_error E
             (''Server advertised ranged playback capability but didn'' @ [CHR 0x27] @ ''t provide a listener'')) s
         | Some handler \<Rightarrow>
             let s1 = in_world (notify (On_playback_control_request msg)) s in
             (case playback_answer handler (ww_calls (world s1)) of
                None \<Rightarrow> to_client cid (send_error E
                  ''Server did not send playback state in response to playback control request'') s1
              | Some state \<Rightarrow>
                  in_world (broadcast_playback_state E (state \<lparr> pbs_request_id := Some (pcr_request_id msg) \<rparr>)) s1)))"

section \<open>Messages of a client\<close>

fun dispatch :: "ws_env \<Rightarrow> u32 \<Rightarrow> ClientMessage_v1 \<Rightarrow> prog \<Rightarrow> prog may_panic" where
  "dispatch E cid (CSubscribe subscriptions) s = on_subscribe E cid subscriptions s"
| "dispatch E cid (CUnsubscribe ids) s = Some (on_unsubscribe E cid ids s)"
| "dispatch E cid (CAdvertise chans) s = Some (on_advertise E cid chans s)"
| "dispatch E cid (CUnadvertise ids) s = on_unadvertise E cid ids s"
| "dispatch E cid (CMessageData m) s = Some (on_message_data E cid m s)"
| "dispatch E cid (CGetParameters m) s = Some (on_get_parameters E cid (gp_parameter_names m) (gp_id m) s)"
| "dispatch E cid (CSetParameters m) s = Some (on_set_parameters E cid (sp_parameters m) (sp_id m) s)"
| "dispatch E cid (CSubscribeParameterUpdates names) s = Some (on_parameters_subscribe E cid names s)"
| "dispatch E cid (CUnsubscribeParameterUpdates names) s = Some (on_parameters_unsubscribe E cid names s)"
| "dispatch E cid (CServiceCallRequest m) s = Some (on_service_call E cid m s)"
| "dispatch E cid (CFetchAsset m) s = Some (on_fetch_asset E cid (fa_uri m) (fa_request_id m) s)"
| "dispatch E cid CSubscribeConnectionGraph s = Some (on_connection_graph_subscribe E cid s)"
| "dispatch E cid CUnsubscribeConnectionGraph s = Some (on_connection_graph_unsubscribe E cid s)"
| "dispatch E cid (CPlaybackControlRequest m) s = Some (on_playback_control_request E cid m s)"

definition handle_message :: "ws_env \<Rightarrow> u32 \<Rightarrow> ws_message \<Rightarrow> prog \<Rightarrow> prog may_panic" where
  "handle_message E cid message s =
     (case client_message_try_from (env_bytes E) (env_from_json E) message of
        None \<Rightarrow> None
      | Some (Inl EmptyBinaryMessage) \<Rightarrow> Some s
      | Some (Inl UnhandledMessageType) \<Rightarrow> Some s
      | Some (Inl err) \<Rightarrow> Some (to_client cid (send_error E (''Invalid message: '' @ env_display E err)) s)
      | Some (Inr msg) \<Rightarrow> if ww_server_alive (world s) then dispatch E cid msg s else Some s)"

section \<open>Server information\<close>

definition advertisement_token :: "prog \<Rightarrow> string" where
  "advertisement_token s =
     compute_advertisement_token
       (if ctx_alive s then map (\<lambda>r. descriptor (deref s r)) (hm_values (channels (ctx s))) else [])
       (service_ids (server_of s))"

text \<open>\<open>library_version\<close> is the result of \<open>get_library_version\<close>.\<close>

definition server_info :: "string \<Rightarrow> prog \<Rightarrow> ServerInfo" where
  "server_info library_version s =
     (let sv = server_of s;
          metadata = hm_insert ADVERTISEMENT_TOKEN_METADATA_KEY (advertisement_token s)
            (hm_insert ''fg-library'' library_version (sv_server_info sv)) in
      with_playback_time_range (sv_playback_time_range sv)
        ((server_info_new (sv_name sv)) \<lparr> si_capabilities := concat (map as_protocol_capabilities (sv_capabilities sv)),
           si_metadata := metadata, si_supported_encodings := sv_supported_encodings sv,
           si_session_id := Some (sv_session_id sv) \<rparr>))"

definition clear_session :: "ws_env \<Rightarrow> string \<Rightarrow> string \<Rightarrow> string option \<Rightarrow> prog \<Rightarrow> prog" where
  "clear_session E library_version generated new_session_id s =
     (let s1 = in_world (update_server (\<lambda>sv. sv \<lparr> sv_session_id :=
            (case new_session_id of Some i \<Rightarrow> i | None \<Rightarrow> generated) \<rparr>)) s;
          message = SServerInfo (server_info library_version s1) in
      in_world (for_clients (\<lambda>cid. update_session cid (\<lambda>c. snd (send_control_msg E message c)))) s1)"

section \<open>Registration\<close>

definition register_client_and_advertise :: "ws_env \<Rightarrow> u32 \<Rightarrow> prog \<Rightarrow> prog" where
  "register_client_and_advertise E cid s =
     (case session s cid of
        None \<Rightarrow> s
      | Some client \<Rightarrow>
          (case cowvec_push cid (sv_clients (server_of s)) of
             (False, _) \<Rightarrow> to_client cid (client_shutdown ServerStopped) s
           | (True, clients) \<Rightarrow>
               let s1 = in_world (update_server (\<lambda>sv. sv \<lparr> sv_clients := clients \<rparr>)) s;
                   s2 = in_world (notify On_client_connect) s1;
                   catalogue_is_current = is_initial_advertisement_suppressed client;
                   s3 = (if ctx_alive s2 then snd (ctx_add_sink (ws_sinks E) (Dyn_sink (cc_sink_id client)) s2) else s2) in
               if catalogue_is_current then s3
               else
                 let msg = advertise_services_msg (env_base64 E) (service_map_values (sv_services (server_of s3))) in
                 if msg = [] then s3
                 else to_client cid (\<lambda>c. snd (send_control_msg E (SAdvertiseServices msg) c)) s3))"

text \<open>The part of \<open>handle_connection\<close> between the handshake and \<open>run\<close>: \<open>offered_token\<close> is
  what the handshake returned, \<open>sent\<close> whether the server information could be sent.\<close>

definition accept_client :: "ws_env \<Rightarrow> string \<Rightarrow> string option \<Rightarrow> bool \<Rightarrow> prog \<Rightarrow> u32 option \<times> prog" where
  "accept_client E library_version offered_token sent s =
     (let info = server_info library_version s;
          current_token = hm_get (si_metadata info) ADVERTISEMENT_TOKEN_METADATA_KEY;
          catalogue_is_current = (offered_token \<noteq> None \<and> offered_token = current_token) in
      if \<not> sent then (None, s)
      else
        let cid = ww_next_client_id (world s);
            client = connected_client_new cid (ww_next_sink_id (world s)) (unat (sv_message_backlog_size (server_of s)));
            client = (if catalogue_is_current then suppress_initial_advertisement client else client);
            client = (if offered_token \<noteq> None then enable_advertisement_token_push client else client);
            s1 = set_session cid client (in_world (\<lambda>w. w \<lparr> ww_next_client_id := ww_next_client_id w + 1,
                   ww_next_sink_id := ww_next_sink_id w + 1 \<rparr>) s) in
        (Some cid, register_client_and_advertise E cid s1))"

definition unregister_client :: "ws_env \<Rightarrow> u32 \<Rightarrow> prog \<Rightarrow> prog may_panic" where
  "unregister_client E cid s =
     (case session s cid of
        None \<Rightarrow> Some s
      | Some client \<Rightarrow>
          let s1 = (if ctx_alive s then snd (ctx_remove_sink (cc_sink_id client) s) else s) in
          do {
            clients \<leftarrow> cowvec_retain (\<lambda>c. c \<noteq> cid) (sv_clients (server_of s1));
            let s2 = in_world (update_server (\<lambda>sv. sv \<lparr> sv_clients := clients \<rparr>)) s1;
            let s3 = (if has_capability (server_of s2) Parameters then in_world (unsubscribe_all_parameters cid) s2 else s2);
            let s4 = (if has_capability (server_of s3) ConnectionGraph_cap
                      then in_world (\<lambda>w. snd (unsubscribe_connection_graph cid w)) s3 else s3);
            let s5 = on_disconnect E cid s4;
            Some (in_world (notify On_client_disconnect) s5)
          })"

section \<open>Services of the server\<close>

text \<open>The loop over the new services: names are unique among them, and a service without a
  request encoding needs a supported encoding.\<close>

fun validate_services ::
  "ws_env \<Rightarrow> Server \<Rightarrow> Service list \<Rightarrow> (string, u32) hash_map \<times> ServiceAd list
    \<Rightarrow> ((string, u32) hash_map \<times> ServiceAd list, FoxgloveError) result" where
  "validate_services E sv [] acc = Inr acc"
| "validate_services E sv (service # rest) (new_names, ads) =
     (if hm_get new_names (svc_name service) \<noteq> None then Inl (DuplicateService (svc_name service))
      else if service_request_encoding service = None \<and> sv_supported_encodings sv = []
      then Inl (MissingRequestEncoding (svc_name service))
      else validate_services E sv rest (hm_insert (svc_name service) (svc_id service) new_names,
             (case maybe_advertise_service (env_base64 E) service of Some ad \<Rightarrow> ads @ [ad] | None \<Rightarrow> ads)))"

fun first_registered :: "Service list \<Rightarrow> ServiceMap \<Rightarrow> Service option" where
  "first_registered [] m = None"
| "first_registered (service # rest) m =
     (if service_map_contains_name (svc_name service) m \<or> service_map_contains_id (svc_id service) m
      then Some service else first_registered rest m)"

text \<open>The message and the token are sent to every client.\<close>

definition announce :: "ws_env \<Rightarrow> ServerMessageData_v1 ServerMessage \<Rightarrow> prog \<Rightarrow> prog" where
  "announce E msg s =
     (let token = advertisement_token s in
      in_world (for_clients (\<lambda>cid. update_session cid (\<lambda>c.
        send_advertisement_token E token (snd (send_control_msg E msg c))))) s)"

definition add_services :: "ws_env \<Rightarrow> Service list \<Rightarrow> prog \<Rightarrow> ((unit, FoxgloveError) result \<times> prog) may_panic" where
  "add_services E new_services s =
     (if \<not> has_capability (server_of s) Services_cap then Some (Inl ServicesNotSupported, s)
      else if new_services = [] then Some (Inr (), s)
      else
        (case validate_services E (server_of s) new_services ([], []) of
           Inl e \<Rightarrow> Some (Inl e, s)
         | Inr (new_names, ads) \<Rightarrow>
             (case first_registered new_services (sv_services (server_of s)) of
                Some service \<Rightarrow> Some (Inl (DuplicateService (svc_name service)), s)
              | None \<Rightarrow> do {
                  services \<leftarrow> service_map_insert_all new_services (sv_services (server_of s));
                  let s1 = in_world (update_server (\<lambda>sv. sv \<lparr> sv_services := services \<rparr>)) s;
                  Some (Inr (), if ads = [] then s1 else announce E (SAdvertiseServices ads) s1)
                })))"

definition remove_services :: "ws_env \<Rightarrow> string list \<Rightarrow> prog \<Rightarrow> prog" where
  "remove_services E names s =
     (let (old_services, services) = service_map_remove_all names (sv_services (server_of s));
          s1 = in_world (update_server (\<lambda>sv. sv \<lparr> sv_services := services \<rparr>)) s in
      if old_services = [] then s1
      else announce E (SUnadvertiseServices (map svc_id old_services)) s1)"

end
