(* ===== verification/Server_Invariant.thy ===== *)
theory Server_Invariant
  imports Client_Handlers
begin

text \<open>
  The invariant of the websocket server with its sessions and its context, for every sequence of
  messages from clients, connections, disconnections, answers of handlers and calls of the
  application. The locale \<open>sink_invariant\<close> is what the context guarantees to sinks: an
  invariant of their world that every callback keeps is kept by every operation of the context.
\<close>

section \<open>Sinks that keep an invariant\<close>

locale sink_invariant =
  fixes T :: "'w sink_ops" and P :: "'w \<Rightarrow> bool"
  assumes add_channels: "P w \<Longrightarrow> P (snd (sink_add_channels T k chs w))"
    and remove_channel: "P w \<Longrightarrow> P (sink_remove_channel T k ch w)"
    and log: "P w \<Longrightarrow> P (snd (sink_log T k ch msg meta w))"
begin

lemma add_channel: "P w \<Longrightarrow> P (snd (sink_add_channel T k ch w))"
  using add_channels [of w k "[ch]"] by (simp add: sink_add_channel_def case_prod_beta)

lemma notify_all: "P w \<Longrightarrow> P (snd (fold (notify_sink T ch) ks (b, w)))"
proof (induction ks arbitrary: b w)
  case (Cons k ks)
  have "P (snd (sink_add_channel T k ch w))" using Cons.prems by (rule add_channel)
  then show ?case using Cons.IH
    by (simp add: notify_sink_def case_prod_beta)
qed simp

lemma remove_from_all: "P w \<Longrightarrow> P (fold (\<lambda>k w. sink_remove_channel T k ch w) ks w)"
  by (induction ks arbitrary: w) (simp_all add: remove_channel)

lemma log_all: "P w \<Longrightarrow> P (log_to_sinks T now ch msg opts target w)"
proof -
  have "P w \<Longrightarrow> P (fold (\<lambda>k w. snd (sink_log T k ch msg m w)) ks w)" for m ks
    by (induction ks arbitrary: w) (simp_all add: log)
  then show "P w \<Longrightarrow> P (log_to_sinks T now ch msg opts target w)" by (simp add: log_to_sinks_fold)
qed

lemma ctx_add_channel_keeps: "P (world s) \<Longrightarrow> P (world (snd (ctx_add_channel T r s)))"
  using notify_all [of "world s" "deref s r" "hm_values (sinks (ctx s))" "subs (ctx s)"]
  by (simp add: ctx_add_channel_def Let_def case_prod_beta split: option.split)

lemma build_keeps: "P (world s) \<Longrightarrow> P (world (snd (build_raw T b s)))"
proof (cases "cb_message_encoding b")
  case (Some e)
  assume p: "P (world s)"
  obtain r s1 where a: "alloc_channel (cb_topic b) e (cb_schema b) (cb_metadata b) s = (r, s1)" by fastforce
  then have "world s1 = world s" by (auto simp: alloc_channel_def Let_def)
  then show ?thesis using Some a p ctx_add_channel_keeps [of s1 r]
    by (simp add: build_raw_def case_prod_beta)
qed (simp add: build_raw_def)

lemma remove_channel_keeps: "P (world s) \<Longrightarrow> P (world (snd (ctx_remove_channel T i s)))"
  using remove_from_all [of "world s"] by (simp add: ctx_remove_channel_def Let_def split: option.split)

lemma add_sink_keeps: "P (world s) \<Longrightarrow> P (world (snd (ctx_add_sink T k s)))"
  using add_channels [of "world s" k]
  by (simp add: ctx_add_sink_def Let_def update_channel_sinks_by_ids_def case_prod_beta split: option.split)

lemma clear_keeps: "P (world s) \<Longrightarrow> P (world (ctx_clear T s))"
proof -
  have "P (world s) \<Longrightarrow> P (world (fold (clear_channel T) rs s))" for rs
    by (induction rs arbitrary: s) (simp_all add: clear_channel_def Let_def remove_from_all)
  then show "P (world s) \<Longrightarrow> P (world (ctx_clear T s))" by (simp add: ctx_clear_def Let_def)
qed

lemma log_keeps: "P (world s) \<Longrightarrow> P (world (channel_log T now unow r msg opts target s))"
  using log_all [of "world s"] by (simp add: channel_log_def log_with_meta_to_sink_def case_prod_beta)

end

section \<open>Updates of a session\<close>

definition channels_keyed :: "(ChannelId, ChannelDescriptor) hash_map \<Rightarrow> bool" where
  "channels_keyed m \<longleftrightarrow> (\<forall>i ch. hm_get m i = Some ch \<longrightarrow> desc_id ch = i)"

lemma channels_keyed_updates:
  "channels_keyed m \<Longrightarrow> channels_keyed (hm_insert (desc_id ch) ch m)" "channels_keyed m \<Longrightarrow> channels_keyed (hm_remove i m)"
  by (simp_all add: channels_keyed_def hm_get_insert hm_get_remove)

lemma channels_keyed_fold:
  "channels_keyed m \<Longrightarrow> channels_keyed (fold (\<lambda>ch m. if P ch then hm_insert (desc_id ch) ch m else m) chs m)"
  "channels_keyed m \<Longrightarrow> channels_keyed (fold (\<lambda>ch m. hm_insert (desc_id ch) ch m) chs m)"
  by (induction chs arbitrary: m) (simp_all add: channels_keyed_updates)

text \<open>What every update of a session keeps, except those that take or return a permit.\<close>

definition keeps :: "ConnectedClient \<Rightarrow> ConnectedClient \<Rightarrow> bool" where
  "keeps c c' \<longleftrightarrow> queues_ok c' \<and> bimap_wf (cc_subscriptions c') \<and> cc_id c' = cc_id c \<and> cc_sink_id c' = cc_sink_id c
     \<and> cc_service_call_sem c' = cc_service_call_sem c \<and> cc_fetch_asset_sem c' = cc_fetch_asset_sem c
     \<and> (channels_keyed (cc_channels c) \<longrightarrow> channels_keyed (cc_channels c'))"

definition benign :: "(ConnectedClient \<Rightarrow> ConnectedClient) \<Rightarrow> bool" where
  "benign f \<longleftrightarrow> (\<forall>c. queues_ok c \<longrightarrow> bimap_wf (cc_subscriptions c) \<longrightarrow> keeps c (f c))"

named_theorems benign_intros

lemma benignD: "benign f \<Longrightarrow> queues_ok c \<Longrightarrow> bimap_wf (cc_subscriptions c) \<Longrightarrow> keeps c (f c)"
  by (simp add: benign_def)

lemma benignI: "(\<And>c. queues_ok c \<Longrightarrow> bimap_wf (cc_subscriptions c) \<Longrightarrow> keeps c (f c)) \<Longrightarrow> benign f"
  by (simp add: benign_def)

lemma keeps_ok: "keeps c c' \<Longrightarrow> queues_ok c'" "keeps c c' \<Longrightarrow> bimap_wf (cc_subscriptions c')"
  by (simp_all add: keeps_def)

lemma keeps_refl: "queues_ok c \<Longrightarrow> bimap_wf (cc_subscriptions c) \<Longrightarrow> keeps c c"
  by (simp add: keeps_def)

lemma keeps_trans: "keeps c c' \<Longrightarrow> keeps c' c'' \<Longrightarrow> keeps c c''"
  by (simp add: keeps_def)

lemma keeps_deliver: "queues_ok c \<Longrightarrow> bimap_wf (cc_subscriptions c) \<Longrightarrow> keeps c (deliver ms c)"
  by (simp add: keeps_def)

lemma benign_id [benign_intros]: "benign (\<lambda>c. c)"
  by (simp add: benign_def keeps_refl)

lemma benign_comp: "benign f \<Longrightarrow> benign g \<Longrightarrow> benign (\<lambda>c. f (g c))"
  by (rule benignI) (meson benignD keeps_ok keeps_trans)

lemma benign_if [benign_intros]: "benign f \<Longrightarrow> benign g \<Longrightarrow> benign (\<lambda>c. if b c then f c else g c)"
  by (simp add: benign_def)

lemma benign_deliver: "benign (deliver ms)"
  by (simp add: benign_def keeps_deliver)

lemma benign_eq_deliver: "(\<And>c. queues_ok c \<Longrightarrow> f c = deliver (ms c) c) \<Longrightarrow> benign f"
  by (simp add: benign_def keeps_deliver)

lemma benign_sends [benign_intros]:
  assumes "env_laws E"
  shows "benign (\<lambda>c. snd (send_control_msg E m c))" "benign (send_error E t)" "benign (send_warning E t)"
    "benign (send_service_call_failure E i j t)" "benign (send_asset_error E t i)" "benign (send_asset_response E d i)"
    "benign (update_parameters E ps r)" "benign (send_advertisement_token E t)"
    "benign (push_advertisement_token E ids)"
proof -
  have fl: "flume_laws (env_flume E)" using assms by (simp add: env_laws_def)
  show send: "benign (\<lambda>c. snd (send_control_msg E m c))" for m
    by (rule benign_eq_deliver [where ms = "\<lambda>_. [ws E m]"]) (rule send_control_msg_deliver [OF fl])
  show "benign (send_error E t)" "benign (send_warning E t)"
    "benign (send_service_call_failure E i j t)" "benign (send_asset_error E t i)" "benign (send_asset_response E d i)"
    "benign (update_parameters E ps r)"
    using benignD [OF send]
    by (intro benignI; simp add: send_error_def send_warning_def send_service_call_failure_def send_asset_error_def
        send_asset_response_def update_parameters_def Let_def)+
  show tok: "benign (send_advertisement_token E t)" for t
    by (rule benign_eq_deliver [where ms = "\<lambda>c. if cc_token_push c then [WsText (token_message t)] else []"])
      (simp add: send_advertisement_token_def send_control_ws_deliver [OF fl] deliver_Nil)
  show "benign (push_advertisement_token E ids)"
    using benignD [OF tok] by (simp add: benign_def push_advertisement_token_def keeps_refl split: option.split)
qed

lemma benign_shutdown [benign_intros]: "benign (client_shutdown r)"
  by (simp add: benign_def keeps_def client_shutdown_def split: option.split)

lemma benign_fold: "(\<And>x. benign (f x)) \<Longrightarrow> benign (fold f xs)"
proof (induction xs)
  case (Cons x xs)
  have "benign (\<lambda>c. fold f xs (f x c))" by (rule benign_comp [OF Cons.IH [OF Cons.prems] Cons.prems])
  then show ?case by (simp add: comp_def)
qed (simp add: id_def benign_id)

lemma keeps_channels:
  "keeps c c' \<Longrightarrow> (channels_keyed (cc_channels c') \<Longrightarrow> channels_keyed m) \<Longrightarrow> keeps c (c' \<lparr> cc_channels := m \<rparr>)"
  "keeps c c' \<Longrightarrow> keeps c (c' \<lparr> cc_suppress := b \<rparr>)"
  by (simp_all add: keeps_def)

lemma keeps_from_channels:
  "keeps (c \<lparr> cc_channels := m \<rparr>) c' \<Longrightarrow> (channels_keyed (cc_channels c) \<Longrightarrow> channels_keyed m) \<Longrightarrow> keeps c c'"
  by (simp add: keeps_def)

lemma benign_advertise_channels:
  assumes "env_laws E"
  shows "benign (advertise_channels E chs)"
proof (rule benignI)
  fix c
  assume "queues_ok c" "bimap_wf (cc_subscriptions c)"
  then have "keeps c (snd (send_control_msg E (SAdvertise (advertise_channels_msg (env_base64 E) chs)) c))" "keeps c c"
    using benignD [OF benign_sends(1) [OF assms]] keeps_refl by blast+
  then show "keeps c (advertise_channels E chs c)"
    by (simp add: advertise_channels_def Let_def case_prod_beta keeps_channels channels_keyed_fold)
qed

lemma benign_client_add_channels [benign_intros]:
  assumes "env_laws E"
  shows "benign (client_add_channels E ids chs)"
proof (rule benignI)
  fix c
  assume c: "queues_ok c" "bimap_wf (cc_subscriptions c)"
  have "benign (\<lambda>c. push_advertisement_token E ids
      (fold (advertise_channels E) (chunks ADVERTISE_CHANNEL_BATCH_SIZE (filtered_channels E chs)) c))"
    by (rule benign_comp [OF benign_sends(9) [OF assms] benign_fold [OF benign_advertise_channels [OF assms]]])
  from benignD [OF this c] have "keeps c (push_advertisement_token E ids
      (fold (advertise_channels E) (chunks ADVERTISE_CHANNEL_BATCH_SIZE (filtered_channels E chs)) c))" .
  moreover have "keeps c (c \<lparr> cc_suppress := False,
      cc_channels := fold (\<lambda>ch m. hm_insert (desc_id ch) ch m) (filtered_channels E chs) (cc_channels c) \<rparr>)"
    by (rule keeps_channels(1) [OF keeps_channels(2) [OF keeps_refl [OF c]]]) (simp add: channels_keyed_fold(2))
  ultimately show "keeps c (client_add_channels E ids chs c)"
    by (simp add: client_add_channels_def filtered_channels_def [symmetric] Let_def)
qed

lemma benign_client_remove_channel [benign_intros]:
  assumes "env_laws E"
  shows "benign (client_remove_channel E ids i)"
proof -
  have "benign (unadvertise_channel E i)"
  proof (rule benignI)
    fix c
    assume c: "queues_ok c" "bimap_wf (cc_subscriptions c)"
    let ?c = "c \<lparr> cc_channels := hm_remove i (cc_channels c) \<rparr>"
    have "keeps c (snd (send_control_msg E (SUnadvertise [i]) ?c))"
      using keeps_from_channels [OF benignD [OF benign_sends(1) [OF assms], of ?c]] c by (simp add: channels_keyed_updates)
    then show "keeps c (unadvertise_channel E i c)"
      using keeps_refl [OF c] by (simp add: unadvertise_channel_def)
  qed
  then have "benign (\<lambda>c. push_advertisement_token E ids (unadvertise_channel E i c))"
    by (rule benign_comp [OF benign_sends(9) [OF assms]])
  then show ?thesis by (simp add: client_remove_channel_def [abs_def])
qed

lemma logged_keeps:
  "queues_ok c \<Longrightarrow> bimap_wf (cc_subscriptions c) \<Longrightarrow> keeps c (logged E i msg meta c)"
  by (simp add: logged_def keeps_def data_plane_ok split: option.split)

lemma client_log_keeps:
  assumes "env_laws E" "queues_ok c" "bimap_wf (cc_subscriptions c)"
  shows "\<exists>c' t'. client_log E now i msg meta c t = Some (c', t') \<and> keeps c c'"
  using client_log_eq [OF assms] logged_keeps [OF assms(2,3)] by blast

lemma client_send_status_keeps:
  assumes "env_laws E" "queues_ok c" "bimap_wf (cc_subscriptions c)"
  shows "\<exists>c' t'. client_send_status E now st c t = Some (c', t') \<and> keeps c c'"
proof (cases "st_level st")
  case LevelInfo
  have "flume_laws (env_flume E)" "0 < MAX_SEND_RETRIES" using assms(1) by (simp_all add: env_laws_def MAX_SEND_RETRIES_def)
  then obtain res t' where "send_data_lossy E now (SStatus st) MAX_SEND_RETRIES c t =
      Some (res, c \<lparr> cc_data_plane := last_n (cc_backlog c) (cc_data_plane c @ [ws E (SStatus st)]) \<rparr>, t')"
    using send_data_lossy_ok [OF _ assms(2)] by meson
  then show ?thesis using LevelInfo assms by (simp add: client_send_status_def keeps_def data_plane_ok)
qed (use benignD [OF benign_sends(1) [OF assms(1)] assms(2,3)] in \<open>simp_all add: client_send_status_def\<close>)

section \<open>The invariant\<close>

definition service_calls_of :: "ws_world \<Rightarrow> u32 \<Rightarrow> nat" where
  "service_calls_of w cid = length (filter (\<lambda>x. srs_client (snd x) = cid) (ww_service_calls w))"

definition asset_calls_of :: "ws_world \<Rightarrow> u32 \<Rightarrow> nat" where
  "asset_calls_of w cid = length (filter (\<lambda>x. ars_client (snd x) = cid) (ww_asset_calls w))"

text \<open>Permits that are out are held by outstanding calls.\<close>

definition permits_ok :: "nat \<Rightarrow> Semaphore \<Rightarrow> nat \<Rightarrow> bool" where
  "permits_ok limit sem out \<longleftrightarrow> counter sem + out = limit \<and> guards sem = out"

definition session_ok :: "ws_world \<Rightarrow> u32 \<Rightarrow> ConnectedClient \<Rightarrow> bool" where
  "session_ok w cid c \<longleftrightarrow> cc_id c = cid \<and> queues_ok c \<and> bimap_wf (cc_subscriptions c) \<and> channels_keyed (cc_channels c)
     \<and> permits_ok DEFAULT_SERVICE_CALLS_PER_CLIENT (cc_service_call_sem c) (service_calls_of w cid)
     \<and> permits_ok DEFAULT_FETCH_ASSET_CALLS_PER_CLIENT (cc_fetch_asset_sem c) (asset_calls_of w cid)"

text \<open>Identifiers below the static counters; two sessions never share a sink.\<close>

definition ids_ok :: "ws_world \<Rightarrow> bool" where
  "ids_ok w \<longleftrightarrow> (\<forall>cid c. hm_get (ww_sessions w) cid = Some c \<longrightarrow>
       cid < ww_next_client_id w \<and> cc_sink_id c < ww_next_sink_id w)
     \<and> (\<forall>cid c cid' c'. hm_get (ww_sessions w) cid = Some c \<longrightarrow> hm_get (ww_sessions w) cid' = Some c' \<longrightarrow>
       cc_sink_id c = cc_sink_id c' \<longrightarrow> cid = cid')"

definition calls_ok :: "ws_world \<Rightarrow> bool" where
  "calls_ok w \<longleftrightarrow> (\<forall>x \<in> set (ww_service_calls w). hm_contains (srs_client (snd x)) (ww_sessions w))
     \<and> (\<forall>x \<in> set (ww_asset_calls w). hm_contains (ars_client (snd x)) (ww_sessions w))"

definition server_ok :: "Server \<Rightarrow> bool" where
  "server_ok sv \<longleftrightarrow> params_wf (sv_subscribed_parameters sv) \<and> service_map_wf (sv_services sv)
     \<and> cow_inv (sv_clients sv) \<and> distinct (inner (sv_clients sv)) \<and> sv_message_backlog_size sv \<noteq> 0"

definition world_ok :: "ws_world \<Rightarrow> bool" where
  "world_ok w \<longleftrightarrow> hm_wf (ww_sessions w)
     \<and> (\<forall>cid c. hm_get (ww_sessions w) cid = Some c \<longrightarrow> session_ok w cid c)
     \<and> ids_ok w \<and> calls_ok w \<and> server_ok (ww_server w)
     \<and> (\<forall>cid \<in> set (inner (sv_clients (ww_server w))). hm_contains cid (ww_sessions w))
     \<and> \<not> ww_panicked w"

subsection \<open>Updates that keep it\<close>

lemma world_okD:
  assumes "world_ok w" "hm_get (ww_sessions w) cid = Some c"
  shows "session_ok w cid c" "queues_ok c" "bimap_wf (cc_subscriptions c)"
  using assms by (auto simp: world_ok_def session_ok_def)

lemma world_ok_insert:
  assumes ok: "world_ok w" and c: "hm_get (ww_sessions w) cid = Some c" and k: "keeps c c'"
  shows "world_ok (w \<lparr> ww_sessions := hm_insert cid c' (ww_sessions w) \<rparr>)"
proof -
  let ?w = "w \<lparr> ww_sessions := hm_insert cid c' (ww_sessions w) \<rparr>"
  have s: "session_ok ?w i d" if g: "hm_get (ww_sessions ?w) i = Some d" for i d
  proof (cases "i = cid")
    case True
    then show ?thesis using g k world_okD(1) [OF ok c]
      by (simp add: session_ok_def keeps_def hm_get_insert service_calls_of_def asset_calls_of_def)
  next
    case False
    then show ?thesis using g world_okD(1) [OF ok, of i d]
      by (simp add: session_ok_def hm_get_insert service_calls_of_def asset_calls_of_def)
  qed
  have "cc_sink_id c' = cc_sink_id c" using k by (simp add: keeps_def)
  then have i: "ids_ok ?w" using ok c unfolding ids_ok_def world_ok_def by (simp add: hm_get_insert) metis
  have "hm_contains j (ww_sessions ?w) \<longleftrightarrow> hm_contains j (ww_sessions w)" for j
    using c by (auto simp: hm_contains_def hm_get_insert)
  then show ?thesis using s i ok by (simp add: world_ok_def calls_ok_def hm_wf_insert)
qed

lemma world_ok_update_session:
  assumes "world_ok w" "benign f"
  shows "world_ok (update_session cid f w)"
proof (cases "hm_get (ww_sessions w) cid")
  case (Some c)
  then show ?thesis using world_ok_insert [OF assms(1) Some benignD [OF assms(2)]] world_okD [OF assms(1) Some]
    by (simp add: update_session_def)
qed (use assms(1) in \<open>simp add: update_session_def\<close>)

lemma world_ok_fold:
  assumes "\<And>x w. world_ok w \<Longrightarrow> world_ok (f x w)"
  shows "world_ok w \<Longrightarrow> world_ok (fold f xs w)"
  by (induction xs arbitrary: w) (simp_all add: assms)

lemma world_ok_broadcast: "(\<And>cid. benign (f cid)) \<Longrightarrow> world_ok w \<Longrightarrow> world_ok (for_clients (\<lambda>cid. update_session cid (f cid)) w)"
  unfolding for_clients_def by (rule world_ok_fold) (simp_all add: world_ok_update_session)

lemma world_ok_frame:
  assumes "world_ok w" "ww_sessions w' = ww_sessions w" "ww_service_calls w' = ww_service_calls w"
    "ww_asset_calls w' = ww_asset_calls w" "ww_next_client_id w' = ww_next_client_id w"
    "ww_next_sink_id w' = ww_next_sink_id w" "server_ok (ww_server w')" "ww_panicked w' = ww_panicked w"
    "set (inner (sv_clients (ww_server w'))) \<subseteq> set (inner (sv_clients (ww_server w)))"
  shows "world_ok w'"
  using assms
  by (auto simp: world_ok_def session_ok_def ids_ok_def calls_ok_def service_calls_of_def asset_calls_of_def)

lemma world_ok_clock [simp]:
  "world_ok (w \<lparr> ww_throttler := t \<rparr>) = world_ok w" "world_ok (w \<lparr> ww_now := n \<rparr>) = world_ok w"
  "world_ok (w \<lparr> ww_server_alive := b \<rparr>) = world_ok w"
  by (simp_all add: world_ok_def session_ok_def ids_ok_def calls_ok_def service_calls_of_def asset_calls_of_def)

lemma world_ok_notify [simp]: "world_ok w \<Longrightarrow> world_ok (notify call w)"
  by (rule world_ok_frame [of w]) (auto simp: notify_def world_ok_def)

lemma world_ok_update_server:
  "world_ok w \<Longrightarrow> server_ok (f (ww_server w)) \<Longrightarrow>
   set (inner (sv_clients (f (ww_server w)))) \<subseteq> set (inner (sv_clients (ww_server w))) \<Longrightarrow> world_ok (update_server f w)"
  by (rule world_ok_frame [of w]) (auto simp: update_server_def)

lemma world_ok_status:
  assumes "env_laws E" "world_ok w"
  shows "world_ok (send_status_to E st cid w)"
proof (cases "hm_get (ww_sessions w) cid")
  case (Some c)
  obtain c' t' where c': "client_send_status E (ww_now w) st c (ww_throttler w) = Some (c', t')" "keeps c c'"
    using client_send_status_keeps [OF assms(1) world_okD(2,3) [OF assms(2) Some]] by meson
  have "world_ok (w \<lparr> ww_sessions := hm_insert cid c' (ww_sessions w) \<rparr>)" by (rule world_ok_insert [OF assms(2) Some c'(2)])
  then have "world_ok ((w \<lparr> ww_sessions := hm_insert cid c' (ww_sessions w) \<rparr>) \<lparr> ww_throttler := t' \<rparr>)" by simp
  then show ?thesis using Some c'(1) by (simp add: send_status_to_def)
qed (use assms in \<open>simp add: send_status_to_def\<close>)

lemma world_ok_log:
  assumes "env_laws E" "world_ok w"
  shows "world_ok (session_log_to E ch msg meta cid w)"
proof (cases "hm_get (ww_sessions w) cid")
  case (Some c)
  obtain c' t' where c': "client_log E (ww_now w) (raw_channel_id ch) msg meta c (ww_throttler w) = Some (c', t')" "keeps c c'"
    using client_log_keeps [OF assms(1) world_okD(2,3) [OF assms(2) Some]] by meson
  have "world_ok (w \<lparr> ww_sessions := hm_insert cid c' (ww_sessions w) \<rparr>)" by (rule world_ok_insert [OF assms(2) Some c'(2)])
  then have "world_ok ((w \<lparr> ww_sessions := hm_insert cid c' (ww_sessions w) \<rparr>) \<lparr> ww_throttler := t' \<rparr>)" by simp
  then show ?thesis using Some c'(1) by (simp add: session_log_to_def)
qed (use assms in \<open>simp add: session_log_to_def\<close>)

lemma world_ok_on_sink: "world_ok w \<Longrightarrow> benign f \<Longrightarrow> world_ok (on_sink k f w)"
  by (simp add: on_sink_def world_ok_update_session split: option.split)

lemma ws_sinks_keep: "env_laws E \<Longrightarrow> sink_invariant (ws_sinks E) world_ok"
  by unfold_locales
    (simp_all add: ws_sinks_def world_ok_on_sink world_ok_log benign_intros split: option.split)

text \<open>The sessions of the concrete environment are sinks that keep the invariant.\<close>

interpretation demo_sinks: sink_invariant "ws_sinks demo_env" world_ok
  by (rule ws_sinks_keep [OF demo_env_laws])

definition prog_ok :: "ws_env \<Rightarrow> prog \<Rightarrow> bool" where
  "prog_ok E s \<longleftrightarrow> ctx_wf (ws_sinks E) s \<and> world_ok (world s)"

subsection \<open>Steps on the program\<close>

lemma prog_ok_in_world: "prog_ok E s \<Longrightarrow> world_ok (f (world s)) \<Longrightarrow> prog_ok E (in_world f s)"
  by (simp add: prog_ok_def in_world_def)

lemma prog_ok_world: "prog_ok E s \<Longrightarrow> world_ok w \<Longrightarrow> prog_ok E (s \<lparr> world := w \<rparr>)"
  by (simp add: prog_ok_def)

lemma prog_okD: "prog_ok E s \<Longrightarrow> world_ok (world s)" "prog_ok E s \<Longrightarrow> ctx_wf (ws_sinks E) s"
  by (simp_all add: prog_ok_def)

lemma prog_ok_notify: "prog_ok E s \<Longrightarrow> prog_ok E (in_world (notify call) s)"
  by (simp add: prog_ok_in_world prog_okD)

lemma prog_ok_notify_all: "prog_ok E s \<Longrightarrow> prog_ok E (in_world (fold (\<lambda>x. notify (f x)) xs) s)"
  by (rule prog_ok_in_world) (simp_all add: world_ok_fold prog_okD)

lemma prog_ok_to_client: "prog_ok E s \<Longrightarrow> benign f \<Longrightarrow> prog_ok E (to_client cid f s)"
  by (simp add: to_client_def prog_ok_in_world world_ok_update_session prog_okD)

lemma prog_ok_set_session:
  "prog_ok E s \<Longrightarrow> session s cid = Some c \<Longrightarrow> keeps c c' \<Longrightarrow> prog_ok E (set_session cid c' s)"
  by (simp add: set_session_def prog_ok_in_world world_ok_insert prog_okD session_def)

lemma session_okD:
  assumes "prog_ok E s" "session s cid = Some c"
  shows "queues_ok c" "bimap_wf (cc_subscriptions c)"
  using assms world_okD by (auto simp: prog_ok_def session_def)

lemma prog_ok_ctx [simp]:
  "prog_ok E s \<Longrightarrow> prog_ok E (ctx_subscribe_channels i ids s)"
  "prog_ok E s \<Longrightarrow> prog_ok E (ctx_unsubscribe_channels i ids s)"
  "prog_ok E s \<Longrightarrow> prog_ok E (snd (ctx_remove_sink i s))"
  by (simp_all add: prog_ok_def ctx_subscribe_channels_wf ctx_unsubscribe_channels_wf ctx_remove_sink_wf)

lemma prog_ok_add_sink: "env_laws E \<Longrightarrow> prog_ok E s \<Longrightarrow> prog_ok E (snd (ctx_add_sink (ws_sinks E) k s))"
  by (simp add: prog_ok_def ctx_add_sink_wf sink_invariant.add_sink_keeps [OF ws_sinks_keep])

section \<open>Messages from a client\<close>

lemma insert_subscription_keeps:
  assumes "env_laws E" "queues_ok c" "bimap_wf (cc_subscriptions c)"
  shows "\<exists>ok c'. insert_subscription E sub c = Some (ok, c') \<and> keeps c c'"
proof -
  obtain ok m msgs where "insert_subscription E sub c = Some (ok, deliver msgs (c \<lparr> cc_subscriptions := m \<rparr>))" "bimap_wf m"
    using insert_subscription_ok [OF assms] by meson
  then show ?thesis using assms(2) by (simp add: keeps_def)
qed

lemma session_set_session [simp]: "session (set_session cid c s) i = (if i = cid then Some c else session s i)"
  by (simp add: session_def set_session_def in_world_def hm_get_insert)

lemma subscribe_loop_total:
  assumes "env_laws E"
  shows "prog_ok E s \<Longrightarrow> \<exists>s'. subscribe_loop E cid xs s = Some s' \<and> prog_ok E s'"
proof (induction xs arbitrary: s)
  case (Cons x xs)
  obtain sub ch where x: "x = (sub, ch)" by (cases x)
  show ?case
  proof (cases "session s cid")
    case (Some c)
    obtain ok c' where i: "insert_subscription E sub c = Some (ok, c')" "keeps c c'"
      using insert_subscription_keeps [OF assms session_okD [OF Cons.prems Some]] by blast
    let ?s1 = "set_session cid c' s"
    let ?s2 = "if ctx_alive ?s1 then ctx_subscribe_channels (cc_sink_id c) [desc_id ch] ?s1 else ?s1"
    have 1: "prog_ok E ?s1" using Cons.prems Some i(2) by (rule prog_ok_set_session)
    then have "prog_ok E (in_world (notify (On_subscribe cid (desc_id ch) (desc_topic ch))) ?s2)"
      by (intro prog_ok_notify) simp
    then show ?thesis using Cons.IH [OF 1] Cons.IH [of "in_world (notify (On_subscribe cid (desc_id ch) (desc_topic ch))) ?s2"]
        Some i(1) x by (cases ok) (simp_all add: Let_def)
  qed (use Cons.prems x in simp)
qed simp

lemma on_subscribe_total:
  assumes "env_laws E" "prog_ok E s"
  shows "\<exists>s'. on_subscribe E cid subscriptions s = Some s' \<and> prog_ok E s'"
proof (cases "session s cid")
  case (Some c)
  have fl: "flume_laws (env_flume E)" using assms(1) by (simp add: env_laws_def)
  note c = session_okD [OF assms(2) Some]
  obtain xs' chans msgs where p: "prune_subscriptions E 0 subscriptions [] c = Some (xs', chans, deliver msgs c)"
    using prune_subscriptions_ok [OF fl c(1), of 0 subscriptions "[]"] by auto
  have "prog_ok E (set_session cid (deliver msgs c) s)"
    by (rule prog_ok_set_session [OF assms(2) Some keeps_deliver [OF c]])
  then show ?thesis using subscribe_loop_total [OF assms(1)] p Some by (simp add: on_subscribe_def)
qed (use assms in \<open>simp add: on_subscribe_def\<close>)

lemma unsubscribe_channel_ids_ok: "prog_ok E s \<Longrightarrow> prog_ok E (unsubscribe_channel_ids cid ids s)"
  by (simp add: unsubscribe_channel_ids_def Let_def prog_ok_notify_all split: option.split)

lemma on_unsubscribe_prog_ok:
  assumes "env_laws E" "prog_ok E s"
  shows "prog_ok E (on_unsubscribe E cid ids s)"
proof (cases "session s cid")
  case (Some c)
  note c = session_okD [OF assms(2) Some]
  have bl: "bimap_laws (env_bimap E)" using assms(1) by (simp add: env_laws_def)
  obtain ls m where u: "unsubscribe_loop E ids [] c = (ls, c \<lparr> cc_subscriptions := m \<rparr>)" "bimap_wf m"
    using unsubscribe_loop_ok [OF bl c(2), of ids "[]"] by auto
  have "keeps c (c \<lparr> cc_subscriptions := m \<rparr>)" using c(1) u(2) by (simp add: keeps_def)
  from prog_ok_set_session [OF assms(2) Some this] show ?thesis
    using Some u(1) by (simp add: on_unsubscribe_def unsubscribe_channel_ids_ok)
qed (use assms in \<open>simp add: on_unsubscribe_def\<close>)

lemma insert_client_channel_keeps:
  assumes "env_laws E" "queues_ok c" "bimap_wf (cc_subscriptions c)"
  shows "keeps c (snd (insert_client_channel E ch c))"
  using benignD [OF benign_sends(3) [OF assms(1)] assms(2,3)] assms(2,3)
  by (simp add: insert_client_channel_def keeps_def split: option.split)

lemma advertise_loop_ok:
  assumes "env_laws E"
  shows "prog_ok E s \<Longrightarrow> prog_ok E (advertise_loop E cid chs s)"
proof (induction chs arbitrary: s)
  case (Cons ch chs)
  show ?case
  proof (cases "session s cid")
    case (Some c)
    obtain ok c' where i: "insert_client_channel E ch c = (ok, c')" by fastforce
    have "keeps c c'" using insert_client_channel_keeps [OF assms session_okD [OF Cons.prems Some], of ch] i by simp
    from prog_ok_set_session [OF Cons.prems Some this] show ?thesis
      using Cons.IH Some i by (simp add: Let_def prog_ok_notify)
  qed (use Cons.prems in simp)
qed simp

lemma on_unadvertise_total:
  assumes "env_laws E" "prog_ok E s"
  shows "\<exists>s'. on_unadvertise E cid ids s = Some s' \<and> prog_ok E s'"
proof (cases "session s cid")
  case (Some c)
  have fl: "flume_laws (env_flume E)" using assms(1) by (simp add: env_laws_def)
  note c = session_okD [OF assms(2) Some]
  obtain chs msgs m where u: "unadvertise_loop E 0 ids [] c = Some (chs, deliver msgs (c \<lparr> cc_advertised_channels := m \<rparr>))"
    using unadvertise_loop_ok [OF fl c(1), of 0 ids "[]"] by auto
  have "keeps c (deliver msgs (c \<lparr> cc_advertised_channels := m \<rparr>))" using c by (simp add: keeps_def)
  from prog_ok_set_session [OF assms(2) Some this] show ?thesis
    using Some u by (simp add: on_unadvertise_def prog_ok_notify_all)
qed (use assms in \<open>simp add: on_unadvertise_def\<close>)

lemma world_ok_set_params:
  "world_ok w \<Longrightarrow> params_wf ps \<Longrightarrow> world_ok (set_params ps w)"
  unfolding set_params_def by (rule world_ok_update_server) (simp_all add: world_ok_def server_ok_def)

lemma world_ok_params:
  assumes "world_ok w"
  shows "world_ok (subscribe_parameters cid names w)" "world_ok (unsubscribe_parameters cid names w)"
    "world_ok (unsubscribe_all_parameters cid w)"
proof -
  let ?ps = "sv_subscribed_parameters (ww_server w)"
  have wf: "params_wf ?ps" using assms by (simp add: world_ok_def server_ok_def)
  obtain a b where l: "param_subscribe_loop cid names (?ps, []) = (a, b)" by fastforce
  show "world_ok (subscribe_parameters cid names w)"
    using param_subscribe_loop_ok [OF wf l] l world_ok_set_params [OF assms] by (simp add: subscribe_parameters_def Let_def)
  obtain a' b' where l': "param_unsubscribe_loop cid names (?ps, []) = (a', b')" by fastforce
  show "world_ok (unsubscribe_parameters cid names w)"
    using param_unsubscribe_loop_ok [OF wf l'] l' world_ok_set_params [OF assms] by (simp add: unsubscribe_parameters_def Let_def)
  obtain a'' b'' where l'': "param_unsubscribe_all cid ?ps = (a'', b'')" by fastforce
  show "world_ok (unsubscribe_all_parameters cid w)"
    using param_unsubscribe_all_ok [OF wf l''] l'' world_ok_set_params [OF assms] by (simp add: unsubscribe_all_parameters_def Let_def)
qed

lemma world_ok_publish:
  assumes "env_laws E" "world_ok w"
  shows "world_ok (publish_parameter_values E ps w)"
proof (cases "has_capability (ww_server w) Parameters")
  case True
  have "benign (\<lambda>c. if b then update_parameters E qs None c else c)" for b qs
    using benign_sends(7) [OF assms(1)] by (simp add: benign_def keeps_refl)
  then show ?thesis
    unfolding publish_parameter_values_eq [OF True] by (intro world_ok_fold world_ok_update_session assms(2))
qed (use assms in \<open>simp add: publish_parameter_values_def\<close>)

lemma world_ok_set_graph: "world_ok w \<Longrightarrow> world_ok (set_graph g w)"
  unfolding set_graph_def by (rule world_ok_update_server) (simp_all add: world_ok_def server_ok_def)

lemma world_ok_graph:
  assumes "world_ok w"
  shows "world_ok (snd (subscribe_connection_graph cid w))" "world_ok (snd (unsubscribe_connection_graph cid w))"
  using assms
  by (simp_all add: subscribe_connection_graph_def unsubscribe_connection_graph_def Let_def world_ok_set_graph
      case_prod_beta)

lemma world_ok_broadcasts:
  assumes "env_laws E" "world_ok w"
  shows "world_ok (broadcast_time E t w)" "world_ok (broadcast_playback_state E p w)" "world_ok (publish_status E st w)"
    "world_ok (remove_status E ids w)" "world_ok (snd (replace_connection_graph E g w))"
proof -
  note send = benign_sends(1) [OF assms(1)]
  show "world_ok (broadcast_time E t w)" "world_ok (broadcast_playback_state E p w)" "world_ok (remove_status E ids w)"
    using assms(2)
    by (simp_all add: broadcast_time_def broadcast_playback_state_def remove_status_def world_ok_broadcast send)
  show "world_ok (publish_status E st w)"
    unfolding publish_status_def for_clients_def
    by (rule world_ok_fold) (simp_all add: world_ok_status [OF assms(1)] assms(2))
  have upd: "benign (\<lambda>c. if b then snd (send_control_msg E m c) else c)" for b m
    using send by (simp add: benign_def keeps_refl)
  show "world_ok (snd (replace_connection_graph E g w))"
  proof (cases "has_capability (ww_server w) ConnectionGraph_cap")
    case True
    show ?thesis unfolding replace_connection_graph_eq [OF True] snd_conv
      by (intro world_ok_fold world_ok_update_session upd world_ok_set_graph assms(2))
  qed (simp add: replace_connection_graph_refused assms(2))
qed

subsection \<open>Permits\<close>

text \<open>One session and the outstanding calls change together.\<close>

lemma world_ok_calls:
  assumes ok: "world_ok w" and c: "hm_get (ww_sessions w) cid = Some c"
    and w': "w' = w \<lparr> ww_sessions := hm_insert cid c' (ww_sessions w), ww_service_calls := scalls, ww_asset_calls := acalls \<rparr>"
    and sink: "cc_sink_id c' = cc_sink_id c" and this_ok: "session_ok w' cid c'"
    and others: "\<And>i. i \<noteq> cid \<Longrightarrow> service_calls_of w' i = service_calls_of w i \<and> asset_calls_of w' i = asset_calls_of w i"
    and known: "(srs_client \<circ> snd) ` set scalls \<subseteq> insert cid ((srs_client \<circ> snd) ` set (ww_service_calls w))"
      "(ars_client \<circ> snd) ` set acalls \<subseteq> insert cid ((ars_client \<circ> snd) ` set (ww_asset_calls w))"
  shows "world_ok w'"
proof -
  have sess: "ww_sessions w' = hm_insert cid c' (ww_sessions w)" using w' by simp
  have "session_ok w' i d" if g: "hm_get (ww_sessions w') i = Some d" for i d
  proof (cases "i = cid")
    case False
    then show ?thesis using g world_okD(1) [OF ok, of i d] others [of i] by (simp add: session_ok_def sess hm_get_insert)
  qed (use g this_ok in \<open>simp add: sess hm_get_insert\<close>)
  moreover have "ids_ok w'" using ok c sink unfolding ids_ok_def world_ok_def w' by (simp add: hm_get_insert) metis
  moreover have con: "hm_contains j (ww_sessions w') \<longleftrightarrow> hm_contains j (ww_sessions w)" for j
    using c by (auto simp: sess hm_contains_def hm_get_insert)
  moreover have "calls_ok w'"
  proof -
    have "hm_contains cid (ww_sessions w)" using c by (simp add: hm_contains_def)
    moreover have "hm_contains i (ww_sessions w)" if "i \<in> (srs_client \<circ> snd) ` set (ww_service_calls w)" for i
      using that ok by (auto simp: world_ok_def calls_ok_def)
    moreover have "hm_contains i (ww_sessions w)" if "i \<in> (ars_client \<circ> snd) ` set (ww_asset_calls w)" for i
      using that ok by (auto simp: world_ok_def calls_ok_def)
    moreover have "\<And>x. x \<in> set scalls \<Longrightarrow> srs_client (snd x) \<in> insert cid ((srs_client \<circ> snd) ` set (ww_service_calls w))"
      "\<And>x. x \<in> set acalls \<Longrightarrow> ars_client (snd x) \<in> insert cid ((ars_client \<circ> snd) ` set (ww_asset_calls w))"
      using known by auto
    ultimately show ?thesis unfolding calls_ok_def con using w' by (metis insertE select_convs(5,6) surjective update_convs(1,5,6))
  qed
  ultimately show ?thesis using ok by (simp add: world_ok_def w' hm_wf_insert)
qed

text \<open>A new call takes a permit, its answer returns it.\<close>

lemma world_ok_service_call:
  assumes ok: "world_ok w" and c: "hm_get (ww_sessions w) cid = Some c"
    and a: "semaphore_try_acquire (cc_service_call_sem c) = (True, sem)" and r: "srs_client r = cid"
  shows "world_ok (w \<lparr> ww_sessions := hm_insert cid (c \<lparr> cc_service_call_sem := sem \<rparr>) (ww_sessions w),
    ww_service_calls := ww_service_calls w @ [(q, r)] \<rparr>)"
  by (rule world_ok_calls [OF ok c, where c' = "c \<lparr> cc_service_call_sem := sem \<rparr>" and acalls = "ww_asset_calls w"
        and scalls = "ww_service_calls w @ [(q, r)]"])
    (use world_okD(1) [OF ok c] a r in
      \<open>auto simp: session_ok_def permits_ok_def semaphore_try_acquire_def service_calls_of_def asset_calls_of_def split: if_splits\<close>)

lemma world_ok_asset_call:
  assumes ok: "world_ok w" and c: "hm_get (ww_sessions w) cid = Some c"
    and a: "semaphore_try_acquire (cc_fetch_asset_sem c) = (True, sem)" and r: "ars_client r = cid"
  shows "world_ok (w \<lparr> ww_sessions := hm_insert cid (c \<lparr> cc_fetch_asset_sem := sem \<rparr>) (ww_sessions w),
    ww_asset_calls := ww_asset_calls w @ [(uri, r)] \<rparr>)"
  by (rule world_ok_calls [OF ok c, where c' = "c \<lparr> cc_fetch_asset_sem := sem \<rparr>" and scalls = "ww_service_calls w"
        and acalls = "ww_asset_calls w @ [(uri, r)]"])
    (use world_okD(1) [OF ok c] a r in
      \<open>auto simp: session_ok_def permits_ok_def semaphore_try_acquire_def service_calls_of_def asset_calls_of_def split: if_splits\<close>)

lemma length_filter_without:
  assumes "i < length xs"
  shows "length (filter P xs) = length (filter P (take i xs @ drop (Suc i) xs)) + (if P (xs ! i) then 1 else 0)"
  by (subst id_take_nth_drop [OF assms]) simp

lemma set_without: "set (take i xs @ drop (Suc i) xs) \<subseteq> set xs"
  using set_take_subset [of i xs] set_drop_subset [of "Suc i" xs] by auto

lemma release_permit: "permits_ok limit sem (Suc n) \<Longrightarrow> limit < 2 ^ 64 \<Longrightarrow> permits_ok limit (sem_guard_drop sem) n"
  by (simp add: permits_ok_def sem_guard_drop_def)

lemma service_respond_eq:
  assumes ok: "world_ok w" and i: "i < length (ww_service_calls w)"
  shows "\<exists>c. hm_get (ww_sessions w) (srs_client (snd (ww_service_calls w ! i))) = Some c
    \<and> service_respond E i result w = w \<lparr> ww_sessions := hm_insert (srs_client (snd (ww_service_calls w ! i)))
        (release_service_guard (snd (send_control_msg E (service_reply (snd (ww_service_calls w ! i)) result) c))) (ww_sessions w),
        ww_service_calls := take i (ww_service_calls w) @ drop (Suc i) (ww_service_calls w) \<rparr>"
proof -
  have "hm_contains (srs_client (snd (ww_service_calls w ! i))) (ww_sessions w)"
    using ok i by (auto simp: world_ok_def calls_ok_def)
  then show ?thesis using i by (auto simp: hm_contains_iff service_respond_def update_session_def Let_def)
qed

lemma asset_respond_eq:
  assumes ok: "world_ok w" and i: "i < length (ww_asset_calls w)"
  shows "\<exists>c. hm_get (ww_sessions w) (ars_client (snd (ww_asset_calls w ! i))) = Some c
    \<and> asset_respond E i result w = w \<lparr> ww_sessions := hm_insert (ars_client (snd (ww_asset_calls w ! i)))
        (release_asset_guard (case result of
               Inr data \<Rightarrow> send_asset_response E data (ars_request_id (snd (ww_asset_calls w ! i))) c
             | Inl err \<Rightarrow> send_asset_error E err (ars_request_id (snd (ww_asset_calls w ! i))) c)) (ww_sessions w),
        ww_asset_calls := take i (ww_asset_calls w) @ drop (Suc i) (ww_asset_calls w) \<rparr>"
proof -
  have "hm_contains (ars_client (snd (ww_asset_calls w ! i))) (ww_sessions w)"
    using ok i by (auto simp: world_ok_def calls_ok_def)
  then show ?thesis using i by (auto simp: hm_contains_iff asset_respond_def update_session_def Let_def)
qed

lemma world_ok_service_respond:
  assumes ok: "world_ok w" and E: "env_laws E"
  shows "world_ok (service_respond E i result w)"
proof (cases "i < length (ww_service_calls w)")
  case True
  let ?r = "snd (ww_service_calls w ! i)" and ?calls = "take i (ww_service_calls w) @ drop (Suc i) (ww_service_calls w)"
  let ?cid = "srs_client ?r"
  obtain c where c: "hm_get (ww_sessions w) ?cid = Some c" and eq: "service_respond E i result w =
      w \<lparr> ww_sessions := hm_insert ?cid (release_service_guard (snd (send_control_msg E (service_reply ?r result) c)))
        (ww_sessions w), ww_service_calls := ?calls \<rparr>"
    using service_respond_eq [OF ok True] by blast
  define c' where "c' = snd (send_control_msg E (service_reply ?r result) c)"
  have k: "keeps c c'" unfolding c'_def by (rule benignD [OF benign_sends(1) [OF E] world_okD(2,3) [OF ok c]])
  define w' where "w' = service_respond E i result w"
  have n: "service_calls_of w j = service_calls_of w' j + (if j = ?cid then 1 else 0)" "asset_calls_of w' j = asset_calls_of w j" for j
    using length_filter_without [OF True, of "\<lambda>x. srs_client (snd x) = j"] unfolding w'_def eq
    by (auto simp: service_calls_of_def asset_calls_of_def)
  have "world_ok w'"
  proof (rule world_ok_calls [OF ok c, where c' = "release_service_guard c'" and scalls = ?calls and acalls = "ww_asset_calls w"])
    show "session_ok w' ?cid (release_service_guard c')"
      using world_okD(1) [OF ok c] k n [of ?cid] release_permit [of _ "cc_service_call_sem c" "service_calls_of w' ?cid"]
      by (simp add: session_ok_def keeps_def release_service_guard_def DEFAULT_SERVICE_CALLS_PER_CLIENT_def)
    show "(srs_client \<circ> snd) ` set ?calls \<subseteq> insert ?cid ((srs_client \<circ> snd) ` set (ww_service_calls w))"
      using set_without [of i "ww_service_calls w"] by blast
  qed (use k n in \<open>auto simp: w'_def eq c'_def keeps_def release_service_guard_def\<close>)
  then show ?thesis by (simp add: w'_def)
qed (use ok in \<open>simp add: service_respond_def\<close>)

lemma world_ok_asset_respond:
  assumes ok: "world_ok w" and E: "env_laws E"
  shows "world_ok (asset_respond E i result w)"
proof (cases "i < length (ww_asset_calls w)")
  case True
  let ?r = "snd (ww_asset_calls w ! i)" and ?calls = "take i (ww_asset_calls w) @ drop (Suc i) (ww_asset_calls w)"
  let ?cid = "ars_client ?r"
  let ?send = "\<lambda>c. case result of Inr data \<Rightarrow> send_asset_response E data (ars_request_id ?r) c
             | Inl err \<Rightarrow> send_asset_error E err (ars_request_id ?r) c"
  obtain c where c: "hm_get (ww_sessions w) ?cid = Some c" and eq: "asset_respond E i result w =
      w \<lparr> ww_sessions := hm_insert ?cid (release_asset_guard (?send c)) (ww_sessions w), ww_asset_calls := ?calls \<rparr>"
    using asset_respond_eq [OF ok True] by blast
  define c' where "c' = ?send c"
  have k: "keeps c c'" unfolding c'_def
    using benignD [OF benign_sends(5) [OF E] world_okD(2,3) [OF ok c]] benignD [OF benign_sends(6) [OF E] world_okD(2,3) [OF ok c]]
    by (simp split: sum.split)
  define w' where "w' = asset_respond E i result w"
  have n: "asset_calls_of w j = asset_calls_of w' j + (if j = ?cid then 1 else 0)" "service_calls_of w' j = service_calls_of w j" for j
    using length_filter_without [OF True, of "\<lambda>x. ars_client (snd x) = j"] unfolding w'_def eq
    by (auto simp: service_calls_of_def asset_calls_of_def)
  have "world_ok w'"
  proof (rule world_ok_calls [OF ok c, where c' = "release_asset_guard c'" and acalls = ?calls and scalls = "ww_service_calls w"])
    show "session_ok w' ?cid (release_asset_guard c')"
      using world_okD(1) [OF ok c] k n [of ?cid] release_permit [of _ "cc_fetch_asset_sem c" "asset_calls_of w' ?cid"]
      by (simp add: session_ok_def keeps_def release_asset_guard_def DEFAULT_FETCH_ASSET_CALLS_PER_CLIENT_def)
    show "(ars_client \<circ> snd) ` set ?calls \<subseteq> insert ?cid ((ars_client \<circ> snd) ` set (ww_asset_calls w))"
      using set_without [of i "ww_asset_calls w"] by blast
  qed (use k n in \<open>auto simp: w'_def eq c'_def keeps_def release_asset_guard_def\<close>)
  then show ?thesis by (simp add: w'_def)
qed (use ok in \<open>simp add: asset_respond_def\<close>)

subsection \<open>Requests\<close>

lemma on_service_call_cases:
  obtains (gone) "session s cid = None"
  | (refused) m where "on_service_call E cid req s =
      to_client cid (send_service_call_failure E (scr_service_id req) (scr_call_id req) m) s"
  | (admitted) service c sem where "session s cid = Some c" "get_service (scr_service_id req) s = Some service"
      "semaphore_try_acquire (cc_service_call_sem c) = (True, sem)"
      "on_service_call E cid req s = in_world (\<lambda>w. w \<lparr> ww_service_calls := ww_service_calls w @
         [(\<lparr> rq_service = service, rq_client_id = cid, rq_call_id = scr_call_id req,
             rq_encoding = scr_encoding req, rq_payload = scr_payload req \<rparr>,
           \<lparr> srs_client = cid, srs_service_id = svc_id service, srs_call_id = scr_call_id req,
             srs_encoding = (case service_response_encoding service of Some e \<Rightarrow> e | None \<Rightarrow> scr_encoding req) \<rparr>)] \<rparr>)
         (set_session cid (c \<lparr> cc_service_call_sem := sem \<rparr>) s)"
proof (cases "session s cid")
  case (Some c)
  show ?thesis
  proof (cases "\<exists>m. on_service_call E cid req s =
      to_client cid (send_service_call_failure E (scr_service_id req) (scr_call_id req) m) s")
    case False
    then obtain service where "get_service (scr_service_id req) s = Some service"
      by (cases "get_service (scr_service_id req) s") (auto simp: on_service_call_def Let_def split: if_splits)
    moreover obtain ok sem where a: "semaphore_try_acquire (cc_service_call_sem c) = (ok, sem)" by fastforce
    ultimately show ?thesis using False Some admitted
      by (cases ok) (auto simp: on_service_call_def Let_def split: if_splits)
  qed (use refused in blast)
qed (rule gone)

lemma on_service_call_prog_ok:
  assumes "env_laws E" "prog_ok E s"
  shows "prog_ok E (on_service_call E cid req s)"
proof (cases rule: on_service_call_cases [where s = s and cid = cid and E = E and req = req])
  case gone
  have "to_client cid f s = s" for f using gone by (simp add: to_client_def in_world_def update_session_def session_def)
  then have "on_service_call E cid req s = s"
    using gone by (simp add: on_service_call_def Let_def split: option.split)
  then show ?thesis using assms(2) by simp
next
  case (refused m)
  then show ?thesis using prog_ok_to_client [OF assms(2) benign_sends(4) [OF assms(1)]] by simp
next
  case (admitted service c sem)
  let ?w = "world s"
  have c: "hm_get (ww_sessions ?w) cid = Some c" using admitted(1) by (simp add: session_def)
  show ?thesis
    using world_ok_service_call [OF prog_okD(1) [OF assms(2)] c admitted(3)] prog_okD(2) [OF assms(2)]
    unfolding admitted(4) by (simp add: prog_ok_def in_world_def set_session_def)
qed

lemma on_fetch_asset_prog_ok:
  assumes "env_laws E" "prog_ok E s"
  shows "prog_ok E (on_fetch_asset E cid uri rid s)"
proof (cases "has_capability (server_of s) Assets")
  case True
  show ?thesis
  proof (cases "session s cid")
    case (Some c)
    obtain ok sem where a: "semaphore_try_acquire (cc_fetch_asset_sem c) = (ok, sem)" by fastforce
    have c: "hm_get (ww_sessions (world s)) cid = Some c" using Some by (simp add: session_def)
    consider (full) "\<not> ok" | (handler) "ok" "sv_fetch_asset_handler (server_of s)" | (none) ok "\<not> sv_fetch_asset_handler (server_of s)"
      by blast
    then show ?thesis
    proof cases
      case full
      then show ?thesis using True Some a prog_ok_to_client [OF assms(2) benign_sends(5) [OF assms(1)]]
        by (simp add: on_fetch_asset_def)
    next
      case handler
      then show ?thesis
        using True Some a world_ok_asset_call [OF prog_okD(1) [OF assms(2)] c, of sem] prog_okD(2) [OF assms(2)]
        by (simp add: on_fetch_asset_def prog_ok_def in_world_def set_session_def)
    next
      case none
      let ?send = "send_asset_error E ''Server does not have a fetch asset handler'' rid"
      let ?c = "release_asset_guard (?send (c \<lparr> cc_fetch_asset_sem := sem \<rparr>))"
      have p: "permits_ok DEFAULT_FETCH_ASSET_CALLS_PER_CLIENT (cc_fetch_asset_sem c) (asset_calls_of (world s) cid)"
        using world_okD(1) [OF prog_okD(1) [OF assms(2)] c] by (simp add: session_ok_def)
      have sem: "sem_guard_drop sem = cc_fetch_asset_sem c"
        using a none(1) p by (auto simp: semaphore_try_acquire_def sem_guard_drop_def permits_ok_def
            DEFAULT_FETCH_ASSET_CALLS_PER_CLIENT_def split: if_splits)
      have "queues_ok (c \<lparr> cc_fetch_asset_sem := sem \<rparr>)" "bimap_wf (cc_subscriptions c)"
        using session_okD [OF assms(2) Some] by simp_all
      then have "keeps (c \<lparr> cc_fetch_asset_sem := sem \<rparr>) (?send (c \<lparr> cc_fetch_asset_sem := sem \<rparr>))"
        using benignD [OF benign_sends(5) [OF assms(1)], of "c \<lparr> cc_fetch_asset_sem := sem \<rparr>"] by simp
      then have "keeps c ?c" using sem by (simp add: keeps_def release_asset_guard_def)
      moreover have "on_fetch_asset E cid uri rid s = set_session cid ?c s"
        using True Some a none by (simp add: on_fetch_asset_def to_client_def update_session_def set_session_def in_world_def hm_get_insert)
          (simp add: hm_insert_def)
      ultimately show ?thesis using prog_ok_set_session [OF assms(2) Some] by simp
    qed
  qed (use True assms in \<open>simp add: on_fetch_asset_def\<close>)
qed (use prog_ok_to_client [OF assms(2) benign_sends(2) [OF assms(1)]] in \<open>simp add: on_fetch_asset_def\<close>)

lemma handlers_prog_ok:
  assumes "env_laws E" "prog_ok E s"
  shows "prog_ok E (on_advertise E cid chans s)" "prog_ok E (on_message_data E cid md s)"
    "prog_ok E (on_get_parameters E cid names rid s)" "prog_ok E (on_set_parameters E cid ps rid s)"
    "prog_ok E (on_parameters_subscribe E cid names s)" "prog_ok E (on_parameters_unsubscribe E cid names s)"
    "prog_ok E (on_connection_graph_subscribe E cid s)" "prog_ok E (on_connection_graph_unsubscribe E cid s)"
    "prog_ok E (on_playback_control_request E cid pc s)"
proof -
  note ok = assms(2) and err = prog_ok_to_client [OF _ benign_sends(2) [OF assms(1)]]
    and upd = prog_ok_to_client [OF _ benign_sends(7) [OF assms(1)]]
  note w = prog_okD(1) [OF ok]
  show "prog_ok E (on_advertise E cid chans s)"
    by (simp add: on_advertise_def err ok advertise_loop_ok [OF assms(1)])
  show "prog_ok E (on_message_data E cid md s)"
    by (simp add: on_message_data_def err ok prog_ok_notify split: option.split)
  show "prog_ok E (on_get_parameters E cid names rid s)"
    by (simp add: on_get_parameters_def err upd ok prog_ok_notify Let_def split: option.split)
  have pub: "prog_ok E t \<Longrightarrow> prog_ok E (in_world (publish_parameter_values E qs) t)" for t qs
    by (rule prog_ok_in_world) (simp_all add: world_ok_publish [OF assms(1)] prog_okD)
  show "prog_ok E (on_set_parameters E cid ps rid s)"
    by (simp add: on_set_parameters_def err upd ok prog_ok_notify pub Let_def split: option.split)
  show "prog_ok E (on_parameters_subscribe E cid names s)" "prog_ok E (on_parameters_unsubscribe E cid names s)"
    by (simp_all add: on_parameters_subscribe_def on_parameters_unsubscribe_def err ok prog_ok_in_world world_ok_params w)
  show "prog_ok E (on_connection_graph_unsubscribe E cid s)"
    by (simp add: on_connection_graph_unsubscribe_def err ok prog_ok_in_world world_ok_graph w)
  have "prog_ok E (s \<lparr> world := snd (subscribe_connection_graph cid (world s)) \<rparr>)"
    using world_ok_graph(1) [OF w] ok by (rule prog_ok_world [rotated])
  then show "prog_ok E (on_connection_graph_subscribe E cid s)"
    using prog_ok_to_client [OF _ benign_sends(1) [OF assms(1)]] ok
    by (simp add: on_connection_graph_subscribe_def err Let_def case_prod_beta split: option.split)
  have play: "prog_ok E t \<Longrightarrow> prog_ok E (in_world (broadcast_playback_state E st) t)" for t st
    by (rule prog_ok_in_world) (simp_all add: world_ok_broadcasts [OF assms(1)] prog_okD)
  show "prog_ok E (on_playback_control_request E cid pc s)"
    by (simp add: on_playback_control_request_def err ok prog_ok_notify play Let_def split: option.split)
qed

lemma dispatch_total:
  assumes "env_laws E" "prog_ok E s"
  shows "\<exists>s'. dispatch E cid m s = Some s' \<and> prog_ok E s'"
  using on_subscribe_total [OF assms] on_unadvertise_total [OF assms] on_unsubscribe_prog_ok [OF assms]
    on_service_call_prog_ok [OF assms] on_fetch_asset_prog_ok [OF assms] handlers_prog_ok [OF assms]
  by (cases m) simp_all

lemma handle_message_total:
  assumes "env_laws E" "prog_ok E s"
  shows "\<exists>s'. handle_message E cid m s = Some s' \<and> prog_ok E s'"
proof -
  have "bytes_laws (env_bytes E)" using assms(1) by (simp add: env_laws_def)
  then have "\<exists>r. client_message_try_from (env_bytes E) (env_from_json E) m = Some r"
    using parse_binary_total(1) by (cases m) auto
  then obtain r where r: "client_message_try_from (env_bytes E) (env_from_json E) m = Some r" by blast
  show ?thesis
  proof (cases r)
    case (Inl e)
    then show ?thesis using r assms(2) prog_ok_to_client [OF assms(2) benign_sends(2) [OF assms(1)]]
      by (cases e) (simp_all add: handle_message_def)
  next
    case (Inr msg)
    then show ?thesis using r assms(2) dispatch_total [OF assms] by (simp add: handle_message_def)
  qed
qed

section \<open>Connections and services\<close>

lemma on_disconnect_prog_ok: "prog_ok E s \<Longrightarrow> prog_ok E (on_disconnect E cid s)"
  by (simp add: on_disconnect_def unsubscribe_channel_ids_ok split: option.split)

lemma cowvec_retain_ok:
  "cow_inv v \<Longrightarrow> \<exists>v'. cowvec_retain p v = Some v' \<and> cow_inv v' \<and> inner v' = filter p (inner v)"
  by (cases "frozen v") (simp_all add: cow_inv_def cowvec_retain_def)

lemma prog_ok_unregister:
  assumes "env_laws E" "prog_ok E s"
  shows "\<exists>s'. unregister_client E cid s = Some s' \<and> prog_ok E s'"
proof (cases "session s cid")
  case (Some c)
  let ?s1 = "if ctx_alive s then snd (ctx_remove_sink (cc_sink_id c) s) else s"
  have 1: "prog_ok E ?s1" using assms(2) by simp
  have sv: "server_ok (server_of ?s1)" using prog_okD(1) [OF 1] by (simp add: world_ok_def server_of_def)
  obtain v where v: "cowvec_retain (\<lambda>x. x \<noteq> cid) (sv_clients (server_of ?s1)) = Some v" "cow_inv v"
    "inner v = filter (\<lambda>x. x \<noteq> cid) (inner (sv_clients (server_of ?s1)))"
    using cowvec_retain_ok [of "sv_clients (server_of ?s1)"] sv unfolding server_ok_def by blast
  let ?s2 = "in_world (update_server (\<lambda>sv. sv \<lparr> sv_clients := v \<rparr>)) ?s1"
  have 2: "prog_ok E ?s2"
    using 1 sv v(2,3)
    by (intro prog_ok_in_world world_ok_update_server prog_okD(1) [OF 1]) (simp_all add: server_ok_def server_of_def)
  let ?s3 = "if has_capability (server_of ?s2) Parameters then in_world (unsubscribe_all_parameters cid) ?s2 else ?s2"
  have 3: "prog_ok E ?s3" using 2 by (simp add: prog_ok_in_world world_ok_params prog_okD)
  let ?s4 = "if has_capability (server_of ?s3) ConnectionGraph_cap
    then in_world (\<lambda>w. snd (unsubscribe_connection_graph cid w)) ?s3 else ?s3"
  have 4: "prog_ok E ?s4" using 3 by (simp add: prog_ok_in_world world_ok_graph prog_okD)
  have "prog_ok E (in_world (notify On_client_disconnect) (on_disconnect E cid ?s4))"
    by (intro prog_ok_notify on_disconnect_prog_ok 4)
  moreover have "unregister_client E cid s = Some (in_world (notify On_client_disconnect) (on_disconnect E cid ?s4))"
    using Some v(1) by (simp add: unregister_client_def Let_def)
  ultimately show ?thesis by blast
qed (use assms in \<open>simp add: unregister_client_def\<close>)

lemma prog_ok_register:
  assumes "env_laws E" "prog_ok E s" "cid \<notin> set (inner (sv_clients (server_of s)))"
  shows "prog_ok E (register_client_and_advertise E cid s)"
proof (cases "session s cid")
  case (Some c)
  note w = prog_okD(1) [OF assms(2)]
  show ?thesis
  proof (cases "frozen (sv_clients (server_of s))")
    case True
    then show ?thesis using Some prog_ok_to_client [OF assms(2) benign_shutdown]
      by (simp add: register_client_and_advertise_def cowvec_push_def)
  next
    case False
    let ?v = "sv_clients (server_of s) \<lparr> inner := inner (sv_clients (server_of s)) @ [cid] \<rparr>"
    let ?s1 = "in_world (update_server (\<lambda>sv. sv \<lparr> sv_clients := ?v \<rparr>)) s"
    have "world_ok (update_server (\<lambda>sv. sv \<lparr> sv_clients := ?v \<rparr>) (world s))"
      using w Some False assms(3)
      by (auto simp: world_ok_def update_server_def server_ok_def cow_inv_def session_ok_def ids_ok_def calls_ok_def
          service_calls_of_def asset_calls_of_def hm_contains_def session_def server_of_def)
    then have 1: "prog_ok E (in_world (notify On_client_connect) ?s1)"
      by (intro prog_ok_notify prog_ok_in_world assms(2))
    let ?s3 = "if ctx_alive (in_world (notify On_client_connect) ?s1)
      then snd (ctx_add_sink (ws_sinks E) (Dyn_sink (cc_sink_id c)) (in_world (notify On_client_connect) ?s1))
      else in_world (notify On_client_connect) ?s1"
    have 3: "prog_ok E ?s3" using 1 prog_ok_add_sink [OF assms(1) 1] by simp
    show ?thesis
      using 3 prog_ok_to_client [OF 3 benign_sends(1) [OF assms(1)]] Some False
      by (simp add: register_client_and_advertise_def cowvec_push_def Let_def)
  qed
qed (use assms in \<open>simp add: register_client_and_advertise_def\<close>)

lemma keys_fresh: "world_ok w \<Longrightarrow> hm_get (ww_sessions w) (ww_next_client_id w) = None"
  by (cases "hm_get (ww_sessions w) (ww_next_client_id w)") (auto simp: world_ok_def ids_ok_def)

lemma word_less_succ:
  fixes x y :: "'a :: len word"
  assumes "unat y + 1 < 2 ^ LENGTH('a)"
  shows "x < y \<Longrightarrow> x < y + 1" "y < y + 1"
  using assms by (simp_all add: word_less_nat_alt unat_word_ariths)

text \<open>A new session.\<close>

lemma world_ok_new_session:
  assumes ok: "world_ok w" and room: "unat (ww_next_client_id w) + 1 < 2 ^ 32" "unat (ww_next_sink_id w) + 1 < 2 ^ 64"
    and c: "c = connected_client_new (ww_next_client_id w) (ww_next_sink_id w) (unat (sv_message_backlog_size (ww_server w)))
        \<lparr> cc_suppress := a, cc_token_push := b \<rparr>"
  shows "world_ok (w \<lparr> ww_next_client_id := ww_next_client_id w + 1, ww_next_sink_id := ww_next_sink_id w + 1,
      ww_sessions := hm_insert (ww_next_client_id w) c (ww_sessions w) \<rparr>)" (is "world_ok ?w")
proof -
  let ?i = "ww_next_client_id w"
  note fresh = keys_fresh [OF ok]
  have lt: "x < ?i \<Longrightarrow> x < ?i + 1" "?i < ?i + 1" "k < ww_next_sink_id w \<Longrightarrow> k < ww_next_sink_id w + 1"
    "ww_next_sink_id w < ww_next_sink_id w + 1" for x k
    using word_less_succ [of ?i] word_less_succ [of "ww_next_sink_id w"] room by simp_all
  have none: "service_calls_of w ?i = 0" "asset_calls_of w ?i = 0"
    using ok fresh by (auto simp: world_ok_def calls_ok_def service_calls_of_def asset_calls_of_def hm_contains_def filter_empty_conv)
  have backlog: "0 < unat (sv_message_backlog_size (ww_server w))"
    using ok by (simp add: world_ok_def server_ok_def unat_gt_0)
  have new: "session_ok w ?i c" using none backlog
    by (simp add: c session_ok_def connected_client_new_def queues_ok_def bimap_wf_def permits_ok_def semaphore_new_def
        channels_keyed_def)
  have calls: "service_calls_of ?w j = service_calls_of w j" "asset_calls_of ?w j = asset_calls_of w j" for j
    by (simp_all add: service_calls_of_def asset_calls_of_def)
  have s: "session_ok ?w j d" if g: "hm_get (ww_sessions ?w) j = Some d" for j d
    using g new world_okD(1) [OF ok, of j d] by (auto simp: session_ok_def calls hm_get_insert split: if_splits)
  have sink: "cc_sink_id c = ww_next_sink_id w" by (simp add: c connected_client_new_def)
  have old: "j < ?i" "cc_sink_id d < ww_next_sink_id w" if "hm_get (ww_sessions w) j = Some d" for j d
    using ok that by (auto simp: world_ok_def ids_ok_def)
  have "ids_ok ?w"
    unfolding ids_ok_def
  proof (intro conjI allI impI)
    fix j d
    assume "hm_get (ww_sessions ?w) j = Some d"
    then show "j < ww_next_client_id ?w" "cc_sink_id d < ww_next_sink_id ?w"
      using old [of j d] lt sink by (auto simp: hm_get_insert split: if_splits)
  next
    fix j d j' d'
    assume "hm_get (ww_sessions ?w) j = Some d" "hm_get (ww_sessions ?w) j' = Some d'" "cc_sink_id d = cc_sink_id d'"
    moreover have "k \<noteq> ?i \<Longrightarrow> hm_get (ww_sessions ?w) k = Some e \<Longrightarrow> cc_sink_id e \<noteq> cc_sink_id c" for k e
      using old(2) [of k e] sink by (auto simp: hm_get_insert)
    moreover have "j \<noteq> ?i \<Longrightarrow> j' \<noteq> ?i \<Longrightarrow> j = j'"
      using calculation(1-3) ok by (simp add: hm_get_insert world_ok_def ids_ok_def)
    ultimately show "j = j'" by (cases "j = ?i"; cases "j' = ?i") (auto simp: hm_get_insert)
  qed
  moreover have "hm_contains j (ww_sessions w) \<Longrightarrow> hm_contains j (ww_sessions ?w)" for j by simp
  ultimately show ?thesis using s ok by (auto simp: world_ok_def calls_ok_def hm_wf_insert)
qed

lemma prog_ok_accept:
  assumes "env_laws E" "prog_ok E s"
    "unat (ww_next_client_id (world s)) + 1 < 2 ^ 32" "unat (ww_next_sink_id (world s)) + 1 < 2 ^ 64"
  shows "prog_ok E (snd (accept_client E lib offered sent s))"
proof (cases sent)
  case True
  let ?w = "world s" and ?cid = "ww_next_client_id (world s)"
  define current where "current \<longleftrightarrow> offered \<noteq> None
    \<and> offered = hm_get (si_metadata (server_info lib s)) ADVERTISEMENT_TOKEN_METADATA_KEY"
  define c where "c = connected_client_new ?cid (ww_next_sink_id ?w) (unat (sv_message_backlog_size (ww_server ?w)))
      \<lparr> cc_suppress := current, cc_token_push := (offered \<noteq> None) \<rparr>"
  let ?s = "set_session ?cid c (in_world (\<lambda>w. w \<lparr> ww_next_client_id := ww_next_client_id w + 1,
                   ww_next_sink_id := ww_next_sink_id w + 1 \<rparr>) s)"
  have acc: "accept_client E lib offered sent s = (Some ?cid, register_client_and_advertise E ?cid ?s)"
    using True by (cases "offered = None";
        cases "offered = hm_get (si_metadata (server_info lib s)) ADVERTISEMENT_TOKEN_METADATA_KEY")
      (simp_all add: accept_client_def Let_def current_def c_def server_of_def
        suppress_initial_advertisement_def enable_advertisement_token_push_def connected_client_new_def)
  have "prog_ok E ?s"
    using world_ok_new_session [OF prog_okD(1) [OF assms(2)] assms(3,4) c_def] prog_okD(2) [OF assms(2)]
    by (simp add: prog_ok_def set_session_def in_world_def)
  moreover have "?cid \<notin> set (inner (sv_clients (server_of ?s)))"
    using keys_fresh [OF prog_okD(1) [OF assms(2)]] prog_okD(1) [OF assms(2)]
    by (auto simp: server_of_def set_session_def in_world_def world_ok_def hm_contains_def)
  ultimately show ?thesis using prog_ok_register [OF assms(1)] acc by simp
qed (use assms in \<open>simp add: accept_client_def Let_def\<close>)

lemma prog_ok_announce:
  assumes "env_laws E" "prog_ok E s"
  shows "prog_ok E (announce E m s)"
  unfolding announce_def Let_def
  by (rule prog_ok_in_world [OF assms(2)])
    (rule world_ok_broadcast [OF benign_comp [OF benign_sends(8) [OF assms(1)] benign_sends(1) [OF assms(1)]]
        prog_okD(1) [OF assms(2)]])

lemma validate_services_ok:
  "validate_services E sv ss (names, ads) = Inr r \<Longrightarrow>
     distinct (map svc_name ss) \<and> (\<forall>x \<in> set ss. hm_get names (svc_name x) = None)"
proof (induction ss arbitrary: names ads)
  case (Cons x ss)
  let ?names = "hm_insert (svc_name x) (svc_id x) names"
  have "hm_get names (svc_name x) = None" using Cons.prems by (auto split: if_splits)
  moreover have "distinct (map svc_name ss) \<and> (\<forall>y \<in> set ss. hm_get ?names (svc_name y) = None)"
    using Cons.prems by (intro Cons.IH) (auto split: if_splits)
  ultimately show ?case by (auto simp: hm_get_insert split: if_splits)
qed simp

lemma first_registered_None:
  "first_registered ss m = None \<longleftrightarrow>
     (\<forall>x \<in> set ss. \<not> service_map_contains_name (svc_name x) m \<and> \<not> service_map_contains_id (svc_id x) m)"
  by (induction ss) auto

lemma prog_ok_set_services:
  "prog_ok E s \<Longrightarrow> service_map_wf m \<Longrightarrow> prog_ok E (in_world (update_server (\<lambda>sv. sv \<lparr> sv_services := m \<rparr>)) s)"
  by (intro prog_ok_in_world world_ok_update_server) (simp_all add: prog_ok_def world_ok_def server_ok_def)

lemma prog_ok_services_wf: "prog_ok E s \<Longrightarrow> service_map_wf (sv_services (server_of s))"
  by (simp add: prog_ok_def world_ok_def server_ok_def server_of_def)

lemma insert_all_total:
  assumes "service_map_wf m" "distinct (map svc_name ss)" "distinct (map svc_id ss)" "first_registered ss m = None"
  shows "\<exists>m'. service_map_insert_all ss m = Some m' \<and> service_map_wf m'
    \<and> (\<forall>i x. service_map_get_by_id m' i = Some x \<longleftrightarrow> (x \<in> set ss \<and> svc_id x = i) \<or> service_map_get_by_id m i = Some x)"
  unfolding service_map_insert_all_eq
  by (rule svcs.ins_all_ok [OF assms(1-3)])
    (use assms(4) in \<open>simp add: first_registered_None service_map_contains_id_def service_map_get_by_id_def hm_contains_def\<close>)

lemma prog_ok_add_services:
  assumes "env_laws E" "prog_ok E s" "distinct (map svc_id ss)"
  shows "\<exists>r s'. add_services E ss s = Some (r, s') \<and> prog_ok E s'"
proof -
  let ?m = "sv_services (server_of s)"
  consider (refused) r where "add_services E ss s = Some (r, s)"
    | (added) names ads where "has_capability (server_of s) Services_cap" "ss \<noteq> []"
      "validate_services E (server_of s) ss ([], []) = Inr (names, ads)" "first_registered ss ?m = None"
    by (cases "has_capability (server_of s) Services_cap"; cases "ss = []"; cases "validate_services E (server_of s) ss ([], [])";
        cases "first_registered ss ?m") (auto simp: add_services_def)
  then show ?thesis
  proof cases
    case added
    obtain m' where m': "service_map_insert_all ss ?m = Some m'" "service_map_wf m'"
      using insert_all_total [OF prog_ok_services_wf [OF assms(2)] _ assms(3) added(4)] validate_services_ok [OF added(3)] by blast
    from prog_ok_set_services [OF assms(2) m'(2)] show ?thesis
      using added m'(1) prog_ok_announce [OF assms(1)] by (simp add: add_services_def Let_def)
  qed (use assms(2) in blast)
qed

lemma prog_ok_remove_services:
  assumes "env_laws E" "prog_ok E s"
  shows "prog_ok E (remove_services E names s)"
proof -
  obtain rs m' where r: "service_map_remove_all names (sv_services (server_of s)) = (rs, m')" by fastforce
  have "service_map_wf m'"
    using svcs.del_all_ok [OF prog_ok_services_wf [OF assms(2)]] r unfolding service_map_remove_all_eq by blast
  from prog_ok_set_services [OF assms(2) this] show ?thesis
    using r prog_ok_announce [OF assms(1)] by (simp add: remove_services_def Let_def)
qed

section \<open>Runs of the server\<close>

text \<open>Everything that can happen: messages and connections of clients, answers of the handlers,
  calls of the application on the server, on channels and on the context, the poller taking
  messages from the queues of a session, and the clock.\<close>

datatype server_op =
  Client_message u32 ws_message
| Connect string "string option" bool
| Disconnect u32
| Answer_service nat "(u8 list, string) result"
| Drop_service_responder nat
| Set_response_encoding nat string
| Answer_asset nat "(u8 list, string) result"
| Drop_asset_responder nat
| Add_services "Service list"
| Remove_services "string list"
| Publish_parameters "Parameter list"
| Publish_status Status
| Remove_status "string list"
| Broadcast_time u64
| Broadcast_playback PlaybackState
| Replace_graph ConnectionGraph
| Clear_session string string "string option"
| Start_server "(string, string) result"
| Stop_server
| Build_channel ChannelBuilder
| Close_channel chan_ref
| Log_message nat u64 chan_ref "u8 list" PartialMetadata "SinkId option"
| Drop_the_context
| Poll u32 nat nat
| Tick nat

definition poll :: "nat \<Rightarrow> nat \<Rightarrow> ConnectedClient \<Rightarrow> ConnectedClient" where
  "poll n m c = c \<lparr> cc_control_plane := drop n (cc_control_plane c), cc_data_plane := drop m (cc_data_plane c) \<rparr>"

fun server_exec :: "ws_env \<Rightarrow> server_op \<Rightarrow> prog \<Rightarrow> prog may_panic" where
  "server_exec E (Client_message cid m) s = handle_message E cid m s"
| "server_exec E (Connect lib offered sent) s = Some (snd (accept_client E lib offered sent s))"
| "server_exec E (Disconnect cid) s = unregister_client E cid s"
| "server_exec E (Answer_service i r) s = Some (in_world (service_respond E i r) s)"
| "server_exec E (Drop_service_responder i) s = Some (in_world (service_responder_drop E i) s)"
| "server_exec E (Set_response_encoding i e) s = Some (in_world (set_encoding i e) s)"
| "server_exec E (Answer_asset i r) s = Some (in_world (asset_respond E i r) s)"
| "server_exec E (Drop_asset_responder i) s = Some (in_world (asset_responder_drop E i) s)"
| "server_exec E (Add_services ss) s = map_option snd (add_services E ss s)"
| "server_exec E (Remove_services names) s = Some (remove_services E names s)"
| "server_exec E (Publish_parameters ps) s = Some (in_world (publish_parameter_values E ps) s)"
| "server_exec E (Publish_status st) s = Some (in_world (publish_status E st) s)"
| "server_exec E (Remove_status ids) s = Some (in_world (remove_status E ids) s)"
| "server_exec E (Broadcast_time t) s = Some (in_world (broadcast_time E t) s)"
| "server_exec E (Broadcast_playback p) s = Some (in_world (broadcast_playback_state E p) s)"
| "server_exec E (Replace_graph g) s = Some (in_world (\<lambda>w. snd (replace_connection_graph E g w)) s)"
| "server_exec E (Clear_session lib gen new) s = Some (clear_session E lib gen new s)"
| "server_exec E (Start_server bound) s = Some (in_world (\<lambda>w. snd (server_start bound w)) s)"
| "server_exec E Stop_server s = Some (in_world (\<lambda>w. snd (server_stop w)) s)"
| "server_exec E (Build_channel b) s = Some (snd (build_raw (ws_sinks E) b s))"
| "server_exec E (Close_channel r) s = Some (channel_close (ws_sinks E) r s)"
| "server_exec E (Log_message now unow r msg opts target) s = Some (channel_log (ws_sinks E) now unow r msg opts target s)"
| "server_exec E Drop_the_context s = Some (ctx_drop (ws_sinks E) s)"
| "server_exec E (Poll cid n m) s = Some (to_client cid (poll n m) s)"
| "server_exec E (Tick n) s = Some (in_world (\<lambda>w. w \<lparr> ww_now := n \<rparr>) s)"

text \<open>What the callers see to: channels exist, the context is alive where a reference to it is
  needed, services have distinct identifiers since a counter hands them out, and no counter
  wraps around.\<close>

fun server_allowed :: "server_op \<Rightarrow> prog \<Rightarrow> bool" where
  "server_allowed (Connect _ _ _) s \<longleftrightarrow>
     unat (ww_next_client_id (world s)) + 1 < 2 ^ 32 \<and> unat (ww_next_sink_id (world s)) + 1 < 2 ^ 64"
| "server_allowed (Add_services ss) s \<longleftrightarrow> distinct (map svc_id ss)"
| "server_allowed (Build_channel b) s \<longleftrightarrow> ctx_alive s \<and> unat (next_channel_id s) + 1 < 2 ^ 64"
| "server_allowed (Close_channel r) s \<longleftrightarrow> hm_contains r (heap s)"
| "server_allowed (Log_message _ _ r _ _ _) s \<longleftrightarrow> hm_contains r (heap s)"
| "server_allowed Drop_the_context s \<longleftrightarrow> ctx_alive s"
| "server_allowed _ s \<longleftrightarrow> True"

definition world_new :: "Server \<Rightarrow> ws_world" where
  "world_new sv = \<lparr> ww_sessions = [], ww_server = sv, ww_server_alive = True, ww_calls = [], ww_service_calls = [],
     ww_asset_calls = [], ww_next_client_id = 1, ww_next_sink_id = 1, ww_throttler = throttler_new 30000000000,
     ww_now = 0, ww_panicked = False \<rparr>"

inductive server_reachable :: "ws_env \<Rightarrow> prog \<Rightarrow> bool" for E where
  server_reach_new: "server_new generated opts = Some sv \<Longrightarrow> sv_message_backlog_size sv \<noteq> 0 \<Longrightarrow>
    server_reachable E (program_new (world_new sv))"
| server_reach_step: "server_reachable E s \<Longrightarrow> server_allowed e s \<Longrightarrow> server_exec E e s = Some s' \<Longrightarrow> server_reachable E s'"

lemma benign_poll: "benign (poll n m)"
  by (rule benignI) (auto simp: keeps_def poll_def queues_ok_def)

lemma world_ok_set_encoding: "world_ok w \<Longrightarrow> world_ok (set_encoding i e w)"
proof (cases "i < length (ww_service_calls w)")
  case True
  assume ok: "world_ok w"
  let ?w = "set_encoding i e w"
  have m: "map (srs_client \<circ> snd) (ww_service_calls ?w) = map (srs_client \<circ> snd) (ww_service_calls w)"
    using True by (simp add: set_encoding_def map_update) (metis comp_apply length_map list_update_id nth_map)
  have "length (filter (\<lambda>x. srs_client (snd x) = j) xs) = count_list (map (srs_client \<circ> snd) xs) j"
    for j and xs :: "(Request \<times> ServiceResponder) list" by (induction xs) auto
  then have n: "service_calls_of ?w j = service_calls_of w j" for j by (simp only: service_calls_of_def m)
  have "\<forall>i \<in> set (map (srs_client \<circ> snd) (ww_service_calls w)). hm_contains i (ww_sessions w)"
    using ok by (simp add: world_ok_def calls_ok_def)
  then have "\<forall>i \<in> set (map (srs_client \<circ> snd) (ww_service_calls ?w)). hm_contains i (ww_sessions w)"
    by (simp only: m)
  then have "\<forall>x \<in> set (ww_service_calls ?w). hm_contains (srs_client (snd x)) (ww_sessions w)" by simp
  then show ?thesis using ok n True
    by (simp add: world_ok_def session_ok_def asset_calls_of_def ids_ok_def calls_ok_def set_encoding_def)
qed (simp add: set_encoding_def)

lemma world_ok_stop: "world_ok w \<Longrightarrow> world_ok (snd (server_stop w))"
proof (cases "sv_tasks (ww_server w)")
  case True
  assume ok: "world_ok w"
  have "world_ok (update_server (\<lambda>s. s \<lparr> sv_tasks := False, sv_cancelled := True, sv_clients := \<lparr> inner = [], frozen = True \<rparr> \<rparr>) w)"
    using ok by (intro world_ok_update_server) (simp_all add: world_ok_def server_ok_def cow_inv_def)
  then show ?thesis unfolding server_stop_started [OF True] snd_conv
    by (rule world_ok_fold [rotated]) (rule world_ok_update_session [OF _ benign_shutdown])
qed (simp add: server_stop_def)

lemma world_ok_start: "world_ok w \<Longrightarrow> world_ok (snd (server_start bound w))"
proof -
  assume ok: "world_ok w"
  then have "world_ok (update_server (\<lambda>s. s \<lparr> sv_tasks := True \<rparr>) w)"
    by (intro world_ok_update_server) (simp_all add: world_ok_def server_ok_def)
  then show ?thesis using ok by (simp add: server_start_def Let_def split: sum.split)
qed

lemma prog_ok_clear_session:
  assumes "env_laws E" "prog_ok E s"
  shows "prog_ok E (clear_session E lib gen new s)"
proof -
  let ?s = "in_world (update_server (\<lambda>sv. sv \<lparr> sv_session_id := (case new of Some i \<Rightarrow> i | None \<Rightarrow> gen) \<rparr>)) s"
  have s: "prog_ok E ?s"
    using prog_okD(1) [OF assms(2)]
    by (intro prog_ok_in_world [OF assms(2)] world_ok_update_server) (simp_all add: world_ok_def server_ok_def)
  show ?thesis unfolding clear_session_def Let_def
    by (rule prog_ok_in_world [OF s], rule world_ok_broadcast [OF benign_sends(1) [OF assms(1)] prog_okD(1) [OF s]])
qed

lemma prog_ok_app:
  assumes "env_laws E" "prog_ok E s" "server_allowed e s"
  shows "e = Build_channel b \<Longrightarrow> prog_ok E (snd (build_raw (ws_sinks E) b s))"
    "e = Close_channel r \<Longrightarrow> prog_ok E (channel_close (ws_sinks E) r s)"
    "e = Log_message now unow r msg opts target \<Longrightarrow> prog_ok E (channel_log (ws_sinks E) now unow r msg opts target s)"
    "prog_ok E (ctx_drop (ws_sinks E) s)"
proof -
  note inv = ws_sinks_keep [OF assms(1)]
  note w = prog_okD(1) [OF assms(2)] and c = prog_okD(2) [OF assms(2)]
  show "e = Build_channel b \<Longrightarrow> prog_ok E (snd (build_raw (ws_sinks E) b s))"
    using assms(3) c w by (simp add: prog_ok_def build_raw_wf sink_invariant.build_keeps [OF inv])
  show "e = Close_channel r \<Longrightarrow> prog_ok E (channel_close (ws_sinks E) r s)"
    using assms(2) c w
    by (simp add: channel_close_def prog_ok_def ctx_remove_channel_wf sink_invariant.remove_channel_keeps [OF inv])
  show "e = Log_message now unow r msg opts target \<Longrightarrow> prog_ok E (channel_log (ws_sinks E) now unow r msg opts target s)"
    using assms(3) c w by (simp add: prog_ok_def channel_log_wf sink_invariant.log_keeps [OF inv])
  show "prog_ok E (ctx_drop (ws_sinks E) s)"
    using c w by (simp add: prog_ok_def ctx_drop_def ctx_clear_wf sink_invariant.clear_keeps [OF inv])
qed

text \<open>The operations that only act on the world of the server.\<close>

lemma server_exec_world:
  assumes "env_laws E" "world_ok w"
  shows "world_ok (service_respond E i r w)" "world_ok (service_responder_drop E i w)" "world_ok (set_encoding i e w)"
    "world_ok (asset_respond E i r w)" "world_ok (asset_responder_drop E i w)" "world_ok (publish_parameter_values E ps w)"
    "world_ok (publish_status E st w)" "world_ok (remove_status E ids w)" "world_ok (broadcast_time E t w)"
    "world_ok (broadcast_playback_state E p w)" "world_ok (snd (replace_connection_graph E g w))"
    "world_ok (snd (server_start bound w))" "world_ok (snd (server_stop w))"
  by (simp_all only: service_responder_drop_def asset_responder_drop_def world_ok_service_respond [OF assms(2,1)]
      world_ok_asset_respond [OF assms(2,1)] world_ok_set_encoding [OF assms(2)] world_ok_publish [OF assms]
      world_ok_broadcasts [OF assms] world_ok_start [OF assms(2)] world_ok_stop [OF assms(2)])

lemma server_exec_total:
  assumes "env_laws E" "prog_ok E s" "server_allowed e s"
  shows "\<exists>s'. server_exec E e s = Some s' \<and> prog_ok E s'"
proof -
  note w = server_exec_world [OF assms(1) prog_okD(1) [OF assms(2)]]
  note in_w = prog_ok_in_world [OF assms(2)]
  show ?thesis
  proof (cases e)
    case (Client_message cid m)
    then show ?thesis using handle_message_total [OF assms(1,2)] by simp
  next
    case (Connect lib offered sent)
    then show ?thesis using prog_ok_accept [OF assms(1,2)] assms(3) by simp
  next
    case (Disconnect cid)
    then show ?thesis using prog_ok_unregister [OF assms(1,2)] by simp
  next
    case (Add_services ss)
    then have "distinct (map svc_id ss)" using assms(3) by simp
    then obtain r s' where "add_services E ss s = Some (r, s')" "prog_ok E s'"
      using prog_ok_add_services [OF assms(1,2)] by blast
    then show ?thesis using Add_services by simp
  next
    case (Remove_services names)
    then show ?thesis using prog_ok_remove_services [OF assms(1,2)] by simp
  next
    case (Clear_session lib gen new)
    then show ?thesis using prog_ok_clear_session [OF assms(1,2)] by simp
  next
    case (Poll cid n m)
    then show ?thesis using prog_ok_to_client [OF assms(2) benign_poll] by simp
  next
    case (Tick n)
    then show ?thesis using in_w [of "\<lambda>w. w \<lparr> ww_now := n \<rparr>"] prog_okD(1) [OF assms(2)] by simp
  qed (simp_all add: in_w w prog_ok_app [OF assms])
qed

lemma server_new_ok:
  "server_new generated opts = Some sv \<Longrightarrow> sv_message_backlog_size sv \<noteq> 0 \<Longrightarrow> server_ok sv \<and> sv_clients sv = cowvec_new"
proof -
  assume n: "server_new generated opts = Some sv" and b: "sv_message_backlog_size sv \<noteq> 0"
  from n obtain m where m: "service_map_from_iter (hm_values (so_services opts)) = Some m" "sv_services sv = m"
    and f: "sv_clients sv = cowvec_new" "sv_subscribed_parameters sv = []"
    by (auto simp: server_new_def Let_def case_prod_beta split: if_splits bind_splits)
  have "service_map_wf m"
    using svcs.ins_all_Some [OF service_map_wf_default] svcs.ins_all_ok [OF service_map_wf_default] m(1)
    unfolding service_map_from_iter_def service_map_insert_all_eq by (metis option.inject)
  then show "server_ok sv \<and> sv_clients sv = cowvec_new" using b m(2) f
    by (simp add: server_ok_def params_wf_def hm_wf_Nil cow_inv_def cowvec_new_def)
qed

lemma server_reachable_ok:
  assumes "env_laws E"
  shows "server_reachable E s \<Longrightarrow> prog_ok E s"
proof (induction rule: server_reachable.induct)
  case (server_reach_new generated opts sv)
  then show ?case using server_new_ok [of generated opts sv]
    by (simp add: prog_ok_def program_new_wf)
      (simp add: program_new_def world_new_def world_ok_def ids_ok_def calls_ok_def server_ok_def cowvec_new_def cow_inv_def hm_wf_Nil)
next
  case (server_reach_step s e s')
  then show ?case using server_exec_total [OF assms server_reach_step.IH, of e] by simp
qed

section \<open>Properties\<close>

text \<open>C6: in every state that the server can reach, whatever its clients send and in whatever order
  clients, handlers and the application act, the context and the sessions are consistent (in
  particular every permit of a session that is out is held by exactly one outstanding call, and no
  queue exceeds its bound), and no operation panics: every message of a client, every
  disconnection and every call of the application returns.\<close>

theorem server_invariant:
  assumes "env_laws E" "server_reachable E s"
  shows "ctx_wf (ws_sinks E) s \<and> world_ok (world s)
    \<and> (server_allowed e s \<longrightarrow> (\<exists>s'. server_exec E e s = Some s'))"
  using server_reachable_ok [OF assms] server_exec_total [OF assms(1) server_reachable_ok [OF assms], of e]
  by (auto simp: prog_ok_def)

definition demo_options :: ServerOptions where
  "demo_options = \<lparr> so_session_id = Some ''s'', so_name = None, so_message_backlog_size = None, so_listener = Some demo_listener,
     so_capabilities = Some [ClientPublish, Services_cap], so_services = [], so_supported_encodings = Some [''json''],
     so_fetch_asset_handler = False, so_server_info = None, so_playback_time_range = None \<rparr>"

lemma demo_options_server: "\<exists>sv. server_new ''g'' demo_options = Some sv \<and> sv_message_backlog_size sv \<noteq> 0"
  by (simp add: server_new_def demo_options_def hm_values_def service_map_from_iter_def service_map_default_def
      DEFAULT_MESSAGE_BACKLOG_SIZE_def)

theorem server_invariant_witness:
  "\<exists>s s'. server_reachable demo_env s \<and> server_exec demo_env (Connect ''lib'' None True) s = Some s'
     \<and> (\<exists>s''. server_exec demo_env (Client_message 1 (WsBinary [1, 0, 0])) s' = Some s'')"
proof -
  obtain sv where sv: "server_new ''g'' demo_options = Some sv" "sv_message_backlog_size sv \<noteq> 0"
    using demo_options_server by blast
  let ?s = "program_new (world_new sv)"
  have r: "server_reachable demo_env ?s" by (rule server_reach_new [OF sv])
  have a: "server_allowed (Connect ''lib'' None True) ?s" by (simp add: program_new_def world_new_def)
  obtain s' where s': "server_exec demo_env (Connect ''lib'' None True) ?s = Some s'"
    using server_invariant [OF demo_env_laws r, of "Connect ''lib'' None True"] a by blast
  have "server_reachable demo_env s'" by (rule server_reach_step [OF r a s'])
  then show ?thesis using server_invariant [OF demo_env_laws, of s' "Client_message 1 (WsBinary [1, 0, 0])"] r s' by auto
qed

end
