(* ===== verification/Server_Properties.thy ===== *)
theory Server_Properties
  imports Server_Invariant
begin

text \<open>
  What the operations of the server do in the states it can reach: service calls and their
  answers, the registration of services, the requests of a client and the delivery of logged
  messages to the sessions.
\<close>

section \<open>Service calls\<close>

text \<open>The conditions under which a call is handed to its handler.\<close>

definition encoding_ok :: "Server \<Rightarrow> Service \<Rightarrow> string \<Rightarrow> bool" where
  "encoding_ok sv service e =
     (case service_request_encoding service of Some e' \<Rightarrow> e' = e | None \<Rightarrow> supports_encoding sv e)"

definition admissible :: "prog \<Rightarrow> u32 \<Rightarrow> ServiceCallRequest \<Rightarrow> bool" where
  "admissible s cid req \<longleftrightarrow> has_capability (server_of s) Services_cap
     \<and> (case get_service (scr_service_id req) s of None \<Rightarrow> False | Some x \<Rightarrow> encoding_ok (server_of s) x (scr_encoding req))
     \<and> service_calls_of (world s) cid < DEFAULT_SERVICE_CALLS_PER_CLIENT"

definition call_responder :: "u32 \<Rightarrow> ServiceCallRequest \<Rightarrow> Service \<Rightarrow> ServiceResponder" where
  "call_responder cid req service = \<lparr> srs_client = cid, srs_service_id = scr_service_id req, srs_call_id = scr_call_id req,
     srs_encoding = (case service_response_encoding service of Some e \<Rightarrow> e | None \<Rightarrow> scr_encoding req) \<rparr>"

lemma session_to_client: "session (to_client cid f s) i = (if i = cid then map_option f (session s i) else session s i)"
  by (simp add: session_def to_client_def in_world_def update_session_get)

lemma to_client_calls [simp]: "ww_service_calls (world (to_client cid f s)) = ww_service_calls (world s)"
  by (simp add: to_client_def in_world_def)

lemma try_acquire_iff:
  "permits_ok limit sem n \<Longrightarrow> fst (semaphore_try_acquire sem) \<longleftrightarrow> n < limit"
  by (auto simp: permits_ok_def semaphore_try_acquire_def)

lemma send_failure_deliver:
  "env_laws E \<Longrightarrow> queues_ok c \<Longrightarrow> send_service_call_failure E i j m c =
     deliver [ws E (SServiceCallFailure \<lparr> scf_service_id = i, scf_call_id = j, scf_message = m \<rparr>)] c"
  by (simp add: send_service_call_failure_def send_control_msg_deliver env_laws_def)

lemma on_service_call_refused:
  assumes "\<not> admissible s cid req" "session s cid = Some c" "prog_ok E s"
  shows "\<exists>m. on_service_call E cid req s =
    to_client cid (send_service_call_failure E (scr_service_id req) (scr_call_id req) m) s"
proof -
  have "permits_ok DEFAULT_SERVICE_CALLS_PER_CLIENT (cc_service_call_sem c) (service_calls_of (world s) cid)"
    using world_okD(1) [OF prog_okD(1) [OF assms(3)]] assms(2) by (simp add: session_def session_ok_def)
  note acq = try_acquire_iff [OF this]
  obtain ok sem where a: "semaphore_try_acquire (cc_service_call_sem c) = (ok, sem)" by fastforce
  show ?thesis
    using assms(1,2) acq a
    by (cases ok; cases "get_service (scr_service_id req) s")
      (auto simp: admissible_def encoding_ok_def on_service_call_def Let_def split: option.splits)
qed

lemma on_service_call_admitted:
  assumes "admissible s cid req" "session s cid = Some c" "prog_ok E s"
  shows "\<exists>service sem. get_service (scr_service_id req) s = Some service
    \<and> on_service_call E cid req s = in_world (\<lambda>w. w \<lparr> ww_service_calls := ww_service_calls w @
        [(\<lparr> rq_service = service, rq_client_id = cid, rq_call_id = scr_call_id req,
            rq_encoding = scr_encoding req, rq_payload = scr_payload req \<rparr>, call_responder cid req service)] \<rparr>)
        (set_session cid (c \<lparr> cc_service_call_sem := sem \<rparr>) s)"
proof -
  have "permits_ok DEFAULT_SERVICE_CALLS_PER_CLIENT (cc_service_call_sem c) (service_calls_of (world s) cid)"
    using world_okD(1) [OF prog_okD(1) [OF assms(3)]] assms(2) by (simp add: session_def session_ok_def)
  then have acq: "fst (semaphore_try_acquire (cc_service_call_sem c))"
    using try_acquire_iff assms(1) by (simp add: admissible_def)
  then obtain sem where a: "semaphore_try_acquire (cc_service_call_sem c) = (True, sem)" by (metis prod.collapse)
  obtain service where x: "get_service (scr_service_id req) s = Some service" "encoding_ok (server_of s) service (scr_encoding req)"
    using assms(1) by (auto simp: admissible_def split: option.splits)
  have "svc_id service = scr_service_id req"
    using svcs.get_id [OF prog_ok_services_wf [OF assms(3)]] x(1) by (simp add: get_service_def)
  then show ?thesis using assms(1,2) a x
    by (intro exI [of _ service] exI [of _ sem])
      (simp add: on_service_call_def admissible_def encoding_ok_def call_responder_def Let_def)
qed

section \<open>Registration of services\<close>

lemma validate_services_iff:
  "(\<exists>r. validate_services E sv ss (names, ads) = Inr r) \<longleftrightarrow> distinct (map svc_name ss)
     \<and> (\<forall>x \<in> set ss. hm_get names (svc_name x) = None \<and> (service_request_encoding x \<noteq> None \<or> sv_supported_encodings sv \<noteq> []))"
  by (induction ss arbitrary: names ads) (auto simp: hm_get_insert image_iff)

lemma validate_services_error:
  "validate_services E sv ss (names, ads) = Inl e \<Longrightarrow>
     \<exists>x \<in> set ss. e = DuplicateService (svc_name x) \<or> e = MissingRequestEncoding (svc_name x)"
  by (induction ss arbitrary: names ads) (auto split: if_splits)

lemma first_registered_Some:
  "first_registered ss m = Some x \<Longrightarrow> x \<in> set ss
     \<and> (service_map_contains_name (svc_name x) m \<or> service_map_contains_id (svc_id x) m)"
  by (induction ss) (auto split: if_splits)

lemma server_of_announce [simp]: "server_of (announce E m s) = server_of s"
  by (simp add: announce_def Let_def server_of_def in_world_def for_clients_def)

definition addable :: "prog \<Rightarrow> Service list \<Rightarrow> bool" where
  "addable s ss \<longleftrightarrow> has_capability (server_of s) Services_cap \<and> distinct (map svc_name ss)
     \<and> (\<forall>x \<in> set ss. (service_request_encoding x \<noteq> None \<or> sv_supported_encodings (server_of s) \<noteq> [])
         \<and> \<not> service_map_contains_name (svc_name x) (sv_services (server_of s))
         \<and> \<not> service_map_contains_id (svc_id x) (sv_services (server_of s)))"

lemma add_services_refused:
  assumes "\<not> addable s ss"
  shows "\<exists>e. add_services E ss s = Some (Inl e, s) \<and> (e = ServicesNotSupported
    \<or> (\<exists>x \<in> set ss. e = DuplicateService (svc_name x) \<or> e = MissingRequestEncoding (svc_name x)))"
proof (cases "has_capability (server_of s) Services_cap")
  case True
  then have ne: "ss \<noteq> []" using assms by (auto simp: addable_def)
  show ?thesis
  proof (cases "validate_services E (server_of s) ss ([], [])")
    case (Inl e)
    then show ?thesis using True ne validate_services_error by (fastforce simp: add_services_def)
  next
    case (Inr r)
    then have "first_registered ss (sv_services (server_of s)) \<noteq> None"
      using True assms validate_services_iff [of E "server_of s" ss "[]" "[]"] by (auto simp: addable_def first_registered_None)
    then show ?thesis using True ne Inr first_registered_Some by (fastforce simp: add_services_def split: prod.split)
  qed
qed (simp add: add_services_def)

lemma add_services_done:
  assumes "addable s ss" "prog_ok E s" "distinct (map svc_id ss)"
  shows "\<exists>s'. add_services E ss s = Some (Inr (), s')
    \<and> (\<forall>i x. get_service i s' = Some x \<longleftrightarrow> (x \<in> set ss \<and> svc_id x = i) \<or> get_service i s = Some x)"
proof (cases "ss = []")
  case False
  let ?m = "sv_services (server_of s)"
  have none: "first_registered ss ?m = None" using assms(1) by (auto simp: addable_def first_registered_None)
  obtain names ads where v: "validate_services E (server_of s) ss ([], []) = Inr (names, ads)"
    using validate_services_iff [of E "server_of s" ss "[]" "[]"] assms(1) by (auto simp: addable_def)
  obtain m' where m': "service_map_insert_all ss ?m = Some m'"
    "\<forall>i x. service_map_get_by_id m' i = Some x \<longleftrightarrow> (x \<in> set ss \<and> svc_id x = i) \<or> service_map_get_by_id ?m i = Some x"
    using insert_all_total [OF prog_ok_services_wf [OF assms(2)] _ assms(3) none] assms(1) unfolding addable_def by blast
  let ?s = "in_world (update_server (\<lambda>sv. sv \<lparr> sv_services := m' \<rparr>)) s"
  have "add_services E ss s = Some (Inr (), if ads = [] then ?s else announce E (SAdvertiseServices ads) ?s)"
    using assms(1) False none v m'(1) by (simp add: add_services_def addable_def Let_def)
  moreover have "get_service i (if ads = [] then ?s else announce E (SAdvertiseServices ads) ?s) = service_map_get_by_id m' i" for i
    by (simp add: get_service_def) (simp add: server_of_def in_world_def)
  ultimately show ?thesis using m'(2) by (simp add: get_service_def)
qed (use assms(1) in \<open>simp add: add_services_def addable_def\<close>)

section \<open>Delivery of logged messages\<close>

lemma client_of_sink_eq:
  assumes "world_ok w" "hm_get (ww_sessions w) cid = Some c"
  shows "client_of_sink (cc_sink_id c) w = Some cid"
proof -
  have wf: "hm_wf (ww_sessions w)" using assms(1) by (simp add: world_ok_def)
  have mem: "(cid, c) \<in> set (ww_sessions w)" using hm_wf_in_iff [OF wf] assms(2) by simp
  show ?thesis
  proof (cases "find (\<lambda>(cid, d). cc_sink_id d = cc_sink_id c) (ww_sessions w)")
    case None
    then show ?thesis using mem by (auto simp: find_None_iff)
  next
    case (Some x)
    obtain i d where x: "x = (i, d)" by (cases x)
    have "(i, d) \<in> set (ww_sessions w)" "cc_sink_id d = cc_sink_id c"
      using Some x by (auto simp: find_Some_iff in_set_conv_nth)
    then have "i = cid" using assms hm_wf_in_iff [OF wf] unfolding world_ok_def ids_ok_def by blast
    then show ?thesis using Some x by (simp add: client_of_sink_def)
  qed
qed

lemma client_of_sinkD:
  assumes "world_ok w" "client_of_sink i w = Some cid"
  shows "\<exists>c. hm_get (ww_sessions w) cid = Some c \<and> cc_sink_id c = i"
proof -
  obtain c where "(cid, c) \<in> set (ww_sessions w)" "cc_sink_id c = i"
    using assms(2) by (force simp: client_of_sink_def find_Some_iff in_set_conv_nth)
  then show ?thesis using hm_wf_in_iff [of "ww_sessions w"] assms(1) by (auto simp: world_ok_def)
qed

lemma session_log_to_get:
  assumes "env_laws E" "world_ok w" "hm_get (ww_sessions w) cid = Some c"
  shows "hm_get (ww_sessions (session_log_to E ch msg meta i w)) cid =
    Some (if i = cid then logged E (raw_channel_id ch) msg meta c else c)"
proof (cases "hm_get (ww_sessions w) i")
  case (Some d)
  obtain t' where "client_log E (ww_now w) (raw_channel_id ch) msg meta d (ww_throttler w) =
      Some (logged E (raw_channel_id ch) msg meta d, t')"
    using client_log_eq [OF assms(1) world_okD(2,3) [OF assms(2) Some]] by blast
  then show ?thesis using Some assms(3) by (auto simp: session_log_to_def hm_get_insert)
qed (use assms(3) in \<open>auto simp: session_log_to_def\<close>)

text \<open>A log call reaches each session once, through its sink.\<close>

lemma fold_sink_log:
  assumes E: "env_laws E"
  shows "world_ok w \<Longrightarrow> distinct (map sink_id ks) \<Longrightarrow> hm_get (ww_sessions w) cid = Some c \<Longrightarrow>
    hm_get (ww_sessions (fold (\<lambda>k w. snd (sink_log (ws_sinks E) k ch msg meta w)) ks w)) cid =
      Some (if cc_sink_id c \<in> sink_id ` set ks then logged E (raw_channel_id ch) msg meta c else c)"
proof (induction ks arbitrary: w c)
  case (Cons k ks)
  let ?w = "snd (sink_log (ws_sinks E) k ch msg meta w)"
  let ?c = "if cc_sink_id c = sink_id k then logged E (raw_channel_id ch) msg meta c else c"
  have ok: "world_ok ?w" by (rule sink_invariant.log [OF ws_sinks_keep [OF E] Cons.prems(1)])
  have step: "?w = (case client_of_sink (sink_id k) w of None \<Rightarrow> w | Some i \<Rightarrow> session_log_to E ch msg meta i w)"
    by (simp add: ws_sinks_def)
  have "hm_get (ww_sessions ?w) cid = Some ?c"
  proof (cases "client_of_sink (sink_id k) w")
    case None
    then have "cc_sink_id c \<noteq> sink_id k" using client_of_sink_eq [OF Cons.prems(1,3)] by auto
    then show ?thesis using None step Cons.prems(3) by simp
  next
    case (Some i)
    have "i = cid \<longleftrightarrow> cc_sink_id c = sink_id k"
      using client_of_sink_eq [OF Cons.prems(1,3)] client_of_sinkD [OF Cons.prems(1) Some] Cons.prems(3) Some by auto
    then show ?thesis using session_log_to_get [OF E Cons.prems(1,3)] Some step by simp
  qed
  moreover have "cc_sink_id ?c = cc_sink_id c" by (simp add: logged_def split: option.split)
  ultimately show ?case using Cons.IH [OF ok, of ?c] Cons.prems(2) by auto
qed simp

lemma channel_log_session:
  assumes "env_laws E" "prog_ok E s" "registered s r" "session s cid = Some c"
  shows "session (channel_log (ws_sinks E) now unow r msg opts None s) cid =
    Some (if cc_sink_id c \<in> snd (subs_abs (subs (ctx s))) r
          then logged E r msg \<lparr> log_time = (case opt_log_time opts of None \<Rightarrow> unow | Some t \<Rightarrow> t) \<rparr> c else c)"
proof -
  let ?ks = "log_sinks (deref s r)" and ?meta = "\<lparr> log_time = (case opt_log_time opts of None \<Rightarrow> unow | Some t \<Rightarrow> t) \<rparr>"
  note wf = prog_okD(2) [OF assms(2)]
  have glob: "fst (subs_abs (subs (ctx s))) = {}" using wf by (simp add: ctx_wf_def links_ok_def ws_sinks_def)
  have heap: "hm_contains r (heap s)" using registered_heap assms(3) wf by (auto simp: ctx_wf_def)
  have id: "raw_channel_id (deref s r) = r" using wf heap by (auto simp: ctx_wf_def heap_ok_def)
  have dist: "distinct (map sink_id ?ks)" using wf heap assms(3) by (auto simp: ctx_wf_def cache_ok_def)
  have ks: "sink_id ` set ?ks = snd (subs_abs (subs (ctx s))) r"
    using ctx_wf_channel_sinks [OF wf assms(3)] glob by (simp add: index_subscribers_def)
  have "world (channel_log (ws_sinks E) now unow r msg opts None s) =
      fold (\<lambda>k w. snd (sink_log (ws_sinks E) k (deref s r) msg ?meta w)) ?ks (world s)"
    by (simp add: channel_log_def log_with_meta_to_sink_def has_sinks_def log_to_sinks_fold)
  then show ?thesis
    using fold_sink_log [OF assms(1) prog_okD(1) [OF assms(2)] dist, of cid c "deref s r" msg ?meta] assms(4) id ks
    by (simp add: session_def)
qed

fun data_of_call :: "ws_env \<Rightarrow> (ChannelId \<Rightarrow> u32) \<Rightarrow> log_call \<Rightarrow> ws_message" where
  "data_of_call E sid (now, unow, r, msg, opts) = ws E (SMessageData
     \<lparr> smd_subscription_id = sid r, smd_log_time = log_time (stamp unow opts), smd_data = msg \<rparr>)"

lemma prog_ok_log_call: "env_laws E \<Longrightarrow> prog_ok E s \<Longrightarrow> registered s (channel_of_call l) \<Longrightarrow> prog_ok E (log_call (ws_sinks E) l s)"
  using prog_ok_app(3) [OF _ _ _ refl] registered_heap prog_okD(2)
  by (cases l) (fastforce simp: ctx_wf_def)

lemma last_n_append_last_n: "last_n n (last_n n xs @ ys) = last_n n (xs @ ys)"
  by (cases "n \<le> length xs") (simp_all add: last_n_def add.commute)

lemma log_calls_subscribed:
  assumes E: "env_laws E"
  shows "prog_ok E s \<Longrightarrow> session s cid = Some c \<Longrightarrow> \<forall>l \<in> set ls. registered s (channel_of_call l)
      \<and> cc_sink_id c \<in> snd (subs_abs (subs (ctx s))) (channel_of_call l)
      \<and> map_of (cc_subscriptions c) (channel_of_call l) = Some (sid (channel_of_call l)) \<Longrightarrow>
    session (fold (log_call (ws_sinks E)) ls s) cid =
      Some (c \<lparr> cc_data_plane := last_n (cc_backlog c) (cc_data_plane c @ map (data_of_call E sid) ls) \<rparr>)"
proof (induction ls arbitrary: s c)
  case Nil
  then show ?case using session_okD [OF Nil(1,2)] by (simp add: queues_ok_def last_n_def)
next
  case (Cons l ls)
  obtain now unow r msg opts where l: "l = (now, unow, r, msg, opts)" by (cases l)
  let ?c = "c \<lparr> cc_data_plane := last_n (cc_backlog c) (cc_data_plane c @ [data_of_call E sid l]) \<rparr>"
  have ok: "prog_ok E (log_call (ws_sinks E) l s)" using prog_ok_log_call [OF E Cons.prems(1)] Cons.prems(3) by simp
  have c: "session (log_call (ws_sinks E) l s) cid = Some ?c"
    using channel_log_session [OF E Cons.prems(1) _ Cons.prems(2), of r now unow msg opts] Cons.prems(3) l
    by (simp add: logged_def stamp_def)
  have "\<forall>l' \<in> set ls. registered (log_call (ws_sinks E) l s) (channel_of_call l')
      \<and> cc_sink_id ?c \<in> snd (subs_abs (subs (ctx (log_call (ws_sinks E) l s)))) (channel_of_call l')
      \<and> map_of (cc_subscriptions ?c) (channel_of_call l') = Some (sid (channel_of_call l'))"
    using Cons.prems(3) by (simp add: registered_def log_call_fields)
  from Cons.IH [OF ok c this] show ?case by (simp add: last_n_append_last_n)
qed

lemma log_calls_unsubscribed:
  assumes E: "env_laws E"
  shows "prog_ok E s \<Longrightarrow> session s cid = Some c \<Longrightarrow> \<forall>l \<in> set ls. registered s (channel_of_call l)
      \<and> cc_sink_id c \<notin> snd (subs_abs (subs (ctx s))) (channel_of_call l) \<Longrightarrow>
    session (fold (log_call (ws_sinks E)) ls s) cid = Some c"
proof (induction ls arbitrary: s)
  case (Cons l ls)
  obtain now unow r msg opts where l: "l = (now, unow, r, msg, opts)" by (cases l)
  have "session (log_call (ws_sinks E) l s) cid = Some c"
    using channel_log_session [OF E Cons.prems(1) _ Cons.prems(2), of r now unow msg opts] Cons.prems(3) l by simp
  then show ?case
    using Cons.IH [of "log_call (ws_sinks E) l s"] prog_ok_log_call [OF E Cons.prems(1)] Cons.prems(3)
    by (simp add: registered_def log_call_fields)
qed simp

section \<open>Subscribing\<close>

lemma ctx_subscribe_effect:
  assumes "hm_get (sinks (ctx s)) i = Some k" "subs_wf (subs (ctx s))" "fst (subs_abs (subs (ctx s))) = {}" "sink_id k = i"
  shows "sinks (ctx (ctx_subscribe_channels i [ch] s)) = sinks (ctx s)"
    "channels (ctx (ctx_subscribe_channels i [ch] s)) = channels (ctx s)"
    "ctx_alive (ctx_subscribe_channels i [ch] s) = ctx_alive s"
    "snd (subs_abs (subs (ctx (ctx_subscribe_channels i [ch] s)))) =
       (\<lambda>d. if d = ch then insert i (snd (subs_abs (subs (ctx s))) d) else snd (subs_abs (subs (ctx s))) d)"
proof -
  obtain C where C: "subs_abs (subs (ctx s)) = ({}, C)" using assms(3) by (cases "subs_abs (subs (ctx s))") simp
  have "subs_abs (snd (Subscriptions.subscribe_channels k [ch] (subs (ctx s)))) = ({}, \<lambda>d. if d = ch then insert i (C d) else C d)"
    using subs_exec_abs [OF assms(2), of "Subscribe_channels k [ch]"] C assms(4) by (auto simp: fun_eq_iff)
  then show "snd (subs_abs (subs (ctx (ctx_subscribe_channels i [ch] s)))) =
       (\<lambda>d. if d = ch then insert i (snd (subs_abs (subs (ctx s))) d) else snd (subs_abs (subs (ctx s))) d)"
    using assms(1) unfolding C snd_conv by (simp add: ctx_subscribe_channels_refresh refresh_def Let_def)
qed (use assms(1) in \<open>simp_all add: ctx_subscribe_channels_refresh refresh_def Let_def\<close>)

definition subscription_pair :: "SubscriptionV1 \<Rightarrow> ChannelId \<times> u32" where
  "subscription_pair x = (sv1_channel_id x, sv1_id x)"

text \<open>What a client has asked for: the subscriptions of its session and the context's.\<close>

definition subscribed_state ::
  "prog \<Rightarrow> u32 \<Rightarrow> ConnectedClient \<Rightarrow> (ChannelId \<times> u32) set \<Rightarrow> prog \<Rightarrow> bool" where
  "subscribed_state s cid c new s' \<longleftrightarrow>
     (\<exists>m. session s' cid = Some (c \<lparr> cc_subscriptions := m \<rparr>) \<and> bimap_wf m \<and> set m = new \<union> set (cc_subscriptions c))
     \<and> (\<forall>ch. snd (subs_abs (subs (ctx s'))) ch =
          (if ch \<in> fst ` new then insert (cc_sink_id c) (snd (subs_abs (subs (ctx s))) ch) else snd (subs_abs (subs (ctx s))) ch))
     \<and> channels (ctx s') = channels (ctx s)"

lemma subscribe_loop_fresh:
  assumes E: "env_laws E"
  shows "prog_ok E s \<Longrightarrow> session s cid = Some c \<Longrightarrow> ctx_alive s \<Longrightarrow> hm_contains (cc_sink_id c) (sinks (ctx s)) \<Longrightarrow>
    \<forall>x \<in> set xs. desc_id (snd x) = sv1_channel_id (fst x) \<and> sv1_channel_id (fst x) \<notin> fst ` set (cc_subscriptions c)
      \<and> sv1_id (fst x) \<notin> snd ` set (cc_subscriptions c) \<Longrightarrow>
    distinct (map (sv1_channel_id \<circ> fst) xs) \<Longrightarrow> distinct (map (sv1_id \<circ> fst) xs) \<Longrightarrow>
    \<exists>s'. subscribe_loop E cid xs s = Some s' \<and> prog_ok E s' \<and> subscribed_state s cid c (subscription_pair ` fst ` set xs) s'"
proof (induction xs arbitrary: s c)
  case Nil
  have "\<exists>m. session s cid = Some (c \<lparr> cc_subscriptions := m \<rparr>) \<and> bimap_wf m \<and> set m = {} \<union> set (cc_subscriptions c)"
    using Nil session_okD [OF Nil(1,2)] by (intro exI [of _ "cc_subscriptions c"]) simp
  then show ?case using Nil(1) unfolding subscribed_state_def by simp
next
  case (Cons x xs)
  obtain sub ch where x: "x = (sub, ch)" by (cases x)
  note q = session_okD [OF Cons.prems(1,2)]
  obtain m where i: "insert_subscription E sub c = Some (True, c \<lparr> cc_subscriptions := m \<rparr>)" "bimap_wf m"
    "set m = insert (subscription_pair sub) (set (cc_subscriptions c))"
    using insert_subscription_ok [OF E q, of sub] Cons.prems(5) x q(1) by (auto simp: subscription_pair_def deliver_Nil)
  let ?c = "c \<lparr> cc_subscriptions := m \<rparr>"
  let ?s1 = "set_session cid ?c s"
  let ?s2 = "ctx_subscribe_channels (cc_sink_id c) [desc_id ch] ?s1"
  let ?s3 = "in_world (notify (On_subscribe cid (desc_id ch) (desc_topic ch))) ?s2"
  have "keeps c ?c" using q i(2) by (simp add: keeps_def)
  then have p1: "prog_ok E ?s1" by (rule prog_ok_set_session [OF Cons.prems(1,2)])
  then have p3: "prog_ok E ?s3" by (intro prog_ok_notify) simp
  have ctx1: "ctx ?s1 = ctx s" "ctx_alive ?s1 = ctx_alive s" by (simp_all add: set_session_def in_world_def)
  obtain k where k: "hm_get (sinks (ctx ?s1)) (cc_sink_id c) = Some k" using Cons.prems(4) by (auto simp: hm_contains_iff ctx1)
  have links: "links_ok (ws_sinks E) ?s1" using p1 by (simp add: prog_ok_def ctx_wf_def)
  have "subs_wf (subs (ctx ?s1))" "fst (subs_abs (subs (ctx ?s1))) = {}" "sink_id k = cc_sink_id c"
    using links k hm_get_sinks by (auto simp: links_ok_def ws_sinks_def)
  note eff = ctx_subscribe_effect [OF k this, of "desc_id ch"]
  have ctx3: "ctx ?s3 = ctx ?s2" "ctx_alive ?s3 = ctx_alive ?s2" "session ?s3 cid = Some ?c"
    by (simp_all add: in_world_def session_def) (simp add: set_session_def in_world_def hm_get_insert)
  have id: "desc_id ch = sv1_channel_id sub" using Cons.prems(5) x by simp
  have fresh: "\<forall>y \<in> set xs. desc_id (snd y) = sv1_channel_id (fst y)
      \<and> sv1_channel_id (fst y) \<notin> fst ` set (cc_subscriptions ?c) \<and> sv1_id (fst y) \<notin> snd ` set (cc_subscriptions ?c)"
  proof
    fix y
    assume y: "y \<in> set xs"
    then have "sv1_channel_id (fst y) \<noteq> sv1_channel_id sub" "sv1_id (fst y) \<noteq> sv1_id sub"
      using Cons.prems(6,7) x by (auto simp: image_iff)
    then show "desc_id (snd y) = sv1_channel_id (fst y)
      \<and> sv1_channel_id (fst y) \<notin> fst ` set (cc_subscriptions ?c) \<and> sv1_id (fst y) \<notin> snd ` set (cc_subscriptions ?c)"
      using Cons.prems(5) y i(3) by (simp add: subscription_pair_def)
  qed
  have "\<exists>s'. subscribe_loop E cid xs ?s3 = Some s' \<and> prog_ok E s' \<and> subscribed_state ?s3 cid ?c (subscription_pair ` fst ` set xs) s'"
    using Cons.prems(3-7) eff ctx1 fresh by (intro Cons.IH [OF p3 ctx3(3)]) (simp_all add: ctx3)
  then obtain s' where s': "subscribe_loop E cid xs ?s3 = Some s'" "prog_ok E s'"
    "subscribed_state ?s3 cid ?c (subscription_pair ` fst ` set xs) s'" by blast
  have "subscribed_state s cid c (subscription_pair ` fst ` set (x # xs)) s'"
    using s'(3) i(3) eff ctx1 x id unfolding subscribed_state_def ctx3
    by (auto simp: subscription_pair_def image_iff)
  moreover have "subscribe_loop E cid (x # xs) s = Some s'"
    using s'(1) Cons.prems(2,3) x i(1) ctx1 by (simp add: Let_def)
  ultimately show ?case using s'(2) by blast
qed

lemma on_subscribe_fresh:
  assumes E: "env_laws E" and ok: "prog_ok E s" and c: "session s cid = Some c"
    and alive: "ctx_alive s" "hm_contains (cc_sink_id c) (sinks (ctx s))"
    and new: "\<forall>x \<in> set xs. hm_contains (sv1_channel_id x) (cc_channels c)
      \<and> sv1_channel_id x \<notin> fst ` set (cc_subscriptions c) \<and> sv1_id x \<notin> snd ` set (cc_subscriptions c)"
    and dist: "distinct (map sv1_channel_id xs)" "distinct (map sv1_id xs)"
  shows "\<exists>s'. on_subscribe E cid xs s = Some s' \<and> prog_ok E s' \<and> subscribed_state s cid c (subscription_pair ` set xs) s'"
proof -
  note q = session_okD [OF ok c]
  have fl: "flume_laws (env_flume E)" using E by (simp add: env_laws_def)
  obtain ys chans msgs where p: "prune_subscriptions E 0 xs [] c = Some (ys, chans, deliver msgs c)"
    "mset ys = filter_mset (known_subscription c) (mset xs)"
    "mset msgs = image_mset (unknown_channel_error E) (filter_mset (\<lambda>x. \<not> known_subscription c x) (mset xs))"
    "list_all2 (\<lambda>x ch. hm_get (cc_channels c) (sv1_channel_id x) = Some ch) ys chans"
    using prune_subscriptions_ok [OF fl q(1), of 0 xs "[]"] by auto
  have known: "\<forall>x \<in> set xs. known_subscription c x" using new by (simp add: known_subscription_def)
  then have f: "filter (\<lambda>x. \<not> known_subscription c x) xs = []" "filter (known_subscription c) xs = xs"
    by (simp_all add: filter_empty_conv)
  then have "msgs = []" using p(3) by (simp flip: mset_filter)
  then have d: "deliver msgs c = c" using q(1) by (simp add: deliver_Nil)
  have ys: "mset ys = mset xs" using p(2) f(2) by (simp flip: mset_filter)
  have keyed: "channels_keyed (cc_channels c)"
    using world_okD(1) [OF prog_okD(1) [OF ok], of cid c] c by (simp add: session_def session_ok_def)
  let ?zs = "zip ys chans"
  have len: "length ys = length chans" using p(4) by (rule list_all2_lengthD)
  then have fst: "map fst ?zs = ys" "fst ` set ?zs = set xs"
    using mset_eq_setD [OF ys] by (simp_all flip: set_map)
  have "distinct (map sv1_channel_id ys)" "distinct (map sv1_id ys)"
    using dist mset_eq_imp_distinct_iff [of "map sv1_channel_id ys" "map sv1_channel_id xs"]
      mset_eq_imp_distinct_iff [of "map sv1_id ys" "map sv1_id xs"] ys by simp_all
  then have dz: "distinct (map (sv1_channel_id \<circ> fst) ?zs)" "distinct (map (sv1_id \<circ> fst) ?zs)"
    by (simp_all only: map_map [symmetric] fst(1))
  have "\<forall>z \<in> set ?zs. desc_id (snd z) = sv1_channel_id (fst z) \<and> sv1_channel_id (fst z) \<notin> fst ` set (cc_subscriptions c)
      \<and> sv1_id (fst z) \<notin> snd ` set (cc_subscriptions c)"
  proof
    fix z
    assume z: "z \<in> set ?zs"
    then have "hm_get (cc_channels c) (sv1_channel_id (fst z)) = Some (snd z)"
      using p(4) by (auto simp: list_all2_iff)
    then have "desc_id (snd z) = sv1_channel_id (fst z)" using keyed by (simp add: channels_keyed_def)
    moreover have "fst z \<in> set xs" using z fst(2) by blast
    ultimately show "desc_id (snd z) = sv1_channel_id (fst z) \<and> sv1_channel_id (fst z) \<notin> fst ` set (cc_subscriptions c)
      \<and> sv1_id (fst z) \<notin> snd ` set (cc_subscriptions c)" using new by blast
  qed
  from subscribe_loop_fresh [OF E ok c alive this dz] show ?thesis
    using p(1) c d fst(2) hm_insert_same [of "ww_sessions (world s)" cid c]
    by (simp add: on_subscribe_def set_session_def in_world_def session_def)
qed

section \<open>Reconnecting with a token\<close>

lemma server_info_token:
  "hm_get (si_metadata (server_info lib s)) ADVERTISEMENT_TOKEN_METADATA_KEY = Some (advertisement_token s)"
  by (simp add: server_info_def Let_def with_playback_time_range_def hm_get_insert split: option.split)

definition fresh_session :: "prog \<Rightarrow> bool \<Rightarrow> bool \<Rightarrow> ConnectedClient" where
  "fresh_session s a b = (connected_client_new (ww_next_client_id (world s)) (ww_next_sink_id (world s))
     (unat (sv_message_backlog_size (server_of s)))) \<lparr> cc_suppress := a, cc_token_push := b \<rparr>"

lemma fresh_session_fields [simp]:
  "cc_sink_id (fresh_session s a b) = ww_next_sink_id (world s)" "cc_suppress (fresh_session s a b) = a"
  "cc_channels (fresh_session s a b) = []" "cc_control_plane (fresh_session s a b) = []"
  "cc_subscriptions (fresh_session s a b) = []" "cc_data_plane (fresh_session s a b) = []"
  "cc_backlog (fresh_session s a b) = unat (sv_message_backlog_size (server_of s))"
  by (simp_all add: fresh_session_def connected_client_new_def)

text \<open>The state in which a new client is registered.\<close>

definition with_session :: "prog \<Rightarrow> bool \<Rightarrow> bool \<Rightarrow> prog" where
  "with_session s a b = set_session (ww_next_client_id (world s)) (fresh_session s a b)
     (in_world (\<lambda>w. w \<lparr> ww_next_client_id := ww_next_client_id w + 1, ww_next_sink_id := ww_next_sink_id w + 1 \<rparr>) s)"

lemma accept_client_eq:
  "accept_client E lib offered True s = (Some (ww_next_client_id (world s)),
     register_client_and_advertise E (ww_next_client_id (world s))
       (with_session s (offered = Some (advertisement_token s)) (offered \<noteq> None)))"
  by (cases "offered = None"; cases "offered = Some (advertisement_token s)")
    (auto simp: accept_client_def server_info_token Let_def with_session_def fresh_session_def server_of_def
        suppress_initial_advertisement_def enable_advertisement_token_push_def connected_client_new_def)

lemma with_session_ok:
  assumes "prog_ok E s" "unat (ww_next_client_id (world s)) + 1 < 2 ^ 32" "unat (ww_next_sink_id (world s)) + 1 < 2 ^ 64"
  shows "prog_ok E (with_session s a b)"
  using world_ok_new_session [OF prog_okD(1) [OF assms(1)] assms(2,3) refl, of b a] prog_okD(2) [OF assms(1)]
  by (simp add: prog_ok_def with_session_def set_session_def in_world_def fresh_session_def server_of_def)

lemma with_session_fields [simp]:
  "ctx (with_session s a b) = ctx s" "heap (with_session s a b) = heap s" "ctx_alive (with_session s a b) = ctx_alive s"
  "server_of (with_session s a b) = server_of s"
  "session (with_session s a b) (ww_next_client_id (world s)) = Some (fresh_session s a b)"
  by (simp_all add: with_session_def set_session_def in_world_def server_of_def session_def hm_get_insert)

text \<open>What registration does to a client whose catalogue is current.\<close>

lemma register_current:
  assumes E: "env_laws E" and ok: "prog_ok E s" and c: "session s cid = Some c" "cc_suppress c"
    and reg: "ctx_alive s" "\<not> frozen (sv_clients (server_of s))" "cid \<notin> set (inner (sv_clients (server_of s)))"
      "\<not> hm_contains (cc_sink_id c) (sinks (ctx s))"
  shows "\<exists>s'. register_client_and_advertise E cid s = s' \<and> prog_ok E s'
    \<and> session s' cid = Some (if channels (ctx s) = [] then c else c \<lparr> cc_suppress := False,
         cc_channels := record_channels (\<lambda>_. True)
           (filtered_channels E (map (\<lambda>r. descriptor (deref s r)) (hm_values (channels (ctx s))))) (cc_channels c) \<rparr>)
    \<and> ctx_alive s' \<and> channels (ctx s') = channels (ctx s) \<and> hm_contains (cc_sink_id c) (sinks (ctx s'))"
proof -
  let ?v = "sv_clients (server_of s) \<lparr> inner := inner (sv_clients (server_of s)) @ [cid] \<rparr>"
  let ?s2 = "in_world (notify On_client_connect) (in_world (update_server (\<lambda>sv. sv \<lparr> sv_clients := ?v \<rparr>)) s)"
  let ?k = "Dyn_sink (cc_sink_id c)"
  let ?s3 = "snd (ctx_add_sink (ws_sinks E) ?k ?s2)"
  have r: "register_client_and_advertise E cid s = ?s3"
    using c reg by (simp add: register_client_and_advertise_def cowvec_push_def Let_def
        is_initial_advertisement_suppressed_def) (simp add: in_world_def)
  have f: "ctx ?s2 = ctx s" "heap ?s2 = heap s" "ctx_alive ?s2 = ctx_alive s"
    "ww_sessions (world ?s2) = ww_sessions (world s)" by (simp_all add: in_world_def)
  then have d: "deref ?s2 = deref s" by (simp add: deref_def fun_eq_iff)
  have of_sink: "client_of_sink (cc_sink_id c) (world ?s2) = Some cid"
    using client_of_sink_eq [OF prog_okD(1) [OF ok]] c(1) by (simp add: client_of_sink_def f session_def)
  have s3: "?s3 = (if channels (ctx s) = [] then ?s2 \<lparr> ctx := ctx s \<lparr> sinks := hm_insert (cc_sink_id c) ?k (sinks (ctx s)) \<rparr> \<rparr>
      else ?s2 \<lparr> ctx := ctx s \<lparr> sinks := hm_insert (cc_sink_id c) ?k (sinks (ctx s)) \<rparr>,
        world := update_session cid (client_add_channels E (live_service_ids (world ?s2))
          (map (\<lambda>r. descriptor (deref s r)) (hm_values (channels (ctx s))))) (world ?s2) \<rparr>)"
    using reg(4) of_sink
    by (simp add: ctx_add_sink_def f d Let_def ws_sinks_def on_sink_def comp_def hm_values_def)
  have "session ?s3 cid = Some (if channels (ctx s) = [] then c else c \<lparr> cc_suppress := False,
         cc_channels := record_channels (\<lambda>_. True)
           (filtered_channels E (map (\<lambda>r. descriptor (deref s r)) (hm_values (channels (ctx s))))) (cc_channels c) \<rparr>)"
    using c unfolding s3 by (simp add: session_def update_session_get f add_channels_suppressed)
  moreover have "prog_ok E ?s3" using prog_ok_register [OF E ok reg(3)] r by simp
  ultimately show ?thesis using r reg(1) unfolding s3 by (auto simp: f)
qed

text \<open>The descriptors of the registered channels.\<close>

lemma registered_descriptors:
  assumes "prog_ok E s"
  shows "distinct (map desc_id (filtered_channels E (map (\<lambda>r. descriptor (deref s r)) (hm_values (channels (ctx s))))))"
    "find (\<lambda>ch. desc_id ch = r) (filtered_channels E (map (\<lambda>r. descriptor (deref s r)) (hm_values (channels (ctx s))))) =
       (if registered s r \<and> (case env_filter E of None \<Rightarrow> True | Some f \<Rightarrow> f (descriptor (deref s r)))
        then Some (descriptor (deref s r)) else None)"
proof -
  let ?rs = "hm_values (channels (ctx s))" and ?d = "\<lambda>r. descriptor (deref s r)"
  let ?P = "\<lambda>ch. case env_filter E of None \<Rightarrow> True | Some f \<Rightarrow> f ch"
  note wf = prog_okD(2) [OF assms]
  have ch: "chans_ok s" "heap_ok s" using wf by (simp_all add: ctx_wf_def)
  have id: "desc_id (?d r) = r" if "r \<in> set ?rs" for r
  proof -
    have "registered s r" using that registered_values [OF ch(1)] by simp
    then have "hm_contains r (heap s)" using registered_heap ch(1) by blast
    then show ?thesis using ch(2) by (simp add: heap_ok_def raw_channel_id_def)
  qed
  have "map desc_id (map ?d ?rs) = ?rs" using id by (simp add: map_idI)
  moreover have "distinct ?rs"
  proof -
    have m: "map snd (channels (ctx s)) = map fst (channels (ctx s))"
      using ch(1) hm_wf_in_iff [of "channels (ctx s)"] by (auto simp: chans_ok_def)
    have "distinct (map fst (channels (ctx s)))" using ch(1) by (simp add: chans_ok_def hm_wf_def)
    then show ?thesis unfolding hm_values_def m .
  qed
  ultimately have dist: "distinct (map desc_id (map ?d ?rs))" by simp
  then show "distinct (map desc_id (filtered_channels E (map ?d ?rs)))"
    unfolding filtered_channels_def by (rule distinct_map_filter)
  show "find (\<lambda>ch. desc_id ch = r) (filtered_channels E (map ?d ?rs)) =
      (if registered s r \<and> ?P (?d r) then Some (?d r) else None)"
  proof (cases "find (\<lambda>ch. desc_id ch = r) (filtered_channels E (map ?d ?rs))")
    case None
    have "\<not> (registered s r \<and> ?P (?d r))"
    proof
      assume a: "registered s r \<and> ?P (?d r)"
      then have "r \<in> set ?rs" using registered_values [OF ch(1)] by simp
      then have "?d r \<in> set (filtered_channels E (map ?d ?rs))" "desc_id (?d r) = r"
        using a id by (auto simp: filtered_channels_def)
      then show False using None by (auto simp: find_None_iff)
    qed
    then show ?thesis using None by simp
  next
    case (Some x)
    then have "x \<in> set (filtered_channels E (map ?d ?rs))" "desc_id x = r"
      by (auto simp: find_Some_iff in_set_conv_nth)
    then obtain r' where r': "r' \<in> set ?rs" "x = ?d r'" "?P x" by (auto simp: filtered_channels_def)
    then have "r' = r" using id \<open>desc_id x = r\<close> by simp
    then show ?thesis using Some r' registered_values [OF ch(1)] by auto
  qed
qed

text \<open>A client that offers the current token.\<close>

lemma accept_current:
  assumes E: "env_laws E" and ok: "prog_ok E s" and alive: "ctx_alive s" "\<not> frozen (sv_clients (server_of s))"
    and room: "unat (ww_next_client_id (world s)) + 1 < 2 ^ 32" "unat (ww_next_sink_id (world s)) + 1 < 2 ^ 64"
    and fresh: "\<not> hm_contains (ww_next_sink_id (world s)) (sinks (ctx s))"
  shows "\<exists>s' c. accept_client E lib (Some (advertisement_token s)) True s = (Some (ww_next_client_id (world s)), s')
    \<and> session s' (ww_next_client_id (world s)) = Some c
    \<and> c = (fresh_session s True True) \<lparr> cc_suppress := (channels (ctx s) = []), cc_channels := cc_channels c \<rparr>
    \<and> (\<forall>r. hm_get (cc_channels c) r =
        (if registered s r \<and> (case env_filter E of None \<Rightarrow> True | Some f \<Rightarrow> f (descriptor (deref s r)))
         then Some (descriptor (deref s r)) else None))
    \<and> ctx_alive s' \<and> channels (ctx s') = channels (ctx s) \<and> hm_contains (ww_next_sink_id (world s)) (sinks (ctx s'))"
proof -
  let ?cid = "ww_next_client_id (world s)" and ?s = "with_session s True True" and ?c = "fresh_session s True True"
  let ?chs = "filtered_channels E (map (\<lambda>r. descriptor (deref s r)) (hm_values (channels (ctx s))))"
  let ?c' = "if channels (ctx s) = [] then ?c else ?c \<lparr> cc_suppress := False, cc_channels := record_channels (\<lambda>_. True) ?chs [] \<rparr>"
  have "?cid \<notin> set (inner (sv_clients (server_of s)))"
    using keys_fresh [OF prog_okD(1) [OF ok]] prog_okD(1) [OF ok] by (auto simp: server_of_def world_ok_def hm_contains_def)
  moreover have "deref ?s = deref s" by (simp add: deref_def fun_eq_iff)
  ultimately obtain s' where s': "register_client_and_advertise E ?cid ?s = s'" "session s' ?cid = Some ?c'" "ctx_alive s'"
    "channels (ctx s') = channels (ctx s)" "hm_contains (ww_next_sink_id (world s)) (sinks (ctx s'))"
    using register_current [OF E with_session_ok [OF ok room, of True True], of ?cid ?c] alive fresh by auto
  have "hm_get (cc_channels ?c') r =
        (if registered s r \<and> (case env_filter E of None \<Rightarrow> True | Some f \<Rightarrow> f (descriptor (deref s r)))
         then Some (descriptor (deref s r)) else None)" for r
    using record_channels_get [OF registered_descriptors(1) [OF ok], of "\<lambda>_. True" "[]" r] registered_descriptors(2) [OF ok, of r]
    by (auto simp: registered_def)
  moreover have "accept_client E lib (Some (advertisement_token s)) True s = (Some ?cid, s')"
    by (simp add: accept_client_eq s'(1))
  moreover have "?c' = ?c \<lparr> cc_suppress := (channels (ctx s) = []), cc_channels := cc_channels ?c' \<rparr>"
    by (simp add: fresh_session_def connected_client_new_def)
  ultimately show ?thesis using s'(2-5) by blast
qed

section \<open>Properties\<close>

text \<open>C8: a service call of a client is handed to the handler exactly when the server offers
  services, knows the service, accepts the encoding and fewer than 32 calls of this client are
  outstanding; then nothing is sent, and the responder carries the call's identifiers. Otherwise
  exactly one failure with these identifiers is queued. An outstanding call is answered by
  exactly one message to its client, whether the handler answers or drops the responder, and
  frees its place.\<close>

theorem service_call_answered:
  assumes "env_laws E" "server_reachable E s" "session s cid = Some c"
  shows "(if admissible s cid req
      then (\<exists>q service c'. ww_service_calls (world (on_service_call E cid req s)) =
              ww_service_calls (world s) @ [(q, call_responder cid req service)]
            \<and> get_service (scr_service_id req) s = Some service \<and> rq_payload q = scr_payload req
            \<and> session (on_service_call E cid req s) cid = Some c' \<and> cc_control_plane c' = cc_control_plane c)
      else ww_service_calls (world (on_service_call E cid req s)) = ww_service_calls (world s)
        \<and> (\<exists>m. session (on_service_call E cid req s) cid = Some (deliver [ws E (SServiceCallFailure
              \<lparr> scf_service_id = scr_service_id req, scf_call_id = scr_call_id req, scf_message = m \<rparr>)] c)))
    \<and> (i < length (ww_service_calls (world s)) \<and> srs_client (snd (ww_service_calls (world s) ! i)) = cid \<longrightarrow>
        hm_get (ww_sessions (service_respond E i result (world s))) cid =
          Some (release_service_guard (deliver [ws E (service_reply (snd (ww_service_calls (world s) ! i)) result)] c))
        \<and> service_calls_of (world s) cid = Suc (service_calls_of (service_respond E i result (world s)) cid))"
proof -
  note ok = server_reachable_ok [OF assms(1,2)]
  note q = session_okD [OF ok assms(3)]
  have fl: "flume_laws (env_flume E)" using assms(1) by (simp add: env_laws_def)
  have "hm_get (ww_sessions (service_respond E i result (world s))) cid =
        Some (release_service_guard (deliver [ws E (service_reply (snd (ww_service_calls (world s) ! i)) result)] c))
      \<and> service_calls_of (world s) cid = Suc (service_calls_of (service_respond E i result (world s)) cid)"
    if i: "i < length (ww_service_calls (world s))" "srs_client (snd (ww_service_calls (world s) ! i)) = cid"
  proof -
    obtain c0 where c0: "hm_get (ww_sessions (world s)) cid = Some c0"
      and eq: "service_respond E i result (world s) = world s \<lparr> ww_sessions := hm_insert cid
        (release_service_guard (snd (send_control_msg E (service_reply (snd (ww_service_calls (world s) ! i)) result) c0)))
          (ww_sessions (world s)),
        ww_service_calls := take i (ww_service_calls (world s)) @ drop (Suc i) (ww_service_calls (world s)) \<rparr>"
      using service_respond_eq [OF prog_okD(1) [OF ok] i(1), where E = E and result = result] i(2) by auto
    have "c0 = c" using c0 assms(3) by (simp add: session_def)
    then show ?thesis
      using i length_filter_without [OF i(1), of "\<lambda>x. srs_client (snd x) = cid"] send_control_msg_deliver [OF fl q(1)]
      unfolding eq by (simp add: hm_get_insert service_calls_of_def)
  qed
  moreover have "\<exists>q service c'. ww_service_calls (world (on_service_call E cid req s)) =
              ww_service_calls (world s) @ [(q, call_responder cid req service)]
            \<and> get_service (scr_service_id req) s = Some service \<and> rq_payload q = scr_payload req
            \<and> session (on_service_call E cid req s) cid = Some c' \<and> cc_control_plane c' = cc_control_plane c"
    if "admissible s cid req"
    using on_service_call_admitted [OF that assms(3) ok]
    by (auto simp: in_world_def set_session_def session_def hm_get_insert)
  moreover have "ww_service_calls (world (on_service_call E cid req s)) = ww_service_calls (world s)
        \<and> (\<exists>m. session (on_service_call E cid req s) cid = Some (deliver [ws E (SServiceCallFailure
              \<lparr> scf_service_id = scr_service_id req, scf_call_id = scr_call_id req, scf_message = m \<rparr>)] c))"
    if "\<not> admissible s cid req"
    using on_service_call_refused [OF that assms(3) ok] send_failure_deliver [OF assms(1) q(1)] assms(3)
    by (auto simp: session_to_client)
  ultimately show ?thesis by presburger
qed

lemma accept_fields:
  assumes "server_new generated opts = Some sv" "sv_message_backlog_size sv \<noteq> 0"
  shows "\<exists>c. session (snd (accept_client E lib None True (program_new (world_new sv)))) 1 = Some c
    \<and> ww_service_calls (world (snd (accept_client E lib None True (program_new (world_new sv))))) = []
    \<and> sv_services (server_of (snd (accept_client E lib None True (program_new (world_new sv))))) = sv_services sv"
  using server_new_ok [OF assms]
  by (simp add: accept_client_def Let_def register_client_and_advertise_def cowvec_push_def cowvec_new_def server_of_def
      program_new_def world_new_def session_to_client ctx_add_sink_def context_inner_default_def hm_values_def ws_sinks_def
      hm_contains_def is_initial_advertisement_suppressed_def connected_client_new_def)
    (auto simp: session_def set_session_def in_world_def hm_get_insert to_client_def)

lemma demo_connected:
  "\<exists>s c. server_reachable demo_env s \<and> session s 1 = Some c \<and> ww_service_calls (world s) = []
     \<and> sv_services (server_of s) = service_map_default"
proof -
  obtain sv where sv: "server_new ''g'' demo_options = Some sv" "sv_message_backlog_size sv \<noteq> 0"
    using demo_options_server by blast
  let ?s = "program_new (world_new sv)"
  have "server_allowed (Connect ''lib'' None True) ?s" by (simp add: program_new_def world_new_def)
  then have "server_reachable demo_env (snd (accept_client demo_env ''lib'' None True ?s))"
    by (rule server_reach_step [OF server_reach_new [OF sv]]) simp
  moreover have "sv_services sv = service_map_default"
    using sv(1) by (auto simp: server_new_def demo_options_def hm_values_def service_map_from_iter_def)
  ultimately show ?thesis using accept_fields [OF sv, of demo_env "''lib''"] by metis
qed

theorem service_call_answered_witness:
  "\<exists>s c m. server_reachable demo_env s \<and> session s 1 = Some c
    \<and> session (on_service_call demo_env 1 \<lparr> scr_service_id = 5, scr_call_id = 8, scr_encoding = ''json'', scr_payload = [] \<rparr> s) 1
      = Some (deliver [ws demo_env (SServiceCallFailure \<lparr> scf_service_id = 5, scf_call_id = 8, scf_message = m \<rparr>)] c)"
proof -
  let ?req = "\<lparr> scr_service_id = 5, scr_call_id = 8, scr_encoding = ''json'', scr_payload = [] \<rparr>"
  obtain s c where s: "server_reachable demo_env s" "session s 1 = Some c" "sv_services (server_of s) = service_map_default"
    using demo_connected by blast
  have "\<not> admissible s 1 ?req"
    using s(3) by (simp add: admissible_def get_service_def service_map_get_by_id_def service_map_default_def)
  then show ?thesis using service_call_answered [OF demo_env_laws s(1,2), of ?req] s(1,2) by auto
qed


text \<open>C35: adding services is all or nothing. It fails without the capability, when two of the new
  services share a name or when a name or an identifier is already registered, each time naming a
  service at fault, and when a service declares no request encoding and the server supports none;
  a failure leaves the server and its clients untouched. Otherwise exactly the new services are
  added to the catalogue and the call never panics.\<close>

theorem add_services_atomic:
  assumes "env_laws E" "server_reachable E s" "distinct (map svc_id ss)"
  shows "if has_capability (server_of s) Services_cap \<and> distinct (map svc_name ss)
        \<and> (\<forall>x \<in> set ss. (service_request_encoding x \<noteq> None \<or> sv_supported_encodings (server_of s) \<noteq> [])
            \<and> \<not> service_map_contains_name (svc_name x) (sv_services (server_of s))
            \<and> \<not> service_map_contains_id (svc_id x) (sv_services (server_of s)))
    then \<exists>s'. add_services E ss s = Some (Inr (), s')
      \<and> (\<forall>i x. get_service i s' = Some x \<longleftrightarrow> (x \<in> set ss \<and> svc_id x = i) \<or> get_service i s = Some x)
    else \<exists>e. add_services E ss s = Some (Inl e, s) \<and> (e = ServicesNotSupported
      \<or> (\<exists>x \<in> set ss. e = DuplicateService (svc_name x) \<or> e = MissingRequestEncoding (svc_name x)))"
  using add_services_done [OF _ server_reachable_ok [OF assms(1,2)] assms(3)] add_services_refused [of s ss E]
  by (simp add: addable_def)

theorem add_services_atomic_witness:
  "\<exists>s. server_reachable demo_env s \<and>
     (\<exists>e. add_services demo_env [demo_service 1 ''/a'', demo_service 2 ''/a''] s = Some (Inl e, s))"
proof -
  obtain s where s: "server_reachable demo_env s" using demo_connected by blast
  then show ?thesis
    using add_services_atomic [OF demo_env_laws s, of "[demo_service 1 ''/a'', demo_service 2 ''/a'']"]
    by (auto simp: demo_service_def)
qed

section \<open>A concrete session\<close>

text \<open>A server with one channel, to which a client connects that holds the current catalogue.\<close>

definition demo_start :: prog where
  "demo_start = program_new (world_new (the (server_new ''g'' demo_options)))"

definition demo_with_channel :: prog where
  "demo_with_channel = snd (build_raw (ws_sinks demo_env) demo_builder demo_start)"

lemma demo_start_reachable: "server_reachable demo_env demo_start"
proof -
  obtain sv where "server_new ''g'' demo_options = Some sv" "sv_message_backlog_size sv \<noteq> 0"
    using demo_options_server by blast
  then show ?thesis unfolding demo_start_def using server_reach_new by fastforce
qed

lemma demo_with_channel_eval:
  "server_reachable demo_env demo_with_channel" "ctx_alive demo_with_channel" "registered demo_with_channel 1"
  "sinks (ctx demo_with_channel) = []" "world demo_with_channel = world demo_start"
proof -
  have "server_allowed (Build_channel demo_builder) demo_start" by (simp add: demo_start_def program_new_def)
  then show "server_reachable demo_env demo_with_channel"
    unfolding demo_with_channel_def by (rule server_reach_step [OF demo_start_reachable]) simp
qed (simp_all add: demo_with_channel_def demo_start_def build_raw_def demo_builder_def channel_builder_new_def
    builder_message_encoding_def alloc_channel_def ctx_add_channel_def Let_def program_new_def context_inner_default_def
    deref_def raw_channel_topic_def hm_values_def registered_def modify_channel_def hm_contains_def)

lemma demo_world_start:
  "ww_next_client_id (world demo_start) = 1" "ww_next_sink_id (world demo_start) = 1"
  "\<not> frozen (sv_clients (server_of demo_start))" "ww_server_alive (world demo_start)"
proof -
  obtain sv where sv: "server_new ''g'' demo_options = Some sv" "sv_message_backlog_size sv \<noteq> 0"
    using demo_options_server by blast
  then show "\<not> frozen (sv_clients (server_of demo_start))"
    using server_new_ok [OF sv] by (simp add: demo_start_def program_new_def world_new_def server_of_def cowvec_new_def)
qed (simp_all add: demo_start_def program_new_def world_new_def)

lemma demo_connected_current:
  "\<exists>s c. server_reachable demo_env s \<and> ctx_alive s \<and> session s 1 = Some c \<and> hm_contains (cc_sink_id c) (sinks (ctx s))
     \<and> cc_subscriptions c = [] \<and> cc_data_plane c = [] \<and> hm_contains 1 (cc_channels c) \<and> registered s 1"
proof -
  let ?s = "demo_with_channel"
  obtain s c where s: "accept_client demo_env ''lib'' (Some (advertisement_token ?s)) True ?s = (Some 1, s)"
    "session s 1 = Some c" "c = (fresh_session ?s True True) \<lparr> cc_suppress := (channels (ctx ?s) = []), cc_channels := cc_channels c \<rparr>"
    "hm_contains 1 (cc_channels c)" "ctx_alive s" "channels (ctx s) = channels (ctx ?s)" "hm_contains 1 (sinks (ctx s))"
    using accept_current [OF demo_env_laws server_reachable_ok [OF demo_env_laws demo_with_channel_eval(1)], of "''lib''"]
      demo_with_channel_eval demo_world_start by (auto simp: server_of_def hm_contains_def demo_env_def)
  have "server_allowed (Connect ''lib'' (Some (advertisement_token ?s)) True) ?s"
    by (simp add: demo_with_channel_eval demo_world_start)
  then have "server_reachable demo_env s"
    by (rule server_reach_step [OF demo_with_channel_eval(1)]) (simp add: s(1))
  moreover have "cc_sink_id c = 1" "cc_subscriptions c = []" "cc_data_plane c = []"
    by (subst s(3), simp add: demo_with_channel_eval demo_world_start)+
  ultimately show ?thesis using s demo_with_channel_eval(3) by (auto simp: registered_def)
qed

end
