(* ===== verification/Poller.thy ===== *)
theory Poller
  imports Server_Properties
begin

text \<open>
  The poller of a session (\<open>websocket/connected_client/poller.rs\<close>): a task that sends the
  queued messages to the websocket, hands received messages to the session and waits for the
  shutdown signal. \<open>tokio::select!\<close> chooses between the branches that are ready, so the loop is
  a step relation; the rest of the program acts on the queues and on the signal between its
  steps.
\<close>

section \<open>State\<close>

text \<open>What the socket delivers: a message (a close frame included) or an error.\<close>

datatype ws_event = Received ws_message | Close_frame | Receive_error

text \<open>What is written to the socket.\<close>

datatype ws_output = Frame ws_message | Close_out

datatype poll_phase = Running | Exited ShutdownReason

record poller =
  pl_phase :: poll_phase
  pl_incoming :: "ws_event list"
  pl_open :: bool
  pl_sent :: "ws_output list"

definition poller_new :: "ws_event list \<Rightarrow> bool \<Rightarrow> poller" where
  "poller_new evs op = \<lparr> pl_phase = Running, pl_incoming = evs, pl_open = op, pl_sent = [] \<rparr>"

section \<open>The loops\<close>

text \<open>The messages that follow the end of the loop.\<close>

definition backlog_full_status :: Status where
  "backlog_full_status = status_new LevelError (''Disconnected because the message backlog on the server is full. ''
     @ ''The backlog size is configurable in the server setup.'')"

fun final_messages :: "ws_env \<Rightarrow> ShutdownReason \<Rightarrow> ws_output list" where
  "final_messages E ClientDisconnected = []"
| "final_messages E ServerStopped = [Close_out]"
| "final_messages E ControlPlaneQueueFull = [Frame (ws E (SStatus backlog_full_status)), Close_out]"

text \<open>An iteration of the receive loop. \<open>pl_open\<close> says that the stream has not ended: an empty
  input then means waiting, and otherwise the end of the stream.\<close>

fun receive_step :: "ws_env \<Rightarrow> u32 \<Rightarrow> poller \<times> prog \<Rightarrow> (poller \<times> prog) may_panic" where
  "receive_step E cid (p, s) =
     (case pl_incoming p of
        [] \<Rightarrow> Some (if pl_open p then p else p \<lparr> pl_phase := Exited ClientDisconnected \<rparr>, s)
      | Close_frame # evs \<Rightarrow> Some (p \<lparr> pl_incoming := evs, pl_phase := Exited ClientDisconnected \<rparr>, s)
      | Receive_error # evs \<Rightarrow> Some (p \<lparr> pl_incoming := evs \<rparr>, s)
      | Received m # evs \<Rightarrow> do {
          s' \<leftarrow> handle_message E cid m s;
          Some (p \<lparr> pl_incoming := evs \<rparr>, s')
        })"

text \<open>An iteration of the send loop takes from the control plane or from the data plane. A send
  error is logged.\<close>

fun send_control_step :: "u32 \<Rightarrow> poller \<times> prog \<Rightarrow> (poller \<times> prog) option" where
  "send_control_step cid (p, s) =
     (case session s cid of
        None \<Rightarrow> None
      | Some c \<Rightarrow>
          (case cc_control_plane c of
             [] \<Rightarrow> None
           | m # _ \<Rightarrow> Some (p \<lparr> pl_sent := pl_sent p @ [Frame m] \<rparr>, to_client cid (poll 1 0) s)))"

fun send_data_step :: "u32 \<Rightarrow> poller \<times> prog \<Rightarrow> (poller \<times> prog) option" where
  "send_data_step cid (p, s) =
     (case session s cid of
        None \<Rightarrow> None
      | Some c \<Rightarrow>
          (case cc_data_plane c of
             [] \<Rightarrow> None
           | m # _ \<Rightarrow> Some (p \<lparr> pl_sent := pl_sent p @ [Frame m] \<rparr>, to_client cid (poll 0 1) s)))"

fun shutdown_step :: "u32 \<Rightarrow> poller \<times> prog \<Rightarrow> (poller \<times> prog) option" where
  "shutdown_step cid (p, s) =
     (case session s cid of
        None \<Rightarrow> None
      | Some c \<Rightarrow> (case cc_shutdown c of None \<Rightarrow> None | Some r \<Rightarrow> Some (p \<lparr> pl_phase := Exited r \<rparr>, s)))"

text \<open>The end of \<open>run\<close>: the last messages, then the client is unregistered.\<close>

fun finish :: "ws_env \<Rightarrow> u32 \<Rightarrow> poller \<times> prog \<Rightarrow> (poller \<times> prog) may_panic" where
  "finish E cid (p, s) =
     (case pl_phase p of
        Running \<Rightarrow> Some (p, s)
      | Exited r \<Rightarrow> do {
          s' \<leftarrow> unregister_client E cid s;
          Some (p \<lparr> pl_sent := pl_sent p @ final_messages E r \<rparr>, s')
        })"

section \<open>The step relation\<close>

text \<open>One step of the poller, while it runs.\<close>

inductive poll_step :: "ws_env \<Rightarrow> u32 \<Rightarrow> poller \<times> prog \<Rightarrow> poller \<times> prog \<Rightarrow> bool" for E cid where
  poll_receive: "pl_phase p = Running \<Longrightarrow> pl_incoming p \<noteq> [] \<or> \<not> pl_open p \<Longrightarrow>
    receive_step E cid (p, s) = Some q \<Longrightarrow> poll_step E cid (p, s) q"
| poll_control: "pl_phase p = Running \<Longrightarrow> send_control_step cid (p, s) = Some q \<Longrightarrow> poll_step E cid (p, s) q"
| poll_data: "pl_phase p = Running \<Longrightarrow> send_data_step cid (p, s) = Some q \<Longrightarrow> poll_step E cid (p, s) q"
| poll_shutdown: "pl_phase p = Running \<Longrightarrow> shutdown_step cid (p, s) = Some q \<Longrightarrow> poll_step E cid (p, s) q"

inductive_cases poll_stepE: "poll_step E cid (p, s) q"

section \<open>Progress\<close>

definition poll_measure :: "u32 \<Rightarrow> poller \<times> prog \<Rightarrow> nat \<times> nat \<times> nat" where
  "poll_measure cid q = (if pl_phase (fst q) = Running then 1 else 0, length (pl_incoming (fst q)),
     (case session (snd q) cid of None \<Rightarrow> 0 | Some c \<Rightarrow> length (cc_control_plane c) + length (cc_data_plane c)))"

lemma session_poll: "session s cid = Some c \<Longrightarrow> session (to_client cid (poll n m) s) cid = Some (poll n m c)"
  by (simp add: session_to_client)

lemma poll_step_decreases:
  assumes "poll_step E cid q q'"
  shows "(poll_measure cid q', poll_measure cid q) \<in> less_than <*lex*> less_than <*lex*> less_than"
  using assms
proof cases
  case (poll_receive p s)
  then show ?thesis
    by (auto simp: poll_measure_def split: list.splits ws_event.splits bind_splits if_splits)
next
  case (poll_control p s)
  then show ?thesis
    by (auto simp: poll_measure_def session_poll poll_def split: option.splits list.splits)
next
  case (poll_data p s)
  then show ?thesis
    by (auto simp: poll_measure_def session_poll poll_def split: option.splits list.splits)
next
  case (poll_shutdown p s)
  then show ?thesis by (auto simp: poll_measure_def split: option.splits)
qed

lemma poll_step_wf: "wf {(q', q). poll_step E cid q q'}"
proof (rule wf_subset)
  show "wf (inv_image (less_than <*lex*> less_than <*lex*> less_than) (poll_measure cid))"
    by (intro wf_inv_image wf_lex_prod wf_less_than)
  show "{(q', q). poll_step E cid q q'} \<subseteq> inv_image (less_than <*lex*> less_than <*lex*> less_than) (poll_measure cid)"
    using poll_step_decreases by (auto simp: inv_image_def)
qed

lemma receive_step_total:
  assumes "env_laws E" "prog_ok E s"
  shows "\<exists>q. receive_step E cid (p, s) = Some q"
proof -
  have "\<exists>q. (handle_message E cid m s \<bind> (\<lambda>s'. Some (p', s'))) = Some q" for m p'
    using handle_message_total [OF assms, of cid m] by auto
  then show ?thesis by (fastforce split: list.split ws_event.split)
qed

lemma poll_stuck:
  assumes "env_laws E" "prog_ok E s" "pl_phase p = Running" "\<not> (\<exists>q. poll_step E cid (p, s) q)" "session s cid = Some c"
  shows "pl_incoming p = [] \<and> pl_open p \<and> cc_control_plane c = [] \<and> cc_data_plane c = [] \<and> cc_shutdown c = None"
proof -
  obtain q where "receive_step E cid (p, s) = Some q" using receive_step_total [OF assms(1,2)] by blast
  then have "pl_incoming p = [] \<and> pl_open p" using assms(3,4) poll_receive by blast
  moreover have "send_control_step cid (p, s) = None" "send_data_step cid (p, s) = None" "shutdown_step cid (p, s) = None"
    using assms(3,4) poll_control poll_data poll_shutdown by (metis not_None_eq)+
  ultimately show ?thesis using assms(5) by (auto split: list.splits option.splits)
qed

section \<open>Properties\<close>

text \<open>C37: a poller that is left to itself does finitely many steps. It stops running only when the
  client is gone or the session was shut down, and while it runs it never gets stuck before all
  received messages are handled, both queues are sent and the shutdown signal, if there is one, is
  taken. A signalled shutdown can be taken at once; then the client is unregistered after the
  closing messages of its reason.\<close>

theorem poller_progress:
  assumes "env_laws E" "server_reachable E s" "session s cid = Some c" "pl_phase p = Running"
  shows "wf {(q', q). poll_step E cid q q'}
    \<and> ((\<exists>q. poll_step E cid (p, s) q)
        \<or> pl_incoming p = [] \<and> pl_open p \<and> cc_control_plane c = [] \<and> cc_data_plane c = [] \<and> cc_shutdown c = None)
    \<and> (cc_shutdown c = Some r \<longrightarrow> poll_step E cid (p, s) (p \<lparr> pl_phase := Exited r \<rparr>, s)
        \<and> (\<exists>s'. finish E cid (p \<lparr> pl_phase := Exited r \<rparr>, s) =
              Some (p \<lparr> pl_phase := Exited r, pl_sent := pl_sent p @ final_messages E r \<rparr>, s')))"
proof -
  note ok = server_reachable_ok [OF assms(1,2)]
  have "(\<exists>q. poll_step E cid (p, s) q)
      \<or> pl_incoming p = [] \<and> pl_open p \<and> cc_control_plane c = [] \<and> cc_data_plane c = [] \<and> cc_shutdown c = None"
    using poll_stuck [OF assms(1) ok assms(4) _ assms(3)] by blast
  moreover have "poll_step E cid (p, s) (p \<lparr> pl_phase := Exited r \<rparr>, s)" if "cc_shutdown c = Some r"
    using that assms(3,4) by (intro poll_shutdown) auto
  moreover obtain s' where "unregister_client E cid s = Some s'" using prog_ok_unregister [OF assms(1) ok] by blast
  ultimately show ?thesis using poll_step_wf by auto
qed

theorem poller_progress_witness:
  "\<exists>s q. server_reachable demo_env s \<and> poll_step demo_env 1 (poller_new [Received (WsBinary [9]), Close_frame] True, s) q"
proof -
  obtain s c where s: "server_reachable demo_env s" "session s 1 = Some c" using demo_connected by blast
  then show ?thesis
    using poller_progress [OF demo_env_laws s, of "poller_new [Received (WsBinary [9]), Close_frame] True"]
    by (auto simp: poller_new_def)
qed

end
