(* ===== verification/Mcap_Writer.thy ===== *)
theory Mcap_Writer
  imports Context
begin

text \<open>
  The MCAP recorder (\<open>mcap_writer/mcap_sink.rs\<close>, \<open>mcap_writer.rs\<close>): a sink that writes the
  messages of the context to a file. The \<open>mcap\<close> crate is a parameter, the operations of
  \<open>mcap::Writer\<close> that the code calls; \<open>mcap_laws\<close> says what its documentation promises of
  the calls that succeed, in terms of what a reader finds in the file. The world of the sinks
  is the heap of the recorders.
\<close>

section \<open>The writer of the mcap crate\<close>

type_synonym McapChannelId = u16

record MessageHeader =
  mh_channel_id :: McapChannelId
  mh_sequence :: u32
  mh_log_time :: u64
  mh_publish_time :: u64

record McapChannel =
  mch_schema_id :: u16
  mch_topic :: string
  mch_message_encoding :: string
  mch_metadata :: btree_metadata

record McapAttachment =
  at_log_time :: u64
  at_create_time :: u64
  at_name :: string
  at_media_type :: string
  at_data :: "u8 list"

record 'wr mcap_ops =
  add_schema :: "'wr \<Rightarrow> string \<Rightarrow> string \<Rightarrow> u8 list \<Rightarrow> (u16, string) result \<times> 'wr"
  add_channel :: "'wr \<Rightarrow> u16 \<Rightarrow> string \<Rightarrow> string \<Rightarrow> btree_metadata \<Rightarrow> (McapChannelId, string) result \<times> 'wr"
  write_to_known_channel :: "'wr \<Rightarrow> MessageHeader \<Rightarrow> u8 list \<Rightarrow> (unit, string) result \<times> 'wr"
  write_metadata_record :: "'wr \<Rightarrow> string \<Rightarrow> btree_metadata \<Rightarrow> (unit, string) result \<times> 'wr"
  attach_record :: "'wr \<Rightarrow> McapAttachment \<Rightarrow> (unit, string) result \<times> 'wr"
  finish_file :: "'wr \<Rightarrow> (unit, string) result \<times> 'wr"

text \<open>What a reader finds in the file.\<close>

record mcap_file =
  mf_schemas :: "u16 \<rightharpoonup> Schema"
  mf_channels :: "McapChannelId \<rightharpoonup> McapChannel"
  mf_messages :: "(MessageHeader \<times> u8 list) list"

definition mcap_laws :: "'wr mcap_ops \<Rightarrow> ('wr \<Rightarrow> mcap_file) \<Rightarrow> bool" where
  "mcap_laws M V \<longleftrightarrow>
     (\<forall>wr n e d i wr'. add_schema M wr n e d = (Inr i, wr') \<longrightarrow>
        mf_schemas (V wr) \<subseteq>\<^sub>m mf_schemas (V wr') \<and> mf_schemas (V wr') i = Some (schema_new n e d)
        \<and> mf_channels (V wr') = mf_channels (V wr) \<and> mf_messages (V wr') = mf_messages (V wr))
   \<and> (\<forall>wr sid t e m i wr'. add_channel M wr sid t e m = (Inr i, wr') \<longrightarrow>
        mf_channels (V wr) \<subseteq>\<^sub>m mf_channels (V wr') \<and> mf_channels (V wr') i =
          Some \<lparr> mch_schema_id = sid, mch_topic = t, mch_message_encoding = e, mch_metadata = m \<rparr>
        \<and> mf_schemas (V wr') = mf_schemas (V wr) \<and> mf_messages (V wr') = mf_messages (V wr))
   \<and> (\<forall>wr h data wr'. write_to_known_channel M wr h data = (Inr (), wr') \<longrightarrow>
        V wr' = V wr \<lparr> mf_messages := mf_messages (V wr) @ [(h, data)] \<rparr>)"

section \<open>The recorder\<close>

record 'wr WriterState =
  wst_writer :: 'wr
  wst_channel_map :: "(ChannelId, McapChannelId) hash_map"
  wst_channel_sequence :: "(McapChannelId, u32) hash_map"

definition writer_state_new :: "'wr \<Rightarrow> 'wr WriterState" where
  "writer_state_new wr = \<lparr> wst_writer = wr, wst_channel_map = [], wst_channel_sequence = [] \<rparr>"

definition next_sequence :: "McapChannelId \<Rightarrow> 'wr WriterState \<Rightarrow> u32 \<times> 'wr WriterState" where
  "next_sequence m st =
     (let n = (case hm_get (wst_channel_sequence st) m of Some n \<Rightarrow> n + 1 | None \<Rightarrow> 1) in
      (n, st \<lparr> wst_channel_sequence := hm_insert m n (wst_channel_sequence st) \<rparr>))"

text \<open>The entry of the channel in \<open>channel_map\<close>, added when it is vacant.\<close>

definition mcap_channel_of ::
  "'wr mcap_ops \<Rightarrow> RawChannel \<Rightarrow> 'wr WriterState \<Rightarrow> (McapChannelId, FoxgloveError) result \<times> 'wr WriterState" where
  "mcap_channel_of M channel st =
     (case hm_get (wst_channel_map st) (raw_channel_id channel) of
        Some m \<Rightarrow> (Inr m, st)
      | None \<Rightarrow>
          (case (case desc_schema (descriptor channel) of
                   Some schema \<Rightarrow> add_schema M (wst_writer st) (schema_name schema) (schema_encoding schema) (schema_data schema)
                 | None \<Rightarrow> (Inr 0, wst_writer st)) of
             (Inl e, wr) \<Rightarrow> (Inl (McapError e), st \<lparr> wst_writer := wr \<rparr>)
           | (Inr schema_id, wr) \<Rightarrow>
               (case add_channel M wr schema_id (desc_topic (descriptor channel))
                       (desc_message_encoding (descriptor channel)) (desc_metadata (descriptor channel)) of
                  (Inl e, wr') \<Rightarrow> (Inl (McapError e), st \<lparr> wst_writer := wr' \<rparr>)
                | (Inr m, wr') \<Rightarrow> (Inr m, st \<lparr> wst_writer := wr',
                    wst_channel_map := hm_insert (raw_channel_id channel) m (wst_channel_map st) \<rparr>))))"

definition writer_log ::
  "'wr mcap_ops \<Rightarrow> RawChannel \<Rightarrow> u8 list \<Rightarrow> Metadata \<Rightarrow> 'wr WriterState
    \<Rightarrow> (unit, FoxgloveError) result \<times> 'wr WriterState" where
  "writer_log M channel msg metadata st =
     (case mcap_channel_of M channel st of
        (Inl e, st1) \<Rightarrow> (Inl e, st1)
      | (Inr mcap_channel_id, st1) \<Rightarrow>
          let (sequence, st2) = next_sequence mcap_channel_id st1 in
          (case write_to_known_channel M (wst_writer st2)
                  \<lparr> mh_channel_id = mcap_channel_id, mh_sequence = sequence, mh_log_time = log_time metadata,
                    mh_publish_time = log_time metadata \<rparr> msg of
             (Inl e, wr) \<Rightarrow> (Inl (McapError e), st2 \<lparr> wst_writer := wr \<rparr>)
           | (Inr _, wr) \<Rightarrow> (Inr (), st2 \<lparr> wst_writer := wr \<rparr>)))"

text \<open>The heap of the recorders: the state behind the mutex of each, \<open>None\<close> once it is
  finished. The identifiers come from the static counter of \<open>SinkId::next\<close>.\<close>

record 'wr mcap_world =
  mw_inner :: "(SinkId, 'wr WriterState option) hash_map"
  mw_next_sink_id :: u64

definition recorder :: "'wr mcap_world \<Rightarrow> SinkId \<Rightarrow> 'wr WriterState option" where
  "recorder w i = (case hm_get (mw_inner w) i of Some st \<Rightarrow> st | None \<Rightarrow> None)"

definition set_recorder :: "SinkId \<Rightarrow> 'wr WriterState option \<Rightarrow> 'wr mcap_world \<Rightarrow> 'wr mcap_world" where
  "set_recorder i st w = w \<lparr> mw_inner := hm_insert i st (mw_inner w) \<rparr>"

definition mcap_sink_log ::
  "'wr mcap_ops \<Rightarrow> SinkId \<Rightarrow> RawChannel \<Rightarrow> u8 list \<Rightarrow> Metadata \<Rightarrow> 'wr mcap_world
    \<Rightarrow> (unit, FoxgloveError) result \<times> 'wr mcap_world" where
  "mcap_sink_log M i channel msg metadata w =
     (case recorder w i of
        None \<Rightarrow> (Inl SinkClosed, w)
      | Some st \<Rightarrow> (case writer_log M channel msg metadata st of (r, st') \<Rightarrow> (r, set_recorder i (Some st') w)))"

text \<open>\<open>F\<close> is the \<open>channel_filter\<close> field of each recorder, which never changes.\<close>

type_synonym channel_filters = "SinkId \<Rightarrow> (ChannelDescriptor \<Rightarrow> bool) option"

definition mcap_sinks :: "'wr mcap_ops \<Rightarrow> channel_filters \<Rightarrow> 'wr mcap_world sink_ops" where
  "mcap_sinks M F = \<lparr>
     auto_subscribe = (\<lambda>k. F (sink_id k) = None),
     sink_add_channels = (\<lambda>k channels w.
       (case F (sink_id k) of
          None \<Rightarrow> None
        | Some f \<Rightarrow> Some (map raw_channel_id (filter (\<lambda>ch. f (descriptor ch)) channels)), w)),
     sink_remove_channel = (\<lambda>k ch w. w),
     sink_log = (\<lambda>k ch msg metadata w. mcap_sink_log M (sink_id k) ch msg metadata w) \<rparr>"

definition mcap_finish :: "'wr mcap_ops \<Rightarrow> SinkId \<Rightarrow> 'wr mcap_world \<Rightarrow> ('wr option, FoxgloveError) result \<times> 'wr mcap_world" where
  "mcap_finish M i w =
     (case recorder w i of
        None \<Rightarrow> (Inr None, w)
      | Some st \<Rightarrow>
          (case finish_file M (wst_writer st) of
             (Inl e, _) \<Rightarrow> (Inl (McapError e), set_recorder i None w)
           | (Inr _, wr) \<Rightarrow> (Inr (Some wr), set_recorder i None w)))"

definition mcap_write_metadata ::
  "'wr mcap_ops \<Rightarrow> SinkId \<Rightarrow> string \<Rightarrow> btree_metadata \<Rightarrow> 'wr mcap_world \<Rightarrow> (unit, FoxgloveError) result \<times> 'wr mcap_world" where
  "mcap_write_metadata M i name metadata w =
     (if metadata = [] then (Inr (), w)
      else
        (case recorder w i of
           None \<Rightarrow> (Inl SinkClosed, w)
         | Some st \<Rightarrow>
             (case write_metadata_record M (wst_writer st) name metadata of
                (Inl e, wr) \<Rightarrow> (Inl (McapError e), set_recorder i (Some (st \<lparr> wst_writer := wr \<rparr>)) w)
              | (Inr _, wr) \<Rightarrow> (Inr (), set_recorder i (Some (st \<lparr> wst_writer := wr \<rparr>)) w))))"

definition mcap_attach ::
  "'wr mcap_ops \<Rightarrow> SinkId \<Rightarrow> McapAttachment \<Rightarrow> 'wr mcap_world \<Rightarrow> (unit, FoxgloveError) result \<times> 'wr mcap_world" where
  "mcap_attach M i attachment w =
     (case recorder w i of
        None \<Rightarrow> (Inl SinkClosed, w)
      | Some st \<Rightarrow>
          (case attach_record M (wst_writer st) attachment of
             (Inl e, wr) \<Rightarrow> (Inl (McapError e), set_recorder i (Some (st \<lparr> wst_writer := wr \<rparr>)) w)
           | (Inr _, wr) \<Rightarrow> (Inr (), set_recorder i (Some (st \<lparr> wst_writer := wr \<rparr>)) w)))"

section \<open>The writer and its handle\<close>

type_synonym 'wr recording = "'wr mcap_world program"

text \<open>\<open>McapSink::new\<close>; \<open>created\<close> is the outcome of \<open>WriteOptions::create\<close>.\<close>

definition mcap_sink_new ::
  "('wr, string) result \<Rightarrow> 'wr mcap_world \<Rightarrow> (SinkId, FoxgloveError) result \<times> 'wr mcap_world" where
  "mcap_sink_new created w =
     (case created of
        Inl e \<Rightarrow> (Inl (McapError e), w)
      | Inr wr \<Rightarrow>
          let i = mw_next_sink_id w in
          (Inr i, set_recorder i (Some (writer_state_new wr)) (w \<lparr> mw_next_sink_id := i + 1 \<rparr>)))"

text \<open>\<open>McapWriter::create\<close>; the handle is the identifier of the recorder.\<close>

definition mcap_create ::
  "'wr mcap_ops \<Rightarrow> channel_filters \<Rightarrow> ('wr, string) result \<Rightarrow> 'wr recording \<Rightarrow> (SinkId, FoxgloveError) result \<times> 'wr recording" where
  "mcap_create M F created s =
     (case mcap_sink_new created (world s) of
        (Inl e, w) \<Rightarrow> (Inl e, s \<lparr> world := w \<rparr>)
      | (Inr i, w) \<Rightarrow> (Inr i, snd (ctx_add_sink (mcap_sinks M F) (Dyn_sink i) (s \<lparr> world := w \<rparr>))))"

definition handle_finish ::
  "'wr mcap_ops \<Rightarrow> SinkId \<Rightarrow> 'wr recording \<Rightarrow> ('wr option, FoxgloveError) result \<times> 'wr recording" where
  "handle_finish M i s =
     (let s1 = (if ctx_alive s then snd (ctx_remove_sink i s) else s) in
      case mcap_finish M i (world s1) of (r, w) \<Rightarrow> (r, s1 \<lparr> world := w \<rparr>))"

text \<open>\<open>Drop\<close> of the handle; an error is logged.\<close>

definition handle_drop :: "'wr mcap_ops \<Rightarrow> SinkId \<Rightarrow> 'wr recording \<Rightarrow> 'wr recording" where
  "handle_drop M i s = snd (handle_finish M i s)"

text \<open>\<open>close\<close> consumes the handle, which is then dropped; \<open>None\<close> is the panic of \<open>expect\<close>.\<close>

definition handle_close ::
  "'wr mcap_ops \<Rightarrow> SinkId \<Rightarrow> 'wr recording \<Rightarrow> (('wr, FoxgloveError) result \<times> 'wr recording) may_panic" where
  "handle_close M i s =
     (case handle_finish M i s of
        (Inl e, s1) \<Rightarrow> Some (Inl e, handle_drop M i s1)
      | (Inr None, s1) \<Rightarrow> None
      | (Inr (Some wr), s1) \<Rightarrow> Some (Inr wr, handle_drop M i s1))"

section \<open>What is in the file\<close>

text \<open>The channel record of a file describes a channel of the context.\<close>

definition recorded_as :: "mcap_file \<Rightarrow> McapChannelId \<Rightarrow> ChannelDescriptor \<Rightarrow> bool" where
  "recorded_as f m d \<longleftrightarrow> (\<exists>ch. mf_channels f m = Some ch \<and> mch_topic ch = desc_topic d
     \<and> mch_message_encoding ch = desc_message_encoding d \<and> mch_metadata ch = desc_metadata d
     \<and> (case desc_schema d of
          None \<Rightarrow> mch_schema_id ch = 0
        | Some sch \<Rightarrow> mf_schemas f (mch_schema_id ch) = Some sch))"

definition file_extends :: "mcap_file \<Rightarrow> mcap_file \<Rightarrow> bool" where
  "file_extends f g \<longleftrightarrow> mf_schemas f \<subseteq>\<^sub>m mf_schemas g \<and> mf_channels f \<subseteq>\<^sub>m mf_channels g"

text \<open>A call of the sink, and the record that it should leave.\<close>

type_synonym record_call = "RawChannel \<times> u8 list \<times> Metadata"

fun written :: "mcap_file \<Rightarrow> MessageHeader \<times> u8 list \<Rightarrow> record_call \<Rightarrow> bool" where
  "written f (h, data) (ch, msg, meta) \<longleftrightarrow> data = msg \<and> mh_log_time h = log_time meta
     \<and> mh_publish_time h = log_time meta \<and> recorded_as f (mh_channel_id h) (descriptor ch)"

text \<open>A run of calls that all succeed.\<close>

fun writer_run :: "'wr mcap_ops \<Rightarrow> record_call list \<Rightarrow> 'wr WriterState \<Rightarrow> 'wr WriterState option" where
  "writer_run M [] st = Some st"
| "writer_run M ((ch, msg, meta) # ls) st =
     (case writer_log M ch msg meta st of (Inl _, _) \<Rightarrow> None | (Inr _, st') \<Rightarrow> writer_run M ls st')"

definition sequence_of :: "'wr WriterState \<Rightarrow> McapChannelId \<Rightarrow> u32" where
  "sequence_of st m = (case hm_get (wst_channel_sequence st) m of Some n \<Rightarrow> n | None \<Rightarrow> 0)"

text \<open>\<open>D\<close> gives the descriptor of each channel, which never changes.\<close>

definition writer_ok :: "('wr \<Rightarrow> mcap_file) \<Rightarrow> (ChannelId \<Rightarrow> ChannelDescriptor) \<Rightarrow> 'wr WriterState \<Rightarrow> bool" where
  "writer_ok V D st \<longleftrightarrow>
     (\<forall>i m. hm_get (wst_channel_map st) i = Some m \<longrightarrow> recorded_as (V (wst_writer st)) m (D i))"

section \<open>Lemmas\<close>

lemma map_le_Some: "f \<subseteq>\<^sub>m g \<Longrightarrow> f k = Some v \<Longrightarrow> g k = Some v"
  by (metis map_le_def domI)

lemma recorded_as_mono: "recorded_as f m d \<Longrightarrow> file_extends f g \<Longrightarrow> recorded_as g m d"
proof -
  assume "recorded_as f m d" and ext: "file_extends f g"
  then obtain ch where ch: "mf_channels f m = Some ch" "mch_topic ch = desc_topic d"
    "mch_message_encoding ch = desc_message_encoding d" "mch_metadata ch = desc_metadata d"
    "case desc_schema d of None \<Rightarrow> mch_schema_id ch = 0 | Some sch \<Rightarrow> mf_schemas f (mch_schema_id ch) = Some sch"
    by (auto simp: recorded_as_def)
  have "mf_channels g m = Some ch" using ext ch(1) map_le_Some [of "mf_channels f" "mf_channels g"] by (simp add: file_extends_def)
  moreover have "case desc_schema d of None \<Rightarrow> mch_schema_id ch = 0 | Some sch \<Rightarrow> mf_schemas g (mch_schema_id ch) = Some sch"
    using ext ch(5) map_le_Some [of "mf_schemas f" "mf_schemas g"] by (cases "desc_schema d") (simp_all add: file_extends_def)
  ultimately show ?thesis using ch(2-4) by (simp add: recorded_as_def)
qed

lemma file_extends_refl [simp]: "file_extends f f" "file_extends f (f \<lparr> mf_messages := ms \<rparr>)"
  by (simp_all add: file_extends_def map_le_refl)

lemma file_extends_trans: "file_extends f g \<Longrightarrow> file_extends g h \<Longrightarrow> file_extends f h"
  by (auto simp: file_extends_def intro: map_le_trans)

lemma written_mono: "written f x l \<Longrightarrow> file_extends f g \<Longrightarrow> written g x l"
  by (cases x; cases l) (auto intro: recorded_as_mono)

lemma mcap_channel_of_ok:
  assumes L: "mcap_laws M V" and ok: "writer_ok V D st" and d: "descriptor ch = D (raw_channel_id ch)"
    and r: "mcap_channel_of M ch st = (Inr m, st')"
  shows "recorded_as (V (wst_writer st')) m (descriptor ch) \<and> writer_ok V D st'
    \<and> file_extends (V (wst_writer st)) (V (wst_writer st'))
    \<and> mf_messages (V (wst_writer st')) = mf_messages (V (wst_writer st))
    \<and> wst_channel_sequence st' = wst_channel_sequence st"
proof (cases "hm_get (wst_channel_map st) (raw_channel_id ch)")
  case (Some m')
  then show ?thesis using ok d r by (auto simp: mcap_channel_of_def writer_ok_def)
next
  case None
  let ?schema = "case desc_schema (descriptor ch) of
      Some schema \<Rightarrow> add_schema M (wst_writer st) (schema_name schema) (schema_encoding schema) (schema_data schema)
    | None \<Rightarrow> (Inr 0, wst_writer st)"
  obtain sid wr where s: "?schema = (Inr sid, wr)"
    using r None by (auto simp: mcap_channel_of_def split: prod.splits sum.splits)
  obtain wr' where c: "add_channel M wr sid (desc_topic (descriptor ch)) (desc_message_encoding (descriptor ch))
      (desc_metadata (descriptor ch)) = (Inr m, wr')"
    and st': "st' = st \<lparr> wst_writer := wr', wst_channel_map := hm_insert (raw_channel_id ch) m (wst_channel_map st) \<rparr>"
    using r None s by (auto simp: mcap_channel_of_def split: prod.splits sum.splits)
  have wr: "file_extends (V (wst_writer st)) (V wr) \<and> mf_messages (V wr) = mf_messages (V (wst_writer st))
    \<and> (case desc_schema (descriptor ch) of None \<Rightarrow> sid = 0 | Some sch \<Rightarrow> mf_schemas (V wr) sid = Some sch)"
  proof (cases "desc_schema (descriptor ch)")
    case (Some sch)
    then show ?thesis using L s unfolding mcap_laws_def
      by (cases sch) (force simp: file_extends_def schema_new_def map_le_refl)
  qed (use s in simp)
  have new: "mf_channels (V wr) \<subseteq>\<^sub>m mf_channels (V wr')" "mf_schemas (V wr') = mf_schemas (V wr)"
    "mf_messages (V wr') = mf_messages (V wr)" "mf_channels (V wr') m = Some \<lparr> mch_schema_id = sid,
        mch_topic = desc_topic (descriptor ch), mch_message_encoding = desc_message_encoding (descriptor ch),
        mch_metadata = desc_metadata (descriptor ch) \<rparr>"
    using L c unfolding mcap_laws_def by blast+
  have ext: "file_extends (V (wst_writer st)) (V wr')"
    using wr new(1,2) by (auto simp: file_extends_def intro: map_le_trans)
  have rec: "recorded_as (V wr') m (descriptor ch)"
    using wr new by (auto simp: recorded_as_def split: option.splits)
  have "writer_ok V D st'"
    using ok d rec ext unfolding writer_ok_def st'
    by (auto simp: hm_simps intro: recorded_as_mono)
  then show ?thesis using rec ext wr new(3) by (simp add: st')
qed

lemma writer_log_ok:
  assumes L: "mcap_laws M V" and ok: "writer_ok V D st" and d: "descriptor ch = D (raw_channel_id ch)"
    and r: "writer_log M ch msg meta st = (Inr (), st')"
  shows "\<exists>h. mf_messages (V (wst_writer st')) = mf_messages (V (wst_writer st)) @ [(h, msg)]
    \<and> written (V (wst_writer st')) (h, msg) (ch, msg, meta)
    \<and> mh_sequence h = sequence_of st (mh_channel_id h) + 1
    \<and> sequence_of st' = (sequence_of st) (mh_channel_id h := mh_sequence h)
    \<and> writer_ok V D st' \<and> file_extends (V (wst_writer st)) (V (wst_writer st'))"
proof -
  obtain m st1 where m: "mcap_channel_of M ch st = (Inr m, st1)"
    using r by (auto simp: writer_log_def split: prod.splits sum.splits)
  note q = mcap_channel_of_ok [OF L ok d m]
  obtain n st2 where n: "next_sequence m st1 = (n, st2)" by fastforce
  let ?h = "\<lparr> mh_channel_id = m, mh_sequence = n, mh_log_time = log_time meta, mh_publish_time = log_time meta \<rparr>"
  obtain wr where w: "write_to_known_channel M (wst_writer st2) ?h msg = (Inr (), wr)" and st': "st' = st2 \<lparr> wst_writer := wr \<rparr>"
    using r m n by (auto simp: writer_log_def split: prod.splits sum.splits)
  have V: "V wr = V (wst_writer st2) \<lparr> mf_messages := mf_messages (V (wst_writer st2)) @ [(?h, msg)] \<rparr>"
    using L w unfolding mcap_laws_def by blast
  have st2: "wst_writer st2 = wst_writer st1" "wst_channel_map st2 = wst_channel_map st1" "n = sequence_of st1 m + 1"
    "sequence_of st2 = (sequence_of st1) (m := n)"
    using n by (auto simp: next_sequence_def Let_def sequence_of_def hm_simps split: option.splits)
  have ext: "file_extends (V (wst_writer st1)) (V wr)" using V st2(1) by simp
  have "writer_ok V D st'" using q ext st2(2) by (auto simp: writer_ok_def st' intro: recorded_as_mono)
  moreover have "recorded_as (V wr) m (descriptor ch)" using q ext recorded_as_mono by blast
  moreover have "sequence_of st' = sequence_of st2" "sequence_of st1 = sequence_of st"
    using q by (simp_all add: sequence_of_def [abs_def] st')
  ultimately show ?thesis using V st2 q file_extends_trans [OF _ ext]
    by (intro exI [of _ ?h]) (simp add: st')
qed

text \<open>The sequence numbers of each channel of the file count on from where they were.\<close>

definition numbered :: "(McapChannelId \<Rightarrow> u32) \<Rightarrow> (MessageHeader \<times> u8 list) list \<Rightarrow> bool" where
  "numbered from new \<longleftrightarrow> (\<forall>m. map (mh_sequence \<circ> fst) (filter (\<lambda>x. mh_channel_id (fst x) = m) new) =
     map (\<lambda>k. from m + of_nat (Suc k)) [0..<length (filter (\<lambda>x. mh_channel_id (fst x) = m) new)])"

lemma numbered_Cons:
  assumes "mh_sequence h = from (mh_channel_id h) + 1" "numbered (from (mh_channel_id h := mh_sequence h)) new"
  shows "numbered from ((h, msg) # new)"
  unfolding numbered_def
proof
  fix m
  let ?n = "length (filter (\<lambda>x. mh_channel_id (fst x) = m) new)"
  have "map (\<lambda>k. from m + of_nat (Suc k)) [0..<Suc ?n] = (from m + 1) # map (\<lambda>k. from m + 1 + of_nat (Suc k)) [0..<?n]"
    by (simp add: upt_conv_Cons map_Suc_upt [symmetric] algebra_simps del: upt_Suc)
  then show "map (mh_sequence \<circ> fst) (filter (\<lambda>x. mh_channel_id (fst x) = m) ((h, msg) # new)) =
     map (\<lambda>k. from m + of_nat (Suc k)) [0..<length (filter (\<lambda>x. mh_channel_id (fst x) = m) ((h, msg) # new))]"
    using assms(1) assms(2) [unfolded numbered_def, rule_format, of m] by (auto simp del: upt_Suc)
qed

lemma writer_run_ok:
  assumes L: "mcap_laws M V"
  shows "writer_ok V D st \<Longrightarrow> \<forall>(ch, _) \<in> set ls. descriptor ch = D (raw_channel_id ch) \<Longrightarrow> writer_run M ls st = Some st' \<Longrightarrow>
    writer_ok V D st' \<and> file_extends (V (wst_writer st)) (V (wst_writer st'))
    \<and> (\<exists>new. mf_messages (V (wst_writer st')) = mf_messages (V (wst_writer st)) @ new
        \<and> list_all2 (written (V (wst_writer st'))) new ls \<and> numbered (sequence_of st) new)"
proof (induction ls arbitrary: st)
  case Nil
  then show ?case by (simp add: numbered_def)
next
  case (Cons l ls)
  obtain ch msg meta where l: "l = (ch, msg, meta)" by (cases l)
  obtain st1 where r: "writer_log M ch msg meta st = (Inr (), st1)" and run: "writer_run M ls st1 = Some st'"
    using Cons.prems(3) l by (auto split: prod.splits sum.splits)
  obtain h where h: "mf_messages (V (wst_writer st1)) = mf_messages (V (wst_writer st)) @ [(h, msg)]"
    "written (V (wst_writer st1)) (h, msg) (ch, msg, meta)" "mh_sequence h = sequence_of st (mh_channel_id h) + 1"
    "sequence_of st1 = (sequence_of st) (mh_channel_id h := mh_sequence h)" "writer_ok V D st1"
    "file_extends (V (wst_writer st)) (V (wst_writer st1))"
    using writer_log_ok [OF L Cons.prems(1) _ r] Cons.prems(2) l by auto
  obtain new where new: "mf_messages (V (wst_writer st')) = mf_messages (V (wst_writer st1)) @ new"
    "list_all2 (written (V (wst_writer st'))) new ls" "numbered (sequence_of st1) new"
    and st': "writer_ok V D st'" "file_extends (V (wst_writer st1)) (V (wst_writer st'))"
    using Cons.IH [OF h(5) _ run] Cons.prems(2) by auto
  have "numbered (sequence_of st) ((h, msg) # new)" using numbered_Cons [of h "sequence_of st"] h(3) new(3) h(4) by simp
  then show ?case
    using h new st' written_mono [OF h(2) st'(2)] file_extends_trans [OF h(6) st'(2)] l
    by (intro conjI exI [of _ "(h, msg) # new"]) simp_all
qed

section \<open>The recorder in the context\<close>

definition hears :: "'w program \<Rightarrow> SinkId \<Rightarrow> chan_ref \<Rightarrow> bool" where
  "hears s i r \<longleftrightarrow> i \<in> index_subscribers (subs_abs (subs (ctx s))) r"

lemma recorder_set [simp]: "recorder (set_recorder i st w) j = (if j = i then st else recorder w j)"
  by (simp add: recorder_def set_recorder_def hm_simps)

lemma recorder_log:
  "recorder (snd (mcap_sink_log M i ch msg meta w)) j =
     (if j = i then map_option (\<lambda>st. snd (writer_log M ch msg meta st)) (recorder w j) else recorder w j)"
  by (auto simp: mcap_sink_log_def split: option.split prod.split)

lemma fold_recorder_log:
  "distinct (map sink_id ks) \<Longrightarrow>
   recorder (fold (\<lambda>k w. snd (sink_log (mcap_sinks M F) k ch msg meta w)) ks w) i =
     (if i \<in> sink_id ` set ks then map_option (\<lambda>st. snd (writer_log M ch msg meta st)) (recorder w i) else recorder w i)"
  by (induction ks arbitrary: w) (auto simp: mcap_sinks_def recorder_log)

lemma log_call_deref:
  assumes "ctx_wf T s" "registered s (channel_of_call l)"
  shows "deref (log_call T l s) = deref s"
  using ctx_wf_channel_sinks [OF assms]
  by (cases l) (auto simp: channel_log_def log_with_meta_to_sink_def log_warn_if_closed_def fun_eq_iff)

fun record_call_of :: "'w program \<Rightarrow> log_call \<Rightarrow> record_call" where
  "record_call_of s (now, unow, r, msg, opts) = (deref s r, msg, stamp unow opts)"

lemma log_calls_recorder:
  "ctx_wf (mcap_sinks M F) s \<Longrightarrow> \<forall>l \<in> set ls. registered s (channel_of_call l) \<Longrightarrow> recorder (world s) i = Some st \<Longrightarrow>
   writer_run M (map (record_call_of s) (filter (\<lambda>l. hears s i (channel_of_call l)) ls)) st = Some st' \<Longrightarrow>
   recorder (world (fold (log_call (mcap_sinks M F)) ls s)) i = Some st'"
proof (induction ls arbitrary: s st)
  case (Cons l ls)
  let ?T = "mcap_sinks M F"
  obtain now unow r msg opts where l: "l = (now, unow, r, msg, opts)" by (cases l)
  have reg: "registered s r" using Cons.prems(2) l by simp
  note q = ctx_wf_channel_sinks [OF Cons.prems(1) reg]
  let ?s = "log_call ?T l s"
  have wf: "ctx_wf ?T ?s" using Cons.prems(1) reg l by (intro log_call_wf) simp_all
  have rec: "recorder (world ?s) i = Some (if hears s i r then snd (writer_log M (deref s r) msg (stamp unow opts) st) else st)"
  proof -
    have "inj_on sink_id (set (log_sinks (deref s r)))" by (rule inj_onI) (metis dyn_sink.expand)
    then have "distinct (map sink_id (log_sinks (deref s r)))" using q by (simp add: distinct_map)
    then show ?thesis using q Cons.prems(3) unfolding l log_call_world
      by (simp add: fold_recorder_log hears_def)
  qed
  have same: "hears ?s = hears s" "record_call_of ?s = record_call_of s" "registered ?s = registered s"
    using log_call_deref [OF Cons.prems(1), of l] reg l
    by (auto simp: hears_def fun_eq_iff log_call_fields simp del: log_call.simps)
  show ?case
  proof (cases "hears s i r")
    case True
    obtain st1 where st1: "writer_log M (deref s r) msg (stamp unow opts) st = (Inr (), st1)"
      "writer_run M (map (record_call_of s) (filter (\<lambda>l. hears s i (channel_of_call l)) ls)) st1 = Some st'"
      using Cons.prems(4) True l by (auto split: prod.splits sum.splits)
    show ?thesis using Cons.IH [OF wf _ rec] Cons.prems(2) st1 True same by simp
  next
    case False
    show ?thesis using Cons.IH [OF wf _ rec] Cons.prems(2,4) False same l by simp
  qed
qed simp

lemma add_sink_subscriptions:
  assumes wf: "ctx_wf T s" and new: "\<not> hm_contains (sink_id k) (sinks (ctx s))" and r: "registered s r"
  shows "hears (snd (ctx_add_sink T k s)) (sink_id k) r \<longleftrightarrow> auto_subscribe T k
    \<or> (\<exists>l. fst (sink_add_channels T k (map (deref s) (hm_values (channels (ctx s)))) (world s)) = Some l \<and> r \<in> set l)"
proof -
  have sw: "subs_wf (subs (ctx s))" using wf by (simp add: ctx_wf_def links_ok_def)
  have "snd (subs_abs (subs (ctx s))) r \<subseteq> set (hm_keys (sinks (ctx s)))" using wf by (simp add: ctx_wf_def links_ok_def)
  moreover have "sink_id k \<notin> set (hm_keys (sinks (ctx s)))" using new by (simp add: hm_contains_keys)
  moreover have "sink_id k \<notin> fst (subs_abs (subs (ctx s)))"
    using wf new by (simp add: ctx_wf_def links_ok_def hm_contains_iff)
  ultimately have out: "sink_id k \<notin> fst (subs_abs (subs (ctx s)))" "sink_id k \<notin> snd (subs_abs (subs (ctx s))) r"
    by blast+
  have ch: "hm_values (channels (ctx s)) \<noteq> []" using r by (auto simp: registered_def hm_values_def hm_contains_def)
  obtain ids w where iw: "sink_add_channels T k (map (deref s) (hm_values (channels (ctx s)))) (world s) = (ids, w)" by fastforce
  have exec: "subs (ctx (snd (ctx_add_sink T k s))) =
      (if auto_subscribe T k then snd (subs_exec (Subscribe_global k) (subs (ctx s)))
       else case ids of None \<Rightarrow> subs (ctx s)
         | Some l \<Rightarrow> (let l' = filter (\<lambda>i. hm_contains i (channels (ctx s))) l in
             if l' = [] then subs (ctx s) else snd (subs_exec (Subscribe_channels k l') (subs (ctx s)))))"
    using new ch iw by (simp add: ctx_add_sink_def Let_def update_channel_sinks_by_ids_def split: prod.splits option.splits)
  show ?thesis using out r unfolding hears_def exec iw
    by (cases "subs_abs (subs (ctx s))")
      (auto simp: Let_def subs_exec_abs [OF sw] index_subscribers_def registered_def filter_empty_conv
        simp del: subs_exec.simps split: option.split)
qed

section \<open>Recordings\<close>

abbreviation admits :: "(ChannelDescriptor \<Rightarrow> bool) option \<Rightarrow> ChannelDescriptor \<Rightarrow> bool" where
  "admits f d \<equiv> (case f of None \<Rightarrow> True | Some p \<Rightarrow> p d)"

lemma create_hears:
  assumes "ctx_wf (mcap_sinks M F) s" "\<not> hm_contains i (sinks (ctx s))" "registered s r"
  shows "hears (snd (ctx_add_sink (mcap_sinks M F) (Dyn_sink i) s)) i r \<longleftrightarrow> admits (F i) (descriptor (deref s r))"
proof -
  have v: "set (hm_values (channels (ctx s))) = {r. registered s r}" and h: "heap_ok s" "chans_ok s"
    using registered_values assms(1) by (auto simp: ctx_wf_def)
  have id: "raw_channel_id (deref s r') = r'" if "registered s r'" for r'
    using h registered_heap [OF h(2) that] by (simp add: heap_ok_def)
  have "r \<in> raw_channel_id ` {x \<in> deref s ` {r. registered s r}. p (descriptor x)} \<longleftrightarrow> p (descriptor (deref s r))" for p
    using assms(3) id by force
  then show ?thesis using add_sink_subscriptions [OF assms(1) _ assms(3), of "Dyn_sink i"] assms(2) v
    by (cases "F i") (simp_all add: mcap_sinks_def)
qed

text \<open>The recorder only reads the descriptor of a channel.\<close>

lemma writer_log_cong: "descriptor ch = descriptor ch' \<Longrightarrow> writer_log M ch = writer_log M ch'"
  unfolding writer_log_def [abs_def] mcap_channel_of_def raw_channel_id_def by (simp only:)

lemma writer_run_cong:
  "list_all2 (\<lambda>(ch, x) (ch', x'). descriptor ch = descriptor ch' \<and> x = x') ls ls' \<Longrightarrow> writer_run M ls st = writer_run M ls' st"
proof (induction ls ls' arbitrary: st rule: list_all2_induct)
  case (Cons l ls l' ls')
  then show ?case
    by (cases l; cases l') (auto dest: writer_log_cong [of _ _ M] split: prod.split sum.split)
qed simp

lemma add_sink_fields:
  "channels (ctx (snd (ctx_add_sink T k s))) = channels (ctx s)" "ctx_alive (snd (ctx_add_sink T k s)) = ctx_alive s"
  "descriptor (deref (snd (ctx_add_sink T k s)) r) = descriptor (deref s r)"
  by (simp_all add: ctx_add_sink_def Let_def update_channel_sinks_by_ids_def update_channel_sinks_deref case_prod_beta
      split: option.split)

lemma add_sink_world: "world (snd (ctx_add_sink (mcap_sinks M F) k s)) = world s"
  by (simp add: ctx_add_sink_def Let_def update_channel_sinks_by_ids_def case_prod_beta mcap_sinks_def split: option.split)

lemma log_calls_alive: "ctx_alive (fold (log_call T) ls s) = ctx_alive s"
  by (induction ls arbitrary: s) (simp_all add: log_call_fields)

lemma remove_sink_gone: "\<not> hm_contains i (sinks (ctx (snd (ctx_remove_sink i s))))"
  by (simp add: ctx_remove_sink_def Let_def case_prod_beta)

text \<open>\<open>close\<close> finishes the file once; the drop of the handle finds the recorder finished.\<close>

lemma handle_close_eq:
  assumes "ctx_alive s" "recorder (world s) i = Some st"
  shows "\<exists>s'. handle_close M i s =
      Some (case finish_file M (wst_writer st) of (Inl e, _) \<Rightarrow> Inl (McapError e) | (Inr _, wr) \<Rightarrow> Inr wr, s')
    \<and> recorder (world s') i = None \<and> \<not> hm_contains i (sinks (ctx s'))"
proof -
  let ?s1 = "snd (ctx_remove_sink i s)"
  let ?w = "set_recorder i None (world s)"
  let ?s2 = "?s1 \<lparr> world := ?w \<rparr>"
  have alive: "ctx_alive ?s1" using assms(1) by (simp add: ctx_remove_sink_def Let_def case_prod_beta)
  have d: "handle_drop M i ?s2 = snd (ctx_remove_sink i ?s2)"
    using alive by (simp add: handle_drop_def handle_finish_def mcap_finish_def)
  then have "recorder (world (handle_drop M i ?s2)) i = None" "\<not> hm_contains i (sinks (ctx (handle_drop M i ?s2)))"
    by (simp_all add: remove_sink_gone)
  then show ?thesis using assms
    by (auto simp: handle_close_def handle_finish_def mcap_finish_def split: prod.split sum.split)
qed

text \<open>C9: a recorder writes exactly the messages that it is handed, in this order and with their
  log time. The channel of each record has the topic, encoding, metadata and schema of the
  channel that was logged on, and the sequence numbers of each channel of the file count up by
  one, also where channels of the context share a channel of the file.\<close>

theorem mcap_recording:
  assumes "mcap_laws M V" "mf_messages (V wr) = []" "\<forall>(ch, _) \<in> set ls. descriptor ch = D (raw_channel_id ch)"
    "writer_run M ls (writer_state_new wr) = Some st"
  shows "list_all2 (written (V (wst_writer st))) (mf_messages (V (wst_writer st))) ls
    \<and> (\<forall>m. map (mh_sequence \<circ> fst) (filter (\<lambda>x. mh_channel_id (fst x) = m) (mf_messages (V (wst_writer st)))) =
        map (\<lambda>k. of_nat (Suc k)) [0..<length (filter (\<lambda>x. mh_channel_id (fst x) = m) (mf_messages (V (wst_writer st))))])"
proof -
  have "writer_ok V D (writer_state_new wr)" "sequence_of (writer_state_new wr) = (\<lambda>_. 0)"
    by (simp_all add: writer_ok_def writer_state_new_def sequence_of_def fun_eq_iff)
  then show ?thesis
    using writer_run_ok [OF assms(1) _ assms(3,4)] assms(2) by (auto simp: numbered_def writer_state_new_def)
qed

definition demo_mcap :: "(mcap_file \<times> nat \<times> nat) mcap_ops" where
  "demo_mcap = \<lparr>
     add_schema = (\<lambda>(f, a, b) n e d.
       if mf_schemas f (word_of_nat a) = None
       then (Inr (word_of_nat a), (f \<lparr> mf_schemas := (mf_schemas f)(word_of_nat a \<mapsto> schema_new n e d) \<rparr>, a + 1, b))
       else (Inl ''full'', (f, a, b))),
     add_channel = (\<lambda>(f, a, b) sid t e m.
       if mf_channels f (word_of_nat b) = None
       then (Inr (word_of_nat b), (f \<lparr> mf_channels := (mf_channels f)(word_of_nat b \<mapsto>
         \<lparr> mch_schema_id = sid, mch_topic = t, mch_message_encoding = e, mch_metadata = m \<rparr>) \<rparr>, a, b + 1))
       else (Inl ''full'', (f, a, b))),
     write_to_known_channel = (\<lambda>(f, a, b) h d. (Inr (), (f \<lparr> mf_messages := mf_messages f @ [(h, d)] \<rparr>, a, b))),
     write_metadata_record = (\<lambda>wr n m. (Inr (), wr)), attach_record = (\<lambda>wr x. (Inr (), wr)),
     finish_file = (\<lambda>wr. (Inr (), wr)) \<rparr>"

definition demo_file :: "mcap_file \<times> nat \<times> nat" where
  "demo_file = (\<lparr> mf_schemas = Map.empty, mf_channels = Map.empty, mf_messages = [] \<rparr>, 1, 1)"

lemma demo_mcap_laws: "mcap_laws demo_mcap fst"
  by (auto simp: mcap_laws_def demo_mcap_def map_le_def split: if_splits)

definition demo_raw :: "ChannelId \<Rightarrow> string \<Rightarrow> RawChannel" where
  "demo_raw i t = raw_channel_new i t ''json'' None []"

theorem mcap_recording_witness:
  "\<exists>st. writer_run demo_mcap [(demo_raw 1 ''/a'', [7], \<lparr> log_time = 3 \<rparr>), (demo_raw 1 ''/a'', [8], \<lparr> log_time = 4 \<rparr>)]
      (writer_state_new demo_file) = Some st
    \<and> list_all2 (written (fst (wst_writer st))) (mf_messages (fst (wst_writer st)))
      [(demo_raw 1 ''/a'', [7], \<lparr> log_time = 3 \<rparr>), (demo_raw 1 ''/a'', [8], \<lparr> log_time = 4 \<rparr>)]"
proof -
  let ?ls = "[(demo_raw 1 ''/a'', [7], \<lparr> log_time = 3 \<rparr>), (demo_raw 1 ''/a'', [8], \<lparr> log_time = 4 \<rparr>)]"
  obtain st where st: "writer_run demo_mcap ?ls (writer_state_new demo_file) = Some st"
    by (simp add: writer_log_def mcap_channel_of_def next_sequence_def writer_state_new_def demo_mcap_def demo_file_def
        demo_raw_def raw_channel_new_def raw_channel_id_def channel_descriptor_new_def)
  then show ?thesis
    using mcap_recording [OF demo_mcap_laws _ _ st, of "\<lambda>_. descriptor (demo_raw 1 ''/a'')"] by (auto simp: demo_file_def)
qed

text \<open>C10: a recording from its creation to its end. A new recorder hears exactly the channels that
  its filter admits, whatever is logged on the channels of the context in between; closing it
  never panics, returns what finishing the file returns, and leaves a context without the
  recorder and a recorder that refuses messages.\<close>

theorem mcap_lifecycle:
  assumes "ctx_reachable (mcap_sinks M F) s" "ctx_alive s" "i = mw_next_sink_id (world s)" "\<not> hm_contains i (sinks (ctx s))"
    "\<forall>l \<in> set ls. registered s (channel_of_call l)"
    "writer_run M (map (record_call_of s) (filter (\<lambda>l. admits (F i) (descriptor (deref s (channel_of_call l)))) ls))
       (writer_state_new wr) = Some st"
  shows "\<exists>s1 s2. mcap_create M F (Inr wr) s = (Inr i, s1)
    \<and> recorder (world (fold (log_call (mcap_sinks M F)) ls s1)) i = Some st
    \<and> handle_close M i (fold (log_call (mcap_sinks M F)) ls s1) =
        Some (case finish_file M (wst_writer st) of (Inl e, _) \<Rightarrow> Inl (McapError e) | (Inr _, wr') \<Rightarrow> Inr wr', s2)
    \<and> \<not> hm_contains i (sinks (ctx s2))
    \<and> mcap_sink_log M i ch msg meta (world s2) = (Inl SinkClosed, world s2)"
proof -
  let ?T = "mcap_sinks M F"
  define w where "w = set_recorder i (Some (writer_state_new wr)) (world s \<lparr> mw_next_sink_id := i + 1 \<rparr>)"
  define s0 where "s0 = s \<lparr> world := w \<rparr>"
  define s1 where "s1 = snd (ctx_add_sink ?T (Dyn_sink i) s0)"
  have d0: "deref s0 = deref s" by (simp add: s0_def)
  have wf0: "ctx_wf ?T s0" using ctx_reachable_wf [OF assms(1)] by (simp add: s0_def)
  have create: "mcap_create M F (Inr wr) s = (Inr i, s1)"
    using assms(3) by (simp add: mcap_create_def mcap_sink_new_def Let_def w_def s0_def s1_def)
  have wf1: "ctx_wf ?T s1" unfolding s1_def by (rule ctx_add_sink_wf [OF wf0])
  have same: "registered s1 = registered s" "ctx_alive s1 = ctx_alive s" "\<And>r. descriptor (deref s1 r) = descriptor (deref s r)"
    by (simp_all add: s1_def s0_def add_sink_fields registered_def fun_eq_iff)
  have rec1: "recorder (world s1) i = Some (writer_state_new wr)" by (simp add: s1_def add_sink_world s0_def w_def)
  have "hears s1 i (channel_of_call l) \<longleftrightarrow> admits (F i) (descriptor (deref s (channel_of_call l)))" if "l \<in> set ls" for l
    using create_hears [OF wf0, of i "channel_of_call l"] assms(4,5) that unfolding d0 by (simp add: s1_def s0_def registered_def)
  then have f: "filter (\<lambda>l. hears s1 i (channel_of_call l)) ls =
      filter (\<lambda>l. admits (F i) (descriptor (deref s (channel_of_call l)))) ls" by (rule filter_cong [OF refl])
  have "list_all2 (\<lambda>(ch, x) (ch', x'). descriptor ch = descriptor ch' \<and> x = x')
      (map (record_call_of s1) xs) (map (record_call_of s) xs)" for xs
    by (induction xs) (auto simp: same(3))
  then have "writer_run M (map (record_call_of s1) (filter (\<lambda>l. hears s1 i (channel_of_call l)) ls)) (writer_state_new wr) = Some st"
    unfolding f using writer_run_cong assms(6) by metis
  then have rec: "recorder (world (fold (log_call ?T) ls s1)) i = Some st"
    using log_calls_recorder [OF wf1 _ rec1] assms(5) same(1) by simp
  obtain s2 where "handle_close M i (fold (log_call ?T) ls s1) =
      Some (case finish_file M (wst_writer st) of (Inl e, _) \<Rightarrow> Inl (McapError e) | (Inr _, wr) \<Rightarrow> Inr wr, s2)"
    "recorder (world s2) i = None" "\<not> hm_contains i (sinks (ctx s2))"
    using handle_close_eq [OF _ rec] assms(2) same(2) by (auto simp: log_calls_alive)
  then show ?thesis using create rec by (auto simp: mcap_sink_log_def)
qed

definition demo_recording :: "(mcap_file \<times> nat \<times> nat) recording" where
  "demo_recording = snd (build_raw (mcap_sinks demo_mcap (\<lambda>_. None)) demo_builder
     (program_new \<lparr> mw_inner = [], mw_next_sink_id = 1 \<rparr>))"

theorem mcap_lifecycle_witness:
  "\<exists>st s1 s2. mcap_create demo_mcap (\<lambda>_. None) (Inr demo_file) demo_recording = (Inr 1, s1)
    \<and> recorder (world (log_call (mcap_sinks demo_mcap (\<lambda>_. None)) (0, 5, 1, [9], partial_metadata_default) s1)) 1 = Some st
    \<and> handle_close demo_mcap 1 (log_call (mcap_sinks demo_mcap (\<lambda>_. None)) (0, 5, 1, [9], partial_metadata_default) s1)
        = Some (Inr (wst_writer st), s2)"
proof -
  let ?T = "mcap_sinks demo_mcap (\<lambda>_. None)" and ?l = "(0, 5, 1, [9], partial_metadata_default) :: log_call"
  have reach: "ctx_reachable ?T demo_recording"
    using reach_exec [OF reach_start, of "Build demo_builder" _ ?T] by (simp add: demo_recording_def program_new_def)
  have ev: "ctx_alive demo_recording" "mw_next_sink_id (world demo_recording) = 1"
    "\<not> hm_contains 1 (sinks (ctx demo_recording))" "registered demo_recording 1"
    "descriptor (deref demo_recording 1) = channel_descriptor_new 1 ''/t'' ''json'' [] None"
    by (simp_all add: demo_recording_def demo_builder_def ctx_eval)
  have fin: "finish_file demo_mcap wr = (Inr (), wr)" for wr by (simp add: demo_mcap_def)
  obtain st where st: "writer_run demo_mcap [record_call_of demo_recording ?l] (writer_state_new demo_file) = Some st"
    by (simp add: writer_log_def mcap_channel_of_def next_sequence_def writer_state_new_def demo_mcap_def demo_file_def
        raw_channel_id_def ev(5) channel_descriptor_new_def)
  then show ?thesis
    using mcap_lifecycle [OF reach ev(1) _ ev(3), of "[?l]" demo_file st "demo_raw 1 ''/a''" "[]" "\<lparr> log_time = 0 \<rparr>"] ev(2,4)
    by (simp add: fin del: log_call.simps) blast
qed

end
