(* ===== verification/Mcap_Stream.thy ===== *)
theory Mcap_Stream
  imports Sync_Primitives
begin

text \<open>
  The stream of MCAP bytes (\<open>stream.rs\<close>): a buffer that the MCAP writer appends to and that the
  handle flushes, chunk by chunk, into a channel of capacity one, from which the stream reads.
  Flushing waits for room in the channel, so it is an operation of two parts between which
  messages are logged and read; a flush that is waiting may also be given up by its caller. The
  channel of the \<open>tokio\<close> crate is a parameter, and the bytes that the MCAP writer produces are
  arguments.
\<close>

section \<open>The channel of tokio\<close>

text \<open>A channel is the list of the chunks in it, oldest first. Sending to a channel without room
  reports \<open>Full\<close>; the future of \<open>send\<close> then stays pending. The boolean says whether the receiver
  exists.\<close>

record mpsc =
  mpsc_try_send :: "nat \<Rightarrow> bool \<Rightarrow> u8 list list \<Rightarrow> u8 list \<Rightarrow> u8 list TrySendError + u8 list list"
  mpsc_recv :: "u8 list list \<Rightarrow> (u8 list \<times> u8 list list) option"

definition mpsc_laws :: "mpsc \<Rightarrow> bool" where
  "mpsc_laws C \<longleftrightarrow>
     (\<forall>cap alive q m. 0 < cap \<longrightarrow> mpsc_try_send C cap alive q m =
        (if \<not> alive then Inl (Disconnected m) else if length q < cap then Inr (q @ [m]) else Inl (Full m)))
     \<and> (\<forall>q. mpsc_recv C q = (case q of [] \<Rightarrow> None | x # r \<Rightarrow> Some (x, r)))"

section \<open>The shared buffer\<close>

record SharedBuffer =
  sb_buffer :: "u8 list"
  sb_position :: u64

definition shared_buffer_default :: SharedBuffer where
  "shared_buffer_default = \<lparr> sb_buffer = [], sb_position = 0 \<rparr>"

definition shared_write :: "u8 list \<Rightarrow> SharedBuffer \<Rightarrow> nat \<times> SharedBuffer" where
  "shared_write buf b =
     (length buf, \<lparr> sb_buffer = sb_buffer b @ buf, sb_position = sb_position b + of_nat (length buf) \<rparr>)"

datatype SeekFrom = Start u64 | End int | Current int

definition shared_seek :: "SeekFrom \<Rightarrow> SharedBuffer \<Rightarrow> (u64, string) result" where
  "shared_seek pos b =
     (case pos of
        Start n \<Rightarrow> if sb_position b = n then Inr n else Inl ''seek on unseekable file''
      | Current n \<Rightarrow> if n = 0 then Inr (sb_position b) else Inl ''seek on unseekable file''
      | End _ \<Rightarrow> Inl ''seek on unseekable file'')"

text \<open>\<open>BytesMut::split\<close>.\<close>

definition shared_split :: "SharedBuffer \<Rightarrow> u8 list \<times> SharedBuffer" where
  "shared_split b = (sb_buffer b, b \<lparr> sb_buffer := [] \<rparr>)"

section \<open>The handle and the stream\<close>

text \<open>The handle is open until \<open>close\<close> or the drop takes its writer; it is closing while the
  last flush waits, and gone with its sender afterwards.\<close>

datatype handle_phase = Open | Closing | Gone

record mcap_stream =
  ms_buffer :: SharedBuffer
  ms_phase :: handle_phase
  ms_pending :: "u8 list option"
  ms_queue :: "u8 list list"
  ms_receiver :: bool

definition create_mcap_stream :: mcap_stream where
  "create_mcap_stream = \<lparr> ms_buffer = shared_buffer_default, ms_phase = Open, ms_pending = None, ms_queue = [],
     ms_receiver = True \<rparr>"

definition CHANNEL_CAPACITY :: nat where "CHANNEL_CAPACITY = 1"

text \<open>What a call returns: a chunk of the stream, its end, that it waits, an I/O error, or, for
  the account below, the bytes that it gives up.\<close>

datatype outcome = Done | Yield "u8 list" | End_of_stream | Waiting | Io_failed "u8 list" | Gave_up "u8 list"

text \<open>\<open>flush_shared_buffer\<close> up to the \<open>await\<close>.\<close>

definition flush_begin :: "mcap_stream \<Rightarrow> outcome \<times> mcap_stream" where
  "flush_begin s =
     (let (bytes, b) = shared_split (ms_buffer s) in
      if bytes = [] then (Done, s \<lparr> ms_buffer := b \<rparr>)
      else (Waiting, s \<lparr> ms_buffer := b, ms_pending := Some bytes \<rparr>))"

text \<open>The end of \<open>close\<close>: the handle is dropped once nothing is pending.\<close>

definition settle :: "mcap_stream \<Rightarrow> mcap_stream" where
  "settle s = (if ms_phase s = Closing \<and> ms_pending s = None then s \<lparr> ms_phase := Gone \<rparr> else s)"

text \<open>The future of \<open>send\<close> is polled.\<close>

definition send_poll :: "mpsc \<Rightarrow> mcap_stream \<Rightarrow> outcome \<times> mcap_stream" where
  "send_poll C s =
     (case ms_pending s of
        None \<Rightarrow> (Done, s)
      | Some bytes \<Rightarrow>
          (case mpsc_try_send C CHANNEL_CAPACITY (ms_receiver s) (ms_queue s) bytes of
             Inr q \<Rightarrow> (Done, settle (s \<lparr> ms_queue := q, ms_pending := None \<rparr>))
           | Inl (Full _) \<Rightarrow> (Waiting, s)
           | Inl (Disconnected m) \<Rightarrow> (Io_failed m, settle (s \<lparr> ms_pending := None \<rparr>))))"

text \<open>\<open>close\<close> up to the \<open>await\<close>; \<open>tail\<close> is what the writer still writes when it is closed, whether
  it succeeds or not, and in both cases the buffer is flushed.\<close>

definition close_begin :: "u8 list \<Rightarrow> mcap_stream \<Rightarrow> outcome \<times> mcap_stream" where
  "close_begin tail s =
     (let s1 = s \<lparr> ms_buffer := snd (shared_write tail (ms_buffer s)), ms_phase := Closing \<rparr> in
      case flush_begin s1 of (r, s2) \<Rightarrow> (r, settle s2))"

text \<open>\<open>Drop\<close> of a handle that was not closed.\<close>

definition drop_handle :: "mpsc \<Rightarrow> u8 list \<Rightarrow> mcap_stream \<Rightarrow> outcome \<times> mcap_stream" where
  "drop_handle C tail s =
     (let (bytes, b) = shared_split (snd (shared_write tail (ms_buffer s)));
          s1 = s \<lparr> ms_buffer := b, ms_phase := Gone \<rparr> in
      if bytes = [] then (Done, s1)
      else
        (case mpsc_try_send C CHANNEL_CAPACITY (ms_receiver s) (ms_queue s) bytes of
           Inr q \<Rightarrow> (Done, s1 \<lparr> ms_queue := q \<rparr>)
         | Inl _ \<Rightarrow> (Gave_up bytes, s1)))"

text \<open>The channel ends when it is empty and its sender is gone.\<close>

definition poll_next :: "mpsc \<Rightarrow> mcap_stream \<Rightarrow> outcome \<times> mcap_stream" where
  "poll_next C s =
     (case mpsc_recv C (ms_queue s) of
        Some (bytes, q) \<Rightarrow> (Yield bytes, s \<lparr> ms_queue := q \<rparr>)
      | None \<Rightarrow> (if ms_phase s = Gone then End_of_stream else Waiting, s))"

definition buffer_size :: "mcap_stream \<Rightarrow> nat" where
  "buffer_size s = length (sb_buffer (ms_buffer s))"

section \<open>Runs\<close>

text \<open>Operations borrow the handle: a flush that waits excludes another flush, \<open>close\<close> and the
  drop, but its future may be dropped. The MCAP writer writes while it is open.\<close>

datatype stream_op =
  Write_bytes "u8 list"
| Flush
| Send_poll
| Cancel
| Close_handle "u8 list"
| Drop_handle "u8 list"
| Poll_next
| Drop_stream

fun stream_exec :: "mpsc \<Rightarrow> stream_op \<Rightarrow> mcap_stream \<Rightarrow> outcome \<times> mcap_stream" where
  "stream_exec C (Write_bytes bs) s = (Done, s \<lparr> ms_buffer := snd (shared_write bs (ms_buffer s)) \<rparr>)"
| "stream_exec C Flush s = flush_begin s"
| "stream_exec C Send_poll s = send_poll C s"
| "stream_exec C Cancel s =
     (case ms_pending s of None \<Rightarrow> (Done, s) | Some bytes \<Rightarrow> (Gave_up bytes, settle (s \<lparr> ms_pending := None \<rparr>)))"
| "stream_exec C (Close_handle tail) s = close_begin tail s"
| "stream_exec C (Drop_handle tail) s = drop_handle C tail s"
| "stream_exec C Poll_next s = poll_next C s"
| "stream_exec C Drop_stream s = (Gave_up (concat (ms_queue s)), s \<lparr> ms_receiver := False, ms_queue := [] \<rparr>)"

fun stream_allowed :: "stream_op \<Rightarrow> mcap_stream \<Rightarrow> bool" where
  "stream_allowed (Write_bytes _) s \<longleftrightarrow> ms_phase s = Open"
| "stream_allowed Flush s \<longleftrightarrow> ms_phase s = Open \<and> ms_pending s = None"
| "stream_allowed (Close_handle _) s \<longleftrightarrow> ms_phase s = Open \<and> ms_pending s = None"
| "stream_allowed (Drop_handle _) s \<longleftrightarrow> ms_phase s = Open \<and> ms_pending s = None"
| "stream_allowed Poll_next s \<longleftrightarrow> ms_receiver s"
| "stream_allowed Drop_stream s \<longleftrightarrow> ms_receiver s"
| "stream_allowed _ s \<longleftrightarrow> True"

fun stream_run :: "mpsc \<Rightarrow> stream_op list \<Rightarrow> mcap_stream \<Rightarrow> (outcome list \<times> mcap_stream) option" where
  "stream_run C [] s = Some ([], s)"
| "stream_run C (e # es) s =
     (if stream_allowed e s then
        (case stream_exec C e s of (r, s') \<Rightarrow>
           map_option (\<lambda>(rs, t). (r # rs, t)) (stream_run C es s'))
      else None)"

text \<open>The bytes that the MCAP writer wrote, those that the stream yielded and those given up.\<close>

fun bytes_in :: "stream_op \<Rightarrow> u8 list" where
  "bytes_in (Write_bytes bs) = bs"
| "bytes_in (Close_handle tail) = tail"
| "bytes_in (Drop_handle tail) = tail"
| "bytes_in _ = []"

fun bytes_out :: "outcome \<Rightarrow> u8 list" where
  "bytes_out (Yield bs) = bs"
| "bytes_out _ = []"

fun bytes_lost :: "outcome \<Rightarrow> u8 list" where
  "bytes_lost (Gave_up bs) = bs"
| "bytes_lost (Io_failed bs) = bs"
| "bytes_lost _ = []"

text \<open>The bytes on their way.\<close>

definition in_transit :: "mcap_stream \<Rightarrow> u8 list" where
  "in_transit s = concat (ms_queue s) @ (case ms_pending s of None \<Rightarrow> [] | Some bs \<Rightarrow> bs) @ sb_buffer (ms_buffer s)"

definition stream_ok :: "mcap_stream \<Rightarrow> bool" where
  "stream_ok s \<longleftrightarrow> length (ms_queue s) \<le> CHANNEL_CAPACITY \<and> ms_pending s \<noteq> Some []
     \<and> (ms_phase s \<noteq> Open \<longrightarrow> sb_buffer (ms_buffer s) = []) \<and> (ms_phase s = Closing \<longrightarrow> ms_pending s \<noteq> None)
     \<and> (ms_phase s = Gone \<longrightarrow> ms_pending s = None)"

section \<open>Lemmas\<close>

lemmas stream_defs = flush_begin_def send_poll_def close_begin_def drop_handle_def poll_next_def settle_def
  shared_split_def shared_write_def in_transit_def stream_ok_def CHANNEL_CAPACITY_def Let_def

lemma mpsc_send:
  "mpsc_laws C \<Longrightarrow> mpsc_try_send C CHANNEL_CAPACITY alive q m =
     (if \<not> alive then Inl (Disconnected m) else if q = [] then Inr [m] else Inl (Full m))"
  by (simp add: mpsc_laws_def CHANNEL_CAPACITY_def)

lemma mpsc_receive: "mpsc_laws C \<Longrightarrow> mpsc_recv C q = (case q of [] \<Rightarrow> None | x # r \<Rightarrow> Some (x, r))"
  by (simp add: mpsc_laws_def)

text \<open>The account of one step. A stream is over when its sender is gone and nothing is on its way.\<close>

definition stream_over :: "mcap_stream \<Rightarrow> bool" where
  "stream_over s \<longleftrightarrow> ms_phase s = Gone \<and> in_transit s = []"

definition accounted :: "stream_op \<Rightarrow> outcome \<Rightarrow> mcap_stream \<Rightarrow> mcap_stream \<Rightarrow> bool" where
  "accounted e r s s' \<longleftrightarrow> stream_ok s'
     \<and> sb_position (ms_buffer s') = sb_position (ms_buffer s) + of_nat (length (bytes_in e))
     \<and> (bytes_lost r = [] \<longrightarrow> bytes_out r @ in_transit s' = in_transit s @ bytes_in e)
     \<and> (stream_over s \<or> r = End_of_stream \<longrightarrow> stream_over s')"

lemmas accounted_defs = accounted_def stream_over_def stream_defs

lemma write_accounted:
  "stream_ok s \<Longrightarrow> ms_phase s = Open \<Longrightarrow>
   accounted (Write_bytes bs) Done s (s \<lparr> ms_buffer := snd (shared_write bs (ms_buffer s)) \<rparr>)"
  by (auto simp: accounted_defs)

lemma flush_accounted:
  "stream_ok s \<Longrightarrow> ms_phase s = Open \<Longrightarrow> ms_pending s = None \<Longrightarrow> flush_begin s = (r, s') \<Longrightarrow> accounted Flush r s s'"
  by (auto simp: accounted_defs split: if_splits)

lemma settle_simps [simp]:
  "ms_buffer (settle s) = ms_buffer s" "ms_pending (settle s) = ms_pending s" "ms_queue (settle s) = ms_queue s"
  "in_transit (settle s) = in_transit s" "ms_phase s = Gone \<Longrightarrow> ms_phase (settle s) = Gone"
  by (simp_all add: settle_def in_transit_def)

lemma stream_ok_settle:
  "length (ms_queue s) \<le> 1 \<Longrightarrow> ms_pending s = None \<Longrightarrow> (ms_phase s \<noteq> Open \<longrightarrow> sb_buffer (ms_buffer s) = []) \<Longrightarrow> stream_ok (settle s)"
  by (simp add: settle_def stream_ok_def CHANNEL_CAPACITY_def)

lemma stream_okD:
  "stream_ok s \<Longrightarrow> length (ms_queue s) \<le> 1 \<and> (ms_phase s \<noteq> Open \<longrightarrow> sb_buffer (ms_buffer s) = [])"
  by (simp add: stream_ok_def CHANNEL_CAPACITY_def)

lemma over_not_pending: "stream_over s \<Longrightarrow> stream_ok s \<Longrightarrow> ms_pending s = None"
  by (simp add: stream_over_def stream_ok_def)

lemma send_accounted:
  assumes C: "mpsc_laws C" and s: "stream_ok s" "send_poll C s = (r, s')"
  shows "accounted Send_poll r s s'"
proof (cases "ms_pending s")
  case None
  then show ?thesis using s by (auto simp: accounted_def send_poll_def)
next
  case (Some bs)
  then have n: "\<not> stream_over s" using over_not_pending s(1) by auto
  consider "\<not> ms_receiver s" | "ms_receiver s" "ms_queue s = []" | "ms_receiver s" "ms_queue s \<noteq> []" by blast
  then show ?thesis
  proof cases
    case 1
    then have "r = Io_failed bs" "s' = settle (s \<lparr> ms_pending := None \<rparr>)" using Some s(2) by (auto simp: send_poll_def mpsc_send [OF C])
    then show ?thesis using stream_okD [OF s(1)] Some n by (auto simp: accounted_def in_transit_def intro!: stream_ok_settle)
  next
    case 2
    then have "r = Done" "s' = settle (s \<lparr> ms_queue := [bs], ms_pending := None \<rparr>)"
      using Some s(2) by (auto simp: send_poll_def mpsc_send [OF C])
    then show ?thesis using stream_okD [OF s(1)] Some n 2
      by (auto simp: accounted_def in_transit_def intro!: stream_ok_settle)
  next
    case 3
    then show ?thesis using Some s by (auto simp: send_poll_def mpsc_send [OF C] accounted_def)
  qed
qed

lemma cancel_accounted:
  "stream_ok s \<Longrightarrow> stream_exec C Cancel s = (r, s') \<Longrightarrow> accounted Cancel r s s'"
proof (cases "ms_pending s")
  case (Some bs)
  assume s: "stream_ok s" "stream_exec C Cancel s = (r, s')"
  then have "\<not> stream_over s" using over_not_pending Some by auto
  then show ?thesis using s(2) stream_okD [OF s(1)] Some by (auto simp: accounted_def in_transit_def intro!: stream_ok_settle)
qed (auto simp: accounted_def)

lemma close_accounted:
  assumes "stream_ok s" "ms_phase s = Open" "ms_pending s = None" "close_begin tail s = (r, s')"
  shows "accounted (Close_handle tail) r s s'"
proof (cases "sb_buffer (ms_buffer s) @ tail = []")
  case True
  then show ?thesis using assms by (simp add: accounted_defs) auto
next
  case False
  then show ?thesis using assms by (simp add: accounted_defs) auto
qed

lemma drop_accounted:
  assumes C: "mpsc_laws C" and s: "stream_ok s" "ms_phase s = Open" "ms_pending s = None" "drop_handle C tail s = (r, s')"
  shows "accounted (Drop_handle tail) r s s'"
proof (cases "sb_buffer (ms_buffer s) @ tail = []")
  case True
  then show ?thesis using s by (simp add: accounted_defs) auto
next
  case False
  let ?bs = "sb_buffer (ms_buffer s) @ tail"
  let ?s = "s \<lparr> ms_buffer := \<lparr> sb_buffer = [], sb_position = sb_position (ms_buffer s) + of_nat (length tail) \<rparr>, ms_phase := Gone \<rparr>"
  have "(r, s') = (if ms_receiver s \<and> ms_queue s = [] then (Done, ?s \<lparr> ms_queue := [?bs] \<rparr>) else (Gave_up ?bs, ?s))"
    using s(4) False by (simp add: drop_handle_def shared_split_def shared_write_def Let_def mpsc_send [OF C] split: if_splits)
  then show ?thesis using s(1-3) False by (auto simp: accounted_defs split: if_splits)
qed

lemma poll_accounted:
  assumes C: "mpsc_laws C" and s: "stream_ok s" "poll_next C s = (r, s')"
  shows "accounted Poll_next r s s'"
proof (cases "ms_queue s")
  case Nil
  then have "s' = s" "r = (if ms_phase s = Gone then End_of_stream else Waiting)"
    using s(2) by (auto simp: poll_next_def mpsc_receive [OF C])
  then show ?thesis using s(1) Nil by (auto simp: accounted_def stream_over_def stream_ok_def in_transit_def)
next
  case (Cons bs q)
  then show ?thesis using s by (auto simp: poll_next_def mpsc_receive [OF C] accounted_defs)
qed

lemma stream_step:
  assumes "mpsc_laws C" "stream_ok s" "stream_allowed e s" "stream_exec C e s = (r, s')"
  shows "accounted e r s s'"
proof (cases e)
  case Drop_stream
  then show ?thesis using assms by (auto simp: accounted_def stream_over_def stream_ok_def in_transit_def)
qed (use assms in \<open>auto simp: write_accounted flush_accounted send_accounted close_accounted drop_accounted poll_accounted
    intro: cancel_accounted\<close>)

lemma stream_run_keeps_ok:
  assumes C: "mpsc_laws C"
  shows "stream_ok s \<Longrightarrow> stream_run C es s = Some (rs, s') \<Longrightarrow> stream_ok s'"
proof (induction es arbitrary: s rs)
  case (Cons e es)
  obtain r s1 where e: "stream_exec C e s = (r, s1)" "stream_allowed e s"
    using Cons.prems(2) by (auto split: if_splits prod.splits)
  then have "stream_ok s1" using stream_step [OF C Cons.prems(1) e(2,1)] by (simp add: accounted_def)
  then show ?case using Cons e by auto
qed simp

lemma stream_run_ok:
  assumes C: "mpsc_laws C"
  shows "stream_ok s \<Longrightarrow> stream_run C es s = Some (rs, s') \<Longrightarrow>
    sb_position (ms_buffer s') = sb_position (ms_buffer s) + of_nat (length (concat (map bytes_in es)))
    \<and> (concat (map bytes_lost rs) = [] \<longrightarrow>
        concat (map bytes_out rs) @ in_transit s' = in_transit s @ concat (map bytes_in es))
    \<and> (stream_over s \<or> End_of_stream \<in> set rs \<longrightarrow> stream_over s')"
proof (induction es arbitrary: s rs)
  case (Cons e es)
  obtain r s1 where e: "stream_exec C e s = (r, s1)" "stream_allowed e s"
    using Cons.prems(2) by (auto split: if_splits prod.splits)
  then obtain rs1 where rs: "stream_run C es s1 = Some (rs1, s')" "rs = r # rs1" using Cons.prems(2) by auto
  have st: "accounted e r s s1" by (rule stream_step [OF C Cons.prems(1) e(2,1)])
  then have ok: "stream_ok s1" by (simp add: accounted_def)
  show ?case using Cons.IH [OF ok rs(1)] rs(2) st by (auto simp: accounted_def algebra_simps)
qed simp

text \<open>C17: whatever the writer, the handle and the reader do in whatever order, bytes are never
  reordered, repeated or invented: what the stream yielded, followed by what is in the channel, in
  a waiting flush and in the buffer, is what the MCAP writer wrote, as long as no chunk was given
  up; that happens only when the reader is gone, a waiting flush is abandoned, or the handle is
  dropped while the channel is full. The position that the writer sees counts the bytes it wrote,
  and a stream that has ended has yielded all of them.\<close>

theorem mcap_stream_lossless:
  assumes "mpsc_laws C" "stream_run C es create_mcap_stream = Some (rs, s)" "concat (map bytes_lost rs) = []"
  shows "concat (map bytes_out rs) @ in_transit s = concat (map bytes_in es)
    \<and> shared_seek (Current 0) (ms_buffer s) = Inr (of_nat (length (concat (map bytes_in es))))
    \<and> (End_of_stream \<in> set rs \<longrightarrow> concat (map bytes_out rs) = concat (map bytes_in es))"
proof -
  have "stream_ok create_mcap_stream" "in_transit create_mcap_stream = []" "sb_position (ms_buffer create_mcap_stream) = 0"
    by (simp_all add: create_mcap_stream_def shared_buffer_default_def stream_ok_def in_transit_def)
  then show ?thesis using stream_run_ok [OF assms(1) _ assms(2)] assms(3)
    by (auto simp: shared_seek_def stream_over_def)
qed

definition std_mpsc :: mpsc where
  "std_mpsc = \<lparr>
     mpsc_try_send = (\<lambda>cap alive q m. if \<not> alive then Inl (Disconnected m) else if length q < cap then Inr (q @ [m]) else Inl (Full m)),
     mpsc_recv = (\<lambda>q. case q of [] \<Rightarrow> None | x # r \<Rightarrow> Some (x, r)) \<rparr>"

theorem mcap_stream_lossless_witness:
  "\<exists>rs s. stream_run std_mpsc [Write_bytes [1, 2], Flush, Write_bytes [3], Send_poll, Poll_next, Close_handle [4], Send_poll,
       Poll_next, Poll_next] create_mcap_stream = Some (rs, s)
     \<and> End_of_stream \<in> set rs \<and> concat (map bytes_out rs) = [1, 2, 3, 4]"
proof -
  let ?es = "[Write_bytes [1, 2], Flush, Write_bytes [3], Send_poll, Poll_next, Close_handle [4], Send_poll, Poll_next, Poll_next]"
  have C: "mpsc_laws std_mpsc" by (simp add: mpsc_laws_def std_mpsc_def)
  obtain rs s where run: "stream_run std_mpsc ?es create_mcap_stream = Some (rs, s)"
    and fin: "End_of_stream \<in> set rs" "concat (map bytes_lost rs) = []"
    by (simp add: create_mcap_stream_def shared_buffer_default_def stream_defs std_mpsc_def)
  then show ?thesis using mcap_stream_lossless [OF C run fin(2)] by auto
qed

section \<open>Delivery\<close>

text \<open>After the handle was closed, a schedule that polls the last flush and the stream; the states it goes through and what
  the calls return.\<close>

primrec state_at :: "mpsc \<Rightarrow> (nat \<Rightarrow> stream_op) \<Rightarrow> mcap_stream \<Rightarrow> nat \<Rightarrow> mcap_stream" where
  "state_at C sched s 0 = s"
| "state_at C sched s (Suc n) = snd (stream_exec C (sched n) (state_at C sched s n))"

definition outcome_at :: "mpsc \<Rightarrow> (nat \<Rightarrow> stream_op) \<Rightarrow> mcap_stream \<Rightarrow> nat \<Rightarrow> outcome" where
  "outcome_at C sched s n = fst (stream_exec C (sched n) (state_at C sched s n))"

definition fair_polling :: "(nat \<Rightarrow> stream_op) \<Rightarrow> bool" where
  "fair_polling sched \<longleftrightarrow> (\<forall>n. sched n \<in> {Send_poll, Poll_next})
     \<and> (\<forall>n. \<exists>m \<ge> n. sched m = Send_poll) \<and> (\<forall>n. \<exists>m \<ge> n. sched m = Poll_next)"

definition stream_closed :: "mcap_stream \<Rightarrow> bool" where
  "stream_closed s \<longleftrightarrow> stream_ok s \<and> ms_phase s \<noteq> Open \<and> ms_receiver s"

definition to_deliver :: "mcap_stream \<Rightarrow> nat" where
  "to_deliver s = (if ms_pending s = None then 0 else 2) + length (ms_queue s)"

text \<open>The call that brings a closed stream forward; the other one does nothing.\<close>

definition useful :: "mcap_stream \<Rightarrow> stream_op" where
  "useful s = (if ms_queue s = [] \<and> ms_pending s \<noteq> None then Send_poll else Poll_next)"

lemma closed_step:
  assumes C: "mpsc_laws C" and s: "stream_closed s" "e \<in> {Send_poll, Poll_next}" "stream_exec C e s = (r, s')"
  shows "stream_closed s'" "bytes_out r @ in_transit s' = in_transit s" "e \<noteq> useful s \<longrightarrow> s' = s"
    "e = useful s \<longrightarrow> (if to_deliver s = 0 then r = End_of_stream else to_deliver s' < to_deliver s)"
proof -
  have ok: "stream_ok s" "ms_phase s \<noteq> Open" "ms_receiver s" using s(1) by (simp_all add: stream_closed_def)
  have "accounted e r s s'" using s ok by (intro stream_step [OF C]) auto
  moreover have "bytes_lost r = []" using s(2,3) ok
    by (auto simp: send_poll_def poll_next_def mpsc_send [OF C] mpsc_receive [OF C] split: option.splits list.splits if_splits)
  moreover have "bytes_in e = []" using s(2) by auto
  ultimately have acc: "bytes_out r @ in_transit s' = in_transit s" and ok': "stream_ok s'" by (simp_all add: accounted_def)
  show "bytes_out r @ in_transit s' = in_transit s" by (rule acc)
  show "stream_closed s'" using ok' ok s(2,3)
    by (auto simp: stream_closed_def send_poll_def poll_next_def settle_def mpsc_send [OF C] mpsc_receive [OF C]
        split: option.splits list.splits if_splits)
  show "e \<noteq> useful s \<longrightarrow> s' = s" using ok s(2,3)
    by (auto simp: useful_def send_poll_def poll_next_def mpsc_send [OF C] mpsc_receive [OF C] split: option.splits list.splits if_splits)
  show "e = useful s \<longrightarrow> (if to_deliver s = 0 then r = End_of_stream else to_deliver s' < to_deliver s)" using ok s(2,3)
    by (cases "ms_queue s"; cases "ms_pending s"; cases "ms_phase s")
      (auto simp: useful_def to_deliver_def send_poll_def poll_next_def settle_def stream_ok_def mpsc_send [OF C] mpsc_receive [OF C])
qed

lemma fair_useful: "fair_polling sched \<Longrightarrow> \<exists>m \<ge> n. sched m = useful s"
  by (auto simp: fair_polling_def useful_def)

text \<open>Until the call that matters is made the state stays as it is.\<close>

lemma waits_for_useful:
  assumes C: "mpsc_laws C" and fair: "fair_polling sched" and closed: "stream_closed (state_at C sched s k)"
  shows "\<exists>m \<ge> k. sched m = useful (state_at C sched s k) \<and> (\<forall>j. k \<le> j \<and> j \<le> m \<longrightarrow> state_at C sched s j = state_at C sched s k)"
proof -
  let ?t = "state_at C sched s k"
  define m where "m = (LEAST m. k \<le> m \<and> sched m = useful ?t)"
  have m: "k \<le> m" "sched m = useful ?t"
    using LeastI_ex [of "\<lambda>m. k \<le> m \<and> sched m = useful ?t"] fair_useful [OF fair, of k ?t] by (auto simp: m_def)
  have before: "sched j \<noteq> useful ?t" if "k \<le> j" "j < m" for j
    using not_less_Least [of j "\<lambda>m. k \<le> m \<and> sched m = useful ?t"] that by (auto simp: m_def)
  have "state_at C sched s (k + i) = ?t" if "k + i \<le> m" for i
    using that
  proof (induction i)
    case (Suc i)
    then have eq: "state_at C sched s (k + i) = ?t" by simp
    have "sched (k + i) \<in> {Send_poll, Poll_next}" using fair by (simp add: fair_polling_def)
    then have "snd (stream_exec C (sched (k + i)) ?t) = ?t"
      using closed_step(3) [OF C closed, of "sched (k + i)"] before [of "k + i"] Suc.prems by (metis Suc_le_lessD add_Suc_right le_add1 prod.collapse)
    then show ?case using eq by simp
  qed simp
  then show ?thesis using m by (metis le_Suc_ex)
qed

lemma closed_forever:
  assumes "mpsc_laws C" "fair_polling sched" "stream_closed s"
  shows "stream_closed (state_at C sched s n)
    \<and> concat (map (\<lambda>i. bytes_out (outcome_at C sched s i)) [0..<n]) @ in_transit (state_at C sched s n) = in_transit s"
proof (induction n)
  case (Suc n)
  have "sched n \<in> {Send_poll, Poll_next}" using assms(2) by (simp add: fair_polling_def)
  from closed_step(1,2) [OF assms(1) _ this surjective_pairing, of "state_at C sched s n"] Suc show ?case
    by (simp add: outcome_at_def)
qed (use assms(3) in simp)

lemma end_is_empty:
  assumes "mpsc_laws C" "stream_ok s" "e \<in> {Send_poll, Poll_next}" "fst (stream_exec C e s) = End_of_stream"
  shows "in_transit s = []"
  using assms(2-4)
  by (auto simp: send_poll_def poll_next_def in_transit_def stream_ok_def mpsc_send [OF assms(1)] mpsc_receive [OF assms(1)]
      split: option.splits list.splits if_splits)

lemma eventually_ends:
  assumes C: "mpsc_laws C" and fair: "fair_polling sched" and closed: "stream_closed s"
  shows "\<exists>n \<ge> k. outcome_at C sched s n = End_of_stream"
proof (induction "to_deliver (state_at C sched s k)" arbitrary: k rule: less_induct)
  case less
  let ?t = "state_at C sched s k"
  have t: "stream_closed ?t" using closed_forever [OF assms] by simp
  obtain m where m: "m \<ge> k" "sched m = useful ?t" "state_at C sched s m = ?t"
    using waits_for_useful [OF C fair t] by blast
  have "sched m \<in> {Send_poll, Poll_next}" using fair by (simp add: fair_polling_def)
  note step = closed_step(4) [OF C t this surjective_pairing]
  show ?case
  proof (cases "to_deliver ?t = 0")
    case True
    then have "outcome_at C sched s m = End_of_stream" using step m by (simp add: outcome_at_def)
    then show ?thesis using m(1) by blast
  next
    case False
    then have "to_deliver (state_at C sched s (Suc m)) < to_deliver ?t" using step m by simp
    from less.hyps [OF this] show ?thesis using m(1) by (meson Suc_leD le_trans)
  qed
qed

text \<open>C18: A recording that is closed while its reader goes on reading is delivered completely: however the polls of the last
  flush and of the stream are interleaved, as long as neither is neglected for ever, the stream ends, and until then it
  has yielded every byte that was still on its way.\<close>

theorem mcap_stream_delivers:
  assumes "mpsc_laws C" "stream_run C es create_mcap_stream = Some (rs, s)" "ms_phase s \<noteq> Open" "ms_receiver s" "fair_polling sched"
  shows "\<exists>n. outcome_at C sched s n = End_of_stream
    \<and> concat (map (\<lambda>i. bytes_out (outcome_at C sched s i)) [0..<n]) = in_transit s"
proof -
  have "stream_ok create_mcap_stream"
    by (simp add: create_mcap_stream_def shared_buffer_default_def stream_ok_def)
  from stream_run_keeps_ok [OF assms(1) this assms(2)] have s: "stream_closed s" using assms(3,4) by (simp add: stream_closed_def)
  obtain n where n: "outcome_at C sched s n = End_of_stream" using eventually_ends [OF assms(1,5) s] by blast
  then have "in_transit (state_at C sched s n) = []"
    using closed_forever [OF assms(1,5) s, of n] assms(5) end_is_empty [OF assms(1)]
    by (auto simp: stream_closed_def outcome_at_def fair_polling_def)
  then show ?thesis using n closed_forever [OF assms(1,5) s, of n] by auto
qed

theorem mcap_stream_delivers_witness:
  "\<exists>rs s n. stream_run std_mpsc [Write_bytes [1, 2], Flush, Send_poll, Write_bytes [3], Close_handle [4]] create_mcap_stream = Some (rs, s)
    \<and> outcome_at std_mpsc (\<lambda>i. if even i then Send_poll else Poll_next) s n = End_of_stream
    \<and> concat (map (\<lambda>i. bytes_out (outcome_at std_mpsc (\<lambda>i. if even i then Send_poll else Poll_next) s i)) [0..<n]) = [1, 2, 3, 4]"
proof -
  have C: "mpsc_laws std_mpsc" by (simp add: mpsc_laws_def std_mpsc_def)
  obtain rs s where run: "stream_run std_mpsc [Write_bytes [1, 2], Flush, Send_poll, Write_bytes [3], Close_handle [4]] create_mcap_stream = Some (rs, s)"
    and s: "ms_phase s \<noteq> Open" "ms_receiver s" "in_transit s = [1, 2, 3, 4]"
    by (simp add: create_mcap_stream_def shared_buffer_default_def stream_defs std_mpsc_def)
  have "\<exists>m \<ge> n. (if even m then Send_poll else Poll_next) = Send_poll" for n :: nat by (rule exI [of _ "2 * n"]) simp
  moreover have "\<exists>m \<ge> n. (if even m then Send_poll else Poll_next) = Poll_next" for n :: nat by (rule exI [of _ "2 * n + 1"]) simp
  ultimately have "fair_polling (\<lambda>i. if even i then Send_poll else Poll_next)" by (simp add: fair_polling_def)
  from mcap_stream_delivers [OF C run s(1,2) this] show ?thesis using run s(3) by auto
qed

end
