(* ===== verification/C_Arena.thy ===== *)
theory C_Arena
  imports Rust_Prelude
begin

text \<open>
  The memory arena of the C bindings (\<open>src/c/src/arena.rs\<close>): a fixed buffer from which arrays
  are allocated one after the other, with a list of heap blocks for what does not fit. Addresses
  and sizes are 64-bit words and wrap around as \<open>usize\<close> does in a release build. A block of the
  global allocator is named by its place in the list of blocks.
\<close>

section \<open>The arena\<close>

definition ARENA_SIZE :: u64 where "ARENA_SIZE = 128 * 1024"

text \<open>\<open>size_of\<close> and \<open>align_of\<close> of an element type.\<close>

record elem_type =
  size_of :: u64
  align_of :: u64

record Layout =
  layout_size :: nat
  layout_align :: u64

record Arena =
  arena_base :: u64
  arena_offset :: u64
  arena_overflow :: "Layout list"

definition arena_new :: "u64 \<Rightarrow> Arena" where
  "arena_new base = \<lparr> arena_base = base, arena_offset = 0, arena_overflow = [] \<rparr>"

datatype arena_ptr = Inline u64 | On_heap nat

text \<open>\<open>usize::next_multiple_of\<close> for a divisor that is not zero.\<close>

definition next_multiple_of :: "u64 \<Rightarrow> u64 \<Rightarrow> u64" where
  "next_multiple_of x a = (if x mod a = 0 then x else x + (a - x mod a))"

text \<open>\<open>Layout::array\<close>; \<open>None\<close> is the panic of \<open>unwrap\<close> for a size above \<open>isize::MAX\<close>, rounded
  down to the alignment.\<close>

definition layout_array :: "elem_type \<Rightarrow> u64 \<Rightarrow> Layout may_panic" where
  "layout_array t n =
     (if unat n * unat (size_of t) \<le> 2 ^ 63 - unat (align_of t)
      then Some \<lparr> layout_size = unat n * unat (size_of t), layout_align = align_of t \<rparr> else None)"

definition alloc :: "elem_type \<Rightarrow> u64 \<Rightarrow> Arena \<Rightarrow> (arena_ptr \<times> Arena) may_panic" where
  "alloc t n a =
     (if n = 0 then None
      else
        let bytes_needed = n * size_of t;
            aligned_offset = next_multiple_of (arena_base a + arena_offset a) (align_of t) - arena_base a in
        if aligned_offset + bytes_needed > ARENA_SIZE then do {
          layout \<leftarrow> layout_array t n;
          Some (On_heap (length (arena_overflow a)), a \<lparr> arena_overflow := arena_overflow a @ [layout] \<rparr>)
        }
        else Some (Inline (arena_base a + aligned_offset), a \<lparr> arena_offset := aligned_offset + bytes_needed \<rparr>))"

text \<open>\<open>Arena::map\<close>: \<open>conv\<close> is \<open>borrow_to_native\<close> of the element type, which may allocate from the
  arena itself. The array is allocated before its elements are converted, and an error ends the
  loop.\<close>

fun map_elems ::
  "('a \<Rightarrow> Arena \<Rightarrow> (('b, 'e) result \<times> Arena) may_panic) \<Rightarrow> 'a list \<Rightarrow> Arena \<Rightarrow> (('b list, 'e) result \<times> Arena) may_panic" where
  "map_elems conv [] a = Some (Inr [], a)"
| "map_elems conv (x # xs) a = do {
     (r, a1) \<leftarrow> conv x a;
     (case r of
        Inl e \<Rightarrow> Some (Inl e, a1)
      | Inr y \<Rightarrow> do {
          (rs, a2) \<leftarrow> map_elems conv xs a1;
          Some (map_sum id ((#) y) rs, a2)
        })
   }"

definition arena_map ::
  "('a \<Rightarrow> Arena \<Rightarrow> (('b, 'e) result \<times> Arena) may_panic) \<Rightarrow> elem_type \<Rightarrow> 'a list \<Rightarrow> Arena
    \<Rightarrow> ((arena_ptr option \<times> 'b list, 'e) result \<times> Arena) may_panic" where
  "arena_map conv t src a =
     (if src = [] then Some (Inr (None, []), a)
      else do {
        (p, a1) \<leftarrow> alloc t (of_nat (length src)) a;
        (r, a2) \<leftarrow> map_elems conv src a1;
        Some (map_sum id (Pair (Some p)) r, a2)
      })"

text \<open>\<open>Drop\<close>: the blocks that are given back to the allocator.\<close>

definition arena_drop :: "Arena \<Rightarrow> Layout list \<times> Arena" where
  "arena_drop a = (arena_overflow a, a \<lparr> arena_overflow := [] \<rparr>)"

section \<open>Sequences of allocations\<close>

fun alloc_run :: "(elem_type \<times> u64) list \<Rightarrow> Arena \<Rightarrow> (arena_ptr list \<times> Arena) may_panic" where
  "alloc_run [] a = Some ([], a)"
| "alloc_run ((t, n) # rs) a = do {
     (p, a1) \<leftarrow> alloc t n a;
     (ps, a2) \<leftarrow> alloc_run rs a1;
     Some (p # ps, a2)
   }"

text \<open>A request that a caller can make: the type has an alignment that divides its size, and the
  array is not larger than the address space.\<close>

fun request_ok :: "elem_type \<times> u64 \<Rightarrow> bool" where
  "request_ok (t, n) \<longleftrightarrow> n \<noteq> 0 \<and> 0 < align_of t \<and> align_of t \<le> 4096
     \<and> unat n * unat (size_of t) \<le> 2 ^ 63 - unat (align_of t)"

text \<open>The buffer does not touch the end of the address space.\<close>

definition buffer_ok :: "u64 \<Rightarrow> bool" where
  "buffer_ok base \<longleftrightarrow> unat base + unat ARENA_SIZE + 4096 \<le> 2 ^ 64"

text \<open>The bytes of an allocation in the buffer.\<close>

fun region :: "elem_type \<times> u64 \<Rightarrow> arena_ptr \<Rightarrow> nat set" where
  "region (t, n) (Inline p) = {unat p ..< unat p + unat n * unat (size_of t)}"
| "region (t, n) (On_heap _) = {}"

definition arena_ok :: "Arena \<Rightarrow> bool" where
  "arena_ok a \<longleftrightarrow> buffer_ok (arena_base a) \<and> arena_offset a \<le> ARENA_SIZE"

section \<open>Lemmas\<close>

lemma unat_add_fits: "unat x + unat y < 2 ^ 64 \<Longrightarrow> unat (x + y) = unat x + unat y" for x y :: u64
  by (simp add: unat_word_ariths)

lemma next_multiple_of_unat:
  assumes "0 < a" "unat x + unat a \<le> 2 ^ 64"
  shows "unat x \<le> unat (next_multiple_of x a)" "unat (next_multiple_of x a) < unat x + unat a"
    "unat a dvd unat (next_multiple_of x a)"
proof -
  have a: "0 < unat a" using assms(1) by (simp add: word_less_nat_alt)
  have m: "unat (x mod a) = unat x mod unat a" by (simp add: unat_mod_distrib)
  have "unat x \<le> unat (next_multiple_of x a) \<and> unat (next_multiple_of x a) < unat x + unat a
    \<and> unat a dvd unat (next_multiple_of x a)"
  proof (cases "x mod a = 0")
    case True
    then have "unat x mod unat a = 0" using m by simp
    then show ?thesis using a True by (auto simp: next_multiple_of_def)
  next
    case False
    then have pos: "0 < unat x mod unat a" using m by (metis bot_nat_0.not_eq_extremum unat_eq_zero)
    have lt: "unat x mod unat a < unat a" using a by simp
    have sub: "unat (a - x mod a) = unat a - unat x mod unat a"
      using lt m by (simp add: unat_sub word_le_nat_alt)
    have n: "unat (next_multiple_of x a) = unat x + (unat a - unat x mod unat a)"
      using False assms(2) pos sub lt by (simp add: next_multiple_of_def unat_add_fits)
    have "unat x + (unat a - unat x mod unat a) = unat a * (unat x div unat a) + unat a"
      using lt mult_div_mod_eq [of "unat a" "unat x"] by linarith
    then have "unat a dvd unat (next_multiple_of x a)" unfolding n by simp
    then show ?thesis using n pos lt by simp
  qed
  then show "unat x \<le> unat (next_multiple_of x a)" "unat (next_multiple_of x a) < unat x + unat a"
    "unat a dvd unat (next_multiple_of x a)" by simp_all
qed

text \<open>An allocation in the buffer begins after all earlier ones and ends before its end.\<close>

lemma alloc_ok:
  assumes ok: "arena_ok a" and r: "request_ok (t, n)"
  shows "\<exists>p a'. alloc t n a = Some (p, a') \<and> arena_ok a' \<and> arena_base a' = arena_base a \<and> arena_offset a \<le> arena_offset a'
    \<and> (case p of
         Inline q \<Rightarrow> unat (align_of t) dvd unat q \<and> arena_overflow a' = arena_overflow a
           \<and> unat (arena_base a) + unat (arena_offset a) \<le> unat q
           \<and> unat q + unat n * unat (size_of t) = unat (arena_base a) + unat (arena_offset a')
       | On_heap k \<Rightarrow> k = length (arena_overflow a) \<and> arena_overflow a' = arena_overflow a @
           [\<lparr> layout_size = unat n * unat (size_of t), layout_align = align_of t \<rparr>])"
proof -
  let ?base = "arena_base a" and ?off = "arena_offset a" and ?al = "align_of t" and ?need = "n * size_of t"
  let ?next = "next_multiple_of (?base + ?off) ?al"
  have S: "unat ARENA_SIZE = 131072" by (simp add: ARENA_SIZE_def)
  have b: "unat ?base + 131072 + 4096 \<le> 2 ^ 64" "unat ?off \<le> 131072"
    using ok S by (auto simp: arena_ok_def buffer_ok_def word_le_nat_alt)
  have al: "0 < ?al" "unat ?al \<le> 4096" using r by (auto simp: word_le_nat_alt)
  have need: "unat ?need = unat n * unat (size_of t)" "unat n * unat (size_of t) \<le> 2 ^ 63"
    using r by (auto simp: unat_word_ariths)
  have x: "unat (?base + ?off) = unat ?base + unat ?off" using b by (intro unat_add_fits) simp
  note nx = next_multiple_of_unat [OF al(1), of "?base + ?off"]
  have fits: "unat (?base + ?off) + unat ?al \<le> 2 ^ 64" using x b al by simp
  note nx = nx [OF fits]
  have ao: "unat (?next - ?base) = unat ?next - unat ?base" using nx(1) x by (intro unat_sub) (simp add: word_le_nat_alt)
  have sum: "unat (?next - ?base + ?need) = unat ?next - unat ?base + unat n * unat (size_of t)"
    using ao need b nx(2) x al by (subst unat_add_fits) simp_all
  show ?thesis
  proof (cases "?next - ?base + ?need > ARENA_SIZE")
    case True
    then show ?thesis using r ok by (simp add: alloc_def Let_def layout_array_def arena_ok_def)
  next
    case False
    let ?stop = "?next - ?base + ?need"
    have "?base + (?next - ?base) = ?next" by simp
    then have "alloc t n a = Some (Inline ?next, a \<lparr> arena_offset := ?stop \<rparr>)"
      using False r unfolding alloc_def Let_def by simp
    moreover have "?off \<le> ?stop" using sum nx(1) x unfolding word_le_nat_alt by linarith
    moreover have "arena_ok (a \<lparr> arena_offset := ?stop \<rparr>)" using ok False unfolding arena_ok_def not_less by simp
    moreover have "unat ?next + unat n * unat (size_of t) = unat ?base + unat ?stop" using sum nx(1) x by linarith
    ultimately show ?thesis using nx x by auto
  qed
qed

text \<open>The heap blocks among the results, with the layout that each needs.\<close>

fun heap_blocks :: "(elem_type \<times> u64) list \<Rightarrow> arena_ptr list \<Rightarrow> (nat \<times> Layout) list" where
  "heap_blocks ((t, n) # rs) (On_heap k # ps) =
     (k, \<lparr> layout_size = unat n * unat (size_of t), layout_align = align_of t \<rparr>) # heap_blocks rs ps"
| "heap_blocks (r # rs) (Inline q # ps) = heap_blocks rs ps"
| "heap_blocks _ _ = []"

definition placed :: "elem_type \<times> u64 \<Rightarrow> arena_ptr \<Rightarrow> nat set \<Rightarrow> bool" where
  "placed r p within \<longleftrightarrow> region r p \<subseteq> within \<and> (\<forall>q. p = Inline q \<longrightarrow> unat (align_of (fst r)) dvd unat q)"

lemma placed_mono: "placed r p A \<Longrightarrow> A \<subseteq> B \<Longrightarrow> placed r p B"
  by (auto simp: placed_def)

lemma all_placed_mono:
  "list_all2 (\<lambda>r p. placed r p A) rs ps \<Longrightarrow> A \<subseteq> B \<Longrightarrow> list_all2 (\<lambda>r p. placed r p B) rs ps"
  by (erule list_all2_mono) (rule placed_mono)

lemma alloc_run_ok:
  "arena_ok a \<Longrightarrow> \<forall>r \<in> set rs. request_ok r \<Longrightarrow>
   \<exists>ps a'. alloc_run rs a = Some (ps, a') \<and> arena_ok a' \<and> arena_base a' = arena_base a \<and> arena_offset a \<le> arena_offset a'
    \<and> list_all2 (\<lambda>r p. placed r p {unat (arena_base a) + unat (arena_offset a) ..< unat (arena_base a) + unat (arena_offset a')}) rs ps
    \<and> (\<forall>j < length rs. \<forall>i < j. region (rs ! i) (ps ! i) \<inter> region (rs ! j) (ps ! j) = {})
    \<and> heap_blocks rs ps = zip [length (arena_overflow a) ..< length (arena_overflow a')]
        (drop (length (arena_overflow a)) (arena_overflow a'))
    \<and> take (length (arena_overflow a)) (arena_overflow a') = arena_overflow a"
proof (induction rs arbitrary: a)
  case (Cons r rs)
  obtain t n where r: "r = (t, n)" by (cases r)
  obtain p a1 where p: "alloc t n a = Some (p, a1)" "arena_ok a1" "arena_base a1 = arena_base a" "arena_offset a \<le> arena_offset a1"
    "case p of
       Inline q \<Rightarrow> unat (align_of t) dvd unat q \<and> arena_overflow a1 = arena_overflow a
         \<and> unat (arena_base a) + unat (arena_offset a) \<le> unat q
         \<and> unat q + unat n * unat (size_of t) = unat (arena_base a) + unat (arena_offset a1)
     | On_heap k \<Rightarrow> k = length (arena_overflow a) \<and> arena_overflow a1 = arena_overflow a @
         [\<lparr> layout_size = unat n * unat (size_of t), layout_align = align_of t \<rparr>]"
    using alloc_ok [OF Cons.prems(1), of t n] Cons.prems(2) r by auto
  obtain ps a' where ps: "alloc_run rs a1 = Some (ps, a')" "arena_ok a'" "arena_base a' = arena_base a1"
    "arena_offset a1 \<le> arena_offset a'"
    "list_all2 (\<lambda>r p. placed r p {unat (arena_base a) + unat (arena_offset a1) ..< unat (arena_base a) + unat (arena_offset a')}) rs ps"
    "\<forall>j < length rs. \<forall>i < j. region (rs ! i) (ps ! i) \<inter> region (rs ! j) (ps ! j) = {}"
    "heap_blocks rs ps = zip [length (arena_overflow a1) ..< length (arena_overflow a')]
        (drop (length (arena_overflow a1)) (arena_overflow a'))"
    "take (length (arena_overflow a1)) (arena_overflow a') = arena_overflow a1"
    using Cons.IH [OF p(2)] Cons.prems(2) p(3) by auto
  let ?lo = "unat (arena_base a) + unat (arena_offset a)" and ?mid = "unat (arena_base a) + unat (arena_offset a1)"
  let ?hi = "unat (arena_base a) + unat (arena_offset a')"
  have le: "?lo \<le> ?mid" "?mid \<le> ?hi" using p(4) ps(4) by (simp_all add: word_le_nat_alt)
  have here: "placed r p {?lo ..< ?mid}" using p(5) r by (auto simp: placed_def split: arena_ptr.splits)
  have "list_all2 (\<lambda>r p. placed r p {?lo ..< ?hi}) (r # rs) (p # ps)"
    using placed_mono [OF here, of "{?lo ..< ?hi}"] all_placed_mono [OF ps(5), of "{?lo ..< ?hi}"] le by simp
  moreover have "region ((r # rs) ! i) ((p # ps) ! i) \<inter> region ((r # rs) ! j) ((p # ps) ! j) = {}" if ij: "j < length (r # rs)" "i < j" for i j
  proof (cases i)
    case 0
    then obtain j' where j': "j = Suc j'" "j' < length rs" using ij 0 by (cases j) auto
    then have "region (rs ! j') (ps ! j') \<subseteq> {?mid ..< ?hi}" using ps(5) by (auto simp: list_all2_conv_all_nth placed_def)
    then show ?thesis using here 0 j' by (fastforce simp: placed_def)
  next
    case (Suc i')
    then show ?thesis using ps(6) ij by (cases j) auto
  qed
  moreover have "heap_blocks (r # rs) (p # ps) = zip [length (arena_overflow a) ..< length (arena_overflow a')]
        (drop (length (arena_overflow a)) (arena_overflow a'))
    \<and> take (length (arena_overflow a)) (arena_overflow a') = arena_overflow a"
  proof (cases p)
    case (Inline q)
    then show ?thesis using p(5) ps(7,8) by simp
  next
    case (On_heap k)
    let ?l = "\<lparr> layout_size = unat n * unat (size_of t), layout_align = align_of t \<rparr>"
    obtain ys where ys: "arena_overflow a' = arena_overflow a @ ?l # ys"
      using append_take_drop_id [of "length (arena_overflow a1)" "arena_overflow a'"] ps(8) p(5) On_heap
      by (simp add: that [of "drop (length (arena_overflow a1)) (arena_overflow a')"] flip: append.assoc)
    then show ?thesis using ps(7) p(5) On_heap r by (simp add: upt_conv_Cons del: upt_Suc)
  qed
  ultimately show ?case using p(1,3) ps(1-4) le r by (auto simp: word_le_nat_alt)
qed (simp add: list_all2_Nil)

text \<open>C28: arrays that an arena hands out of its buffer are aligned for their element type, lie
  within the buffer and do not overlap, whatever is allocated in whatever order; an array that
  does not fit gets a heap block of its own with the layout of the array, and dropping the arena
  gives exactly these blocks back.\<close>

theorem arena_alloc_safe:
  assumes "buffer_ok base" "\<forall>r \<in> set rs. request_ok r"
  shows "\<exists>ps a. alloc_run rs (arena_new base) = Some (ps, a)
    \<and> list_all2 (\<lambda>r p. placed r p {unat base ..< unat base + unat ARENA_SIZE}) rs ps
    \<and> (\<forall>j < length rs. \<forall>i < j. region (rs ! i) (ps ! i) \<inter> region (rs ! j) (ps ! j) = {})
    \<and> heap_blocks rs ps = zip [0 ..< length (fst (arena_drop a))] (fst (arena_drop a))
    \<and> fst (arena_drop (snd (arena_drop a))) = []"
proof -
  have "arena_ok (arena_new base)" using assms(1) by (simp add: arena_ok_def arena_new_def)
  from alloc_run_ok [OF this assms(2)] obtain ps a where a: "alloc_run rs (arena_new base) = Some (ps, a)" "arena_ok a"
    "list_all2 (\<lambda>r p. placed r p {unat base ..< unat base + unat (arena_offset a)}) rs ps"
    "\<forall>j < length rs. \<forall>i < j. region (rs ! i) (ps ! i) \<inter> region (rs ! j) (ps ! j) = {}"
    "heap_blocks rs ps = zip [0 ..< length (arena_overflow a)] (arena_overflow a)"
    by (auto simp: arena_new_def)
  have "unat (arena_offset a) \<le> unat ARENA_SIZE" using a(2) by (simp add: arena_ok_def word_le_nat_alt)
  then have "list_all2 (\<lambda>r p. placed r p {unat base ..< unat base + unat ARENA_SIZE}) rs ps"
    by (intro all_placed_mono [OF a(3)]) simp
  then show ?thesis using a(1,4,5) by (auto simp: arena_drop_def)
qed

theorem arena_alloc_safe_witness:
  "\<exists>ps a. alloc_run [(\<lparr> size_of = 1, align_of = 1 \<rparr>, 3), (\<lparr> size_of = 8, align_of = 8 \<rparr>, 2),
        (\<lparr> size_of = 1024, align_of = 8 \<rparr>, 1000)] (arena_new 4097) = Some (ps, a)
    \<and> ps = [Inline 4097, Inline 4104, On_heap 0] \<and> length (fst (arena_drop a)) = 1"
proof -
  let ?rs = "[(\<lparr> size_of = 1, align_of = 1 \<rparr>, 3), (\<lparr> size_of = 8, align_of = 8 \<rparr>, 2),
        (\<lparr> size_of = 1024, align_of = 8 \<rparr>, 1000)] :: (elem_type \<times> u64) list"
  have run: "alloc_run ?rs (arena_new 4097) = Some ([Inline 4097, Inline 4104, On_heap 0],
      \<lparr> arena_base = 4097, arena_offset = 23, arena_overflow = [\<lparr> layout_size = 1024000, layout_align = 8 \<rparr>] \<rparr>)"
    by (simp add: alloc_def arena_new_def next_multiple_of_def layout_array_def ARENA_SIZE_def)
  have "buffer_ok 4097" "\<forall>r \<in> set ?rs. request_ok r" by (simp_all add: buffer_ok_def ARENA_SIZE_def)
  from arena_alloc_safe [OF this] show ?thesis unfolding run by (simp add: arena_drop_def)
qed

end
