(* ===== verification/C_Error.thy ===== *)
theory C_Error
  imports Channels
begin

text \<open>
  What the functions of the C interface have in common: the error codes and the conversion of errors
  and results to them, and the strings and schemas of the caller (\<open>src/c/src/lib.rs\<close>).
\<close>

section \<open>Error codes\<close>

datatype c_error =
  C_Ok | C_Unspecified | C_ValueError | C_Utf8Error | C_SinkClosed | C_SchemaRequired | C_MessageEncodingRequired
| C_ServerAlreadyStarted | C_Bind | C_DuplicateService | C_MissingRequestEncoding | C_ServicesNotSupported
| C_ConnectionGraphNotSupported | C_IoError | C_McapError | C_EncodeError | C_BufferTooShort | C_Base64DecodeError

fun c_error_from :: "FoxgloveError \<Rightarrow> c_error" where
  "c_error_from (ValueError _) = C_ValueError"
| "c_error_from (Utf8Error _) = C_Utf8Error"
| "c_error_from SinkClosed = C_SinkClosed"
| "c_error_from SchemaRequired = C_SchemaRequired"
| "c_error_from MessageEncodingRequired = C_MessageEncodingRequired"
| "c_error_from ServerAlreadyStarted = C_ServerAlreadyStarted"
| "c_error_from (Bind _) = C_Bind"
| "c_error_from (DuplicateService _) = C_DuplicateService"
| "c_error_from (MissingRequestEncoding _) = C_MissingRequestEncoding"
| "c_error_from ServicesNotSupported = C_ServicesNotSupported"
| "c_error_from ConnectionGraphNotSupported = C_ConnectionGraphNotSupported"
| "c_error_from (IoError _) = C_IoError"
| "c_error_from (McapError _) = C_McapError"
| "c_error_from (EncodeError _) = C_EncodeError"
| "c_error_from _ = C_Unspecified"

definition to_cstr :: "c_error \<Rightarrow> string" where
  "to_cstr e = (case e of
     C_Ok \<Rightarrow> ''Ok''
   | C_ValueError \<Rightarrow> ''Value Error''
   | C_Utf8Error \<Rightarrow> ''UTF-8 Error''
   | C_SinkClosed \<Rightarrow> ''Sink Closed''
   | C_SchemaRequired \<Rightarrow> ''Schema Required''
   | C_MessageEncodingRequired \<Rightarrow> ''Message Encoding Required''
   | C_ServerAlreadyStarted \<Rightarrow> ''Server Already Started''
   | C_Bind \<Rightarrow> ''Bind Error''
   | C_DuplicateService \<Rightarrow> ''Duplicate Service''
   | C_MissingRequestEncoding \<Rightarrow> ''Missing Request Encoding''
   | C_ServicesNotSupported \<Rightarrow> ''Services Not Supported''
   | C_ConnectionGraphNotSupported \<Rightarrow> ''Connection Graph Not Supported''
   | C_IoError \<Rightarrow> ''IO Error''
   | C_McapError \<Rightarrow> ''MCAP Error''
   | C_EncodeError \<Rightarrow> ''Encode Error''
   | C_BufferTooShort \<Rightarrow> ''Buffer too short''
   | C_Base64DecodeError \<Rightarrow> ''Base64 decode error''
   | C_Unspecified \<Rightarrow> ''Unspecified Error'')"

text \<open>The operator \<open>?\<close> on a result.\<close>

definition and_then :: "('a, 'e) result \<Rightarrow> ('a \<Rightarrow> ('b, 'e) result) \<Rightarrow> ('b, 'e) result" where
  "and_then r f = (case r of Inl e \<Rightarrow> Inl e | Inr v \<Rightarrow> f v)"

text \<open>The value is written when the pointer is not null; the second component is what is written.\<close>

definition result_to_c :: "('a, FoxgloveError) result \<Rightarrow> bool \<Rightarrow> c_error \<times> 'a option" where
  "result_to_c r out =
     (case r of Inr v \<Rightarrow> (C_Ok, if out then Some v else None) | Inl e \<Rightarrow> (c_error_from e, None))"

section \<open>Strings and schemas of the caller\<close>

text \<open>The bytes at the pointer; \<open>None\<close> is a null pointer.\<close>

type_synonym FoxgloveString = "u8 list option"

definition as_utf8_str :: "FoxgloveString \<Rightarrow> string option" where
  "as_utf8_str s = (case s of None \<Rightarrow> Some [] | Some bs \<Rightarrow> if bs = [] then Some [] else from_utf8 bs)"

text \<open>\<open>as_utf8_str\<close> with its error mapped to \<open>Utf8Error\<close>.\<close>

definition utf8_arg :: "string \<Rightarrow> FoxgloveString \<Rightarrow> (string, FoxgloveError) result" where
  "utf8_arg what s = (case as_utf8_str s of None \<Rightarrow> Inl (Utf8Error what) | Some t \<Rightarrow> Inr t)"

record FoxgloveKeyValue =
  kv_key :: FoxgloveString
  kv_value :: FoxgloveString

record FoxgloveSchema =
  fsc_name :: FoxgloveString
  fsc_encoding :: FoxgloveString
  fsc_data :: "u8 list option"

definition schema_to_native :: "FoxgloveSchema \<Rightarrow> (Schema, FoxgloveError) result" where
  "schema_to_native s =
     and_then (utf8_arg ''schema name invalid'' (fsc_name s)) (\<lambda>name.
     and_then (utf8_arg ''schema encoding invalid'' (fsc_encoding s)) (\<lambda>encoding.
       Inr (schema_new name encoding (case fsc_data s of None \<Rightarrow> [] | Some d \<Rightarrow> d))))"

text \<open>What a valid string of the caller reads as.\<close>

definition text_of :: "FoxgloveString \<Rightarrow> string" where
  "text_of s = the (as_utf8_str s)"

section \<open>Lemmas\<close>

lemma c_error_from_not_ok [simp]: "c_error_from e \<noteq> C_Ok"
  by (cases e) simp_all

lemma and_then_simps [simp]: "and_then (Inl e) f = Inl e" "and_then (Inr v) f = f v"
  by (simp_all add: and_then_def)

lemma and_then_Inr: "and_then r f = Inr w \<longleftrightarrow> (\<exists>v. r = Inr v \<and> f v = Inr w)"
  by (simp add: and_then_def split: sum.split)

lemma result_to_c_ok: "fst (result_to_c r out) = C_Ok \<longleftrightarrow> (\<exists>v. r = Inr v)"
  by (auto simp: result_to_c_def split: sum.splits)

lemma to_cstr_inject: "to_cstr e = to_cstr e' \<longleftrightarrow> e = e'"
  by (cases e; cases e') (simp_all add: to_cstr_def)

lemma as_utf8_str_valid: "as_utf8_str s = Some t \<Longrightarrow> is_str t"
  by (auto simp: as_utf8_str_def dest: from_utf8_Some split: option.splits if_splits)

lemma as_utf8_str_as_bytes: "is_str t \<Longrightarrow> as_utf8_str (Some (as_bytes t)) = Some t"
  by (cases "t = []") (simp_all add: as_utf8_str_def from_utf8_as_bytes, simp_all add: as_bytes_def)

lemma utf8_arg_Inr: "utf8_arg what s = Inr t \<longleftrightarrow> as_utf8_str s = Some t"
  by (simp add: utf8_arg_def split: option.splits)

text \<open>A schema that is lent to the caller reads as itself.\<close>

lemma schema_lent:
  "schema_to_native c = Inr n \<Longrightarrow> schema_to_native \<lparr> fsc_name = Some (as_bytes (schema_name n)),
     fsc_encoding = Some (as_bytes (schema_encoding n)), fsc_data = Some (schema_data n) \<rparr> = Inr n"
  using as_utf8_str_valid
  by (auto simp: schema_to_native_def and_then_Inr utf8_arg_Inr as_utf8_str_as_bytes schema_new_def)

end
