(* ===== verification/C_Parameter.thy ===== *)
theory C_Parameter
  imports Protocol_Parameter C_Error
begin

text \<open>
  The parameters of the C bindings (\<open>src/c/src/parameter.rs\<close>, the strings of \<open>src/c/src/lib.rs\<close> and
  \<open>src/c/src/util.rs\<close>), whose values are trees of structs that own memory through raw pointers. Memory
  is explicit: a map from addresses to blocks, with what the allocator must be told when a block is
  freed, that is its capacity. \<open>None\<close> is undefined behaviour: the use of memory that is not there, a
  union read at another field, or freeing with another capacity than the one allocated.

  The functions that follow pointers take a bound on the depth as their first argument and are also
  \<open>None\<close> when it is too small; the properties show that a bound above the size of the tree is enough.
  The ownership predicates \<open>own_value\<close> and \<open>own_handle\<close> say that a tree occupies exactly a part of
  the memory.
\<close>

section \<open>Memory\<close>

type_synonym addr = nat

record FoxgloveStringBuf =
  fs_data :: addr
  fs_len :: nat

text \<open>The raw parts of a \<open>Vec\<close>.\<close>

record raw_vec =
  rv_ptr :: addr
  rv_len :: nat
  rv_cap :: nat

datatype FoxgloveParameterType = Ty_none | Ty_byte_array | Ty_float64 | Ty_float64_array

datatype FoxgloveParameterValueTag = Tag_float64 | Tag_integer | Tag_boolean | Tag_string | Tag_array | Tag_dict

text \<open>The union, with the field that was written.\<close>

datatype FoxgloveParameterValueData =
  D_float64 u64 | D_integer u64 | D_boolean bool | D_string FoxgloveStringBuf | D_array raw_vec | D_dict raw_vec

record FoxgloveParameterValue =
  cv_tag :: FoxgloveParameterValueTag
  cv_data :: FoxgloveParameterValueData

record FoxgloveParameterValueDictEntry =
  de_key :: FoxgloveStringBuf
  de_value :: addr

text \<open>A null pointer is \<open>None\<close>.\<close>

record FoxgloveParameter =
  cp_name :: FoxgloveStringBuf
  cp_type :: FoxgloveParameterType
  cp_value :: "addr option"

datatype item = I_value FoxgloveParameterValue | I_entry FoxgloveParameterValueDictEntry | I_param FoxgloveParameter

text \<open>A block is the buffer of a string, whose capacity is its length, the buffer of a \<open>Vec\<close> with its
  capacity, a box, or memory of the caller that Rust did not allocate.\<close>

datatype block =
  B_string "u8 list"
| B_vec nat "item list"
| B_value FoxgloveParameterValue
| B_array raw_vec
| B_dict raw_vec
| B_param FoxgloveParameter
| B_params raw_vec
| B_foreign "u8 list"

type_synonym c_heap = "addr \<rightharpoonup> block"

record mem =
  heap :: c_heap
  next_addr :: addr

text \<open>The capacities that \<open>Vec\<close> chooses: of \<open>with_capacity\<close>, of a full vector after \<open>push\<close>, and of a
  collected iterator. The standard library only promises that there is room.\<close>

record vec_ops =
  with_cap :: "nat \<Rightarrow> nat"
  grow :: "nat \<Rightarrow> nat"
  collect_cap :: "nat \<Rightarrow> nat"

definition vec_laws :: "vec_ops \<Rightarrow> bool" where
  "vec_laws V \<longleftrightarrow> (\<forall>n. n \<le> with_cap V n) \<and> (\<forall>n. n < grow V n) \<and> (\<forall>n. n \<le> collect_cap V n)"

definition mem_alloc :: "block \<Rightarrow> mem \<Rightarrow> addr \<times> mem" where
  "mem_alloc b m = (next_addr m, m \<lparr> heap := (heap m)(next_addr m \<mapsto> b), next_addr := next_addr m + 1 \<rparr>)"

definition release :: "addr \<Rightarrow> mem \<Rightarrow> mem" where
  "release a m = m \<lparr> heap := (heap m)(a := None) \<rparr>"

section \<open>Strings\<close>

definition string_new :: "string \<Rightarrow> mem \<Rightarrow> FoxgloveStringBuf \<times> mem" where
  "string_new s m = (case mem_alloc (B_string (as_bytes s)) m of (a, m') \<Rightarrow> (\<lparr> fs_data = a, fs_len = length s \<rparr>, m'))"

definition string_as_str :: "FoxgloveStringBuf \<Rightarrow> mem \<Rightarrow> string option" where
  "string_as_str s m =
     (case heap m (fs_data s) of
        Some (B_string bs) \<Rightarrow> if fs_len s \<le> length bs then from_utf8 (take (fs_len s) bs) else None
      | _ \<Rightarrow> None)"

text \<open>\<open>String::from_raw_parts(data, len, len)\<close>, dropped or handed over.\<close>

definition string_drop :: "FoxgloveStringBuf \<Rightarrow> mem \<Rightarrow> mem option" where
  "string_drop s m =
     (case heap m (fs_data s) of
        Some (B_string bs) \<Rightarrow> if length bs = fs_len s then Some (release (fs_data s) m) else None
      | _ \<Rightarrow> None)"

definition string_into_string :: "FoxgloveStringBuf \<Rightarrow> mem \<Rightarrow> (string \<times> mem) option" where
  "string_into_string s m = do { str \<leftarrow> string_as_str s m; m' \<leftarrow> string_drop s m; Some (str, m') }"

text \<open>A string of the caller, borrowed as a \<open>String\<close>; the left side is \<open>Utf8Error\<close>. The error owns the bytes and is
  dropped once its message is formatted.\<close>

definition block_bytes :: "block \<Rightarrow> u8 list option" where
  "block_bytes b = (case b of B_string bs \<Rightarrow> Some bs | B_foreign bs \<Rightarrow> Some bs | _ \<Rightarrow> None)"

definition string_from_raw :: "addr \<Rightarrow> nat \<Rightarrow> mem \<Rightarrow> ((string, unit) result \<times> mem) option" where
  "string_from_raw ptr len m =
     (if len = 0 then Some (Inr [], m)
      else do {
        b \<leftarrow> heap m ptr;
        bs \<leftarrow> block_bytes b;
        (if length bs < len then None
         else
           (case from_utf8 (take len bs) of
              Some s \<Rightarrow> Some (Inr s, m)
            | None \<Rightarrow> do { m' \<leftarrow> string_drop \<lparr> fs_data = ptr, fs_len = len \<rparr> m; Some (Inl (), m') }))
      })"

section \<open>Vectors\<close>

definition vec_new :: "nat \<Rightarrow> item list \<Rightarrow> mem \<Rightarrow> raw_vec \<times> mem" where
  "vec_new cap xs m = (case mem_alloc (B_vec cap xs) m of (a, m') \<Rightarrow> (\<lparr> rv_ptr = a, rv_len = length xs, rv_cap = cap \<rparr>, m'))"

definition vec_items :: "raw_vec \<Rightarrow> mem \<Rightarrow> item list option" where
  "vec_items r m =
     (case heap m (rv_ptr r) of Some (B_vec cap xs) \<Rightarrow> if length xs = rv_len r then Some xs else None | _ \<Rightarrow> None)"

definition vec_free :: "addr \<Rightarrow> nat \<Rightarrow> mem \<Rightarrow> mem option" where
  "vec_free a cap m =
     (case heap m a of Some (B_vec c xs) \<Rightarrow> if c = cap then Some (release a m) else None | _ \<Rightarrow> None)"

definition raw_vec_push :: "vec_ops \<Rightarrow> raw_vec \<Rightarrow> item \<Rightarrow> mem \<Rightarrow> (raw_vec \<times> mem) option" where
  "raw_vec_push V r x m = do {
     xs \<leftarrow> vec_items r m;
     (if rv_len r < rv_cap r
      then Some (r \<lparr> rv_len := rv_len r + 1 \<rparr>, m \<lparr> heap := (heap m)(rv_ptr r \<mapsto> B_vec (rv_cap r) (xs @ [x])) \<rparr>)
      else do {
        m1 \<leftarrow> vec_free (rv_ptr r) (rv_cap r) m;
        Some (vec_new (grow V (rv_cap r)) (xs @ [x]) m1)
      })
   }"

fun fold_items :: "('a \<Rightarrow> mem \<Rightarrow> mem option) \<Rightarrow> 'a list \<Rightarrow> mem \<Rightarrow> mem option" where
  "fold_items f [] m = Some m"
| "fold_items f (x # xs) m = do { m1 \<leftarrow> f x m; fold_items f xs m1 }"

fun map_items :: "('a \<Rightarrow> mem \<Rightarrow> ('b \<times> mem) option) \<Rightarrow> 'a list \<Rightarrow> mem \<Rightarrow> ('b list \<times> mem) option" where
  "map_items f [] m = Some ([], m)"
| "map_items f (x # xs) m = do { (y, m1) \<leftarrow> f x m; (ys, m2) \<leftarrow> map_items f xs m1; Some (y # ys, m2) }"

lemma map_items_cong [fundef_cong]:
  "xs = ys \<Longrightarrow> (\<And>x m. x \<in> set ys \<Longrightarrow> f x m = g x m) \<Longrightarrow> m = m' \<Longrightarrow> map_items f xs m = map_items g ys m'"
  by (induction xs arbitrary: ys m m') auto

text \<open>\<open>drop\<close> of a \<open>Vec\<close>.\<close>

definition vec_drop :: "(item \<Rightarrow> mem \<Rightarrow> mem option) \<Rightarrow> raw_vec \<Rightarrow> mem \<Rightarrow> mem option" where
  "vec_drop f r m = do { xs \<leftarrow> vec_items r m; m1 \<leftarrow> fold_items f xs m; vec_free (rv_ptr r) (rv_cap r) m1 }"

text \<open>An element of the vector is read at its type.\<close>

definition as_value :: "(FoxgloveParameterValue \<Rightarrow> mem \<Rightarrow> 'a option) \<Rightarrow> item \<Rightarrow> mem \<Rightarrow> 'a option" where
  "as_value f x m = (case x of I_value v \<Rightarrow> f v m | _ \<Rightarrow> None)"

definition as_entry :: "(FoxgloveParameterValueDictEntry \<Rightarrow> mem \<Rightarrow> 'a option) \<Rightarrow> item \<Rightarrow> mem \<Rightarrow> 'a option" where
  "as_entry f x m = (case x of I_entry e \<Rightarrow> f e m | _ \<Rightarrow> None)"

definition as_param :: "(FoxgloveParameter \<Rightarrow> mem \<Rightarrow> 'a option) \<Rightarrow> item \<Rightarrow> mem \<Rightarrow> 'a option" where
  "as_param f x m = (case x of I_param p \<Rightarrow> f p m | _ \<Rightarrow> None)"

section \<open>Values\<close>

definition read_value :: "addr \<Rightarrow> mem \<Rightarrow> FoxgloveParameterValue option" where
  "read_value a m = (case heap m a of Some (B_value v) \<Rightarrow> Some v | _ \<Rightarrow> None)"

definition box_value :: "FoxgloveParameterValue \<Rightarrow> mem \<Rightarrow> addr \<times> mem" where
  "box_value v = mem_alloc (B_value v)"

text \<open>\<open>drop\<close> of a box, and a value moved out of its box.\<close>

definition drop_boxed :: "(FoxgloveParameterValue \<Rightarrow> mem \<Rightarrow> mem option) \<Rightarrow> addr \<Rightarrow> mem \<Rightarrow> mem option" where
  "drop_boxed f a m = do { v \<leftarrow> read_value a m; m1 \<leftarrow> f v m; Some (release a m1) }"

definition move_boxed :: "(FoxgloveParameterValue \<Rightarrow> mem \<Rightarrow> ('a \<times> mem) option) \<Rightarrow> addr \<Rightarrow> mem \<Rightarrow> ('a \<times> mem) option" where
  "move_boxed f a m = do { v \<leftarrow> read_value a m; f v (release a m) }"

definition value_float64 :: "u64 \<Rightarrow> FoxgloveParameterValue" where
  "value_float64 x = \<lparr> cv_tag = Tag_float64, cv_data = D_float64 x \<rparr>"

definition value_integer :: "u64 \<Rightarrow> FoxgloveParameterValue" where
  "value_integer x = \<lparr> cv_tag = Tag_integer, cv_data = D_integer x \<rparr>"

definition value_boolean :: "bool \<Rightarrow> FoxgloveParameterValue" where
  "value_boolean x = \<lparr> cv_tag = Tag_boolean, cv_data = D_boolean x \<rparr>"

definition value_string :: "string \<Rightarrow> mem \<Rightarrow> FoxgloveParameterValue \<times> mem" where
  "value_string s m = (case string_new s m of (b, m') \<Rightarrow> (\<lparr> cv_tag = Tag_string, cv_data = D_string b \<rparr>, m'))"

definition value_array :: "raw_vec \<Rightarrow> FoxgloveParameterValue" where
  "value_array r = \<lparr> cv_tag = Tag_array, cv_data = D_array r \<rparr>"

definition value_dict :: "raw_vec \<Rightarrow> FoxgloveParameterValue" where
  "value_dict r = \<lparr> cv_tag = Tag_dict, cv_data = D_dict r \<rparr>"

text \<open>\<open>Drop\<close>.\<close>

definition entry_drop ::
  "(FoxgloveParameterValue \<Rightarrow> mem \<Rightarrow> mem option) \<Rightarrow> FoxgloveParameterValueDictEntry \<Rightarrow> mem \<Rightarrow> mem option" where
  "entry_drop f e m = do { m1 \<leftarrow> string_drop (de_key e) m; drop_boxed f (de_value e) m1 }"

primrec value_drop :: "nat \<Rightarrow> FoxgloveParameterValue \<Rightarrow> mem \<Rightarrow> mem option" where
  "value_drop 0 = (\<lambda>v m. None)"
| "value_drop (Suc n) = (\<lambda>v m.
     case (cv_tag v, cv_data v) of
       (Tag_float64, _) \<Rightarrow> Some m
     | (Tag_integer, _) \<Rightarrow> Some m
     | (Tag_boolean, _) \<Rightarrow> Some m
     | (Tag_string, D_string s) \<Rightarrow> string_drop s m
     | (Tag_array, D_array r) \<Rightarrow> vec_drop (as_value (value_drop n)) r m
     | (Tag_dict, D_dict r) \<Rightarrow> vec_drop (as_entry (entry_drop (value_drop n))) r m
     | _ \<Rightarrow> None)"

text \<open>\<open>Clone\<close>.\<close>

definition vec_clone ::
  "vec_ops \<Rightarrow> (item \<Rightarrow> mem \<Rightarrow> (item \<times> mem) option) \<Rightarrow> raw_vec \<Rightarrow> mem \<Rightarrow> (raw_vec \<times> mem) option" where
  "vec_clone V f r m = do {
     xs \<leftarrow> vec_items r m;
     (ys, m1) \<leftarrow> map_items f xs m;
     Some (vec_new (collect_cap V (length ys)) ys m1)
   }"

definition entry_new :: "string \<Rightarrow> addr \<Rightarrow> mem \<Rightarrow> FoxgloveParameterValueDictEntry \<times> mem" where
  "entry_new key a m = (case string_new key m of (b, m') \<Rightarrow> (\<lparr> de_key = b, de_value = a \<rparr>, m'))"

definition entry_clone ::
  "(FoxgloveParameterValue \<Rightarrow> mem \<Rightarrow> (FoxgloveParameterValue \<times> mem) option)
    \<Rightarrow> FoxgloveParameterValueDictEntry \<Rightarrow> mem \<Rightarrow> (item \<times> mem) option" where
  "entry_clone f e m = do {
     v \<leftarrow> read_value (de_value e) m;
     key \<leftarrow> string_as_str (de_key e) m;
     (w, m1) \<leftarrow> f v m;
     (case box_value w m1 of (a, m2) \<Rightarrow> case entry_new key a m2 of (e', m3) \<Rightarrow> Some (I_entry e', m3))
   }"

primrec value_clone :: "vec_ops \<Rightarrow> nat \<Rightarrow> FoxgloveParameterValue \<Rightarrow> mem \<Rightarrow> (FoxgloveParameterValue \<times> mem) option" where
  "value_clone V 0 = (\<lambda>v m. None)"
| "value_clone V (Suc n) = (\<lambda>v m.
     case (cv_tag v, cv_data v) of
       (Tag_float64, D_float64 x) \<Rightarrow> Some (value_float64 x, m)
     | (Tag_integer, D_integer x) \<Rightarrow> Some (value_integer x, m)
     | (Tag_boolean, D_boolean x) \<Rightarrow> Some (value_boolean x, m)
     | (Tag_string, D_string s) \<Rightarrow> do { str \<leftarrow> string_as_str s m; Some (value_string str m) }
     | (Tag_array, D_array r) \<Rightarrow> do {
         (r', m') \<leftarrow> vec_clone V (as_value (\<lambda>w m. do { (w', m') \<leftarrow> value_clone V n w m; Some (I_value w', m') })) r m;
         Some (value_array r', m')
       }
     | (Tag_dict, D_dict r) \<Rightarrow> do {
         (r', m') \<leftarrow> vec_clone V (as_entry (entry_clone (value_clone V n))) r m;
         Some (value_dict r', m')
       }
     | _ \<Rightarrow> None)"

text \<open>The conversion to the native type. The buffer of an array is freed with its length as the capacity. A
  \<open>BTreeMap\<close> is its entries in the order of the keys; \<open>collect\<close> keeps the last value of a key.\<close>

definition btree_collect :: "(string \<times> 'v) list \<Rightarrow> (string \<times> 'v) list" where
  "btree_collect es = fold (\<lambda>(k, v). btree_insert k v) es []"

definition vec_into :: "nat \<Rightarrow> (item \<Rightarrow> mem \<Rightarrow> ('a \<times> mem) option) \<Rightarrow> raw_vec \<Rightarrow> mem \<Rightarrow> ('a list \<times> mem) option" where
  "vec_into cap f r m = do {
     xs \<leftarrow> vec_items r m;
     (ys, m1) \<leftarrow> map_items f xs m;
     m2 \<leftarrow> vec_free (rv_ptr r) cap m1;
     Some (ys, m2)
   }"

definition entry_into_native ::
  "(FoxgloveParameterValue \<Rightarrow> mem \<Rightarrow> (ParameterValue \<times> mem) option)
    \<Rightarrow> FoxgloveParameterValueDictEntry \<Rightarrow> mem \<Rightarrow> ((string \<times> ParameterValue) \<times> mem) option" where
  "entry_into_native f e m = do {
     (v, m1) \<leftarrow> move_boxed f (de_value e) m;
     (key, m2) \<leftarrow> string_into_string (de_key e) m1;
     Some ((key, v), m2)
   }"

primrec value_into_native :: "nat \<Rightarrow> FoxgloveParameterValue \<Rightarrow> mem \<Rightarrow> (ParameterValue \<times> mem) option" where
  "value_into_native 0 = (\<lambda>v m. None)"
| "value_into_native (Suc n) = (\<lambda>v m.
     case (cv_tag v, cv_data v) of
       (Tag_float64, D_float64 x) \<Rightarrow> Some (Float64 x, m)
     | (Tag_integer, D_integer x) \<Rightarrow> Some (Integer x, m)
     | (Tag_boolean, D_boolean x) \<Rightarrow> Some (PBool x, m)
     | (Tag_string, D_string s) \<Rightarrow> do { (str, m') \<leftarrow> string_into_string s m; Some (PString str, m') }
     | (Tag_array, D_array r) \<Rightarrow> do {
         (vs, m') \<leftarrow> vec_into (rv_len r) (as_value (value_into_native n)) r m;
         Some (PArray vs, m')
       }
     | (Tag_dict, D_dict r) \<Rightarrow> do {
         (es, m') \<leftarrow> vec_into (rv_cap r) (as_entry (entry_into_native (value_into_native n))) r m;
         Some (PDict (btree_collect es), m')
       }
     | _ \<Rightarrow> None)"

text \<open>The conversion from the native type.\<close>

fun value_from :: "vec_ops \<Rightarrow> ParameterValue \<Rightarrow> mem \<Rightarrow> (FoxgloveParameterValue \<times> mem) option" where
  "value_from V (Float64 x) m = Some (value_float64 x, m)"
| "value_from V (Integer x) m = Some (value_integer x, m)"
| "value_from V (PBool x) m = Some (value_boolean x, m)"
| "value_from V (PString s) m = Some (value_string s m)"
| "value_from V (PArray vs) m = do {
     (xs, m1) \<leftarrow> map_items (\<lambda>v m. do { (w, m') \<leftarrow> value_from V v m; Some (I_value w, m') }) vs m;
     (case vec_new (collect_cap V (length xs)) xs m1 of (r, m2) \<Rightarrow> Some (value_array r, m2))
   }"
| "value_from V (PDict es) m = do {
     (xs, m1) \<leftarrow> map_items (\<lambda>(k, v) m. do {
         (w, m1) \<leftarrow> value_from V v m;
         (case box_value w m1 of (a, m2) \<Rightarrow> case entry_new k a m2 of (e, m3) \<Rightarrow> Some (I_entry e, m3))
       }) es m;
     (case vec_new (collect_cap V (length xs)) xs m1 of (r, m2) \<Rightarrow> Some (value_dict r, m2))
   }"

section \<open>Parameters\<close>

definition type_from :: "ParameterType option \<Rightarrow> FoxgloveParameterType" where
  "type_from t = (case t of None \<Rightarrow> Ty_none | Some ByteArray \<Rightarrow> Ty_byte_array | Some Float64Type \<Rightarrow> Ty_float64 | Some Float64Array \<Rightarrow> Ty_float64_array)"

definition type_to_native :: "FoxgloveParameterType \<Rightarrow> ParameterType option" where
  "type_to_native t = (case t of Ty_none \<Rightarrow> None | Ty_byte_array \<Rightarrow> Some ByteArray | Ty_float64 \<Rightarrow> Some Float64Type | Ty_float64_array \<Rightarrow> Some Float64Array)"

definition param_new :: "string \<Rightarrow> FoxgloveParameterType \<Rightarrow> addr option \<Rightarrow> mem \<Rightarrow> FoxgloveParameter \<times> mem" where
  "param_new name t v m = (case string_new name m of (b, m') \<Rightarrow> (\<lparr> cp_name = b, cp_type = t, cp_value = v \<rparr>, m'))"

definition param_drop :: "nat \<Rightarrow> FoxgloveParameter \<Rightarrow> mem \<Rightarrow> mem option" where
  "param_drop n p m = do {
     m1 \<leftarrow> string_drop (cp_name p) m;
     (case cp_value p of None \<Rightarrow> Some m1 | Some a \<Rightarrow> drop_boxed (value_drop n) a m1)
   }"

definition param_clone :: "vec_ops \<Rightarrow> nat \<Rightarrow> FoxgloveParameter \<Rightarrow> mem \<Rightarrow> (FoxgloveParameter \<times> mem) option" where
  "param_clone V n p m = do {
     (value, m1) \<leftarrow> (case cp_value p of
         None \<Rightarrow> Some (None, m)
       | Some a \<Rightarrow> do {
           v \<leftarrow> read_value a m;
           (w, m1) \<leftarrow> value_clone V n v m;
           (case box_value w m1 of (b, m2) \<Rightarrow> Some (Some b, m2))
         });
     name \<leftarrow> string_as_str (cp_name p) m1;
     (case string_new name m1 of (b, m2) \<Rightarrow> Some (p \<lparr> cp_name := b, cp_value := value \<rparr>, m2))
   }"

definition param_into_native :: "nat \<Rightarrow> FoxgloveParameter \<Rightarrow> mem \<Rightarrow> (Parameter \<times> mem) option" where
  "param_into_native n p m = do {
     (value, m1) \<leftarrow> (case cp_value p of
         None \<Rightarrow> Some (None, m)
       | Some a \<Rightarrow> do { (v, m1) \<leftarrow> move_boxed (value_into_native n) a m; Some (Some v, m1) });
     (name, m2) \<leftarrow> string_into_string (cp_name p) m1;
     Some (\<lparr> param_name = name, param_type = type_to_native (cp_type p), param_value = value \<rparr>, m2)
   }"

definition param_from :: "vec_ops \<Rightarrow> Parameter \<Rightarrow> mem \<Rightarrow> (FoxgloveParameter \<times> mem) option" where
  "param_from V p m = do {
     (value, m1) \<leftarrow> (case param_value p of
         None \<Rightarrow> Some (None, m)
       | Some v \<Rightarrow> do {
           (w, m1) \<leftarrow> value_from V v m;
           (case box_value w m1 of (a, m2) \<Rightarrow> Some (Some a, m2))
         });
     Some (param_new (param_name p) (type_from (param_type p)) value m1)
   }"

definition params_from :: "vec_ops \<Rightarrow> Parameter list \<Rightarrow> mem \<Rightarrow> (raw_vec \<times> mem) option" where
  "params_from V ps m = do {
     (xs, m1) \<leftarrow> map_items (\<lambda>p m. do { (q, m') \<leftarrow> param_from V p m; Some (I_param q, m') }) ps m;
     Some (vec_new (collect_cap V (length xs)) xs m1)
   }"

text \<open>The array is consumed with its capacity, its box by the caller.\<close>

definition params_into_native :: "nat \<Rightarrow> raw_vec \<Rightarrow> mem \<Rightarrow> (Parameter list \<times> mem) option" where
  "params_into_native n r = vec_into (rv_cap r) (as_param (param_into_native n)) r"

definition get_byte_array_as_str :: "FoxgloveParameter \<Rightarrow> mem \<Rightarrow> string option option" where
  "get_byte_array_as_str p m =
     (case cp_value p of
        None \<Rightarrow> Some None
      | Some a \<Rightarrow> do {
          v \<leftarrow> read_value a m;
          (case (cp_type p, cv_tag v) of
             (Ty_byte_array, Tag_string) \<Rightarrow>
               (case cv_data v of D_string s \<Rightarrow> do { str \<leftarrow> string_as_str s m; Some (Some str) } | _ \<Rightarrow> None)
           | _ \<Rightarrow> Some None)
        })"

section \<open>The functions of the C interface\<close>

text \<open>A string of the caller is its bytes, empty for a null pointer.\<close>

definition read_param :: "addr \<Rightarrow> mem \<Rightarrow> FoxgloveParameter option" where
  "read_param a m = (case heap m a of Some (B_param p) \<Rightarrow> Some p | _ \<Rightarrow> None)"

definition read_params :: "addr \<Rightarrow> mem \<Rightarrow> raw_vec option" where
  "read_params a m = (case heap m a of Some (B_params r) \<Rightarrow> Some r | _ \<Rightarrow> None)"

definition read_array :: "addr \<Rightarrow> mem \<Rightarrow> raw_vec option" where
  "read_array a m = (case heap m a of Some (B_array r) \<Rightarrow> Some r | _ \<Rightarrow> None)"

definition read_dict :: "addr \<Rightarrow> mem \<Rightarrow> raw_vec option" where
  "read_dict a m = (case heap m a of Some (B_dict r) \<Rightarrow> Some r | _ \<Rightarrow> None)"

definition write_block :: "addr \<Rightarrow> block \<Rightarrow> mem \<Rightarrow> mem" where
  "write_block a b m = m \<lparr> heap := (heap m)(a \<mapsto> b) \<rparr>"

definition parameter_value_create_float64 :: "u64 \<Rightarrow> mem \<Rightarrow> addr \<times> mem" where
  "parameter_value_create_float64 x = box_value (value_float64 x)"

definition parameter_value_create_integer :: "u64 \<Rightarrow> mem \<Rightarrow> addr \<times> mem" where
  "parameter_value_create_integer x = box_value (value_integer x)"

definition parameter_value_create_boolean :: "bool \<Rightarrow> mem \<Rightarrow> addr \<times> mem" where
  "parameter_value_create_boolean x = box_value (value_boolean x)"

definition parameter_value_create_string ::
  "bool \<Rightarrow> u8 list \<Rightarrow> mem \<Rightarrow> c_error \<times> addr option \<times> mem" where
  "parameter_value_create_string out str m =
     (if \<not> out then (C_ValueError, None, m)
      else
        (case from_utf8 str of
           None \<Rightarrow> (C_Utf8Error, None, m)
         | Some s \<Rightarrow> (case value_string s m of (v, m1) \<Rightarrow> case box_value v m1 of (a, m2) \<Rightarrow> (C_Ok, Some a, m2))))"

text \<open>The pointers are not checked: \<open>None\<close> is undefined behaviour.\<close>

definition parameter_value_create_array :: "addr option \<Rightarrow> mem \<Rightarrow> (addr \<times> mem) option" where
  "parameter_value_create_array array m = do {
     a \<leftarrow> array;
     r \<leftarrow> read_array a m;
     Some (box_value (value_array r) (release a m))
   }"

definition parameter_value_create_dict :: "addr option \<Rightarrow> mem \<Rightarrow> (addr \<times> mem) option" where
  "parameter_value_create_dict dict m = do {
     a \<leftarrow> dict;
     r \<leftarrow> read_dict a m;
     Some (box_value (value_dict r) (release a m))
   }"

definition parameter_value_clone :: "vec_ops \<Rightarrow> nat \<Rightarrow> addr option \<Rightarrow> mem \<Rightarrow> (addr option \<times> mem) option" where
  "parameter_value_clone V n value m =
     (case value of
        None \<Rightarrow> Some (None, m)
      | Some a \<Rightarrow> do {
          v \<leftarrow> read_value a m;
          (w, m1) \<leftarrow> value_clone V n v m;
          (case box_value w m1 of (b, m2) \<Rightarrow> Some (Some b, m2))
        })"

definition parameter_value_free :: "nat \<Rightarrow> addr option \<Rightarrow> mem \<Rightarrow> mem option" where
  "parameter_value_free n value m = (case value of None \<Rightarrow> Some m | Some a \<Rightarrow> drop_boxed (value_drop n) a m)"

definition parameter_value_array_create :: "vec_ops \<Rightarrow> nat \<Rightarrow> mem \<Rightarrow> addr \<times> mem" where
  "parameter_value_array_create V capacity m = (case vec_new (with_cap V capacity) [] m of (r, m1) \<Rightarrow> mem_alloc (B_array r) m1)"

definition parameter_value_array_push :: "vec_ops \<Rightarrow> nat \<Rightarrow> addr option \<Rightarrow> addr option \<Rightarrow> mem \<Rightarrow> (c_error \<times> mem) option" where
  "parameter_value_array_push V n array value m =
     (case value of
        None \<Rightarrow> Some (C_ValueError, m)
      | Some a \<Rightarrow>
          (case array of
             None \<Rightarrow> do { m1 \<leftarrow> drop_boxed (value_drop n) a m; Some (C_ValueError, m1) }
           | Some b \<Rightarrow> do {
               v \<leftarrow> read_value a m;
               r \<leftarrow> read_array b m;
               (r', m1) \<leftarrow> raw_vec_push V r (I_value v) (release a m);
               Some (C_Ok, write_block b (B_array r') m1)
             }))"

definition parameter_value_array_free :: "nat \<Rightarrow> addr option \<Rightarrow> mem \<Rightarrow> mem option" where
  "parameter_value_array_free n array m =
     (case array of
        None \<Rightarrow> Some m
      | Some a \<Rightarrow> do { r \<leftarrow> read_array a m; m1 \<leftarrow> vec_drop (as_value (value_drop n)) r m; Some (release a m1) })"

definition parameter_value_dict_create :: "vec_ops \<Rightarrow> nat \<Rightarrow> mem \<Rightarrow> addr \<times> mem" where
  "parameter_value_dict_create V capacity m = (case vec_new (with_cap V capacity) [] m of (r, m1) \<Rightarrow> mem_alloc (B_dict r) m1)"

definition parameter_value_dict_insert ::
  "vec_ops \<Rightarrow> nat \<Rightarrow> addr option \<Rightarrow> u8 list \<Rightarrow> addr option \<Rightarrow> mem \<Rightarrow> (c_error \<times> mem) option" where
  "parameter_value_dict_insert V n dict key value m =
     (case value of
        None \<Rightarrow> Some (C_ValueError, m)
      | Some a \<Rightarrow>
          (case dict of
             None \<Rightarrow> do { m1 \<leftarrow> drop_boxed (value_drop n) a m; Some (C_ValueError, m1) }
           | Some b \<Rightarrow>
               (case from_utf8 key of
                  None \<Rightarrow> do { m1 \<leftarrow> drop_boxed (value_drop n) a m; Some (C_Utf8Error, m1) }
                | Some k \<Rightarrow> do {
                    r \<leftarrow> read_dict b m;
                    (case entry_new k a m of (e, m1) \<Rightarrow> do {
                       (r', m2) \<leftarrow> raw_vec_push V r (I_entry e) m1;
                       Some (C_Ok, write_block b (B_dict r') m2)
                     })
                  })))"

definition parameter_value_dict_free :: "nat \<Rightarrow> addr option \<Rightarrow> mem \<Rightarrow> mem option" where
  "parameter_value_dict_free n dict m =
     (case dict of
        None \<Rightarrow> Some m
      | Some a \<Rightarrow> do { r \<leftarrow> read_dict a m; m1 \<leftarrow> vec_drop (as_entry (entry_drop (value_drop n))) r m; Some (release a m1) })"

text \<open>A parameter always consumes the value it is given.\<close>

definition parameter_create ::
  "nat \<Rightarrow> bool \<Rightarrow> u8 list \<Rightarrow> FoxgloveParameterType \<Rightarrow> addr option \<Rightarrow> mem \<Rightarrow> (c_error \<times> addr option \<times> mem) option" where
  "parameter_create n out name t value m =
     (let fail = (\<lambda>err. case value of
            None \<Rightarrow> Some (err, None, m)
          | Some a \<Rightarrow> do { m1 \<leftarrow> drop_boxed (value_drop n) a m; Some (err, None, m1) }) in
      if \<not> out then fail C_ValueError
      else
        (case from_utf8 name of
           None \<Rightarrow> fail C_Utf8Error
         | Some s \<Rightarrow>
             (case param_new s t value m of (p, m1) \<Rightarrow> case mem_alloc (B_param p) m1 of (b, m2) \<Rightarrow> Some (C_Ok, Some b, m2))))"

definition parameter_create_empty :: "nat \<Rightarrow> bool \<Rightarrow> u8 list \<Rightarrow> mem \<Rightarrow> (c_error \<times> addr option \<times> mem) option" where
  "parameter_create_empty n out name m = parameter_create n out name Ty_none None m"

definition parameter_create_boxed ::
  "nat \<Rightarrow> bool \<Rightarrow> u8 list \<Rightarrow> FoxgloveParameterType \<Rightarrow> FoxgloveParameterValue \<times> mem \<Rightarrow> (c_error \<times> addr option \<times> mem) option" where
  "parameter_create_boxed n out name t vm = (case vm of (v, m) \<Rightarrow> case box_value v m of (a, m1) \<Rightarrow> parameter_create n out name t (Some a) m1)"

definition parameter_create_float64 :: "nat \<Rightarrow> bool \<Rightarrow> u8 list \<Rightarrow> u64 \<Rightarrow> mem \<Rightarrow> (c_error \<times> addr option \<times> mem) option" where
  "parameter_create_float64 n out name x m = parameter_create_boxed n out name Ty_float64 (value_float64 x, m)"

definition parameter_create_integer :: "nat \<Rightarrow> bool \<Rightarrow> u8 list \<Rightarrow> u64 \<Rightarrow> mem \<Rightarrow> (c_error \<times> addr option \<times> mem) option" where
  "parameter_create_integer n out name x m = parameter_create_boxed n out name Ty_none (value_integer x, m)"

definition parameter_create_boolean :: "nat \<Rightarrow> bool \<Rightarrow> u8 list \<Rightarrow> bool \<Rightarrow> mem \<Rightarrow> (c_error \<times> addr option \<times> mem) option" where
  "parameter_create_boolean n out name x m = parameter_create_boxed n out name Ty_none (value_boolean x, m)"

definition parameter_create_string :: "nat \<Rightarrow> bool \<Rightarrow> u8 list \<Rightarrow> u8 list \<Rightarrow> mem \<Rightarrow> (c_error \<times> addr option \<times> mem) option" where
  "parameter_create_string n out name str m =
     (case from_utf8 str of
        None \<Rightarrow> Some (C_Utf8Error, None, m)
      | Some s \<Rightarrow> parameter_create_boxed n out name Ty_none (value_string s m))"

definition parameter_create_byte_array ::
  "base64_ops \<Rightarrow> nat \<Rightarrow> bool \<Rightarrow> u8 list \<Rightarrow> u8 list \<Rightarrow> mem \<Rightarrow> (c_error \<times> addr option \<times> mem) option" where
  "parameter_create_byte_array E n out name bytes m =
     parameter_create_boxed n out name Ty_byte_array (value_string (b64_encode E bytes) m)"

definition array_of :: "vec_ops \<Rightarrow> FoxgloveParameterValue list \<Rightarrow> mem \<Rightarrow> FoxgloveParameterValue \<times> mem" where
  "array_of V vs m = (case vec_new (collect_cap V (length vs)) (map I_value vs) m of (r, m1) \<Rightarrow> (value_array r, m1))"

definition parameter_create_float64_array ::
  "vec_ops \<Rightarrow> nat \<Rightarrow> bool \<Rightarrow> u8 list \<Rightarrow> u64 list \<Rightarrow> mem \<Rightarrow> (c_error \<times> addr option \<times> mem) option" where
  "parameter_create_float64_array V n out name xs m =
     parameter_create_boxed n out name Ty_float64_array (array_of V (map value_float64 xs) m)"

definition parameter_create_integer_array ::
  "vec_ops \<Rightarrow> nat \<Rightarrow> bool \<Rightarrow> u8 list \<Rightarrow> u64 list \<Rightarrow> mem \<Rightarrow> (c_error \<times> addr option \<times> mem) option" where
  "parameter_create_integer_array V n out name xs m =
     parameter_create_boxed n out name Ty_none (array_of V (map value_integer xs) m)"

definition parameter_create_dict ::
  "nat \<Rightarrow> bool \<Rightarrow> u8 list \<Rightarrow> addr option \<Rightarrow> mem \<Rightarrow> (c_error \<times> addr option \<times> mem) option" where
  "parameter_create_dict n out name dict m = do {
     (a, m1) \<leftarrow> parameter_value_create_dict dict m;
     parameter_create n out name Ty_none (Some a) m1
   }"

definition parameter_clone :: "vec_ops \<Rightarrow> nat \<Rightarrow> addr option \<Rightarrow> mem \<Rightarrow> (addr option \<times> mem) option" where
  "parameter_clone V n param m =
     (case param of
        None \<Rightarrow> Some (None, m)
      | Some a \<Rightarrow> do {
          p \<leftarrow> read_param a m;
          (q, m1) \<leftarrow> param_clone V n p m;
          (case mem_alloc (B_param q) m1 of (b, m2) \<Rightarrow> Some (Some b, m2))
        })"

definition parameter_free :: "nat \<Rightarrow> addr option \<Rightarrow> mem \<Rightarrow> mem option" where
  "parameter_free n param m =
     (case param of
        None \<Rightarrow> Some m
      | Some a \<Rightarrow> do { p \<leftarrow> read_param a m; m1 \<leftarrow> param_drop n p m; Some (release a m1) })"

definition parameter_array_create :: "vec_ops \<Rightarrow> nat \<Rightarrow> mem \<Rightarrow> addr \<times> mem" where
  "parameter_array_create V capacity m = (case vec_new (with_cap V capacity) [] m of (r, m1) \<Rightarrow> mem_alloc (B_params r) m1)"

definition parameter_array_push :: "vec_ops \<Rightarrow> nat \<Rightarrow> addr option \<Rightarrow> addr option \<Rightarrow> mem \<Rightarrow> (c_error \<times> mem) option" where
  "parameter_array_push V n array param m =
     (case param of
        None \<Rightarrow> Some (C_ValueError, m)
      | Some a \<Rightarrow>
          (case array of
             None \<Rightarrow> do { m1 \<leftarrow> parameter_free n (Some a) m; Some (C_ValueError, m1) }
           | Some b \<Rightarrow> do {
               p \<leftarrow> read_param a m;
               r \<leftarrow> read_params b m;
               (r', m1) \<leftarrow> raw_vec_push V r (I_param p) (release a m);
               Some (C_Ok, write_block b (B_params r') m1)
             }))"

definition parameter_array_free :: "nat \<Rightarrow> addr option \<Rightarrow> mem \<Rightarrow> mem option" where
  "parameter_array_free n array m =
     (case array of
        None \<Rightarrow> Some m
      | Some a \<Rightarrow> do { r \<leftarrow> read_params a m; m1 \<leftarrow> vec_drop (as_param (param_drop n)) r m; Some (release a m1) })"

text \<open>\<open>FoxgloveParameterArray::from_raw\<close> and \<open>into_native\<close>, as the server consumes an array.\<close>

definition parameter_array_consume :: "nat \<Rightarrow> addr \<Rightarrow> mem \<Rightarrow> (Parameter list \<times> mem) option" where
  "parameter_array_consume n a m = do { r \<leftarrow> read_params a m; params_into_native n r (release a m) }"

text \<open>A server is null, or open or closed. The last component is what is published.\<close>

definition server_publish_parameter_values ::
  "nat \<Rightarrow> bool option \<Rightarrow> addr option \<Rightarrow> mem \<Rightarrow> (c_error \<times> Parameter list option \<times> mem) option" where
  "server_publish_parameter_values n server params m =
     (case params of
        None \<Rightarrow> Some (C_ValueError, None, m)
      | Some a \<Rightarrow>
          (case server of
             None \<Rightarrow> do { m1 \<leftarrow> parameter_array_free n (Some a) m; Some (C_ValueError, None, m1) }
           | Some opened \<Rightarrow>
               (if \<not> opened then do { m1 \<leftarrow> parameter_array_free n (Some a) m; Some (C_SinkClosed, None, m1) }
                else do { (ps, m1) \<leftarrow> parameter_array_consume n a m; Some (C_Ok, Some ps, m1) })))"

text \<open>The listener of the server, with the callback of the caller as an argument.\<close>

definition server_on_set_parameters ::
  "vec_ops \<Rightarrow> nat \<Rightarrow> (addr \<Rightarrow> mem \<Rightarrow> (addr option \<times> mem) option) option \<Rightarrow> Parameter list \<Rightarrow> mem \<Rightarrow> (Parameter list \<times> mem) option" where
  "server_on_set_parameters V n callback params m =
     (case callback of
        None \<Rightarrow> Some ([], m)
      | Some f \<Rightarrow> do {
          (r, m1) \<leftarrow> params_from V params m;
          (case mem_alloc (B_params r) m1 of (c_params, m2) \<Rightarrow> do {
             (raw, m3) \<leftarrow> f c_params m2;
             m4 \<leftarrow> parameter_array_free n (Some c_params) m3;
             (case raw of None \<Rightarrow> Some ([], m4) | Some a \<Rightarrow> parameter_array_consume n a m4)
           })
        })"

definition server_on_get_parameters ::
  "nat \<Rightarrow> (mem \<Rightarrow> (addr option \<times> mem) option) option \<Rightarrow> mem \<Rightarrow> (Parameter list \<times> mem) option" where
  "server_on_get_parameters n callback m =
     (case callback of
        None \<Rightarrow> Some ([], m)
      | Some f \<Rightarrow> do {
          (raw, m1) \<leftarrow> f m;
          (case raw of None \<Rightarrow> Some ([], m1) | Some a \<Rightarrow> parameter_array_consume n a m1)
        })"

text \<open>The argument \<open>estimate\<close> is \<open>base64::decoded_len_estimate\<close>; \<open>cap\<close> is the content of \<open>len\<close>, and \<open>data\<close> whether the buffer
  is not null. Decoding into a buffer that is too small panics. The results are the new content of \<open>len\<close> and the bytes
  written.\<close>

definition parameter_get_byte_array_decoded_size ::
  "(nat \<Rightarrow> nat) \<Rightarrow> addr option \<Rightarrow> mem \<Rightarrow> (c_error \<times> nat option) option" where
  "parameter_get_byte_array_decoded_size estimate param m =
     (case param of
        None \<Rightarrow> Some (C_ValueError, None)
      | Some a \<Rightarrow> do {
          p \<leftarrow> read_param a m;
          encoded \<leftarrow> get_byte_array_as_str p m;
          (case encoded of
             None \<Rightarrow> Some (C_ValueError, None)
           | Some s \<Rightarrow> Some (C_Ok, Some (estimate (length s))))
        })"

definition parameter_decode_byte_array ::
  "base64_ops \<Rightarrow> (nat \<Rightarrow> nat) \<Rightarrow> addr option \<Rightarrow> bool \<Rightarrow> nat \<Rightarrow> mem \<Rightarrow> (c_error \<times> (nat \<times> u8 list) option) option" where
  "parameter_decode_byte_array E estimate param data cap m =
     (case param of
        None \<Rightarrow> Some (C_ValueError, None)
      | Some a \<Rightarrow> do {
          p \<leftarrow> read_param a m;
          encoded \<leftarrow> get_byte_array_as_str p m;
          (case encoded of
             None \<Rightarrow> Some (C_ValueError, None)
           | Some s \<Rightarrow>
               (if cap < estimate (length s) then Some (C_BufferTooShort, None)
                else
                  (case b64_decode E s of
                     Inl _ \<Rightarrow> Some (C_Base64DecodeError, None)
                   | Inr bytes \<Rightarrow>
                       (if (if data then cap else 0) < length bytes then None
                        else Some (C_Ok, Some (length bytes, bytes))))))
        })"

end
