(* ===== verification/C_Ownership.thy ===== *)
theory C_Ownership
  imports C_Parameter
begin

text \<open>
  The ownership of the memory of the C parameters. A tree \<open>ctree\<close> is what a value stands for, with the
  capacities of its vectors; \<open>own_value h t v A\<close> says that the struct \<open>v\<close> represents the tree \<open>t\<close> in the heap
  \<open>h\<close> and that its blocks are exactly those at the addresses \<open>A\<close>. The lemmas show for each recursive
  operation that it touches only that footprint: dropping erases it, cloning adds a fresh one, and the
  conversion to the native type erases it and yields \<open>native t\<close> when every array of the tree is full
  (\<open>tight\<close>), and is undefined otherwise. The locale \<open>element\<close> is the contract of what a vector holds;
  values, dictionary entries and parameters interpret it.
\<close>

section \<open>Footprints\<close>

definition erase :: "addr set \<Rightarrow> mem \<Rightarrow> mem" where
  "erase A m = m \<lparr> heap := heap m |` (- A) \<rparr>"

definition agree :: "c_heap \<Rightarrow> c_heap \<Rightarrow> addr set \<Rightarrow> bool" where
  "agree h h' A \<longleftrightarrow> (\<forall>a\<in>A. h' a = h a)"

text \<open>\<open>A\<close> has been allocated on the way from \<open>m\<close> to \<open>m'\<close>, and nothing else has changed.\<close>

definition grown :: "mem \<Rightarrow> addr set \<Rightarrow> mem \<Rightarrow> bool" where
  "grown m A m' \<longleftrightarrow> next_addr m \<le> next_addr m' \<and> A \<subseteq> {next_addr m..<next_addr m'} \<and> agree (heap m) (heap m') (- A)"

definition mem_ok :: "mem \<Rightarrow> bool" where
  "mem_ok m \<longleftrightarrow> dom (heap m) \<subseteq> {..<next_addr m}"

lemma erase_simps [simp]:
  "erase {} m = m"
  "erase B (erase A m) = erase (A \<union> B) m"
  "next_addr (erase A m) = next_addr m"
  by (auto simp: erase_def restrict_map_def fun_eq_iff)

lemma heap_erase: "heap (erase A m) a = (if a \<in> A then None else heap m a)"
  by (simp add: erase_def restrict_map_def)

lemma release_erase: "release a m = erase {a} m"
  by (auto simp: release_def erase_def restrict_map_def fun_eq_iff)

lemma agree_Un [simp]: "agree h h' (A \<union> B) \<longleftrightarrow> agree h h' A \<and> agree h h' B"
  by (auto simp: agree_def)

lemma agree_insert [simp]: "agree h h' (insert a A) \<longleftrightarrow> h' a = h a \<and> agree h h' A"
  by (auto simp: agree_def)

lemma agree_empty [simp]: "agree h h' {}"
  by (simp add: agree_def)

lemma agree_refl [simp]: "agree h h A"
  by (simp add: agree_def)

lemma agree_erase [simp]: "A \<inter> B = {} \<Longrightarrow> agree h (heap (erase A m)) B \<longleftrightarrow> agree h (heap m) B"
  by (auto simp: agree_def heap_erase)

lemma agree_at: "agree h h' A \<Longrightarrow> a \<in> A \<Longrightarrow> h' a = h a"
  by (simp add: agree_def)

lemma agree_trans: "agree h h' A \<Longrightarrow> agree h' h'' A \<Longrightarrow> agree h h'' A"
  by (simp add: agree_def)

lemma grown_refl [simp]: "grown m {} m"
  by (simp add: grown_def)

lemma grown_trans: "grown m A m1 \<Longrightarrow> grown m1 B m2 \<Longrightarrow> grown m (A \<union> B) m2 \<and> A \<inter> B = {}"
  by (fastforce simp: grown_def agree_def)

lemma grown_agree: "grown m B m' \<Longrightarrow> A \<subseteq> {..<next_addr m} \<Longrightarrow> agree (heap m) (heap m') A"
  by (fastforce simp: grown_def agree_def)

lemma grown_below: "grown m B m' \<Longrightarrow> A \<subseteq> {..<next_addr m} \<Longrightarrow> A \<subseteq> {..<next_addr m'} \<and> A \<inter> B = {}"
  by (fastforce simp: grown_def)

lemma grown_alloc: "mem_alloc b m = (a, m') \<Longrightarrow> grown m {a} m' \<and> heap m' a = Some b"
  by (auto simp: mem_alloc_def grown_def agree_def split: if_splits)

lemma grown_mem_ok: "grown m A m' \<Longrightarrow> mem_ok m \<Longrightarrow> mem_ok m'"
  unfolding grown_def mem_ok_def agree_def
  by (smt (verit, ccfv_SIG) ComplI atLeastLessThan_iff domIff lessThan_iff order_less_le_trans subset_iff)

section \<open>Trees and what they own\<close>

datatype ctree =
  CFloat u64
| CInt u64
| CBool bool
| CString string
| CArray nat "ctree list"
| CDict nat "(string \<times> ctree) list"

definition own_string :: "c_heap \<Rightarrow> string \<Rightarrow> FoxgloveStringBuf \<Rightarrow> bool" where
  "own_string h s b \<longleftrightarrow> h (fs_data b) = Some (B_string (as_bytes s)) \<and> fs_len b = length s \<and> is_str s"

fun own_items :: "('t \<Rightarrow> item \<Rightarrow> addr set \<Rightarrow> bool) \<Rightarrow> 't list \<Rightarrow> item list \<Rightarrow> addr set \<Rightarrow> bool" where
  "own_items P [] xs A \<longleftrightarrow> xs = [] \<and> A = {}"
| "own_items P (t # ts) xs A \<longleftrightarrow>
     (\<exists>x ys B C. xs = x # ys \<and> P t x B \<and> own_items P ts ys C \<and> B \<inter> C = {} \<and> A = B \<union> C)"

definition own_vec ::
  "c_heap \<Rightarrow> ('t \<Rightarrow> item \<Rightarrow> addr set \<Rightarrow> bool) \<Rightarrow> nat \<Rightarrow> 't list \<Rightarrow> raw_vec \<Rightarrow> addr set \<Rightarrow> bool" where
  "own_vec h P cap ts r A \<longleftrightarrow>
     (\<exists>xs B. h (rv_ptr r) = Some (B_vec cap xs) \<and> rv_len r = length xs \<and> rv_cap r = cap \<and> length xs \<le> cap \<and>
       own_items P ts xs B \<and> rv_ptr r \<notin> B \<and> A = insert (rv_ptr r) B)"

definition own_box ::
  "c_heap \<Rightarrow> (FoxgloveParameterValue \<Rightarrow> addr set \<Rightarrow> bool) \<Rightarrow> addr \<Rightarrow> addr set \<Rightarrow> bool" where
  "own_box h P a A \<longleftrightarrow> (\<exists>v B. h a = Some (B_value v) \<and> P v B \<and> a \<notin> B \<and> A = insert a B)"

definition own_entry ::
  "c_heap \<Rightarrow> (FoxgloveParameterValue \<Rightarrow> addr set \<Rightarrow> bool) \<Rightarrow> string \<Rightarrow> item \<Rightarrow> addr set \<Rightarrow> bool" where
  "own_entry h P k x A \<longleftrightarrow>
     (\<exists>e B. x = I_entry e \<and> own_string h k (de_key e) \<and> own_box h P (de_value e) B \<and> fs_data (de_key e) \<notin> B \<and>
       A = insert (fs_data (de_key e)) B)"

lemma own_items_cong [fundef_cong]:
  "ts = us \<Longrightarrow> xs = ys \<Longrightarrow> A = B \<Longrightarrow> (\<And>t x A. t \<in> set us \<Longrightarrow> P t x A \<longleftrightarrow> Q t x A) \<Longrightarrow>
     own_items P ts xs A = own_items Q us ys B"
  by (induction ts arbitrary: us xs ys A B) auto

lemma own_vec_cong [fundef_cong]:
  assumes "h = h'" "cap = cap'" "ts = us" "r = r'" "A = A'" "\<And>t x A. t \<in> set us \<Longrightarrow> P t x A \<longleftrightarrow> Q t x A"
  shows "own_vec h P cap ts r A = own_vec h' Q cap' us r' A'"
proof -
  have "own_items P us xs B = own_items Q us xs B" for xs B
    by (rule own_items_cong) (use assms in auto)
  then show ?thesis
    using assms(1-5) by (simp add: own_vec_def)
qed

lemma own_entry_cong [fundef_cong]:
  "h = h' \<Longrightarrow> k = k' \<Longrightarrow> x = x' \<Longrightarrow> A = A' \<Longrightarrow> (\<And>v B. P v B \<longleftrightarrow> Q v B) \<Longrightarrow> own_entry h P k x A = own_entry h' Q k' x' A'"
  by (simp add: own_entry_def own_box_def)

lemma size_member: "t \<in> set ts \<Longrightarrow> size t < Suc (size_list size ts)"
  by (induction ts) auto

lemma size_member_pair: "e \<in> set es \<Longrightarrow> size (snd e) < Suc (size_list (size_prod (\<lambda>_. 0) size) es)"
proof (induction es)
  case (Cons p es)
  then show ?case
    by (cases p) auto
qed simp

function own_value :: "c_heap \<Rightarrow> ctree \<Rightarrow> FoxgloveParameterValue \<Rightarrow> addr set \<Rightarrow> bool" where
  "own_value h (CFloat x) v A \<longleftrightarrow> v = value_float64 x \<and> A = {}"
| "own_value h (CInt x) v A \<longleftrightarrow> v = value_integer x \<and> A = {}"
| "own_value h (CBool x) v A \<longleftrightarrow> v = value_boolean x \<and> A = {}"
| "own_value h (CString s) v A \<longleftrightarrow>
     (\<exists>b. v = \<lparr> cv_tag = Tag_string, cv_data = D_string b \<rparr> \<and> own_string h s b \<and> A = {fs_data b})"
| "own_value h (CArray cap ts) v A \<longleftrightarrow>
     (\<exists>r. v = value_array r \<and> own_vec h (\<lambda>t x B. \<exists>w. x = I_value w \<and> own_value h t w B) cap ts r A)"
| "own_value h (CDict cap es) v A \<longleftrightarrow>
     (\<exists>r. v = value_dict r \<and> own_vec h (\<lambda>e x B. own_entry h (own_value h (snd e)) (fst e) x B) cap es r A)"
  by pat_completeness auto
termination
  by (relation "measure (\<lambda>(h, t, v, A). size t)") (auto dest: size_member size_member_pair)

definition own_item :: "c_heap \<Rightarrow> ctree \<Rightarrow> item \<Rightarrow> addr set \<Rightarrow> bool" where
  "own_item h t x A \<longleftrightarrow> (\<exists>w. x = I_value w \<and> own_value h t w A)"

definition own_pair :: "c_heap \<Rightarrow> string \<times> ctree \<Rightarrow> item \<Rightarrow> addr set \<Rightarrow> bool" where
  "own_pair h e = own_entry h (own_value h (snd e)) (fst e)"

lemma own_value_vec:
  "own_value h (CArray cap ts) v A \<longleftrightarrow> (\<exists>r. v = value_array r \<and> own_vec h (own_item h) cap ts r A)"
  "own_value h (CDict cap es) v A \<longleftrightarrow> (\<exists>r. v = value_dict r \<and> own_vec h (own_pair h) cap es r A)"
  by (simp_all add: own_item_def own_pair_def cong: own_vec_cong)

declare own_value.simps(5,6) [simp del]

text \<open>Ownership depends on the footprint only, and the footprint is allocated.\<close>

lemma own_string_local: "own_string h s b \<Longrightarrow> h' (fs_data b) = h (fs_data b) \<Longrightarrow> own_string h' s b"
  by (simp add: own_string_def)

lemma own_items_local:
  "own_items P ts xs A \<Longrightarrow> agree h h' A \<Longrightarrow> (\<And>t x B. t \<in> set ts \<Longrightarrow> P t x B \<Longrightarrow> agree h h' B \<Longrightarrow> Q t x B) \<Longrightarrow>
     own_items Q ts xs A"
  by (induction ts arbitrary: xs A) (auto, metis)

lemma own_vec_local:
  assumes "own_vec h P cap ts r A" "agree h h' A"
    and "\<And>t x B. t \<in> set ts \<Longrightarrow> P t x B \<Longrightarrow> agree h h' B \<Longrightarrow> Q t x B"
  shows "own_vec h' Q cap ts r A"
proof -
  obtain xs B where "h (rv_ptr r) = Some (B_vec cap xs)" "rv_len r = length xs" "rv_cap r = cap" "length xs \<le> cap"
    "own_items P ts xs B" "rv_ptr r \<notin> B" "A = insert (rv_ptr r) B"
    using assms(1) unfolding own_vec_def by blast
  moreover from this have "own_items Q ts xs B"
    using own_items_local [of P ts xs B h h' Q] assms(2,3) by simp
  ultimately show ?thesis
    using assms(2) by (auto simp: own_vec_def)
qed

lemma own_entry_local:
  assumes "own_entry h P k x A" "agree h h' A" "\<And>v B. P v B \<Longrightarrow> agree h h' B \<Longrightarrow> Q v B"
  shows "own_entry h' Q k x A"
  using assms unfolding own_entry_def own_box_def by (metis agree_insert own_string_local)

lemma own_value_local: "own_value h t v A \<Longrightarrow> agree h h' A \<Longrightarrow> own_value h' t v A"
proof (induction t arbitrary: v A)
  case (CArray cap ts)
  then have "own_item h' t x B" if "t \<in> set ts" "own_item h t x B" "agree h h' B" for t x B
    using that by (auto simp: own_item_def)
  then show ?case
    using CArray.prems own_vec_local [of h "own_item h" cap ts _ A h' "own_item h'"] by (auto simp: own_value_vec)
next
  case (CDict cap es)
  have "own_pair h' e x B" if "e \<in> set es" "own_pair h e x B" "agree h h' B" for e x B
    using that(2,3) unfolding own_pair_def by (rule own_entry_local) (use CDict.IH [of e] that(1) in \<open>auto simp: snds.simps\<close>)
  then show ?case
    using CDict.prems own_vec_local [of h "own_pair h" cap es _ A h' "own_pair h'"] by (auto simp: own_value_vec)
qed (auto intro: own_string_local)

lemma own_item_local: "own_item h t x A \<Longrightarrow> agree h h' A \<Longrightarrow> own_item h' t x A"
  unfolding own_item_def by (metis own_value_local)

lemma own_pair_local: "own_pair h e x A \<Longrightarrow> agree h h' A \<Longrightarrow> own_pair h' e x A"
  unfolding own_pair_def using own_entry_local [of h _ _ x A h' "own_value h' (snd e)"] own_value_local by blast

lemma own_items_dom:
  "own_items P ts xs A \<Longrightarrow> (\<And>t x B. t \<in> set ts \<Longrightarrow> P t x B \<Longrightarrow> B \<subseteq> D) \<Longrightarrow> A \<subseteq> D"
  by (induction ts arbitrary: xs A) (auto, blast+)

lemma own_vec_dom:
  "own_vec h P cap ts r A \<Longrightarrow> (\<And>t x B. t \<in> set ts \<Longrightarrow> P t x B \<Longrightarrow> B \<subseteq> dom h) \<Longrightarrow> A \<subseteq> dom h"
  unfolding own_vec_def by (metis domI insert_subset own_items_dom)

lemma own_value_dom: "own_value h t v A \<Longrightarrow> A \<subseteq> dom h"
proof (induction t arbitrary: v A)
  case (CArray cap ts)
  then have "B \<subseteq> dom h" if "t \<in> set ts" "own_item h t x B" for t x B
    using that unfolding own_item_def by blast
  then show ?case
    using CArray.prems own_vec_dom [of h "own_item h" cap ts _ A] unfolding own_value_vec by blast
next
  case (CDict cap es)
  have "B \<subseteq> dom h" if "e \<in> set es" "own_pair h e x B" for e x B
    using CDict.IH [of e "snd e"] that by (cases e) (fastforce simp: own_pair_def own_entry_def own_box_def own_string_def)
  then show ?case
    using CDict.prems own_vec_dom [of h "own_pair h" cap es _ A] unfolding own_value_vec by blast
qed (auto simp: own_string_def)

section \<open>Dropping\<close>

lemma string_as_str_owned: "own_string (heap m) s b \<Longrightarrow> string_as_str b m = Some s"
  by (simp add: own_string_def string_as_str_def str_simps)

lemma string_drop_owned: "own_string (heap m) s b \<Longrightarrow> string_drop b m = Some (erase {fs_data b} m)"
  by (simp add: own_string_def string_drop_def release_erase str_simps)

lemma string_into_string_owned: "own_string (heap m) s b \<Longrightarrow> string_into_string b m = Some (s, erase {fs_data b} m)"
  by (simp add: string_into_string_def string_as_str_owned string_drop_owned)

lemma fold_items_owned:
  assumes "own_items P ts xs A" "agree h (heap m) A"
    and "\<And>t x B m. t \<in> set ts \<Longrightarrow> P t x B \<Longrightarrow> agree h (heap m) B \<Longrightarrow> f x m = Some (erase B m)"
  shows "fold_items f xs m = Some (erase A m)"
  using assms
proof (induction ts arbitrary: xs A m)
  case (Cons t ts)
  then obtain x ys B C where xs: "xs = x # ys" "P t x B" "own_items P ts ys C" "B \<inter> C = {}" "A = B \<union> C"
    by auto
  have "f x m = Some (erase B m)"
    using Cons.prems(2) by (intro Cons.prems(3) [of t]) (auto simp: xs)
  moreover have "fold_items f ys (erase B m) = Some (erase C (erase B m))"
    using Cons.prems(2) xs(4) by (intro Cons.IH [OF xs(3)] Cons.prems(3)) (auto simp: xs)
  ultimately show ?case
    by (simp add: xs)
qed simp

lemma vec_items_owned:
  "own_vec h P cap ts r A \<Longrightarrow> agree h (heap m) A \<Longrightarrow>
     \<exists>xs B. vec_items r m = Some xs \<and> own_items P ts xs B \<and> agree h (heap m) B \<and> rv_ptr r \<notin> B \<and> A = insert (rv_ptr r) B \<and>
       rv_cap r = cap \<and> rv_len r = length xs \<and> heap m (rv_ptr r) = Some (B_vec cap xs)"
  by (auto simp: own_vec_def vec_items_def)

lemma vec_drop_owned:
  assumes "own_vec h P cap ts r A" "agree h (heap m) A"
    and "\<And>t x B m. t \<in> set ts \<Longrightarrow> P t x B \<Longrightarrow> agree h (heap m) B \<Longrightarrow> f x m = Some (erase B m)"
  shows "vec_drop f r m = Some (erase A m)"
proof -
  obtain xs B where "vec_items r m = Some xs" "own_items P ts xs B" "agree h (heap m) B" "rv_ptr r \<notin> B"
    "A = insert (rv_ptr r) B" "rv_cap r = cap" "heap m (rv_ptr r) = Some (B_vec cap xs)"
    using vec_items_owned [OF assms(1,2)] by auto
  then show ?thesis
    using fold_items_owned [of P ts xs B h m f] assms(3) by (simp add: vec_drop_def vec_free_def release_erase heap_erase)
qed

lemma drop_boxed_owned:
  assumes "own_box h P a A" "agree h (heap m) A"
    and "\<And>v B m. P v B \<Longrightarrow> agree h (heap m) B \<Longrightarrow> f v m = Some (erase B m)"
  shows "drop_boxed f a m = Some (erase A m)"
  using assms by (auto simp: own_box_def drop_boxed_def read_value_def release_erase)

lemma entry_drop_owned:
  assumes "own_entry h P k x A" "agree h (heap m) A"
    and "\<And>v B m. P v B \<Longrightarrow> agree h (heap m) B \<Longrightarrow> f v m = Some (erase B m)"
  shows "as_entry (entry_drop f) x m = Some (erase A m)"
proof -
  obtain e B where e: "x = I_entry e" "own_string h k (de_key e)" "own_box h P (de_value e) B"
    "fs_data (de_key e) \<notin> B" "A = insert (fs_data (de_key e)) B"
    using assms(1) by (auto simp: own_entry_def)
  then have "string_drop (de_key e) m = Some (erase {fs_data (de_key e)} m)"
    using assms(2) by (intro string_drop_owned) (auto intro: own_string_local)
  moreover have "drop_boxed f (de_value e) (erase {fs_data (de_key e)} m) = Some (erase B (erase {fs_data (de_key e)} m))"
    using e assms(2,3) by (intro drop_boxed_owned [of h P]) auto
  ultimately show ?thesis
    by (simp add: e as_entry_def entry_drop_def)
qed

lemma value_drop_owned:
  "own_value h t v A \<Longrightarrow> agree h (heap m) A \<Longrightarrow> size t < n \<Longrightarrow> value_drop n v m = Some (erase A m)"
proof (induction t arbitrary: v A m n)
  case (CArray cap ts)
  then obtain k where n: "n = Suc k"
    by (cases n) auto
  have "as_value (value_drop k) x m = Some (erase B m)" if "t \<in> set ts" "own_item h t x B" "agree h (heap m) B" for t x B m
    using that CArray.IH [of t] CArray.prems(3) size_member [of t ts] n by (auto simp: own_item_def as_value_def)
  then show ?case
    using CArray.prems(1,2) vec_drop_owned [of h "own_item h" cap ts _ A m "as_value (value_drop k)"] n
    by (auto simp: own_value_vec value_array_def)
next
  case (CDict cap es)
  then obtain k where n: "n = Suc k"
    by (cases n) auto
  have "as_entry (entry_drop (value_drop k)) x m = Some (erase B m)"
    if "e \<in> set es" "own_pair h e x B" "agree h (heap m) B" for e x B m
    using that(2,3) CDict.IH [of e "snd e"] CDict.prems(3) size_member_pair [OF that(1)] that(1) n
    by (intro entry_drop_owned [of h "own_value h (snd e)" "fst e"]) (auto simp: own_pair_def snds.simps)
  then show ?case
    using CDict.prems(1,2) vec_drop_owned [of h "own_pair h" cap es _ A m "as_entry (entry_drop (value_drop k))"] n
    by (auto simp: own_value_vec value_dict_def)
next
  case (CString s)
  then show ?case
    by (cases n) (auto intro!: string_drop_owned elim: own_string_local)
qed (auto simp: value_float64_def value_integer_def value_boolean_def gr0_conv_Suc dest: less_imp_Suc_add)

section \<open>The conversion to the native type\<close>

fun native :: "ctree \<Rightarrow> ParameterValue" where
  "native (CFloat x) = Float64 x"
| "native (CInt x) = Integer x"
| "native (CBool x) = PBool x"
| "native (CString s) = PString s"
| "native (CArray cap ts) = PArray (map native ts)"
| "native (CDict cap es) = PDict (btree_collect (map (\<lambda>e. (fst e, native (snd e))) es))"

text \<open>Every array is full.\<close>

fun tight :: "ctree \<Rightarrow> bool" where
  "tight (CArray cap ts) \<longleftrightarrow> cap = length ts \<and> (\<forall>t\<in>set ts. tight t)"
| "tight (CDict cap es) \<longleftrightarrow> (\<forall>e\<in>set es. tight (snd e))"
| "tight _ \<longleftrightarrow> True"

definition outcome :: "bool \<Rightarrow> 'a \<Rightarrow> addr set \<Rightarrow> mem \<Rightarrow> ('a \<times> mem) option" where
  "outcome ok x A m = (if ok then Some (x, erase A m) else None)"

lemma own_items_length: "own_items P ts xs A \<Longrightarrow> length xs = length ts"
  by (induction ts arbitrary: xs A) auto

lemma map_items_owned:
  assumes "own_items P ts xs A" "agree h (heap m) A"
    and "\<And>t x B m. t \<in> set ts \<Longrightarrow> P t x B \<Longrightarrow> agree h (heap m) B \<Longrightarrow> f x m = outcome (Q t) (g t) B m"
  shows "map_items f xs m = outcome (\<forall>t\<in>set ts. Q t) (map g ts) A m"
  using assms
proof (induction ts arbitrary: xs A m)
  case (Cons t ts)
  then obtain x ys B C where xs: "xs = x # ys" "P t x B" "own_items P ts ys C" "B \<inter> C = {}" "A = B \<union> C"
    by auto
  have "f x m = outcome (Q t) (g t) B m"
    using Cons.prems(2) by (intro Cons.prems(3) [of t]) (auto simp: xs)
  moreover have "map_items f ys (erase B m) = outcome (\<forall>t\<in>set ts. Q t) (map g ts) C (erase B m)"
    using Cons.prems(2) xs(4) by (intro Cons.IH [OF xs(3)] Cons.prems(3)) (auto simp: xs)
  ultimately show ?case
    by (auto simp: xs outcome_def)
qed (simp add: outcome_def)

lemma vec_into_owned:
  assumes "own_vec h P cap ts r A" "agree h (heap m) A"
    and "\<And>t x B m. t \<in> set ts \<Longrightarrow> P t x B \<Longrightarrow> agree h (heap m) B \<Longrightarrow> f x m = outcome (Q t) (g t) B m"
  shows "vec_into c f r m = outcome (c = cap \<and> (\<forall>t\<in>set ts. Q t)) (map g ts) A m"
proof -
  obtain xs B where xs: "vec_items r m = Some xs" "own_items P ts xs B" "agree h (heap m) B" "rv_ptr r \<notin> B"
    "A = insert (rv_ptr r) B" "rv_cap r = cap" "heap m (rv_ptr r) = Some (B_vec cap xs)"
    using vec_items_owned [OF assms(1,2)] by auto
  have "map_items f xs m = outcome (\<forall>t\<in>set ts. Q t) (map g ts) B m"
    by (rule map_items_owned [OF xs(2,3) assms(3)])
  then show ?thesis
    using xs by (auto simp: vec_into_def vec_free_def release_erase heap_erase outcome_def)
qed

lemma move_boxed_owned:
  assumes "own_box h P a A" "agree h (heap m) A"
    and "\<And>v B m. P v B \<Longrightarrow> agree h (heap m) B \<Longrightarrow> f v m = outcome q y B m"
  shows "move_boxed f a m = outcome q y A m"
proof -
  obtain v B where "h a = Some (B_value v)" "P v B" "a \<notin> B" "A = insert a B"
    using assms(1) by (auto simp: own_box_def)
  then show ?thesis
    using assms(2) assms(3) [of v B "erase {a} m"] by (simp add: move_boxed_def read_value_def release_erase outcome_def)
qed

lemma entry_into_native_owned:
  assumes "own_entry h P k x A" "agree h (heap m) A"
    and "\<And>v B m. P v B \<Longrightarrow> agree h (heap m) B \<Longrightarrow> f v m = outcome q y B m"
  shows "as_entry (entry_into_native f) x m = outcome q (k, y) A m"
proof -
  obtain e B where e: "x = I_entry e" "own_string h k (de_key e)" "own_box h P (de_value e) B"
    "fs_data (de_key e) \<notin> B" "A = insert (fs_data (de_key e)) B"
    using assms(1) by (auto simp: own_entry_def)
  have "move_boxed f (de_value e) m = outcome q y B m"
    using assms(2) by (intro move_boxed_owned [OF e(3)] assms(3)) (auto simp: e)
  moreover have "string_into_string (de_key e) (erase B m) = Some (k, erase {fs_data (de_key e)} (erase B m))"
    using assms(2) e by (intro string_into_string_owned) (auto intro: own_string_local simp: heap_erase)
  ultimately show ?thesis
    by (simp add: e as_entry_def entry_into_native_def outcome_def)
qed

lemma value_into_native_owned:
  "own_value h t v A \<Longrightarrow> agree h (heap m) A \<Longrightarrow> size t < n \<Longrightarrow> value_into_native n v m = outcome (tight t) (native t) A m"
proof (induction t arbitrary: v A m n)
  case (CArray cap ts)
  then obtain k where n: "n = Suc k"
    by (cases n) auto
  have f: "as_value (value_into_native k) x m = outcome (tight t) (native t) B m"
    if "t \<in> set ts" "own_item h t x B" "agree h (heap m) B" for t x B m
    using that CArray.IH [of t] CArray.prems(3) size_member [of t ts] n by (auto simp: own_item_def as_value_def)
  obtain r where r: "v = value_array r" "own_vec h (own_item h) cap ts r A"
    using CArray.prems(1) by (auto simp: own_value_vec)
  then have "rv_len r = length ts"
    by (auto simp: own_vec_def dest: own_items_length)
  then show ?case
    using vec_into_owned [OF r(2) CArray.prems(2) f] n by (auto simp: r(1) value_array_def outcome_def)
next
  case (CDict cap es)
  then obtain k where n: "n = Suc k"
    by (cases n) auto
  have f: "as_entry (entry_into_native (value_into_native k)) x m = outcome (tight (snd e)) (fst e, native (snd e)) B m"
    if "e \<in> set es" "own_pair h e x B" "agree h (heap m) B" for e x B m
    using that(2,3) CDict.IH [of e "snd e"] CDict.prems(3) size_member_pair [OF that(1)] that(1) n
    by (intro entry_into_native_owned [of h "own_value h (snd e)" "fst e"]) (auto simp: own_pair_def snds.simps)
  obtain r where r: "v = value_dict r" "own_vec h (own_pair h) cap es r A"
    using CDict.prems(1) by (auto simp: own_value_vec)
  then have "rv_cap r = cap"
    by (auto simp: own_vec_def)
  then show ?case
    using vec_into_owned [OF r(2) CDict.prems(2) f] n by (auto simp: r(1) value_dict_def outcome_def)
next
  case (CString s)
  then obtain b where b: "v = \<lparr> cv_tag = Tag_string, cv_data = D_string b \<rparr>" "own_string (heap m) s b" "A = {fs_data b}"
    by (auto dest: own_string_local [of h s _ "heap m"])
  then show ?case
    using CString.prems(3) string_into_string_owned [OF b(2)] by (cases n) (auto simp: outcome_def)
qed (auto simp: value_float64_def value_integer_def value_boolean_def outcome_def dest: less_imp_Suc_add)

section \<open>Cloning\<close>

text \<open>The call adds a footprint that is owned by its result.\<close>

definition produces :: "(c_heap \<Rightarrow> 'a \<Rightarrow> addr set \<Rightarrow> bool) \<Rightarrow> mem \<Rightarrow> ('a \<times> mem) option \<Rightarrow> bool" where
  "produces P m res \<longleftrightarrow> (\<exists>x m' B. res = Some (x, m') \<and> P (heap m') x B \<and> grown m B m')"

lemma produces_bind:
  assumes "produces P m res"
    and "\<And>x m' B. P (heap m') x B \<Longrightarrow> grown m B m' \<Longrightarrow>
           \<exists>y m'' C. k (x, m') = Some (y, m'') \<and> Q (heap m'') y (B \<union> C) \<and> grown m' C m''"
  shows "produces Q m (res \<bind> k)"
proof -
  obtain x m' B where 1: "res = Some (x, m')" "P (heap m') x B" "grown m B m'"
    using assms(1) by (auto simp: produces_def)
  then obtain y m'' C where "k (x, m') = Some (y, m'')" "Q (heap m'') y (B \<union> C)" "grown m' C m''"
    using assms(2) by blast
  then show ?thesis
    using 1 grown_trans [of m B m' C m''] by (auto simp: produces_def)
qed

lemma grown_inside: "grown m B m' \<Longrightarrow> B \<subseteq> {..<next_addr m'}"
  by (auto simp: grown_def)

lemma string_new_owned: "is_str s \<Longrightarrow> string_new s m = (b, m') \<Longrightarrow> own_string (heap m') s b \<and> grown m {fs_data b} m'"
  using grown_alloc [of "B_string (as_bytes s)" m] by (auto simp: string_new_def own_string_def split: prod.splits)

lemma box_value_owned:
  assumes "P (heap m) v B" "B \<subseteq> {..<next_addr m}" "\<And>h'. agree (heap m) h' B \<Longrightarrow> P h' v B" "box_value v m = (a, m')"
  shows "own_box (heap m') (P (heap m')) a (B \<union> {a}) \<and> grown m {a} m'"
proof -
  have "grown m {a} m' \<and> heap m' a = Some (B_value v)"
    using assms(4) by (simp add: box_value_def grown_alloc)
  then show ?thesis
    using assms(1-3) grown_agree [of m "{a}" m' B] grown_below [of m "{a}" m' B] by (auto simp: own_box_def)
qed

lemma vec_new_owned:
  assumes "own_items (P (heap m)) ts xs B" "B \<subseteq> {..<next_addr m}" "length xs \<le> cap"
    and "\<And>h h' t x B. P h t x B \<Longrightarrow> agree h h' B \<Longrightarrow> P h' t x B" "vec_new cap xs m = (r, m')"
  shows "own_vec (heap m') (P (heap m')) cap ts r (B \<union> {rv_ptr r}) \<and> grown m {rv_ptr r} m'"
proof -
  have g: "grown m {rv_ptr r} m'" "heap m' (rv_ptr r) = Some (B_vec cap xs)" "rv_len r = length xs" "rv_cap r = cap"
    using assms(5) grown_alloc [of "B_vec cap xs" m] by (auto simp: vec_new_def split: prod.splits)
  then have "agree (heap m) (heap m') B" "rv_ptr r \<notin> B"
    using grown_agree [OF g(1) assms(2)] grown_below [OF g(1) assms(2)] by auto
  then show ?thesis
    using g assms(1,3,4) own_items_local [of "P (heap m)" ts xs B "heap m" "heap m'" "P (heap m')"]
    by (auto simp: own_vec_def)
qed

lemma entry_new_owned:
  assumes "is_str k" "own_box (heap m) (P (heap m)) a B" "B \<subseteq> {..<next_addr m}"
    and "\<And>h h' v B. P h v B \<Longrightarrow> agree h h' B \<Longrightarrow> P h' v B" "entry_new k a m = (e, m')"
  shows "own_entry (heap m') (P (heap m')) k (I_entry e) (B \<union> {fs_data (de_key e)}) \<and> grown m {fs_data (de_key e)} m'"
proof -
  have g: "own_string (heap m') k (de_key e)" "grown m {fs_data (de_key e)} m'" "de_value e = a"
    using assms(1,5) string_new_owned [of k m] by (auto simp: entry_new_def split: prod.splits)
  have agr: "agree (heap m) (heap m') B" "fs_data (de_key e) \<notin> B"
    using grown_agree [OF g(2) assms(3)] grown_below [OF g(2) assms(3)] by auto
  then have "own_box (heap m') (P (heap m')) a B"
    using assms(2,4) by (fastforce simp: own_box_def)
  then show ?thesis
    using g agr by (auto simp: own_entry_def)
qed

lemma map_items_cloned:
  assumes "own_items P ts xs A" "agree h (heap m) A" "A \<subseteq> {..<next_addr m}"
    and "\<And>t x B m. t \<in> set ts \<Longrightarrow> P t x B \<Longrightarrow> agree h (heap m) B \<Longrightarrow> B \<subseteq> {..<next_addr m} \<Longrightarrow>
           produces (\<lambda>h. Q h (g t)) m (f x m)"
    and "\<And>h h' t x B. Q h t x B \<Longrightarrow> agree h h' B \<Longrightarrow> Q h' t x B"
  shows "produces (\<lambda>h. own_items (Q h) (map g ts)) m (map_items f xs m)"
  using assms(1-4)
proof (induction ts arbitrary: xs A m)
  case (Cons t ts)
  then obtain x ys B C where xs: "xs = x # ys" "P t x B" "own_items P ts ys C" "B \<inter> C = {}" "A = B \<union> C"
    by auto
  obtain y m1 D where 1: "f x m = Some (y, m1)" "Q (heap m1) (g t) y D" "grown m D m1"
    using Cons.prems(4) [of t x B m] Cons.prems(2,3) xs by (auto simp: produces_def)
  have "agree (heap m) (heap m1) C" "C \<subseteq> {..<next_addr m1}"
    using grown_agree [OF 1(3), of C] grown_below [OF 1(3), of C] Cons.prems(3) xs(5) by auto
  then have "produces (\<lambda>h. own_items (Q h) (map g ts)) m1 (map_items f ys m1)"
    using Cons.prems(2) xs(5) by (intro Cons.IH [OF xs(3)] Cons.prems(4)) (auto elim: agree_trans)
  then obtain zs m2 E where 2: "map_items f ys m1 = Some (zs, m2)" "own_items (Q (heap m2)) (map g ts) zs E" "grown m1 E m2"
    by (auto simp: produces_def)
  have "Q (heap m2) (g t) y D"
    using assms(5) [OF 1(2)] grown_agree [OF 2(3) grown_inside [OF 1(3)]] by blast
  then have "own_items (Q (heap m2)) (map g (t # ts)) (y # zs) (D \<union> E)"
    using 2(2) grown_trans [OF 1(3) 2(3)] by auto
  then show ?case
    using 1 2 grown_trans [OF 1(3) 2(3)] unfolding produces_def xs by auto
qed (auto simp: produces_def)

lemma vec_built:
  assumes "produces (\<lambda>h. own_items (Q h) ts) m res" "vec_laws V"
    and Q: "\<And>h h' t x B. Q h t x B \<Longrightarrow> agree h h' B \<Longrightarrow> Q h' t x B"
  shows "produces (\<lambda>h. own_vec h (Q h) (collect_cap V (length ts)) ts) m
     (do { (xs, m1) \<leftarrow> res; Some (vec_new (collect_cap V (length xs)) xs m1) })"
proof -
  obtain xs m1 B where 1: "res = Some (xs, m1)" "own_items (Q (heap m1)) ts xs B" "grown m B m1"
    using assms(1) by (auto simp: produces_def)
  obtain r m2 where r: "vec_new (collect_cap V (length xs)) xs m1 = (r, m2)"
    by force
  have "own_vec (heap m2) (Q (heap m2)) (collect_cap V (length xs)) ts r (B \<union> {rv_ptr r}) \<and> grown m1 {rv_ptr r} m2"
    using assms(2) by (intro vec_new_owned [where P = Q, OF 1(2) grown_inside [OF 1(3)] _ Q r]) (auto simp: vec_laws_def)
  then show ?thesis
    using 1(1) r own_items_length [OF 1(2)] grown_trans [OF 1(3), of "{rv_ptr r}" m2] unfolding produces_def by fastforce
qed

lemma vec_clone_owned:
  assumes "own_vec h P cap ts r A" "agree h (heap m) A" "A \<subseteq> {..<next_addr m}" "vec_laws V"
    and "\<And>t x B m. t \<in> set ts \<Longrightarrow> P t x B \<Longrightarrow> agree h (heap m) B \<Longrightarrow> B \<subseteq> {..<next_addr m} \<Longrightarrow>
           produces (\<lambda>h. Q h (g t)) m (f x m)"
    and Q: "\<And>h h' t x B. Q h t x B \<Longrightarrow> agree h h' B \<Longrightarrow> Q h' t x B"
  shows "produces (\<lambda>h. own_vec h (Q h) (collect_cap V (length ts)) (map g ts)) m (vec_clone V f r m)"
proof -
  obtain xs B where xs: "vec_items r m = Some xs" "own_items P ts xs B" "agree h (heap m) B" "B \<subseteq> A"
    using vec_items_owned [OF assms(1,2)] by auto
  have "produces (\<lambda>h. own_items (Q h) (map g ts)) m (map_items f xs m)"
    by (rule map_items_cloned [where Q = Q and g = g and f = f, OF xs(2,3) subset_trans [OF xs(4) assms(3)] assms(5) Q])
  from vec_built [where Q = Q, OF this assms(4) Q] show ?thesis
    by (simp add: vec_clone_def xs(1))
qed

lemma box_built:
  assumes "produces Q m res" and Q: "\<And>h h' v B. Q h v B \<Longrightarrow> agree h h' B \<Longrightarrow> Q h' v B"
  shows "produces (\<lambda>h. own_box h (Q h)) m (do { (w, m1) \<leftarrow> res; Some (box_value w m1) })"
proof -
  obtain w m1 C where 1: "res = Some (w, m1)" "Q (heap m1) w C" "grown m C m1"
    using assms(1) by (auto simp: produces_def)
  obtain a m2 where 2: "box_value w m1 = (a, m2)"
    by force
  have "own_box (heap m2) (Q (heap m2)) a (C \<union> {a}) \<and> grown m1 {a} m2"
    using box_value_owned [of Q m1 w C a m2] 1 2 grown_inside Q by blast
  then show ?thesis
    using 1(1) 2 grown_trans [OF 1(3), of "{a}" m2] unfolding produces_def by fastforce
qed

lemma entry_built:
  assumes "produces Q m res" "is_str k" and Q: "\<And>h h' v B. Q h v B \<Longrightarrow> agree h h' B \<Longrightarrow> Q h' v B"
  shows "produces (\<lambda>h. own_entry h (Q h) k) m
     (do { (w, m1) \<leftarrow> res; (case box_value w m1 of (a, m2) \<Rightarrow> case entry_new k a m2 of (e, m3) \<Rightarrow> Some (I_entry e, m3)) })"
proof -
  have "produces (\<lambda>h. own_box h (Q h)) m (do { (w, m1) \<leftarrow> res; Some (box_value w m1) })"
    by (rule box_built [where Q = Q]) (use assms in auto)
  then obtain a m2 C where 1: "(do { (w, m1) \<leftarrow> res; Some (box_value w m1) }) = Some (a, m2)"
    "own_box (heap m2) (Q (heap m2)) a C" "grown m C m2"
    by (auto simp: produces_def)
  obtain e m3 where 2: "entry_new k a m2 = (e, m3)"
    by force
  have "own_entry (heap m3) (Q (heap m3)) k (I_entry e) (C \<union> {fs_data (de_key e)}) \<and> grown m2 {fs_data (de_key e)} m3"
    by (rule entry_new_owned [where P = Q, OF assms(2) 1(2) grown_inside [OF 1(3)] Q 2])
  then show ?thesis
    using 1(1) 2 grown_trans [OF 1(3), of "{fs_data (de_key e)}" m3] unfolding produces_def
    by (cases res) (auto intro!: exI [of _ "C \<union> {fs_data (de_key e)}"])
qed

lemma entry_clone_owned:
  assumes "own_entry h P k x A" "agree h (heap m) A" "A \<subseteq> {..<next_addr m}"
    and "\<And>v B m. P v B \<Longrightarrow> agree h (heap m) B \<Longrightarrow> B \<subseteq> {..<next_addr m} \<Longrightarrow> produces Q m (f v m)"
    and Q: "\<And>h h' v B. Q h v B \<Longrightarrow> agree h h' B \<Longrightarrow> Q h' v B"
  shows "produces (\<lambda>h. own_entry h (Q h) k) m (as_entry (entry_clone f) x m)"
proof -
  obtain e v B where e: "x = I_entry e" "own_string h k (de_key e)" "h (de_value e) = Some (B_value v)" "P v B"
    "B \<subseteq> A" "fs_data (de_key e) \<in> A" "de_value e \<in> A"
    using assms(1) by (auto simp: own_entry_def own_box_def)
  have 0: "read_value (de_value e) m = Some v" "string_as_str (de_key e) m = Some k" "is_str k" "agree h (heap m) B"
    using e agree_at [OF assms(2)] string_as_str_owned [OF own_string_local [OF e(2), of "heap m"]] assms(2)
    by (auto simp: read_value_def own_string_def agree_def)
  from entry_built [OF assms(4) [OF e(4) 0(4) subset_trans [OF e(5) assms(3)]] 0(3) Q] show ?thesis
    by (simp add: e(1) as_entry_def entry_clone_def 0)
qed

fun clone_tree :: "vec_ops \<Rightarrow> ctree \<Rightarrow> ctree" where
  "clone_tree V (CArray cap ts) = CArray (collect_cap V (length ts)) (map (clone_tree V) ts)"
| "clone_tree V (CDict cap es) = CDict (collect_cap V (length es)) (map (\<lambda>e. (fst e, clone_tree V (snd e))) es)"
| "clone_tree V t = t"

lemma native_clone_tree: "native (clone_tree V t) = native t"
proof (induction t)
  case (CDict cap es)
  then have "map (\<lambda>e. (fst e, native (clone_tree V (snd e)))) es = map (\<lambda>e. (fst e, native (snd e))) es"
    by (auto simp: snds.simps)
  then show ?case
    by (simp only: native.simps clone_tree.simps map_map comp_def fst_conv snd_conv)
qed simp_all

lemma value_clone_owned:
  assumes "vec_laws V"
  shows "own_value h t v A \<Longrightarrow> agree h (heap m) A \<Longrightarrow> A \<subseteq> {..<next_addr m} \<Longrightarrow> size t < n \<Longrightarrow>
     produces (\<lambda>h. own_value h (clone_tree V t)) m (value_clone V n v m)"
proof (induction t arbitrary: v A m n)
  case (CArray cap ts)
  then obtain k where n: "n = Suc k"
    by (cases n) auto
  obtain r where r: "v = value_array r" "own_vec h (own_item h) cap ts r A"
    using CArray.prems(1) by (auto simp: own_value_vec)
  have f: "produces (\<lambda>h. own_item h (clone_tree V t)) m
      (as_value (\<lambda>w m. do { (w', m') \<leftarrow> value_clone V k w m; Some (I_value w', m') }) x m)"
    if t: "t \<in> set ts" "own_item h t x B" "agree h (heap m) B" "B \<subseteq> {..<next_addr m}" for t x B m
  proof -
    obtain w where w: "x = I_value w" "own_value h t w B"
      using t(2) by (auto simp: own_item_def)
    then show ?thesis
      using CArray.IH [OF t(1) w(2) t(3,4), of k] CArray.prems(4) size_member [OF t(1)] n
      by (auto simp: as_value_def produces_def own_item_def)
  qed
  show ?case
    using vec_clone_owned [where Q = own_item and g = "clone_tree V", OF r(2) CArray.prems(2,3) assms f own_item_local] n
    by (fastforce simp: produces_def r(1) value_array_def own_value_vec)
next
  case (CDict cap es)
  then obtain k where n: "n = Suc k"
    by (cases n) auto
  obtain r where r: "v = value_dict r" "own_vec h (own_pair h) cap es r A"
    using CDict.prems(1) by (auto simp: own_value_vec)
  have f: "produces (\<lambda>h. own_pair h (fst e, clone_tree V (snd e))) m (as_entry (entry_clone (value_clone V k)) x m)"
    if "e \<in> set es" "own_pair h e x B" "agree h (heap m) B" "B \<subseteq> {..<next_addr m}" for e x B m
    using that(2) CDict.IH [OF that(1), of "snd e"] CDict.prems(4) size_member_pair [OF that(1)] n unfolding own_pair_def fst_conv snd_conv
    by (intro entry_clone_owned [where P = "own_value h (snd e)", OF _ that(3,4) _ own_value_local]) (auto simp: snds.simps)
  show ?case
    using vec_clone_owned [where Q = own_pair and g = "\<lambda>e. (fst e, clone_tree V (snd e))", OF r(2) CDict.prems(2,3) assms f own_pair_local] n
    by (fastforce simp: produces_def r(1) value_dict_def own_value_vec)
next
  case (CString s)
  then obtain b where b: "v = \<lparr> cv_tag = Tag_string, cv_data = D_string b \<rparr>" "own_string (heap m) s b"
    by (auto dest: own_string_local [of h s _ "heap m"])
  then show ?case
    using CString.prems(4) string_as_str_owned [OF b(2)] string_new_owned [of s m]
    by (cases n) (fastforce simp: produces_def value_string_def own_string_def split: prod.splits)+
qed (auto simp: value_float64_def value_integer_def value_boolean_def produces_def intro!: exI [of _ "{}"] dest: less_imp_Suc_add)

end
