(* ===== verification/C_Handles.thy ===== *)
theory C_Handles
  imports C_Ownership
begin

text \<open>
  The interface of the C parameters as its caller sees it. The caller holds pointers to values, arrays,
  dictionaries, parameters and parameter arrays; an abstract state \<open>handles\<close> maps each pointer to
  the tree it stands for. The specification \<open>c_spec\<close> says for every call that follows the documented
  contract which pointers it consumes, which error it returns and what the result stands for. The
  properties show that the memory of the model refines it: only one such call has undefined behaviour
  (publishing a value array that is not full), the memory holds exactly what the live pointers own, and nothing is left once every pointer is consumed.
\<close>

section \<open>What replaces a footprint\<close>

definition moves :: "mem \<Rightarrow> addr set \<Rightarrow> addr set \<Rightarrow> mem \<Rightarrow> bool" where
  "moves m A B m' \<longleftrightarrow> next_addr m \<le> next_addr m' \<and> B \<subseteq> A \<union> {next_addr m..<next_addr m'} \<and>
     (\<forall>a. a \<notin> A \<union> B \<longrightarrow> heap m' a = heap m a) \<and> (\<forall>a\<in>A - B. heap m' a = None)"

lemma moves_refl [simp]: "moves m A A m"
  by (simp add: moves_def)

lemma moves_grown: "grown m B m' \<Longrightarrow> moves m {} B m'"
  by (auto simp: grown_def moves_def agree_def)

lemma moves_erase: "moves m A {} (erase A m)"
  by (simp add: moves_def heap_erase)

lemma mem_ok_None: "mem_ok m \<Longrightarrow> next_addr m \<le> a \<Longrightarrow> heap m a = None"
  by (force simp: mem_ok_def)

lemma moves_trans:
  assumes "mem_ok m" "moves m A B m1" "moves m1 B C m2"
  shows "moves m A C m2"
proof -
  have "heap m2 a = heap m a" if "a \<notin> A \<union> C" for a
  proof (cases "a \<in> B")
    case True
    then have "next_addr m \<le> a" "heap m2 a = None"
      using that assms(2,3) by (auto simp: moves_def)
    then show ?thesis
      using mem_ok_None [OF assms(1)] by simp
  qed (use that assms(2,3) in \<open>auto simp: moves_def\<close>)
  moreover have "heap m2 a = None" if "a \<in> A - C" for a
    using that assms(2,3) by (cases "a \<in> B") (auto simp: moves_def)
  moreover have "C \<subseteq> A \<union> {next_addr m..<next_addr m2}"
    using assms(2,3) unfolding moves_def by fastforce
  ultimately show ?thesis
    using assms(2,3) unfolding moves_def by (meson order_trans)
qed

lemma moves_frame:
  "moves m A B m' \<Longrightarrow> C \<subseteq> {..<next_addr m} \<Longrightarrow> A \<inter> C = {} \<Longrightarrow> moves m (A \<union> C) (B \<union> C) m'"
  unfolding moves_def by auto

lemma moves_agree: "moves m A B m' \<Longrightarrow> C \<subseteq> {..<next_addr m} \<Longrightarrow> A \<inter> C = {} \<Longrightarrow> agree (heap m) (heap m') C \<and> B \<inter> C = {}"
  unfolding moves_def agree_def by fastforce

lemma moves_dom: "moves m A B m' \<Longrightarrow> a \<in> dom (heap m') \<Longrightarrow> a \<in> B \<or> a \<in> dom (heap m) - A"
  by (cases "a \<in> A") (force simp: moves_def domIff)+

lemma moves_mem_ok: "moves m A B m' \<Longrightarrow> mem_ok m \<Longrightarrow> A \<subseteq> {..<next_addr m} \<Longrightarrow> mem_ok m'"
  unfolding mem_ok_def
proof
  fix a
  assume *: "moves m A B m'" "dom (heap m) \<subseteq> {..<next_addr m}" "A \<subseteq> {..<next_addr m}" "a \<in> dom (heap m')"
  show "a \<in> {..<next_addr m'}"
  proof (cases "a \<in> A \<union> B")
    case False
    then have "a \<in> dom (heap m)"
      using * by (auto simp: moves_def domIff)
    then show ?thesis
      using * by (auto simp: moves_def)
  qed (use * in \<open>fastforce simp: moves_def\<close>)
qed

section \<open>What a vector holds\<close>

lemma own_items_snoc:
  "own_items P ts xs A \<Longrightarrow> P t x B \<Longrightarrow> A \<inter> B = {} \<Longrightarrow> own_items P (ts @ [t]) (xs @ [x]) (A \<union> B)"
proof (induction ts arbitrary: xs A)
  case (Cons u ts)
  then obtain y ys C D where xs: "xs = y # ys" "P u y C" "own_items P ts ys D" "C \<inter> D = {}" "A = C \<union> D"
    by auto
  then have "own_items P (ts @ [t]) (ys @ [x]) (D \<union> B)" "C \<inter> (D \<union> B) = {}"
    using Cons.IH [of ys D] Cons.prems(2,3) by auto
  then have "own_items P (u # (ts @ [t])) (y # (ys @ [x])) (C \<union> (D \<union> B))"
    using xs(2) unfolding own_items.simps by blast
  then show ?case
    by (simp add: xs Un_assoc)
qed simp

locale element =
  fixes own :: "c_heap \<Rightarrow> 't \<Rightarrow> item \<Rightarrow> addr set \<Rightarrow> bool"
    and weight :: "'t \<Rightarrow> nat"
    and drop :: "nat \<Rightarrow> item \<Rightarrow> mem \<Rightarrow> mem option"
  assumes own_local: "own h t x A \<Longrightarrow> agree h h' A \<Longrightarrow> own h' t x A"
    and own_dom: "own h t x A \<Longrightarrow> A \<subseteq> dom h"
    and drop_owned: "own (heap m) t x A \<Longrightarrow> weight t < n \<Longrightarrow> drop n x m = Some (erase A m)"
begin

lemma buffer_local: "own_vec h (own h) cap ts r A \<Longrightarrow> agree h h' A \<Longrightarrow> own_vec h' (own h') cap ts r A"
  by (erule own_vec_local) (auto intro: own_local)

lemma buffer_dom: "own_vec h (own h) cap ts r A \<Longrightarrow> A \<subseteq> dom h"
  by (erule own_vec_dom) (rule own_dom)

lemma buffer_drop:
  assumes "own_vec (heap m) (own (heap m)) cap ts r A" "\<forall>t\<in>set ts. weight t < n"
  shows "vec_drop (drop n) r m = Some (erase A m)"
  using assms(1) agree_refl
  by (rule vec_drop_owned) (metis assms(2) drop_owned own_local)

lemma buffer_empty:
  assumes "vec_new cap [] m = (r, m')"
  shows "own_vec (heap m') (own (heap m')) cap [] r {rv_ptr r} \<and> grown m {rv_ptr r} m'"
  using vec_new_owned [where P = own, of m "[]" "[]" "{}" cap r m'] own_local assms by simp

lemma buffer_push:
  assumes "own_vec (heap m) (own (heap m)) cap ts r A" "own (heap m) t x B" "A \<inter> B = {}" "mem_ok m" "vec_laws V"
  shows "\<exists>r' m' A'. raw_vec_push V r x m = Some (r', m') \<and> moves m (A \<union> B) A' m' \<and>
     own_vec (heap m') (own (heap m')) (if length ts < cap then cap else grow V cap) (ts @ [t]) r' A'"
proof -
  obtain xs C where xs: "vec_items r m = Some xs" "own_items (own (heap m)) ts xs C" "rv_ptr r \<notin> C" "A = insert (rv_ptr r) C"
    "rv_cap r = cap" "rv_len r = length xs" "heap m (rv_ptr r) = Some (B_vec cap xs)"
    using vec_items_owned [OF assms(1) agree_refl] by auto
  have len: "length xs = length ts" "length xs \<le> cap"
    using own_items_length [OF xs(2)] assms(1) xs(7) by (auto simp: own_vec_def)
  have below: "A \<union> B \<subseteq> {..<next_addr m}"
    using buffer_dom [OF assms(1)] own_dom [OF assms(2)] assms(4) by (auto simp: mem_ok_def)
  have items: "own_items (own (heap m)) (ts @ [t]) (xs @ [x]) (C \<union> B)"
    using own_items_snoc [of "own (heap m)" ts xs C t x B] xs(2,4) assms(2,3) by auto
  show ?thesis
  proof (cases "length ts < cap")
    case True
    let ?m = "m \<lparr> heap := (heap m)(rv_ptr r \<mapsto> B_vec (rv_cap r) (xs @ [x])) \<rparr>"
    have "agree (heap m) (heap ?m) (C \<union> B)"
      using xs(3,4) assms(3) by (auto simp: agree_def)
    then have "own_items (own (heap ?m)) (ts @ [t]) (xs @ [x]) (C \<union> B)"
      using items own_items_local own_local by blast
    then have "own_vec (heap ?m) (own (heap ?m)) cap (ts @ [t]) (r \<lparr> rv_len := rv_len r + 1 \<rparr>) (A \<union> B)"
      using xs assms(3) True len by (auto simp: own_vec_def intro!: exI [of _ "C \<union> B"])
    moreover have "moves m (A \<union> B) (A \<union> B) ?m"
      using xs(4) by (auto simp: moves_def)
    ultimately show ?thesis
      using True xs len by (auto simp: raw_vec_push_def)
  next
    case False
    let ?m = "erase {rv_ptr r} m"
    obtain r' m' where r': "vec_new (grow V cap) (xs @ [x]) ?m = (r', m')"
      by force
    have "agree (heap m) (heap ?m) (C \<union> B)"
      using xs(3,4) assms(3) by (auto simp: agree_def heap_erase)
    then have "own_items (own (heap ?m)) (ts @ [t]) (xs @ [x]) (C \<union> B)"
      using items own_items_local own_local by blast
    then have new: "own_vec (heap m') (own (heap m')) (grow V cap) (ts @ [t]) r' (C \<union> B \<union> {rv_ptr r'}) \<and> grown ?m {rv_ptr r'} m'"
      using below xs(4) assms(5) len by (intro vec_new_owned [where P = own, OF _ _ _ own_local r']) (auto simp: vec_laws_def Suc_le_eq le_less_trans)
    have "moves m (A \<union> B) (C \<union> B) ?m"
      using xs(3,4) assms(3) by (auto simp: moves_def heap_erase)
    moreover have "moves ?m ({} \<union> (C \<union> B)) ({rv_ptr r'} \<union> (C \<union> B)) m'"
      using new below xs(4) by (intro moves_frame moves_grown) auto
    ultimately have "moves m (A \<union> B) (C \<union> B \<union> {rv_ptr r'}) m'"
      using moves_trans [OF assms(4)] by (simp add: Un_commute)
    then show ?thesis
      using False new xs len r' by (auto simp: raw_vec_push_def vec_free_def release_erase)
  qed
qed

end

section \<open>Boxes and parameters\<close>

lemma own_box_local:
  "own_box h (own_value h t) a A \<Longrightarrow> agree h h' A \<Longrightarrow> own_box h' (own_value h' t) a A"
  unfolding own_box_def by (metis agree_insert own_value_local)

lemma own_box_dom: "own_box h (own_value h t) a A \<Longrightarrow> A \<subseteq> dom h"
  using own_value_dom unfolding own_box_def by fastforce

lemma drop_boxed_value:
  assumes "own_box (heap m) (own_value (heap m) t) a A" "size t < n"
  shows "drop_boxed (value_drop n) a m = Some (erase A m)"
  using assms(1) agree_refl by (rule drop_boxed_owned) (metis assms(2) value_drop_owned)

definition own_opt :: "c_heap \<Rightarrow> ctree option \<Rightarrow> addr option \<Rightarrow> addr set \<Rightarrow> bool" where
  "own_opt h vo v A \<longleftrightarrow>
     (case vo of None \<Rightarrow> v = None \<and> A = {} | Some t \<Rightarrow> (\<exists>a. v = Some a \<and> own_box h (own_value h t) a A))"

type_synonym cparam = "string \<times> FoxgloveParameterType \<times> ctree option"

definition own_param :: "c_heap \<Rightarrow> cparam \<Rightarrow> FoxgloveParameter \<Rightarrow> addr set \<Rightarrow> bool" where
  "own_param h q p A \<longleftrightarrow>
     (\<exists>B. own_string h (fst q) (cp_name p) \<and> cp_type p = fst (snd q) \<and> own_opt h (snd (snd q)) (cp_value p) B \<and>
       fs_data (cp_name p) \<notin> B \<and> A = insert (fs_data (cp_name p)) B)"

definition own_param_item :: "c_heap \<Rightarrow> cparam \<Rightarrow> item \<Rightarrow> addr set \<Rightarrow> bool" where
  "own_param_item h q x A \<longleftrightarrow> (\<exists>p. x = I_param p \<and> own_param h q p A)"

definition param_weight :: "cparam \<Rightarrow> nat" where
  "param_weight q = (case snd (snd q) of None \<Rightarrow> 0 | Some t \<Rightarrow> size t)"

definition native_param :: "cparam \<Rightarrow> Parameter" where
  "native_param q =
     \<lparr> param_name = fst q, param_type = type_to_native (fst (snd q)), param_value = map_option native (snd (snd q)) \<rparr>"

definition tight_param :: "cparam \<Rightarrow> bool" where
  "tight_param q \<longleftrightarrow> (case snd (snd q) of None \<Rightarrow> True | Some t \<Rightarrow> tight t)"

definition clone_param :: "vec_ops \<Rightarrow> cparam \<Rightarrow> cparam" where
  "clone_param V q = (fst q, fst (snd q), map_option (clone_tree V) (snd (snd q)))"

lemma own_opt_local: "own_opt h vo v A \<Longrightarrow> agree h h' A \<Longrightarrow> own_opt h' vo v A"
  by (auto simp: own_opt_def intro: own_box_local split: option.splits)

lemma own_opt_dom: "own_opt h vo v A \<Longrightarrow> A \<subseteq> dom h"
  using own_box_dom by (force simp: own_opt_def split: option.splits)

lemma own_param_local: "own_param h q p A \<Longrightarrow> agree h h' A \<Longrightarrow> own_param h' q p A"
  unfolding own_param_def by (metis agree_insert own_opt_local own_string_local)

lemma own_param_dom: "own_param h q p A \<Longrightarrow> A \<subseteq> dom h"
  using own_opt_dom by (fastforce simp: own_param_def own_string_def)

lemma param_drop_owned:
  assumes "own_param (heap m) q p A" "param_weight q < n"
  shows "param_drop n p m = Some (erase A m)"
proof -
  obtain B where B: "own_string (heap m) (fst q) (cp_name p)" "own_opt (heap m) (snd (snd q)) (cp_value p) B"
    "fs_data (cp_name p) \<notin> B" "A = insert (fs_data (cp_name p)) B"
    using assms(1) by (auto simp: own_param_def)
  then have "own_opt (heap (erase {fs_data (cp_name p)} m)) (snd (snd q)) (cp_value p) B"
    by (intro own_opt_local [OF B(2)]) simp
  then show ?thesis
    using B assms(2) by (auto simp: param_drop_def string_drop_owned own_opt_def param_weight_def drop_boxed_value
        split: option.splits)
qed

lemma param_into_native_owned:
  assumes "own_param h q p A" "agree h (heap m) A" "param_weight q < n"
  shows "param_into_native n p m = outcome (tight_param q) (native_param q) A m"
proof -
  obtain B where B: "own_string h (fst q) (cp_name p)" "cp_type p = fst (snd q)" "own_opt h (snd (snd q)) (cp_value p) B"
    "fs_data (cp_name p) \<notin> B" "A = insert (fs_data (cp_name p)) B"
    using assms(1) by (auto simp: own_param_def)
  have 1: "string_into_string (cp_name p) (erase B m) = Some (fst q, erase {fs_data (cp_name p)} (erase B m))"
    using assms(2) B by (intro string_into_string_owned) (auto intro: own_string_local simp: heap_erase)
  show ?thesis
  proof (cases "snd (snd q)")
    case None
    then show ?thesis
      using B 1 by (simp add: own_opt_def param_into_native_def outcome_def tight_param_def native_param_def)
  next
    case (Some t)
    then obtain a where a: "cp_value p = Some a" "own_box h (own_value h t) a B"
      using B(3) by (auto simp: own_opt_def)
    have "move_boxed (value_into_native n) a m = outcome (tight t) (native t) B m"
      using assms(2,3) B(5) Some by (intro move_boxed_owned [OF a(2)] value_into_native_owned) (auto simp: param_weight_def)
    then show ?thesis
      using B Some 1 a(1) by (simp add: param_into_native_def outcome_def tight_param_def native_param_def)
  qed
qed

interpretation value_elems: element own_item size "\<lambda>n. as_value (value_drop n)"
proof
  show "own_item h t x A \<Longrightarrow> A \<subseteq> dom h" for h t x A
    unfolding own_item_def using own_value_dom by blast
  show "own_item (heap m) t x A \<Longrightarrow> size t < n \<Longrightarrow> as_value (value_drop n) x m = Some (erase A m)" for m t x A n
    using value_drop_owned [of "heap m" t _ A m n] by (auto simp: own_item_def as_value_def)
qed (rule own_item_local)

interpretation entry_elems: element own_pair "\<lambda>e. size (snd e)" "\<lambda>n. as_entry (entry_drop (value_drop n))"
proof
  show "own_pair h e x A \<Longrightarrow> A \<subseteq> dom h" for h e x A
    using own_box_dom [of h "snd e"] by (fastforce simp: own_pair_def own_entry_def own_string_def)
  show "own_pair (heap m) e x A \<Longrightarrow> size (snd e) < n \<Longrightarrow> as_entry (entry_drop (value_drop n)) x m = Some (erase A m)"
    for m e x A n
    unfolding own_pair_def by (erule entry_drop_owned [OF _ agree_refl]) (metis value_drop_owned)
qed (rule own_pair_local)

interpretation param_elems: element own_param_item param_weight "\<lambda>n. as_param (param_drop n)"
proof
  show "own_param_item h q x A \<Longrightarrow> agree h h' A \<Longrightarrow> own_param_item h' q x A" for h q x A h'
    unfolding own_param_item_def using own_param_local by blast
  show "own_param_item h q x A \<Longrightarrow> A \<subseteq> dom h" for h q x A
    unfolding own_param_item_def using own_param_dom by blast
  show "own_param_item (heap m) q x A \<Longrightarrow> param_weight q < n \<Longrightarrow> as_param (param_drop n) x m = Some (erase A m)" for m q x A n
    using param_drop_owned [of m q _ A n] by (auto simp: own_param_item_def as_param_def)
qed

section \<open>Pointers of the caller\<close>

datatype chandle =
  H_value ctree
| H_array nat "ctree list"
| H_dict nat "(string \<times> ctree) list"
| H_param cparam
| H_params nat "cparam list"

type_synonym handles = "addr \<rightharpoonup> chandle"

definition own_boxed :: "c_heap \<Rightarrow> ('a \<Rightarrow> block) \<Rightarrow> ('a \<Rightarrow> addr set \<Rightarrow> bool) \<Rightarrow> addr \<Rightarrow> addr set \<Rightarrow> bool" where
  "own_boxed h K P a A \<longleftrightarrow> (\<exists>r B. h a = Some (K r) \<and> P r B \<and> a \<notin> B \<and> A = insert a B)"

fun own_handle :: "c_heap \<Rightarrow> chandle \<Rightarrow> addr \<Rightarrow> addr set \<Rightarrow> bool" where
  "own_handle h (H_value t) = own_boxed h B_value (own_value h t)"
| "own_handle h (H_array cap ts) = own_boxed h B_array (own_vec h (own_item h) cap ts)"
| "own_handle h (H_dict cap es) = own_boxed h B_dict (own_vec h (own_pair h) cap es)"
| "own_handle h (H_param q) = own_boxed h B_param (own_param h q)"
| "own_handle h (H_params cap qs) = own_boxed h B_params (own_vec h (own_param_item h) cap qs)"

text \<open>The bound on the depth is enough for the tree.\<close>

fun fits :: "nat \<Rightarrow> chandle \<Rightarrow> bool" where
  "fits n (H_value t) \<longleftrightarrow> size t < n"
| "fits n (H_array cap ts) \<longleftrightarrow> size (CArray cap ts) < n"
| "fits n (H_dict cap es) \<longleftrightarrow> size (CDict cap es) < n"
| "fits n (H_param q) \<longleftrightarrow> param_weight q < n"
| "fits n (H_params cap qs) \<longleftrightarrow> (\<forall>q\<in>set qs. param_weight q < n)"

definition owns :: "mem \<Rightarrow> handles \<Rightarrow> (addr \<Rightarrow> addr set) \<Rightarrow> bool" where
  "owns m H F \<longleftrightarrow> mem_ok m \<and> (\<forall>a ob. H a = Some ob \<longrightarrow> own_handle (heap m) ob a (F a)) \<and>
     (\<forall>a\<in>dom H. \<forall>b\<in>dom H. a \<noteq> b \<longrightarrow> F a \<inter> F b = {}) \<and> dom (heap m) = (\<Union>a\<in>dom H. F a)"

definition owned :: "mem \<Rightarrow> handles \<Rightarrow> bool" where
  "owned m H \<longleftrightarrow> (\<exists>F. owns m H F)"

lemma own_box_boxed: "own_box h P = own_boxed h B_value P"
  by (simp add: own_box_def own_boxed_def fun_eq_iff)

lemma own_boxed_local:
  assumes "own_boxed h K P a A" "agree h h' A" "\<And>r B. P r B \<Longrightarrow> agree h h' B \<Longrightarrow> Q r B"
  shows "own_boxed h' K Q a A"
  using assms unfolding own_boxed_def by (metis agree_insert)

lemma own_boxed_dom:
  assumes "own_boxed h K P a A" "\<And>r B. P r B \<Longrightarrow> B \<subseteq> dom h"
  shows "A \<subseteq> dom h"
  using assms unfolding own_boxed_def by blast

lemma own_handle_local: "own_handle h ob a A \<Longrightarrow> agree h h' A \<Longrightarrow> own_handle h' ob a A"
  by (cases ob)
    (auto elim!: own_boxed_local intro: own_value_local value_elems.buffer_local entry_elems.buffer_local own_param_local
      param_elems.buffer_local)

lemma own_handle_dom: "own_handle h ob a A \<Longrightarrow> A \<subseteq> dom h"
  by (cases ob)
    (simp_all, (erule own_boxed_dom, erule own_value_dom value_elems.buffer_dom entry_elems.buffer_dom own_param_dom
      param_elems.buffer_dom)+)

lemma own_handle_mem: "own_handle h ob a A \<Longrightarrow> a \<in> A"
  by (cases ob) (auto simp: own_boxed_def)

lemma owns_below: "owns m H F \<Longrightarrow> a \<in> dom H \<Longrightarrow> F a \<subseteq> {..<next_addr m}"
  unfolding owns_def mem_ok_def by blast

lemma owns_handle: "owns m H F \<Longrightarrow> H a = Some ob \<Longrightarrow> own_handle (heap m) ob a (F a)"
  by (simp add: owns_def)

lemma owns_disjoint: "owns m H F \<Longrightarrow> a \<in> dom H \<Longrightarrow> b \<in> dom H \<Longrightarrow> a \<noteq> b \<Longrightarrow> F a \<inter> F b = {}"
  unfolding owns_def by blast

lemma owns_rest:
  assumes "owns m H F" "S \<subseteq> dom H" "moves m (\<Union>(F ` S)) B m'" "a \<in> dom H - S"
  shows "agree (heap m) (heap m') (F a) \<and> B \<inter> F a = {}"
proof -
  have "F s \<inter> F a = {}" if "s \<in> S" for s
    using owns_disjoint [OF assms(1), of s a] assms(2,4) that by blast
  then have "\<Union>(F ` S) \<inter> F a = {}"
    by blast
  then show ?thesis
    using moves_agree [OF assms(3), of "F a"] owns_below [OF assms(1), of a] assms(4) by blast
qed

lemma owns_kept:
  assumes "owns m H F" "S \<subseteq> dom H" "moves m (\<Union>(F ` S)) B m'" "H a = Some ob" "a \<notin> S"
  shows "own_handle (heap m') ob a (F a)"
  using own_handle_local [OF owns_handle [OF assms(1,4)]] owns_rest [OF assms(1-3), of a] assms(4,5) by blast

lemma owns_heap:
  assumes "owns m H F" "S \<subseteq> dom H" "moves m (\<Union>(F ` S)) B m'" "B \<subseteq> dom (heap m')"
  shows "mem_ok m'" "dom (heap m') = B \<union> (\<Union>a\<in>dom H - S. F a)"
proof -
  have "\<Union>(F ` S) \<subseteq> {..<next_addr m}"
    using owns_below [OF assms(1)] assms(2) by blast
  then show "mem_ok m'"
    using moves_mem_ok [OF assms(3)] assms(1) by (simp add: owns_def)
  have "a \<in> B \<or> a \<in> (\<Union>a\<in>dom H - S. F a)" if "a \<in> dom (heap m')" for a
    using moves_dom [OF assms(3) that] assms(1) by (auto simp: owns_def)
  moreover have "F a \<subseteq> dom (heap m')" if "a \<in> dom H - S" for a
    using owns_rest [OF assms(1-3) that] that assms(1) unfolding owns_def agree_def by (metis DiffD1 UN_iff domIff subsetI)
  ultimately show "dom (heap m') = B \<union> (\<Union>a\<in>dom H - S. F a)"
    using assms(4) by blast
qed

lemma dom_put: "a \<in> dom ((H |` (- S))(b \<mapsto> ob)) \<Longrightarrow> a = b \<or> a \<in> dom H - S"
  by (cases "a = b") (auto simp: domIff restrict_map_def split: if_splits)

text \<open>A call that replaces what the pointers \<open>S\<close> own by one pointer, or by none.\<close>

lemma owned_put:
  assumes "owns m H F" "S \<subseteq> dom H" "moves m (\<Union>(F ` S)) B m'" "own_handle (heap m') ob b B"
  shows "owned m' ((H |` (- S))(b \<mapsto> ob))"
proof -
  note rest = owns_rest [OF assms(1-3)]
  have b: "b \<notin> F a" if "a \<in> dom H - S" for a
    using rest [OF that] own_handle_mem [OF assms(4)] by blast
  then have new: "b \<notin> dom H - S"
    using own_handle_mem [OF owns_handle [OF assms(1)]] by blast
  have "owns m' ((H |` (- S))(b \<mapsto> ob)) (F(b := B))"
    unfolding owns_def
  proof (intro conjI)
    show "mem_ok m'"
      using owns_heap [OF assms(1-3) own_handle_dom [OF assms(4)]] by blast
    show "dom (heap m') = (\<Union>a\<in>dom ((H |` (- S))(b \<mapsto> ob)). (F(b := B)) a)"
      using owns_heap(2) [OF assms(1-3) own_handle_dom [OF assms(4)]] new by (auto split: if_splits)
    show "\<forall>a ob'. ((H |` (- S))(b \<mapsto> ob)) a = Some ob' \<longrightarrow> own_handle (heap m') ob' a ((F(b := B)) a)"
      using assms(4) owns_kept [OF assms(1-3)] by (auto simp: restrict_map_def split: if_splits)
    show "\<forall>a\<in>dom ((H |` (- S))(b \<mapsto> ob)). \<forall>c\<in>dom ((H |` (- S))(b \<mapsto> ob)). a \<noteq> c \<longrightarrow> (F(b := B)) a \<inter> (F(b := B)) c = {}"
    proof (intro ballI impI)
      fix a c
      assume ac: "a \<in> dom ((H |` (- S))(b \<mapsto> ob))" "c \<in> dom ((H |` (- S))(b \<mapsto> ob))" "a \<noteq> c"
      then consider "a = b" "c \<noteq> b" "c \<in> dom H - S" | "a \<noteq> b" "c = b" "a \<in> dom H - S" |
        "a \<noteq> b" "c \<noteq> b" "a \<in> dom H" "c \<in> dom H"
        using dom_put [OF ac(1)] dom_put [OF ac(2)] by blast
      then show "(F(b := B)) a \<inter> (F(b := B)) c = {}"
        by cases (use rest [of a] rest [of c] owns_disjoint [OF assms(1) _ _ ac(3)] in \<open>simp_all add: Int_commute\<close>)
    qed
  qed
  then show ?thesis
    by (auto simp: owned_def)
qed

lemma owned_take:
  assumes "owns m H F" "S \<subseteq> dom H" "moves m (\<Union>(F ` S)) {} m'"
  shows "owned m' (H |` (- S))"
proof -
  note rest = owns_rest [OF assms(1-3)]
  have "owns m' (H |` (- S)) F"
    unfolding owns_def
  proof (intro conjI)
    show "mem_ok m'" "dom (heap m') = (\<Union>a\<in>dom (H |` (- S)). F a)"
      using owns_heap [OF assms(1-3)] by auto
    show "\<forall>a ob. (H |` (- S)) a = Some ob \<longrightarrow> own_handle (heap m') ob a (F a)"
      using owns_kept [OF assms(1-3)] by (auto simp: restrict_map_def split: if_splits)
    show "\<forall>a\<in>dom (H |` (- S)). \<forall>c\<in>dom (H |` (- S)). a \<noteq> c \<longrightarrow> F a \<inter> F c = {}"
      using owns_disjoint [OF assms(1)] by auto
  qed
  then show ?thesis
    by (auto simp: owned_def)
qed

end
