(* ===== verification/C_Api.thy ===== *)
theory C_Api
  imports C_Handles
begin

text \<open>
  The calls of the C interface of parameters, what the documentation promises of each (\<open>c_spec\<close>), and
  that the memory of the model refines it, except for one call that the documentation allows and the code
  does not survive (\<open>frees_short\<close>).
\<close>

section \<open>The calls\<close>

datatype c_call =
  Value_float64 u64
| Value_integer u64
| Value_boolean bool
| Value_string bool "u8 list"
| Value_array "addr option"
| Value_dict "addr option"
| Value_clone "addr option"
| Value_free "addr option"
| Array_create nat
| Array_push "addr option" "addr option"
| Array_free "addr option"
| Dict_create nat
| Dict_insert "addr option" "u8 list" "addr option"
| Dict_free "addr option"
| Param_create bool "u8 list" FoxgloveParameterType "addr option"
| Param_empty bool "u8 list"
| Param_float64 bool "u8 list" u64
| Param_integer bool "u8 list" u64
| Param_boolean bool "u8 list" bool
| Param_string bool "u8 list" "u8 list"
| Param_byte_array bool "u8 list" "u8 list"
| Param_float64_array bool "u8 list" "u64 list"
| Param_integer_array bool "u8 list" "u64 list"
| Param_dict bool "u8 list" "addr option"
| Param_clone "addr option"
| Param_free "addr option"
| Params_create nat
| Params_push "addr option" "addr option"
| Params_free "addr option"
| Publish_values "bool option" "addr option"

text \<open>The result of a call: the error code, the pointer it hands out, and the parameters it publishes.\<close>

type_synonym c_result = "c_error \<times> addr option \<times> Parameter list option"

definition gives :: "addr \<times> mem \<Rightarrow> (c_result \<times> mem) option" where
  "gives am = Some ((C_Ok, Some (fst am), None), snd am)"

definition gives_opt :: "(addr option \<times> mem) option \<Rightarrow> (c_result \<times> mem) option" where
  "gives_opt res = do { (a, m) \<leftarrow> res; Some ((C_Ok, a, None), m) }"

definition gives_err :: "(c_error \<times> addr option \<times> mem) option \<Rightarrow> (c_result \<times> mem) option" where
  "gives_err res = do { (err, a, m) \<leftarrow> res; Some ((err, a, None), m) }"

definition gives_code :: "(c_error \<times> mem) option \<Rightarrow> (c_result \<times> mem) option" where
  "gives_code res = do { (err, m) \<leftarrow> res; Some ((err, None, None), m) }"

definition gives_unit :: "mem option \<Rightarrow> (c_result \<times> mem) option" where
  "gives_unit res = do { m \<leftarrow> res; Some ((C_Ok, None, None), m) }"

fun c_exec :: "vec_ops \<Rightarrow> base64_ops \<Rightarrow> nat \<Rightarrow> c_call \<Rightarrow> mem \<Rightarrow> (c_result \<times> mem) option" where
  "c_exec V E n (Value_float64 x) m = gives (parameter_value_create_float64 x m)"
| "c_exec V E n (Value_integer x) m = gives (parameter_value_create_integer x m)"
| "c_exec V E n (Value_boolean x) m = gives (parameter_value_create_boolean x m)"
| "c_exec V E n (Value_string out s) m = gives_err (Some (parameter_value_create_string out s m))"
| "c_exec V E n (Value_array a) m = parameter_value_create_array a m \<bind> gives"
| "c_exec V E n (Value_dict a) m = parameter_value_create_dict a m \<bind> gives"
| "c_exec V E n (Value_clone a) m = gives_opt (parameter_value_clone V n a m)"
| "c_exec V E n (Value_free a) m = gives_unit (parameter_value_free n a m)"
| "c_exec V E n (Array_create cap) m = gives (parameter_value_array_create V cap m)"
| "c_exec V E n (Array_push b a) m = gives_code (parameter_value_array_push V n b a m)"
| "c_exec V E n (Array_free a) m = gives_unit (parameter_value_array_free n a m)"
| "c_exec V E n (Dict_create cap) m = gives (parameter_value_dict_create V cap m)"
| "c_exec V E n (Dict_insert b key a) m = gives_code (parameter_value_dict_insert V n b key a m)"
| "c_exec V E n (Dict_free a) m = gives_unit (parameter_value_dict_free n a m)"
| "c_exec V E n (Param_create out name t a) m = gives_err (parameter_create n out name t a m)"
| "c_exec V E n (Param_empty out name) m = gives_err (parameter_create_empty n out name m)"
| "c_exec V E n (Param_float64 out name x) m = gives_err (parameter_create_float64 n out name x m)"
| "c_exec V E n (Param_integer out name x) m = gives_err (parameter_create_integer n out name x m)"
| "c_exec V E n (Param_boolean out name x) m = gives_err (parameter_create_boolean n out name x m)"
| "c_exec V E n (Param_string out name s) m = gives_err (parameter_create_string n out name s m)"
| "c_exec V E n (Param_byte_array out name bs) m = gives_err (parameter_create_byte_array E n out name bs m)"
| "c_exec V E n (Param_float64_array out name xs) m = gives_err (parameter_create_float64_array V n out name xs m)"
| "c_exec V E n (Param_integer_array out name xs) m = gives_err (parameter_create_integer_array V n out name xs m)"
| "c_exec V E n (Param_dict out name a) m = gives_err (parameter_create_dict n out name a m)"
| "c_exec V E n (Param_clone a) m = gives_opt (parameter_clone V n a m)"
| "c_exec V E n (Param_free a) m = gives_unit (parameter_free n a m)"
| "c_exec V E n (Params_create cap) m = gives (parameter_array_create V cap m)"
| "c_exec V E n (Params_push b a) m = gives_code (parameter_array_push V n b a m)"
| "c_exec V E n (Params_free a) m = gives_unit (parameter_array_free n a m)"
| "c_exec V E n (Publish_values server a) m =
     do { (err, ps, m') \<leftarrow> server_publish_parameter_values n server a m; Some ((err, None, ps), m') }"

section \<open>The specification\<close>

text \<open>A call consumes pointers and yields a new one, changes one in place, or neither.\<close>

datatype c_out = Nothing | Fresh chandle | Update addr chandle

type_synonym c_effect = "c_error \<times> addr set \<times> c_out \<times> Parameter list option"

definition get_value :: "handles \<Rightarrow> addr \<Rightarrow> ctree option" where
  "get_value H a = (case H a of Some (H_value t) \<Rightarrow> Some t | _ \<Rightarrow> None)"

definition get_array :: "handles \<Rightarrow> addr \<Rightarrow> (nat \<times> ctree list) option" where
  "get_array H a = (case H a of Some (H_array cap ts) \<Rightarrow> Some (cap, ts) | _ \<Rightarrow> None)"

definition get_dict :: "handles \<Rightarrow> addr \<Rightarrow> (nat \<times> (string \<times> ctree) list) option" where
  "get_dict H a = (case H a of Some (H_dict cap es) \<Rightarrow> Some (cap, es) | _ \<Rightarrow> None)"

definition get_param :: "handles \<Rightarrow> addr \<Rightarrow> cparam option" where
  "get_param H a = (case H a of Some (H_param q) \<Rightarrow> Some q | _ \<Rightarrow> None)"

definition get_params :: "handles \<Rightarrow> addr \<Rightarrow> (nat \<times> cparam list) option" where
  "get_params H a = (case H a of Some (H_params cap qs) \<Rightarrow> Some (cap, qs) | _ \<Rightarrow> None)"

definition pushed_cap :: "vec_ops \<Rightarrow> nat \<Rightarrow> 'a list \<Rightarrow> nat" where
  "pushed_cap V cap ts = (if length ts < cap then cap else grow V cap)"

text \<open>The checks of an out pointer and of a name.\<close>

definition checked_name :: "bool \<Rightarrow> u8 list \<Rightarrow> (string, c_error) result" where
  "checked_name out name =
     (if \<not> out then Inl C_ValueError else case from_utf8 name of None \<Rightarrow> Inl C_Utf8Error | Some s \<Rightarrow> Inr s)"

definition spec_free :: "'a option \<Rightarrow> addr \<Rightarrow> c_effect option" where
  "spec_free t a = do { _ \<leftarrow> t; Some (C_Ok, {a}, Nothing, None) }"

definition spec_param :: "bool \<Rightarrow> u8 list \<Rightarrow> FoxgloveParameterType \<Rightarrow> ctree option \<Rightarrow> addr set \<Rightarrow> c_effect" where
  "spec_param out name t v S =
     (case checked_name out name of Inl err \<Rightarrow> (err, S, Nothing, None) | Inr s \<Rightarrow> (C_Ok, S, Fresh (H_param (s, t, v)), None))"

definition tree_array :: "vec_ops \<Rightarrow> ctree list \<Rightarrow> ctree" where
  "tree_array V ts = CArray (collect_cap V (length ts)) ts"

fun c_spec :: "vec_ops \<Rightarrow> base64_ops \<Rightarrow> c_call \<Rightarrow> handles \<Rightarrow> c_effect option" where
  "c_spec V E (Value_float64 x) H = Some (C_Ok, {}, Fresh (H_value (CFloat x)), None)"
| "c_spec V E (Value_integer x) H = Some (C_Ok, {}, Fresh (H_value (CInt x)), None)"
| "c_spec V E (Value_boolean x) H = Some (C_Ok, {}, Fresh (H_value (CBool x)), None)"
| "c_spec V E (Value_string out s) H =
     Some (case checked_name out s of Inl err \<Rightarrow> (err, {}, Nothing, None) | Inr s \<Rightarrow> (C_Ok, {}, Fresh (H_value (CString s)), None))"
| "c_spec V E (Value_array a) H =
     do { a \<leftarrow> a; (cap, ts) \<leftarrow> get_array H a; Some (C_Ok, {a}, Fresh (H_value (CArray cap ts)), None) }"
| "c_spec V E (Value_dict a) H =
     do { a \<leftarrow> a; (cap, es) \<leftarrow> get_dict H a; Some (C_Ok, {a}, Fresh (H_value (CDict cap es)), None) }"
| "c_spec V E (Value_clone a) H =
     (case a of
        None \<Rightarrow> Some (C_Ok, {}, Nothing, None)
      | Some a \<Rightarrow> do { t \<leftarrow> get_value H a; Some (C_Ok, {}, Fresh (H_value (clone_tree V t)), None) })"
| "c_spec V E (Value_free a) H = (case a of None \<Rightarrow> Some (C_Ok, {}, Nothing, None) | Some a \<Rightarrow> spec_free (get_value H a) a)"
| "c_spec V E (Array_create cap) H = Some (C_Ok, {}, Fresh (H_array (with_cap V cap) []), None)"
| "c_spec V E (Array_push b a) H =
     (case a of
        None \<Rightarrow> Some (C_ValueError, {}, Nothing, None)
      | Some a \<Rightarrow> do {
          t \<leftarrow> get_value H a;
          (case b of
             None \<Rightarrow> Some (C_ValueError, {a}, Nothing, None)
           | Some b \<Rightarrow> do {
               (cap, ts) \<leftarrow> get_array H b;
               Some (C_Ok, {a, b}, Update b (H_array (pushed_cap V cap ts) (ts @ [t])), None)
             })
        })"
| "c_spec V E (Array_free a) H = (case a of None \<Rightarrow> Some (C_Ok, {}, Nothing, None) | Some a \<Rightarrow> spec_free (get_array H a) a)"
| "c_spec V E (Dict_create cap) H = Some (C_Ok, {}, Fresh (H_dict (with_cap V cap) []), None)"
| "c_spec V E (Dict_insert b key a) H =
     (case a of
        None \<Rightarrow> Some (C_ValueError, {}, Nothing, None)
      | Some a \<Rightarrow> do {
          t \<leftarrow> get_value H a;
          (case b of
             None \<Rightarrow> Some (C_ValueError, {a}, Nothing, None)
           | Some b \<Rightarrow> do {
               (cap, es) \<leftarrow> get_dict H b;
               (case from_utf8 key of
                  None \<Rightarrow> Some (C_Utf8Error, {a}, Nothing, None)
                | Some k \<Rightarrow> Some (C_Ok, {a, b}, Update b (H_dict (pushed_cap V cap es) (es @ [(k, t)])), None))
             })
        })"
| "c_spec V E (Dict_free a) H = (case a of None \<Rightarrow> Some (C_Ok, {}, Nothing, None) | Some a \<Rightarrow> spec_free (get_dict H a) a)"
| "c_spec V E (Param_create out name t a) H =
     (case a of
        None \<Rightarrow> Some (spec_param out name t None {})
      | Some a \<Rightarrow> do { v \<leftarrow> get_value H a; Some (spec_param out name t (Some v) {a}) })"
| "c_spec V E (Param_empty out name) H = Some (spec_param out name Ty_none None {})"
| "c_spec V E (Param_float64 out name x) H = Some (spec_param out name Ty_float64 (Some (CFloat x)) {})"
| "c_spec V E (Param_integer out name x) H = Some (spec_param out name Ty_none (Some (CInt x)) {})"
| "c_spec V E (Param_boolean out name x) H = Some (spec_param out name Ty_none (Some (CBool x)) {})"
| "c_spec V E (Param_string out name s) H =
     Some (case from_utf8 s of
        None \<Rightarrow> (C_Utf8Error, {}, Nothing, None)
      | Some s \<Rightarrow> spec_param out name Ty_none (Some (CString s)) {})"
| "c_spec V E (Param_byte_array out name bs) H = Some (spec_param out name Ty_byte_array (Some (CString (b64_encode E bs))) {})"
| "c_spec V E (Param_float64_array out name xs) H =
     Some (spec_param out name Ty_float64_array (Some (tree_array V (map CFloat xs))) {})"
| "c_spec V E (Param_integer_array out name xs) H = Some (spec_param out name Ty_none (Some (tree_array V (map CInt xs))) {})"
| "c_spec V E (Param_dict out name a) H =
     do { a \<leftarrow> a; (cap, es) \<leftarrow> get_dict H a; Some (spec_param out name Ty_none (Some (CDict cap es)) {a}) }"
| "c_spec V E (Param_clone a) H =
     (case a of
        None \<Rightarrow> Some (C_Ok, {}, Nothing, None)
      | Some a \<Rightarrow> do { q \<leftarrow> get_param H a; Some (C_Ok, {}, Fresh (H_param (clone_param V q)), None) })"
| "c_spec V E (Param_free a) H = (case a of None \<Rightarrow> Some (C_Ok, {}, Nothing, None) | Some a \<Rightarrow> spec_free (get_param H a) a)"
| "c_spec V E (Params_create cap) H = Some (C_Ok, {}, Fresh (H_params (with_cap V cap) []), None)"
| "c_spec V E (Params_push b a) H =
     (case a of
        None \<Rightarrow> Some (C_ValueError, {}, Nothing, None)
      | Some a \<Rightarrow> do {
          q \<leftarrow> get_param H a;
          (case b of
             None \<Rightarrow> Some (C_ValueError, {a}, Nothing, None)
           | Some b \<Rightarrow> do {
               (cap, qs) \<leftarrow> get_params H b;
               Some (C_Ok, {a, b}, Update b (H_params (pushed_cap V cap qs) (qs @ [q])), None)
             })
        })"
| "c_spec V E (Params_free a) H = (case a of None \<Rightarrow> Some (C_Ok, {}, Nothing, None) | Some a \<Rightarrow> spec_free (get_params H a) a)"
| "c_spec V E (Publish_values server a) H =
     (case a of
        None \<Rightarrow> Some (C_ValueError, {}, Nothing, None)
      | Some a \<Rightarrow> do {
          (cap, qs) \<leftarrow> get_params H a;
          (case server of
             None \<Rightarrow> Some (C_ValueError, {a}, Nothing, None)
           | Some opened \<Rightarrow>
               (if \<not> opened then Some (C_SinkClosed, {a}, Nothing, None)
                else Some (C_Ok, {a}, Nothing, Some (map native_param qs))))
        })"

text \<open>A call that follows the contract, but makes the code free the buffer of a value array with its length as
  the capacity while the array is not full.\<close>

fun frees_short :: "c_call \<Rightarrow> handles \<Rightarrow> bool" where
  "frees_short (Publish_values (Some True) (Some a)) H =
     (case get_params H a of None \<Rightarrow> False | Some (cap, qs) \<Rightarrow> \<exists>q\<in>set qs. \<not> tight_param q)"
| "frees_short _ H = False"

text \<open>The pointers after a call that handed out \<open>r\<close>.\<close>

fun c_apply :: "handles \<Rightarrow> addr set \<Rightarrow> c_out \<Rightarrow> addr option \<Rightarrow> handles" where
  "c_apply H S (Fresh ob) (Some b) = (H |` (- S))(b \<mapsto> ob)"
| "c_apply H S (Update b ob) r = (H |` (- S))(b \<mapsto> ob)"
| "c_apply H S out r = H |` (- S)"

section \<open>The effect of a call on the memory\<close>

definition effect :: "mem \<Rightarrow> addr set \<Rightarrow> c_error \<Rightarrow> c_out \<Rightarrow> Parameter list option \<Rightarrow> (c_result \<times> mem) option \<Rightarrow> bool" where
  "effect m A err out pub res \<longleftrightarrow>
     (\<exists>r m' B. res = Some ((err, r, pub), m') \<and> moves m A B m' \<and>
       (case out of
          Nothing \<Rightarrow> r = None \<and> B = {}
        | Fresh ob \<Rightarrow> (\<exists>b. r = Some b \<and> own_handle (heap m') ob b B)
        | Update b ob \<Rightarrow> r = None \<and> own_handle (heap m') ob b B))"

lemma effect_after: "mem_ok m \<Longrightarrow> moves m A B m1 \<Longrightarrow> effect m1 B err out pub res \<Longrightarrow> effect m A err out pub res"
  unfolding effect_def using moves_trans by blast

lemma effect_none: "effect m {} err Nothing pub (Some ((err, None, pub), m))"
  by (simp add: effect_def)

lemma effect_erase: "effect m A err Nothing pub (Some ((err, None, pub), erase A m))"
  using moves_erase by (auto simp: effect_def)

lemma effect_fresh:
  "moves m A B m' \<Longrightarrow> own_handle (heap m') ob b B \<Longrightarrow> effect m A err (Fresh ob) pub (Some ((err, Some b, pub), m'))"
  by (auto simp: effect_def)

definition framed :: "(c_heap \<Rightarrow> 'a \<Rightarrow> addr set \<Rightarrow> bool) \<Rightarrow> bool" where
  "framed P \<longleftrightarrow> (\<forall>h h' r B. P h r B \<longrightarrow> agree h h' B \<longrightarrow> P h' r B)"

lemma framedD: "framed P \<Longrightarrow> P h r B \<Longrightarrow> agree h h' B \<Longrightarrow> P h' r B"
  unfolding framed_def by blast

lemma framed_own:
  "framed (\<lambda>h. own_value h t)" "framed (\<lambda>h. own_param h q)"
  "framed (\<lambda>h. own_vec h (own_item h) cap ts)" "framed (\<lambda>h. own_vec h (own_pair h) cap es)"
  "framed (\<lambda>h. own_vec h (own_param_item h) cap qs)"
  unfolding framed_def
  by (blast intro: own_value_local own_param_local value_elems.buffer_local entry_elems.buffer_local param_elems.buffer_local)+

lemma alloc_boxed:
  assumes "P (heap m) r B" "B \<subseteq> {..<next_addr m}" "framed P" "mem_alloc (K r) m = (a, m')"
  shows "own_boxed (heap m') K (P (heap m')) a (insert a B) \<and> moves m B (insert a B) m'"
proof -
  have g: "grown m {a} m'" "heap m' a = Some (K r)"
    using grown_alloc [OF assms(4)] by auto
  then have "P (heap m') r B" "a \<notin> B"
    using framedD [OF assms(3,1) grown_agree [OF g(1) assms(2)]] grown_below [OF g(1) assms(2)] by auto
  then show ?thesis
    using g moves_frame [OF moves_grown [OF g(1)] assms(2)] by (auto simp: own_boxed_def)
qed

lemma effect_alloc:
  assumes "P (heap m) r B" "B \<subseteq> {..<next_addr m}" "framed P"
    and "\<And>h. own_handle h ob = own_boxed h K (P h)"
  shows "effect m B C_Ok (Fresh ob) None (gives (mem_alloc (K r) m))"
proof -
  obtain a m' where a: "mem_alloc (K r) m = (a, m')"
    by force
  have "own_boxed (heap m') K (P (heap m')) a (insert a B) \<and> moves m B (insert a B) m'"
    by (rule alloc_boxed [where P = P and K = K and r = r]) (use assms a in auto)
  then show ?thesis
    using assms(4) a by (auto simp: gives_def intro!: effect_fresh)
qed

lemma effect_value:
  "own_value (heap m) t v B \<Longrightarrow> B \<subseteq> {..<next_addr m} \<Longrightarrow> effect m B C_Ok (Fresh (H_value t)) None (gives (box_value v m))"
  unfolding box_value_def by (rule effect_alloc [where P = "\<lambda>h. own_value h t"]) (auto simp: framed_own)

text \<open>A box is read, and what it holds survives when the box is released.\<close>

lemma boxed_open:
  assumes "own_boxed (heap m) K (P (heap m)) a A" "framed P"
  shows "\<exists>r B. heap m a = Some (K r) \<and> P (heap m) r B \<and> P (heap (release a m)) r B \<and> a \<notin> B \<and> A = insert a B \<and>
     moves m A B (release a m)"
proof -
  obtain r B where r: "heap m a = Some (K r)" "P (heap m) r B" "a \<notin> B" "A = insert a B"
    using assms(1) by (auto simp: own_boxed_def)
  then have "agree (heap m) (heap (release a m)) B" "moves m A B (release a m)"
    by (auto simp: agree_def moves_def release_erase heap_erase)
  then show ?thesis
    using r framedD [OF assms(2) r(2)] by blast
qed

lemma effect_drop:
  assumes "own_handle (heap m) ob a A" "fits n ob"
  shows "(case ob of
       H_value t \<Rightarrow> parameter_value_free n (Some a) m
     | H_array cap ts \<Rightarrow> parameter_value_array_free n (Some a) m
     | H_dict cap es \<Rightarrow> parameter_value_dict_free n (Some a) m
     | H_param q \<Rightarrow> parameter_free n (Some a) m
     | H_params cap qs \<Rightarrow> parameter_array_free n (Some a) m) = Some (erase A m)"
proof (cases ob)
  case (H_value t)
  then show ?thesis
    using assms drop_boxed_value [of m t a A n] by (simp add: own_box_boxed parameter_value_free_def)
next
  case (H_array cap ts)
  then obtain r B where "heap m a = Some (B_array r)" "vec_drop (as_value (value_drop n)) r m = Some (erase B m)" "A = insert a B"
    using assms value_elems.buffer_drop [of m cap ts _ _ n] by (fastforce simp: own_boxed_def dest: size_member)
  then show ?thesis
    by (simp add: H_array parameter_value_array_free_def read_array_def release_erase)
next
  case (H_dict cap es)
  then obtain r B where "heap m a = Some (B_dict r)"
    "vec_drop (as_entry (entry_drop (value_drop n))) r m = Some (erase B m)" "A = insert a B"
    using assms entry_elems.buffer_drop [of m cap es _ _ n] by (fastforce simp: own_boxed_def dest: size_member_pair)
  then show ?thesis
    by (simp add: H_dict parameter_value_dict_free_def read_dict_def release_erase)
next
  case (H_param q)
  then obtain p B where "heap m a = Some (B_param p)" "param_drop n p m = Some (erase B m)" "A = insert a B"
    using assms param_drop_owned [of m q _ _ n] by (auto simp: own_boxed_def)
  then show ?thesis
    by (simp add: H_param parameter_free_def read_param_def release_erase)
next
  case (H_params cap qs)
  then obtain r B where "heap m a = Some (B_params r)" "vec_drop (as_param (param_drop n)) r m = Some (erase B m)" "A = insert a B"
    using assms param_elems.buffer_drop [of m cap qs _ _ n] by (auto simp: own_boxed_def)
  then show ?thesis
    by (simp add: H_params parameter_array_free_def read_params_def release_erase)
qed

lemmas drop_handle =
  effect_drop [where ob = "H_value t" for t, unfolded chandle.case]
  effect_drop [where ob = "H_array cap ts" for cap ts, unfolded chandle.case]
  effect_drop [where ob = "H_dict cap es" for cap es, unfolded chandle.case]
  effect_drop [where ob = "H_param q" for q, unfolded chandle.case]
  effect_drop [where ob = "H_params cap qs" for cap qs, unfolded chandle.case]

text \<open>An element is pushed to the vector in a box.\<close>

context element
begin

lemma boxed_push:
  assumes "heap m b = Some (K r)" "own_vec (heap m) (own (heap m)) cap ts r A" "b \<notin> A"
    and "own (heap m) t x B" "insert b A \<inter> B = {}" "mem_ok m" "vec_laws V"
  shows "\<exists>r' m' C. raw_vec_push V r x m = Some (r', m') \<and> moves m (insert b A \<union> B) C (write_block b (K r') m') \<and>
     own_boxed (heap (write_block b (K r') m')) K (own_vec (heap (write_block b (K r') m')) (own (heap (write_block b (K r') m')))
       (pushed_cap V cap ts) (ts @ [t])) b C"
proof -
  have "A \<inter> B = {}"
    using assms(5) by blast
  then obtain r' m' A' where r': "raw_vec_push V r x m = Some (r', m')" "moves m (A \<union> B) A' m'"
    "own_vec (heap m') (own (heap m')) (pushed_cap V cap ts) (ts @ [t]) r' A'"
    using buffer_push [OF assms(2,4) _ assms(6,7)] by (auto simp: pushed_cap_def)
  have b: "b < next_addr m" "b \<notin> A \<union> B"
    using assms(1,3,5,6) by (auto simp: mem_ok_def)
  then have A': "b \<notin> A'"
    using r'(2) by (auto simp: moves_def)
  let ?m = "write_block b (K r') m'"
  have "agree (heap m') (heap ?m) A'"
    using A' by (auto simp: agree_def write_block_def)
  then have "own_boxed (heap ?m) K (own_vec (heap ?m) (own (heap ?m)) (pushed_cap V cap ts) (ts @ [t])) b (insert b A')"
    using buffer_local [OF r'(3)] A' by (auto simp: own_boxed_def write_block_def)
  moreover have "moves m (A \<union> B \<union> {b}) (A' \<union> {b}) m'"
    using b by (intro moves_frame [OF r'(2)]) auto
  then have "moves m (insert b A \<union> B) (insert b A') ?m"
    using moves_trans [OF assms(6), of "A \<union> B \<union> {b}" "A' \<union> {b}" m' "insert b A'" ?m]
    by (auto simp: moves_def write_block_def)
  ultimately show ?thesis
    using r'(1) by blast
qed

lemma boxed_move_push:
  assumes "own_boxed (heap m) K' (P (heap m)) a A" "own_boxed (heap m) K (own_vec (heap m) (own (heap m)) cap ts) b B"
    and "\<And>h v C. P h v C \<Longrightarrow> own h t (I v) C" "framed P"
    and "A \<inter> B = {}" "A \<union> B \<subseteq> {..<next_addr m}" "mem_ok m" "vec_laws V"
  shows "\<exists>v r r' m' C. heap m a = Some (K' v) \<and> heap m b = Some (K r) \<and> raw_vec_push V r (I v) (release a m) = Some (r', m') \<and>
     moves m (A \<union> B) C (write_block b (K r') m') \<and>
     own_boxed (heap (write_block b (K r') m')) K (own_vec (heap (write_block b (K r') m')) (own (heap (write_block b (K r') m')))
       (pushed_cap V cap ts) (ts @ [t])) b C"
proof -
  let ?m = "release a m"
  obtain v A' where v: "heap m a = Some (K' v)" "P (heap ?m) v A'" "a \<notin> A'" "A = insert a A'" "moves m A A' ?m"
    using boxed_open [of m K' P a A] assms(1,4) by blast
  obtain r B' where r: "heap m b = Some (K r)" "own_vec (heap m) (own (heap m)) cap ts r B'" "b \<notin> B'" "B = insert b B'"
    using assms(2) by (auto simp: own_boxed_def)
  have "agree (heap m) (heap ?m) B"
    using assms(5) v(4) by (auto simp: agree_def release_erase heap_erase)
  then have r1: "heap ?m b = Some (K r)" "own_vec (heap ?m) (own (heap ?m)) cap ts r B'"
    using r(1,4) buffer_local [OF r(2)] by auto
  have ok: "mem_ok ?m"
    using moves_mem_ok [OF v(5) assms(7)] assms(6) by blast
  obtain r' m' C where "raw_vec_push V r (I v) ?m = Some (r', m')" "moves ?m (insert b B' \<union> A') C (write_block b (K r') m')"
    "own_boxed (heap (write_block b (K r') m')) K (own_vec (heap (write_block b (K r') m')) (own (heap (write_block b (K r') m')))
       (pushed_cap V cap ts) (ts @ [t])) b C"
    using boxed_push [where K = K, OF r1 r(3) assms(3) [OF v(2)] _ ok assms(8)] assms(5) v(4) r(4) by blast
  moreover have "moves m (A \<union> B) (A' \<union> B) ?m"
    using assms(5,6) by (intro moves_frame [OF v(5)]) auto
  then have "moves m (A \<union> B) (insert b B' \<union> A') ?m"
    by (simp add: r(4) Un_commute)
  ultimately show ?thesis
    using moves_trans [OF assms(7)] v(1) r(1) by blast
qed

end

lemma own_handle_below: "own_handle (heap m) ob a A \<Longrightarrow> mem_ok m \<Longrightarrow> A \<subseteq> {..<next_addr m}"
  using own_handle_dom unfolding mem_ok_def by blast

lemma effect_array_push:
  assumes "own_handle (heap m) (H_value t) a A" "own_handle (heap m) (H_array cap ts) b B" "A \<inter> B = {}" "mem_ok m" "vec_laws V"
  shows "effect m (A \<union> B) C_Ok (Update b (H_array (pushed_cap V cap ts) (ts @ [t]))) None
     (gives_code (parameter_value_array_push V n (Some b) (Some a) m))"
proof -
  obtain v r r' m' C where *: "heap m a = Some (B_value v)" "heap m b = Some (B_array r)"
    "raw_vec_push V r (I_value v) (release a m) = Some (r', m')" "moves m (A \<union> B) C (write_block b (B_array r') m')"
    "own_handle (heap (write_block b (B_array r') m')) (H_array (pushed_cap V cap ts) (ts @ [t])) b C"
    using value_elems.boxed_move_push [where P = "\<lambda>h. own_value h t" and I = I_value and t = t, of m B_value a A B_array cap ts b B V]
      assms own_handle_below [OF assms(1,4)] own_handle_below [OF assms(2,4)]
    by (auto simp: framed_own own_item_def)
  then have "parameter_value_array_push V n (Some b) (Some a) m = Some (C_Ok, write_block b (B_array r') m')"
    by (simp add: parameter_value_array_push_def read_value_def read_array_def)
  then show ?thesis
    using *(4,5) by (auto simp: effect_def gives_code_def)
qed

lemma effect_params_push:
  assumes "own_handle (heap m) (H_param q) a A" "own_handle (heap m) (H_params cap qs) b B" "A \<inter> B = {}" "mem_ok m" "vec_laws V"
  shows "effect m (A \<union> B) C_Ok (Update b (H_params (pushed_cap V cap qs) (qs @ [q]))) None
     (gives_code (parameter_array_push V n (Some b) (Some a) m))"
proof -
  obtain p r r' m' C where *: "heap m a = Some (B_param p)" "heap m b = Some (B_params r)"
    "raw_vec_push V r (I_param p) (release a m) = Some (r', m')" "moves m (A \<union> B) C (write_block b (B_params r') m')"
    "own_handle (heap (write_block b (B_params r') m')) (H_params (pushed_cap V cap qs) (qs @ [q])) b C"
    using param_elems.boxed_move_push [where P = "\<lambda>h. own_param h q" and I = I_param and t = q, of m B_param a A B_params cap qs b B V]
      assms own_handle_below [OF assms(1,4)] own_handle_below [OF assms(2,4)]
    by (auto simp: framed_own own_param_item_def)
  then have "parameter_array_push V n (Some b) (Some a) m = Some (C_Ok, write_block b (B_params r') m')"
    by (simp add: parameter_array_push_def read_param_def read_params_def)
  then show ?thesis
    using *(4,5) by (auto simp: effect_def gives_code_def)
qed

lemma effect_dict_insert:
  assumes "own_handle (heap m) (H_value t) a A" "own_handle (heap m) (H_dict cap es) b B" "A \<inter> B = {}" "mem_ok m" "vec_laws V"
    and "from_utf8 key = Some k"
  shows "effect m (A \<union> B) C_Ok (Update b (H_dict (pushed_cap V cap es) (es @ [(k, t)]))) None
     (gives_code (parameter_value_dict_insert V n (Some b) key (Some a) m))"
proof -
  have below: "A \<subseteq> {..<next_addr m}" "B \<subseteq> {..<next_addr m}"
    using own_handle_below assms(1,2,4) by blast+
  obtain r B' where r: "heap m b = Some (B_dict r)" "own_vec (heap m) (own_pair (heap m)) cap es r B'" "b \<notin> B'" "B = insert b B'"
    using assms(2) by (auto simp: own_boxed_def)
  obtain e m1 where e: "entry_new k a m = (e, m1)"
    by force
  have "own_entry (heap m1) (own_value (heap m1) t) k (I_entry e) (A \<union> {fs_data (de_key e)}) \<and> grown m {fs_data (de_key e)} m1"
    using assms(1) from_utf8_Some [OF assms(6)] below(1) own_value_local e
    by (intro entry_new_owned [where P = "\<lambda>h. own_value h t"]) (auto simp: own_box_boxed)
  then have own: "own_pair (heap m1) (k, t) (I_entry e) (A \<union> {fs_data (de_key e)})" and g: "grown m {fs_data (de_key e)} m1"
    by (auto simp: own_pair_def)
  have "heap m1 b = Some (B_dict r)" "own_vec (heap m1) (own_pair (heap m1)) cap es r B'" "fs_data (de_key e) \<notin> B"
    using grown_agree [OF g below(2)] grown_below [OF g below(2)] r entry_elems.buffer_local [OF r(2)] by auto
  moreover from this have "insert b B' \<inter> (A \<union> {fs_data (de_key e)}) = {}"
    using assms(3) r(4) by auto
  moreover have "mem_ok m1"
    using grown_mem_ok [OF g assms(4)] .
  ultimately obtain r' m' C where push: "raw_vec_push V r (I_entry e) m1 = Some (r', m')"
    "moves m1 (insert b B' \<union> (A \<union> {fs_data (de_key e)})) C (write_block b (B_dict r') m')"
    "own_handle (heap (write_block b (B_dict r') m')) (H_dict (pushed_cap V cap es) (es @ [(k, t)])) b C"
    using entry_elems.boxed_push [where K = B_dict, OF _ _ r(3) own _ _ assms(5)] by fastforce
  have "moves m ({} \<union> (A \<union> B)) ({fs_data (de_key e)} \<union> (A \<union> B)) m1"
    using below by (intro moves_frame moves_grown g) auto
  then have "moves m (A \<union> B) C (write_block b (B_dict r') m')"
    using moves_trans [OF assms(4) _ push(2), of "A \<union> B"] by (simp add: r(4) Un_ac insert_commute)
  then show ?thesis
    using push(1,3) r(1) assms(6) e
    by (auto simp: effect_def gives_code_def parameter_value_dict_insert_def read_dict_def)
qed

lemma effect_produces:
  assumes "produces P m res" "framed P" "\<And>h. own_handle h ob = own_boxed h K (P h)"
  shows "effect m {} C_Ok (Fresh ob) None (do { (r, m1) \<leftarrow> res; gives (mem_alloc (K r) m1) })"
proof -
  obtain r m1 B where r: "res = Some (r, m1)" "P (heap m1) r B" "grown m B m1"
    using assms(1) by (auto simp: produces_def)
  obtain a m2 where a: "mem_alloc (K r) m1 = (a, m2)"
    by force
  have "own_boxed (heap m2) K (P (heap m2)) a (insert a B) \<and> grown m1 {a} m2"
    using alloc_boxed [where P = P and K = K, OF r(2) grown_inside [OF r(3)] assms(2) a] grown_alloc [OF a] by blast
  then have "own_handle (heap m2) ob a (B \<union> {a})" "moves m {} (B \<union> {a}) m2"
    using assms(3) grown_trans [OF r(3), of "{a}" m2] moves_grown [of m "B \<union> {a}" m2] by auto
  then show ?thesis
    using r(1) a by (auto simp: gives_def intro!: effect_fresh)
qed

lemma effect_value_clone:
  assumes "own_handle (heap m) (H_value t) a A" "size t < n" "mem_ok m" "vec_laws V"
  shows "effect m {} C_Ok (Fresh (H_value (clone_tree V t))) None (gives_opt (parameter_value_clone V n (Some a) m))"
proof -
  obtain v B where v: "heap m a = Some (B_value v)" "own_value (heap m) t v B" "B \<subseteq> A"
    using assms(1) by (auto simp: own_boxed_def)
  have "produces (\<lambda>h. own_value h (clone_tree V t)) m (value_clone V n v m)"
    using v(3) own_handle_below [OF assms(1,3)] by (intro value_clone_owned [OF assms(4) v(2) agree_refl _ assms(2)]) blast
  note effect_produces [OF this framed_own(1), of "H_value (clone_tree V t)" B_value]
  moreover have "gives_opt (parameter_value_clone V n (Some a) m) = do { (w, m1) \<leftarrow> value_clone V n v m; gives (mem_alloc (B_value w) m1) }"
    using v(1) by (cases "value_clone V n v m")
      (auto simp: gives_opt_def gives_def parameter_value_clone_def read_value_def box_value_def split: prod.splits)
  ultimately show ?thesis
    by simp
qed

section \<open>Parameters\<close>

lemma effect_param_create:
  assumes "own_opt (heap m) vo value A" "mem_ok m" "param_weight (x, y, vo) < n" "spec_param ok name ty vo S = (err, S', out, pub)"
  shows "effect m A err out pub (gives_err (parameter_create n ok name ty value m))"
proof (cases "checked_name ok name")
  case (Inl e)
  have drop: "(case value of None \<Rightarrow> Some (e, None, m) | Some a \<Rightarrow> do { m1 \<leftarrow> drop_boxed (value_drop n) a m; Some (e, None, m1) })
      = Some (e, None, erase A m)"
    using assms(1,3) drop_boxed_value [of m] by (auto simp: own_opt_def param_weight_def split: option.splits)
  then have "parameter_create n ok name ty value m = Some (e, None, erase A m)"
    using Inl unfolding parameter_create_def Let_def checked_name_def by (auto split: if_splits option.splits)
  then show ?thesis
    using assms(4) Inl effect_erase [of m A] by (auto simp: gives_err_def spec_param_def)
next
  case (Inr s)
  then have s: "ok" "from_utf8 name = Some s" "is_str s"
    by (auto simp: checked_name_def split: if_splits option.splits dest: from_utf8_Some)
  obtain b m1 where b: "string_new s m = (b, m1)"
    by force
  have g: "own_string (heap m1) s b" "grown m {fs_data b} m1"
    using string_new_owned [OF s(3) b] by auto
  have below: "A \<subseteq> {..<next_addr m}"
    using own_opt_dom [OF assms(1)] assms(2) unfolding mem_ok_def by blast
  let ?p = "\<lparr> cp_name = b, cp_type = ty, cp_value = value \<rparr>"
  have "own_param (heap m1) (s, ty, vo) ?p (insert (fs_data b) A)"
    using g(1) own_opt_local [OF assms(1) grown_agree [OF g(2) below]] grown_below [OF g(2) below] by (auto simp: own_param_def)
  moreover have "insert (fs_data b) A \<subseteq> {..<next_addr m1}"
    using grown_inside [OF g(2)] grown_below [OF g(2) below] by auto
  ultimately have "effect m1 (insert (fs_data b) A) C_Ok (Fresh (H_param (s, ty, vo))) None (gives (mem_alloc (B_param ?p) m1))"
    by (intro effect_alloc [where P = "\<lambda>h. own_param h (s, ty, vo)"]) (auto simp: framed_own)
  moreover have "moves m A (insert (fs_data b) A) m1"
    using moves_frame [OF moves_grown [OF g(2)] below] by simp
  ultimately have "effect m A C_Ok (Fresh (H_param (s, ty, vo))) None (gives (mem_alloc (B_param ?p) m1))"
    using effect_after [OF assms(2)] by blast
  moreover have "gives_err (parameter_create n ok name ty value m) = gives (mem_alloc (B_param ?p) m1)"
    using s b by (simp add: parameter_create_def param_new_def gives_err_def gives_def split: prod.splits)
  ultimately show ?thesis
    using assms(4) Inr by (auto simp: spec_param_def)
qed

lemma effect_param_boxed:
  assumes "own_value (heap m1) t v B" "grown m B m1" "mem_ok m" "size t < n" "spec_param ok name ty (Some t) S = (err, S', out, pub)"
  shows "effect m {} err out pub (gives_err (parameter_create_boxed n ok name ty (v, m1)))"
proof -
  obtain a m2 where a: "box_value v m1 = (a, m2)"
    by force
  have "own_box (heap m2) (own_value (heap m2) t) a (B \<union> {a}) \<and> grown m1 {a} m2"
    using box_value_owned [of "\<lambda>h. own_value h t" m1 v B a m2] assms(1) grown_inside [OF assms(2)] own_value_local a by blast
  then have own: "own_opt (heap m2) (Some t) (Some a) (B \<union> {a})" and g: "grown m (B \<union> {a}) m2"
    using grown_trans [OF assms(2)] by (auto simp: own_opt_def simp del: Un_insert_right)
  have "effect m2 (B \<union> {a}) err out pub (gives_err (parameter_create n ok name ty (Some a) m2))"
    using own grown_mem_ok [OF g assms(3)] _ assms(5) by (rule effect_param_create) (simp add: param_weight_def assms(4))
  then show ?thesis
    using effect_after [OF assms(3) moves_grown [OF g]] a by (simp add: parameter_create_boxed_def)
qed

lemma opt_clone_owned:
  assumes "own_opt (heap m) vo value A" "A \<subseteq> {..<next_addr m}" "param_weight (x, y, vo) < n" "vec_laws V"
  shows "produces (\<lambda>h. own_opt h (map_option (clone_tree V) vo)) m
     (case value of
        None \<Rightarrow> Some (None, m)
      | Some a \<Rightarrow> do { v \<leftarrow> read_value a m; (w, m1) \<leftarrow> value_clone V n v m; (case box_value w m1 of (b, m2) \<Rightarrow> Some (Some b, m2)) })"
proof (cases vo)
  case None
  then show ?thesis
    using assms(1) by (auto simp: own_opt_def produces_def intro!: exI [of _ "{}"])
next
  case (Some t)
  then obtain a v B where v: "value = Some a" "heap m a = Some (B_value v)" "own_value (heap m) t v B" "B \<subseteq> A"
    using assms(1) by (auto simp: own_opt_def own_box_def)
  have "produces (\<lambda>h. own_value h (clone_tree V t)) m (value_clone V n v m)"
    using v(4) assms(2,3) Some by (intro value_clone_owned [OF assms(4) v(3) agree_refl]) (auto simp: param_weight_def)
  then obtain w m1 C where w: "value_clone V n v m = Some (w, m1)" "own_value (heap m1) (clone_tree V t) w C" "grown m C m1"
    by (auto simp: produces_def)
  obtain b m2 where b: "box_value w m1 = (b, m2)"
    by force
  have "own_box (heap m2) (own_value (heap m2) (clone_tree V t)) b (C \<union> {b}) \<and> grown m1 {b} m2"
    using box_value_owned [of "\<lambda>h. own_value h (clone_tree V t)" m1 w C b m2] w(2) grown_inside [OF w(3)] own_value_local b by blast
  then have "own_opt (heap m2) (map_option (clone_tree V) vo) (Some b) (C \<union> {b})" "grown m (C \<union> {b}) m2"
    using grown_trans [OF w(3)] Some by (auto simp: own_opt_def simp del: Un_insert_right)
  then show ?thesis
    using v(1,2) w(1) b unfolding produces_def by (auto simp: read_value_def)
qed

lemma param_clone_owned:
  assumes "own_param (heap m) q p A" "A \<subseteq> {..<next_addr m}" "param_weight q < n" "vec_laws V"
  shows "produces (\<lambda>h. own_param h (clone_param V q)) m (param_clone V n p m)"
proof -
  obtain B where B: "own_string (heap m) (fst q) (cp_name p)" "cp_type p = fst (snd q)" "own_opt (heap m) (snd (snd q)) (cp_value p) B"
    "A = insert (fs_data (cp_name p)) B"
    using assms(1) by (auto simp: own_param_def)
  obtain w m1 C where 1: "(case cp_value p of
        None \<Rightarrow> Some (None, m)
      | Some a \<Rightarrow> do { v \<leftarrow> read_value a m; (x, m1) \<leftarrow> value_clone V n v m; (case box_value x m1 of (b, m2) \<Rightarrow> Some (Some b, m2)) })
      = Some (w, m1)" "own_opt (heap m1) (map_option (clone_tree V) (snd (snd q))) w C" "grown m C m1"
    using opt_clone_owned [OF B(3), of "fst q" "fst (snd q)" n V] assms(2-4) B(4) by (auto simp: produces_def)
  have name: "own_string (heap m1) (fst q) (cp_name p)"
    using own_string_local [OF B(1)] grown_agree [OF 1(3) assms(2)] B(4) by simp
  obtain b m2 where b: "string_new (fst q) m1 = (b, m2)"
    by force
  have "is_str (fst q)"
    using name by (simp add: own_string_def)
  then have g: "own_string (heap m2) (fst q) b" "grown m1 {fs_data b} m2"
    using string_new_owned b by blast+
  have "own_param (heap m2) (clone_param V q) (p \<lparr> cp_name := b, cp_value := w \<rparr>) (C \<union> {fs_data b})"
    using g own_opt_local [OF 1(2) grown_agree [OF g(2) grown_inside [OF 1(3)]]] grown_below [OF g(2) grown_inside [OF 1(3)]] B(2)
    by (auto simp: own_param_def clone_param_def)
  moreover have "param_clone V n p m = Some (p \<lparr> cp_name := b, cp_value := w \<rparr>, m2)"
    unfolding param_clone_def 1(1) using string_as_str_owned [OF name] b by simp
  ultimately show ?thesis
    using grown_trans [OF 1(3) g(2)] unfolding produces_def by blast
qed

lemma effect_param_clone:
  assumes "own_handle (heap m) (H_param q) a A" "param_weight q < n" "mem_ok m" "vec_laws V"
  shows "effect m {} C_Ok (Fresh (H_param (clone_param V q))) None (gives_opt (parameter_clone V n (Some a) m))"
proof -
  obtain p B where p: "heap m a = Some (B_param p)" "own_param (heap m) q p B" "B \<subseteq> A"
    using assms(1) by (auto simp: own_boxed_def)
  have "produces (\<lambda>h. own_param h (clone_param V q)) m (param_clone V n p m)"
    using p(3) own_handle_below [OF assms(1,3)] by (intro param_clone_owned [OF p(2) _ assms(2,4)]) blast
  note effect_produces [OF this framed_own(2), of "H_param (clone_param V q)" B_param]
  moreover have "gives_opt (parameter_clone V n (Some a) m) = do { (w, m1) \<leftarrow> param_clone V n p m; gives (mem_alloc (B_param w) m1) }"
    using p(1) by (cases "param_clone V n p m")
      (auto simp: gives_opt_def gives_def parameter_clone_def read_param_def split: prod.splits)
  ultimately show ?thesis
    by simp
qed

lemma array_of_owned:
  assumes "list_all2 (\<lambda>t v. \<forall>h. own_value h t v {}) ts vs" "vec_laws V" "array_of V vs m = (v, m')"
  shows "\<exists>B. own_value (heap m') (tree_array V ts) v B \<and> grown m B m'"
proof -
  obtain r where r: "vec_new (collect_cap V (length vs)) (map I_value vs) m = (r, m')" "v = value_array r"
    using assms(3) by (auto simp: array_of_def split: prod.splits)
  have items: "own_items (own_item (heap m)) ts (map I_value vs) {}"
    using assms(1) by (induction rule: list_all2_induct) (auto simp: own_item_def)
  have "own_vec (heap m') (own_item (heap m')) (collect_cap V (length vs)) ts r ({} \<union> {rv_ptr r}) \<and> grown m {rv_ptr r} m'"
    using assms(2) own_item_local r(1) by (intro vec_new_owned [where P = own_item, OF items]) (auto simp: vec_laws_def)
  then show ?thesis
    using r(2) list_all2_lengthD [OF assms(1)] by (auto simp: tree_array_def own_value_vec)
qed

lemma consume_exact:
  assumes "own_handle (heap m) (H_params cap qs) a A" "fits n (H_params cap qs)"
  shows "parameter_array_consume n a m = outcome (\<forall>q\<in>set qs. tight_param q) (map native_param qs) A m"
proof -
  obtain r B where r: "heap m a = Some (B_params r)" "own_vec (heap m) (own_param_item (heap m)) cap qs r B" "a \<notin> B" "A = insert a B"
    using assms(1) by (auto simp: own_boxed_def)
  have "as_param (param_into_native n) x m' = outcome (tight_param q) (native_param q) C m'"
    if "q \<in> set qs" "own_param_item (heap m) q x C" "agree (heap m) (heap m') C" for q x C m'
    using that assms(2) param_into_native_owned [of "heap m" q _ C m' n] by (auto simp: own_param_item_def as_param_def)
  moreover have "agree (heap m) (heap (release a m)) B"
    using r(3) by (auto simp: agree_def release_erase heap_erase)
  moreover have "rv_cap r = cap"
    using r(2) by (auto simp: own_vec_def)
  ultimately have "params_into_native n r (release a m) = outcome (\<forall>q\<in>set qs. tight_param q) (map native_param qs) B (release a m)"
    using vec_into_owned [OF r(2), of "release a m" "as_param (param_into_native n)" tight_param native_param] by (simp add: params_into_native_def)
  then show ?thesis
    using r(1,4) by (simp add: parameter_array_consume_def read_params_def outcome_def release_erase)
qed

section \<open>Every call\<close>

lemma value_string_owned:
  "is_str s \<Longrightarrow> value_string s m = (v, m1) \<Longrightarrow> \<exists>B. own_value (heap m1) (CString s) v B \<and> grown m B m1"
  using string_new_owned [of s m] by (auto simp: value_string_def split: prod.splits)

lemma effect_new_value:
  assumes "own_value (heap m1) t v B" "grown m B m1" "mem_ok m"
  shows "effect m {} C_Ok (Fresh (H_value t)) None (gives (box_value v m1))"
  using effect_after [OF assms(3) moves_grown [OF assms(2)] effect_value [OF assms(1) grown_inside [OF assms(2)]]] .

context element
begin

lemma effect_create:
  assumes "mem_ok m" "\<And>h. own_handle h ob = own_boxed h K (own_vec h (own h) cap [])"
  shows "effect m {} C_Ok (Fresh ob) None (gives (case vec_new cap [] m of (r, m1) \<Rightarrow> mem_alloc (K r) m1))"
proof -
  obtain r m1 where r: "vec_new cap [] m = (r, m1)"
    by force
  have "effect m1 {rv_ptr r} C_Ok (Fresh ob) None (gives (mem_alloc (K r) m1))"
    using buffer_empty [OF r] assms(2) buffer_local grown_inside [of m "{rv_ptr r}" m1]
    by (intro effect_alloc [where P = "\<lambda>h. own_vec h (own h) cap []"]) (auto simp: framed_def)
  then show ?thesis
    using effect_after [OF assms(1) moves_grown] buffer_empty [OF r] r by auto
qed

end

lemma effect_into_value:
  assumes "own_boxed (heap m) K (P (heap m)) a A" "framed P" "mem_ok m" "A \<subseteq> {..<next_addr m}"
    and "\<And>h r B. P h r B \<Longrightarrow> own_value h t (mk r) B"
  shows "\<exists>r B. heap m a = Some (K r) \<and> own_value (heap (release a m)) t (mk r) B \<and> B \<subseteq> {..<next_addr (release a m)} \<and>
     moves m A B (release a m) \<and> mem_ok (release a m)"
proof -
  obtain r B where r: "heap m a = Some (K r)" "P (heap (release a m)) r B" "A = insert a B" "moves m A B (release a m)"
    using boxed_open [OF assms(1,2)] by blast
  moreover have "B \<subseteq> {..<next_addr (release a m)}"
    using assms(4) r(3) by (simp add: release_erase)
  ultimately show ?thesis
    using assms(5) moves_mem_ok [OF r(4) assms(3,4)] by blast
qed

lemma into_array:
  assumes "own_handle (heap m) (H_array cap ts) a A" "mem_ok m"
  shows "\<exists>r B. heap m a = Some (B_array r) \<and> own_value (heap (release a m)) (CArray cap ts) (value_array r) B \<and>
     B \<subseteq> {..<next_addr (release a m)} \<and> moves m A B (release a m) \<and> mem_ok (release a m)"
  using assms own_handle_below [OF assms]
  by (intro effect_into_value [where P = "\<lambda>h. own_vec h (own_item h) cap ts"]) (auto simp: framed_own own_value_vec)

lemma into_dict:
  assumes "own_handle (heap m) (H_dict cap es) a A" "mem_ok m"
  shows "\<exists>r B. heap m a = Some (B_dict r) \<and> own_value (heap (release a m)) (CDict cap es) (value_dict r) B \<and>
     B \<subseteq> {..<next_addr (release a m)} \<and> moves m A B (release a m) \<and> mem_ok (release a m)"
  using assms own_handle_below [OF assms]
  by (intro effect_into_value [where P = "\<lambda>h. own_vec h (own_pair h) cap es"]) (auto simp: framed_own own_value_vec)

lemma effect_value_array:
  assumes "own_handle (heap m) (H_array cap ts) a A" "mem_ok m"
  shows "effect m A C_Ok (Fresh (H_value (CArray cap ts))) None (parameter_value_create_array (Some a) m \<bind> gives)"
  using into_array [OF assms] effect_after [OF assms(2) _ effect_value]
  by (fastforce simp: parameter_value_create_array_def read_array_def)

lemma effect_value_dict:
  assumes "own_handle (heap m) (H_dict cap es) a A" "mem_ok m"
  shows "effect m A C_Ok (Fresh (H_value (CDict cap es))) None (parameter_value_create_dict (Some a) m \<bind> gives)"
  using into_dict [OF assms] effect_after [OF assms(2) _ effect_value]
  by (fastforce simp: parameter_value_create_dict_def read_dict_def)

lemma effect_param_dict:
  assumes "own_handle (heap m) (H_dict cap es) a A" "mem_ok m" "fits n (H_dict cap es)"
    and "spec_param ok name Ty_none (Some (CDict cap es)) S = (err, S', out, pub)"
  shows "effect m A err out pub (gives_err (parameter_create_dict n ok name (Some a) m))"
proof -
  let ?m = "release a m"
  obtain r B where r: "heap m a = Some (B_dict r)" "own_value (heap ?m) (CDict cap es) (value_dict r) B"
    "B \<subseteq> {..<next_addr ?m}" "moves m A B ?m" "mem_ok ?m"
    using into_dict [OF assms(1,2)] by blast
  obtain b m1 where b: "box_value (value_dict r) ?m = (b, m1)"
    by force
  have own: "own_box (heap m1) (own_value (heap m1) (CDict cap es)) b (B \<union> {b}) \<and> grown ?m {b} m1"
    using box_value_owned [of "\<lambda>h. own_value h (CDict cap es)" ?m "value_dict r" B b m1] r(2,3) own_value_local b by blast
  have "moves ?m B (B \<union> {b}) m1"
    using moves_frame [of ?m "{}" "{b}" m1 B] moves_grown own r(3) by (simp add: Un_commute)
  then have "moves m A (B \<union> {b}) m1"
    using moves_trans [OF assms(2) r(4)] by blast
  moreover have "effect m1 (B \<union> {b}) err out pub (gives_err (parameter_create n ok name Ty_none (Some b) m1))"
    using own grown_mem_ok r(5) assms(3,4) by (intro effect_param_create) (auto simp: own_opt_def param_weight_def)
  ultimately show ?thesis
    using effect_after [OF assms(2)] r(1) b by (simp add: parameter_create_dict_def parameter_value_create_dict_def read_dict_def)
qed

text \<open>The bound on the depth is enough for the arrays that a call builds.\<close>

fun call_fits :: "vec_ops \<Rightarrow> nat \<Rightarrow> c_call \<Rightarrow> bool" where
  "call_fits V n (Param_float64_array ok name xs) \<longleftrightarrow> size (tree_array V (map CFloat xs)) < n"
| "call_fits V n (Param_integer_array ok name xs) \<longleftrightarrow> size (tree_array V (map CInt xs)) < n"
| "call_fits V n call \<longleftrightarrow> 0 < n"

lemma get_handle:
  "get_value H a = Some t \<longleftrightarrow> H a = Some (H_value t)"
  "get_array H a = Some (cap, ts) \<longleftrightarrow> H a = Some (H_array cap ts)"
  "get_dict H a = Some (cap, es) \<longleftrightarrow> H a = Some (H_dict cap es)"
  "get_param H a = Some q \<longleftrightarrow> H a = Some (H_param q)"
  "get_params H a = Some (cap, qs) \<longleftrightarrow> H a = Some (H_params cap qs)"
  by (auto simp: get_value_def get_array_def get_dict_def get_param_def get_params_def split: option.splits chandle.splits)

lemma effect_publish:
  assumes "own_handle (heap m) (H_params cap qs) a A" "fits n (H_params cap qs)"
  shows "server_publish_parameter_values n None (Some a) m = Some (C_ValueError, None, erase A m)"
    "server_publish_parameter_values n (Some False) (Some a) m = Some (C_SinkClosed, None, erase A m)"
    "server_publish_parameter_values n (Some True) (Some a) m =
       (if \<forall>q\<in>set qs. tight_param q then Some (C_Ok, Some (map native_param qs), erase A m) else None)"
  using drop_handle(5) [OF assms] consume_exact [OF assms]
  by (simp_all add: server_publish_parameter_values_def outcome_def)

definition step_ok :: "vec_ops \<Rightarrow> base64_ops \<Rightarrow> nat \<Rightarrow> mem \<Rightarrow> handles \<Rightarrow> (addr \<Rightarrow> addr set) \<Rightarrow> c_call \<Rightarrow> bool" where
  "step_ok V E n m H F call \<longleftrightarrow>
     (\<forall>err S out pub. c_spec V E call H = Some (err, S, out, pub) \<longrightarrow> \<not> frees_short call H \<longrightarrow>
       S \<subseteq> dom H \<and> effect m (\<Union>(F ` S)) err out pub (c_exec V E n call m))"

text \<open>What a call may assume of the state and of its bound.\<close>

definition step_pre :: "vec_ops \<Rightarrow> base64_ops \<Rightarrow> nat \<Rightarrow> mem \<Rightarrow> handles \<Rightarrow> (addr \<Rightarrow> addr set) \<Rightarrow> bool" where
  "step_pre V E n m H F \<longleftrightarrow> vec_laws V \<and> (\<forall>bs. is_str (b64_encode E bs)) \<and> 0 < n \<and> owns m H F \<and>
     (\<forall>a ob. H a = Some ob \<longrightarrow> own_handle (heap m) ob a (F a) \<and> fits n ob)"

lemma step_preD:
  assumes "step_pre V E n m H F"
  shows "vec_laws V" "is_str (b64_encode E bs)" "0 < n" "mem_ok m" "owns m H F"
    "H a = Some ob \<Longrightarrow> own_handle (heap m) ob a (F a) \<and> fits n ob"
  using assms by (auto simp: step_pre_def owns_def)

lemma step_free:
  assumes "step_pre V E n m H F"
  shows "step_ok V E n m H F (Value_free a)" "step_ok V E n m H F (Array_free a)" "step_ok V E n m H F (Dict_free a)"
    "step_ok V E n m H F (Param_free a)" "step_ok V E n m H F (Params_free a)"
proof -
  note pre = step_preD(6) [OF assms]
  have none: "effect m {} C_Ok Nothing None (gives_unit (Some m))"
    by (simp add: gives_unit_def effect_none)
  have erase: "effect m A C_Ok Nothing None (gives_unit (Some (erase A m)))" for A
    by (simp add: gives_unit_def effect_erase)
  have "parameter_value_free n None m = Some m" "\<And>b t. H b = Some (H_value t) \<Longrightarrow> parameter_value_free n (Some b) m = Some (erase (F b) m)"
    using pre drop_handle(1) by (simp add: parameter_value_free_def, blast)
  then show "step_ok V E n m H F (Value_free a)"
    using none erase by (cases a) (auto simp: step_ok_def spec_free_def bind_eq_Some_conv get_handle)
  have "parameter_value_array_free n None m = Some m" "\<And>b cap ts. H b = Some (H_array cap ts) \<Longrightarrow> parameter_value_array_free n (Some b) m = Some (erase (F b) m)"
    using pre drop_handle(2) by (simp add: parameter_value_array_free_def, blast)
  then show "step_ok V E n m H F (Array_free a)"
    using none erase by (cases a) (auto simp: step_ok_def spec_free_def bind_eq_Some_conv get_handle)
  have "parameter_value_dict_free n None m = Some m" "\<And>b cap es. H b = Some (H_dict cap es) \<Longrightarrow> parameter_value_dict_free n (Some b) m = Some (erase (F b) m)"
    using pre drop_handle(3) by (simp add: parameter_value_dict_free_def, blast)
  then show "step_ok V E n m H F (Dict_free a)"
    using none erase by (cases a) (auto simp: step_ok_def spec_free_def bind_eq_Some_conv get_handle)
  have "parameter_free n None m = Some m" "\<And>b q. H b = Some (H_param q) \<Longrightarrow> parameter_free n (Some b) m = Some (erase (F b) m)"
    using pre drop_handle(4) by (simp add: parameter_free_def, blast)
  then show "step_ok V E n m H F (Param_free a)"
    using none erase by (cases a) (auto simp: step_ok_def spec_free_def bind_eq_Some_conv get_handle)
  have "parameter_array_free n None m = Some m" "\<And>b cap qs. H b = Some (H_params cap qs) \<Longrightarrow> parameter_array_free n (Some b) m = Some (erase (F b) m)"
    using pre drop_handle(5) by (simp add: parameter_array_free_def, blast)
  then show "step_ok V E n m H F (Params_free a)"
    using none erase by (cases a) (auto simp: step_ok_def spec_free_def bind_eq_Some_conv get_handle)
qed

lemma step_value:
  assumes "step_pre V E n m H F"
  shows "step_ok V E n m H F (Value_float64 x)" "step_ok V E n m H F (Value_integer y)" "step_ok V E n m H F (Value_boolean z)"
    "step_ok V E n m H F (Value_string ok s)" "step_ok V E n m H F (Value_array a)" "step_ok V E n m H F (Value_dict a)"
    "step_ok V E n m H F (Value_clone a)"
proof -
  note pre = step_preD [OF assms]
  show "step_ok V E n m H F (Value_float64 x)" "step_ok V E n m H F (Value_integer y)" "step_ok V E n m H F (Value_boolean z)"
    using effect_new_value [OF _ grown_refl pre(4)]
    by (auto simp: step_ok_def parameter_value_create_float64_def parameter_value_create_integer_def parameter_value_create_boolean_def)
  show "step_ok V E n m H F (Value_string ok s)"
  proof (cases "checked_name ok s")
    case (Inl e)
    then have "parameter_value_create_string ok s m = (e, None, m)"
      by (auto simp: checked_name_def parameter_value_create_string_def split: if_splits option.splits)
    then show ?thesis
      using Inl effect_none by (auto simp: step_ok_def gives_err_def)
  next
    case (Inr str)
    then have str: "ok" "from_utf8 s = Some str" "is_str str"
      by (auto simp: checked_name_def split: if_splits option.splits dest: from_utf8_Some)
    obtain v m1 where v: "value_string str m = (v, m1)"
      by force
    then obtain B where "own_value (heap m1) (CString str) v B" "grown m B m1"
      using value_string_owned [OF str(3)] by blast
    then have "effect m {} C_Ok (Fresh (H_value (CString str))) None (gives (box_value v m1))"
      by (rule effect_new_value [OF _ _ pre(4)])
    then show ?thesis
      using Inr str(1,2) v by (auto simp: step_ok_def gives_err_def gives_def parameter_value_create_string_def split: prod.splits)
  qed
  show "step_ok V E n m H F (Value_array a)"
    using pre(6) effect_value_array [OF _ pre(4)] by (auto simp: step_ok_def get_handle bind_eq_Some_conv simp del: own_handle.simps)
  show "step_ok V E n m H F (Value_dict a)"
    using pre(6) effect_value_dict [OF _ pre(4)] by (auto simp: step_ok_def get_handle bind_eq_Some_conv simp del: own_handle.simps)
  show "step_ok V E n m H F (Value_clone a)"
    using pre(6) effect_value_clone [OF _ _ pre(4,1)] effect_none
    by (cases a) (fastforce simp: step_ok_def get_handle bind_eq_Some_conv gives_opt_def parameter_value_clone_def simp del: own_handle.simps)+
qed

lemma step_create:
  assumes "step_pre V E n m H F"
  shows "step_ok V E n m H F (Array_create cap)" "step_ok V E n m H F (Dict_create cap)" "step_ok V E n m H F (Params_create cap)"
proof -
  note ok = step_preD(4) [OF assms]
  show "step_ok V E n m H F (Array_create cap)"
    using value_elems.effect_create [OF ok, of "H_array (with_cap V cap) []" B_array "with_cap V cap"]
    by (simp add: step_ok_def parameter_value_array_create_def)
  show "step_ok V E n m H F (Dict_create cap)"
    using entry_elems.effect_create [OF ok, of "H_dict (with_cap V cap) []" B_dict "with_cap V cap"]
    by (simp add: step_ok_def parameter_value_dict_create_def)
  show "step_ok V E n m H F (Params_create cap)"
    using param_elems.effect_create [OF ok, of "H_params (with_cap V cap) []" B_params "with_cap V cap"]
    by (simp add: step_ok_def parameter_array_create_def)
qed

lemma effect_code: "res = Some (err, erase A m) \<Longrightarrow> effect m A err Nothing None (gives_code res)"
  by (simp add: gives_code_def effect_erase)

lemma owns_apart: "owns m H F \<Longrightarrow> H a = Some x \<Longrightarrow> H b = Some y \<Longrightarrow> x \<noteq> y \<Longrightarrow> F a \<inter> F b = {}"
  using owns_disjoint [of m H F a b] by (cases "a = b") auto

lemma step_push:
  assumes "step_pre V E n m H F"
  shows "step_ok V E n m H F (Array_push b a)" "step_ok V E n m H F (Dict_insert b key a)" "step_ok V E n m H F (Params_push b a)"
proof -
  note pre = step_preD [OF assms]
  have null: "effect m {} C_ValueError Nothing None (gives_code (Some (C_ValueError, m)))"
    by (simp add: gives_code_def effect_none)
  have drop: "drop_boxed (value_drop n) c m = Some (erase (F c) m)" if "H c = Some (H_value t)" for c t
    using drop_handle(1) [of m t c "F c" n] pre(6) [OF that] by (simp add: parameter_value_free_def)
  have push: "effect m (F c \<union> F d) C_Ok (Update d (H_array (pushed_cap V cap ts) (ts @ [t]))) None
      (gives_code (parameter_value_array_push V n (Some d) (Some c) m))"
    if "H c = Some (H_value t)" "H d = Some (H_array cap ts)" for c d t cap ts
    using effect_array_push [of m t c "F c" cap ts d "F d"] pre(1,4) pre(6) [OF that(1)] pre(6) [OF that(2)] owns_apart [OF pre(5) that]
    by simp
  show "step_ok V E n m H F (Array_push b a)"
  proof (cases a)
    case (Some c)
    then show ?thesis
      using push effect_code [OF refl] drop
      by (cases b) (auto simp: step_ok_def bind_eq_Some_conv get_handle parameter_value_array_push_def [of _ _ None])
  qed (use null in \<open>auto simp: step_ok_def parameter_value_array_push_def\<close>)
  have insert: "effect m (F c \<union> F d) C_Ok (Update d (H_dict (pushed_cap V cap es) (es @ [(k, t)]))) None
      (gives_code (parameter_value_dict_insert V n (Some d) key (Some c) m))"
    if "H c = Some (H_value t)" "H d = Some (H_dict cap es)" "from_utf8 key = Some k" for c d t cap es k
    using effect_dict_insert [of m t c "F c" cap es d "F d" V key k n] pre(1,4) pre(6) [OF that(1)] pre(6) [OF that(2)] that(3)
      owns_apart [OF pre(5) that(1,2)] by simp
  show "step_ok V E n m H F (Dict_insert b key a)"
  proof (cases a)
    case (Some c)
    show ?thesis
    proof (cases "b = None \<or> from_utf8 key = None")
      case True
      then show ?thesis
        using Some effect_code [OF refl] drop
        by (auto simp: step_ok_def bind_eq_Some_conv get_handle parameter_value_dict_insert_def split: option.splits)
    next
      case False
      then show ?thesis
        using Some insert by (auto simp: step_ok_def bind_eq_Some_conv get_handle)
    qed
  qed (use null in \<open>auto simp: step_ok_def parameter_value_dict_insert_def\<close>)
  have free: "parameter_free n (Some c) m = Some (erase (F c) m)" if "H c = Some (H_param q)" for c q
    using drop_handle(4) pre(6) [OF that] by blast
  have push_param: "effect m (F c \<union> F d) C_Ok (Update d (H_params (pushed_cap V cap qs) (qs @ [q]))) None
      (gives_code (parameter_array_push V n (Some d) (Some c) m))"
    if "H c = Some (H_param q)" "H d = Some (H_params cap qs)" for c d q cap qs
    using effect_params_push [of m q c "F c" cap qs d "F d"] pre(1,4) pre(6) [OF that(1)] pre(6) [OF that(2)] owns_apart [OF pre(5) that]
    by simp
  show "step_ok V E n m H F (Params_push b a)"
  proof (cases a)
    case (Some c)
    then show ?thesis
      using push_param effect_code [OF refl] free
      by (cases b) (auto simp: step_ok_def bind_eq_Some_conv get_handle parameter_array_push_def [of _ _ None])
  qed (use null in \<open>auto simp: step_ok_def parameter_array_push_def\<close>)
qed

lemma spec_param_consumes: "spec_param ok name ty v S = (err, S', out, pub) \<Longrightarrow> S' = S"
  by (auto simp: spec_param_def split: sum.splits)

lemma step_okI:
  assumes "c_spec V E call H = Some (spec_param ok name ty v S)" "S \<subseteq> dom H"
    and "\<And>err S' out pub. spec_param ok name ty v S = (err, S', out, pub) \<Longrightarrow> effect m (\<Union>(F ` S)) err out pub (c_exec V E n call m)"
  shows "step_ok V E n m H F call"
  unfolding step_ok_def
proof (intro allI impI)
  fix err S' out pub
  assume "c_spec V E call H = Some (err, S', out, pub)"
  then have "spec_param ok name ty v S = (err, S', out, pub)"
    by (simp add: assms(1))
  then show "S' \<subseteq> dom H \<and> effect m (\<Union>(F ` S')) err out pub (c_exec V E n call m)"
    using assms(2,3) spec_param_consumes by blast
qed

lemmas step_okI_new = step_okI [where S = "{}", simplified]

lemma step_param_scalar:
  assumes "step_pre V E n m H F"
  shows "step_ok V E n m H F (Param_create ok name ty a)" "step_ok V E n m H F (Param_empty ok name)"
    "step_ok V E n m H F (Param_float64 ok name x)" "step_ok V E n m H F (Param_integer ok name y)"
    "step_ok V E n m H F (Param_boolean ok name z)"
proof -
  note pre = step_preD [OF assms]
  have none: "effect m {} err out pub (gives_err (parameter_create n ok name ty None m))"
    if "spec_param ok name ty None S = (err, S', out, pub)" for ty S err S' out pub
    using effect_param_create [OF _ pre(4) _ that] pre(3) by (simp add: own_opt_def param_weight_def)
  show "step_ok V E n m H F (Param_empty ok name)"
    by (rule step_okI_new) (simp, use none in \<open>simp add: parameter_create_empty_def\<close>)
  show "step_ok V E n m H F (Param_create ok name ty a)"
  proof (cases a)
    case None
    show ?thesis
      by (rule step_okI_new [where ty = ty and v = None]) (use None none in simp_all)
  next
    case (Some b)
    show ?thesis
    proof (cases "get_value H b")
      case None
      then show ?thesis
        by (simp add: step_ok_def Some)
    next
      case (Some t)
      then have "own_opt (heap m) (Some t) (Some b) (F b)" "param_weight ([], ty, Some t) < n" "H b \<noteq> None"
        using pre(6) [of b "H_value t"] by (auto simp: get_handle own_opt_def own_box_boxed param_weight_def)
      then show ?thesis
        using \<open>a = Some b\<close> Some effect_param_create [OF _ pre(4)]
        by (intro step_okI [where S = "{b}" and ok = ok and name = name and ty = ty and v = "Some t"]) auto
    qed
  qed
  have boxed: "effect m {} err out pub (gives_err (parameter_create_boxed n ok name ty (v, m)))"
    if "own_value (heap m) t v {}" "size t = 0" "spec_param ok name ty (Some t) S = (err, S', out, pub)" for t v ty S err S' out pub
    using effect_param_boxed [OF that(1) grown_refl pre(4) _ that(3)] pre(3) that(2) by simp
  show "step_ok V E n m H F (Param_float64 ok name x)" "step_ok V E n m H F (Param_integer ok name y)"
    "step_ok V E n m H F (Param_boolean ok name z)"
    by (rule step_okI_new, simp, auto simp: parameter_create_float64_def parameter_create_integer_def parameter_create_boolean_def
        intro: boxed [of "CFloat x"] boxed [of "CInt y"] boxed [of "CBool z"])+
qed

lemma step_param_built:
  assumes "step_pre V E n m H F"
  shows "step_ok V E n m H F (Param_string ok name s)" "step_ok V E n m H F (Param_byte_array ok name bs)"
    "step_ok V E n m H F (Param_dict ok name a)" "step_ok V E n m H F (Param_clone a)"
    "call_fits V n (Param_float64_array ok name xs) \<Longrightarrow> step_ok V E n m H F (Param_float64_array ok name xs)"
    "call_fits V n (Param_integer_array ok name ys) \<Longrightarrow> step_ok V E n m H F (Param_integer_array ok name ys)"
proof -
  note pre = step_preD [OF assms]
  have str: "effect m {} err out pub (gives_err (parameter_create_boxed n ok name ty (value_string str m)))"
    if "is_str str" "spec_param ok name ty (Some (CString str)) S = (err, S', out, pub)" for str ty S err S' out pub
  proof -
    obtain v m1 where v: "value_string str m = (v, m1)"
      by force
    then show ?thesis
      using value_string_owned [OF that(1) v] effect_param_boxed [OF _ _ pre(4) _ that(2)] pre(3) by fastforce
  qed
  show "step_ok V E n m H F (Param_byte_array ok name bs)"
    by (rule step_okI_new) (simp, use str [OF pre(2)] in \<open>simp add: parameter_create_byte_array_def\<close>)
  show "step_ok V E n m H F (Param_string ok name s)"
  proof (cases "from_utf8 s")
    case None
    then show ?thesis
      using effect_none by (auto simp: step_ok_def parameter_create_string_def gives_err_def)
  next
    case (Some t)
    show ?thesis
      by (rule step_okI_new [where ty = Ty_none and v = "Some (CString t)"])
        (use Some from_utf8_Some [OF Some] in \<open>auto simp: parameter_create_string_def intro: str\<close>)
  qed
  show "step_ok V E n m H F (Param_dict ok name a)"
  proof (cases "a \<bind> get_dict H")
    case None
    then show ?thesis
      by (cases a) (auto simp: step_ok_def)
  next
    case (Some ce)
    then obtain b cap es where b: "a = Some b" "H b = Some (H_dict cap es)"
      by (cases a; cases ce) (auto simp: get_handle)
    then show ?thesis
      using effect_param_dict [of m cap es b "F b" n] pre(4) pre(6) [OF b(2)] get_handle(3) [of H b cap es]
      by (intro step_okI [where S = "{b}" and ok = ok and name = name and ty = Ty_none and v = "Some (CDict cap es)"]) auto
  qed
  show "step_ok V E n m H F (Param_clone a)"
    using pre(6) effect_param_clone [OF _ _ pre(4,1)] effect_none
    by (cases a) (fastforce simp: step_ok_def get_handle bind_eq_Some_conv gives_opt_def parameter_clone_def simp del: own_handle.simps)+
  have arr: "effect m {} err out pub (gives_err (parameter_create_boxed n ok name ty (array_of V vs m)))"
    if "list_all2 (\<lambda>t v. \<forall>h. own_value h t v {}) ts vs" "size (tree_array V ts) < n"
      "spec_param ok name ty (Some (tree_array V ts)) S = (err, S', out, pub)" for ts vs ty S err S' out pub
  proof -
    obtain v m1 where v: "array_of V vs m = (v, m1)"
      by force
    then show ?thesis
      using array_of_owned [OF that(1) pre(1) v] effect_param_boxed [OF _ _ pre(4) that(2,3)] by fastforce
  qed
  have "list_all2 (\<lambda>t v. \<forall>h. own_value h t v {}) (map CFloat xs) (map value_float64 xs)"
    "list_all2 (\<lambda>t v. \<forall>h. own_value h t v {}) (map CInt ys) (map value_integer ys)"
    by (simp_all add: list.rel_map list_all2_same)
  then show "step_ok V E n m H F (Param_float64_array ok name xs)" if "call_fits V n (Param_float64_array ok name xs)"
    by (intro step_okI_new [where ty = Ty_float64_array and v = "Some (tree_array V (map CFloat xs))"])
      (use that arr in \<open>simp_all add: parameter_create_float64_array_def\<close>)
  show "step_ok V E n m H F (Param_integer_array ok name ys)" if "call_fits V n (Param_integer_array ok name ys)"
    using \<open>list_all2 _ (map CInt ys) (map value_integer ys)\<close>
    by (intro step_okI_new [where ty = Ty_none and v = "Some (tree_array V (map CInt ys))"])
      (use that arr in \<open>simp_all add: parameter_create_integer_array_def\<close>)
qed

lemma step_publish:
  assumes "step_pre V E n m H F"
  shows "step_ok V E n m H F (Publish_values server a)"
proof (cases "a \<bind> get_params H")
  case None
  then show ?thesis
    using effect_none by (cases a) (auto simp: step_ok_def server_publish_parameter_values_def)
next
  case (Some cq)
  then obtain b cap qs where b: "a = Some b" "H b = Some (H_params cap qs)"
    by (cases a; cases cq) (auto simp: get_handle)
  have own: "own_handle (heap m) (H_params cap qs) b (F b)" "fits n (H_params cap qs)"
    using step_preD(6) [OF assms b(2)] by auto
  have "effect m (F b) err Nothing pub (Some ((err, None, pub), erase (F b) m))" for err pub
    by (rule effect_erase)
  then show ?thesis
    using b get_handle(5) [of H b cap qs] effect_publish [OF own]
    by (cases server; cases "the server") (auto simp: step_ok_def split: if_splits)
qed

lemma step_every:
  assumes "step_pre V E n m H F" "call_fits V n call"
  shows "step_ok V E n m H F call"
  using assms(2)
  by (cases call)
    (auto intro: step_value [OF assms(1)] step_free [OF assms(1)] step_create [OF assms(1)] step_push [OF assms(1)]
      step_param_scalar [OF assms(1)] step_param_built [OF assms(1)] step_publish [OF assms(1)] simp del: call_fits.simps)

lemma put_new:
  assumes "owns m H F" "S \<subseteq> dom H" "moves m (\<Union>(F ` S)) B m'" "b \<in> B"
  shows "b \<notin> dom H - S"
proof
  assume b: "b \<in> dom H - S"
  then have "b \<in> F b"
    using own_handle_mem [OF owns_handle [OF assms(1)]] by blast
  then show False
    using owns_rest [OF assms(1-3) b] assms(4) by blast
qed

lemma effect_owned:
  assumes "owns m H F" "S \<subseteq> dom H" "effect m (\<Union>(F ` S)) err out pub res"
  shows "\<exists>r m'. res = Some ((err, r, pub), m') \<and> (r \<noteq> None \<longleftrightarrow> (\<exists>ob. out = Fresh ob)) \<and> owned m' (c_apply H S out r) \<and>
     (\<forall>b. r = Some b \<longrightarrow> b \<notin> dom H - S)"
proof -
  obtain r m' B where r: "res = Some ((err, r, pub), m')" "moves m (\<Union>(F ` S)) B m'"
    "case out of Nothing \<Rightarrow> r = None \<and> B = {} | Fresh ob \<Rightarrow> (\<exists>b. r = Some b \<and> own_handle (heap m') ob b B)
       | Update b ob \<Rightarrow> r = None \<and> own_handle (heap m') ob b B"
    using assms(3) by (auto simp: effect_def)
  show ?thesis
  proof (cases out)
    case Nothing
    then show ?thesis
      using r owned_take [OF assms(1,2)] by auto
  next
    case (Fresh ob)
    then obtain b where b: "r = Some b" "own_handle (heap m') ob b B"
      using r(3) by auto
    then show ?thesis
      using Fresh r(1) owned_put [OF assms(1,2) r(2) b(2)] put_new [OF assms(1,2) r(2) own_handle_mem [OF b(2)]] by auto
  next
    case (Update b ob)
    then show ?thesis
      using r owned_put [OF assms(1,2) r(2)] by auto
  qed
qed

lemma call_step:
  assumes "vec_laws V" "\<forall>bs. is_str (b64_encode E bs)" "owned m H" "\<forall>ob\<in>ran H. fits n ob" "call_fits V n call"
    and "c_spec V E call H = Some (err, S, out, pub)" "\<not> frees_short call H"
  shows "\<exists>r m'. c_exec V E n call m = Some ((err, r, pub), m') \<and> (r \<noteq> None \<longleftrightarrow> (\<exists>ob. out = Fresh ob)) \<and>
     owned m' (c_apply H S out r) \<and> (\<forall>b. r = Some b \<longrightarrow> b \<notin> dom H - S)"
proof -
  obtain F where F: "owns m H F"
    using assms(3) by (auto simp: owned_def)
  have "0 < n"
    using assms(5) by (cases call) auto
  then have "step_pre V E n m H F"
    using assms(1,2,4) F owns_handle [OF F] by (auto simp: step_pre_def ran_def)
  then have "step_ok V E n m H F call"
    using step_every assms(5) by blast
  then have "S \<subseteq> dom H" "effect m (\<Union>(F ` S)) err out pub (c_exec V E n call m)"
    using assms(6,7) unfolding step_ok_def by blast+
  then show ?thesis
    by (rule effect_owned [OF F])
qed

text \<open>The excepted call has undefined behaviour.\<close>

lemma short_step:
  assumes "owned m H" "\<forall>ob\<in>ran H. fits n ob" "frees_short call H"
  shows "c_exec V E n call m = None"
proof -
  obtain a cap qs where c: "call = Publish_values (Some True) (Some a)" "H a = Some (H_params cap qs)" "\<exists>q\<in>set qs. \<not> tight_param q"
  proof (cases "(call, H)" rule: frees_short.cases)
    case (1 a H')
    then obtain x where "get_params H a = Some x" "\<exists>q\<in>set (snd x). \<not> tight_param q"
      using assms(3) by (cases "get_params H a") (simp_all add: case_prod_beta)
    then show ?thesis using 1 that by (cases x) (simp add: get_handle)
  qed (use assms(3) in auto)
  obtain F where F: "owns m H F" using assms(1) by (auto simp: owned_def)
  have "fits n (H_params cap qs)" using assms(2) c(2) by (auto simp: ran_def)
  then show ?thesis using effect_publish(3) [OF owns_handle [OF F c(2)]] c by auto
qed

lemma owned_empty: "owned m Map.empty \<Longrightarrow> heap m = Map.empty"
  by (auto simp: owned_def owns_def)

section \<open>Sessions\<close>

text \<open>A program that follows the contract: every pointer it passes is live and stands for the right
  kind of value. The bound \<open>n\<close> has to be enough for the values it builds.\<close>

inductive c_session :: "vec_ops \<Rightarrow> base64_ops \<Rightarrow> nat \<Rightarrow> mem \<Rightarrow> handles \<Rightarrow> bool" for V E n where
  start: "c_session V E n \<lparr> heap = Map.empty, next_addr = 0 \<rparr> Map.empty"
| call: "c_session V E n m H \<Longrightarrow> c_spec V E call H = Some (err, S, out, pub) \<Longrightarrow>
    (\<forall>ob\<in>ran H. fits n ob) \<Longrightarrow> call_fits V n call \<Longrightarrow> c_exec V E n call m = Some ((err', r, pub'), m') \<Longrightarrow>
    c_session V E n m' (c_apply H S out r)"

lemma session_owned:
  assumes "vec_laws V" "\<forall>bs. is_str (b64_encode E bs)" "c_session V E n m H"
  shows "owned m H"
  using assms(3)
proof (induction rule: c_session.induct)
  case start
  have "owns \<lparr> heap = Map.empty, next_addr = 0 \<rparr> Map.empty (\<lambda>_. {})"
    by (simp add: owns_def mem_ok_def)
  then show ?case
    by (auto simp: owned_def)
next
  case (call m H c err S out pub err' r pub' m')
  then have "\<not> frees_short c H" using short_step [OF call.IH call.hyps(3)] by auto
  then show ?case
    using call_step [OF assms(1,2) call.IH call.hyps(3,4,2)] call.hyps(5) by auto
qed

section \<open>Concrete sessions\<close>

definition demo_vec :: vec_ops where
  "demo_vec = \<lparr> with_cap = (\<lambda>n. n), grow = (\<lambda>n. 2 * n + 4), collect_cap = (\<lambda>n. n) \<rparr>"

text \<open>Two letters per byte in place of the base64 alphabet.\<close>

definition demo_hex :: base64_ops where
  "demo_hex =
     \<lparr> b64_encode = concat \<circ> map (\<lambda>b. [char_of (65 + unat b div 16), char_of (65 + unat b mod 16)]),
       b64_decode = (\<lambda>s. if s = [] then Inr [] else Inl ''unsupported'') \<rparr>"

lemma demo_laws: "vec_laws demo_vec" "\<forall>bs. is_str (b64_encode demo_hex bs)"
proof -
  show "vec_laws demo_vec"
    by (simp add: vec_laws_def demo_vec_def)
  have char: "(of_char (char_of (65 + k) :: char) :: nat) \<le> 0x7F" if "k < 16" for k :: nat
    using that by simp
  have letter: "(of_char (char_of (65 + unat (b :: u8) div 16) :: char) :: nat) \<le> 0x7F"
    "(of_char (char_of (65 + unat b mod 16) :: char) :: nat) \<le> 0x7F" for b
    using unat_less_byte [of b] by (intro char; simp add: less_mult_imp_div_less)+
  have "(of_char c :: nat) \<le> 0x7F" if "c \<in> set (b64_encode demo_hex bs)" for c bs
    using that letter by (auto simp: demo_hex_def)
  then show "\<forall>bs. is_str (b64_encode demo_hex bs)"
    by (blast intro: is_str_ascii)
qed

text \<open>A value and an empty array with room for two.\<close>

definition demo_mem :: mem where
  "demo_mem =
     \<lparr> heap = [0 \<mapsto> B_value (value_float64 7), 1 \<mapsto> B_vec 2 [], 2 \<mapsto> B_array \<lparr> rv_ptr = 1, rv_len = 0, rv_cap = 2 \<rparr>], next_addr = 3 \<rparr>"

definition demo_handles :: handles where
  "demo_handles = [0 \<mapsto> H_value (CFloat 7), 2 \<mapsto> H_array 2 []]"

lemma session_step:
  assumes "c_session V E n m H" "c_spec V E call H = Some (err, S, out, pub)" "\<forall>ob\<in>ran H. fits n ob" "call_fits V n call"
    and "c_exec V E n call m = Some ((err, r, pub), m')" "H' = c_apply H S out r"
  shows "c_session V E n m' H'"
  using c_session.call [OF assms(1-5)] assms(6) by simp

lemma demo_session: "c_session demo_vec demo_hex 5 demo_mem demo_handles"
proof -
  have "c_session demo_vec demo_hex 5 \<lparr> heap = [0 \<mapsto> B_value (value_float64 7)], next_addr = 1 \<rparr> [0 \<mapsto> H_value (CFloat 7)]"
    by (rule session_step [OF c_session.start, where call = "Value_float64 7" and err = C_Ok and S = "{}" and
          out = "Fresh (H_value (CFloat 7))" and r = "Some 0" and pub = None])
      (simp_all add: parameter_value_create_float64_def box_value_def mem_alloc_def gives_def)
  then show ?thesis
    by (rule session_step [where call = "Array_create 2" and err = C_Ok and S = "{}" and
          out = "Fresh (H_array 2 [])" and r = "Some 2" and pub = None])
      (simp_all add: parameter_value_array_create_def vec_new_def mem_alloc_def gives_def demo_vec_def demo_mem_def demo_handles_def
        restrict_map_def fun_eq_iff eval_nat_numeral)
qed

text \<open>A parameter array whose only value is an array that is not full.\<close>

definition demo_params :: mem where
  "demo_params =
     \<lparr> heap = [
        1 \<mapsto> B_vec 2 [I_value (value_float64 7)],
        3 \<mapsto> B_value (value_array \<lparr> rv_ptr = 1, rv_len = 1, rv_cap = 2 \<rparr>),
        4 \<mapsto> B_string (as_bytes ''p''),
        6 \<mapsto> B_vec 1 [I_param \<lparr> cp_name = \<lparr> fs_data = 4, fs_len = 1 \<rparr>, cp_type = Ty_none, cp_value = Some 3 \<rparr>],
        7 \<mapsto> B_params \<lparr> rv_ptr = 6, rv_len = 1, rv_cap = 1 \<rparr>], next_addr = 8 \<rparr>"

definition demo_param :: cparam where
  "demo_param = (''p'', Ty_none, Some (CArray 2 [CFloat 7]))"

lemma demo_params_owned: "owned demo_params [7 \<mapsto> H_params 1 [demo_param]]"
proof -
  let ?h = "heap demo_params"
  have look: "?h 3 = Some (B_value (value_array \<lparr> rv_ptr = 1, rv_len = 1, rv_cap = 2 \<rparr>))"
    "?h 6 = Some (B_vec 1 [I_param \<lparr> cp_name = \<lparr> fs_data = 4, fs_len = 1 \<rparr>, cp_type = Ty_none, cp_value = Some 3 \<rparr>])"
    "?h 7 = Some (B_params \<lparr> rv_ptr = 6, rv_len = 1, rv_cap = 1 \<rparr>)"
    "dom ?h = {7, 6, 4, 3, 1}" "next_addr demo_params = 8"
    by (auto simp: demo_params_def split: if_splits)
  have "own_value ?h (CArray 2 [CFloat 7]) (value_array \<lparr> rv_ptr = 1, rv_len = 1, rv_cap = 2 \<rparr>) {1}"
    by (simp add: own_value_vec own_vec_def own_item_def demo_params_def value_array_def)
  then have "own_opt ?h (Some (CArray 2 [CFloat 7])) (Some 3) {3, 1}"
    using look(1) unfolding own_opt_def own_box_def by auto
  moreover have "own_string ?h ''p'' \<lparr> fs_data = 4, fs_len = 1 \<rparr>"
    by (simp add: own_string_def demo_params_def is_str_def as_bytes_def byte_of_char_def utf8_valid.simps byte_in_def)
  ultimately have "own_param_item ?h demo_param (I_param \<lparr> cp_name = \<lparr> fs_data = 4, fs_len = 1 \<rparr>, cp_type = Ty_none, cp_value = Some 3 \<rparr>) {4, 3, 1}"
    by (auto simp: own_param_item_def own_param_def demo_param_def)
  then have "own_vec ?h (own_param_item ?h) 1 [demo_param] \<lparr> rv_ptr = 6, rv_len = 1, rv_cap = 1 \<rparr> {6, 4, 3, 1}"
    using look(2) unfolding own_vec_def by auto
  then have "own_handle ?h (H_params 1 [demo_param]) 7 {7, 6, 4, 3, 1}"
    using look(3) unfolding own_handle.simps own_boxed_def by auto
  then have "owns demo_params [7 \<mapsto> H_params 1 [demo_param]] (\<lambda>_. {7, 6, 4, 3, 1})"
    using look(4,5) unfolding owns_def mem_ok_def by auto
  then show ?thesis
    by (auto simp: owned_def)
qed

text \<open>The program that builds such an array: an array with room for two, one push, a parameter with its value.\<close>

lemma session_update:
  assumes "c_session demo_vec demo_hex 5 m H" "c_spec demo_vec demo_hex call H = Some (C_Ok, S, Update b ob, None)"
    "\<forall>ob\<in>ran H. fits 5 ob" "call_fits demo_vec 5 call" "\<not> frees_short call H" "H |` (- S) = H0"
  shows "\<exists>m'. c_session demo_vec demo_hex 5 m' (H0(b \<mapsto> ob))"
  using call_step [OF demo_laws session_owned [OF demo_laws assms(1)] assms(3,4,2,5)] c_session.call [OF assms(1,2,3,4)] assms(6)
  by (metis c_apply.simps(2))

lemma session_fresh:
  assumes "c_session demo_vec demo_hex 5 m H" "c_spec demo_vec demo_hex call H = Some (C_Ok, S, Fresh ob, None)"
    "\<forall>ob\<in>ran H. fits 5 ob" "call_fits demo_vec 5 call" "\<not> frees_short call H" "H |` (- S) = H0"
  shows "\<exists>m' b. c_session demo_vec demo_hex 5 m' (H0(b \<mapsto> ob)) \<and> b \<notin> dom H - S"
  using call_step [OF demo_laws session_owned [OF demo_laws assms(1)] assms(3,4,2,5)] c_session.call [OF assms(1,2,3,4)] assms(6)
  by (metis c_apply.simps(1) not_Some_eq)

lemma restrict_gone [simp]: "[a \<mapsto> x] |` (- {a}) = Map.empty" "[a \<mapsto> x, b \<mapsto> y] |` (- {a, b}) = Map.empty"
  by (auto simp: restrict_map_def fun_eq_iff)

lemma demo_short_session: "\<exists>m a. c_session demo_vec demo_hex 5 m [a \<mapsto> H_params 1 [demo_param]]"
proof -
  have "\<exists>m. c_session demo_vec demo_hex 5 m (Map.empty(2 \<mapsto> H_array 2 [CFloat 7]))"
    by (rule session_update [OF demo_session, where call = "Array_push (Some 2) (Some 0)" and S = "{0, 2}"])
      (auto simp: demo_handles_def get_value_def get_array_def pushed_cap_def demo_vec_def ran_def split: if_splits)
  then obtain m1 where 1: "c_session demo_vec demo_hex 5 m1 [2 \<mapsto> H_array 2 [CFloat 7]]" ..
  obtain m2 b where 2: "c_session demo_vec demo_hex 5 m2 [b \<mapsto> H_value (CArray 2 [CFloat 7])]"
    using session_fresh [OF 1, of "Value_array (Some 2)" "{2}" "H_value (CArray 2 [CFloat 7])" Map.empty]
    by (auto simp: get_array_def)
  have "is_str ''p''" by (rule is_str_ascii) auto
  then obtain m3 c where 3: "c_session demo_vec demo_hex 5 m3 [c \<mapsto> H_param demo_param]"
    using session_fresh [OF 2, of "Param_create True (as_bytes ''p'') Ty_none (Some b)" "{b}" "H_param demo_param" Map.empty]
    by (auto simp: get_value_def spec_param_def checked_name_def demo_param_def from_utf8_as_bytes)
  obtain m4 d where 4: "c_session demo_vec demo_hex 5 m4 [c \<mapsto> H_param demo_param, d \<mapsto> H_params 1 []]" "d \<noteq> c"
    using session_fresh [OF 3, of "Params_create 1" "{}" "H_params 1 []" "[c \<mapsto> H_param demo_param]"]
    by (auto simp: demo_vec_def demo_param_def param_weight_def)
  have "\<exists>m. c_session demo_vec demo_hex 5 m (Map.empty(d \<mapsto> H_params 1 [demo_param]))"
    using 4(2)
    by (intro session_update [OF 4(1), where call = "Params_push (Some d) (Some c)" and S = "{c, d}"])
      (auto simp: get_param_def get_params_def pushed_cap_def demo_param_def param_weight_def ran_def split: if_splits)
  then show ?thesis by blast
qed

section \<open>Properties\<close>

text \<open>C20: Every call of the C parameter interface that follows the documented contract does what the
  specification says: the error code, the published parameters, a fresh pointer exactly when one is
  handed out, and a memory that holds exactly what the remaining pointers own. When no pointer is left, neither
  is any memory. The one exception is publishing, to an open server, parameters with a value array that is not
  full: the contract allows it, and it is undefined behaviour.\<close>

theorem c_call_refines:
  assumes "vec_laws V" "\<forall>bs. is_str (b64_encode E bs)" "owned m H" "\<forall>ob\<in>ran H. fits n ob" "call_fits V n call"
    and "c_spec V E call H = Some (err, S, out, pub)"
  shows "if frees_short call H then c_exec V E n call m = None
     else \<exists>r m'. c_exec V E n call m = Some ((err, r, pub), m') \<and> (r \<noteq> None \<longleftrightarrow> (\<exists>ob. out = Fresh ob)) \<and>
       (\<forall>b. r = Some b \<longrightarrow> b \<notin> dom H - S) \<and> owned m' (c_apply H S out r) \<and>
       (c_apply H S out r = Map.empty \<longrightarrow> heap m' = Map.empty)"
proof (cases "frees_short call H")
  case False
  then obtain r m' where r: "c_exec V E n call m = Some ((err, r, pub), m')" "r \<noteq> None \<longleftrightarrow> (\<exists>ob. out = Fresh ob)"
    "owned m' (c_apply H S out r)" "\<forall>b. r = Some b \<longrightarrow> b \<notin> dom H - S"
    using call_step [OF assms False] by (elim exE conjE) (rule that)
  have "c_apply H S out r = Map.empty \<longrightarrow> heap m' = Map.empty"
    using r(3) owned_empty by (intro impI) simp
  with r False show ?thesis
    unfolding if_not_P [OF False] by (intro exI conjI)
qed (use short_step [OF assms(3,4)] in simp)

lemma c_call_refines_witness:
  "\<exists>m'. c_exec demo_vec demo_hex 5 (Array_push (Some 2) (Some 0)) demo_mem = Some ((C_Ok, None, None), m') \<and>
     owned m' [2 \<mapsto> H_array 2 [CFloat 7]]"
proof -
  have "c_spec demo_vec demo_hex (Array_push (Some 2) (Some 0)) demo_handles =
      Some (C_Ok, {0, 2}, Update 2 (H_array 2 [CFloat 7]), None)"
    by (simp add: demo_handles_def get_value_def get_array_def pushed_cap_def demo_vec_def)
  moreover have "\<forall>ob\<in>ran demo_handles. fits 5 ob"
    by (auto simp: demo_handles_def ran_def split: if_splits)
  moreover have "(demo_handles |` (- {0, 2}))(2 \<mapsto> H_array 2 [CFloat 7]) = [2 \<mapsto> H_array 2 [CFloat 7]]"
    by (auto simp: demo_handles_def restrict_map_def fun_eq_iff)
  ultimately show ?thesis
    using c_call_refines [OF demo_laws session_owned [OF demo_laws demo_session], of 5 "Array_push (Some 2) (Some 0)"] by auto
qed

text \<open>C19: In every session that follows the documented contract the memory is exactly what the live pointers
  own, so that a session that has consumed all its pointers has freed all its memory. A further call that follows
  the contract returns and continues the session, unless it publishes a value array that is not full to an open
  server: that call has undefined behaviour.\<close>

theorem c_session_safe:
  assumes "vec_laws V" "\<forall>bs. is_str (b64_encode E bs)" "c_session V E n m H"
  shows "owned m H \<and> (H = Map.empty \<longrightarrow> heap m = Map.empty) \<and>
     (\<forall>call err S out pub. c_spec V E call H = Some (err, S, out, pub) \<longrightarrow> (\<forall>ob\<in>ran H. fits n ob) \<longrightarrow> call_fits V n call \<longrightarrow>
       (if frees_short call H then c_exec V E n call m = None
        else \<exists>r m'. c_exec V E n call m = Some ((err, r, pub), m') \<and> c_session V E n m' (c_apply H S out r)))"
proof (intro conjI allI impI)
  show own: "owned m H"
    by (rule session_owned [OF assms])
  show "heap m = Map.empty" if "H = Map.empty"
    using own owned_empty that by simp
  fix call err S out pub
  assume *: "c_spec V E call H = Some (err, S, out, pub)" "\<forall>ob\<in>ran H. fits n ob" "call_fits V n call"
  show "if frees_short call H then c_exec V E n call m = None
      else \<exists>r m'. c_exec V E n call m = Some ((err, r, pub), m') \<and> c_session V E n m' (c_apply H S out r)"
  proof (cases "frees_short call H")
    case False
    then obtain r m' where "c_exec V E n call m = Some ((err, r, pub), m')"
      using call_step [OF assms(1,2) own *(2,3,1)] by blast
    then show ?thesis
      using c_session.call [OF assms(3) *(1,2,3)] False by auto
  qed (use short_step [OF own *(2)] in simp)
qed

lemma c_session_safe_witness:
  "\<exists>m a. c_session demo_vec demo_hex 5 m [a \<mapsto> H_params 1 [demo_param]] \<and>
     owned m [a \<mapsto> H_params 1 [demo_param]] \<and> c_exec demo_vec demo_hex 5 (Publish_values (Some True) (Some a)) m = None"
proof -
  obtain m a where s: "c_session demo_vec demo_hex 5 m [a \<mapsto> H_params 1 [demo_param]]" using demo_short_session by blast
  have "frees_short (Publish_values (Some True) (Some a)) [a \<mapsto> H_params 1 [demo_param]]"
    by (simp add: get_params_def demo_param_def tight_param_def)
  moreover have "\<forall>ob\<in>ran [a \<mapsto> H_params 1 [demo_param]]. fits 5 ob"
    by (simp add: demo_param_def param_weight_def)
  moreover have "c_spec demo_vec demo_hex (Publish_values (Some True) (Some a)) [a \<mapsto> H_params 1 [demo_param]] =
      Some (C_Ok, {a}, Nothing, Some (map native_param [demo_param]))"
    by (simp add: get_params_def)
  moreover have "call_fits demo_vec 5 (Publish_values (Some True) (Some a))" by simp
  ultimately show ?thesis using s c_session_safe [OF demo_laws s] by metis
qed

text \<open>C21: Publishing an array of parameters to an open server yields the parameters it stands for and frees
  exactly its memory when every value array in it is full, and is undefined behaviour otherwise, because the
  buffer of a value array is freed with its length as the capacity. A server that is null or closed drops the
  array in either case.\<close>

theorem publish_exact:
  assumes "owned m H" "H a = Some (H_params cap qs)" "fits n (H_params cap qs)"
  shows "\<exists>m'. owned m' (H(a := None)) \<and>
     server_publish_parameter_values n (Some True) (Some a) m =
       (if \<forall>q\<in>set qs. tight_param q then Some (C_Ok, Some (map native_param qs), m') else None) \<and>
     server_publish_parameter_values n None (Some a) m = Some (C_ValueError, None, m') \<and>
     server_publish_parameter_values n (Some False) (Some a) m = Some (C_SinkClosed, None, m')"
proof -
  obtain F where F: "owns m H F"
    using assms(1) by (auto simp: owned_def)
  have own: "own_handle (heap m) (H_params cap qs) a (F a)"
    by (rule owns_handle [OF F assms(2)])
  have "owned (erase (F a) m) (H |` (- {a}))"
    using assms(2) moves_erase by (intro owned_take [OF F]) auto
  moreover have "H |` (- {a}) = H(a := None)"
    by (auto simp: restrict_map_def fun_eq_iff)
  ultimately show ?thesis
    using effect_publish [OF own assms(3)] by auto
qed

lemma publish_exact_witness:
  "owned demo_params [7 \<mapsto> H_params 1 [demo_param]] \<and>
   server_publish_parameter_values 5 (Some True) (Some 7) demo_params = None \<and>
   (\<exists>m'. server_publish_parameter_values 5 (Some False) (Some 7) demo_params = Some (C_SinkClosed, None, m') \<and> owned m' Map.empty)"
proof -
  have "\<not> tight_param demo_param" "param_weight demo_param < 5"
    by (simp_all add: demo_param_def tight_param_def param_weight_def)
  then show ?thesis
    using publish_exact [OF demo_params_owned, of 7 1 "[demo_param]" 5] demo_params_owned by auto
qed


end
