(* ===== verification/C_Native.thy ===== *)
theory C_Native
  imports C_Api
begin

text \<open>
  What crosses the border between the native parameters and those of C: byte arrays read from C,
  strings borrowed from C, the conversion from the native type, and the listeners of the server,
  which lend parameters to a callback of the caller and consume the ones it returns.
\<close>

section \<open>Byte arrays\<close>

definition byte_array_of :: "cparam \<Rightarrow> string option" where
  "byte_array_of q = (case q of (_, Ty_byte_array, Some (CString s)) \<Rightarrow> Some s | _ \<Rightarrow> None)"

lemma byte_array_as_str_owned:
  assumes "own_param (heap m) q p A"
  shows "get_byte_array_as_str p m = Some (byte_array_of q)"
proof -
  obtain name ty vo where q: "q = (name, ty, vo)"
    by (cases q) auto
  obtain B where B: "cp_type p = ty" "own_opt (heap m) vo (cp_value p) B"
    using assms by (auto simp: own_param_def q)
  show ?thesis
  proof (cases vo)
    case None
    then show ?thesis
      using B by (auto simp: q own_opt_def get_byte_array_as_str_def byte_array_of_def split: FoxgloveParameterType.splits)
  next
    case (Some t)
    then obtain a v C where v: "cp_value p = Some a" "heap m a = Some (B_value v)" "own_value (heap m) t v C"
      using B by (auto simp: own_opt_def own_box_def)
    then show ?thesis
      using B(1) Some string_as_str_owned [of m]
      by (cases t; cases ty)
        (auto simp: q get_byte_array_as_str_def byte_array_of_def read_value_def own_value_vec value_float64_def value_integer_def
          value_boolean_def value_array_def value_dict_def)
  qed
qed

text \<open>Decoding never panics into a buffer that is there, since the estimate of base64 is an upper bound.\<close>

lemma decode_byte_array_owned:
  assumes "own_handle (heap m) (H_param q) a A" "\<forall>s bytes. b64_decode E s = Inr bytes \<longrightarrow> length bytes \<le> estimate (length s)"
  shows "parameter_decode_byte_array E estimate (Some a) True cap m =
     Some (case byte_array_of q of
        None \<Rightarrow> (C_ValueError, None)
      | Some s \<Rightarrow>
          (if cap < estimate (length s) then (C_BufferTooShort, None)
           else case b64_decode E s of Inl _ \<Rightarrow> (C_Base64DecodeError, None) | Inr bytes \<Rightarrow> (C_Ok, Some (length bytes, bytes))))"
proof -
  obtain p B where p: "heap m a = Some (B_param p)" "own_param (heap m) q p B"
    using assms(1) by (auto simp: own_boxed_def)
  show ?thesis
    using assms(2) p(1) byte_array_as_str_owned [OF p(2)]
    by (auto simp: parameter_decode_byte_array_def read_param_def split: option.splits sum.splits) fastforce
qed

text \<open>A null buffer is taken for an empty one, whatever the capacity.\<close>

lemma decode_null_buffer:
  assumes "own_handle (heap m) (H_param q) a A" "byte_array_of q = Some s" "b64_decode E s = Inr bytes" "bytes \<noteq> []"
    and "estimate (length s) \<le> cap"
  shows "parameter_decode_byte_array E estimate (Some a) False cap m = None"
proof -
  obtain p B where p: "heap m a = Some (B_param p)" "own_param (heap m) q p B"
    using assms(1) by (auto simp: own_boxed_def)
  show ?thesis
    using assms(2-5) p(1) byte_array_as_str_owned [OF p(2)]
    by (simp add: parameter_decode_byte_array_def read_param_def)
qed

text \<open>A string of the caller that is not UTF-8 is freed by the error, although Rust did not allocate it.\<close>

lemma string_from_raw_invalid:
  assumes "heap m ptr = Some (B_foreign bs)" "0 < len" "len \<le> length bs" "from_utf8 (take len bs) = None"
  shows "string_from_raw ptr len m = None"
  using assms by (simp add: string_from_raw_def block_bytes_def string_drop_def)

section \<open>From the native type\<close>

fun tree_of :: "vec_ops \<Rightarrow> ParameterValue \<Rightarrow> ctree" where
  "tree_of V (Float64 x) = CFloat x"
| "tree_of V (Integer x) = CInt x"
| "tree_of V (PBool x) = CBool x"
| "tree_of V (PString s) = CString s"
| "tree_of V (PArray vs) = CArray (collect_cap V (length vs)) (map (tree_of V) vs)"
| "tree_of V (PDict es) = CDict (collect_cap V (length es)) (map (\<lambda>e. (fst e, tree_of V (snd e))) es)"

text \<open>The strings of a native value are UTF-8 and its maps are in the order of the keys.\<close>

fun native_ok :: "ParameterValue \<Rightarrow> bool" where
  "native_ok (PString s) \<longleftrightarrow> is_str s"
| "native_ok (PArray vs) \<longleftrightarrow> (\<forall>v\<in>set vs. native_ok v)"
| "native_ok (PDict es) \<longleftrightarrow> sorted_wrt (\<lambda>e f. str_less (fst e) (fst f)) es \<and>
     (\<forall>e\<in>set es. is_str (fst e) \<and> native_ok (snd e))"
| "native_ok _ \<longleftrightarrow> True"

lemma map_items_built:
  assumes "\<And>x m. x \<in> set xs \<Longrightarrow> produces (\<lambda>h. Q h (g x)) m (f x m)" "\<And>h h' t x B. Q h t x B \<Longrightarrow> agree h h' B \<Longrightarrow> Q h' t x B"
  shows "produces (\<lambda>h. own_items (Q h) (map g xs)) m (map_items f xs m)"
  using assms(1)
proof (induction xs arbitrary: m)
  case (Cons x xs)
  obtain y m1 D where 1: "f x m = Some (y, m1)" "Q (heap m1) (g x) y D" "grown m D m1"
    using Cons.prems [of x m] by (auto simp: produces_def)
  obtain zs m2 C where 2: "map_items f xs m1 = Some (zs, m2)" "own_items (Q (heap m2)) (map g xs) zs C" "grown m1 C m2"
    using Cons.IH [of m1] Cons.prems by (auto simp: produces_def)
  have "Q (heap m2) (g x) y D"
    using assms(2) [OF 1(2)] grown_agree [OF 2(3) grown_inside [OF 1(3)]] by blast
  then have "own_items (Q (heap m2)) (map g (x # xs)) (y # zs) (D \<union> C)"
    using 2(2) grown_trans [OF 1(3) 2(3)] by auto
  then show ?case
    using 1 2 grown_trans [OF 1(3) 2(3)] unfolding produces_def by auto
qed (auto simp: produces_def)

lemma value_from_owned:
  assumes "vec_laws V"
  shows "native_ok pv \<Longrightarrow> produces (\<lambda>h. own_value h (tree_of V pv)) m (value_from V pv m)"
proof (induction pv arbitrary: m)
  case (PString s)
  then show ?case
    using string_new_owned [of s m] by (fastforce simp: produces_def value_string_def split: prod.splits)
next
  case (PArray vs)
  have "produces (\<lambda>h. own_item h (tree_of V v)) m (do { (w, m') \<leftarrow> value_from V v m; Some (I_value w, m') })" if "v \<in> set vs" for v m
    using PArray.IH [OF that, of m] PArray.prems that by (auto simp: produces_def own_item_def)
  then have "produces (\<lambda>h. own_items (own_item h) (map (tree_of V) vs)) m
      (map_items (\<lambda>v m. do { (w, m') \<leftarrow> value_from V v m; Some (I_value w, m') }) vs m)"
    by (rule map_items_built [where Q = own_item]) (auto intro: own_item_local)
  from vec_built [where Q = own_item, OF this assms own_item_local] show ?case
    by (fastforce simp: produces_def own_value_vec bind_eq_Some_conv split: prod.splits)
next
  case (PDict es)
  have "produces (\<lambda>h. own_pair h (fst e, tree_of V (snd e))) m
      ((\<lambda>(k, v) m. do {
         (w, m1) \<leftarrow> value_from V v m;
         (case box_value w m1 of (a, m2) \<Rightarrow> case entry_new k a m2 of (e, m3) \<Rightarrow> Some (I_entry e, m3))
       }) e m)" if "e \<in> set es" for e m
  proof -
    have "produces (\<lambda>h. own_value h (tree_of V (snd e))) m (value_from V (snd e) m)" "is_str (fst e)"
      using PDict.IH [of e "snd e"] PDict.prems that by (auto simp: snds.simps)
    from entry_built [where Q = "\<lambda>h. own_value h (tree_of V (snd e))", OF this own_value_local] show ?thesis
      by (cases e) (simp add: own_pair_def)
  qed
  then have "produces (\<lambda>h. own_items (own_pair h) (map (\<lambda>e. (fst e, tree_of V (snd e))) es)) m
      (map_items (\<lambda>(k, v) m. do {
         (w, m1) \<leftarrow> value_from V v m;
         (case box_value w m1 of (a, m2) \<Rightarrow> case entry_new k a m2 of (e, m3) \<Rightarrow> Some (I_entry e, m3))
       }) es m)"
    by (rule map_items_built [where Q = own_pair]) (auto intro: own_pair_local)
  from vec_built [where Q = own_pair, OF this assms own_pair_local] show ?case
    by (fastforce simp: produces_def own_value_vec bind_eq_Some_conv split: prod.splits)
qed (auto simp: produces_def intro!: exI [of _ "{}"])

lemma str_less_asym: "str_less a b \<Longrightarrow> \<not> str_less b a"
  using str_less_trans str_less_irrefl by blast

lemma btree_insert_last:
  "\<forall>e\<in>set es. str_less (fst e) k \<Longrightarrow> btree_insert k v es = es @ [(k, v)]"
  by (induction es) (auto dest: str_less_asym)

lemma btree_collect_sorted:
  assumes "sorted_wrt (\<lambda>e f. str_less (fst e) (fst f)) es"
  shows "btree_collect es = es"
proof -
  have "fold (\<lambda>(k, v). btree_insert k v) es acc = acc @ es"
    if "sorted_wrt (\<lambda>e f. str_less (fst e) (fst f)) (acc @ es)" for acc
    using that
  proof (induction es arbitrary: acc)
    case (Cons e es)
    then show ?case
      using Cons.IH [of "acc @ [e]"] btree_insert_last [of acc "fst e" "snd e"]
      by (cases e) (auto simp: sorted_wrt_append)
  qed simp
  from this [of "[]"] show ?thesis
    using assms by (simp add: btree_collect_def)
qed

lemma native_tree_of: "native_ok pv \<Longrightarrow> native (tree_of V pv) = pv"
proof (induction pv)
  case (PDict es)
  have "map (\<lambda>e. (fst e, native (tree_of V (snd e)))) es = es"
    using PDict by (intro map_idI) (auto simp: snds.simps prod_eq_iff)
  then show ?case
    using PDict.prems btree_collect_sorted [of es] by (simp add: comp_def)
next
  case (PArray vs)
  then show ?case
    by (simp add: map_idI)
qed auto

text \<open>Collecting the elements of every array in the value allocates exactly what they need, which the standard
  library does not promise.\<close>

fun collected_full :: "vec_ops \<Rightarrow> ParameterValue \<Rightarrow> bool" where
  "collected_full V (PArray vs) = (collect_cap V (length vs) = length vs \<and> (\<forall>v\<in>set vs. collected_full V v))"
| "collected_full V (PDict es) = (\<forall>v\<in>snd ` set es. collected_full V v)"
| "collected_full V _ = True"

lemma tight_tree_of: "tight (tree_of V pv) \<longleftrightarrow> collected_full V pv"
  by (induction pv) (auto simp: snds.simps)

section \<open>Parameters that are lent and consumed\<close>

definition param_ok :: "Parameter \<Rightarrow> bool" where
  "param_ok p \<longleftrightarrow> is_str (param_name p) \<and> (case param_value p of None \<Rightarrow> True | Some v \<Rightarrow> native_ok v)"

definition cparam_of :: "vec_ops \<Rightarrow> Parameter \<Rightarrow> cparam" where
  "cparam_of V p = (param_name p, type_from (param_type p), map_option (tree_of V) (param_value p))"

lemma type_roundtrip: "type_to_native (type_from t) = t"
  by (auto simp: type_to_native_def type_from_def split: option.splits ParameterType.splits)

lemma native_cparam_of: "param_ok p \<Longrightarrow> native_param (cparam_of V p) = p"
  by (cases p) (auto simp: param_ok_def native_param_def cparam_of_def type_roundtrip native_tree_of split: option.splits)

lemma param_from_owned:
  assumes "vec_laws V" "param_ok p"
  shows "produces (\<lambda>h. own_param h (cparam_of V p)) m (param_from V p m)"
proof -
  have opt: "produces (\<lambda>h. own_opt h (map_option (tree_of V) (param_value p))) m (case param_value p of
      None \<Rightarrow> Some (None, m)
    | Some v \<Rightarrow> do { (w, m1) \<leftarrow> value_from V v m; (case box_value w m1 of (a, m2) \<Rightarrow> Some (Some a, m2)) })"
  proof (cases "param_value p")
    case None
    then show ?thesis
      by (auto simp: produces_def own_opt_def intro!: exI [of _ "{}"])
  next
    case (Some v)
    then have "produces (\<lambda>h. own_value h (tree_of V v)) m (value_from V v m)"
      using assms value_from_owned by (simp add: param_ok_def)
    from box_built [where Q = "\<lambda>h. own_value h (tree_of V v)", OF this own_value_local] show ?thesis
      using Some by (fastforce simp: produces_def own_opt_def bind_eq_Some_conv split: prod.splits)
  qed
  then obtain v m1 C where 1: "(case param_value p of
      None \<Rightarrow> Some (None, m)
    | Some v \<Rightarrow> do { (w, m1) \<leftarrow> value_from V v m; (case box_value w m1 of (a, m2) \<Rightarrow> Some (Some a, m2)) }) = Some (v, m1)"
    "own_opt (heap m1) (map_option (tree_of V) (param_value p)) v C" "grown m C m1"
    by (auto simp: produces_def)
  obtain b m2 where b: "string_new (param_name p) m1 = (b, m2)"
    by force
  then have g: "own_string (heap m2) (param_name p) b" "grown m1 {fs_data b} m2"
    using string_new_owned [of "param_name p" m1 b m2] assms(2) by (auto simp: param_ok_def)
  have "own_param (heap m2) (cparam_of V p) \<lparr> cp_name = b, cp_type = type_from (param_type p), cp_value = v \<rparr> (C \<union> {fs_data b})"
    using g own_opt_local [OF 1(2) grown_agree [OF g(2) grown_inside [OF 1(3)]]] grown_below [OF g(2) grown_inside [OF 1(3)]]
    by (auto simp: own_param_def cparam_of_def)
  moreover have "param_from V p m = Some (\<lparr> cp_name = b, cp_type = type_from (param_type p), cp_value = v \<rparr>, m2)"
    unfolding param_from_def 1(1) by (simp add: param_new_def b)
  ultimately show ?thesis
    using grown_trans [OF 1(3) g(2)] unfolding produces_def by blast
qed

lemma params_from_owned:
  assumes "vec_laws V" "\<forall>p\<in>set ps. param_ok p"
  shows "produces (\<lambda>h. own_vec h (own_param_item h) (collect_cap V (length ps)) (map (cparam_of V) ps)) m (params_from V ps m)"
proof -
  have "produces (\<lambda>h. own_items (own_param_item h) (map (cparam_of V) ps)) m
      (map_items (\<lambda>p m. do { (q, m') \<leftarrow> param_from V p m; Some (I_param q, m') }) ps m)"
  proof (rule map_items_built [where Q = own_param_item])
    show "produces (\<lambda>h. own_param_item h (cparam_of V p)) m (do { (q, m') \<leftarrow> param_from V p m; Some (I_param q, m') })"
      if "p \<in> set ps" for p m
      using param_from_owned [OF assms(1), of p m] assms(2) that by (auto simp: produces_def own_param_item_def)
  qed (rule param_elems.own_local)
  from vec_built [where Q = own_param_item, OF this assms(1) param_elems.own_local] show ?thesis
    by (simp add: params_from_def)
qed

lemma array_lent:
  assumes "vec_laws V" "\<forall>p\<in>set ps. param_ok p" "owned m H"
  shows "\<exists>r m1 c m2. params_from V ps m = Some (r, m1) \<and> mem_alloc (B_params r) m1 = (c, m2) \<and> c \<notin> dom H \<and>
     owned m2 (H(c \<mapsto> H_params (collect_cap V (length ps)) (map (cparam_of V) ps)))"
proof -
  let ?ob = "H_params (collect_cap V (length ps)) (map (cparam_of V) ps)"
  obtain F where F: "owns m H F"
    using assms(3) by (auto simp: owned_def)
  have "effect m {} C_Ok (Fresh ?ob) None (do { (r, m1) \<leftarrow> params_from V ps m; gives (mem_alloc (B_params r) m1) })"
    by (rule effect_produces [OF params_from_owned [OF assms(1,2)] framed_own(5)]) simp
  then have eff: "effect m (\<Union>(F ` {})) C_Ok (Fresh ?ob) None (do { (r, m1) \<leftarrow> params_from V ps m; gives (mem_alloc (B_params r) m1) })"
    by simp
  obtain r m2 where r: "(do { (r, m1) \<leftarrow> params_from V ps m; gives (mem_alloc (B_params r) m1) }) = Some ((C_Ok, r, None), m2)"
    "r \<noteq> None" "owned m2 (c_apply H {} (Fresh ?ob) r)" "\<forall>b. r = Some b \<longrightarrow> b \<notin> dom H"
    using effect_owned [OF F empty_subsetI eff] by auto
  then obtain c where "r = Some c" "c \<notin> dom H" "owned m2 (H(c \<mapsto> ?ob))"
    by (auto simp: restrict_map_def)
  with r(1) have "(do { (r, m1) \<leftarrow> params_from V ps m; gives (mem_alloc (B_params r) m1) }) = Some ((C_Ok, Some c, None), m2)"
    "owned m2 (H(c \<mapsto> ?ob))" "c \<notin> dom H"
    by simp_all
  then show ?thesis
    by (cases "params_from V ps m") (auto simp: gives_def prod_eq_iff)
qed

lemma array_freed:
  assumes "owned m H" "H a = Some (H_params cap qs)" "fits n (H_params cap qs)"
  shows "\<exists>m'. owned m' (H(a := None)) \<and> parameter_array_free n (Some a) m = Some m' \<and>
     parameter_array_consume n a m = (if \<forall>q\<in>set qs. tight_param q then Some (map native_param qs, m') else None)"
proof -
  obtain F where F: "owns m H F"
    using assms(1) by (auto simp: owned_def)
  have own: "own_handle (heap m) (H_params cap qs) a (F a)"
    by (rule owns_handle [OF F assms(2)])
  have "owned (erase (F a) m) (H |` (- {a}))"
    using assms(2) moves_erase by (intro owned_take [OF F]) auto
  moreover have "H |` (- {a}) = H(a := None)"
    by (auto simp: restrict_map_def fun_eq_iff)
  ultimately show ?thesis
    using drop_handle(5) [OF own assms(3)] consume_exact [OF own assms(3)] by (auto simp: outcome_def)
qed

text \<open>A callback that is lent an array: it may allocate, keeps the lent array, and returns an array of its own
  that stands for \<open>answer\<close>, or null.\<close>

definition callback_ok :: "handles \<Rightarrow> chandle \<Rightarrow> cparam list option \<Rightarrow> (addr \<Rightarrow> mem \<Rightarrow> (addr option \<times> mem) option) \<Rightarrow> bool" where
  "callback_ok H lent answer f \<longleftrightarrow>
     (\<forall>c m. c \<notin> dom H \<longrightarrow> owned m (H(c \<mapsto> lent)) \<longrightarrow>
       (case answer of
          None \<Rightarrow> \<exists>m'. f c m = Some (None, m') \<and> owned m' (H(c \<mapsto> lent))
        | Some qs \<Rightarrow> \<exists>a cap m'. f c m = Some (Some a, m') \<and> a \<noteq> c \<and> a \<notin> dom H \<and> owned m' (H(c \<mapsto> lent, a \<mapsto> H_params cap qs))))"

lemma on_set_lent:
  assumes "vec_laws V" "\<forall>p\<in>set ps. param_ok p" "owned m H" "\<forall>p\<in>set ps. param_weight (cparam_of V p) < n"
    and "callback_ok H (H_params (collect_cap V (length ps)) (map (cparam_of V) ps)) answer f"
    and "\<forall>qs\<in>set_option answer. \<forall>q\<in>set qs. param_weight q < n"
  shows "\<exists>m'. owned m' H \<and> server_on_set_parameters V n (Some f) ps m =
     (case answer of
        None \<Rightarrow> Some ([], m')
      | Some qs \<Rightarrow> if \<forall>q\<in>set qs. tight_param q then Some (map native_param qs, m') else None)"
proof -
  let ?ob = "H_params (collect_cap V (length ps)) (map (cparam_of V) ps)"
  obtain r m1 c m2 where 1: "params_from V ps m = Some (r, m1)" "mem_alloc (B_params r) m1 = (c, m2)" "c \<notin> dom H" "owned m2 (H(c \<mapsto> ?ob))"
    using array_lent [OF assms(1-3)] by blast
  have called: "case answer of
        None \<Rightarrow> \<exists>m'. f c m2 = Some (None, m') \<and> owned m' (H(c \<mapsto> ?ob))
      | Some qs \<Rightarrow> \<exists>a cap m'. f c m2 = Some (Some a, m') \<and> a \<noteq> c \<and> a \<notin> dom H \<and> owned m' (H(c \<mapsto> ?ob, a \<mapsto> H_params cap qs))"
    using assms(5) 1(3,4) unfolding callback_ok_def by blast
  have fit: "fits n ?ob"
    using assms(4) by simp
  have restore: "(H(c \<mapsto> ?ob))(c := None) = H"
    using 1(3) by (auto simp: fun_eq_iff)
  show ?thesis
  proof (cases answer)
    case None
    then obtain m3 where m3: "f c m2 = Some (None, m3)" "owned m3 (H(c \<mapsto> ?ob))"
      using called by auto
    obtain m4 where "owned m4 H" "parameter_array_free n (Some c) m3 = Some m4"
      using array_freed [OF m3(2) _ fit, of c] restore by auto
    then show ?thesis
      using None 1(1,2) m3(1) by (auto simp: server_on_set_parameters_def)
  next
    case (Some qs)
    then obtain a cap m3 where m3: "f c m2 = Some (Some a, m3)" "a \<noteq> c" "a \<notin> dom H" "owned m3 (H(c \<mapsto> ?ob, a \<mapsto> H_params cap qs))"
      using called by auto
    obtain m4 where m4: "owned m4 ((H(c \<mapsto> ?ob, a \<mapsto> H_params cap qs))(c := None))" "parameter_array_free n (Some c) m3 = Some m4"
      using array_freed [OF m3(4) _ fit, of c] m3(2) by auto
    moreover have "(H(c \<mapsto> ?ob, a \<mapsto> H_params cap qs))(c := None) = H(a \<mapsto> H_params cap qs)"
      using m3(2) 1(3) by (auto simp: fun_eq_iff)
    moreover have "(H(a \<mapsto> H_params cap qs))(a := None) = H"
      using m3(3) by (auto simp: fun_eq_iff)
    ultimately obtain m5 where "owned m5 H"
      "parameter_array_consume n a m4 = (if \<forall>q\<in>set qs. tight_param q then Some (map native_param qs, m5) else None)"
      using array_freed [of m4 "H(a \<mapsto> H_params cap qs)" a cap qs n] assms(6) Some by auto
    then show ?thesis
      using Some 1(1,2) m3(1) m4(2) by (auto simp: server_on_set_parameters_def)
  qed
qed

section \<open>Properties\<close>

text \<open>C23: A native parameter value that is converted to its C struct and back is unchanged, and all memory that the
  struct took is given back, when the vectors collected for its arrays have no spare capacity. The standard library
  promises only that the capacity is enough, and with spare capacity in any of them the conversion back has undefined
  behaviour.\<close>

theorem native_value_roundtrip:
  assumes "vec_laws V" "native_ok pv" "size (tree_of V pv) < n" "mem_ok m"
  shows "\<exists>v m1. value_from V pv m = Some (v, m1) \<and>
     (if collected_full V pv then \<exists>m2. value_into_native n v m1 = Some (pv, m2) \<and> heap m2 = heap m
      else value_into_native n v m1 = None)"
proof -
  obtain v m1 B where v: "value_from V pv m = Some (v, m1)" "own_value (heap m1) (tree_of V pv) v B" "grown m B m1"
    using value_from_owned [OF assms(1,2), of m] by (auto simp: produces_def)
  have "value_into_native n v m1 = (if collected_full V pv then Some (pv, erase B m1) else None)"
    using value_into_native_owned [OF v(2) agree_refl assms(3)] native_tree_of [OF assms(2)]
    by (simp add: outcome_def tight_tree_of)
  moreover have "heap (erase B m1) a = heap m a" for a
    using v(3) mem_ok_None [OF assms(4)] by (cases "a \<in> B") (auto simp: heap_erase grown_def agree_def)
  ultimately show ?thesis
    using v(1) by auto
qed

text \<open>The same value with a library that leaves room for one more element.\<close>

definition spare_vec :: vec_ops where
  "spare_vec = demo_vec \<lparr> collect_cap := Suc \<rparr>"

lemma native_value_roundtrip_witness:
  "let pv = PDict [(''a'', PArray [Float64 1, PBool True])] in
     (\<exists>v m1 m2. value_from demo_vec pv demo_mem = Some (v, m1) \<and> value_into_native 20 v m1 = Some (pv, m2) \<and> heap m2 = heap demo_mem)
     \<and> (\<exists>v m1. value_from spare_vec pv demo_mem = Some (v, m1) \<and> value_into_native 20 v m1 = None)"
proof -
  let ?pv = "PDict [(''a'', PArray [Float64 1, PBool True])]"
  have ok: "native_ok ?pv"
    by (simp add: is_str_def as_bytes_def byte_of_char_def utf8_valid.simps byte_in_def)
  have size: "size (tree_of V ?pv) < 20" for V
    by simp
  have mem: "mem_ok demo_mem"
    by (auto simp: mem_ok_def demo_mem_def split: if_splits)
  have "vec_laws spare_vec" "collected_full demo_vec ?pv" "\<not> collected_full spare_vec ?pv"
    by (simp_all add: spare_vec_def demo_vec_def vec_laws_def)
  then show ?thesis
    using native_value_roundtrip [OF demo_laws(1) ok size mem] native_value_roundtrip [OF _ ok size mem, of spare_vec]
    unfolding Let_def by fastforce
qed

text \<open>C22: The listener for set-parameters requests lends the callback an array that stands for exactly the
  requested parameters, frees it afterwards, and answers with what the array returned by the callback stands
  for; the memory of the caller is as before. When a value array of that answer is not full, reading it is
  undefined behaviour.\<close>

theorem on_set_parameters_lends:
  assumes "vec_laws V" "\<forall>p\<in>set ps. param_ok p" "owned m H" "\<forall>p\<in>set ps. param_weight (cparam_of V p) < n"
    and "callback_ok H (H_params (collect_cap V (length ps)) (map (cparam_of V) ps)) answer f"
    and "\<forall>qs\<in>set_option answer. \<forall>q\<in>set qs. param_weight q < n"
  shows "map native_param (map (cparam_of V) ps) = ps \<and>
     (\<exists>m'. owned m' H \<and> server_on_set_parameters V n (Some f) ps m =
       (case answer of
          None \<Rightarrow> Some ([], m')
        | Some qs \<Rightarrow> if \<forall>q\<in>set qs. tight_param q then Some (map native_param qs, m') else None))"
proof
  show "map native_param (map (cparam_of V) ps) = ps"
    using assms(2) native_cparam_of by (simp add: map_idI)
qed (rule on_set_lent [OF assms])

text \<open>A callback that returns a new empty array.\<close>

definition demo_callback :: "addr \<Rightarrow> mem \<Rightarrow> (addr option \<times> mem) option" where
  "demo_callback c m = (case parameter_array_create demo_vec 0 m of (a, m') \<Rightarrow> Some (Some a, m'))"

lemma demo_callback_ok: "callback_ok Map.empty (H_params 1 qs) (Some []) demo_callback"
  unfolding callback_ok_def option.case
proof (intro allI impI)
  fix c m
  assume own: "owned m [c \<mapsto> H_params 1 qs]"
  obtain n where "fits n (H_params 1 qs)" "0 < n"
  proof
    have "param_weight q < Suc (\<Sum>q\<leftarrow>qs. param_weight q)" if "q \<in> set qs" for q
      using that member_le_sum_list [of "param_weight q" "map param_weight qs"] by (auto simp: less_Suc_eq_le)
    then show "fits (Suc (\<Sum>q\<leftarrow>qs. param_weight q)) (H_params 1 qs)"
      by simp
  qed simp
  then obtain r m' where r: "c_exec demo_vec demo_hex n (Params_create 0) m = Some ((C_Ok, r, None), m')" "r \<noteq> None"
    "owned m' (c_apply [c \<mapsto> H_params 1 qs] {} (Fresh (H_params 0 [])) r)" "\<forall>b. r = Some b \<longrightarrow> b \<notin> {c}"
    using call_step [OF demo_laws own, of n "Params_create 0" C_Ok "{}" "Fresh (H_params 0 [])" None] by (auto simp: demo_vec_def)
  have "[c \<mapsto> H_params 1 qs] |` UNIV = [c \<mapsto> H_params 1 qs]"
    by (auto simp: restrict_map_def)
  then obtain a where "r = Some a" "a \<noteq> c" "owned m' [c \<mapsto> H_params 1 qs, a \<mapsto> H_params 0 []]"
    using r(2-4) by auto
  then show "\<exists>a cap m'. demo_callback c m = Some (Some a, m') \<and> a \<noteq> c \<and> a \<notin> dom Map.empty \<and>
      owned m' [c \<mapsto> H_params 1 qs, a \<mapsto> H_params cap []]"
    using r(1) by (auto simp: demo_callback_def gives_def split: prod.splits)
qed

lemma on_set_parameters_lends_witness:
  "\<exists>m'. owned m' Map.empty \<and>
     server_on_set_parameters demo_vec 5 (Some demo_callback) [\<lparr> param_name = ''p'', param_type = None, param_value = Some (Float64 7) \<rparr>]
       \<lparr> heap = Map.empty, next_addr = 0 \<rparr> = Some ([], m')"
proof -
  let ?p = "\<lparr> param_name = ''p'', param_type = None, param_value = Some (Float64 7) \<rparr>"
  have "\<forall>p\<in>set [?p]. param_ok p"
    by (simp add: param_ok_def is_str_def as_bytes_def byte_of_char_def utf8_valid.simps byte_in_def)
  moreover have "\<forall>p\<in>set [?p]. param_weight (cparam_of demo_vec p) < 5"
    by (simp add: cparam_of_def param_weight_def)
  moreover have "callback_ok Map.empty (H_params (collect_cap demo_vec (length [?p])) (map (cparam_of demo_vec) [?p])) (Some []) demo_callback"
    using demo_callback_ok by (simp add: demo_vec_def)
  ultimately show ?thesis
    using on_set_parameters_lends [OF demo_laws(1) _ session_owned [OF demo_laws c_session.start [where n = 5]], of "[?p]" 5 "Some []" demo_callback]
    by auto
qed

end
