(* ===== verification/C_Graph.thy ===== *)
theory C_Graph
  imports Connection_Graph C_Error
begin

text \<open>
  The connection graph of the C bindings (\<open>src/c/src/connection_graph.rs\<close>). The functions that set
  a topic or a service have the same contract, the locale \<open>c_graph_setter\<close>.
\<close>

section \<open>Operations\<close>

text \<open>An array of the caller is the list at the pointer, \<open>None\<close> when the pointer is null, and the
  count that is passed with it.\<close>

fun read_ids :: "string \<Rightarrow> FoxgloveString list \<Rightarrow> (string list, FoxgloveError) result" where
  "read_ids what [] = Inr []"
| "read_ids what (i # is) =
     (if i = None then Inl (ValueError (''encountered a null '' @ what))
      else and_then (utf8_arg (what @ '' is invalid'') i) (\<lambda>s. and_then (read_ids what is) (\<lambda>ss. Inr (s # ss))))"

definition connection_graph_create :: "bool \<Rightarrow> c_error \<times> ConnectionGraph option" where
  "connection_graph_create out = (if \<not> out then (C_ValueError, None) else (C_Ok, Some graph_new))"

definition do_set_published_topic ::
  "ConnectionGraph \<Rightarrow> FoxgloveString \<Rightarrow> FoxgloveString list option \<Rightarrow> nat \<Rightarrow> (ConnectionGraph, FoxgloveError) result" where
  "do_set_published_topic graph topic publisher_ids count =
     and_then (utf8_arg ''topic is invalid'' topic) (\<lambda>topic.
       if count > 0 then
         (case publisher_ids of
            None \<Rightarrow> Inl (ValueError ''publisher_ids is null'')
          | Some ids \<Rightarrow> and_then (read_ids ''publisher_id'' (take count ids)) (\<lambda>strings.
              Inr (set_published_topic topic strings graph)))
       else Inr graph)"

definition do_set_subscribed_topic ::
  "ConnectionGraph \<Rightarrow> FoxgloveString \<Rightarrow> FoxgloveString list option \<Rightarrow> nat \<Rightarrow> (ConnectionGraph, FoxgloveError) result" where
  "do_set_subscribed_topic graph topic subscriber_ids count =
     and_then (utf8_arg ''topic is invalid'' topic) (\<lambda>topic.
       if count > 0 then
         (case subscriber_ids of
            None \<Rightarrow> Inl (ValueError ''subscriber_ids is null'')
          | Some ids \<Rightarrow> and_then (read_ids ''subscriber_id'' (take count ids)) (\<lambda>strings.
              Inr (set_subscribed_topic topic strings graph)))
       else Inr graph)"

definition do_set_advertised_service ::
  "ConnectionGraph \<Rightarrow> FoxgloveString \<Rightarrow> FoxgloveString list option \<Rightarrow> nat \<Rightarrow> (ConnectionGraph, FoxgloveError) result" where
  "do_set_advertised_service graph service provider_ids count =
     and_then (utf8_arg ''service is invalid'' service) (\<lambda>service.
       if count > 0 then
         (case provider_ids of
            None \<Rightarrow> Inl (ValueError ''provider_ids is null'')
          | Some ids \<Rightarrow> and_then (read_ids ''provider_id'' (take count ids)) (\<lambda>strings.
              Inr (set_advertised_service service strings graph)))
       else Inr graph)"

text \<open>The functions of the interface change the graph in place; the second component is the graph
  after the call.\<close>

definition graph_result :: "ConnectionGraph \<Rightarrow> (ConnectionGraph, FoxgloveError) result \<Rightarrow> c_error \<times> ConnectionGraph" where
  "graph_result graph r =
     (fst (result_to_c r False), case r of Inl _ \<Rightarrow> graph | Inr graph' \<Rightarrow> graph')"

definition c_set_published_topic ::
  "FoxgloveString \<Rightarrow> FoxgloveString list option \<Rightarrow> nat \<Rightarrow> ConnectionGraph \<Rightarrow> c_error \<times> ConnectionGraph" where
  "c_set_published_topic topic ids count graph = graph_result graph (do_set_published_topic graph topic ids count)"

definition c_set_subscribed_topic ::
  "FoxgloveString \<Rightarrow> FoxgloveString list option \<Rightarrow> nat \<Rightarrow> ConnectionGraph \<Rightarrow> c_error \<times> ConnectionGraph" where
  "c_set_subscribed_topic topic ids count graph = graph_result graph (do_set_subscribed_topic graph topic ids count)"

definition c_set_advertised_service ::
  "FoxgloveString \<Rightarrow> FoxgloveString list option \<Rightarrow> nat \<Rightarrow> ConnectionGraph \<Rightarrow> c_error \<times> ConnectionGraph" where
  "c_set_advertised_service service ids count graph =
     graph_result graph (do_set_advertised_service graph service ids count)"

section \<open>The contract of a setter\<close>

text \<open>A string of the caller that the setters accept as an id.\<close>

definition id_ok :: "FoxgloveString \<Rightarrow> bool" where
  "id_ok i \<longleftrightarrow> i \<noteq> None \<and> as_utf8_str i \<noteq> None"

lemma read_ids_Inr: "read_ids what is = Inr ss \<longleftrightarrow> (\<forall>i\<in>set is. id_ok i) \<and> ss = map text_of is"
  by (induction "is" arbitrary: ss) (auto simp: and_then_Inr utf8_arg_Inr id_ok_def text_of_def)

lemma read_ids_Inl:
  "read_ids what is = Inl e \<Longrightarrow> (\<exists>i\<in>set is. \<not> id_ok i) \<and> c_error_from e = (case find (\<lambda>i. \<not> id_ok i) is of
     Some None \<Rightarrow> C_ValueError | _ \<Rightarrow> C_Utf8Error)"
  by (induction "is" arbitrary: e)
    (auto simp: and_then_def utf8_arg_def id_ok_def split: if_splits sum.splits option.splits)

text \<open>What every setter does, on the map of the graph that it changes.\<close>

definition set_outcome :: "FoxgloveString \<Rightarrow> FoxgloveString list option \<Rightarrow> nat \<Rightarrow> c_error" where
  "set_outcome name ids count =
     (if as_utf8_str name = None then C_Utf8Error
      else if count = 0 then C_Ok
      else case ids of
        None \<Rightarrow> C_ValueError
      | Some is \<Rightarrow> (case find (\<lambda>i. \<not> id_ok i) (take count is) of
          None \<Rightarrow> C_Ok | Some None \<Rightarrow> C_ValueError | Some (Some _) \<Rightarrow> C_Utf8Error))"

locale c_graph_setter =
  fixes call :: "FoxgloveString \<Rightarrow> FoxgloveString list option \<Rightarrow> nat \<Rightarrow> ConnectionGraph \<Rightarrow> c_error \<times> ConnectionGraph"
    and put :: "string \<Rightarrow> string list \<Rightarrow> ConnectionGraph \<Rightarrow> ConnectionGraph"
    and part :: "ConnectionGraph \<Rightarrow> MapOfSets"
  assumes call_outcome: "fst (call name ids count g) = set_outcome name ids count"
    and call_error: "set_outcome name ids count \<noteq> C_Ok \<Longrightarrow> snd (call name ids count g) = g"
    and call_none: "snd (call name ids 0 g) = g"
    and call_ok: "set_outcome name (Some is) count = C_Ok \<Longrightarrow> 0 < count \<Longrightarrow>
      snd (call name (Some is) count g) = put (text_of name) (map text_of (take count is)) g"
    and put_part: "part (put t ss g) = hm_insert t (hs_from_iter ss) (part g)"
begin

lemma setter_entry:
  assumes "set_outcome name (Some is) count = C_Ok" "0 < count"
  shows "map_option set (hm_get (part (snd (call name (Some is) count g))) (text_of name)) = Some (text_of ` set (take count is))"
  using assms by (simp add: call_ok put_part hm_get_insert)

lemma setter_others:
  assumes "t \<noteq> text_of name"
  shows "hm_get (part (snd (call name ids count g))) t = hm_get (part g) t"
proof (cases "set_outcome name ids count = C_Ok \<and> 0 < count")
  case True
  then obtain "is" where "ids = Some is" by (auto simp: set_outcome_def split: if_splits option.splits)
  then show ?thesis using True assms by (simp add: call_ok put_part hm_get_insert)
qed (auto simp: call_error call_none)

end

lemma c_graph_setterI:
  assumes call: "\<And>name ids count g. call name ids count g = graph_result g (and_then (utf8_arg m name) (\<lambda>t.
      if count > 0 then
        (case ids of None \<Rightarrow> Inl (ValueError null)
         | Some is \<Rightarrow> and_then (read_ids what (take count is)) (\<lambda>ss. Inr (put t ss g)))
      else Inr g))"
    and part: "\<And>t ss g. part (put t ss g) = hm_insert t (hs_from_iter ss) (part g)"
  shows "c_graph_setter call put part"
proof
  fix name ids count g
  let ?r = "and_then (utf8_arg m name) (\<lambda>t. if count > 0 then
        (case ids of None \<Rightarrow> Inl (ValueError null)
         | Some is \<Rightarrow> and_then (read_ids what (take count is)) (\<lambda>ss. Inr (put t ss g)))
      else Inr g)"
  have out: "fst (result_to_c ?r False) = set_outcome name ids count"
  proof (cases "read_ids what (take count (the ids))")
    case (Inl e)
    then show ?thesis using read_ids_Inl [OF Inl]
      by (auto simp: set_outcome_def result_to_c_def utf8_arg_def find_None_iff split: option.splits)
  next
    case (Inr ss)
    then have "find (\<lambda>i. \<not> id_ok i) (take count (the ids)) = None"
      by (simp add: read_ids_Inr find_None_iff)
    with Inr show ?thesis
      by (auto simp: set_outcome_def result_to_c_def utf8_arg_def split: option.splits)
  qed
  then show "fst (call name ids count g) = set_outcome name ids count"
    by (simp add: call graph_result_def)
  show "snd (call name ids count g) = g" if "set_outcome name ids count \<noteq> C_Ok"
    using that result_to_c_ok [of ?r False] by (auto simp: call graph_result_def out split: sum.split)
  show "snd (call name ids 0 g) = g"
    by (simp add: call graph_result_def and_then_def split: sum.split)
  show "snd (call name (Some is) count g) = put (text_of name) (map text_of (take count is)) g"
    if "set_outcome name (Some is) count = C_Ok" "0 < count" for "is"
  proof -
    have "\<forall>i\<in>set (take count is). id_ok i" "as_utf8_str name = Some (text_of name)"
      using that by (auto simp: set_outcome_def find_None_iff text_of_def split: if_splits option.splits)
    then have "read_ids what (take count is) = Inr (map text_of (take count is))" "utf8_arg m name = Inr (text_of name)"
      by (simp_all add: read_ids_Inr utf8_arg_Inr)
    then show ?thesis using that(2) by (simp add: call graph_result_def)
  qed
qed (rule part)

interpretation published: c_graph_setter c_set_published_topic set_published_topic published_topics
  by (rule c_graph_setterI [of _ "''topic is invalid''" "''publisher_ids is null''" "''publisher_id''"])
    (simp_all only: c_set_published_topic_def do_set_published_topic_def, simp add: set_published_topic_def)

interpretation subscribed: c_graph_setter c_set_subscribed_topic set_subscribed_topic subscribed_topics
  by (rule c_graph_setterI [of _ "''topic is invalid''" "''subscriber_ids is null''" "''subscriber_id''"])
    (simp_all only: c_set_subscribed_topic_def do_set_subscribed_topic_def, simp add: set_subscribed_topic_def)

interpretation services: c_graph_setter c_set_advertised_service set_advertised_service advertised_services
  by (rule c_graph_setterI [of _ "''service is invalid''" "''provider_ids is null''" "''provider_id''"])
    (simp_all only: c_set_advertised_service_def do_set_advertised_service_def, simp add: set_advertised_service_def)

section \<open>Properties\<close>

text \<open>C27: the functions that set a topic or a service of the graph report the first thing that is
  wrong with their arguments and then leave the graph as it is. When nothing is wrong the entry of
  the name becomes the set of the ids and the other entries stay, but a call without ids keeps an
  entry that the name already has.\<close>

theorem c_graph_set_exact:
  assumes "(call, part) \<in> {(c_set_published_topic, published_topics), (c_set_subscribed_topic, subscribed_topics),
      (c_set_advertised_service, advertised_services)}"
    and "call name ids count g = (e, g')"
  shows "e = set_outcome name ids count
    \<and> (e \<noteq> C_Ok \<or> count = 0 \<longrightarrow> g' = g)
    \<and> (e = C_Ok \<and> 0 < count \<longrightarrow> (\<exists>is. ids = Some is \<and> (\<forall>i\<in>set (take count is). id_ok i)
        \<and> map_option set (hm_get (part g') (text_of name)) = Some (text_of ` set (take count is))))
    \<and> (\<forall>t. t \<noteq> text_of name \<longrightarrow> hm_get (part g') t = hm_get (part g) t)"
proof -
  have "c_graph_setter call set_published_topic part \<or> c_graph_setter call set_subscribed_topic part
      \<or> c_graph_setter call set_advertised_service part"
    using assms(1) published.c_graph_setter_axioms subscribed.c_graph_setter_axioms services.c_graph_setter_axioms
    by auto
  then obtain put where s: "c_graph_setter call put part" by blast
  have out: "e = set_outcome name ids count" "g' = snd (call name ids count g)"
    using c_graph_setter.call_outcome [OF s, of name ids count g] assms(2) by simp_all
  have "g' = g" if "e \<noteq> C_Ok \<or> count = 0"
    using that c_graph_setter.call_error [OF s, of name ids count g] c_graph_setter.call_none [OF s, of name ids g] out
    by auto
  moreover have "\<exists>is. ids = Some is \<and> (\<forall>i\<in>set (take count is). id_ok i)
      \<and> map_option set (hm_get (part g') (text_of name)) = Some (text_of ` set (take count is))"
    if ok: "e = C_Ok" "0 < count"
  proof -
    obtain "is" where arr: "ids = Some is" "find (\<lambda>i. \<not> id_ok i) (take count is) = None"
      using ok out(1) by (auto simp: set_outcome_def split: if_splits option.splits)
    then show ?thesis using c_graph_setter.setter_entry [OF s, of name "is" count g] ok out
      by (auto simp: find_None_iff)
  qed
  ultimately show ?thesis using out c_graph_setter.setter_others [OF s, of _ name ids count g] by simp
qed

theorem c_graph_set_exact_witness:
  "\<exists>g1. c_set_published_topic (Some (as_bytes ''/t'')) (Some [Some (as_bytes ''p'')]) 1 graph_new = (C_Ok, g1)
    \<and> map_option set (hm_get (published_topics g1) ''/t'') = Some {''p''}
    \<and> c_set_published_topic (Some (as_bytes ''/t'')) None 0 g1 = (C_Ok, g1)"
proof -
  have t: "as_utf8_str (Some (as_bytes ''/t'')) = Some ''/t''" "as_utf8_str (Some (as_bytes ''p'')) = Some ''p''"
    by code_simp+
  have id: "text_of (Some (as_bytes ''/t'')) = ''/t''" "text_of (Some (as_bytes ''p'')) = ''p''"
    by (simp_all add: text_of_def t)
  obtain e1 g1 where 1: "c_set_published_topic (Some (as_bytes ''/t'')) (Some [Some (as_bytes ''p'')]) 1 graph_new = (e1, g1)"
    by fastforce
  have "set_outcome (Some (as_bytes ''/t'')) (Some [Some (as_bytes ''p'')]) 1 = C_Ok"
    by (simp add: set_outcome_def id_ok_def t)
  then have "e1 = C_Ok" "map_option set (hm_get (published_topics g1) ''/t'') = Some {''p''}"
    using c_graph_set_exact [where call = c_set_published_topic and part = published_topics, OF _ 1] by (auto simp: id)
  moreover have "c_set_published_topic (Some (as_bytes ''/t'')) None 0 g1 = (C_Ok, g1)"
    using c_graph_set_exact [of c_set_published_topic published_topics "Some (as_bytes ''/t'')" None 0 g1
        "fst (c_set_published_topic (Some (as_bytes ''/t'')) None 0 g1)" "snd (c_set_published_topic (Some (as_bytes ''/t'')) None 0 g1)"]
    by (simp add: set_outcome_def t prod_eq_iff)
  ultimately show ?thesis using 1 by blast
qed

end
