(* ===== verification/C_Channel.thy ===== *)
theory C_Channel
  imports Mcap_Writer C_Error
begin

text \<open>
  Channels and recordings of the C bindings: \<open>src/c/src/channel.rs\<close>, \<open>channel_descriptor.rs\<close>
  and \<open>sink_channel_filter.rs\<close>. The caller holds strong references to channels, which are counted,
  and boxes of recorders and iterators. Using a pointer that the caller does not own is undefined
  behaviour, the value \<open>None\<close>, as is a panic. The context is the one that the caller passes.
\<close>

section \<open>Custom writers\<close>

text \<open>The callbacks act on a world of the caller; \<open>None\<close> is a null function pointer. An error of
  the operating system is represented by its code.\<close>

type_synonym i32 = "32 word"

record 'x FoxgloveCustomWriter =
  write_fn :: "('x \<Rightarrow> u8 list \<Rightarrow> (nat \<times> i32) \<times> 'x) option"
  flush_fn :: "('x \<Rightarrow> i32 \<times> 'x) option"
  seek_fn :: "('x \<Rightarrow> 64 word \<Rightarrow> nat \<Rightarrow> (i32 \<times> u64) \<times> 'x) option"

definition custom_write ::
  "'x FoxgloveCustomWriter \<Rightarrow> u8 list \<Rightarrow> 'x \<Rightarrow> ((nat, i32) result \<times> 'x) may_panic" where
  "custom_write cb buf x = do {
     f \<leftarrow> write_fn cb;
     let ((written, error), x') = f x buf;
     Some (if error \<noteq> 0 then Inl error else Inr written, x')
   }"

definition custom_flush :: "'x FoxgloveCustomWriter \<Rightarrow> 'x \<Rightarrow> ((unit, i32) result \<times> 'x) may_panic" where
  "custom_flush cb x = do {
     f \<leftarrow> flush_fn cb;
     let (error, x') = f x;
     Some (if error \<noteq> 0 then Inl error else Inr (), x')
   }"

datatype seek_from = Seek_start u64 | Seek_end "64 word" | Seek_current "64 word"

text \<open>The offset is an \<open>i64\<close>; the cast of the \<open>u64\<close> keeps the bits.\<close>

definition custom_seek :: "'x FoxgloveCustomWriter \<Rightarrow> seek_from \<Rightarrow> 'x \<Rightarrow> ((u64, i32) result \<times> 'x) may_panic" where
  "custom_seek cb pos x = do {
     f \<leftarrow> seek_fn cb;
     let (offset, whence) = (case pos of Seek_start n \<Rightarrow> (n, 0) | Seek_end n \<Rightarrow> (n, 2) | Seek_current n \<Rightarrow> (n, 1));
     let ((error, new_pos), x') = f x offset whence;
     Some (if error \<noteq> 0 then Inl error else Inr new_pos, x')
   }"

section \<open>Options\<close>

datatype FoxgloveMcapCompression = Compression_none | Compression_zstd | Compression_lz4

text \<open>The options of the \<open>mcap\<close> crate that the code sets.\<close>

record WriteOptions =
  wo_profile :: string
  wo_compression :: "FoxgloveMcapCompression option"
  wo_chunk_size :: "u64 option"
  wo_use_chunks :: bool
  wo_disable_seeking :: bool
  wo_emit_statistics :: bool
  wo_emit_summary_offsets :: bool
  wo_emit_message_indexes :: bool
  wo_emit_chunk_indexes :: bool
  wo_emit_attachment_indexes :: bool
  wo_emit_metadata_indexes :: bool
  wo_repeat_channels :: bool
  wo_repeat_schemas :: bool

text \<open>The filter is the callback with its context.\<close>

record 'x FoxgloveMcapOptions =
  mo_path :: FoxgloveString
  mo_truncate :: bool
  mo_custom_writer :: "'x FoxgloveCustomWriter option"
  mo_compression :: FoxgloveMcapCompression
  mo_profile :: FoxgloveString
  mo_chunk_size :: u64
  mo_use_chunks :: bool
  mo_disable_seeking :: bool
  mo_emit_statistics :: bool
  mo_emit_summary_offsets :: bool
  mo_emit_message_indexes :: bool
  mo_emit_chunk_indexes :: bool
  mo_emit_attachment_indexes :: bool
  mo_emit_metadata_indexes :: bool
  mo_repeat_channels :: bool
  mo_repeat_schemas :: bool
  mo_sink_channel_filter :: "(ChannelDescriptor \<Rightarrow> bool) option"

definition to_write_options :: "'x FoxgloveMcapOptions \<Rightarrow> (WriteOptions, FoxgloveError) result" where
  "to_write_options opts =
     (case as_utf8_str (mo_profile opts) of
        None \<Rightarrow> Inl (ValueError ''profile is invalid'')
      | Some profile \<Rightarrow> Inr \<lparr>
          wo_profile = profile,
          wo_compression = (case mo_compression opts of Compression_none \<Rightarrow> None | c \<Rightarrow> Some c),
          wo_chunk_size = (if mo_chunk_size opts > 0 then Some (mo_chunk_size opts) else None),
          wo_use_chunks = mo_use_chunks opts,
          wo_disable_seeking = mo_disable_seeking opts,
          wo_emit_statistics = mo_emit_statistics opts,
          wo_emit_summary_offsets = mo_emit_summary_offsets opts,
          wo_emit_message_indexes = mo_emit_message_indexes opts,
          wo_emit_chunk_indexes = mo_emit_chunk_indexes opts,
          wo_emit_attachment_indexes = mo_emit_attachment_indexes opts,
          wo_emit_metadata_indexes = mo_emit_metadata_indexes opts,
          wo_repeat_channels = mo_repeat_channels opts,
          wo_repeat_schemas = mo_repeat_schemas opts \<rparr>)"

section \<open>State\<close>

text \<open>A recorder is written to a file or through callbacks; its handle is the identifier of the sink.\<close>

datatype McapWriterVariant = File_writer (handle_of: SinkId) | Custom_writer (handle_of: SinkId)

type_synonym FoxgloveMcapWriter = "McapWriterVariant option"

record metadata_iterator =
  it_channel :: chan_ref
  it_index :: nat

text \<open>\<open>cp_refs\<close> counts the strong references of the caller. The boxes of the caller are kept by address,
  and addresses are not reused.\<close>

record 'wr c_program =
  cp_rec :: "'wr recording"
  cp_filters :: channel_filters
  cp_refs :: "chan_ref \<Rightarrow> nat"
  cp_writers :: "(nat, FoxgloveMcapWriter) hash_map"
  cp_iters :: "(nat, metadata_iterator) hash_map"
  cp_next :: nat

datatype 'x destination = Buffered_file nat | Callbacks "'x FoxgloveCustomWriter"

text \<open>What is outside of the program: the \<open>mcap\<close> crate with \<open>WriteOptions::create\<close>, and opening a file,
  with the flags \<open>create\<close>, \<open>truncate\<close> and \<open>create_new\<close>.\<close>

record ('x, 'wr) c_env =
  env_mcap :: "'wr mcap_ops"
  env_create :: "WriteOptions \<Rightarrow> 'x destination \<Rightarrow> ('wr, string) result"
  env_open :: "bool \<times> bool \<times> bool \<Rightarrow> string \<Rightarrow> (nat, string) result"

definition c_sinks :: "('x, 'wr) c_env \<Rightarrow> 'wr c_program \<Rightarrow> 'wr mcap_world sink_ops" where
  "c_sinks E s = mcap_sinks (env_mcap E) (cp_filters s)"

section \<open>Recorders\<close>

text \<open>\<open>McapWriter::create\<close> of a builder with the given filter.\<close>

definition builder_create ::
  "('x, 'wr) c_env \<Rightarrow> WriteOptions \<Rightarrow> (ChannelDescriptor \<Rightarrow> bool) option \<Rightarrow> 'x destination \<Rightarrow> 'wr c_program
    \<Rightarrow> (SinkId, FoxgloveError) result \<times> 'wr c_program" where
  "builder_create E opts flt dest s =
     (let F = (cp_filters s)(mw_next_sink_id (world (cp_rec s)) := flt) in
      case mcap_create (env_mcap E) F (env_create E opts dest) (cp_rec s) of
        (Inl e, p) \<Rightarrow> (Inl e, s \<lparr> cp_rec := p \<rparr>)
      | (Inr i, p) \<Rightarrow> (Inr i, s \<lparr> cp_rec := p, cp_filters := F \<rparr>))"

definition open_custom ::
  "('x, 'wr) c_env \<Rightarrow> 'x FoxgloveMcapOptions \<Rightarrow> WriteOptions \<Rightarrow> 'x FoxgloveCustomWriter \<Rightarrow> 'wr c_program
    \<Rightarrow> (McapWriterVariant, FoxgloveError) result \<times> 'wr c_program" where
  "open_custom E opts wopts cb s =
     (if seek_fn cb = None \<and> \<not> mo_disable_seeking opts
      then (Inl (ValueError ''seek_fn is null but disable_seeking is false''), s)
      else if write_fn cb = None \<or> flush_fn cb = None
      then (Inl (ValueError ''write_fn and flush_fn must be provided''), s)
      else (case builder_create E wopts None (Callbacks cb) s of
              (Inl e, s') \<Rightarrow> (Inl e, s')
            | (Inr i, s') \<Rightarrow> (Inr (Custom_writer i), s')))"

definition open_path ::
  "('x, 'wr) c_env \<Rightarrow> 'x FoxgloveMcapOptions \<Rightarrow> WriteOptions \<Rightarrow> 'wr c_program
    \<Rightarrow> (McapWriterVariant, FoxgloveError) result \<times> 'wr c_program" where
  "open_path E opts wopts s =
     (case utf8_arg ''path is invalid'' (mo_path opts) of
        Inl e \<Rightarrow> (Inl e, s)
      | Inr path \<Rightarrow>
          if path = [] then (Inl (ValueError ''Either path must be non-empty or custom_writer must be provided''), s)
          else
            (case env_open E (if mo_truncate opts then (True, True, False) else (False, False, True)) path of
               Inl e \<Rightarrow> (Inl (IoError e), s)
             | Inr file \<Rightarrow>
                 (case builder_create E wopts (mo_sink_channel_filter opts) (Buffered_file file) s of
                    (Inl e, s') \<Rightarrow> (Inl e, s')
                  | (Inr i, s') \<Rightarrow> (Inr (File_writer i), s'))))"

definition do_mcap_open ::
  "('x, 'wr) c_env \<Rightarrow> 'x FoxgloveMcapOptions \<Rightarrow> 'wr c_program \<Rightarrow> (nat, FoxgloveError) result \<times> 'wr c_program" where
  "do_mcap_open E opts s =
     (case to_write_options opts of
        Inl e \<Rightarrow> (Inl e, s)
      | Inr wopts \<Rightarrow>
          (case (case mo_custom_writer opts of
                   Some cb \<Rightarrow> open_custom E opts wopts cb s
                 | None \<Rightarrow> open_path E opts wopts s) of
             (Inl e, s1) \<Rightarrow> (Inl e, s1)
           | (Inr v, s1) \<Rightarrow>
               let a = cp_next s1 in
               (Inr a, s1 \<lparr> cp_writers := hm_insert a (Some v) (cp_writers s1), cp_next := a + 1 \<rparr>)))"

definition c_mcap_open ::
  "('x, 'wr) c_env \<Rightarrow> 'x FoxgloveMcapOptions \<Rightarrow> 'wr c_program \<Rightarrow> (c_error \<times> nat option) \<times> 'wr c_program" where
  "c_mcap_open E opts s = (case do_mcap_open E opts s of (r, s') \<Rightarrow> (result_to_c r True, s'))"

text \<open>The box is freed on every path; \<open>take\<close> empties it first.\<close>

definition c_mcap_close ::
  "('x, 'wr) c_env \<Rightarrow> nat option \<Rightarrow> 'wr c_program \<Rightarrow> (c_error \<times> 'wr c_program) option" where
  "c_mcap_close E writer s =
     (case writer of
        None \<Rightarrow> Some (C_ValueError, s)
      | Some a \<Rightarrow> do {
          w \<leftarrow> hm_get (cp_writers s) a;
          let s1 = s \<lparr> cp_writers := hm_remove a (cp_writers s) \<rparr>;
          (case w of
             None \<Rightarrow> Some (C_SinkClosed, s1)
           | Some v \<Rightarrow> do {
               (r, p) \<leftarrow> handle_close (env_mcap E) (handle_of v) (cp_rec s1);
               Some (fst (result_to_c r False), s1 \<lparr> cp_rec := p \<rparr>)
             })
        })"

fun read_metadata :: "FoxgloveKeyValue list \<Rightarrow> btree_metadata \<Rightarrow> (btree_metadata, FoxgloveError) result" where
  "read_metadata [] m = Inr m"
| "read_metadata (kv # kvs) m =
     and_then (utf8_arg [] (kv_key kv)) (\<lambda>key.
     and_then (utf8_arg [] (kv_value kv)) (\<lambda>value. read_metadata kvs (btree_insert key value m)))"

definition do_mcap_write_metadata ::
  "('x, 'wr) c_env \<Rightarrow> FoxgloveMcapWriter \<Rightarrow> FoxgloveString \<Rightarrow> FoxgloveKeyValue list option \<Rightarrow> 'wr c_program
    \<Rightarrow> (unit, FoxgloveError) result \<times> 'wr c_program" where
  "do_mcap_write_metadata E writer name metadata s =
     (case utf8_arg ''metadata name is invalid'' name of
        Inl e \<Rightarrow> (Inl e, s)
      | Inr name \<Rightarrow>
          (case writer of
             None \<Rightarrow> (Inl SinkClosed, s)
           | Some v \<Rightarrow>
               (case metadata of
                  None \<Rightarrow> (Inr (), s)
                | Some kvs \<Rightarrow>
                    (case read_metadata kvs [] of
                       Inl e \<Rightarrow> (Inl e, s)
                     | Inr m \<Rightarrow>
                         (case mcap_write_metadata (env_mcap E) (handle_of v) name m (world (cp_rec s)) of
                            (r, w) \<Rightarrow> (r, s \<lparr> cp_rec := (cp_rec s) \<lparr> world := w \<rparr> \<rparr>))))))"

definition c_mcap_write_metadata ::
  "('x, 'wr) c_env \<Rightarrow> nat option \<Rightarrow> FoxgloveString \<Rightarrow> FoxgloveKeyValue list option \<Rightarrow> 'wr c_program
    \<Rightarrow> (c_error \<times> 'wr c_program) option" where
  "c_mcap_write_metadata E writer name metadata s =
     (case writer of
        None \<Rightarrow> Some (C_ValueError, s)
      | Some a \<Rightarrow> do {
          w \<leftarrow> hm_get (cp_writers s) a;
          (case do_mcap_write_metadata E w name metadata s of (r, s') \<Rightarrow> Some (fst (result_to_c r False), s'))
        })"

text \<open>The data is the pointer and the length.\<close>

record FoxgloveMcapAttachment =
  fa_log_time :: u64
  fa_create_time :: u64
  fa_name :: FoxgloveString
  fa_media_type :: FoxgloveString
  fa_data :: "u8 list option"
  fa_data_len :: nat

definition do_mcap_attach ::
  "('x, 'wr) c_env \<Rightarrow> FoxgloveMcapWriter \<Rightarrow> FoxgloveMcapAttachment \<Rightarrow> 'wr c_program
    \<Rightarrow> (unit, FoxgloveError) result \<times> 'wr c_program" where
  "do_mcap_attach E writer att s =
     (case and_then (utf8_arg ''attachment name is invalid'' (fa_name att)) (\<lambda>name.
           and_then (utf8_arg ''attachment media_type is invalid'' (fa_media_type att)) (\<lambda>media_type.
           and_then (case writer of None \<Rightarrow> Inl SinkClosed | Some v \<Rightarrow> Inr v) (\<lambda>v.
           and_then
             (if fa_data att = None \<or> fa_data_len att = 0 then
                if fa_data_len att \<noteq> 0 then Inl (ValueError ''attachment data is null but data_len is not 0'')
                else Inr []
              else Inr (take (fa_data_len att) (the (fa_data att)))) (\<lambda>data.
           Inr (v, \<lparr> at_log_time = fa_log_time att, at_create_time = fa_create_time att, at_name = name,
                     at_media_type = media_type, at_data = data \<rparr>))))) of
        Inl e \<Rightarrow> (Inl e, s)
      | Inr (v, a) \<Rightarrow>
          (case mcap_attach (env_mcap E) (handle_of v) a (world (cp_rec s)) of
             (r, w) \<Rightarrow> (r, s \<lparr> cp_rec := (cp_rec s) \<lparr> world := w \<rparr> \<rparr>)))"

definition c_mcap_attach ::
  "('x, 'wr) c_env \<Rightarrow> nat option \<Rightarrow> FoxgloveMcapAttachment \<Rightarrow> 'wr c_program \<Rightarrow> (c_error \<times> 'wr c_program) option" where
  "c_mcap_attach E writer att s =
     (case writer of
        None \<Rightarrow> Some (C_ValueError, s)
      | Some a \<Rightarrow> do {
          w \<leftarrow> hm_get (cp_writers s) a;
          (case do_mcap_attach E w att s of (r, s') \<Rightarrow> Some (fst (result_to_c r False), s'))
        })"

section \<open>Channels\<close>

text \<open>The loop over the metadata of the caller.\<close>

fun add_metadata_items :: "FoxgloveKeyValue list \<Rightarrow> ChannelBuilder \<Rightarrow> (ChannelBuilder, FoxgloveError) result" where
  "add_metadata_items [] b = Inr b"
| "add_metadata_items (kv # kvs) b =
     and_then (utf8_arg ''invalid metadata key'' (kv_key kv)) (\<lambda>key.
     and_then (utf8_arg ''invalid metadata value'' (kv_value kv)) (\<lambda>value.
       add_metadata_items kvs (builder_add_metadata key value b)))"

text \<open>The part of \<open>do_foxglove_raw_channel_create\<close> that reads the arguments.\<close>

definition raw_channel_builder ::
  "FoxgloveString \<Rightarrow> FoxgloveString \<Rightarrow> FoxgloveSchema option \<Rightarrow> FoxgloveKeyValue list option \<Rightarrow> (ChannelBuilder, FoxgloveError) result" where
  "raw_channel_builder topic message_encoding schema metadata =
     and_then (utf8_arg ''topic invalid'' topic) (\<lambda>topic.
     and_then (utf8_arg ''message_encoding invalid'' message_encoding) (\<lambda>message_encoding.
     and_then (case schema of None \<Rightarrow> Inr None | Some s \<Rightarrow> and_then (schema_to_native s) (\<lambda>n. Inr (Some n))) (\<lambda>maybe_schema.
       let b = builder_schema maybe_schema (builder_message_encoding message_encoding (channel_builder_new topic)) in
       (case metadata of None \<Rightarrow> Inr b | Some kvs \<Rightarrow> add_metadata_items kvs b))))"

definition hand_out :: "chan_ref \<Rightarrow> 'wr c_program \<Rightarrow> 'wr c_program" where
  "hand_out r s = s \<lparr> cp_refs := (cp_refs s)(r := cp_refs s r + 1) \<rparr>"

definition do_raw_channel_create ::
  "('x, 'wr) c_env \<Rightarrow> FoxgloveString \<Rightarrow> FoxgloveString \<Rightarrow> FoxgloveSchema option \<Rightarrow> FoxgloveKeyValue list option
    \<Rightarrow> 'wr c_program \<Rightarrow> (chan_ref, FoxgloveError) result \<times> 'wr c_program" where
  "do_raw_channel_create E topic message_encoding schema metadata s =
     (case raw_channel_builder topic message_encoding schema metadata of
        Inl e \<Rightarrow> (Inl e, s)
      | Inr b \<Rightarrow>
          (case build_raw (c_sinks E s) b (cp_rec s) of
             (Inl e, p) \<Rightarrow> (Inl e, s \<lparr> cp_rec := p \<rparr>)
           | (Inr r, p) \<Rightarrow> (Inr r, hand_out r (s \<lparr> cp_rec := p \<rparr>))))"

definition c_raw_channel_create ::
  "('x, 'wr) c_env \<Rightarrow> FoxgloveString \<Rightarrow> FoxgloveString \<Rightarrow> FoxgloveSchema option \<Rightarrow> FoxgloveKeyValue list option
    \<Rightarrow> bool \<Rightarrow> 'wr c_program \<Rightarrow> (c_error \<times> chan_ref option) \<times> 'wr c_program" where
  "c_raw_channel_create E topic message_encoding schema metadata out s =
     (if \<not> out then ((C_ValueError, None), s)
      else (case do_raw_channel_create E topic message_encoding schema metadata s of (r, s') \<Rightarrow> (result_to_c r out, s')))"

text \<open>A channel of a generated message type, with the encoding and the schema of the type.\<close>

definition do_channel_create ::
  "('x, 'wr) c_env \<Rightarrow> string \<Rightarrow> Schema option \<Rightarrow> FoxgloveString \<Rightarrow> 'wr c_program
    \<Rightarrow> ((chan_ref, FoxgloveError) result \<times> 'wr c_program) may_panic" where
  "do_channel_create E enc sch topic s =
     (case utf8_arg ''topic invalid'' topic of
        Inl e \<Rightarrow> Some (Inl e, s)
      | Inr topic_str \<Rightarrow> do {
          (r, p) \<leftarrow> build (c_sinks E s) enc sch (channel_builder_new topic_str) (cp_rec s);
          Some (Inr r, hand_out r (s \<lparr> cp_rec := p \<rparr>))
        })"

definition c_channel_close ::
  "('x, 'wr) c_env \<Rightarrow> chan_ref option \<Rightarrow> 'wr c_program \<Rightarrow> 'wr c_program option" where
  "c_channel_close E channel s =
     (case channel of
        None \<Rightarrow> Some s
      | Some r \<Rightarrow> if cp_refs s r = 0 then None
          else Some (s \<lparr> cp_rec := channel_close (c_sinks E s) r (cp_rec s) \<rparr>))"

definition c_channel_free :: "chan_ref option \<Rightarrow> 'wr c_program \<Rightarrow> 'wr c_program option" where
  "c_channel_free channel s =
     (case channel of
        None \<Rightarrow> Some s
      | Some r \<Rightarrow> if cp_refs s r = 0 then None
          else Some (s \<lparr> cp_refs := (cp_refs s)(r := cp_refs s r - 1) \<rparr>))"

definition c_channel_log ::
  "('x, 'wr) c_env \<Rightarrow> nat \<Rightarrow> u64 \<Rightarrow> chan_ref option \<Rightarrow> u8 list option \<Rightarrow> u64 option \<Rightarrow> u64 \<Rightarrow> 'wr c_program
    \<Rightarrow> (c_error \<times> 'wr c_program) option" where
  "c_channel_log E now unix_now channel data time target s =
     (case channel of
        None \<Rightarrow> Some (C_ValueError, s)
      | Some r \<Rightarrow>
          (case data of
             None \<Rightarrow> Some (C_ValueError, s)
           | Some msg \<Rightarrow>
               if msg = [] then Some (C_ValueError, s)
               else if cp_refs s r = 0 then None
               else Some (C_Ok, s \<lparr> cp_rec := channel_log (c_sinks E s) now unix_now r msg
                      \<lparr> opt_log_time = time \<rparr> (if target = 0 then None else Some target) (cp_rec s) \<rparr>)))"

text \<open>Logging a message of a generated type; \<open>encode\<close> is its \<open>Encode\<close> implementation.\<close>

definition log_msg_to_channel ::
  "('x, 'wr) c_env \<Rightarrow> ('m \<Rightarrow> u8 list option) \<Rightarrow> nat \<Rightarrow> u64 \<Rightarrow> chan_ref option \<Rightarrow> 'm \<Rightarrow> u64 option \<Rightarrow> u64 \<Rightarrow> 'wr c_program
    \<Rightarrow> (c_error \<times> 'wr c_program) option" where
  "log_msg_to_channel E encode now unix_now channel msg time target s =
     (case channel of
        None \<Rightarrow> Some (C_ValueError, s)
      | Some r \<Rightarrow>
          if cp_refs s r = 0 then None
          else do {
            (ch, w) \<leftarrow> channel_log_with_meta_to_sink encode (c_sinks E s) now unix_now (deref (cp_rec s) r) msg
              \<lparr> opt_log_time = time \<rparr> (if target = 0 then None else Some target) (world (cp_rec s));
            Some (C_Ok, s \<lparr> cp_rec := (modify_channel r (\<lambda>_. ch) (cp_rec s)) \<lparr> world := w \<rparr> \<rparr>)
          })"

definition c_context_free :: "('x, 'wr) c_env \<Rightarrow> bool \<Rightarrow> 'wr c_program \<Rightarrow> 'wr c_program" where
  "c_context_free E null s = (if null then s else s \<lparr> cp_rec := ctx_drop (c_sinks E s) (cp_rec s) \<rparr>)"

section \<open>What the caller reads of a channel\<close>

abbreviation lent_string :: "string \<Rightarrow> FoxgloveString" where
  "lent_string t \<equiv> Some (as_bytes t)"

definition c_channel_get_id :: "RawChannel option \<Rightarrow> u64" where
  "c_channel_get_id channel = (case channel of None \<Rightarrow> 0 | Some ch \<Rightarrow> raw_channel_id ch)"

definition descriptor_get_topic :: "ChannelDescriptor option \<Rightarrow> FoxgloveString" where
  "descriptor_get_topic d = (case d of None \<Rightarrow> lent_string [] | Some d \<Rightarrow> lent_string (desc_topic d))"

definition descriptor_get_message_encoding :: "ChannelDescriptor option \<Rightarrow> FoxgloveString" where
  "descriptor_get_message_encoding d =
     (case d of None \<Rightarrow> lent_string [] | Some d \<Rightarrow> lent_string (desc_message_encoding d))"

definition descriptor_get_schema :: "ChannelDescriptor option \<Rightarrow> bool \<Rightarrow> c_error \<times> FoxgloveSchema option" where
  "descriptor_get_schema d out =
     (case d of
        None \<Rightarrow> (C_ValueError, None)
      | Some d \<Rightarrow>
          if \<not> out then (C_ValueError, None)
          else (case desc_schema d of
                  None \<Rightarrow> (C_ValueError, None)
                | Some sch \<Rightarrow> (C_Ok, Some \<lparr> fsc_name = lent_string (schema_name sch),
                    fsc_encoding = lent_string (schema_encoding sch), fsc_data = Some (schema_data sch) \<rparr>)))"

definition c_channel_get_topic :: "RawChannel option \<Rightarrow> FoxgloveString" where
  "c_channel_get_topic channel = (case channel of None \<Rightarrow> lent_string [] | Some ch \<Rightarrow> lent_string (raw_channel_topic ch))"

definition c_channel_get_message_encoding :: "RawChannel option \<Rightarrow> FoxgloveString" where
  "c_channel_get_message_encoding channel =
     (case channel of None \<Rightarrow> lent_string [] | Some ch \<Rightarrow> lent_string (desc_message_encoding (descriptor ch)))"

definition c_channel_get_schema :: "RawChannel option \<Rightarrow> bool \<Rightarrow> c_error \<times> FoxgloveSchema option" where
  "c_channel_get_schema channel out =
     (case channel of
        None \<Rightarrow> (C_ValueError, None)
      | Some ch \<Rightarrow>
          if \<not> out then (C_ValueError, None)
          else (case desc_schema (descriptor ch) of
                  None \<Rightarrow> (C_ValueError, None)
                | Some sch \<Rightarrow> (C_Ok, Some \<lparr> fsc_name = lent_string (schema_name sch),
                    fsc_encoding = lent_string (schema_encoding sch), fsc_data = Some (schema_data sch) \<rparr>)))"

definition c_channel_has_sinks :: "RawChannel option \<Rightarrow> bool" where
  "c_channel_has_sinks channel = (case channel of None \<Rightarrow> False | Some ch \<Rightarrow> has_sinks ch)"

text \<open>An iterator is an index into the metadata; \<open>None\<close> is the result false.\<close>

definition metadata_iter_next :: "btree_metadata \<Rightarrow> nat \<Rightarrow> (FoxgloveKeyValue \<times> nat) option" where
  "metadata_iter_next m i =
     (if length m \<le> i then None
      else case m ! i of (k, v) \<Rightarrow> Some (\<lparr> kv_key = lent_string k, kv_value = lent_string v \<rparr>, i + 1))"

definition c_metadata_iter_create :: "chan_ref option \<Rightarrow> 'wr c_program \<Rightarrow> (nat option \<times> 'wr c_program) option" where
  "c_metadata_iter_create channel s =
     (case channel of
        None \<Rightarrow> Some (None, s)
      | Some r \<Rightarrow>
          if cp_refs s r = 0 then None
          else let a = cp_next s in
            Some (Some a, s \<lparr> cp_iters := hm_insert a \<lparr> it_channel = r, it_index = 0 \<rparr> (cp_iters s), cp_next := a + 1 \<rparr>))"

definition c_metadata_iter_next ::
  "nat option \<Rightarrow> bool \<Rightarrow> 'wr c_program \<Rightarrow> (FoxgloveKeyValue option \<times> 'wr c_program) option" where
  "c_metadata_iter_next iter out s =
     (case iter of
        None \<Rightarrow> Some (None, s)
      | Some a \<Rightarrow>
          if \<not> out then Some (None, s)
          else do {
            it \<leftarrow> hm_get (cp_iters s) a;
            if cp_refs s (it_channel it) = 0 then None
            else (case metadata_iter_next (desc_metadata (descriptor (deref (cp_rec s) (it_channel it)))) (it_index it) of
                    None \<Rightarrow> Some (None, s)
                  | Some (kv, i) \<Rightarrow>
                      Some (Some kv, s \<lparr> cp_iters := hm_insert a (it \<lparr> it_index := i \<rparr>) (cp_iters s) \<rparr>))
          })"

definition c_metadata_iter_free :: "nat option \<Rightarrow> 'wr c_program \<Rightarrow> 'wr c_program option" where
  "c_metadata_iter_free iter s =
     (case iter of
        None \<Rightarrow> Some s
      | Some a \<Rightarrow> do {
          _ \<leftarrow> hm_get (cp_iters s) a;
          Some (s \<lparr> cp_iters := hm_remove a (cp_iters s) \<rparr>)
        })"

text \<open>The iterator of a descriptor that a callback receives.\<close>

definition descriptor_iter_next :: "ChannelDescriptor \<Rightarrow> bool \<Rightarrow> nat \<Rightarrow> FoxgloveKeyValue option \<times> nat" where
  "descriptor_iter_next d out i =
     (if \<not> out then (None, i)
      else case metadata_iter_next (desc_metadata d) i of None \<Rightarrow> (None, i) | Some (kv, j) \<Rightarrow> (Some kv, j))"

end
