(* ===== verification/C_Recording.thy ===== *)
theory C_Recording
  imports C_Channel
begin

text \<open>
  Sessions of calls of the C functions for channels and recorders. Within the rules that the
  documentation of the functions gives to the caller, no call is undefined or panics, the
  invariant of the context holds, and every recorder that the caller holds is open.
\<close>

section \<open>Sessions\<close>

text \<open>A message of a generated type is given by the outcome of encoding it.\<close>

datatype 'x channel_call =
  Mcap_open "'x FoxgloveMcapOptions"
| Mcap_close "nat option"
| Mcap_write_metadata "nat option" FoxgloveString "FoxgloveKeyValue list option"
| Mcap_attach "nat option" FoxgloveMcapAttachment
| Create_raw FoxgloveString FoxgloveString "FoxgloveSchema option" "FoxgloveKeyValue list option" bool
| Create_typed string "Schema option" FoxgloveString
| Chan_close "chan_ref option"
| Chan_free "chan_ref option"
| Chan_log nat u64 "chan_ref option" "u8 list option" "u64 option" u64
| Chan_log_typed nat u64 "chan_ref option" "u8 list option" "u64 option" u64
| Iter_create "chan_ref option"
| Iter_next "nat option" bool
| Iter_free "nat option"
| Context_free bool

fun channel_exec :: "('x, 'wr) c_env \<Rightarrow> 'x channel_call \<Rightarrow> 'wr c_program \<Rightarrow> 'wr c_program option" where
  "channel_exec E (Mcap_open opts) s = Some (snd (c_mcap_open E opts s))"
| "channel_exec E (Mcap_close w) s = map_option snd (c_mcap_close E w s)"
| "channel_exec E (Mcap_write_metadata w name kvs) s = map_option snd (c_mcap_write_metadata E w name kvs s)"
| "channel_exec E (Mcap_attach w att) s = map_option snd (c_mcap_attach E w att s)"
| "channel_exec E (Create_raw t e sch kvs out) s = Some (snd (c_raw_channel_create E t e sch kvs out s))"
| "channel_exec E (Create_typed enc sch t) s = map_option snd (do_channel_create E enc sch t s)"
| "channel_exec E (Chan_close ch) s = c_channel_close E ch s"
| "channel_exec E (Chan_free ch) s = c_channel_free ch s"
| "channel_exec E (Chan_log now unow ch d t k) s = map_option snd (c_channel_log E now unow ch d t k s)"
| "channel_exec E (Chan_log_typed now unow ch m t k) s = map_option snd (log_msg_to_channel E (\<lambda>m. m) now unow ch m t k s)"
| "channel_exec E (Iter_create ch) s = map_option snd (c_metadata_iter_create ch s)"
| "channel_exec E (Iter_next it out) s = map_option snd (c_metadata_iter_next it out s)"
| "channel_exec E (Iter_free it) s = c_metadata_iter_free it s"
| "channel_exec E (Context_free null) s = Some (c_context_free E null s)"

text \<open>The rules for the caller. A pointer is null or one that a function gave out and that was not
  freed; a channel outlives its iterators; a context that was freed is not used; fewer than
  \<open>2 ^ 64\<close> channels and sinks are created; the encoding of a typed message succeeds.\<close>

fun channel_allowed :: "'x channel_call \<Rightarrow> 'wr c_program \<Rightarrow> bool" where
  "channel_allowed (Mcap_open opts) s \<longleftrightarrow>
     ctx_alive (cp_rec s) \<and> unat (mw_next_sink_id (world (cp_rec s))) + 1 < 2 ^ 64"
| "channel_allowed (Mcap_close w) s \<longleftrightarrow> (case w of None \<Rightarrow> True | Some a \<Rightarrow> hm_contains a (cp_writers s))"
| "channel_allowed (Mcap_write_metadata w _ _) s \<longleftrightarrow> (case w of None \<Rightarrow> True | Some a \<Rightarrow> hm_contains a (cp_writers s))"
| "channel_allowed (Mcap_attach w _) s \<longleftrightarrow> (case w of None \<Rightarrow> True | Some a \<Rightarrow> hm_contains a (cp_writers s))"
| "channel_allowed (Create_raw _ _ _ _ _) s \<longleftrightarrow>
     ctx_alive (cp_rec s) \<and> unat (next_channel_id (cp_rec s)) + 1 < 2 ^ 64"
| "channel_allowed (Create_typed _ _ _) s \<longleftrightarrow>
     ctx_alive (cp_rec s) \<and> unat (next_channel_id (cp_rec s)) + 1 < 2 ^ 64"
| "channel_allowed (Chan_close ch) s \<longleftrightarrow> (case ch of None \<Rightarrow> True | Some r \<Rightarrow> 0 < cp_refs s r)"
| "channel_allowed (Chan_free ch) s \<longleftrightarrow>
     (case ch of None \<Rightarrow> True
      | Some r \<Rightarrow> 0 < cp_refs s r \<and> (cp_refs s r = 1 \<longrightarrow> r \<notin> it_channel ` set (hm_values (cp_iters s))))"
| "channel_allowed (Chan_log _ _ ch _ _ _) s \<longleftrightarrow> (case ch of None \<Rightarrow> True | Some r \<Rightarrow> 0 < cp_refs s r)"
| "channel_allowed (Chan_log_typed _ _ ch m _ _) s \<longleftrightarrow>
     (case ch of None \<Rightarrow> True | Some r \<Rightarrow> 0 < cp_refs s r) \<and> m \<noteq> None"
| "channel_allowed (Iter_create ch) s \<longleftrightarrow> (case ch of None \<Rightarrow> True | Some r \<Rightarrow> 0 < cp_refs s r)"
| "channel_allowed (Iter_next it _) s \<longleftrightarrow> (case it of None \<Rightarrow> True | Some a \<Rightarrow> hm_contains a (cp_iters s))"
| "channel_allowed (Iter_free it) s \<longleftrightarrow> (case it of None \<Rightarrow> True | Some a \<Rightarrow> hm_contains a (cp_iters s))"
| "channel_allowed (Context_free null) s \<longleftrightarrow> ctx_alive (cp_rec s)"

definition c_program_new :: "'wr c_program" where
  "c_program_new = \<lparr> cp_rec = program_new \<lparr> mw_inner = [], mw_next_sink_id = 1 \<rparr>, cp_filters = (\<lambda>_. None),
     cp_refs = (\<lambda>_. 0), cp_writers = [], cp_iters = [], cp_next = 0 \<rparr>"

inductive channel_session :: "('x, 'wr) c_env \<Rightarrow> 'wr c_program \<Rightarrow> bool" for E where
  session_new: "channel_session E c_program_new"
| session_call: "channel_session E s \<Longrightarrow> channel_allowed c s \<Longrightarrow> channel_exec E c s = Some s' \<Longrightarrow> channel_session E s'"

section \<open>The invariant\<close>

definition writers_ok :: "'wr c_program \<Rightarrow> bool" where
  "writers_ok s \<longleftrightarrow>
     (\<forall>a w. hm_get (cp_writers s) a = Some w \<longrightarrow> a < cp_next s \<and>
        (\<exists>v. w = Some v \<and> handle_of v < mw_next_sink_id (world (cp_rec s)) \<and> recorder (world (cp_rec s)) (handle_of v) \<noteq> None))
   \<and> (\<forall>a b v w. hm_get (cp_writers s) a = Some (Some v) \<longrightarrow> hm_get (cp_writers s) b = Some (Some w) \<longrightarrow>
        handle_of v = handle_of w \<longrightarrow> a = b)"

definition c_inv :: "('x, 'wr) c_env \<Rightarrow> 'wr c_program \<Rightarrow> bool" where
  "c_inv E s \<longleftrightarrow> ctx_wf (c_sinks E s) (cp_rec s)
     \<and> (\<forall>r. 0 < cp_refs s r \<longrightarrow> hm_contains r (heap (cp_rec s)))
     \<and> (\<forall>k. hm_contains k (sinks (ctx (cp_rec s))) \<longrightarrow> k < mw_next_sink_id (world (cp_rec s)))
     \<and> writers_ok s \<and> hm_wf (cp_writers s) \<and> hm_wf (cp_iters s)
     \<and> (\<forall>a it. hm_get (cp_iters s) a = Some it \<longrightarrow> a < cp_next s \<and> 0 < cp_refs s (it_channel it))"

text \<open>A step of the context that opens, closes and registers no recorder.\<close>

definition keeps_recorders :: "'wr recording \<Rightarrow> 'wr recording \<Rightarrow> bool" where
  "keeps_recorders p p' \<longleftrightarrow> mw_next_sink_id (world p') = mw_next_sink_id (world p)
     \<and> (\<forall>i. recorder (world p') i = None \<longleftrightarrow> recorder (world p) i = None)
     \<and> (\<forall>k. hm_contains k (sinks (ctx p')) \<longrightarrow> hm_contains k (sinks (ctx p)))
     \<and> (\<forall>r. hm_contains r (heap p) \<longrightarrow> hm_contains r (heap p'))"

lemma c_inv_frame:
  assumes "c_inv E s" "keeps_recorders (cp_rec s) p" "ctx_wf (c_sinks E s) p"
  shows "c_inv E (s \<lparr> cp_rec := p \<rparr>)"
  using assms by (auto simp: c_inv_def writers_ok_def keeps_recorders_def c_sinks_def)

lemma keeps_world:
  "mw_next_sink_id w = mw_next_sink_id (world p) \<Longrightarrow> (\<And>i. recorder w i = None \<longleftrightarrow> recorder (world p) i = None) \<Longrightarrow>
   keeps_recorders p (p \<lparr> world := w \<rparr>)"
  by (simp add: keeps_recorders_def)

lemma recorder_write [simp]:
  "recorder (snd (mcap_write_metadata M i n m w)) j = None \<longleftrightarrow> recorder w j = None"
  "recorder (snd (mcap_attach M i a w)) j = None \<longleftrightarrow> recorder w j = None"
  "mw_next_sink_id (snd (mcap_write_metadata M i n m w)) = mw_next_sink_id w"
  "mw_next_sink_id (snd (mcap_attach M i a w)) = mw_next_sink_id w"
  by (auto simp: mcap_write_metadata_def mcap_attach_def set_recorder_def recorder_def hm_simps
      split: prod.splits sum.splits option.splits if_splits)

lemma keeps_write_metadata: "keeps_recorders p (p \<lparr> world := snd (mcap_write_metadata M i n m (world p)) \<rparr>)"
  and keeps_attach: "keeps_recorders p (p \<lparr> world := snd (mcap_attach M i a (world p)) \<rparr>)"
  by (rule keeps_world; simp)+

text \<open>Recorders do nothing when channels come and go.\<close>

lemma fold_notify_world: "snd (fold (notify_sink (mcap_sinks M F) ch) ks (b, w)) = w"
proof (induction ks arbitrary: b)
  case (Cons k ks)
  have "snd (notify_sink (mcap_sinks M F) ch k (b, w)) = w"
    by (auto simp: notify_sink_def sink_add_channel_def mcap_sinks_def)
  then show ?case using Cons.IH [of "fst (notify_sink (mcap_sinks M F) ch k (b, w))"] by (simp add: prod_eq_iff) (metis prod.collapse)
qed simp

lemma fold_remove_world [simp]: "fold (\<lambda>k w. sink_remove_channel (mcap_sinks M F) k ch w) ks w = w"
  by (induction ks) (simp_all add: mcap_sinks_def)

lemma add_channel_fields:
  "world (snd (ctx_add_channel (mcap_sinks M F) r p)) = world p" "sinks (ctx (snd (ctx_add_channel T r p))) = sinks (ctx p)"
  using fold_notify_world [of M F "deref p r" "hm_values (sinks (ctx p))" "subs (ctx p)" "world p"]
  by (auto simp: ctx_add_channel_def Let_def case_prod_beta split: option.split)

lemma build_raw_keeps: "keeps_recorders p (snd (build_raw (mcap_sinks M F) b p))"
proof -
  have "world (snd (build_raw (mcap_sinks M F) b p)) = world p" "sinks (ctx (snd (build_raw (mcap_sinks M F) b p))) = sinks (ctx p)"
    by (simp_all add: build_raw_def alloc_channel_def add_channel_fields case_prod_beta Let_def split: option.split)
  then show ?thesis using heap_grows [of _ p "mcap_sinks M F" "Build b"] by (simp add: keeps_recorders_def)
qed

lemma channel_close_keeps: "keeps_recorders p (channel_close (mcap_sinks M F) r p)"
  using heap_grows [of _ p "mcap_sinks M F" "Close r"]
  by (auto simp: keeps_recorders_def channel_close_def ctx_remove_channel_def Let_def split: option.split)

lemma mcap_log_keeps:
  "recorder (snd (mcap_sink_log M i ch msg meta w)) j = None \<longleftrightarrow> recorder w j = None"
  "mw_next_sink_id (snd (mcap_sink_log M i ch msg meta w)) = mw_next_sink_id w"
  by (auto simp: recorder_log) (auto simp: mcap_sink_log_def set_recorder_def split: option.split prod.split)

lemma fold_log_keeps:
  "recorder (fold (\<lambda>k w. snd (sink_log (mcap_sinks M F) k ch msg meta w)) ks w) j = None \<longleftrightarrow> recorder w j = None"
  "mw_next_sink_id (fold (\<lambda>k w. snd (sink_log (mcap_sinks M F) k ch msg meta w)) ks w) = mw_next_sink_id w"
  by (induction ks arbitrary: w) (auto simp: mcap_sinks_def mcap_log_keeps)

lemma log_with_meta_keeps:
  "log_with_meta_to_sink (mcap_sinks M F) now unow ch msg opts target w = (ch', w') \<Longrightarrow>
   mw_next_sink_id w' = mw_next_sink_id w \<and> (\<forall>i. recorder w' i = None \<longleftrightarrow> recorder w i = None)"
  by (auto simp: log_with_meta_to_sink_def log_to_sinks_fold fold_log_keeps split: if_splits)

lemma channel_log_keeps: "keeps_recorders p (channel_log (mcap_sinks M F) now unow r msg opts target p)"
  using heap_grows [of _ p "mcap_sinks M F" "Log now unow r msg opts target"]
    log_with_meta_keeps [of M F now unow "deref p r" msg opts target "world p"]
  by (auto simp: keeps_recorders_def channel_log_def split: prod.split)

lemma ctx_drop_keeps: "keeps_recorders p (ctx_drop (mcap_sinks M F) p)"
proof -
  have "world (fold (clear_channel (mcap_sinks M F)) rs p) = world p" for rs
    by (induction rs arbitrary: p) (simp_all add: clear_channel_def Let_def)
  then show ?thesis using heap_grows [of _ p "mcap_sinks M F" Drop_context]
    by (auto simp: keeps_recorders_def ctx_drop_def ctx_clear_def Let_def fold_clear_channel)
qed

section \<open>Every call keeps the invariant\<close>

lemma c_inv_wf: "c_inv E s \<Longrightarrow> ctx_wf (c_sinks E s) (cp_rec s)"
  by (simp add: c_inv_def)

lemma c_inv_held: "c_inv E s \<Longrightarrow> 0 < cp_refs s r \<Longrightarrow> hm_contains r (heap (cp_rec s))"
  by (simp add: c_inv_def)

lemma write_metadata_inv:
  assumes "c_inv E s" "hm_contains a (cp_writers s)"
  shows "\<exists>e s'. c_mcap_write_metadata E (Some a) name kvs s = Some (e, s') \<and> c_inv E s'"
proof -
  obtain w where w: "hm_get (cp_writers s) a = Some w" using assms(2) by (auto simp: hm_contains_iff)
  have "c_inv E (snd (do_mcap_write_metadata E w name kvs s))"
    using assms(1) c_inv_frame [OF assms(1) keeps_write_metadata] c_inv_wf [OF assms(1)]
    by (auto simp: do_mcap_write_metadata_def case_prod_beta split: sum.split option.split)
  then show ?thesis by (auto simp: c_mcap_write_metadata_def w split: prod.split)
qed

lemma attach_inv:
  assumes "c_inv E s" "hm_contains a (cp_writers s)"
  shows "\<exists>e s'. c_mcap_attach E (Some a) att s = Some (e, s') \<and> c_inv E s'"
proof -
  obtain w where w: "hm_get (cp_writers s) a = Some w" using assms(2) by (auto simp: hm_contains_iff)
  have "c_inv E (snd (do_mcap_attach E w att s))"
    using assms(1) c_inv_frame [OF assms(1) keeps_attach] c_inv_wf [OF assms(1)]
    by (auto simp: do_mcap_attach_def case_prod_beta split: sum.split)
  then show ?thesis by (auto simp: c_mcap_attach_def w split: prod.split)
qed

text \<open>The filter of a sink that is not registered is not used.\<close>

lemma ctx_wf_filters:
  assumes "ctx_wf (mcap_sinks M F) p" "\<not> hm_contains i (sinks (ctx p))"
  shows "ctx_wf (mcap_sinks M (F(i := f))) p"
proof -
  have s: "sinks_wf (sinks (ctx p))" using assms(1) by (simp add: ctx_wf_def links_ok_def)
  have "sink_id k \<noteq> i" if "hm_get (sinks (ctx p)) j = Some k" for j k
    using hm_get_sinks [OF s that] assms(2) that by (auto simp: hm_contains_iff)
  then have "{j. \<exists>k. hm_get (sinks (ctx p)) j = Some k \<and> auto_subscribe (mcap_sinks M (F(i := f))) k}
      = {j. \<exists>k. hm_get (sinks (ctx p)) j = Some k \<and> auto_subscribe (mcap_sinks M F) k}"
    by (auto simp: mcap_sinks_def)
  then show ?thesis using assms(1) by (simp add: ctx_wf_def links_ok_def)
qed

lemma add_sink_sinks:
  "\<not> hm_contains (sink_id k) (sinks (ctx p)) \<Longrightarrow>
   sinks (ctx (snd (ctx_add_sink T k p))) = hm_insert (sink_id k) k (sinks (ctx p))"
  by (simp add: ctx_add_sink_def Let_def case_prod_beta update_channel_sinks_by_ids_def split: option.split)

text \<open>What the caller of \<open>McapWriter::create\<close> gets.\<close>

definition opened :: "('x, 'wr) c_env \<Rightarrow> WriteOptions \<Rightarrow> (ChannelDescriptor \<Rightarrow> bool) option \<Rightarrow> 'x destination \<Rightarrow> 'wr c_program
    \<Rightarrow> SinkId \<Rightarrow> 'wr c_program \<Rightarrow> bool" where
  "opened E wopts flt dest s i s' \<longleftrightarrow> i = mw_next_sink_id (world (cp_rec s))
     \<and> (\<exists>wr. env_create E wopts dest = Inr wr \<and> recorder (world (cp_rec s')) i = Some (writer_state_new wr))
     \<and> (\<forall>r. registered (cp_rec s) r \<longrightarrow>
          hears (cp_rec s') i r = admits flt (descriptor (deref (cp_rec s) r)))"

lemma writers_ok_grow:
  assumes "writers_ok s" "cp_writers s' = cp_writers s" "cp_next s' = cp_next s"
    and "\<And>j. j < mw_next_sink_id (world (cp_rec s)) \<Longrightarrow> j < mw_next_sink_id (world (cp_rec s'))
      \<and> (recorder (world (cp_rec s)) j \<noteq> None \<longrightarrow> recorder (world (cp_rec s')) j \<noteq> None)"
  shows "writers_ok s'"
  using assms unfolding writers_ok_def by (simp only:) meson

lemma builder_create_inv:
  assumes inv: "c_inv E s" and room: "unat (mw_next_sink_id (world (cp_rec s))) + 1 < 2 ^ 64"
    and r: "builder_create E wopts flt dest s = (res, s')"
  shows "(case res of
      Inl e \<Rightarrow> s' = s
    | Inr i \<Rightarrow> c_inv E s' \<and> opened E wopts flt dest s i s' \<and> i < mw_next_sink_id (world (cp_rec s'))
        \<and> cp_writers s' = cp_writers s \<and> cp_next s' = cp_next s)"
proof (cases "env_create E wopts dest")
  case (Inl e)
  then show ?thesis using r by (auto simp: builder_create_def mcap_create_def mcap_sink_new_def Let_def)
next
  case (Inr wr)
  let ?p = "cp_rec s" let ?i = "mw_next_sink_id (world ?p)" let ?F = "(cp_filters s)(?i := flt)"
  let ?w = "set_recorder ?i (Some (writer_state_new wr)) (world ?p \<lparr> mw_next_sink_id := ?i + 1 \<rparr>)"
  let ?T = "mcap_sinks (env_mcap E) ?F"
  define p0 where "p0 = ?p \<lparr> world := ?w \<rparr>"
  define p1 where "p1 = snd (ctx_add_sink ?T (Dyn_sink ?i) p0)"
  have res: "res = Inr ?i" and s': "s' = s \<lparr> cp_rec := p1, cp_filters := ?F \<rparr>"
    using r Inr by (auto simp: builder_create_def mcap_create_def mcap_sink_new_def Let_def p0_def p1_def)
  have fresh: "\<not> hm_contains ?i (sinks (ctx ?p))" using inv by (auto simp: c_inv_def)
  have up: "j < ?i + 1" if "j < ?i \<or> j = ?i" for j
    using that room unfolding word_less_nat_alt by (auto simp: unat_word_ariths)
  have d0: "deref p0 = deref ?p" by (simp add: p0_def)
  have wf0: "ctx_wf ?T p0"
    using c_inv_wf [OF inv] ctx_wf_filters fresh by (simp add: p0_def c_sinks_def)
  have wf: "ctx_wf ?T p1" unfolding p1_def by (rule ctx_add_sink_wf [OF wf0])
  have w1: "world p1 = ?w" by (simp add: p1_def add_sink_world p0_def)
  have sk: "sinks (ctx p1) = hm_insert ?i (Dyn_sink ?i) (sinks (ctx ?p))"
    using fresh by (simp add: p1_def add_sink_sinks p0_def)
  have hp: "hm_contains r (heap p1)" if "hm_contains r (heap ?p)" for r
    using heap_grows [of r p0 ?T "Add_sink (Dyn_sink ?i)"] that by (simp add: p1_def p0_def)
  have rec: "recorder (world p1) j = (if j = ?i then Some (writer_state_new wr) else recorder (world ?p) j)" for j
    by (simp add: w1) (simp add: recorder_def)
  have next1: "mw_next_sink_id (world p1) = ?i + 1" by (simp add: w1 set_recorder_def)
  have "hears p1 ?i r = admits flt (descriptor (deref ?p r))" if "registered ?p r" for r
    using create_hears [OF wf0, of ?i r, folded p1_def] that fresh unfolding d0 by (simp add: p0_def registered_def)
  then have op: "opened E wopts flt dest s ?i s'" using Inr rec [of ?i] by (simp add: opened_def s')
  have "writers_ok s'"
  proof (rule writers_ok_grow [of s])
    show "writers_ok s" using inv by (simp add: c_inv_def)
    show "j < mw_next_sink_id (world (cp_rec s')) \<and>
        (recorder (world ?p) j \<noteq> None \<longrightarrow> recorder (world (cp_rec s')) j \<noteq> None)" if "j < ?i" for j
      using up [of j] that by (simp add: s' next1 rec)
  qed (simp_all add: s')
  moreover have "k < ?i + 1" if "hm_contains k (sinks (ctx p1))" for k
    using inv up [of k] that by (auto simp: c_inv_def sk)
  ultimately have "c_inv E s'"
    using inv wf hp unfolding c_inv_def by (simp add: s' c_sinks_def next1)
  then show ?thesis using op res up [of ?i] by (simp add: s' next1)
qed

lemma insert_writer_inv:
  assumes "c_inv E s" "handle_of v < mw_next_sink_id (world (cp_rec s))" "recorder (world (cp_rec s)) (handle_of v) \<noteq> None"
    and "\<forall>a w. hm_get (cp_writers s) a = Some (Some w) \<longrightarrow> handle_of w \<noteq> handle_of v"
  shows "c_inv E (s \<lparr> cp_writers := hm_insert (cp_next s) (Some v) (cp_writers s), cp_next := cp_next s + 1 \<rparr>)"
proof -
  have "writers_ok (s \<lparr> cp_writers := hm_insert (cp_next s) (Some v) (cp_writers s), cp_next := cp_next s + 1 \<rparr>)"
    using assms unfolding c_inv_def writers_ok_def
    by (auto simp: hm_get_insert less_Suc_eq split: if_splits) metis+
  then show ?thesis
    using assms(1) unfolding c_inv_def c_sinks_def by (auto simp: hm_wf_insert less_Suc_eq)
qed

text \<open>The filter that a new recorder has: callbacks of the caller are written to without one.\<close>

definition effective_filter :: "'x FoxgloveMcapOptions \<Rightarrow> (ChannelDescriptor \<Rightarrow> bool) option" where
  "effective_filter opts = (case mo_custom_writer opts of Some _ \<Rightarrow> None | None \<Rightarrow> mo_sink_channel_filter opts)"

definition destination_ok :: "'x FoxgloveMcapOptions \<Rightarrow> 'x destination \<Rightarrow> bool" where
  "destination_ok opts dest \<longleftrightarrow>
     (case mo_custom_writer opts of
        Some cb \<Rightarrow> dest = Callbacks cb \<and> write_fn cb \<noteq> None \<and> flush_fn cb \<noteq> None \<and> (mo_disable_seeking opts \<or> seek_fn cb \<noteq> None)
      | None \<Rightarrow> (\<exists>file. dest = Buffered_file file))"

lemma open_custom_cases:
  assumes "mo_custom_writer opts = Some cb" "open_custom E opts wopts cb s = (res, s')"
  shows "(\<exists>e. res = Inl e \<and> (s' = s \<or> builder_create E wopts None (Callbacks cb) s = (Inl e, s')))
    \<or> (\<exists>v. res = Inr v \<and> destination_ok opts (Callbacks cb)
        \<and> builder_create E wopts None (Callbacks cb) s = (Inr (handle_of v), s'))"
  using assms
  by (cases "builder_create E wopts None (Callbacks cb) s"; cases "fst (builder_create E wopts None (Callbacks cb) s)")
    (auto simp: open_custom_def destination_ok_def split: if_splits)

lemma open_path_cases:
  assumes "mo_custom_writer opts = None" "open_path E opts wopts s = (res, s')"
  shows "(\<exists>e. res = Inl e \<and> (s' = s \<or> (\<exists>f. builder_create E wopts (mo_sink_channel_filter opts) (Buffered_file f) s = (Inl e, s'))))
    \<or> (\<exists>v f. res = Inr v \<and> destination_ok opts (Buffered_file f)
        \<and> builder_create E wopts (mo_sink_channel_filter opts) (Buffered_file f) s = (Inr (handle_of v), s'))"
proof (cases "utf8_arg ''path is invalid'' (mo_path opts)")
  case (Inr path)
  let ?flags = "if mo_truncate opts then (True, True, False) else (False, False, True)"
  show ?thesis
  proof (cases "env_open E ?flags path")
    case (Inr fd)
    let ?c = "builder_create E wopts (mo_sink_channel_filter opts) (Buffered_file fd) s"
    have d: "destination_ok opts (Buffered_file fd)" using assms(1) by (simp add: destination_ok_def)
    have o: "open_path E opts wopts s = (if path = [] then (Inl (ValueError ''Either path must be non-empty or custom_writer must be provided''), s)
        else (case ?c of (Inl e, s') \<Rightarrow> (Inl e, s') | (Inr i, s') \<Rightarrow> (Inr (File_writer i), s')))"
      by (simp only: open_path_def \<open>utf8_arg _ _ = Inr path\<close> Inr sum.case)
    obtain r1 s1 where c: "?c = (r1, s1)" by fastforce
    show ?thesis
    proof (cases r1)
      case (Inl e)
      then show ?thesis using assms(2) c by (auto simp: o split: if_splits)
    next
      case (Inr i)
      then have "path \<noteq> [] \<Longrightarrow> res = Inr (File_writer i) \<and> s' = s1" using assms(2) c by (simp add: o)
      then show ?thesis using assms(2) c Inr d by (cases "path = []") (auto simp: o intro!: exI [of _ "File_writer i"] exI [of _ fd])
    qed
  qed (use assms(2) Inr in \<open>auto simp: open_path_def split: if_splits\<close>)
qed (use assms(2) in \<open>auto simp: open_path_def\<close>)

lemma do_mcap_open_cases:
  assumes "do_mcap_open E opts s = (res, s')"
  shows "(\<exists>e. res = Inl e \<and> (s' = s \<or> (\<exists>wopts flt dest. builder_create E wopts flt dest s = (Inl e, s'))))
    \<or> (\<exists>wopts dest v s1. to_write_options opts = Inr wopts \<and> destination_ok opts dest
        \<and> builder_create E wopts (effective_filter opts) dest s = (Inr (handle_of v), s1)
        \<and> res = Inr (cp_next s1)
        \<and> s' = s1 \<lparr> cp_writers := hm_insert (cp_next s1) (Some v) (cp_writers s1), cp_next := cp_next s1 + 1 \<rparr>)"
proof (cases "to_write_options opts")
  case (Inr wopts)
  obtain r1 s1 where c: "(case mo_custom_writer opts of Some cb \<Rightarrow> open_custom E opts wopts cb s | None \<Rightarrow> open_path E opts wopts s) = (r1, s1)"
    by fastforce
  have v: "(\<exists>e. r1 = Inl e \<and> (s1 = s \<or> (\<exists>flt dest. builder_create E wopts flt dest s = (Inl e, s1))))
    \<or> (\<exists>v dest. r1 = Inr v \<and> destination_ok opts dest
        \<and> builder_create E wopts (effective_filter opts) dest s = (Inr (handle_of v), s1))"
  proof (cases "mo_custom_writer opts")
    case None
    then show ?thesis using open_path_cases [of opts E wopts s r1 s1] c by (simp add: effective_filter_def) blast
  next
    case (Some cb)
    then show ?thesis using open_custom_cases [of opts cb E wopts s r1 s1] c by (simp add: effective_filter_def) blast
  qed
  have "(res, s') = (case r1 of Inl e \<Rightarrow> (Inl e, s1) | Inr v \<Rightarrow> (Inr (cp_next s1),
      s1 \<lparr> cp_writers := hm_insert (cp_next s1) (Some v) (cp_writers s1), cp_next := cp_next s1 + 1 \<rparr>))"
    using assms by (cases r1) (simp_all add: do_mcap_open_def Inr c Let_def)
  then show ?thesis using v Inr by (cases r1) auto
qed (use assms in \<open>auto simp: do_mcap_open_def\<close>)

lemma writer_handle:
  "writers_ok s \<Longrightarrow> hm_get (cp_writers s) a = Some w \<Longrightarrow>
   \<exists>v st. w = Some v \<and> handle_of v < mw_next_sink_id (world (cp_rec s)) \<and> recorder (world (cp_rec s)) (handle_of v) = Some st"
  by (auto simp: writers_ok_def)

lemma mcap_open_inv:
  assumes inv: "c_inv E s" and room: "unat (mw_next_sink_id (world (cp_rec s))) + 1 < 2 ^ 64"
    and o: "do_mcap_open E opts s = (res, s')"
  shows "c_inv E s' \<and> (case res of Inl e \<Rightarrow> s' = s
    | Inr a \<Rightarrow> \<exists>v wopts dest. hm_get (cp_writers s') a = Some (Some v) \<and> to_write_options opts = Inr wopts
        \<and> destination_ok opts dest \<and> opened E wopts (effective_filter opts) dest s (handle_of v) s')"
  using do_mcap_open_cases [OF o]
proof (elim disjE exE conjE)
  fix wopts dest v s1
  assume w: "to_write_options opts = Inr wopts" and d: "destination_ok opts dest" and res: "res = Inr (cp_next s1)"
    and b: "builder_create E wopts (effective_filter opts) dest s = (Inr (handle_of v), s1)"
    and s': "s' = s1 \<lparr> cp_writers := hm_insert (cp_next s1) (Some v) (cp_writers s1), cp_next := cp_next s1 + 1 \<rparr>"
  note c = builder_create_inv [OF inv room b, simplified]
  have op: "opened E wopts (effective_filter opts) dest s (handle_of v) s1" using c by simp
  have "c_inv E s'" unfolding s'
  proof (rule insert_writer_inv)
    show "\<forall>a w. hm_get (cp_writers s1) a = Some (Some w) \<longrightarrow> handle_of w \<noteq> handle_of v"
      using inv c writer_handle [of s] by (fastforce simp: c_inv_def opened_def)
  qed (use c in \<open>auto simp: opened_def\<close>)
  moreover have "opened E wopts (effective_filter opts) dest s (handle_of v) s'"
    using op by (auto simp: opened_def s')
  ultimately show ?thesis using w d res by (auto simp: s' hm_get_insert)
qed (use inv room builder_create_inv in \<open>fastforce+\<close>)

lemma handle_close_open:
  assumes "recorder (world p) i = Some st" "ctx_wf T p"
  shows "\<exists>p'. handle_close M i p =
      Some (case finish_file M (wst_writer st) of (Inl e, _) \<Rightarrow> Inl (McapError e) | (Inr _, wr) \<Rightarrow> Inr wr, p')
    \<and> world p' = set_recorder i None (world p) \<and> ctx_wf T p'
    \<and> (\<forall>k. hm_contains k (sinks (ctx p')) \<longrightarrow> hm_contains k (sinks (ctx p)))
    \<and> (\<forall>r. hm_contains r (heap p) \<longrightarrow> hm_contains r (heap p'))"
proof -
  define rm where "rm q = (if ctx_alive q then snd (ctx_remove_sink i q) else q)" for q :: "'a recording"
  have rm: "world (rm q) = world q" "ctx_wf T q \<Longrightarrow> ctx_wf T (rm q)"
    "hm_contains k (sinks (ctx (rm q))) \<Longrightarrow> hm_contains k (sinks (ctx q))"
    "hm_contains r (heap q) \<Longrightarrow> hm_contains r (heap (rm q))" for q k r
    using heap_grows [of r q T "Remove_sink i"] ctx_remove_sink_wf [of T q i]
    by (auto simp: rm_def) (simp add: ctx_remove_sink_def Let_def case_prod_beta split: if_splits)
  have fin: "handle_finish M i q = (case mcap_finish M i (world q) of (r, w) \<Rightarrow> (r, (rm q) \<lparr> world := w \<rparr>))" for q
    using rm(1) [of q] by (simp add: handle_finish_def rm_def)
  let ?q = "(rm p) \<lparr> world := set_recorder i None (world p) \<rparr>"
  have q: "world ?q = set_recorder i None (world p)" by simp
  have d: "handle_drop M i ?q = (rm ?q) \<lparr> world := set_recorder i None (world p) \<rparr>"
    by (simp add: handle_drop_def fin mcap_finish_def)
  have "handle_close M i p = Some (case finish_file M (wst_writer st) of (Inl e, _) \<Rightarrow> Inl (McapError e) | (Inr _, wr) \<Rightarrow> Inr wr,
      handle_drop M i ?q)"
    using assms(1) by (simp add: handle_close_def fin mcap_finish_def split: prod.split sum.split)
  then show ?thesis using rm(2) [of ?q] rm(2) [OF assms(2)] rm(3) [of _ p] rm(3) [of _ ?q] rm(4) [of _ p] rm(4) [of _ ?q]
    unfolding d by auto
qed

lemma mcap_close_inv:
  assumes inv: "c_inv E s" and a: "hm_get (cp_writers s) a = Some (Some v)" and st: "recorder (world (cp_rec s)) (handle_of v) = Some st"
  shows "\<exists>s'. c_mcap_close E (Some a) s =
      Some (case finish_file (env_mcap E) (wst_writer st) of (Inl _, _) \<Rightarrow> C_McapError | (Inr _, _) \<Rightarrow> C_Ok, s')
    \<and> c_inv E s' \<and> recorder (world (cp_rec s')) (handle_of v) = None \<and> cp_writers s' = hm_remove a (cp_writers s)"
proof -
  obtain p' where h: "handle_close (env_mcap E) (handle_of v) (cp_rec s) =
      Some (case finish_file (env_mcap E) (wst_writer st) of (Inl e, _) \<Rightarrow> Inl (McapError e) | (Inr _, wr) \<Rightarrow> Inr wr, p')"
    "world p' = set_recorder (handle_of v) None (world (cp_rec s))" "ctx_wf (c_sinks E s) p'"
    "\<And>k. hm_contains k (sinks (ctx p')) \<Longrightarrow> hm_contains k (sinks (ctx (cp_rec s)))"
    "\<And>r. hm_contains r (heap (cp_rec s)) \<Longrightarrow> hm_contains r (heap p')"
    using handle_close_open [OF st c_inv_wf [OF inv]] by blast
  define s' where "s' = s \<lparr> cp_writers := hm_remove a (cp_writers s), cp_rec := p' \<rparr>"
  have n: "mw_next_sink_id (world p') = mw_next_sink_id (world (cp_rec s))" by (simp add: h(2) set_recorder_def)
  have ok: "writers_ok s" using inv by (simp add: c_inv_def)
  have other: "handle_of w \<noteq> handle_of v" if "hm_get (cp_writers s) b = Some (Some w)" "b \<noteq> a" for b w
    using ok a that unfolding writers_ok_def by blast
  have "writers_ok s'" unfolding writers_ok_def
  proof (intro conjI allI impI)
    fix b w assume w: "hm_get (cp_writers s') b = Some w"
    then have b: "b \<noteq> a" "hm_get (cp_writers s) b = Some w" by (auto simp: s'_def hm_get_remove split: if_splits)
    show "b < cp_next s'" using ok b(2) by (auto simp: writers_ok_def s'_def)
    obtain x st' where x: "w = Some x" "handle_of x < mw_next_sink_id (world (cp_rec s))"
      "recorder (world (cp_rec s)) (handle_of x) = Some st'"
      using writer_handle [OF ok b(2)] by blast
    then show "\<exists>v. w = Some v \<and> handle_of v < mw_next_sink_id (world (cp_rec s')) \<and> recorder (world (cp_rec s')) (handle_of v) \<noteq> None"
      using other [of b x] b by (intro exI [of _ x]) (simp add: s'_def h(2) set_recorder_def, simp add: recorder_def hm_simps)
  next
    fix b c x y
    assume "hm_get (cp_writers s') b = Some (Some x)" "hm_get (cp_writers s') c = Some (Some y)" "handle_of x = handle_of y"
    then show "b = c" using ok unfolding writers_ok_def by (auto simp: s'_def hm_get_remove split: if_splits)
  qed
  then have "c_inv E s'"
    using inv h(3,4,5) unfolding c_inv_def by (simp add: s'_def c_sinks_def n hm_wf_remove)
  moreover have "c_mcap_close E (Some a) s =
      Some (case finish_file (env_mcap E) (wst_writer st) of (Inl _, _) \<Rightarrow> C_McapError | (Inr _, _) \<Rightarrow> C_Ok, s')"
    using h(1) by (simp add: c_mcap_close_def a s'_def result_to_c_def split: prod.split sum.split)
  ultimately show ?thesis by (auto simp: s'_def h(2))
qed

lemma build_raw_result:
  assumes wf: "ctx_wf T p" and room: "unat (next_channel_id p) + 1 < 2 ^ 64" and b: "build_raw T b p = (Inr r, p')"
  shows "\<exists>e i. cb_message_encoding b = Some e \<and> hm_contains r (heap p')
    \<and> descriptor_matches (channel_descriptor_new i (cb_topic b) e (cb_metadata b) (cb_schema b)) (descriptor (deref p' r))"
proof -
  obtain e where e: "cb_message_encoding b = Some e" using b by (auto simp: build_raw_def split: option.splits)
  obtain x p1 where a: "alloc_channel (cb_topic b) e (cb_schema b) (cb_metadata b) p = (x, p1)" by fastforce
  have c: "ctx_add_channel T x p1 = (r, p')" using b e a by (auto simp: build_raw_def split: prod.splits)
  from alloc_channel_wf [OF wf room a] have 1: "ctx_wf T p1" "hm_contains x (heap p1)" "\<not> registered p1 x"
    "deref p1 x = raw_channel_new x (cb_topic b) e (cb_schema b) (cb_metadata b)" by auto
  have d: "descriptor (deref p1 x) = channel_descriptor_new x (cb_topic b) e (cb_metadata b) (cb_schema b)"
    by (simp add: 1(4) raw_channel_new_def)
  show ?thesis
  proof (cases "\<exists>r'. registered p1 r' \<and> raw_channel_matches (deref p1 x) (deref p1 r')")
    case True
    then obtain r' where r': "registered p1 r'" "raw_channel_matches (deref p1 x) (deref p1 r')" by blast
    then have "r = r'" "p' = p1" using ctx_add_channel_existing [OF 1(1) r'] c by simp_all
    then show ?thesis using e r' d registered_heap [of p1 r'] 1(1)
      by (intro exI [of _ e] exI [of _ x]) (simp add: raw_channel_matches_def ctx_wf_def)
  next
    case False
    have "\<not> closed (deref p1 x)" by (simp add: 1(4))
    note n = ctx_add_channel_new [OF 1(1,2) this 1(3) _ c]
    have "r = x" "ctx_wf T p'" "registered p' x" "descriptor (deref p' x) = descriptor (deref p1 x)"
      using n False by auto
    then show ?thesis using e d registered_heap [of p' x]
      by (intro exI [of _ e] exI [of _ x]) (simp add: descriptor_matches_def ctx_wf_def)
  qed
qed

lemma hand_out_inv: "c_inv E s \<Longrightarrow> hm_contains r (heap (cp_rec s)) \<Longrightarrow> c_inv E (hand_out r s)"
  by (auto simp: c_inv_def hand_out_def c_sinks_def writers_ok_def)

lemma build_raw_inv:
  assumes inv: "c_inv E s" and room: "unat (next_channel_id (cp_rec s)) + 1 < 2 ^ 64"
    and b: "build_raw (c_sinks E s) b (cp_rec s) = (res, p)"
  shows "c_inv E (s \<lparr> cp_rec := p \<rparr>)" "res = Inr r \<Longrightarrow> c_inv E (hand_out r (s \<lparr> cp_rec := p \<rparr>))"
proof -
  show 1: "c_inv E (s \<lparr> cp_rec := p \<rparr>)"
    using c_inv_frame [OF inv] build_raw_keeps [of "cp_rec s"] build_raw_wf [OF c_inv_wf [OF inv] room] b
    by (metis c_sinks_def snd_conv)
  show "c_inv E (hand_out r (s \<lparr> cp_rec := p \<rparr>))" if "res = Inr r"
    using build_raw_result [OF c_inv_wf [OF inv] room, of b r p] b that by (intro hand_out_inv [OF 1]) auto
qed

lemma raw_channel_create_inv:
  assumes "c_inv E s" "unat (next_channel_id (cp_rec s)) + 1 < 2 ^ 64"
  shows "c_inv E (snd (c_raw_channel_create E t e sch kvs out s))"
  using assms build_raw_inv [OF assms]
  by (auto simp: c_raw_channel_create_def do_raw_channel_create_def split: sum.split prod.split)

lemma channel_create_inv:
  assumes "c_inv E s" "unat (next_channel_id (cp_rec s)) + 1 < 2 ^ 64"
  shows "\<exists>r s'. do_channel_create E enc sch t s = Some (r, s') \<and> c_inv E s'"
proof (cases "utf8_arg ''topic invalid'' t")
  case (Inr topic)
  let ?b = "builder_fill enc sch (channel_builder_new topic)"
  obtain res p where b: "build_raw (c_sinks E s) ?b (cp_rec s) = (res, p)" by fastforce
  then obtain r where r: "res = Inr r"
    by (auto simp: build_raw_def builder_fill_def channel_builder_new_def Let_def split: option.splits prod.splits)
  show ?thesis using build_raw_inv [OF assms b] r b Inr by (auto simp: do_channel_create_def build_def)
qed (use assms in \<open>auto simp: do_channel_create_def\<close>)

text \<open>A typed message is encoded and logged like bytes.\<close>

lemma log_msg_to_channel_eq:
  "0 < cp_refs s r \<Longrightarrow> log_msg_to_channel E (\<lambda>m. m) now unow (Some r) (Some buf) t k s =
     Some (C_Ok, s \<lparr> cp_rec := channel_log (c_sinks E s) now unow r buf \<lparr> opt_log_time = t \<rparr>
       (if k = 0 then None else Some k) (cp_rec s) \<rparr>)"
  by (simp add: log_msg_to_channel_def channel_log_with_meta_to_sink_def channel_log_def log_with_meta_to_sink_def
      case_prod_beta)

lemma channel_log_inv:
  assumes "c_inv E s" "0 < cp_refs s r"
  shows "c_inv E (s \<lparr> cp_rec := channel_log (c_sinks E s) now unow r msg opts k (cp_rec s) \<rparr>)"
  using c_inv_frame [OF assms(1)] channel_log_keeps [of "cp_rec s"] channel_log_wf [OF c_inv_wf [OF assms(1)] c_inv_held [OF assms]]
  by (simp add: c_sinks_def)

lemma channel_close_inv:
  assumes "c_inv E s"
  shows "c_inv E (s \<lparr> cp_rec := channel_close (c_sinks E s) r (cp_rec s) \<rparr>)"
  using c_inv_frame [OF assms] channel_close_keeps [of "cp_rec s"] ctx_remove_channel_wf [OF c_inv_wf [OF assms]] c_inv_wf [OF assms]
  by (simp add: c_sinks_def) (simp add: channel_close_def)

lemma context_free_inv:
  assumes "c_inv E s"
  shows "c_inv E (c_context_free E null s)"
  using assms c_inv_frame [OF assms ctx_drop_keeps] ctx_clear_wf(1) [OF c_inv_wf [OF assms]]
  by (simp add: c_context_free_def c_sinks_def ctx_drop_def)

lemma channel_free_inv:
  assumes inv: "c_inv E s" and r: "0 < cp_refs s r" "cp_refs s r = 1 \<Longrightarrow> r \<notin> it_channel ` set (hm_values (cp_iters s))"
  shows "c_inv E (s \<lparr> cp_refs := (cp_refs s)(r := cp_refs s r - 1) \<rparr>)"
proof -
  have "r \<noteq> it_channel it \<or> 1 < cp_refs s r" if "hm_get (cp_iters s) a = Some it" for a it
  proof -
    have "it \<in> set (hm_values (cp_iters s))" using that by (force simp: hm_values_def hm_get_def dest!: map_of_SomeD)
    then show ?thesis using r by force
  qed
  then show ?thesis using inv unfolding c_inv_def by (auto simp: c_sinks_def writers_ok_def split: if_splits)
qed

lemma iter_inv:
  assumes inv: "c_inv E s"
  shows "0 < cp_refs s r \<Longrightarrow> \<exists>a s'. c_metadata_iter_create (Some r) s = Some (a, s') \<and> c_inv E s'"
    and "hm_contains a (cp_iters s) \<Longrightarrow> \<exists>kv s'. c_metadata_iter_next (Some a) out s = Some (kv, s') \<and> c_inv E s'"
    and "hm_contains a (cp_iters s) \<Longrightarrow> \<exists>s'. c_metadata_iter_free (Some a) s = Some s' \<and> c_inv E s'"
proof -
  have grow: "writers_ok (s \<lparr> cp_iters := m, cp_next := n \<rparr>)" if "cp_next s \<le> n" for m n
    using inv that unfolding c_inv_def writers_ok_def by fastforce
  have keep: "writers_ok (s \<lparr> cp_iters := m \<rparr>)" for m using grow [of "cp_next s" m] by simp
  show "\<exists>a s'. c_metadata_iter_create (Some r) s = Some (a, s') \<and> c_inv E s'" if "0 < cp_refs s r"
    using inv that grow [of "cp_next s + 1"]
    by (auto simp: c_metadata_iter_create_def Let_def c_inv_def c_sinks_def hm_get_insert hm_wf_insert less_Suc_eq split: if_splits)
  show "\<exists>kv s'. c_metadata_iter_next (Some a) out s = Some (kv, s') \<and> c_inv E s'" if c: "hm_contains a (cp_iters s)"
  proof -
    obtain it where it: "hm_get (cp_iters s) a = Some it" using c by (auto simp: hm_contains_iff)
    then have r: "0 < cp_refs s (it_channel it)" "a < cp_next s" using inv by (auto simp: c_inv_def)
    have "c_inv E (s \<lparr> cp_iters := hm_insert a (it \<lparr> it_index := i \<rparr>) (cp_iters s) \<rparr>)" for i
      using inv r keep by (auto simp: c_inv_def c_sinks_def hm_get_insert hm_wf_insert split: if_splits)
    then show ?thesis using inv it r
      by (auto simp: c_metadata_iter_next_def split: option.split)
  qed
  show "\<exists>s'. c_metadata_iter_free (Some a) s = Some s' \<and> c_inv E s'" if "hm_contains a (cp_iters s)"
    using inv that keep
    by (auto simp: c_metadata_iter_free_def hm_contains_iff c_inv_def c_sinks_def hm_get_remove hm_wf_remove split: if_splits)
qed

lemma channel_exec_inv:
  assumes inv: "c_inv E s" and a: "channel_allowed c s"
  shows "\<exists>s'. channel_exec E c s = Some s' \<and> c_inv E s'"
proof (cases c)
  case (Mcap_open opts)
  then show ?thesis using mcap_open_inv [OF inv, of opts] a
    by (cases "do_mcap_open E opts s") (simp add: c_mcap_open_def)
next
  case (Mcap_close w)
  show ?thesis
  proof (cases w)
    case (Some b)
    then obtain x where x: "hm_get (cp_writers s) b = Some x" using a Mcap_close by (auto simp: hm_contains_iff)
    moreover have "writers_ok s" using inv by (simp add: c_inv_def)
    ultimately obtain v st where "x = Some v" "recorder (world (cp_rec s)) (handle_of v) = Some st"
      using writer_handle by blast
    then show ?thesis using mcap_close_inv [OF inv, of b v st] x Some Mcap_close by auto
  qed (use inv Mcap_close in \<open>simp add: c_mcap_close_def\<close>)
next
  case (Mcap_write_metadata w name kvs)
  then show ?thesis using inv a write_metadata_inv [OF inv]
    by (cases w) (simp add: c_mcap_write_metadata_def, simp, blast)
next
  case (Mcap_attach w att)
  then show ?thesis using inv a attach_inv [OF inv] by (cases w) (simp add: c_mcap_attach_def, simp, blast)
next
  case (Create_raw t e sch kvs out)
  then show ?thesis using raw_channel_create_inv [OF inv] a by simp
next
  case (Create_typed enc sch t)
  then show ?thesis using channel_create_inv [OF inv, of enc sch t] a by auto
next
  case (Chan_close ch)
  then show ?thesis using inv a channel_close_inv [OF inv] by (cases ch) (simp_all add: c_channel_close_def)
next
  case (Chan_free ch)
  then show ?thesis using inv a channel_free_inv [OF inv] by (cases ch) (simp_all add: c_channel_free_def)
next
  case (Chan_log now unow ch d t k)
  then show ?thesis using inv a channel_log_inv [OF inv]
    by (cases ch; cases d) (simp_all add: c_channel_log_def)
next
  case (Chan_log_typed now unow ch m t k)
  then show ?thesis using inv a channel_log_inv [OF inv]
    by (cases ch; cases m) (simp_all add: log_msg_to_channel_eq, simp add: log_msg_to_channel_def)
next
  case (Iter_create ch)
  then show ?thesis using inv a iter_inv(1) [OF inv] by (cases ch) (simp add: c_metadata_iter_create_def, simp, blast)
next
  case (Iter_next it out)
  then show ?thesis using inv a iter_inv(2) [OF inv] by (cases it) (simp add: c_metadata_iter_next_def, simp, blast)
next
  case (Iter_free it)
  then show ?thesis using inv a iter_inv(3) [OF inv] by (cases it) (simp_all add: c_metadata_iter_free_def)
next
  case (Context_free null)
  then show ?thesis using context_free_inv [OF inv] by simp
qed

lemma c_program_new_inv: "c_inv E c_program_new"
  by (simp add: c_inv_def c_program_new_def program_new_wf writers_ok_def hm_wf_Nil)
    (simp add: program_new_def context_inner_default_def)

lemma channel_session_inv: "channel_session E s \<Longrightarrow> c_inv E s"
proof (induction rule: channel_session.induct)
  case (session_call s c s')
  then show ?case using channel_exec_inv [of E s c] by auto
qed (rule c_program_new_inv)

section \<open>Metadata\<close>

definition kv_pair :: "FoxgloveKeyValue \<Rightarrow> string \<times> string" where
  "kv_pair kv = (text_of (kv_key kv), text_of (kv_value kv))"

definition lent_pair :: "string \<times> string \<Rightarrow> FoxgloveKeyValue" where
  "lent_pair = (\<lambda>(k, v). \<lparr> kv_key = lent_string k, kv_value = lent_string v \<rparr>)"

text \<open>The loop of a caller that reads the metadata, for at most \<open>n\<close> calls.\<close>

fun iterate :: "nat \<Rightarrow> nat option \<Rightarrow> 'wr c_program \<Rightarrow> FoxgloveKeyValue list option" where
  "iterate 0 it s = Some []"
| "iterate (Suc n) it s =
     (case c_metadata_iter_next it True s of
        None \<Rightarrow> None
      | Some (None, _) \<Rightarrow> Some []
      | Some (Some kv, s') \<Rightarrow> map_option ((#) kv) (iterate n it s'))"

lemma map_of_btree_insert: "map_of (btree_insert k v m) = (map_of m)(k \<mapsto> v)"
  by (simp add: fun_eq_iff btree_insert_get)

lemma btree_fold:
  "map_of (fold (\<lambda>(k, v). btree_insert k v) kvs m) = map_of (rev kvs @ m)"
  "sorted_wrt str_less (map fst m) \<Longrightarrow> sorted_wrt str_less (map fst (fold (\<lambda>(k, v). btree_insert k v) kvs m))"
  by (induction kvs arbitrary: m) (auto simp: map_of_btree_insert map_of_append btree_insert_sorted)

lemma add_metadata_items_Inr:
  "add_metadata_items kvs b = Inr b' \<Longrightarrow>
   b' = b \<lparr> cb_metadata := fold (\<lambda>(k, v). btree_insert k v) (map kv_pair kvs) (cb_metadata b) \<rparr>"
  by (induction kvs arbitrary: b)
    (fastforce simp: and_then_Inr utf8_arg_Inr kv_pair_def text_of_def builder_add_metadata_def)+

definition items :: "FoxgloveKeyValue list option \<Rightarrow> FoxgloveKeyValue list" where
  "items kvs = (case kvs of None \<Rightarrow> [] | Some l \<Rightarrow> l)"

lemma raw_channel_builder_Inr:
  assumes "raw_channel_builder t e sch kvs = Inr b"
  shows "cb_topic b = text_of t \<and> cb_message_encoding b = Some (text_of e)
    \<and> (case sch of None \<Rightarrow> cb_schema b = None | Some c \<Rightarrow> \<exists>n. schema_to_native c = Inr n \<and> cb_schema b = Some n)
    \<and> cb_metadata b = fold (\<lambda>(k, v). btree_insert k v) (map kv_pair (items kvs)) []"
  using assms
  by (cases sch; cases kvs)
    (auto simp: raw_channel_builder_def and_then_Inr utf8_arg_Inr text_of_def Let_def items_def builder_schema_def
      builder_message_encoding_def channel_builder_new_def dest!: add_metadata_items_Inr)

lemma iterate_all:
  assumes "hm_get (cp_iters s) a = Some it" "0 < cp_refs s (it_channel it)"
    and "md = desc_metadata (descriptor (deref (cp_rec s) (it_channel it)))" "length md - it_index it < n"
  shows "iterate n (Some a) s = Some (map lent_pair (drop (it_index it) md))"
  using assms
proof (induction n arbitrary: s it)
  case (Suc n)
  show ?case
  proof (cases "length md \<le> it_index it")
    case True
    then show ?thesis using Suc.prems by (simp add: c_metadata_iter_next_def metadata_iter_next_def)
  next
    case False
    let ?it = "it \<lparr> it_index := it_index it + 1 \<rparr>"
    let ?s = "s \<lparr> cp_iters := hm_insert a ?it (cp_iters s) \<rparr>"
    have i: "it_index it < length md" using False by simp
    have "c_metadata_iter_next (Some a) True s = Some (Some (lent_pair (md ! it_index it)), ?s)"
      using Suc.prems False by (simp add: c_metadata_iter_next_def metadata_iter_next_def lent_pair_def split: prod.split)
    moreover have "iterate n (Some a) ?s = Some (map lent_pair (drop (it_index it + 1) md))"
      using Suc.IH [of ?s ?it] Suc.prems i by (simp add: hm_get_insert)
    ultimately show ?thesis using i by (simp add: Cons_nth_drop_Suc [symmetric])
  qed
qed simp

section \<open>Properties\<close>

text \<open>C24: no call that follows the rules of the C interface for channels and recorders is undefined or
  panics, in any order of calls and whatever the strings, sizes and options are; afterwards the invariant of
  the context holds, every recorder that the caller holds is open, and every channel that the
  caller holds exists.\<close>

theorem c_channel_calls_safe:
  assumes "channel_session E s" "channel_allowed c s"
  shows "\<exists>s'. channel_exec E c s = Some s' \<and> ctx_wf (c_sinks E s') (cp_rec s')
    \<and> (\<forall>a w. hm_get (cp_writers s') a = Some w \<longrightarrow>
        (\<exists>v st. w = Some v \<and> recorder (world (cp_rec s')) (handle_of v) = Some st))
    \<and> (\<forall>r. 0 < cp_refs s' r \<longrightarrow> hm_contains r (heap (cp_rec s')))"
proof -
  obtain s' where s': "channel_exec E c s = Some s'" "c_inv E s'"
    using channel_exec_inv [OF channel_session_inv [OF assms(1)] assms(2)] by blast
  moreover have "writers_ok s'" using s'(2) by (simp add: c_inv_def)
  ultimately show ?thesis using writer_handle [of s'] by (simp add: c_inv_def) blast
qed

definition c_demo_env :: "(unit, mcap_file \<times> nat \<times> nat) c_env" where
  "c_demo_env = \<lparr> env_mcap = demo_mcap, env_create = (\<lambda>_ _. Inr demo_file), env_open = (\<lambda>_ _. Inr 3) \<rparr>"

definition demo_callbacks :: "unit FoxgloveCustomWriter" where
  "demo_callbacks = \<lparr> write_fn = Some (\<lambda>x bs. ((length bs, 0), x)), flush_fn = Some (\<lambda>x. (0, x)), seek_fn = None \<rparr>"

text \<open>Options of a recorder that rejects every channel.\<close>

definition c_demo_options :: "unit FoxgloveCustomWriter option \<Rightarrow> unit FoxgloveMcapOptions" where
  "c_demo_options cb = \<lparr> mo_path = Some (as_bytes ''a''), mo_truncate = False, mo_custom_writer = cb,
     mo_compression = Compression_zstd, mo_profile = None, mo_chunk_size = 0, mo_use_chunks = True,
     mo_disable_seeking = True, mo_emit_statistics = True, mo_emit_summary_offsets = True,
     mo_emit_message_indexes = True, mo_emit_chunk_indexes = True, mo_emit_attachment_indexes = True,
     mo_emit_metadata_indexes = True, mo_repeat_channels = True, mo_repeat_schemas = True,
     mo_sink_channel_filter = Some (\<lambda>_. False) \<rparr>"

abbreviation demo_create :: "unit channel_call" where
  "demo_create \<equiv> Create_raw (Some (as_bytes ''/t'')) (Some (as_bytes ''json'')) None
     (Some [\<lparr> kv_key = Some (as_bytes ''k''), kv_value = Some (as_bytes ''1'') \<rparr>,
            \<lparr> kv_key = Some (as_bytes ''k''), kv_value = Some (as_bytes ''2'') \<rparr>]) True"

lemma demo_strings:
  "as_utf8_str (Some (as_bytes ''/t'')) = Some ''/t''" "as_utf8_str (Some (as_bytes ''json'')) = Some ''json''"
  "as_utf8_str (Some (as_bytes ''k'')) = Some ''k''" "as_utf8_str (Some (as_bytes ''1'')) = Some ''1''"
  "as_utf8_str (Some (as_bytes ''2'')) = Some ''2''"
  by code_simp+

lemma demo_start: "channel_allowed demo_create c_program_new"
    "channel_allowed (Mcap_open opts) c_program_new"
  by (simp_all add: c_program_new_def program_new_def)

theorem c_channel_calls_safe_witness:
  "\<exists>s1. channel_exec c_demo_env demo_create c_program_new = Some s1 \<and> ctx_wf (c_sinks c_demo_env s1) (cp_rec s1)"
  using c_channel_calls_safe [OF session_new demo_start(1), of c_demo_env] by blast

text \<open>C25: opening a recorder through the C interface either fails and changes nothing, or returns a new
  recorder whose file is empty, with the options of the caller, on a file or on callbacks that are all present.
  The recorder hears the channels that \<open>sink_channel_filter\<close> admits when it writes to a file, and
  every channel when it writes to callbacks, where the filter is not used.\<close>

theorem c_mcap_open_exact:
  assumes "channel_session E s" "channel_allowed (Mcap_open opts) s" "c_mcap_open E opts s = ((e, a), s')"
  shows "(e \<noteq> C_Ok \<longrightarrow> a = None \<and> s' = s)
    \<and> (e = C_Ok \<longrightarrow> (\<exists>w v wopts dest wr. a = Some w \<and> hm_get (cp_writers s') w = Some (Some v)
        \<and> to_write_options opts = Inr wopts \<and> destination_ok opts dest \<and> env_create E wopts dest = Inr wr
        \<and> recorder (world (cp_rec s')) (handle_of v) = Some (writer_state_new wr)
        \<and> (\<forall>r. registered (cp_rec s) r \<longrightarrow> hears (cp_rec s') (handle_of v) r =
            (mo_custom_writer opts \<noteq> None \<or> admits (mo_sink_channel_filter opts) (descriptor (deref (cp_rec s) r))))))"
proof -
  obtain res where o: "do_mcap_open E opts s = (res, s')" and r: "result_to_c res True = (e, a)"
    using assms(3) by (auto simp: c_mcap_open_def split: prod.splits)
  have room: "unat (mw_next_sink_id (world (cp_rec s))) + 1 < 2 ^ 64" using assms(2) by simp
  note q = mcap_open_inv [OF channel_session_inv [OF assms(1)] room o]
  have f: "admits (effective_filter opts) d = (mo_custom_writer opts \<noteq> None \<or> admits (mo_sink_channel_filter opts) d)" for d
    by (simp add: effective_filter_def split: option.split)
  show ?thesis
  proof (cases res)
    case (Inl x)
    then show ?thesis using q r by (auto simp: result_to_c_def)
  next
    case (Inr w)
    then show ?thesis using q r unfolding opened_def f by (auto simp: result_to_c_def) blast
  qed
qed

theorem c_mcap_open_exact_witness:
  "\<exists>s1 w s2 v. channel_exec c_demo_env demo_create c_program_new = Some s1
    \<and> c_mcap_open c_demo_env (c_demo_options (Some demo_callbacks)) s1 = ((C_Ok, Some w), s2)
    \<and> hm_get (cp_writers s2) w = Some (Some v) \<and> hears (cp_rec s2) (handle_of v) 1"
proof -
  obtain s1 where s1: "channel_exec c_demo_env demo_create c_program_new = Some s1" by simp
  have sess: "channel_session c_demo_env s1" by (rule session_call [OF session_new demo_start(1) s1])
  let ?o = "c_demo_options (Some demo_callbacks)"
  have ev: "ctx_alive (cp_rec s1)" "mw_next_sink_id (world (cp_rec s1)) = 1" "registered (cp_rec s1) 1"
    using s1 by (auto simp: c_raw_channel_create_def do_raw_channel_create_def raw_channel_builder_def utf8_arg_def demo_strings
        builder_schema_def builder_message_encoding_def channel_builder_new_def builder_add_metadata_def c_program_new_def
        hand_out_def c_sinks_def ctx_eval)
  obtain e a s2 where op: "c_mcap_open c_demo_env ?o s1 = ((e, a), s2)" by (metis prod.exhaust)
  have "e = C_Ok"
    using op by (auto simp: c_mcap_open_def do_mcap_open_def to_write_options_def c_demo_options_def as_utf8_str_def open_custom_def
        demo_callbacks_def builder_create_def mcap_create_def mcap_sink_new_def c_demo_env_def Let_def result_to_c_def)
  then show ?thesis
    using c_mcap_open_exact [OF sess _ op] ev s1 op by (auto simp: c_demo_options_def)
qed

text \<open>C26: a channel that was created through the C interface has the topic, encoding and schema that were
  given, and reading its metadata through an iterator returns every key once, in order, with the
  value that was given last, and then ends, also where the call returned a channel that existed.\<close>

theorem c_channel_roundtrip:
  assumes "channel_session E s" "channel_allowed (Create_raw t e sch kvs True) s"
    and "c_raw_channel_create E t e sch kvs True s = ((C_Ok, Some r), s')"
  shows "\<exists>it s1 md. c_metadata_iter_create (Some r) s' = Some (Some it, s1)
    \<and> (\<forall>n > length md. iterate n (Some it) s1 = Some (map lent_pair md))
    \<and> sorted_wrt str_less (map fst md) \<and> map_of md = map_of (rev (map kv_pair (items kvs)))
    \<and> c_channel_get_topic (Some (deref (cp_rec s') r)) = Some (as_bytes (text_of t))
    \<and> c_channel_get_message_encoding (Some (deref (cp_rec s') r)) = Some (as_bytes (text_of e))
    \<and> (case sch of
         None \<Rightarrow> c_channel_get_schema (Some (deref (cp_rec s') r)) True = (C_ValueError, None)
       | Some c \<Rightarrow> \<exists>n c'. schema_to_native c = Inr n \<and> schema_to_native c' = Inr n
           \<and> c_channel_get_schema (Some (deref (cp_rec s') r)) True = (C_Ok, Some c'))"
proof -
  have inv: "c_inv E s" by (rule channel_session_inv [OF assms(1)])
  have room: "unat (next_channel_id (cp_rec s)) + 1 < 2 ^ 64" using assms(2) by simp
  obtain b p where b: "raw_channel_builder t e sch kvs = Inr b" and c: "build_raw (c_sinks E s) b (cp_rec s) = (Inr r, p)"
    and s': "s' = hand_out r (s \<lparr> cp_rec := p \<rparr>)"
    using assms(3) by (auto simp: c_raw_channel_create_def do_raw_channel_create_def result_to_c_def split: sum.splits prod.splits)
  note f = raw_channel_builder_Inr [OF b]
  let ?d = "descriptor (deref (cp_rec s') r)" and ?md = "fold (\<lambda>(k, v). btree_insert k v) (map kv_pair (items kvs)) []"
  have d: "desc_topic ?d = text_of t" "desc_message_encoding ?d = text_of e" "desc_metadata ?d = ?md" "desc_schema ?d = cb_schema b"
    using build_raw_result [OF c_inv_wf [OF inv] room c] f
    by (auto simp: s' hand_out_def descriptor_matches_def channel_descriptor_new_def)
  define s1 where "s1 = s' \<lparr> cp_iters := hm_insert (cp_next s') \<lparr> it_channel = r, it_index = 0 \<rparr> (cp_iters s'), cp_next := cp_next s' + 1 \<rparr>"
  have it: "c_metadata_iter_create (Some r) s' = Some (Some (cp_next s'), s1)"
    by (simp add: c_metadata_iter_create_def s1_def s' hand_out_def Let_def)
  have held: "0 < cp_refs s1 r" by (simp add: s1_def s' hand_out_def)
  have rec: "cp_rec s1 = cp_rec s'" by (simp add: s1_def)
  have "iterate n (Some (cp_next s')) s1 = Some (map lent_pair ?md)" if "length ?md < n" for n
    using iterate_all [of s1 "cp_next s'" "\<lparr> it_channel = r, it_index = 0 \<rparr>" ?md n] that held d(3) rec
    by (simp add: s1_def hm_get_insert)
  moreover have "sorted_wrt str_less (map fst ?md)" by (rule btree_fold(2)) simp
  moreover have "map_of ?md = map_of (rev (map kv_pair (items kvs)))" by (simp add: btree_fold(1))
  moreover have "case sch of
         None \<Rightarrow> c_channel_get_schema (Some (deref (cp_rec s') r)) True = (C_ValueError, None)
       | Some c \<Rightarrow> \<exists>n c'. schema_to_native c = Inr n \<and> schema_to_native c' = Inr n
           \<and> c_channel_get_schema (Some (deref (cp_rec s') r)) True = (C_Ok, Some c')"
    using f d(4) schema_lent by (fastforce simp: c_channel_get_schema_def split: option.splits)
  ultimately show ?thesis using it d(1,2)
    by (intro exI [of _ "cp_next s'"] exI [of _ s1] exI [of _ ?md])
      (simp add: c_channel_get_topic_def c_channel_get_message_encoding_def raw_channel_topic_def)
qed

theorem c_channel_roundtrip_witness:
  "\<exists>s1 it s2 md. channel_exec c_demo_env demo_create c_program_new = Some s1
    \<and> c_metadata_iter_create (Some 1) s1 = Some (Some it, s2)
    \<and> iterate (Suc (length md)) (Some it) s2 = Some (map lent_pair md) \<and> map_of md ''k'' = Some ''2''"
proof -
  let ?kvs = "Some [\<lparr> kv_key = Some (as_bytes ''k''), kv_value = Some (as_bytes ''1'') \<rparr>,
            \<lparr> kv_key = Some (as_bytes ''k''), kv_value = Some (as_bytes ''2'') \<rparr>]"
  let ?c = "c_raw_channel_create c_demo_env (Some (as_bytes ''/t'')) (Some (as_bytes ''json'')) None ?kvs True c_program_new"
  have "fst ?c = (C_Ok, Some 1)"
    by (simp add: c_raw_channel_create_def do_raw_channel_create_def raw_channel_builder_def utf8_arg_def demo_strings
        builder_schema_def builder_message_encoding_def channel_builder_new_def builder_add_metadata_def c_program_new_def
        result_to_c_def ctx_eval)
  then obtain s1 where c: "?c = ((C_Ok, Some 1), s1)" by (metis prod.collapse)
  then have s1: "channel_exec c_demo_env demo_create c_program_new = Some s1" by simp
  have "map_of (rev (map kv_pair (items ?kvs))) ''k'' = Some ''2''"
    by (simp add: kv_pair_def items_def text_of_def demo_strings)
  then show ?thesis using c_channel_roundtrip [OF session_new demo_start(1) c] s1 by fastforce
qed

end
