(* ===== verification/Server_Api.thy ===== *)
theory Server_Api
  imports Server_Invariant
begin

text \<open>
  The public interface of the websocket server (\<open>websocket_server.rs\<close>): the builder, which fills in
  the options, and starting and stopping a server through its handle. The TLS identity and the filter of
  the channels are fields of the builder next to the options; the sessions of the server read the filter
  from their environment (\<open>env_filter\<close>). The handle forwards everything else to the
  server.
\<close>

section \<open>The builder\<close>

record WebSocketServer =
  wb_host :: string
  wb_port :: u16
  wb_options :: ServerOptions
  wb_tls_identity :: "(u8 list \<times> u8 list) option"
  wb_channel_filter :: "(ChannelDescriptor \<Rightarrow> bool) option"

text \<open>\<open>generated\<close> is the result of \<open>generate_session_id\<close>.\<close>

definition websocket_server_new :: "string \<Rightarrow> WebSocketServer" where
  "websocket_server_new generated = \<lparr> wb_host = ''127.0.0.1'', wb_port = 8765,
     wb_options = \<lparr> so_session_id = Some generated, so_name = None, so_message_backlog_size = None, so_listener = None,
       so_capabilities = None, so_services = [], so_supported_encodings = None, so_fetch_asset_handler = False,
       so_server_info = None, so_playback_time_range = None \<rparr>,
     wb_tls_identity = None, wb_channel_filter = None \<rparr>"

definition server_name :: "string \<Rightarrow> WebSocketServer \<Rightarrow> WebSocketServer" where
  "server_name name b = b \<lparr> wb_options := (wb_options b) \<lparr> so_name := Some name \<rparr> \<rparr>"

definition server_bind :: "string \<Rightarrow> u16 \<Rightarrow> WebSocketServer \<Rightarrow> WebSocketServer" where
  "server_bind host port b = b \<lparr> wb_host := host, wb_port := port \<rparr>"

definition server_channel_filter :: "(ChannelDescriptor \<Rightarrow> bool) \<Rightarrow> WebSocketServer \<Rightarrow> WebSocketServer" where
  "server_channel_filter f b = b \<lparr> wb_channel_filter := Some f \<rparr>"

definition server_tls :: "u8 list \<times> u8 list \<Rightarrow> WebSocketServer \<Rightarrow> WebSocketServer" where
  "server_tls identity b = b \<lparr> wb_tls_identity := Some identity \<rparr>"

definition server_capabilities :: "Capability list \<Rightarrow> WebSocketServer \<Rightarrow> WebSocketServer" where
  "server_capabilities cs b = b \<lparr> wb_options := (wb_options b) \<lparr> so_capabilities := Some (hs_from_iter cs) \<rparr> \<rparr>"

definition server_server_info :: "(string, string) hash_map \<Rightarrow> WebSocketServer \<Rightarrow> WebSocketServer" where
  "server_server_info m b = b \<lparr> wb_options := (wb_options b) \<lparr> so_server_info := Some m \<rparr> \<rparr>"

definition server_playback_time_range :: "u64 \<Rightarrow> u64 \<Rightarrow> WebSocketServer \<Rightarrow> WebSocketServer" where
  "server_playback_time_range t t' b = b \<lparr> wb_options := (wb_options b) \<lparr> so_playback_time_range := Some (t, t') \<rparr> \<rparr>"

definition server_listener :: "listener \<Rightarrow> WebSocketServer \<Rightarrow> WebSocketServer" where
  "server_listener l b = b \<lparr> wb_options := (wb_options b) \<lparr> so_listener := Some l \<rparr> \<rparr>"

definition server_fetch_asset_handler :: "WebSocketServer \<Rightarrow> WebSocketServer" where
  "server_fetch_asset_handler b = b \<lparr> wb_options := (wb_options b) \<lparr> so_fetch_asset_handler := True \<rparr> \<rparr>"

definition server_message_backlog_size :: "nat \<Rightarrow> WebSocketServer \<Rightarrow> WebSocketServer" where
  "server_message_backlog_size n b = b \<lparr> wb_options := (wb_options b) \<lparr> so_message_backlog_size := Some n \<rparr> \<rparr>"

text \<open>Services of the same name replace each other.\<close>

definition server_services :: "Service list \<Rightarrow> WebSocketServer \<Rightarrow> WebSocketServer" where
  "server_services services b = b \<lparr> wb_options := (wb_options b)
     \<lparr> so_services := fold (\<lambda>service m. hm_insert (svc_name service) service m) services [] \<rparr> \<rparr>"

definition server_supported_encodings :: "string list \<Rightarrow> WebSocketServer \<Rightarrow> WebSocketServer" where
  "server_supported_encodings es b = b \<lparr> wb_options := (wb_options b) \<lparr> so_supported_encodings := Some (hs_from_iter es) \<rparr> \<rparr>"

definition server_session_id :: "string \<Rightarrow> WebSocketServer \<Rightarrow> WebSocketServer" where
  "server_session_id i b = b \<lparr> wb_options := (wb_options b) \<lparr> so_session_id := Some i \<rparr> \<rparr>"

section \<open>Starting and stopping\<close>

text \<open>What is outside of the program: building the TLS configuration, and binding a socket, which gives
  the port. The server is created on a new context.\<close>

record net_env =
  net_tls :: "(u8 list \<times> u8 list) option \<Rightarrow> (unit, FoxgloveError) result"
  net_bind :: "string \<Rightarrow> u16 \<Rightarrow> (u16, string) result"

definition create_server :: "net_env \<Rightarrow> WebSocketServer \<Rightarrow> (Server, FoxgloveError) result may_panic" where
  "create_server N b =
     (case net_tls N (wb_tls_identity b) of
        Inl e \<Rightarrow> Some (Inl e)
      | Inr _ \<Rightarrow> map_option Inr (server_new [] (wb_options b)))"

definition start_blocking :: "net_env \<Rightarrow> WebSocketServer \<Rightarrow> (u16 \<times> prog, FoxgloveError) result may_panic" where
  "start_blocking N b = do {
     server \<leftarrow> create_server N b;
     (case server of
        Inl e \<Rightarrow> Some (Inl e)
      | Inr sv \<Rightarrow>
          (case server_start (net_bind N (wb_host b) (wb_port b)) (world_new sv) of
             (Inl e, _) \<Rightarrow> Some (Inl e)
           | (Inr port, w) \<Rightarrow> Some (Inr (port, program_new w))))
   }"

text \<open>\<open>None\<close> is the panic of \<open>expect\<close>.\<close>

definition wsh_stop :: "prog \<Rightarrow> prog may_panic" where
  "wsh_stop s = (case server_stop (world s) of (stopped, w) \<Rightarrow> if stopped then Some (s \<lparr> world := w \<rparr>) else None)"

section \<open>Lemmas\<close>

lemmas builder_defs = websocket_server_new_def server_name_def server_bind_def server_channel_filter_def server_tls_def
  server_capabilities_def server_server_info_def server_playback_time_range_def server_listener_def
  server_fetch_asset_handler_def server_message_backlog_size_def server_services_def server_supported_encodings_def
  server_session_id_def

text \<open>The last service of each name is the one that is kept.\<close>

lemma server_services_last:
  "hm_get (so_services (wb_options (server_services services b))) n =
     map_of (rev (map (\<lambda>s. (svc_name s, s)) services)) n"
proof -
  have "hm_get (fold (\<lambda>service m. hm_insert (svc_name service) service m) ss m) n =
      (case map_of (rev (map (\<lambda>s. (svc_name s, s)) ss)) n of None \<Rightarrow> hm_get m n | Some s \<Rightarrow> Some s)"
    for ss :: "Service list" and m
    by (induction ss arbitrary: m) (auto simp: hm_get_insert map_add_def split: option.splits)
  from this [of services "[]"] show ?thesis
    by (simp add: server_services_def split: option.split)
qed

lemma server_new_fields:
  assumes "server_new generated opts = Some sv"
  shows "sv_message_backlog_size sv =
      word_of_nat (case so_message_backlog_size opts of None \<Rightarrow> DEFAULT_MESSAGE_BACKLOG_SIZE | Some n \<Rightarrow> n)"
    "\<not> sv_tasks sv" "\<not> sv_cancelled sv"
  using assms by (auto simp: server_new_def Let_def case_prod_beta split: if_splits bind_splits)

text \<open>A server that was started through the interface is in a state that the server reaches.\<close>

lemma start_blocking_reachable:
  assumes "start_blocking N b = Some (Inr (port, s))"
    and "\<forall>n. so_message_backlog_size (wb_options b) = Some n \<longrightarrow> (word_of_nat n :: u32) \<noteq> 0"
  shows "server_reachable E s \<and> sv_tasks (server_of s) \<and> net_bind N (wb_host b) (wb_port b) = Inr port
    \<and> (\<exists>sv. server_new [] (wb_options b) = Some sv \<and> server_of s = sv \<lparr> sv_tasks := True \<rparr>)"
proof -
  obtain sv where c: "create_server N b = Some (Inr sv)"
    using assms(1) by (cases "create_server N b"; cases "the (create_server N b)") (auto simp: start_blocking_def)
  then have sv: "server_new [] (wb_options b) = Some sv" by (auto simp: create_server_def split: sum.splits)
  obtain w where st: "server_start (net_bind N (wb_host b) (wb_port b)) (world_new sv) = (Inr port, w)" and s: "s = program_new w"
    using assms(1) by (auto simp: start_blocking_def c split: prod.splits sum.splits)
  have backlog: "sv_message_backlog_size sv \<noteq> 0"
    using server_new_fields(1) [OF sv] assms(2)
    by (cases "so_message_backlog_size (wb_options b)") (simp_all add: DEFAULT_MESSAGE_BACKLOG_SIZE_def)
  obtain port' where b: "net_bind N (wb_host b) (wb_port b) = Inr port'" "port' = port"
    and w: "w = update_server (\<lambda>s. s \<lparr> sv_tasks := True \<rparr>) (world_new sv)"
    using st by (auto simp: server_start_def Let_def split: if_splits sum.splits)
  note new = server_new_fields(2,3) [OF sv]
  have "server_exec E (Start_server (Inr [])) (program_new (world_new sv)) = Some s"
    using new by (simp add: s w in_world_def program_new_def server_start_def Let_def world_new_def)
  then have "server_reachable E s"
    using server_reach_step [OF server_reach_new [OF sv backlog], of "Start_server (Inr [])"] by simp
  then show ?thesis using b sv by (simp add: s w server_of_def program_new_def update_server_def world_new_def)
qed

lemma wsh_stop_exec: "wsh_stop s = Some s' \<Longrightarrow> server_exec E Stop_server s = Some s'"
  by (auto simp: wsh_stop_def in_world_def split: prod.splits if_splits)

lemma wsh_stop_started: "sv_tasks (server_of s) \<Longrightarrow> \<exists>s'. wsh_stop s = Some s'"
  by (simp add: wsh_stop_def server_stop_def server_of_def Let_def case_prod_beta)

section \<open>Only start and stop touch the tasks\<close>

text \<open>Whether the server runs; a client or a call of the application that neither starts nor stops the
  server leaves it as it is.\<close>

definition running :: "prog \<Rightarrow> bool" where
  "running s \<longleftrightarrow> sv_tasks (server_of s)"

named_theorems running_simps

lemma fold_running:
  "(\<And>x w. sv_tasks (ww_server (f x w)) = sv_tasks (ww_server w)) \<Longrightarrow> sv_tasks (ww_server (fold f xs w)) = sv_tasks (ww_server w)"
  by (induction xs arbitrary: w) simp_all

lemma running_world [running_simps]:
  "running (in_world f s) = sv_tasks (ww_server (f (world s)))" "running (set_session cid c s) = running s"
  "running (to_client cid g s) = running s" "running (s \<lparr> world := w \<rparr>) = sv_tasks (ww_server w)"
  by (simp_all add: running_def server_of_def in_world_def set_session_def to_client_def)

lemma running_of: "sv_tasks (ww_server (world s)) = running s"
  by (simp add: running_def server_of_def)

lemma tasks_clients [running_simps]:
  "sv_tasks (ww_server (for_clients (\<lambda>cid. update_session cid (h cid)) w)) = sv_tasks (ww_server w)"
  "sv_tasks (ww_server (fold (\<lambda>x. notify (c x)) xs w)) = sv_tasks (ww_server w)"
  by (simp add: for_clients_def) (rule fold_running, simp)

lemma tasks_world [running_simps]:
  "sv_tasks (ww_server (broadcast_time E t w)) = sv_tasks (ww_server w)"
  "sv_tasks (ww_server (broadcast_playback_state E p w)) = sv_tasks (ww_server w)"
  "sv_tasks (ww_server (remove_status E ids w)) = sv_tasks (ww_server w)"
  "sv_tasks (ww_server (set_params ps w)) = sv_tasks (ww_server w)"
  "sv_tasks (ww_server (set_graph g w)) = sv_tasks (ww_server w)"
  "sv_tasks (ww_server (service_respond E i r w)) = sv_tasks (ww_server w)"
  "sv_tasks (ww_server (service_responder_drop E i w)) = sv_tasks (ww_server w)"
  "sv_tasks (ww_server (set_encoding i enc w)) = sv_tasks (ww_server w)"
  "sv_tasks (ww_server (asset_respond E i r w)) = sv_tasks (ww_server w)"
  "sv_tasks (ww_server (asset_responder_drop E i w)) = sv_tasks (ww_server w)"
  by (simp_all add: broadcast_time_def broadcast_playback_state_def remove_status_def tasks_clients set_params_def
      set_graph_def service_respond_def service_responder_drop_def set_encoding_def asset_respond_def asset_responder_drop_def Let_def)

lemma tasks_status [running_simps]: "sv_tasks (ww_server (publish_status E st w)) = sv_tasks (ww_server w)"
  unfolding publish_status_def for_clients_def
  by (rule fold_running) (auto simp: send_status_to_def split: option.split)

lemma tasks_replace_graph [running_simps]:
  "sv_tasks (ww_server (snd (replace_connection_graph E g w))) = sv_tasks (ww_server w)"
  by (simp add: replace_connection_graph_def Let_def case_prod_beta update_session_if running_simps)

lemma tasks_subscriptions [running_simps]:
  "sv_tasks (ww_server (subscribe_parameters cid names w)) = sv_tasks (ww_server w)"
  "sv_tasks (ww_server (unsubscribe_parameters cid names w)) = sv_tasks (ww_server w)"
  "sv_tasks (ww_server (unsubscribe_all_parameters cid w)) = sv_tasks (ww_server w)"
  "sv_tasks (ww_server (snd (subscribe_connection_graph cid w))) = sv_tasks (ww_server w)"
  "sv_tasks (ww_server (snd (unsubscribe_connection_graph cid w))) = sv_tasks (ww_server w)"
  by (simp_all add: subscribe_parameters_def unsubscribe_parameters_def
      unsubscribe_all_parameters_def subscribe_connection_graph_def unsubscribe_connection_graph_def
      Let_def case_prod_beta update_session_if running_simps)

lemma tasks_parameters [running_simps]: "sv_tasks (ww_server (publish_parameter_values E ps w)) = sv_tasks (ww_server w)"
  unfolding publish_parameter_values_def for_clients_def
  by (simp add: fold_running Let_def)

text \<open>The sessions as sinks do not touch the server, so neither does the context.\<close>

lemma tasks_sinks: "sink_invariant (ws_sinks E) (\<lambda>w. sv_tasks (ww_server w) = b)"
  by unfold_locales
    (auto simp: ws_sinks_def on_sink_def session_log_to_def split: option.splits)

lemma running_ctx [running_simps]:
  "running (snd (build_raw (ws_sinks E) b s)) = running s"
  "running (snd (ctx_add_sink (ws_sinks E) k s)) = running s"
  "running (channel_close (ws_sinks E) r s) = running s"
  "running (channel_log (ws_sinks E) now unow r msg opts target s) = running s"
  "running (ctx_drop (ws_sinks E) s) = running s"
  "running (ctx_subscribe_channels i ids s) = running s"
  "running (ctx_unsubscribe_channels i ids s) = running s"
  "running (snd (ctx_remove_sink i s)) = running s"
  using sink_invariant.build_keeps [OF tasks_sinks, of s "running s" E b]
    sink_invariant.add_sink_keeps [OF tasks_sinks, of s "running s" E k]
    sink_invariant.remove_channel_keeps [OF tasks_sinks, of s "running s" E "raw_channel_id (deref s r)"]
    sink_invariant.log_keeps [OF tasks_sinks, of s "running s" E now unow r msg opts target]
    sink_invariant.clear_keeps [OF tasks_sinks, of s "running s" E]
  by (simp_all add: running_def server_of_def channel_close_def ctx_drop_def)

section \<open>Handlers keep the server running\<close>

lemma running_subscribe_loop: "subscribe_loop E cid l s = Some s' \<Longrightarrow> running s' = running s"
  by (induction E cid l s rule: subscribe_loop.induct)
    (simp_all add: running_simps running_of Let_def split: option.splits if_splits bind_splits prod.splits)

lemma running_advertise_loop [running_simps]: "running (advertise_loop E cid l s) = running s"
  by (induction l arbitrary: s) (auto simp: running_simps running_of Let_def split: option.split prod.split)

lemma running_unsubscribe [running_simps]: "running (unsubscribe_channel_ids cid ids s) = running s"
  by (simp add: unsubscribe_channel_ids_def Let_def running_simps running_of split: option.split)

lemmas handler_defs = on_subscribe_def on_unsubscribe_def on_advertise_def on_unadvertise_def on_message_data_def
  on_get_parameters_def on_set_parameters_def on_parameters_subscribe_def on_parameters_unsubscribe_def on_service_call_def
  on_fetch_asset_def on_connection_graph_subscribe_def on_connection_graph_unsubscribe_def on_playback_control_request_def

lemma running_dispatch: "dispatch E cid m s = Some s' \<Longrightarrow> running s' = running s"
proof (cases m)
  case (CSubscribe subs)
  then show "dispatch E cid m s = Some s' \<Longrightarrow> running s' = running s"
    by (auto simp: on_subscribe_def bind_eq_Some_conv running_simps dest!: running_subscribe_loop split: option.splits)
qed (auto simp: handler_defs running_simps running_of Let_def bind_eq_Some_conv case_prod_beta split: option.splits if_splits bool.splits)

lemma running_handle_message: "handle_message E cid m s = Some s' \<Longrightarrow> running s' = running s"
  by (auto simp: handle_message_def running_simps dest: running_dispatch
      split: option.splits sum.splits ParseError.splits if_splits)

lemma running_announce [running_simps]: "running (announce E m s) = running s"
  by (simp add: announce_def Let_def running_simps running_of)

lemma running_services [running_simps]: "running (remove_services E names s) = running s"
  by (simp add: remove_services_def Let_def case_prod_beta running_simps running_of)

lemma running_add_services: "add_services E ss s = Some (r, s') \<Longrightarrow> running s' = running s"
  by (auto simp: add_services_def Let_def bind_eq_Some_conv running_simps running_of split: if_splits sum.splits option.splits)

lemma running_clear_session [running_simps]: "running (clear_session E lib gen i s) = running s"
  by (simp add: clear_session_def Let_def running_simps running_of)

lemma running_accept [running_simps]: "running (snd (accept_client E lib offered sent s)) = running s"
  by (simp add: accept_client_def register_client_and_advertise_def Let_def running_simps running_of
      split: option.split prod.split bool.split)

lemma running_unregister: "unregister_client E cid s = Some s' \<Longrightarrow> running s' = running s"
  by (auto simp: unregister_client_def on_disconnect_def Let_def bind_eq_Some_conv running_simps running_of
      split: option.splits if_splits)

lemma running_exec:
  assumes "server_exec E op s = Some s'" "op \<noteq> Stop_server" "\<And>bound. op \<noteq> Start_server bound"
  shows "running s' = running s"
  using assms
  by (cases op)
    (auto simp: running_simps running_of dest: running_handle_message running_add_services running_unregister)

end
