(* ===== verification/C_Server.thy ===== *)
theory C_Server
  imports Server_Api C_Graph
begin

text \<open>
  The server of the C bindings: \<open>src/c/src/server.rs\<close>, \<open>service.rs\<close>, \<open>fetch_asset.rs\<close>,
  \<open>playback_state.rs\<close> and \<open>playback_control_request.rs\<close>. The parameter functions are in
  \<open>C_Parameter\<close>. The caller owns the box of the server, the boxes of the services that it has not
  registered, and the responders of the requests that it has not answered. The server is started on a
  context of its own; the pointer to a context in the options is not modelled. Using a pointer that the caller
  does not own is undefined behaviour, the value \<open>None\<close>, as is a panic.
\<close>

text \<open>\<open>FoxgloveString::from\<close>.\<close>

definition lend :: "string \<Rightarrow> FoxgloveString" where
  "lend s = Some (as_bytes s)"

section \<open>Services\<close>

record FoxgloveServiceMessageSchema =
  fms_encoding :: FoxgloveString
  fms_schema :: FoxgloveSchema

definition message_schema_to_native :: "FoxgloveServiceMessageSchema \<Rightarrow> (string \<times> Schema, FoxgloveError) result" where
  "message_schema_to_native m =
     and_then (utf8_arg [] (fms_encoding m)) (\<lambda>encoding.
     and_then (schema_to_native (fms_schema m)) (\<lambda>schema. Inr (encoding, schema)))"

record FoxgloveServiceSchema =
  fss_name :: FoxgloveString
  fss_request :: "FoxgloveServiceMessageSchema option"
  fss_response :: "FoxgloveServiceMessageSchema option"

definition service_schema_to_native :: "FoxgloveServiceSchema \<Rightarrow> (ServiceSchema, FoxgloveError) result" where
  "service_schema_to_native s =
     and_then (utf8_arg [] (fss_name s)) (\<lambda>name.
     let schema = service_schema_new name in
     and_then (case fss_request s of
         None \<Rightarrow> Inr schema
       | Some request \<Rightarrow> and_then (message_schema_to_native request) (\<lambda>(encoding, request_schema).
           Inr (service_schema_with_request encoding request_schema schema))) (\<lambda>schema.
     case fss_response s of
         None \<Rightarrow> Inr schema
       | Some response \<Rightarrow> and_then (message_schema_to_native response) (\<lambda>(encoding, response_schema).
           Inr (service_schema_with_response encoding response_schema schema))))"

text \<open>What the handler of a service passes to the callback, next to the responder.\<close>

record FoxgloveServiceRequest =
  fsr_service_name :: FoxgloveString
  fsr_client_id :: u32
  fsr_call_id :: u32
  fsr_encoding :: FoxgloveString
  fsr_payload :: "u8 list"

definition service_request_from :: "Request \<Rightarrow> FoxgloveServiceRequest" where
  "service_request_from r = \<lparr> fsr_service_name = lend (svc_name (rq_service r)), fsr_client_id = rq_client_id r,
     fsr_call_id = rq_call_id r, fsr_encoding = lend (rq_encoding r), fsr_payload = rq_payload r \<rparr>"

section \<open>State\<close>

text \<open>The handle holds the port. \<open>cs_server\<close> is the content of the box of the server, \<open>None\<close>
  when there is no such box. A responder is the position of its request among those that are not answered.\<close>

type_synonym FoxgloveWebSocketServer = "u16 option"

record c_server =
  cs_prog :: prog
  cs_server :: "FoxgloveWebSocketServer option"
  cs_services :: "(nat, Service) hash_map"
  cs_next_service_id :: u32
  cs_next :: nat

text \<open>The test of the pointer and of the box that most functions start with.\<close>

definition on_server ::
  "bool \<Rightarrow> c_server \<Rightarrow> (c_server \<Rightarrow> (c_error \<times> c_server) option) \<Rightarrow> (c_error \<times> c_server) option" where
  "on_server server s f =
     (if \<not> server then Some (C_ValueError, s)
      else do {
        b \<leftarrow> cs_server s;
        (case b of None \<Rightarrow> Some (C_SinkClosed, s) | Some _ \<Rightarrow> f s)
      })"

definition to_server :: "(ws_world \<Rightarrow> ws_world) \<Rightarrow> c_server \<Rightarrow> c_server" where
  "to_server f s = s \<lparr> cs_prog := in_world f (cs_prog s) \<rparr>"

section \<open>Functions for services\<close>

definition c_service_create ::
  "bool \<Rightarrow> FoxgloveString \<Rightarrow> FoxgloveServiceSchema option \<Rightarrow> bool \<Rightarrow> c_server \<Rightarrow> ((c_error \<times> nat option) \<times> c_server) option" where
  "c_service_create out name schema callback s =
     (if \<not> out then Some ((C_ValueError, None), s)
      else case as_utf8_str name of
        None \<Rightarrow> Some ((C_Utf8Error, None), s)
      | Some name \<Rightarrow>
          (case schema of
             None \<Rightarrow> Some ((C_ValueError, None), s)
           | Some schema \<Rightarrow>
               (case service_schema_to_native schema of
                  Inl e \<Rightarrow> Some ((c_error_from e, None), s)
                | Inr schema \<Rightarrow>
                    if \<not> callback then Some ((C_ValueError, None), s)
                    else do {
                      (service, n) \<leftarrow> service_build name schema (cs_next_service_id s);
                      let a = cs_next s;
                      Some ((C_Ok, Some a), s \<lparr> cs_services := hm_insert a service (cs_services s),
                        cs_next_service_id := n, cs_next := a + 1 \<rparr>)
                    })))"

definition c_service_free :: "nat option \<Rightarrow> c_server \<Rightarrow> c_server option" where
  "c_service_free service s =
     (case service of
        None \<Rightarrow> Some s
      | Some a \<Rightarrow> do {
          _ \<leftarrow> hm_get (cs_services s) a;
          Some (s \<lparr> cs_services := hm_remove a (cs_services s) \<rparr>)
        })"

definition c_service_set_response_encoding :: "nat option \<Rightarrow> FoxgloveString \<Rightarrow> c_server \<Rightarrow> (c_error \<times> c_server) option" where
  "c_service_set_response_encoding responder encoding s =
     (case responder of
        None \<Rightarrow> Some (C_ValueError, s)
      | Some i \<Rightarrow>
          if length (ww_service_calls (world (cs_prog s))) \<le> i then None
          else (case as_utf8_str encoding of
                  None \<Rightarrow> Some (C_Utf8Error, s)
                | Some encoding \<Rightarrow> Some (C_Ok, to_server (set_encoding i encoding) s)))"

definition c_service_respond_ok :: "ws_env \<Rightarrow> nat \<Rightarrow> u8 list \<Rightarrow> c_server \<Rightarrow> c_server option" where
  "c_service_respond_ok E responder data s =
     (if length (ww_service_calls (world (cs_prog s))) \<le> responder then None
      else Some (to_server (service_respond E responder (Inr data)) s))"

text \<open>\<open>disp\<close> is \<open>Display\<close> of the \<open>Utf8Error\<close> for the bytes.\<close>

definition error_message :: "(u8 list \<Rightarrow> string) \<Rightarrow> FoxgloveString \<Rightarrow> string" where
  "error_message disp message =
     (case as_utf8_str message of
        Some s \<Rightarrow> s
      | None \<Rightarrow> ''Server produced an invalid error message: '' @ disp (case message of None \<Rightarrow> [] | Some bs \<Rightarrow> bs))"

definition c_service_respond_error :: "ws_env \<Rightarrow> (u8 list \<Rightarrow> string) \<Rightarrow> nat \<Rightarrow> FoxgloveString \<Rightarrow> c_server \<Rightarrow> c_server option" where
  "c_service_respond_error E disp responder message s =
     (if length (ww_service_calls (world (cs_prog s))) \<le> responder then None
      else Some (to_server (service_respond E responder (Inl (error_message disp message))) s))"

definition c_fetch_asset_respond_ok :: "ws_env \<Rightarrow> nat \<Rightarrow> u8 list \<Rightarrow> c_server \<Rightarrow> c_server option" where
  "c_fetch_asset_respond_ok E responder data s =
     (if length (ww_asset_calls (world (cs_prog s))) \<le> responder then None
      else Some (to_server (asset_respond E responder (Inr data)) s))"

definition c_fetch_asset_respond_error :: "ws_env \<Rightarrow> (u8 list \<Rightarrow> string) \<Rightarrow> nat \<Rightarrow> FoxgloveString \<Rightarrow> c_server \<Rightarrow> c_server option" where
  "c_fetch_asset_respond_error E disp responder message s =
     (if length (ww_asset_calls (world (cs_prog s))) \<le> responder then None
      else Some (to_server (asset_respond E responder (Inl (error_message disp message))) s))"

text \<open>The service is moved into the function, but only once the other arguments are accepted.\<close>

definition c_server_add_service :: "ws_env \<Rightarrow> bool \<Rightarrow> nat option \<Rightarrow> c_server \<Rightarrow> (c_error \<times> c_server) option" where
  "c_server_add_service E server service s =
     (if \<not> server then Some (C_ValueError, s)
      else case service of
        None \<Rightarrow> Some (C_ValueError, s)
      | Some a \<Rightarrow> do {
          b \<leftarrow> cs_server s;
          (case b of
             None \<Rightarrow> Some (C_SinkClosed, s)
           | Some _ \<Rightarrow> do {
               svc \<leftarrow> hm_get (cs_services s) a;
               let s1 = s \<lparr> cs_services := hm_remove a (cs_services s) \<rparr>;
               (r, p) \<leftarrow> add_services E [svc] (cs_prog s1);
               Some (case r of Inl e \<Rightarrow> c_error_from e | Inr _ \<Rightarrow> C_Ok, s1 \<lparr> cs_prog := p \<rparr>)
             })
        })"

definition c_server_remove_service :: "ws_env \<Rightarrow> bool \<Rightarrow> FoxgloveString \<Rightarrow> c_server \<Rightarrow> (c_error \<times> c_server) option" where
  "c_server_remove_service E server name s =
     on_server server s (\<lambda>s.
       (case as_utf8_str name of
          None \<Rightarrow> Some (C_Utf8Error, s)
        | Some name \<Rightarrow> Some (C_Ok, s \<lparr> cs_prog := remove_services E [name] (cs_prog s) \<rparr>)))"

section \<open>Broadcasts\<close>

definition c_server_broadcast_time :: "ws_env \<Rightarrow> bool \<Rightarrow> u64 \<Rightarrow> c_server \<Rightarrow> (c_error \<times> c_server) option" where
  "c_server_broadcast_time E server t s = on_server server s (\<lambda>s. Some (C_Ok, to_server (broadcast_time E t) s))"

text \<open>The speed is the bits of the \<open>f32\<close>.\<close>

record FoxglovePlaybackState =
  fps_status :: u8
  fps_current_time :: u64
  fps_playback_speed :: u32
  fps_did_seek :: bool
  fps_request_id :: FoxgloveString

definition playback_state_to_native :: "FoxglovePlaybackState \<Rightarrow> (PlaybackState, FoxgloveError) result" where
  "playback_state_to_native p =
     and_then (case playback_status_try_from (fps_status p) of
         Inl _ \<Rightarrow> Inl (ValueError ''invalid playback status'') | Inr st \<Rightarrow> Inr st) (\<lambda>status.
     and_then (if fps_request_id p = None \<or> fps_request_id p = Some [] then Inr None
               else and_then (utf8_arg [] (fps_request_id p)) (\<lambda>i. Inr (Some i))) (\<lambda>request_id.
     Inr \<lparr> pbs_status = status, pbs_current_time = fps_current_time p, pbs_playback_speed = fps_playback_speed p,
           pbs_did_seek = fps_did_seek p, pbs_request_id = request_id \<rparr>))"

definition c_server_broadcast_playback_state ::
  "ws_env \<Rightarrow> bool \<Rightarrow> FoxglovePlaybackState option \<Rightarrow> c_server \<Rightarrow> (c_error \<times> c_server) option" where
  "c_server_broadcast_playback_state E server state s =
     on_server server s (\<lambda>s.
       (case state of
          None \<Rightarrow> Some (C_ValueError, s)
        | Some p \<Rightarrow>
            (case playback_state_to_native p of
               Inl e \<Rightarrow> Some (c_error_from e, s)
             | Inr state \<Rightarrow> Some (C_Ok, to_server (broadcast_playback_state E state) s))))"

text \<open>\<open>lib\<close> and \<open>gen\<close> are the library version and a new session id.\<close>

definition c_server_clear_session ::
  "ws_env \<Rightarrow> string \<Rightarrow> string \<Rightarrow> bool \<Rightarrow> FoxgloveString option \<Rightarrow> c_server \<Rightarrow> (c_error \<times> c_server) option" where
  "c_server_clear_session E lib gen server session_id s =
     on_server server s (\<lambda>s.
       (case session_id of
          None \<Rightarrow> Some (C_Ok, s \<lparr> cs_prog := clear_session E lib gen None (cs_prog s) \<rparr>)
        | Some i \<Rightarrow>
            (case as_utf8_str i of
               None \<Rightarrow> Some (C_Utf8Error, s)
             | Some i \<Rightarrow> Some (C_Ok, s \<lparr> cs_prog := clear_session E lib gen (Some i) (cs_prog s) \<rparr>))))"

definition c_server_publish_connection_graph ::
  "ws_env \<Rightarrow> bool \<Rightarrow> ConnectionGraph option \<Rightarrow> c_server \<Rightarrow> (c_error \<times> c_server) option" where
  "c_server_publish_connection_graph E server graph s =
     (if \<not> server then Some (C_ValueError, s)
      else case graph of
        None \<Rightarrow> Some (C_ValueError, s)
      | Some g \<Rightarrow>
          on_server server s (\<lambda>s.
            (case replace_connection_graph E g (world (cs_prog s)) of
               (Inl e, _) \<Rightarrow> Some (c_error_from e, s)
             | (Inr _, w) \<Rightarrow> Some (C_Ok, s \<lparr> cs_prog := (cs_prog s) \<lparr> world := w \<rparr> \<rparr>))))"

definition c_server_publish_status ::
  "ws_env \<Rightarrow> bool \<Rightarrow> Level \<Rightarrow> FoxgloveString \<Rightarrow> FoxgloveString option \<Rightarrow> c_server \<Rightarrow> (c_error \<times> c_server) option" where
  "c_server_publish_status E server level message status_id s =
     on_server server s (\<lambda>s.
       (case as_utf8_str message of
          None \<Rightarrow> Some (C_Utf8Error, s)
        | Some message \<Rightarrow>
            (case status_id of
               None \<Rightarrow> Some (C_Ok, to_server (publish_status E (status_new level message)) s)
             | Some i \<Rightarrow>
                 (case as_utf8_str i of
                    None \<Rightarrow> Some (C_Utf8Error, s)
                  | Some i \<Rightarrow> Some (C_Ok, to_server (publish_status E ((status_new level message) \<lparr> st_id := Some i \<rparr>)) s)))))"

fun read_strings :: "FoxgloveString list \<Rightarrow> string list option" where
  "read_strings [] = Some []"
| "read_strings (i # is) = do { s \<leftarrow> as_utf8_str i; ss \<leftarrow> read_strings is; Some (s # ss) }"

definition c_server_remove_status ::
  "ws_env \<Rightarrow> bool \<Rightarrow> FoxgloveString list option \<Rightarrow> nat \<Rightarrow> c_server \<Rightarrow> (c_error \<times> c_server) option" where
  "c_server_remove_status E server ids n s =
     on_server server s (\<lambda>s.
       (case ids of
          None \<Rightarrow> Some (C_ValueError, s)
        | Some l \<Rightarrow>
            (case read_strings (take n l) of
               None \<Rightarrow> Some (C_Utf8Error, s)
             | Some ids \<Rightarrow> Some (C_Ok, to_server (remove_status E ids) s))))"

definition c_server_get_port :: "bool \<Rightarrow> c_server \<Rightarrow> u16 option" where
  "c_server_get_port server s =
     (if \<not> server then Some 0 else do { b \<leftarrow> cs_server s; Some (case b of None \<Rightarrow> 0 | Some port \<Rightarrow> port) })"

definition c_server_get_client_count :: "bool \<Rightarrow> c_server \<Rightarrow> nat option" where
  "c_server_get_client_count server s =
     (if \<not> server then Some 0
      else do { b \<leftarrow> cs_server s; Some (case b of None \<Rightarrow> 0 | Some _ \<Rightarrow> client_count (world (cs_prog s))) })"

text \<open>The box is freed on every path.\<close>

definition c_server_stop :: "bool \<Rightarrow> c_server \<Rightarrow> (c_error \<times> c_server) option" where
  "c_server_stop server s =
     (if \<not> server then Some (C_ValueError, s)
      else do {
        b \<leftarrow> cs_server s;
        let s1 = s \<lparr> cs_server := None \<rparr>;
        (case b of
           None \<Rightarrow> Some (C_SinkClosed, s1)
         | Some _ \<Rightarrow> do { p \<leftarrow> wsh_stop (cs_prog s1); Some (C_Ok, s1 \<lparr> cs_prog := p \<rparr>) })
      })"

section \<open>Starting a server\<close>

record FoxgloveServerOptions =
  fso_name :: FoxgloveString
  fso_host :: FoxgloveString
  fso_port :: u16
  fso_callbacks :: "listener option"
  fso_capabilities :: u8
  fso_supported_encodings :: "FoxgloveString list option"
  fso_supported_encodings_count :: nat
  fso_server_info :: "FoxgloveKeyValue list option"
  fso_server_info_count :: nat
  fso_fetch_asset :: bool
  fso_tls_cert :: "u8 list option"
  fso_tls_key :: "u8 list option"
  fso_sink_channel_filter :: "(ChannelDescriptor \<Rightarrow> bool) option"
  fso_playback_start_time :: "u64 option"
  fso_playback_end_time :: "u64 option"
  fso_session_id :: "FoxgloveString option"

text \<open>The flags in the order of their declaration; other bits are ignored.\<close>

definition iter_websocket_capabilities :: "u8 \<Rightarrow> Capability list" where
  "iter_websocket_capabilities flags = map snd (filter (\<lambda>(n, _). bit flags n)
     [(0, ClientPublish), (1, ConnectionGraph_cap), (2, Parameters), (3, Time_cap), (4, Services_cap), (5, Assets),
      (6, RangedPlayback)])"

fun read_encodings :: "FoxgloveString list \<Rightarrow> (string list, FoxgloveError) result" where
  "read_encodings [] = Inr []"
| "read_encodings (e # es) =
     (if e = None then Inl (ValueError ''encoding in supported_encodings is null'')
      else and_then (utf8_arg ''encoding in supported_encodings is invalid'' e) (\<lambda>s.
           and_then (read_encodings es) (\<lambda>ss. Inr (s # ss))))"

fun read_server_info :: "FoxgloveKeyValue list \<Rightarrow> (string, string) hash_map \<Rightarrow> ((string, string) hash_map, FoxgloveError) result" where
  "read_server_info [] m = Inr m"
| "read_server_info (kv # kvs) m =
     (if kv_key kv = None \<or> kv_value kv = None then Inl (ValueError ''null key or value in server_info'')
      else and_then (utf8_arg [] (kv_key kv)) (\<lambda>key.
           and_then (utf8_arg [] (kv_value kv)) (\<lambda>value. read_server_info kvs (hm_insert key value m))))"

text \<open>The steps of \<open>do_foxglove_server_start\<close> that set optional fields of the builder.\<close>

definition set_encodings :: "FoxgloveServerOptions \<Rightarrow> WebSocketServer \<Rightarrow> (WebSocketServer, FoxgloveError) result" where
  "set_encodings opts b =
     (if fso_supported_encodings_count opts > 0 then
        (case fso_supported_encodings opts of
           None \<Rightarrow> Inl (ValueError ''supported_encodings is null'')
         | Some es \<Rightarrow> and_then (read_encodings (take (fso_supported_encodings_count opts) es)) (\<lambda>ss.
             Inr (server_supported_encodings ss b)))
      else Inr b)"

definition set_handlers :: "FoxgloveServerOptions \<Rightarrow> WebSocketServer \<Rightarrow> WebSocketServer" where
  "set_handlers opts b =
     (let b = (case fso_callbacks opts of None \<Rightarrow> b | Some l \<Rightarrow> server_listener l b);
          b = (if fso_fetch_asset opts then server_fetch_asset_handler b else b) in
      case fso_sink_channel_filter opts of None \<Rightarrow> b | Some f \<Rightarrow> server_channel_filter f b)"

definition set_tls :: "FoxgloveServerOptions \<Rightarrow> WebSocketServer \<Rightarrow> (WebSocketServer, FoxgloveError) result" where
  "set_tls opts b =
     (if fso_tls_cert opts = None \<and> fso_tls_key opts = None then Inr b
      else case (fso_tls_cert opts, fso_tls_key opts) of
        (Some cert, Some key) \<Rightarrow>
          if cert = [] \<or> key = [] then Inl (ValueError ''Invalid TLS configuration (empty certificate or key)'')
          else Inr (server_tls (cert, key) b)
      | _ \<Rightarrow> Inl (ValueError ''Invalid TLS configuration (null pointer)''))"

definition set_info :: "FoxgloveServerOptions \<Rightarrow> WebSocketServer \<Rightarrow> (WebSocketServer, FoxgloveError) result" where
  "set_info opts b =
     (if fso_server_info_count opts > 0 then
        (case fso_server_info opts of
           None \<Rightarrow> Inl (ValueError ''server_info is null'')
         | Some kvs \<Rightarrow> and_then (read_server_info (take (fso_server_info_count opts) kvs) []) (\<lambda>m.
             Inr (server_server_info m b)))
      else Inr b)"

definition set_session_id :: "FoxgloveServerOptions \<Rightarrow> WebSocketServer \<Rightarrow> (WebSocketServer, FoxgloveError) result" where
  "set_session_id opts b =
     (case fso_session_id opts of
        None \<Rightarrow> Inr b
      | Some i \<Rightarrow>
          if i = None then Inl (ValueError ''session_id is null'')
          else and_then (utf8_arg ''session_id is invalid'' i) (\<lambda>t. Inr (server_session_id t b)))"

definition server_builder :: "string \<Rightarrow> FoxgloveServerOptions \<Rightarrow> (WebSocketServer, FoxgloveError) result" where
  "server_builder gen opts =
     and_then (utf8_arg ''name is invalid'' (fso_name opts)) (\<lambda>name.
     and_then (utf8_arg ''host is invalid'' (fso_host opts)) (\<lambda>host.
     let b = server_bind host (fso_port opts) (server_capabilities (iter_websocket_capabilities (fso_capabilities opts))
               (server_name name (websocket_server_new gen))) in
     and_then (set_encodings opts b) (\<lambda>b.
     and_then (set_tls opts (set_handlers opts b)) (\<lambda>b.
     and_then (set_info opts b) (\<lambda>b.
     let b = (case (fso_playback_start_time opts, fso_playback_end_time opts) of
                (Some t, Some t') \<Rightarrow> server_playback_time_range t t' b | _ \<Rightarrow> b) in
     set_session_id opts b)))))"

definition do_server_start :: "net_env \<Rightarrow> string \<Rightarrow> FoxgloveServerOptions \<Rightarrow> (u16 \<times> prog, FoxgloveError) result may_panic" where
  "do_server_start N gen opts =
     (case server_builder gen opts of Inl e \<Rightarrow> Some (Inl e) | Inr b \<Rightarrow> start_blocking N b)"

text \<open>The new server and its box, if the start succeeds.\<close>

definition c_server_start :: "net_env \<Rightarrow> string \<Rightarrow> FoxgloveServerOptions \<Rightarrow> (c_error \<times> c_server option) may_panic" where
  "c_server_start N gen opts = do {
     r \<leftarrow> do_server_start N gen opts;
     Some (case r of
        Inl e \<Rightarrow> (c_error_from e, None)
      | Inr (port, p) \<Rightarrow> (C_Ok, Some \<lparr> cs_prog = p, cs_server = Some (Some port), cs_services = [],
          cs_next_service_id = 1, cs_next = 0 \<rparr>))
   }"

section \<open>Callbacks\<close>

text \<open>A string of C ends with a null byte. \<open>CString::new(s).unwrap()\<close> panics if there is one inside.\<close>

definition cstring :: "string \<Rightarrow> u8 list may_panic" where
  "cstring s = (if 0 \<in> set (as_bytes s) then None else Some (as_bytes s @ [0]))"

definition cstr_read :: "u8 list \<Rightarrow> u8 list" where
  "cstr_read p = takeWhile (\<lambda>b. b \<noteq> 0) p"

text \<open>\<open>None\<close> in a field is a null pointer.\<close>

record FoxgloveClientChannel =
  fcc_id :: u32
  fcc_topic :: "u8 list"
  fcc_encoding :: "u8 list"
  fcc_schema_name :: "u8 list"
  fcc_schema_encoding :: "u8 list option"
  fcc_schema :: "u8 list option"
  fcc_schema_len :: nat

definition c_on_client_advertise :: "ClientChannel \<Rightarrow> FoxgloveClientChannel may_panic" where
  "c_on_client_advertise channel = do {
     topic \<leftarrow> cstring (cch_topic channel);
     encoding \<leftarrow> cstring (cch_encoding channel);
     schema_name \<leftarrow> cstring (cch_schema_name channel);
     schema_encoding \<leftarrow> (case cch_schema_encoding channel of None \<Rightarrow> Some None | Some e \<Rightarrow> map_option Some (cstring e));
     Some \<lparr> fcc_id = cch_id channel, fcc_topic = topic, fcc_encoding = encoding, fcc_schema_name = schema_name,
       fcc_schema_encoding = schema_encoding, fcc_schema = cch_schema channel,
       fcc_schema_len = (case cch_schema channel of None \<Rightarrow> 0 | Some d \<Rightarrow> length d) \<rparr>
   }"

record FoxgloveClientMetadata =
  fcm_id :: u32
  fcm_sink_id :: u64

text \<open>\<open>sink\<close> is \<open>Client::sink_id\<close>, which is \<open>None\<close> once the session is gone.\<close>

definition client_metadata :: "(u32 \<Rightarrow> u64 option) \<Rightarrow> u32 \<Rightarrow> FoxgloveClientMetadata" where
  "client_metadata sink client = \<lparr> fcm_id = client, fcm_sink_id = (case sink client of None \<Rightarrow> 0 | Some i \<Rightarrow> i) \<rparr>"

text \<open>Which callbacks are not null; the context is passed to all of them.\<close>

record FoxgloveServerCallbacks =
  fcb_on_subscribe :: bool
  fcb_on_unsubscribe :: bool
  fcb_on_client_advertise :: bool
  fcb_on_message_data :: bool
  fcb_on_client_unadvertise :: bool
  fcb_on_get_parameters :: bool
  fcb_on_set_parameters :: bool
  fcb_on_parameters_subscribe :: bool
  fcb_on_parameters_unsubscribe :: bool
  fcb_on_connection_graph_subscribe :: bool
  fcb_on_connection_graph_unsubscribe :: bool
  fcb_on_client_connect :: bool
  fcb_on_client_disconnect :: bool
  fcb_on_playback_control_request :: bool

text \<open>The calls that the application receives, with their arguments. The results of the callbacks for
  parameters, and the array that is passed to the second of them, are in \<open>C_Parameter\<close>.\<close>

record FoxglovePlaybackControlRequest =
  fpr_playback_command :: u8
  fpr_playback_speed :: u32
  fpr_seek_time :: "u64 option"
  fpr_request_id :: FoxgloveString

datatype c_callback =
  C_on_subscribe u64 FoxgloveClientMetadata
| C_on_unsubscribe u64 FoxgloveClientMetadata
| C_on_client_advertise u32 FoxgloveClientChannel
| C_on_message_data u32 u32 "u8 list"
| C_on_client_unadvertise u32 u32
| C_on_get_parameters u32 "FoxgloveString option" "FoxgloveString list"
| C_on_set_parameters u32 "FoxgloveString option"
| C_on_parameters_subscribe "FoxgloveString list"
| C_on_parameters_unsubscribe "FoxgloveString list"
| C_on_connection_graph_subscribe
| C_on_connection_graph_unsubscribe
| C_on_client_connect
| C_on_client_disconnect
| C_on_playback_control_request FoxglovePlaybackControlRequest

definition playback_request_from :: "PlaybackControlRequest \<Rightarrow> FoxglovePlaybackControlRequest" where
  "playback_request_from r = \<lparr> fpr_playback_command = playback_command_repr (pcr_playback_command r),
     fpr_playback_speed = pcr_playback_speed r, fpr_seek_time = pcr_seek_time r, fpr_request_id = lend (pcr_request_id r) \<rparr>"

text \<open>The listener of the server: \<open>Some None\<close> when the callback is null.\<close>

fun c_listener :: "FoxgloveServerCallbacks \<Rightarrow> (u32 \<Rightarrow> u64 option) \<Rightarrow> listener_call \<Rightarrow> c_callback option may_panic" where
  "c_listener cbs sink (On_subscribe client channel topic) =
     Some (if fcb_on_subscribe cbs then Some (C_on_subscribe channel (client_metadata sink client)) else None)"
| "c_listener cbs sink (On_unsubscribe client channel topic) =
     Some (if fcb_on_unsubscribe cbs then Some (C_on_unsubscribe channel (client_metadata sink client)) else None)"
| "c_listener cbs sink (On_client_advertise client channel) =
     (if fcb_on_client_advertise cbs
      then map_option (\<lambda>c_channel. Some (C_on_client_advertise client c_channel)) (c_on_client_advertise channel)
      else Some None)"
| "c_listener cbs sink (On_message_data client channel payload) =
     Some (if fcb_on_message_data cbs then Some (C_on_message_data client (cch_id channel) payload) else None)"
| "c_listener cbs sink (On_client_unadvertise client channel) =
     Some (if fcb_on_client_unadvertise cbs then Some (C_on_client_unadvertise client (cch_id channel)) else None)"
| "c_listener cbs sink (On_get_parameters client names request_id) =
     Some (if fcb_on_get_parameters cbs
           then Some (C_on_get_parameters client (map_option lend request_id) (map lend names)) else None)"
| "c_listener cbs sink (On_set_parameters client params request_id) =
     Some (if fcb_on_set_parameters cbs then Some (C_on_set_parameters client (map_option lend request_id)) else None)"
| "c_listener cbs sink (On_parameters_subscribe names) =
     Some (if fcb_on_parameters_subscribe cbs then Some (C_on_parameters_subscribe (map lend names)) else None)"
| "c_listener cbs sink (On_parameters_unsubscribe names) =
     Some (if fcb_on_parameters_unsubscribe cbs then Some (C_on_parameters_unsubscribe (map lend names)) else None)"
| "c_listener cbs sink On_connection_graph_subscribe =
     Some (if fcb_on_connection_graph_subscribe cbs then Some C_on_connection_graph_subscribe else None)"
| "c_listener cbs sink On_connection_graph_unsubscribe =
     Some (if fcb_on_connection_graph_unsubscribe cbs then Some C_on_connection_graph_unsubscribe else None)"
| "c_listener cbs sink On_client_connect =
     Some (if fcb_on_client_connect cbs then Some C_on_client_connect else None)"
| "c_listener cbs sink On_client_disconnect =
     Some (if fcb_on_client_disconnect cbs then Some C_on_client_disconnect else None)"
| "c_listener cbs sink (On_playback_control_request r) =
     Some (if fcb_on_playback_control_request cbs then Some (C_on_playback_control_request (playback_request_from r)) else None)"

text \<open>The answer to a playback request; \<open>cb\<close> is the callback, which changes the state that it is given.\<close>

definition c_on_playback_control_request ::
  "(FoxglovePlaybackControlRequest \<Rightarrow> FoxglovePlaybackState \<Rightarrow> FoxglovePlaybackState) option \<Rightarrow> PlaybackControlRequest
    \<Rightarrow> PlaybackState option" where
  "c_on_playback_control_request cb r = do {
     f \<leftarrow> cb;
     let c_state = \<lparr> fps_status = 0, fps_current_time = 0, fps_playback_speed = 0, fps_did_seek = False,
           fps_request_id = lend (pcr_request_id r) \<rparr>;
     result_ok (playback_state_to_native (f (playback_request_from r) c_state))
   }"

end
