(* ===== verification/C_Server_Session.thy ===== *)
theory C_Server_Session
  imports C_Server
begin

text \<open>
  Programs that use the server of the C bindings: a server is started, and then the functions of
  \<open>C_Server\<close> are called in any order, interleaved with the steps of the clients and of the channels.
  Every call is a step of the Rust server or leaves it as it is.
\<close>

section \<open>Calls\<close>

datatype c_server_call =
  S_service_create bool FoxgloveString "FoxgloveServiceSchema option" bool
| S_service_free "nat option"
| S_set_response_encoding "nat option" FoxgloveString
| S_respond_ok nat "u8 list"
| S_respond_error nat FoxgloveString
| S_asset_respond_ok nat "u8 list"
| S_asset_respond_error nat FoxgloveString
| S_add_service bool "nat option"
| S_remove_service bool FoxgloveString
| S_broadcast_time bool u64
| S_broadcast_playback_state bool "FoxglovePlaybackState option"
| S_clear_session string string bool "FoxgloveString option"
| S_publish_connection_graph bool "ConnectionGraph option"
| S_publish_status bool Level FoxgloveString "FoxgloveString option"
| S_remove_status bool "FoxgloveString list option" nat
| S_stop bool
| S_native server_op

text \<open>A function without a result returns \<open>C_Ok\<close> here.\<close>

definition void :: "c_server option \<Rightarrow> (c_error \<times> c_server) option" where
  "void r = map_option (Pair C_Ok) r"

fun c_server_exec :: "ws_env \<Rightarrow> (u8 list \<Rightarrow> string) \<Rightarrow> c_server_call \<Rightarrow> c_server \<Rightarrow> (c_error \<times> c_server) option" where
  "c_server_exec E disp (S_service_create out name schema callback) s =
     map_option (\<lambda>((e, _), s'). (e, s')) (c_service_create out name schema callback s)"
| "c_server_exec E disp (S_service_free service) s = void (c_service_free service s)"
| "c_server_exec E disp (S_set_response_encoding r encoding) s = c_service_set_response_encoding r encoding s"
| "c_server_exec E disp (S_respond_ok r data) s = void (c_service_respond_ok E r data s)"
| "c_server_exec E disp (S_respond_error r message) s = void (c_service_respond_error E disp r message s)"
| "c_server_exec E disp (S_asset_respond_ok r data) s = void (c_fetch_asset_respond_ok E r data s)"
| "c_server_exec E disp (S_asset_respond_error r message) s = void (c_fetch_asset_respond_error E disp r message s)"
| "c_server_exec E disp (S_add_service server service) s = c_server_add_service E server service s"
| "c_server_exec E disp (S_remove_service server name) s = c_server_remove_service E server name s"
| "c_server_exec E disp (S_broadcast_time server t) s = c_server_broadcast_time E server t s"
| "c_server_exec E disp (S_broadcast_playback_state server p) s = c_server_broadcast_playback_state E server p s"
| "c_server_exec E disp (S_clear_session lib gen server i) s = c_server_clear_session E lib gen server i s"
| "c_server_exec E disp (S_publish_connection_graph server g) s = c_server_publish_connection_graph E server g s"
| "c_server_exec E disp (S_publish_status server level message i) s = c_server_publish_status E server level message i s"
| "c_server_exec E disp (S_remove_status server ids n) s = c_server_remove_status E server ids n s"
| "c_server_exec E disp (S_stop server) s = c_server_stop server s"
| "c_server_exec E disp (S_native op) s = map_option (\<lambda>p. (C_Ok, s \<lparr> cs_prog := p \<rparr>)) (server_exec E op (cs_prog s))"

text \<open>The step of the Rust server that a call stands for when it succeeds.\<close>

fun native_op :: "(u8 list \<Rightarrow> string) \<Rightarrow> c_server_call \<Rightarrow> c_server \<Rightarrow> server_op option" where
  "native_op disp (S_service_create out name schema callback) s = None"
| "native_op disp (S_service_free service) s = None"
| "native_op disp (S_set_response_encoding r encoding) s =
     (case r of None \<Rightarrow> None | Some i \<Rightarrow> Some (Set_response_encoding i (text_of encoding)))"
| "native_op disp (S_respond_ok r data) s = Some (Answer_service r (Inr data))"
| "native_op disp (S_respond_error r message) s = Some (Answer_service r (Inl (error_message disp message)))"
| "native_op disp (S_asset_respond_ok r data) s = Some (Answer_asset r (Inr data))"
| "native_op disp (S_asset_respond_error r message) s = Some (Answer_asset r (Inl (error_message disp message)))"
| "native_op disp (S_add_service server service) s =
     (case service of None \<Rightarrow> None | Some a \<Rightarrow> map_option (\<lambda>svc. Add_services [svc]) (hm_get (cs_services s) a))"
| "native_op disp (S_remove_service server name) s = Some (Remove_services [text_of name])"
| "native_op disp (S_broadcast_time server t) s = Some (Broadcast_time t)"
| "native_op disp (S_broadcast_playback_state server p) s =
     (case p of None \<Rightarrow> None | Some p \<Rightarrow> map_option Broadcast_playback (result_ok (playback_state_to_native p)))"
| "native_op disp (S_clear_session lib gen server i) s = Some (Clear_session lib gen (map_option text_of i))"
| "native_op disp (S_publish_connection_graph server g) s = map_option Replace_graph g"
| "native_op disp (S_publish_status server level message i) s =
     Some (Publish_status ((status_new level (text_of message)) \<lparr> st_id := map_option text_of i \<rparr>))"
| "native_op disp (S_remove_status server ids n) s =
     (case ids of None \<Rightarrow> None | Some l \<Rightarrow> Some (Remove_status (map text_of (take n l))))"
| "native_op disp (S_stop server) s = Some Stop_server"
| "native_op disp (S_native op) s = Some op"

text \<open>What the caller sees to: a pointer is null or owned. Only the functions of the bindings start and stop
  the server, and the counter of the services has not wrapped around.\<close>

definition pointer_ok :: "bool \<Rightarrow> c_server \<Rightarrow> bool" where
  "pointer_ok server s \<longleftrightarrow> (server \<longrightarrow> cs_server s \<noteq> None)"

definition service_ok :: "nat option \<Rightarrow> c_server \<Rightarrow> bool" where
  "service_ok service s \<longleftrightarrow> (case service of None \<Rightarrow> True | Some a \<Rightarrow> hm_contains a (cs_services s))"

fun c_server_owned :: "c_server_call \<Rightarrow> c_server \<Rightarrow> bool" where
  "c_server_owned (S_service_create out name schema callback) s \<longleftrightarrow> cs_next_service_id s \<noteq> 0"
| "c_server_owned (S_service_free service) s \<longleftrightarrow> service_ok service s"
| "c_server_owned (S_set_response_encoding r encoding) s \<longleftrightarrow>
     (case r of None \<Rightarrow> True | Some i \<Rightarrow> i < length (ww_service_calls (world (cs_prog s))))"
| "c_server_owned (S_respond_ok r data) s \<longleftrightarrow> r < length (ww_service_calls (world (cs_prog s)))"
| "c_server_owned (S_respond_error r message) s \<longleftrightarrow> r < length (ww_service_calls (world (cs_prog s)))"
| "c_server_owned (S_asset_respond_ok r data) s \<longleftrightarrow> r < length (ww_asset_calls (world (cs_prog s)))"
| "c_server_owned (S_asset_respond_error r message) s \<longleftrightarrow> r < length (ww_asset_calls (world (cs_prog s)))"
| "c_server_owned (S_add_service server service) s \<longleftrightarrow> pointer_ok server s \<and> service_ok service s"
| "c_server_owned (S_remove_service server name) s \<longleftrightarrow> pointer_ok server s"
| "c_server_owned (S_broadcast_time server t) s \<longleftrightarrow> pointer_ok server s"
| "c_server_owned (S_broadcast_playback_state server p) s \<longleftrightarrow> pointer_ok server s"
| "c_server_owned (S_clear_session lib gen server i) s \<longleftrightarrow> pointer_ok server s"
| "c_server_owned (S_publish_connection_graph server g) s \<longleftrightarrow> pointer_ok server s"
| "c_server_owned (S_publish_status server level message i) s \<longleftrightarrow> pointer_ok server s"
| "c_server_owned (S_remove_status server ids n) s \<longleftrightarrow> pointer_ok server s"
| "c_server_owned (S_stop server) s \<longleftrightarrow> pointer_ok server s"
| "c_server_owned (S_native op) s \<longleftrightarrow>
     server_allowed op (cs_prog s) \<and> op \<noteq> Stop_server \<and> (\<forall>bound. op \<noteq> Start_server bound)"

text \<open>The filter of the channels is part of the environment of the sessions.\<close>

inductive c_server_run :: "net_env \<Rightarrow> ws_env \<Rightarrow> (u8 list \<Rightarrow> string) \<Rightarrow> c_server \<Rightarrow> bool" for N E disp where
  c_run_start: "c_server_start N gen opts = Some (C_Ok, Some s) \<Longrightarrow> env_filter E = fso_sink_channel_filter opts \<Longrightarrow>
    c_server_run N E disp s"
| c_run_call: "c_server_run N E disp s \<Longrightarrow> c_server_owned call s \<Longrightarrow> c_server_exec E disp call s = Some (e, s') \<Longrightarrow>
    c_server_run N E disp s'"

section \<open>Every call refines a step\<close>

text \<open>The box of the server is open until it is freed, and its server runs.\<close>

definition c_server_inv :: "ws_env \<Rightarrow> c_server \<Rightarrow> bool" where
  "c_server_inv E s \<longleftrightarrow> server_reachable E (cs_prog s)
     \<and> (case cs_server s of None \<Rightarrow> True | Some b \<Rightarrow> b \<noteq> None \<and> running (cs_prog s))"

definition refines :: "ws_env \<Rightarrow> server_op option \<Rightarrow> c_error \<Rightarrow> prog \<Rightarrow> prog \<Rightarrow> bool" where
  "refines E op e p p' \<longleftrightarrow>
     (if e = C_Ok \<and> op \<noteq> None then server_exec E (the op) p = Some p' else p' = p)"

lemma on_server_open:
  assumes "c_server_inv E s" "pointer_ok server s"
  shows "on_server server s f = (if server then f s else Some (C_ValueError, s))"
  using assms by (auto simp: on_server_def pointer_ok_def c_server_inv_def split: option.splits)

lemma read_strings_text: "read_strings l = Some ss \<Longrightarrow> ss = map text_of l"
  by (induction l arbitrary: ss) (auto simp: bind_eq_Some_conv text_of_def)

lemma add_services_error: "add_services E ss s = Some (Inl e, s') \<Longrightarrow> s' = s"
  by (auto simp: add_services_def Let_def bind_eq_Some_conv split: if_splits sum.splits option.splits)

lemma replace_graph_error: "replace_connection_graph E g w = (Inl e, w') \<Longrightarrow> w' = w"
  by (auto simp: replace_connection_graph_def Let_def split: if_splits prod.splits)

lemma status_new_id: "(status_new level m) \<lparr> st_id := None \<rparr> = status_new level m"
  by (simp add: status_new_def)

text \<open>Where the box of the server is after a call.\<close>

fun box_after :: "c_server_call \<Rightarrow> FoxgloveWebSocketServer option \<Rightarrow> FoxgloveWebSocketServer option" where
  "box_after (S_stop True) b = None"
| "box_after _ b = b"

lemma native_allowed:
  assumes "c_server_owned call s" "native_op disp call s = Some op"
  shows "server_allowed op (cs_prog s)" "op = Stop_server \<longleftrightarrow> (\<exists>server. call = S_stop server)" "op \<noteq> Start_server bound"
  using assms by (cases call; force split: option.splits)+

lemma c_service_create_keeps:
  "cs_next_service_id s \<noteq> 0 \<Longrightarrow> \<exists>e r s'. c_service_create out name schema callback s = Some ((e, r), s')
    \<and> cs_prog s' = cs_prog s \<and> cs_server s' = cs_server s"
  by (auto simp: c_service_create_def service_build_def service_id_next_def Let_def split: option.split sum.split)

lemma c_add_service_refines:
  assumes "env_laws E" "c_server_inv E s" "c_server_owned (S_add_service server service) s"
  shows "\<exists>e s'. c_server_add_service E server service s = Some (e, s')
    \<and> refines E (native_op disp (S_add_service server service) s) e (cs_prog s) (cs_prog s') \<and> cs_server s' = cs_server s"
proof (cases "server \<and> service \<noteq> None")
  case True
  then obtain a svc port where a: "service = Some a" "hm_get (cs_services s) a = Some svc" "cs_server s = Some (Some port)"
    using assms(2,3) by (auto simp: pointer_ok_def service_ok_def c_server_inv_def hm_contains_def split: option.splits)
  obtain r p where r: "add_services E [svc] (cs_prog s) = Some (r, p)"
    using server_exec_total [OF assms(1) server_reachable_ok [OF assms(1)], of "cs_prog s" "Add_services [svc]"] assms(2)
    by (auto simp: c_server_inv_def)
  then show ?thesis using True a add_services_error [of E "[svc]" "cs_prog s"]
    by (cases r) (auto simp: c_server_add_service_def refines_def Let_def)
qed (auto simp: c_server_add_service_def refines_def split: option.split)

lemma c_stop_refines:
  assumes "c_server_inv E s" "c_server_owned (S_stop server) s"
  shows "\<exists>e s'. c_server_stop server s = Some (e, s')
    \<and> refines E (Some Stop_server) e (cs_prog s) (cs_prog s') \<and> cs_server s' = box_after (S_stop server) (cs_server s)"
proof (cases server)
  case True
  then obtain port where b: "cs_server s = Some (Some port)" "running (cs_prog s)"
    using assms by (auto simp: pointer_ok_def c_server_inv_def split: option.splits)
  then obtain p where p: "wsh_stop (cs_prog s) = Some p" using wsh_stop_started by (auto simp: running_def)
  then show ?thesis using True b wsh_stop_exec [OF p, of E] by (simp add: c_server_stop_def refines_def)
qed (simp add: c_server_stop_def refines_def)

definition step_refines :: "ws_env \<Rightarrow> (u8 list \<Rightarrow> string) \<Rightarrow> c_server_call \<Rightarrow> c_server \<Rightarrow> bool" where
  "step_refines E disp call s \<longleftrightarrow> (\<exists>e s'. c_server_exec E disp call s = Some (e, s')
    \<and> refines E (native_op disp call s) e (cs_prog s) (cs_prog s') \<and> cs_server s' = box_after call (cs_server s))"

lemma step_refinesI:
  "c_server_exec E disp call s = Some (e, s') \<Longrightarrow> refines E (native_op disp call s) e (cs_prog s) (cs_prog s') \<Longrightarrow>
    cs_server s' = box_after call (cs_server s) \<Longrightarrow> step_refines E disp call s"
  by (auto simp: step_refines_def)

lemma refines_error [simp]: "e \<noteq> C_Ok \<Longrightarrow> refines E op e p p"
  by (simp add: refines_def)

lemma responders_refine:
  "c_server_owned (S_service_free service) s \<Longrightarrow> step_refines E disp (S_service_free service) s"
  "c_server_owned (S_set_response_encoding r encoding) s \<Longrightarrow> step_refines E disp (S_set_response_encoding r encoding) s"
  "c_server_owned (S_respond_ok i data) s \<Longrightarrow> step_refines E disp (S_respond_ok i data) s"
  "c_server_owned (S_respond_error i message) s \<Longrightarrow> step_refines E disp (S_respond_error i message) s"
  "c_server_owned (S_asset_respond_ok i data) s \<Longrightarrow> step_refines E disp (S_asset_respond_ok i data) s"
  "c_server_owned (S_asset_respond_error i message) s \<Longrightarrow> step_refines E disp (S_asset_respond_error i message) s"
proof -
  note defs = void_def to_server_def refines_def in_world_def
  show "c_server_owned (S_service_free service) s \<Longrightarrow> step_refines E disp (S_service_free service) s"
    by (cases service) (auto simp: step_refines_def c_service_free_def service_ok_def hm_contains_def defs)
  show "c_server_owned (S_set_response_encoding r encoding) s \<Longrightarrow> step_refines E disp (S_set_response_encoding r encoding) s"
    by (cases r; cases "as_utf8_str encoding") (simp_all add: step_refines_def c_service_set_response_encoding_def text_of_def defs)
  show "c_server_owned (S_respond_ok i data) s \<Longrightarrow> step_refines E disp (S_respond_ok i data) s"
    "c_server_owned (S_respond_error i message) s \<Longrightarrow> step_refines E disp (S_respond_error i message) s"
    by (simp_all add: step_refines_def c_service_respond_ok_def c_service_respond_error_def defs)
  show "c_server_owned (S_asset_respond_ok i data) s \<Longrightarrow> step_refines E disp (S_asset_respond_ok i data) s"
    "c_server_owned (S_asset_respond_error i message) s \<Longrightarrow> step_refines E disp (S_asset_respond_error i message) s"
    by (simp_all add: step_refines_def c_fetch_asset_respond_ok_def c_fetch_asset_respond_error_def defs)
qed

lemma broadcasts_refine:
  assumes "c_server_inv E s" "pointer_ok server s"
  shows "step_refines E disp (S_remove_service server name) s" "step_refines E disp (S_broadcast_time server t) s"
    "step_refines E disp (S_broadcast_playback_state server p) s" "step_refines E disp (S_clear_session lib gen server i) s"
    "step_refines E disp (S_publish_status server level message i) s" "step_refines E disp (S_remove_status server ids n) s"
proof -
  note defs = on_server_open [OF assms] to_server_def in_world_def text_of_def
  show "step_refines E disp (S_remove_service server name) s"
    by (cases "as_utf8_str name") (simp_all add: step_refines_def c_server_remove_service_def refines_def defs)
  show "step_refines E disp (S_broadcast_time server t) s"
    by (simp add: step_refines_def c_server_broadcast_time_def refines_def defs)
  show "step_refines E disp (S_broadcast_playback_state server p) s"
    by (cases p; cases "playback_state_to_native (the p)")
      (simp_all add: step_refines_def c_server_broadcast_playback_state_def refines_def result_ok_def defs)
  show "step_refines E disp (S_clear_session lib gen server i) s"
    by (cases i; cases "as_utf8_str (the i)") (simp_all add: step_refines_def c_server_clear_session_def refines_def defs)
  show "step_refines E disp (S_publish_status server level message i) s"
    by (cases "as_utf8_str message"; cases i; cases "as_utf8_str (the i)")
      (simp_all add: step_refines_def c_server_publish_status_def refines_def status_new_id defs)
  show "step_refines E disp (S_remove_status server ids n) s"
    using read_strings_text [of "take n (the ids)"]
    by (cases ids; cases "read_strings (take n (the ids))")
      (simp_all add: step_refines_def c_server_remove_status_def refines_def on_server_open [OF assms] to_server_def in_world_def)
qed

lemma publish_graph_refines:
  assumes "c_server_inv E s" "pointer_ok server s"
  shows "step_refines E disp (S_publish_connection_graph server g) s"
proof (cases "server \<and> g \<noteq> None")
  case True
  then obtain graph where g: "server" "g = Some graph" by auto
  have o: "on_server True s f = f s" for f using on_server_open [OF assms] g(1) by simp
  obtain r w where r: "replace_connection_graph E graph (world (cs_prog s)) = (r, w)" by fastforce
  show ?thesis
  proof (cases r)
    case (Inl e)
    then show ?thesis using g r
      by (intro step_refinesI [where e = "c_error_from e" and s' = s]) (simp_all add: c_server_publish_connection_graph_def o)
  next
    case (Inr u)
    then show ?thesis using g r
      by (intro step_refinesI [where e = C_Ok and s' = "s \<lparr> cs_prog := (cs_prog s) \<lparr> world := w \<rparr> \<rparr>"])
        (simp_all add: c_server_publish_connection_graph_def o refines_def in_world_def)
  qed
qed (auto simp: step_refines_def c_server_publish_connection_graph_def)

lemma c_server_exec_refines:
  assumes "env_laws E" "c_server_inv E s" "c_server_owned call s"
  shows "step_refines E disp call s"
proof (cases call)
  case (S_service_create out name schema callback)
  then obtain e r s' where "c_service_create out name schema callback s = Some ((e, r), s')" "cs_prog s' = cs_prog s"
    "cs_server s' = cs_server s" using c_service_create_keeps [of s out name schema callback] assms(3) by auto
  then show ?thesis using S_service_create by (simp add: step_refines_def refines_def)
next
  case (S_native op)
  then obtain p where "server_exec E op (cs_prog s) = Some p"
    using server_exec_total [OF assms(1) server_reachable_ok [OF assms(1)], of "cs_prog s" op] assms(2,3)
    by (auto simp: c_server_inv_def)
  then show ?thesis using S_native by (simp add: step_refines_def refines_def)
next
  case (S_add_service server service)
  then show ?thesis using c_add_service_refines [OF assms(1,2)] assms(3) by (simp add: step_refines_def)
next
  case (S_stop server)
  then show ?thesis using c_stop_refines [OF assms(2)] assms(3) by (simp add: step_refines_def)
qed (use assms(2,3) responders_refine broadcasts_refine publish_graph_refines in \<open>simp_all only: c_server_owned.simps\<close>)

lemma c_server_inv_step:
  assumes "env_laws E" "c_server_inv E s" "c_server_owned call s" "c_server_exec E disp call s = Some (e, s')"
  shows "c_server_inv E s'"
proof -
  have r: "refines E (native_op disp call s) e (cs_prog s) (cs_prog s')" "cs_server s' = box_after call (cs_server s)"
    using c_server_exec_refines [OF assms(1-3), of disp] assms(4) by (auto simp: step_refines_def)
  have reach: "server_reachable E (cs_prog s)" using assms(2) by (simp add: c_server_inv_def)
  show ?thesis
  proof (cases "e = C_Ok \<and> native_op disp call s \<noteq> None")
    case True
    then obtain op where op: "native_op disp call s = Some op" "server_exec E op (cs_prog s) = Some (cs_prog s')"
      using r(1) by (auto simp: refines_def)
    note allowed = native_allowed [OF assms(3) op(1)]
    have "server_reachable E (cs_prog s')" by (rule server_reach_step [OF reach allowed(1) op(2)])
    moreover have "running (cs_prog s') = running (cs_prog s)" if "op \<noteq> Stop_server"
      using running_exec [OF op(2) that] allowed(3) by blast
    moreover have "e \<noteq> C_Ok" if "call = S_stop False" using that assms(4) by (auto simp: c_server_stop_def)
    moreover have "box_after call b = (if call = S_stop True then None else b)" for b by (cases "(call, b)" rule: box_after.cases) auto
    ultimately show ?thesis using assms(2) r(2) allowed(2) True
      by (cases "op = Stop_server") (auto simp: c_server_inv_def split: option.splits)
  next
    case False
    then have "cs_prog s' = cs_prog s" using r(1) by (auto simp: refines_def)
    moreover have "cs_server s' = cs_server s \<or> cs_server s' = None"
      unfolding r(2) by (cases "(call, cs_server s)" rule: box_after.cases) auto
    ultimately show ?thesis using assms(2) by (auto simp: c_server_inv_def split: option.split)
  qed
qed

text \<open>The bindings do not set the size of the backlog.\<close>

definition backlog :: "WebSocketServer \<Rightarrow> nat option" where
  "backlog b = so_message_backlog_size (wb_options b)"

lemma backlog_steps:
  "set_encodings opts b = Inr b' \<Longrightarrow> backlog b' = backlog b" "backlog (set_handlers opts b) = backlog b"
  "set_tls opts b = Inr b' \<Longrightarrow> backlog b' = backlog b" "set_info opts b = Inr b' \<Longrightarrow> backlog b' = backlog b"
  "set_session_id opts b = Inr b' \<Longrightarrow> backlog b' = backlog b" "backlog (server_playback_time_range t t' b) = backlog b"
  "backlog (server_bind host port (server_capabilities cs (server_name name (websocket_server_new gen)))) = None"
  by (auto simp: backlog_def set_encodings_def set_handlers_def set_tls_def set_info_def set_session_id_def
      and_then_Inr builder_defs Let_def split: if_splits option.splits)

lemma server_builder_backlog: "server_builder gen opts = Inr b \<Longrightarrow> backlog b = None"
  by (cases "fso_playback_start_time opts"; cases "fso_playback_end_time opts")
    (auto simp: server_builder_def and_then_Inr Let_def backlog_steps(2,6,7) dest!: backlog_steps(1,3,4) backlog_steps(5) split: option.splits)

lemma c_server_start_inv:
  assumes "c_server_start N gen opts = Some (C_Ok, Some s)"
  shows "c_server_inv E s"
proof -
  obtain b port p where b: "server_builder gen opts = Inr b" "start_blocking N b = Some (Inr (port, p))"
    and s: "cs_prog s = p" "cs_server s = Some (Some port)"
    using assms
    by (cases "do_server_start N gen opts"; cases "the (do_server_start N gen opts)")
      (auto simp: c_server_start_def do_server_start_def split: sum.splits)
  show ?thesis using start_blocking_reachable [OF b(2), of E] server_builder_backlog [OF b(1)] s
    by (simp add: c_server_inv_def running_def backlog_def)
qed

lemma c_server_run_inv: "env_laws E \<Longrightarrow> c_server_run N E disp s \<Longrightarrow> c_server_inv E s"
proof -
  assume E: "env_laws E"
  show "c_server_run N E disp s \<Longrightarrow> c_server_inv E s"
    by (induction rule: c_server_run.induct) (blast intro: c_server_start_inv c_server_inv_step [OF E])+
qed

text \<open>Every call of such a program that follows the contract returns, keeps the server in a state that it
  reaches, and is the step that it stands for; an error leaves the server as it was.\<close>

theorem c_server_refines:
  assumes "env_laws E" "c_server_run N E disp s" "c_server_owned call s"
  shows "\<exists>e s'. c_server_exec E disp call s = Some (e, s') \<and> c_server_run N E disp s' \<and> server_reachable E (cs_prog s')
    \<and> refines E (native_op disp call s) e (cs_prog s) (cs_prog s') \<and> cs_server s' = box_after call (cs_server s)"
proof -
  obtain e s' where x: "c_server_exec E disp call s = Some (e, s')"
    "refines E (native_op disp call s) e (cs_prog s) (cs_prog s')" "cs_server s' = box_after call (cs_server s)"
    using c_server_exec_refines [OF assms(1) c_server_run_inv [OF assms(1,2)] assms(3), of disp] by (auto simp: step_refines_def)
  have "c_server_run N E disp s'" by (rule c_run_call [OF assms(2,3) x(1)])
  with x c_server_run_inv [OF assms(1) this] show ?thesis by (auto simp: c_server_inv_def)
qed

section \<open>Callbacks\<close>

text \<open>Only the callback for advertised channels can panic, and it does when a client sends a null
  character in one of the strings.\<close>

definition has_null :: "ClientChannel \<Rightarrow> bool" where
  "has_null ch \<longleftrightarrow> (\<exists>t \<in> {cch_topic ch, cch_encoding ch, cch_schema_name ch} \<union> set_option (cch_schema_encoding ch). 0 \<in> set (as_bytes t))"

lemma advertise_panics: "c_on_client_advertise ch = None \<longleftrightarrow> has_null ch"
  by (cases "cch_schema_encoding ch")
    (auto simp: c_on_client_advertise_def cstring_def has_null_def split: bind_splits if_splits)

theorem c_listener_panics:
  "c_listener cbs sink call = None \<longleftrightarrow>
    fcb_on_client_advertise cbs \<and> (\<exists>client channel. call = On_client_advertise client channel \<and> has_null channel)"
  by (cases call) (simp_all add: advertise_panics)

text \<open>What C reads from the strings is what the client sent.\<close>

lemma cstring_read: "cstring t = Some p \<Longrightarrow> cstr_read p = as_bytes t"
proof -
  assume "cstring t = Some p"
  then have "0 \<notin> set (as_bytes t)" "p = as_bytes t @ [0]" by (auto simp: cstring_def split: if_splits)
  moreover have "takeWhile (\<lambda>b. b \<noteq> 0) (bs @ [0]) = bs" if "0 \<notin> set bs" for bs :: "u8 list"
    using that by (induction bs) auto
  ultimately show "cstr_read p = as_bytes t" by (simp add: cstr_read_def)
qed

theorem c_advertise_read:
  assumes "c_on_client_advertise ch = Some c"
  shows "fcc_id c = cch_id ch \<and> cstr_read (fcc_topic c) = as_bytes (cch_topic ch) \<and> cstr_read (fcc_encoding c) = as_bytes (cch_encoding ch)
    \<and> cstr_read (fcc_schema_name c) = as_bytes (cch_schema_name ch)
    \<and> map_option cstr_read (fcc_schema_encoding c) = map_option as_bytes (cch_schema_encoding ch)
    \<and> fcc_schema c = cch_schema ch"
  using assms
  by (cases "cch_schema_encoding ch") (auto simp: c_on_client_advertise_def bind_eq_Some_conv cstring_read)

section \<open>Examples\<close>

definition demo_net :: net_env where
  "demo_net = \<lparr> net_tls = (\<lambda>_. Inr ()), net_bind = (\<lambda>_ port. Inr port) \<rparr>"

definition c_server_options :: "u8 \<Rightarrow> FoxgloveServerOptions" where
  "c_server_options capabilities = \<lparr> fso_name = lend ''demo'', fso_host = lend ''127.0.0.1'', fso_port = 8765, fso_callbacks = None,
     fso_capabilities = capabilities, fso_supported_encodings = None, fso_supported_encodings_count = 0, fso_server_info = None,
     fso_server_info_count = 0, fso_fetch_asset = False, fso_tls_cert = None, fso_tls_key = None, fso_sink_channel_filter = None,
     fso_playback_start_time = None, fso_playback_end_time = None, fso_session_id = None \<rparr>"

lemma c_demo_builder: "server_builder ''id'' (c_server_options flags) =
    Inr (server_bind ''127.0.0.1'' 8765 (server_capabilities (iter_websocket_capabilities flags) (server_name ''demo'' (websocket_server_new ''id''))))"
proof -
  have "is_str ''demo''" "is_str ''127.0.0.1''" by (rule is_str_ascii; auto)+
  then have "utf8_arg w (lend ''demo'') = Inr ''demo''" "utf8_arg w (lend ''127.0.0.1'') = Inr ''127.0.0.1''" for w
    by (simp_all add: utf8_arg_def lend_def as_utf8_str_as_bytes)
  then show ?thesis
    by (simp add: server_builder_def c_server_options_def set_encodings_def set_handlers_def set_tls_def set_info_def set_session_id_def Let_def)
qed

text \<open>A server starts, unless the flag for ranged playback is set without the times: then the start panics.\<close>

lemma c_server_starts: "\<exists>s. c_server_start demo_net ''id'' (c_server_options 0) = Some (C_Ok, Some s) \<and> cs_server s = Some (Some 8765)"
proof -
  let ?b = "server_bind ''127.0.0.1'' 8765 (server_capabilities [] (server_name ''demo'' (websocket_server_new ''id'')))"
  have "server_new [] (wb_options ?b) \<noteq> None"
    by (simp add: server_new_def builder_defs hs_from_iter_def service_map_from_iter_def hm_values_def Let_def)
  then obtain sv where sv: "server_new [] (wb_options ?b) = Some sv" by blast
  note new = server_new_fields(2,3) [OF sv]
  have "create_server demo_net ?b = Some (Inr sv)" using sv by (simp add: create_server_def demo_net_def)
  then have "\<exists>p. start_blocking demo_net ?b = Some (Inr (8765, p))"
    using new by (simp add: start_blocking_def server_start_def demo_net_def world_new_def Let_def server_bind_def)
  then obtain p where "start_blocking demo_net ?b = Some (Inr (8765, p))" ..
  moreover have "iter_websocket_capabilities 0 = []" by (simp add: iter_websocket_capabilities_def)
  ultimately show ?thesis by (simp add: c_server_start_def do_server_start_def c_demo_builder)
qed

lemma c_server_start_panics: "c_server_start demo_net ''id'' (c_server_options 64) = None"
proof -
  have "bit (64 :: u8) 6" by (simp add: bit_numeral_rec)
  then have "RangedPlayback \<in> set (hs_from_iter (iter_websocket_capabilities 64))" by (simp add: iter_websocket_capabilities_def)
  then show ?thesis
    by (simp add: c_server_start_def do_server_start_def c_demo_builder builder_defs start_blocking_def create_server_def
        demo_net_def server_new_def Let_def)
qed

text \<open>A service that a call refuses without taking it is still owned by the caller.\<close>

lemma add_service_null_server: "c_server_add_service E False (Some a) s = Some (C_ValueError, s)"
  by (simp add: c_server_add_service_def)

end
