(* ===== verification/Image_Raw.thy ===== *)
theory Image_Raw
  imports Rust_Prelude
begin

text \<open>
  Conversion of raw images to planar YUV 4:2:0 (\<open>img2yuv/mod.rs\<close>, \<open>img2yuv/raw.rs\<close>,
  \<open>img2yuv/raw/helpers.rs\<close>): the validation of the dimensions, the iterators over pixels and Bayer
  blocks, and what is handed to the \<open>yuv\<close> crate, whose conversions are a parameter. A
  floating-point number is its bit pattern; the three computations on such numbers are a
  parameter. The trait \<open>Yuv420Buffer\<close> is a record of functions, with the locale
  \<open>yuv420_buffer\<close> for what its documentation asks of an implementation, interpreted on
  \<open>Yuv420Vec\<close>. \<open>None\<close> is a panic; debug assertions count as assertions.
\<close>

section \<open>Errors, encodings and images\<close>

datatype ImageError =
  ZeroSized
| StrideTooSmall string u32 nat
| BufferTooSmall string nat nat
| DimensionMismatch string "u32 \<times> u32" "u32 \<times> u32"
| DimensionsTooLargeForU32
| BayerDimensionsMustBeEven u32 u32
| Yuv422WidthMustBeEven u32
| ReadDimensions string
| Decompress string
| ConvertToYuv420 string

datatype Endian = Little | Big
datatype BayerCfa = Bggr | Gbrg | Grbg | Rggb

datatype RawImageEncoding =
  Rgb8 | Rgba8 | Bgr8 | Bgra8 | Mono8 | Mono16 Endian | Mono32F Endian | Uyvy | Yuyv | Bayer8 BayerCfa

text \<open>The left side is \<open>UnknownEncodingError\<close>.\<close>

definition parse_endian :: "string \<Rightarrow> Endian \<Rightarrow> (RawImageEncoding, string) result" where
  "parse_endian s endian =
     (if s = ''rgb8'' then Inr Rgb8
      else if s = ''rgba8'' then Inr Rgba8
      else if s = ''bgr8'' \<or> s = ''8UC3'' then Inr Bgr8
      else if s = ''bgra8'' then Inr Bgra8
      else if s = ''yuv422'' \<or> s = ''uyvy'' then Inr Uyvy
      else if s = ''yuv422_yuy2'' \<or> s = ''yuyv'' then Inr Yuyv
      else if s = ''mono8'' \<or> s = ''8UC1'' then Inr Mono8
      else if s = ''mono16'' \<or> s = ''16UC1'' then Inr (Mono16 endian)
      else if s = ''32FC1'' then Inr (Mono32F endian)
      else if s = ''bayer_bggr8'' then Inr (Bayer8 Bggr)
      else if s = ''bayer_gbrg8'' then Inr (Bayer8 Gbrg)
      else if s = ''bayer_grbg8'' then Inr (Bayer8 Grbg)
      else if s = ''bayer_rggb8'' then Inr (Bayer8 Rggb)
      else Inl s)"

fun bytes_per_pixel :: "RawImageEncoding \<Rightarrow> nat" where
  "bytes_per_pixel Mono8 = 1"
| "bytes_per_pixel (Bayer8 _) = 1"
| "bytes_per_pixel Yuyv = 2"
| "bytes_per_pixel Uyvy = 2"
| "bytes_per_pixel (Mono16 _) = 2"
| "bytes_per_pixel Rgb8 = 3"
| "bytes_per_pixel Bgr8 = 3"
| "bytes_per_pixel Rgba8 = 4"
| "bytes_per_pixel Bgra8 = 4"
| "bytes_per_pixel (Mono32F _) = 4"

fun is_subsampled :: "RawImageEncoding \<Rightarrow> bool" where
  "is_subsampled (Bayer8 _) \<longleftrightarrow> True"
| "is_subsampled Uyvy \<longleftrightarrow> True"
| "is_subsampled Yuyv \<longleftrightarrow> True"
| "is_subsampled _ \<longleftrightarrow> False"

record RawImage =
  ri_encoding :: RawImageEncoding
  ri_width :: u32
  ri_height :: u32
  ri_stride :: u32
  ri_data :: "u8 list"

section \<open>The destination\<close>

type_synonym planes = "u8 list \<times> u8 list \<times> u8 list"

text \<open>\<open>yuv_mut\<close> is the pair of \<open>yuv\<close> and \<open>put_yuv\<close>: what is written to the slices is in the buffer
  afterwards. The slices keep their length.\<close>

record 'b yuv_ops =
  dimensions :: "'b \<Rightarrow> u32 \<times> u32"
  yuv :: "'b \<Rightarrow> planes may_panic"
  put_yuv :: "planes \<Rightarrow> 'b \<Rightarrow> 'b"
  yuv_strides :: "'b \<Rightarrow> u32 \<times> u32 \<times> u32"

fun check_strides :: "(string \<times> u32 \<times> nat) list \<Rightarrow> ImageError option" where
  "check_strides [] = None"
| "check_strides ((which, stride, row_size) # rest) =
     (if unat stride < row_size then Some (StrideTooSmall which stride row_size) else check_strides rest)"

fun check_planes :: "(string \<times> nat \<times> nat) list \<Rightarrow> ImageError option" where
  "check_planes [] = None"
| "check_planes ((which, actual, expect) # rest) =
     (if actual < expect then Some (BufferTooSmall which actual expect) else check_planes rest)"

definition buffer_validate :: "'b yuv_ops \<Rightarrow> 'b \<Rightarrow> (unit, ImageError) result may_panic" where
  "buffer_validate B b =
     (let (width, height) = dimensions B b; (y_stride, u_stride, v_stride) = yuv_strides B b in
      case check_strides [(''y'', y_stride, unat width), (''u'', u_stride, unat width div 2), (''v'', v_stride, unat width div 2)] of
        Some e \<Rightarrow> Some (Inl e)
      | None \<Rightarrow> do {
          (y, u, v) \<leftarrow> yuv B b;
          (case check_planes [(''y'', length y, unat y_stride * unat height),
                              (''u'', length u, unat u_stride * unat height div 2),
                              (''v'', length v, unat v_stride * unat height div 2)] of
             Some e \<Rightarrow> Some (Inl e)
           | None \<Rightarrow> Some (Inr ()))
        })"

definition buffer_validate_dimensions ::
  "'b yuv_ops \<Rightarrow> 'b \<Rightarrow> u32 \<Rightarrow> u32 \<Rightarrow> (unit, ImageError) result may_panic" where
  "buffer_validate_dimensions B b width height =
     (if dimensions B b \<noteq> (width, height)
      then Some (Inl (DimensionMismatch ''Yuv420Buffer'' (width, height) (dimensions B b)))
      else buffer_validate B b)"

record Yuv420Vec =
  yv_data :: "u8 list"
  yv_width :: u32
  yv_height :: u32

text \<open>\<open>None\<close> is the failed assertion, or a length that no vector can have; the product of the length is taken to be
  checked for overflow, as in a debug build.\<close>

definition yuv420_vec_new :: "u32 \<Rightarrow> u32 \<Rightarrow> Yuv420Vec may_panic" where
  "yuv420_vec_new width height =
     (if \<not> (width mod 2 = 0 \<and> height mod 2 = 0) then None
      else let len = (unat width * unat height div 2) * 3 in
        if len \<ge> 2 ^ 63 then None
        else Some \<lparr> yv_data = replicate len 0, yv_width = width, yv_height = height \<rparr>)"

definition split_at :: "nat \<Rightarrow> 'a list \<Rightarrow> ('a list \<times> 'a list) may_panic" where
  "split_at n xs = (if n \<le> length xs then Some (take n xs, drop n xs) else None)"

definition yuv420_vec_yuv :: "Yuv420Vec \<Rightarrow> planes may_panic" where
  "yuv420_vec_yuv b =
     (let ylen = unat (yv_width b) * unat (yv_height b); ulen = ylen div 4 in do {
        (y, uv) \<leftarrow> split_at ylen (yv_data b);
        (u, v) \<leftarrow> split_at ulen uv;
        Some (y, u, v)
      })"

definition yuv420_vec_ops :: "Yuv420Vec yuv_ops" where
  "yuv420_vec_ops = \<lparr>
     dimensions = (\<lambda>b. (yv_width b, yv_height b)),
     yuv = yuv420_vec_yuv,
     put_yuv = (\<lambda>(y, u, v) b. b \<lparr> yv_data := y @ u @ v \<rparr>),
     yuv_strides = (\<lambda>b. (yv_width b, yv_width b div 2, yv_width b div 2)) \<rparr>"

section \<open>Third-party conversions and floating-point numbers\<close>

text \<open>The argument \<open>YuvPlanarImageMut\<close> of the conversions: dimensions, strides and planes.\<close>

type_synonym planar = "(u32 \<times> u32) \<times> (u32 \<times> u32 \<times> u32) \<times> planes"

text \<open>The conversions write the planes, of which they keep the lengths, and may report an error. A
  packed image is its bytes, its stride and its dimensions.\<close>

record yuv_crate =
  from_rgb :: "RawImageEncoding \<Rightarrow> planar \<Rightarrow> u8 list \<Rightarrow> u32 \<Rightarrow> (unit, string) result \<times> planes"
  from_packed :: "RawImageEncoding \<Rightarrow> planar \<Rightarrow> u8 list \<Rightarrow> u32 \<Rightarrow> u32 \<times> u32 \<Rightarrow> (unit, string) result \<times> planes"

text \<open>\<open>f32::from(p) / 255.0\<close>, \<open>f32::from(p) / 65535.0\<close> and
  \<open>(16.0 + p.clamp(0.0, 1.0) * 219.0).round() as u8\<close>.\<close>

record f32_ops =
  unit_of_u8 :: "u8 \<Rightarrow> u32"
  unit_of_u16 :: "u16 \<Rightarrow> u32"
  luma :: "u32 \<Rightarrow> u8"

definition wrapped :: "'b yuv_ops \<Rightarrow> 'b \<Rightarrow> planar may_panic" where
  "wrapped B b = do { p \<leftarrow> yuv B b; Some (dimensions B b, yuv_strides B b, p) }"

text \<open>A conversion of the crate, applied to the buffer.\<close>

definition run_conv ::
  "'b yuv_ops \<Rightarrow> (planar \<Rightarrow> (unit, string) result \<times> planes) \<Rightarrow> 'b \<Rightarrow> ((unit, ImageError) result \<times> 'b) may_panic" where
  "run_conv B conv dst = do {
     w \<leftarrow> wrapped B dst;
     Some (case conv w of (r, p) \<Rightarrow> (map_sum ConvertToYuv420 id r, put_yuv B p dst))
   }"

definition rgb_to_yuv420 ::
  "yuv_crate \<Rightarrow> 'b yuv_ops \<Rightarrow> 'b \<Rightarrow> RawImageEncoding \<Rightarrow> u8 list \<Rightarrow> u32 \<Rightarrow> ((unit, ImageError) result \<times> 'b) may_panic" where
  "rgb_to_yuv420 Y B dst encoding data stride =
     (if encoding \<in> {Rgb8, Rgba8, Bgr8, Bgra8}
      then run_conv B (\<lambda>w. from_rgb Y encoding w data stride) dst else None)"

text \<open>The rows without their padding.\<close>

fun pack_rows :: "nat list \<Rightarrow> nat \<Rightarrow> nat \<Rightarrow> u8 list \<Rightarrow> u8 list \<Rightarrow> u8 list may_panic" where
  "pack_rows [] s row_len data buf = Some buf"
| "pack_rows (row # rows) s row_len data buf = do {
     bytes \<leftarrow> slice_range (row * s) row_len data;
     pack_rows rows s row_len data (buf @ bytes)
   }"

definition yuv422_to_yuv420 ::
  "yuv_crate \<Rightarrow> 'b yuv_ops \<Rightarrow> 'b \<Rightarrow> RawImageEncoding \<Rightarrow> u8 list \<Rightarrow> u32 \<Rightarrow> ((unit, ImageError) result \<times> 'b) may_panic" where
  "yuv422_to_yuv420 Y B dst encoding data stride =
     (let (width, height) = dimensions B dst in
      if width mod 2 \<noteq> 0 then Some (Inl (Yuv422WidthMustBeEven width), dst)
      else do {
        expected_stride \<leftarrow> u32_checked_mul 2 width;
        yuy \<leftarrow> (if stride = expected_stride then Some data
                else pack_rows [0..<unat height] (unat stride) (2 * unat width) data []);
        (if encoding \<in> {Yuyv, Uyvy}
         then run_conv B (\<lambda>w. from_packed Y encoding w yuy expected_stride (width, height)) dst else None)
      })"

text \<open>The loop of \<open>mono_to_yuv420\<close> over the enumerated pixels; the result ends with the count.\<close>

fun mono_loop :: "f32_ops \<Rightarrow> nat \<Rightarrow> nat \<Rightarrow> nat \<Rightarrow> u32 list \<Rightarrow> u8 list \<Rightarrow> (u8 list \<times> nat) may_panic" where
  "mono_loop FP width y_stride i [] y = Some (y, i)"
| "mono_loop FP width y_stride i (p # ps) y =
     (if width = 0 then None
      else
        let row = i div width; col = i mod width; pos = col + row * y_stride in
        if pos < length y then mono_loop FP width y_stride (i + 1) ps (y[pos := luma FP p]) else None)"

definition mono_to_yuv420 :: "f32_ops \<Rightarrow> 'b yuv_ops \<Rightarrow> 'b \<Rightarrow> u32 list \<Rightarrow> 'b may_panic" where
  "mono_to_yuv420 FP B dst data =
     (let (width, height) = dimensions B dst; (y_stride, _, _) = yuv_strides B dst in do {
        (y, u, v) \<leftarrow> yuv B dst;
        (y', count) \<leftarrow> mono_loop FP (unat width) (unat y_stride) 0 data y;
        (if count = unat width * unat height
         then Some (put_yuv B (y', replicate (length u) 128, replicate (length v) 128) dst) else None)
      })"

section \<open>Pixels\<close>

record Pixels =
  px_data :: "u8 list"
  px_width :: nat
  px_height :: nat
  px_stride :: nat
  px_row :: nat
  px_col :: nat

definition pixels_new :: "RawImage \<Rightarrow> Pixels" where
  "pixels_new img = \<lparr> px_data = ri_data img, px_width = unat (ri_width img), px_height = unat (ri_height img),
     px_stride = unat (ri_stride img), px_row = 0, px_col = 0 \<rparr>"

text \<open>\<open>width - 1\<close> panics for a width of zero.\<close>

definition pixels_next :: "nat \<Rightarrow> Pixels \<Rightarrow> (u8 list option \<times> Pixels) may_panic" where
  "pixels_next N p =
     (if px_row p = px_height p then Some (None, p)
      else if px_width p = 0 then None
      else
        let pos = px_row p * px_stride p + px_col p * N;
            p' = (if px_col p = px_width p - 1 then p \<lparr> px_col := 0, px_row := px_row p + 1 \<rparr>
                  else p \<lparr> px_col := px_col p + 1 \<rparr>) in do {
          bytes \<leftarrow> slice_range pos N (px_data p);
          Some (Some bytes, p')
        })"

text \<open>The items that a loop over the iterator sees. \<open>None\<close> stands for a panic and for a loop that
  does not end.\<close>

partial_function (option) pixels_items :: "nat \<Rightarrow> Pixels \<Rightarrow> u8 list list may_panic" where
  "pixels_items N p = do {
     (item, p') \<leftarrow> pixels_next N p;
     (case item of
        None \<Rightarrow> Some []
      | Some bytes \<Rightarrow> do { items \<leftarrow> pixels_items N p'; Some (bytes # items) })
   }"

definition image_pixels :: "nat \<Rightarrow> RawImage \<Rightarrow> u8 list list may_panic" where
  "image_pixels N img =
     (if is_subsampled (ri_encoding img) \<or> bytes_per_pixel (ri_encoding img) \<noteq> N then None
      else pixels_items N (pixels_new img))"

section \<open>Bayer blocks\<close>

record BayerPixel =
  bp_r :: u8
  bp_g0 :: u8
  bp_g1 :: u8
  bp_b :: u8
  bp_row :: nat
  bp_col :: nat

record Bayer8Pixels = Pixels +
  bx_cfa :: BayerCfa

definition bayer8_pixels_new :: "RawImage \<Rightarrow> BayerCfa \<Rightarrow> (Bayer8Pixels, ImageError) result" where
  "bayer8_pixels_new img cfa =
     (if ri_width img mod 2 \<noteq> 0 \<or> ri_height img mod 2 \<noteq> 0
      then Inl (BayerDimensionsMustBeEven (ri_width img) (ri_height img))
      else Inr \<lparr> px_data = ri_data img, px_width = unat (ri_width img), px_height = unat (ri_height img),
        px_stride = unat (ri_stride img), px_row = 0, px_col = 0, bx_cfa = cfa \<rparr>)"

fun bayer_channels :: "BayerCfa \<Rightarrow> u8 \<times> u8 \<times> u8 \<times> u8 \<Rightarrow> u8 \<times> u8 \<times> u8 \<times> u8" where
  "bayer_channels Bggr (v0, v1, v2, v3) = (v3, v1, v2, v0)"
| "bayer_channels Gbrg (v0, v1, v2, v3) = (v2, v0, v3, v1)"
| "bayer_channels Grbg (v0, v1, v2, v3) = (v1, v0, v3, v2)"
| "bayer_channels Rggb v = v"

text \<open>\<open>width - 2\<close> panics for a width below two.\<close>

definition bayer_next :: "Bayer8Pixels \<Rightarrow> (BayerPixel option \<times> Bayer8Pixels) may_panic" where
  "bayer_next p =
     (if px_row p = px_height p then Some (None, p)
      else
        let r0 = px_row p * px_stride p + px_col p; r1 = r0 + px_stride p in do {
          v0 \<leftarrow> index_at (px_data p) r0;
          v1 \<leftarrow> index_at (px_data p) (r0 + 1);
          v2 \<leftarrow> index_at (px_data p) r1;
          v3 \<leftarrow> index_at (px_data p) (r1 + 1);
          (let (r, g0, g1, b) = bayer_channels (bx_cfa p) (v0, v1, v2, v3);
               pixel = \<lparr> bp_r = r, bp_g0 = g0, bp_g1 = g1, bp_b = b, bp_row = px_row p, bp_col = px_col p \<rparr> in
           if px_width p < 2 then None
           else Some (Some pixel, if px_col p = px_width p - 2 then p \<lparr> px_col := 0, px_row := px_row p + 2 \<rparr>
                                  else p \<lparr> px_col := px_col p + 2 \<rparr>))
        })"

partial_function (option) bayer_items :: "Bayer8Pixels \<Rightarrow> BayerPixel list may_panic" where
  "bayer_items p = do {
     (item, p') \<leftarrow> bayer_next p;
     (case item of
        None \<Rightarrow> Some []
      | Some x \<Rightarrow> do { items \<leftarrow> bayer_items p'; Some (x # items) })
   }"

text \<open>\<open>data[i..i + n].copy_from_slice(src)\<close> for a source of that length.\<close>

definition copy_to :: "nat \<Rightarrow> 'a list \<Rightarrow> 'a list \<Rightarrow> 'a list may_panic" where
  "copy_to i src data =
     (if i + length src \<le> length data then Some (take i data @ src @ drop (i + length src) data) else None)"

fun bayer_fill :: "nat \<Rightarrow> BayerPixel list \<Rightarrow> u8 list \<Rightarrow> u8 list may_panic" where
  "bayer_fill width [] data = Some data"
| "bayer_fill width (bp # bps) data =
     (let r0 = 3 * (bp_row bp * width + bp_col bp); r1 = 3 * ((bp_row bp + 1) * width + bp_col bp);
          r = bp_r bp; g0 = bp_g0 bp; g1 = bp_g1 bp; b = bp_b bp in do {
        data1 \<leftarrow> copy_to r0 [r, g0, b, r, g0, b] data;
        data2 \<leftarrow> copy_to r1 [r, g1, b, r, g1, b] data1;
        bayer_fill width bps data2
      })"

section \<open>The conversion\<close>

definition image_validate_dimensions :: "RawImage \<Rightarrow> (unit, ImageError) result" where
  "image_validate_dimensions i =
     (let row_size = unat (ri_width i) * bytes_per_pixel (ri_encoding i);
          expect = unat (ri_height i) * unat (ri_stride i);
          w = ri_width i mod 2 = 0; h = ri_height i mod 2 = 0 in
      if ri_width i = 0 \<or> ri_height i = 0 then Inl ZeroSized
      else if unat (ri_stride i) < row_size then Inl (StrideTooSmall ''RawImage'' (ri_stride i) row_size)
      else if length (ri_data i) < expect then Inl (BufferTooSmall ''RawImage'' (length (ri_data i)) expect)
      else
        (case ri_encoding i of
           Bayer8 _ \<Rightarrow> if \<not> (w \<and> h) then Inl (BayerDimensionsMustBeEven (ri_width i) (ri_height i)) else Inr ()
         | Uyvy \<Rightarrow> if \<not> w then Inl (Yuv422WidthMustBeEven (ri_width i)) else Inr ()
         | Yuyv \<Rightarrow> if \<not> w then Inl (Yuv422WidthMustBeEven (ri_width i)) else Inr ()
         | _ \<Rightarrow> Inr ()))"

text \<open>The numbers are the bit patterns of \<open>f32\<close> values; \<open>from_be_bytes\<close> reads the reversed bytes.\<close>

definition endian_bytes :: "Endian \<Rightarrow> u8 list \<Rightarrow> u8 list" where
  "endian_bytes e bs = (case e of Big \<Rightarrow> rev bs | Little \<Rightarrow> bs)"

definition bayer_to_rgb :: "RawImage \<Rightarrow> BayerCfa \<Rightarrow> ((u8 list \<times> u32, ImageError) result) may_panic" where
  "bayer_to_rgb i cfa =
     (case u32_checked_mul (ri_width i) 3 of
        None \<Rightarrow> Some (Inl DimensionsTooLargeForU32)
      | Some stride \<Rightarrow>
          (case usize_checked_mul (unat stride) (unat (ri_height i)) of
             None \<Rightarrow> Some (Inl DimensionsTooLargeForU32)
           | Some rgb_size \<Rightarrow>
               if rgb_size \<ge> 2 ^ 63 then None
               else
               (case bayer8_pixels_new i cfa of
                  Inl _ \<Rightarrow> None
                | Inr pixels \<Rightarrow> do {
                    items \<leftarrow> bayer_items pixels;
                    data \<leftarrow> bayer_fill (unat (ri_width i)) items (replicate rgb_size 0);
                    Some (Inr (data, stride))
                  })))"

definition convert_raw ::
  "yuv_crate \<Rightarrow> f32_ops \<Rightarrow> 'b yuv_ops \<Rightarrow> RawImage \<Rightarrow> 'b \<Rightarrow> ((unit, ImageError) result \<times> 'b) may_panic" where
  "convert_raw Y FP B i dst =
     (case ri_encoding i of
        Mono8 \<Rightarrow> do {
          ps \<leftarrow> image_pixels 1 i;
          dst' \<leftarrow> mono_to_yuv420 FP B dst (map (\<lambda>p. unit_of_u8 FP (hd p)) ps);
          Some (Inr (), dst')
        }
      | Mono16 e \<Rightarrow> do {
          ps \<leftarrow> image_pixels 2 i;
          dst' \<leftarrow> mono_to_yuv420 FP B dst (map (\<lambda>p. unit_of_u16 FP (u16_from_le_bytes (endian_bytes e p))) ps);
          Some (Inr (), dst')
        }
      | Mono32F e \<Rightarrow> do {
          ps \<leftarrow> image_pixels 4 i;
          dst' \<leftarrow> mono_to_yuv420 FP B dst (map (\<lambda>p. u32_from_le_bytes (endian_bytes e p)) ps);
          Some (Inr (), dst')
        }
      | Uyvy \<Rightarrow> yuv422_to_yuv420 Y B dst Uyvy (ri_data i) (ri_stride i)
      | Yuyv \<Rightarrow> yuv422_to_yuv420 Y B dst Yuyv (ri_data i) (ri_stride i)
      | Bayer8 cfa \<Rightarrow> do {
          r \<leftarrow> bayer_to_rgb i cfa;
          (case r of
             Inl e \<Rightarrow> Some (Inl e, dst)
           | Inr (data, stride) \<Rightarrow> rgb_to_yuv420 Y B dst Rgb8 data stride)
        }
      | encoding \<Rightarrow> rgb_to_yuv420 Y B dst encoding (ri_data i) (ri_stride i))"

definition raw_to_yuv420 ::
  "yuv_crate \<Rightarrow> f32_ops \<Rightarrow> 'b yuv_ops \<Rightarrow> RawImage \<Rightarrow> 'b \<Rightarrow> ((unit, ImageError) result \<times> 'b) may_panic" where
  "raw_to_yuv420 Y FP B i dst =
     (case image_validate_dimensions i of
        Inl e \<Rightarrow> Some (Inl e, dst)
      | Inr _ \<Rightarrow> do {
          r \<leftarrow> buffer_validate_dimensions B dst (ri_width i) (ri_height i);
          (case r of
             Inl e \<Rightarrow> Some (Inl e, dst)
           | Inr _ \<Rightarrow> convert_raw Y FP B i dst)
        })"

section \<open>Loops over pixels\<close>

text \<open>The position of the \<open>k\<close>th pixel, row by row.\<close>

lemma div_mod_Suc:
  assumes "0 < (w :: nat)"
  shows "Suc k div w = (if k mod w = w - 1 then k div w + 1 else k div w)"
    "Suc k mod w = (if k mod w = w - 1 then 0 else k mod w + 1)"
proof -
  have "Suc (k mod w) = w \<longleftrightarrow> k mod w = w - 1" using assms by linarith
  then show "Suc k div w = (if k mod w = w - 1 then k div w + 1 else k div w)"
    "Suc k mod w = (if k mod w = w - 1 then 0 else k mod w + 1)"
    by (simp_all add: div_Suc mod_Suc)
qed

lemma div_less_rows: "k < h * w \<Longrightarrow> k div w < (h :: nat)"
  by (simp add: less_mult_imp_div_less)

lemma row_fits:
  assumes "r < h" "c < w" "w * n \<le> stride" "h * stride \<le> (len :: nat)"
  shows "r * stride + c * n + n \<le> len"
proof -
  have "c * n + n \<le> stride" using assms(2,3) mult_le_mono1 [of "Suc c" w n] by simp
  moreover have "Suc r * stride \<le> h * stride" using assms(1) by (intro mult_le_mono1) simp
  ultimately show ?thesis using assms(4) by simp
qed

definition pixel_at :: "nat \<Rightarrow> u8 list \<Rightarrow> nat \<Rightarrow> nat \<Rightarrow> nat \<Rightarrow> u8 list" where
  "pixel_at N data stride r c = take N (drop (r * stride + c * N) data)"

lemma pixels_items_from:
  assumes "0 < w" "w * N \<le> stride" "h * stride \<le> length data"
  shows "k \<le> h * w \<Longrightarrow> pixels_items N \<lparr> px_data = data, px_width = w, px_height = h, px_stride = stride,
      px_row = k div w, px_col = k mod w \<rparr> = Some (map (\<lambda>j. pixel_at N data stride (j div w) (j mod w)) [k..<h * w])"
proof (induction "h * w - k" arbitrary: k)
  case 0
  then have "k = h * w" by simp
  then show ?case using assms(1) by (subst pixels_items.simps) (simp add: pixels_next_def)
next
  case (Suc n)
  then have k: "k < h * w" by linarith
  have "k div w * stride + k mod w * N + N \<le> length data"
    using assms div_less_rows [OF k] by (intro row_fits [of _ h _ w]) simp_all
  moreover have "pixels_items N \<lparr> px_data = data, px_width = w, px_height = h, px_stride = stride,
      px_row = Suc k div w, px_col = Suc k mod w \<rparr> =
      Some (map (\<lambda>j. pixel_at N data stride (j div w) (j mod w)) [Suc k..<h * w])"
    using Suc k by (intro Suc.hyps(1)) simp_all
  ultimately show ?case using assms(1) div_less_rows [OF k] k
    by (subst pixels_items.simps)
      (auto simp: pixels_next_def Let_def slice_range_def div_mod_Suc [OF assms(1)] pixel_at_def upt_conv_Cons split: if_splits)
qed

lemma pixels_items_all:
  assumes "0 < w" "w * N \<le> stride" "h * stride \<le> length data"
  shows "pixels_items N \<lparr> px_data = data, px_width = w, px_height = h, px_stride = stride, px_row = 0, px_col = 0 \<rparr> =
      Some (map (\<lambda>j. pixel_at N data stride (j div w) (j mod w)) [0..<h * w])"
  using pixels_items_from [OF assms, of 0] by simp

text \<open>The loop that fills the luma plane.\<close>

abbreviation plane_pos :: "nat \<Rightarrow> nat \<Rightarrow> nat \<Rightarrow> nat" where
  "plane_pos w ys k \<equiv> k mod w + k div w * ys"

lemma plane_pos_inj:
  assumes "0 < w" "w \<le> ys" "plane_pos w ys k = plane_pos w ys j"
  shows "k = j"
proof -
  have lt: "k mod w < ys" "j mod w < ys" using assms(1,2) by (meson mod_less_divisor less_le_trans)+
  have "(k mod w + k div w * ys) div ys = k div w" "(k mod w + k div w * ys) mod ys = k mod w"
    "(j mod w + j div w * ys) div ys = j div w" "(j mod w + j div w * ys) mod ys = j mod w"
    using lt by simp_all
  then have "k div w = j div w" "k mod w = j mod w" using assms(3) by simp_all
  then show ?thesis by (metis div_mult_mod_eq)
qed

lemma plane_pos_less: "0 < w \<Longrightarrow> w \<le> ys \<Longrightarrow> k < h * w \<Longrightarrow> plane_pos w ys k < ys * (h :: nat)"
  using row_fits [of "k div w" h "k mod w" w 1 ys "h * ys"] by (simp add: div_less_rows mult.commute)

lemma mono_loop_ok:
  assumes w: "0 < w" "w \<le> ys"
  shows "ys * h \<le> length y \<Longrightarrow> i + length ps \<le> h * w \<Longrightarrow>
    \<exists>y'. mono_loop FP w ys i ps y = Some (y', i + length ps) \<and> length y' = length y
    \<and> (\<forall>k < length ps. y' ! plane_pos w ys (i + k) = luma FP (ps ! k))
    \<and> (\<forall>j < length y. (\<forall>k < length ps. j \<noteq> plane_pos w ys (i + k)) \<longrightarrow> y' ! j = y ! j)"
proof (induction ps arbitrary: i y)
  case (Cons p ps)
  let ?y = "y[plane_pos w ys i := luma FP p]"
  have pos: "plane_pos w ys i < length y" using plane_pos_less [OF w, of i h] Cons.prems by simp
  obtain y' where y': "mono_loop FP w ys (Suc i) ps ?y = Some (y', Suc i + length ps)" "length y' = length y"
    "\<forall>k < length ps. y' ! plane_pos w ys (Suc i + k) = luma FP (ps ! k)"
    "\<forall>j < length y. (\<forall>k < length ps. j \<noteq> plane_pos w ys (Suc i + k)) \<longrightarrow> y' ! j = ?y ! j"
    using Cons.IH [of ?y "Suc i"] Cons.prems by auto
  have "plane_pos w ys i \<noteq> plane_pos w ys (Suc i + k)" for k using plane_pos_inj [OF w, of i "Suc i + k"] by auto
  then have first: "y' ! plane_pos w ys i = luma FP p" using y'(4) pos by auto
  have "y' ! plane_pos w ys (i + k) = luma FP ((p # ps) ! k)" if "k < length (p # ps)" for k
    using that first y'(3) by (cases k) simp_all
  moreover have "y' ! j = y ! j" if j: "j < length y" "\<forall>k < length (p # ps). j \<noteq> plane_pos w ys (i + k)" for j
  proof -
    have "j \<noteq> plane_pos w ys i" using j(2) by force
    moreover have "j \<noteq> plane_pos w ys (Suc i + k)" if "k < length ps" for k
      using j(2) [rule_format, of "Suc k"] that by simp
    ultimately show ?thesis using y'(4) j(1) by simp
  qed
  ultimately show ?case using y'(1,2) pos w(1) by (simp add: Let_def)
qed simp

section \<open>Loops over Bayer blocks\<close>

definition bayer_block :: "BayerCfa \<Rightarrow> u8 list \<Rightarrow> nat \<Rightarrow> nat \<Rightarrow> nat \<Rightarrow> BayerPixel" where
  "bayer_block cfa data stride r c =
     (let at = (\<lambda>i j. data ! ((r + i) * stride + c + j)); (red, g0, g1, blue) = bayer_channels cfa (at 0 0, at 0 1, at 1 0, at 1 1) in
      \<lparr> bp_r = red, bp_g0 = g0, bp_g1 = g1, bp_b = blue, bp_row = r, bp_col = c \<rparr>)"

lemma bayer_next_block:
  assumes "r \<noteq> h" "2 \<le> w" "(r + 1) * stride + c + 1 < length data"
  shows "bayer_next \<lparr> px_data = data, px_width = w, px_height = h, px_stride = stride, px_row = r, px_col = c, bx_cfa = cfa \<rparr> =
    Some (Some (bayer_block cfa data stride r c), \<lparr> px_data = data, px_width = w, px_height = h, px_stride = stride,
      px_row = (if c = w - 2 then r + 2 else r), px_col = (if c = w - 2 then 0 else c + 2), bx_cfa = cfa \<rparr>)"
proof -
  have eq: "r * stride + c + stride = (r + 1) * stride + c" by simp
  have "r * stride + c < length data" "r * stride + c + 1 < length data" "(r + 1) * stride + c < length data"
    using assms(3) by simp_all
  then show ?thesis using assms unfolding bayer_next_def bayer_block_def Let_def index_at_def
    by (simp add: eq split: prod.split)
qed

lemma bayer_items_from:
  assumes "0 < w2" "2 * w2 \<le> stride" "2 * h2 * stride \<le> length data"
  shows "k \<le> h2 * w2 \<Longrightarrow> bayer_items \<lparr> px_data = data, px_width = 2 * w2, px_height = 2 * h2, px_stride = stride,
      px_row = 2 * (k div w2), px_col = 2 * (k mod w2), bx_cfa = cfa \<rparr> =
    Some (map (\<lambda>j. bayer_block cfa data stride (2 * (j div w2)) (2 * (j mod w2))) [k..<h2 * w2])"
proof (induction "h2 * w2 - k" arbitrary: k)
  case 0
  then have "k = h2 * w2" by simp
  then show ?case using assms(1) by (subst bayer_items.simps) (simp add: bayer_next_def)
next
  case (Suc n)
  then have k: "k < h2 * w2" by linarith
  have m: "k mod w2 < w2" "k div w2 < h2" using assms(1) div_less_rows [OF k] by simp_all
  let ?r = "2 * (k div w2)" and ?c = "2 * (k mod w2)"
  have "(?r + 1) * stride + (?c + 1) * 1 + 1 \<le> length data"
    using assms m by (intro row_fits [of _ "2 * h2" _ "2 * w2"]) simp_all
  then have in_range: "(?r + 1) * stride + ?c + 1 < length data" by simp
  have step: "2 * (k mod w2) = 2 * w2 - 2 \<longleftrightarrow> k mod w2 = w2 - 1" using assms(1) by linarith
  have "bayer_items \<lparr> px_data = data, px_width = 2 * w2, px_height = 2 * h2, px_stride = stride,
      px_row = 2 * (Suc k div w2), px_col = 2 * (Suc k mod w2), bx_cfa = cfa \<rparr> =
    Some (map (\<lambda>j. bayer_block cfa data stride (2 * (j div w2)) (2 * (j mod w2))) [Suc k..<h2 * w2])"
    using Suc k by (intro Suc.hyps(1)) simp_all
  then show ?case using m in_range k step assms(1)
    by (subst bayer_items.simps) (auto simp: bayer_next_block div_mod_Suc [OF assms(1)] upt_conv_Cons)
qed

text \<open>The reference: the colour filter arrays as documented, and the colour of a pixel from the
  samples of its two-by-two block, red and blue from the block and green from the pixel's row.\<close>

datatype colour = Red | Green | Blue

fun cfa_layout :: "BayerCfa \<Rightarrow> colour list list" where
  "cfa_layout Bggr = [[Blue, Green], [Green, Red]]"
| "cfa_layout Gbrg = [[Green, Blue], [Red, Green]]"
| "cfa_layout Grbg = [[Green, Red], [Blue, Green]]"
| "cfa_layout Rggb = [[Red, Green], [Green, Blue]]"

definition sample_of :: "BayerCfa \<Rightarrow> colour \<Rightarrow> (nat \<times> nat) list \<Rightarrow> (nat \<Rightarrow> nat \<Rightarrow> u8) \<Rightarrow> u8" where
  "sample_of cfa x places at =
     (case find (\<lambda>(i, j). cfa_layout cfa ! i ! j = x) places of Some (i, j) \<Rightarrow> at i j | None \<Rightarrow> 0)"

definition demosaic :: "BayerCfa \<Rightarrow> u8 list \<Rightarrow> nat \<Rightarrow> nat \<Rightarrow> nat \<Rightarrow> u8 list" where
  "demosaic cfa data stride r c =
     (let block = [(0, 0), (0, 1), (1, 0), (1, 1)]; row = [(r mod 2, 0), (r mod 2, 1)];
          at = (\<lambda>i j. data ! ((r - r mod 2 + i) * stride + (c - c mod 2) + j)) in
      [sample_of cfa Red block at, sample_of cfa Green row at, sample_of cfa Blue block at])"

lemma bayer_block_demosaic:
  assumes "r div 2 = r2" "c div 2 = c2"
  shows "demosaic cfa data stride r c =
    (let bp = bayer_block cfa data stride (2 * r2) (2 * c2) in [bp_r bp, if even r then bp_g0 bp else bp_g1 bp, bp_b bp])"
proof -
  have "r - r mod 2 = 2 * r2" "c - c mod 2 = 2 * c2" using assms by (simp_all add: minus_mod_eq_mult_div)
  moreover have "r mod 2 = (if even r then 0 else 1)" by (simp add: odd_iff_mod_2_eq_one)
  ultimately show ?thesis
    by (cases cfa; cases "even r") (simp_all add: demosaic_def bayer_block_def sample_of_def Let_def)
qed

lemma nth_copy_to:
  "copy_to i src data = Some data' \<Longrightarrow> length data' = length data
    \<and> (\<forall>j < length data. data' ! j = (if i \<le> j \<and> j < i + length src then src ! (j - i) else data ! j))"
  by (auto simp: copy_to_def nth_append split: if_splits)

lemma copy_to_fits: "i + length src \<le> length data \<Longrightarrow> \<exists>data'. copy_to i src data = Some data'"
  by (simp add: copy_to_def)

text \<open>A pixel of the copied pair is the pixel of the destination at the place of the copy.\<close>

lemma pixel_in_pair:
  fixes r r' :: nat
  assumes "c < w" "c' + 1 < (w :: nat)" "ch < 3"
  defines "j \<equiv> 3 * (r * w + c) + ch" and "i \<equiv> 3 * (r' * w + c')"
  shows "i \<le> j \<and> j < i + 6 \<longleftrightarrow> r = r' \<and> (c = c' \<or> c = c' + 1)"
    "r = r' \<and> (c = c' \<or> c = c' + 1) \<Longrightarrow> [x, g, b, x, g, b] ! (j - i) = [x, g, b] ! ch"
proof -
  have pair: "r * w + c = r' * w + d \<longleftrightarrow> r = r' \<and> c = d" if d: "d < w" for d
  proof
    assume eq: "r * w + c = r' * w + d"
    have "(r * w + c) div w = r" "(r' * w + d) div w = r'" using assms(1) d by simp_all
    then show "r = r' \<and> c = d" using eq by simp
  qed simp
  have "i \<le> j \<and> j < i + 6 \<longleftrightarrow> r * w + c = r' * w + c' \<or> r * w + c = r' * w + (c' + 1)"
    using assms(3) unfolding i_def j_def by presburger
  then show "i \<le> j \<and> j < i + 6 \<longleftrightarrow> r = r' \<and> (c = c' \<or> c = c' + 1)"
    using pair [of c'] pair [of "c' + 1"] assms(2) by auto
  assume at: "r = r' \<and> (c = c' \<or> c = c' + 1)"
  have "ch = 0 \<or> ch = 1 \<or> ch = 2" using assms(3) by linarith
  then show "[x, g, b, x, g, b] ! (j - i) = [x, g, b] ! ch" using at unfolding i_def j_def by auto
qed

lemma copy_pair:
  assumes "r' < h" "c' + 1 < w" "length data = 3 * (h * w)"
  shows "\<exists>d. copy_to (3 * (r' * w + c')) [x, g, b, x, g, b] data = Some d \<and> length d = length data
    \<and> (\<forall>r < h. \<forall>c < w. \<forall>ch < 3. d ! (3 * (r * w + c) + ch) =
        (if r = r' \<and> (c = c' \<or> c = c' + 1) then [x, g, b] ! ch else data ! (3 * (r * w + c) + ch)))"
proof -
  let ?i = "3 * (r' * w + c')"
  have "r' * w + (c' + 1) * 1 + 1 \<le> h * w" using assms by (intro row_fits [of _ h _ w]) simp_all
  then obtain d where d: "copy_to ?i [x, g, b, x, g, b] data = Some d"
    using copy_to_fits [of ?i "[x, g, b, x, g, b]" data] assms(3) by auto
  have "d ! (3 * (r * w + c) + ch) =
      (if r = r' \<and> (c = c' \<or> c = c' + 1) then [x, g, b] ! ch else data ! (3 * (r * w + c) + ch))"
    if in_image: "r < h" "c < w" "ch < 3" for r c ch
  proof -
    let ?j = "3 * (r * w + c) + ch"
    have "r * w + c * 1 + 1 \<le> h * w" using in_image by (intro row_fits [of _ h _ w]) simp_all
    then have "?j < length data" using in_image(3) assms(3) by simp
    then have "d ! ?j = (if ?i \<le> ?j \<and> ?j < ?i + 6 then [x, g, b, x, g, b] ! (?j - ?i) else data ! ?j)"
      using nth_copy_to [OF d] by simp
    then show ?thesis
      unfolding pixel_in_pair(1) [OF in_image(2) assms(2) in_image(3)]
      using pixel_in_pair(2) [OF in_image(2) assms(2) in_image(3), of r r' x g b] by presburger
  qed
  then show ?thesis using d nth_copy_to [OF d] by blast
qed

lemma bayer_fill_step:
  assumes "r' + 1 < h" "c' + 1 < w" "length data = 3 * (h * w)"
  shows "\<exists>d1 d2. copy_to (3 * (r' * w + c')) [x, g0, b, x, g0, b] data = Some d1
    \<and> copy_to (3 * ((r' + 1) * w + c')) [x, g1, b, x, g1, b] d1 = Some d2 \<and> length d2 = length data
    \<and> (\<forall>r < h. \<forall>c < w. \<forall>ch < 3. d2 ! (3 * (r * w + c) + ch) =
        (if (r = r' \<or> r = r' + 1) \<and> (c = c' \<or> c = c' + 1) then [x, if r = r' then g0 else g1, b] ! ch
         else data ! (3 * (r * w + c) + ch)))"
proof -
  have "r' < h" using assms(1) by simp
  from copy_pair [OF this assms(2,3), of x g0 b] obtain d1 where
    d1: "copy_to (3 * (r' * w + c')) [x, g0, b, x, g0, b] data = Some d1" "length d1 = length data"
    "\<forall>r < h. \<forall>c < w. \<forall>ch < 3. d1 ! (3 * (r * w + c) + ch) =
        (if r = r' \<and> (c = c' \<or> c = c' + 1) then [x, g0, b] ! ch else data ! (3 * (r * w + c) + ch))" by blast
  have "length d1 = 3 * (h * w)" using d1(2) assms(3) by simp
  from copy_pair [OF assms(1,2) this, of x g1 b] obtain d2 where
    d2: "copy_to (3 * ((r' + 1) * w + c')) [x, g1, b, x, g1, b] d1 = Some d2" "length d2 = length d1"
    "\<forall>r < h. \<forall>c < w. \<forall>ch < 3. d2 ! (3 * (r * w + c) + ch) =
        (if r = r' + 1 \<and> (c = c' \<or> c = c' + 1) then [x, g1, b] ! ch else d1 ! (3 * (r * w + c) + ch))" by blast
  show ?thesis using d1 d2 by (intro exI [of _ d1] exI [of _ d2]) auto
qed

text \<open>The number of the block of a pixel.\<close>

lemma block_of_pixel:
  assumes "c div 2 < (w2 :: nat)"
  shows "(r = 2 * (k div w2) \<or> r = 2 * (k div w2) + 1) \<and> (c = 2 * (k mod w2) \<or> c = 2 * (k mod w2) + 1)
    \<longleftrightarrow> r div 2 * w2 + c div 2 = k"
proof -
  have "(r = 2 * a \<or> r = 2 * a + 1) \<longleftrightarrow> r div 2 = a" "(c = 2 * a \<or> c = 2 * a + 1) \<longleftrightarrow> c div 2 = a" for a
    by presburger+
  moreover have "r div 2 * w2 + c div 2 = k \<longleftrightarrow> r div 2 = k div w2 \<and> c div 2 = k mod w2"
    using assms by auto
  ultimately show ?thesis by simp
qed

lemma bayer_fill_blocks:
  assumes "0 < w2"
  shows "k \<le> h2 * w2 \<Longrightarrow> length data = 3 * (2 * h2 * (2 * w2)) \<Longrightarrow>
    \<exists>d. bayer_fill (2 * w2) (map (\<lambda>j. bayer_block cfa src stride (2 * (j div w2)) (2 * (j mod w2))) [k..<h2 * w2]) data = Some d
    \<and> length d = length data
    \<and> (\<forall>r < 2 * h2. \<forall>c < 2 * w2. \<forall>ch < 3. d ! (3 * (r * (2 * w2) + c) + ch) =
        (if k \<le> r div 2 * w2 + c div 2 then demosaic cfa src stride r c ! ch else data ! (3 * (r * (2 * w2) + c) + ch)))"
proof (induction "h2 * w2 - k" arbitrary: k data)
  case 0
  have "\<not> h2 * w2 \<le> r div 2 * w2 + c div 2" if "r < 2 * h2" "c < 2 * w2" for r c
  proof -
    have "r div 2 < h2" "c div 2 < w2" using that by linarith+
    then show ?thesis using row_fits [of "r div 2" h2 "c div 2" w2 1 w2 "h2 * w2"] by simp
  qed
  moreover have "k = h2 * w2" using 0 by simp
  ultimately show ?case by simp
next
  case (Suc n)
  then have k: "k < h2 * w2" by linarith
  let ?r = "2 * (k div w2)" and ?c = "2 * (k mod w2)" and ?W = "2 * w2"
  let ?bp = "bayer_block cfa src stride ?r ?c"
  have "?r + 1 < 2 * h2" "?c + 1 < ?W" using assms div_less_rows [OF k] mod_less_divisor [OF assms, of k] by linarith+
  from bayer_fill_step [OF this Suc.prems(2), of "bp_r ?bp" "bp_g0 ?bp" "bp_b ?bp" "bp_g1 ?bp"] obtain d1 d2 where
    step: "copy_to (3 * (?r * ?W + ?c)) [bp_r ?bp, bp_g0 ?bp, bp_b ?bp, bp_r ?bp, bp_g0 ?bp, bp_b ?bp] data = Some d1"
      "copy_to (3 * ((?r + 1) * ?W + ?c)) [bp_r ?bp, bp_g1 ?bp, bp_b ?bp, bp_r ?bp, bp_g1 ?bp, bp_b ?bp] d1 = Some d2"
      "length d2 = length data"
    and px: "\<forall>r < 2 * h2. \<forall>c < ?W. \<forall>ch < 3. d2 ! (3 * (r * ?W + c) + ch) =
      (if (r = ?r \<or> r = ?r + 1) \<and> (c = ?c \<or> c = ?c + 1) then [bp_r ?bp, if r = ?r then bp_g0 ?bp else bp_g1 ?bp, bp_b ?bp] ! ch
       else data ! (3 * (r * ?W + c) + ch))" by blast
  have "n = h2 * w2 - Suc k" "Suc k \<le> h2 * w2" "length d2 = 3 * (2 * h2 * ?W)"
    using Suc.hyps(2) Suc.prems(2) k step(3) by linarith+
  from Suc.hyps(1) [OF this, unfolded step(3)] obtain d where
    d: "bayer_fill ?W (map (\<lambda>j. bayer_block cfa src stride (2 * (j div w2)) (2 * (j mod w2))) [Suc k..<h2 * w2]) d2 = Some d"
      "length d = length data"
    and rest: "\<forall>r < 2 * h2. \<forall>c < ?W. \<forall>ch < 3. d ! (3 * (r * ?W + c) + ch) =
      (if Suc k \<le> r div 2 * w2 + c div 2 then demosaic cfa src stride r c ! ch else d2 ! (3 * (r * ?W + c) + ch))" by blast
  have "d ! (3 * (r * ?W + c) + ch) =
      (if k \<le> r div 2 * w2 + c div 2 then demosaic cfa src stride r c ! ch else data ! (3 * (r * ?W + c) + ch))"
    if in_image: "r < 2 * h2" "c < ?W" "ch < 3" for r c ch
  proof (cases "r div 2 * w2 + c div 2 = k")
    case True
    have c2: "c div 2 < w2" using in_image(2) by simp
    have at: "(r = ?r \<or> r = ?r + 1) \<and> (c = ?c \<or> c = ?c + 1)" using block_of_pixel [OF c2] True by blast
    then have div: "r div 2 = k div w2" "c div 2 = k mod w2" and row: "r = ?r \<longleftrightarrow> even r" by auto
    have "demosaic cfa src stride r c = [bp_r ?bp, if r = ?r then bp_g0 ?bp else bp_g1 ?bp, bp_b ?bp]"
      unfolding bayer_block_demosaic [OF div] row Let_def ..
    then show ?thesis using px rest in_image at True by simp
  next
    case False
    have c2: "c div 2 < w2" using in_image(2) by simp
    have "\<not> ((r = ?r \<or> r = ?r + 1) \<and> (c = ?c \<or> c = ?c + 1))" using block_of_pixel [OF c2, of r k] False by blast
    then have "d2 ! (3 * (r * ?W + c) + ch) = data ! (3 * (r * ?W + c) + ch)" using px in_image by auto
    moreover have "Suc k \<le> r div 2 * w2 + c div 2 \<longleftrightarrow> k \<le> r div 2 * w2 + c div 2" using False by linarith
    ultimately show ?thesis using rest in_image by simp
  qed
  moreover have "bp_row ?bp = ?r" "bp_col ?bp = ?c" by (simp_all add: bayer_block_def Let_def split: prod.split)
  ultimately show ?case using k step d by (auto simp: upt_conv_Cons Let_def)
qed

section \<open>The reference conversion\<close>

text \<open>The pixels of an image, row by row.\<close>

definition flat_image :: "nat \<Rightarrow> nat \<Rightarrow> (nat \<Rightarrow> nat \<Rightarrow> 'a list) \<Rightarrow> 'a list" where
  "flat_image h w px = concat (map (\<lambda>k. px (k div w) (k mod w)) [0..<h * w])"

lemma concat_uniform:
  assumes "\<forall>xs \<in> set xss. length xs = n"
  shows "length (concat xss) = n * length xss"
    "k < length xss \<Longrightarrow> ch < n \<Longrightarrow> concat xss ! (n * k + ch) = xss ! k ! ch"
proof -
  show "length (concat xss) = n * length xss" using assms by (induction xss) simp_all
  show "k < length xss \<Longrightarrow> ch < n \<Longrightarrow> concat xss ! (n * k + ch) = xss ! k ! ch"
    using assms by (induction xss arbitrary: k) (auto simp: nth_append nth_Cons' less_Suc_eq_0_disj algebra_simps split: nat_diff_split)
qed

lemma flat_imageI:
  assumes "0 < w" "length d = n * (h * w)" "\<And>r c. r < h \<Longrightarrow> c < w \<Longrightarrow> length (px r c) = n"
    "\<And>r c ch. r < h \<Longrightarrow> c < w \<Longrightarrow> ch < n \<Longrightarrow> d ! (n * (r * w + c) + ch) = px r c ! ch"
  shows "d = flat_image h w px"
proof (rule nth_equalityI)
  let ?pxs = "map (\<lambda>k. px (k div w) (k mod w)) [0..<h * w]"
  have uniform: "\<forall>xs \<in> set ?pxs. length xs = n" using assms(1,3) by (auto simp: div_less_rows)
  show "length d = length (flat_image h w px)"
    unfolding flat_image_def concat_uniform(1) [OF uniform] using assms(2) by simp
  fix j
  assume j: "j < length d"
  then have n: "0 < n" using assms(2) by (cases n) simp_all
  have k: "j div n < h * w" using j assms(2) by (simp add: less_mult_imp_div_less mult.commute)
  let ?r = "j div n div w" and ?c = "j div n mod w"
  have "d ! j = d ! (n * (?r * w + ?c) + j mod n)" by simp
  also have "\<dots> = px ?r ?c ! (j mod n)" using assms(1) k n by (intro assms(4)) (simp_all add: div_less_rows)
  also have "\<dots> = concat ?pxs ! (n * (j div n) + j mod n)"
    using k n by (subst concat_uniform(2) [OF uniform]) simp_all
  finally show "d ! j = flat_image h w px ! j" by (simp add: flat_image_def)
qed

text \<open>The rows of a packed image; bytes after the last row are handed over when there is no padding.\<close>

definition packed_rows :: "RawImage \<Rightarrow> u8 list" where
  "packed_rows i =
     (let n = 2 * unat (ri_width i) in
      concat (map (\<lambda>r. take n (drop (r * unat (ri_stride i)) (ri_data i))) [0..<unat (ri_height i)])
      @ (if unat (ri_stride i) = n then drop (unat (ri_height i) * n) (ri_data i) else []))"

fun mono_value :: "f32_ops \<Rightarrow> RawImageEncoding \<Rightarrow> u8 list \<Rightarrow> u32" where
  "mono_value FP (Mono16 e) px = unit_of_u16 FP (u16_from_le_bytes (endian_bytes e px))"
| "mono_value FP (Mono32F e) px = u32_from_le_bytes (endian_bytes e px)"
| "mono_value FP _ px = unit_of_u8 FP (hd px)"

definition luma_plane :: "f32_ops \<Rightarrow> RawImage \<Rightarrow> nat \<Rightarrow> u8 list \<Rightarrow> u8 list" where
  "luma_plane FP i ys y =
     map (\<lambda>j. let r = j div ys; c = j mod ys in
       if r < unat (ri_height i) \<and> c < unat (ri_width i)
       then luma FP (mono_value FP (ri_encoding i)
         (pixel_at (bytes_per_pixel (ri_encoding i)) (ri_data i) (unat (ri_stride i)) r c))
       else y ! j) [0..<length y]"

definition raw_reference ::
  "yuv_crate \<Rightarrow> f32_ops \<Rightarrow> 'b yuv_ops \<Rightarrow> RawImage \<Rightarrow> planes \<Rightarrow> 'b \<Rightarrow> (unit, ImageError) result \<times> 'b" where
  "raw_reference Y FP B i p dst =
     (let w = ri_width i; h = ri_height i; enc = ri_encoding i; (y, u, v) = p;
          convert = (\<lambda>conv. case conv (dimensions B dst, yuv_strides B dst, p) of
            (r, p') \<Rightarrow> (map_sum ConvertToYuv420 id r, put_yuv B p' dst)) in
      case enc of
        Bayer8 cfa \<Rightarrow>
          (if 2 ^ 32 \<le> unat w * 3 then (Inl DimensionsTooLargeForU32, dst)
           else convert (\<lambda>pl. from_rgb Y Rgb8 pl
             (flat_image (unat h) (unat w) (demosaic cfa (ri_data i) (unat (ri_stride i)))) (w * 3)))
      | Uyvy \<Rightarrow> convert (\<lambda>pl. from_packed Y enc pl (packed_rows i) (2 * w) (w, h))
      | Yuyv \<Rightarrow> convert (\<lambda>pl. from_packed Y enc pl (packed_rows i) (2 * w) (w, h))
      | Rgb8 \<Rightarrow> convert (\<lambda>pl. from_rgb Y enc pl (ri_data i) (ri_stride i))
      | Rgba8 \<Rightarrow> convert (\<lambda>pl. from_rgb Y enc pl (ri_data i) (ri_stride i))
      | Bgr8 \<Rightarrow> convert (\<lambda>pl. from_rgb Y enc pl (ri_data i) (ri_stride i))
      | Bgra8 \<Rightarrow> convert (\<lambda>pl. from_rgb Y enc pl (ri_data i) (ri_stride i))
      | _ \<Rightarrow> (Inr (), put_yuv B (luma_plane FP i (unat (fst (yuv_strides B dst))) y,
          replicate (length u) 128, replicate (length v) 128) dst))"

section \<open>The conversion is the reference\<close>

lemma run_conv_planes:
  "yuv B dst = Some p \<Longrightarrow> run_conv B conv dst =
    Some (case conv (dimensions B dst, yuv_strides B dst, p) of (r, p') \<Rightarrow> (map_sum ConvertToYuv420 id r, put_yuv B p' dst))"
  by (simp add: run_conv_def wrapped_def)

text \<open>What validation establishes.\<close>

lemma validated_image:
  assumes "image_validate_dimensions i = Inr ()"
  shows "0 < unat (ri_width i)" "0 < unat (ri_height i)"
    "unat (ri_width i) * bytes_per_pixel (ri_encoding i) \<le> unat (ri_stride i)"
    "unat (ri_height i) * unat (ri_stride i) \<le> length (ri_data i)"
    "ri_encoding i = Bayer8 cfa \<Longrightarrow> ri_width i mod 2 = 0 \<and> ri_height i mod 2 = 0"
    "ri_encoding i = Uyvy \<or> ri_encoding i = Yuyv \<Longrightarrow> ri_width i mod 2 = 0"
  using assms
  by (auto simp: image_validate_dimensions_def Let_def unat_gt_0 not_less split: if_splits RawImageEncoding.splits)

lemma validated_buffer:
  assumes "buffer_validate_dimensions B dst width height = Some (Inr ())" "yuv B dst = Some (y, u, v)"
  shows "dimensions B dst = (width, height)" "unat width \<le> unat (fst (yuv_strides B dst))"
    "unat (fst (yuv_strides B dst)) * unat height \<le> length y"
  using assms
  by (auto simp: buffer_validate_dimensions_def buffer_validate_def Let_def not_less
      split: if_splits prod.splits option.splits)

lemma validation_returns:
  assumes "yuv B dst = Some p"
  shows "\<exists>r. buffer_validate_dimensions B dst width height = Some r \<and> (\<forall>m. r \<noteq> Inl (ConvertToYuv420 m))"
  using assms by (cases p) (simp add: buffer_validate_dimensions_def buffer_validate_def Let_def split: prod.split)

lemma luma_plane_ok:
  assumes img: "image_validate_dimensions i = Inr ()" and N: "bytes_per_pixel (ri_encoding i) = N"
    and mono: "\<not> is_subsampled (ri_encoding i)"
    and ys: "unat (ri_width i) \<le> ys" "ys * unat (ri_height i) \<le> length y"
  shows "\<exists>ps. image_pixels N i = Some ps \<and> mono_loop FP (unat (ri_width i)) ys 0 (map (mono_value FP (ri_encoding i)) ps) y =
    Some (luma_plane FP i ys y, unat (ri_width i) * unat (ri_height i))"
proof -
  let ?w = "unat (ri_width i)" and ?h = "unat (ri_height i)" and ?s = "unat (ri_stride i)"
  let ?px = "\<lambda>r c. mono_value FP (ri_encoding i) (pixel_at N (ri_data i) ?s r c)"
  let ?ps = "map (\<lambda>j. pixel_at N (ri_data i) ?s (j div ?w) (j mod ?w)) [0..<?h * ?w]"
  note valid = validated_image [OF img]
  have items: "image_pixels N i = Some ?ps"
    using pixels_items_all [of ?w N ?s ?h "ri_data i"] valid(1,3,4) N mono by (simp add: image_pixels_def pixels_new_def)
  obtain y' where y': "mono_loop FP ?w ys 0 (map (mono_value FP (ri_encoding i)) ?ps) y = Some (y', ?h * ?w)" "length y' = length y"
    and set: "\<And>k. k < ?h * ?w \<Longrightarrow> y' ! plane_pos ?w ys k = luma FP (?px (k div ?w) (k mod ?w))"
    and kept: "\<And>j. j < length y \<Longrightarrow> (\<And>k. k < ?h * ?w \<Longrightarrow> j \<noteq> plane_pos ?w ys k) \<Longrightarrow> y' ! j = y ! j"
    using mono_loop_ok [OF valid(1) ys(1,2), of 0 "map (mono_value FP (ri_encoding i)) ?ps" FP] by auto
  have "y' = luma_plane FP i ys y"
  proof (rule nth_equalityI)
    fix j
    assume j: "j < length y'"
    let ?r = "j div ys" and ?c = "j mod ys"
    show "y' ! j = luma_plane FP i ys y ! j"
    proof (cases "?r < ?h \<and> ?c < ?w")
      case True
      let ?k = "?r * ?w + ?c"
      have "?k < ?h * ?w" using row_fits [of ?r ?h ?c ?w 1 ?w "?h * ?w"] True by simp
      moreover have "?k div ?w = ?r" "?k mod ?w = ?c" using True by simp_all
      moreover have "plane_pos ?w ys ?k = j" using True by (simp add: add.commute)
      ultimately have "y' ! j = luma FP (?px ?r ?c)" using set [of ?k] by simp
      then show ?thesis using True j y'(2) N by (simp add: luma_plane_def Let_def)
    next
      case False
      have "j \<noteq> plane_pos ?w ys k" if "k < ?h * ?w" for k
      proof
        assume eq: "j = plane_pos ?w ys k"
        have lt: "k mod ?w < ?w" using valid(1) by simp
        then have "k mod ?w < ys" using ys(1) by simp
        then have "?r = k div ?w" "?c = k mod ?w" by (simp_all add: eq)
        then show False using False lt div_less_rows [OF that] by simp
      qed
      then have "y' ! j = y ! j" using kept j y'(2) by simp
      then show ?thesis using False j y'(2) by (auto simp: luma_plane_def Let_def)
    qed
  qed (simp add: y' luma_plane_def)
  then show ?thesis using items y'(1) by (simp add: mult.commute)
qed

lemma pack_rows_ok:
  "(\<And>r. r \<in> set rows \<Longrightarrow> r * s + n \<le> length data) \<Longrightarrow>
    pack_rows rows s n data buf = Some (buf @ concat (map (\<lambda>r. take n (drop (r * s) data)) rows))"
  by (induction rows arbitrary: buf) (simp_all add: slice_range_def)

text \<open>Without padding the rows follow each other.\<close>

lemma concat_rows:
  "h * n \<le> length data \<Longrightarrow> concat (map (\<lambda>r. take n (drop (r * n) data)) [0..<h]) = take (h * n) data"
proof (induction h)
  case (Suc h)
  then have "take (h * n) data @ take n (drop (h * n) data) = take (h * n + n) data" by (simp add: take_add)
  then show ?case using Suc by (simp add: add.commute)
qed simp

lemma packed_rows_ok:
  assumes "image_validate_dimensions i = Inr ()" "bytes_per_pixel (ri_encoding i) = 2"
  shows "u32_checked_mul 2 (ri_width i) = Some (2 * ri_width i)"
    "(if ri_stride i = 2 * ri_width i then Some (ri_data i)
      else pack_rows [0..<unat (ri_height i)] (unat (ri_stride i)) (2 * unat (ri_width i)) (ri_data i) []) = Some (packed_rows i)"
proof -
  let ?n = "2 * unat (ri_width i)" and ?h = "unat (ri_height i)" and ?s = "unat (ri_stride i)"
  note valid = validated_image [OF assms(1)]
  have n: "?n \<le> ?s" using valid(3) assms(2) by simp
  then have small: "?n < 2 ^ 32" using unsigned_less [of "ri_stride i", where ?'a = nat] by simp
  then show "u32_checked_mul 2 (ri_width i) = Some (2 * ri_width i)" by (simp add: u32_checked_mul_def)
  have unat: "unat (2 * ri_width i) = ?n" using small by (simp add: unat_word_ariths)
  have stride: "ri_stride i = 2 * ri_width i \<longleftrightarrow> ?s = ?n" unfolding word_unat_eq_iff unat ..
  have "r * ?s + ?n \<le> length (ri_data i)" if "r \<in> set [0..<?h]" for r
    using row_fits [of r ?h 0 1 ?n ?s] that n valid(4) by simp
  note rows = pack_rows_ok [OF this]
  show "(if ri_stride i = 2 * ri_width i then Some (ri_data i) else pack_rows [0..<?h] ?s ?n (ri_data i) []) = Some (packed_rows i)"
  proof (cases "?s = ?n")
    case True
    then have "packed_rows i = take (?h * ?n) (ri_data i) @ drop (?h * ?n) (ri_data i)"
      unfolding packed_rows_def Let_def using valid(4) concat_rows [of ?h ?n "ri_data i"] by simp
    then show ?thesis using True stride by simp
  next
    case False
    then show ?thesis using rows [of "[0..<?h]" "[]"] stride by (simp add: packed_rows_def)
  qed
qed

lemma even_half:
  fixes x :: u32
  assumes "x mod 2 = 0"
  shows "unat x = 2 * (unat x div 2)"
proof -
  have "unat x mod 2 = unat (x mod 2)" by (simp add: unat_mod)
  then have "unat x mod 2 = 0" using assms by simp
  then show ?thesis by presburger
qed

lemma bayer_to_rgb_ok:
  assumes img: "image_validate_dimensions i = Inr ()" "ri_encoding i = Bayer8 cfa" and memory: "length (ri_data i) < 2 ^ 61"
  shows "bayer_to_rgb i cfa = Some (if 2 ^ 32 \<le> unat (ri_width i) * 3 then Inl DimensionsTooLargeForU32
    else Inr (flat_image (unat (ri_height i)) (unat (ri_width i)) (demosaic cfa (ri_data i) (unat (ri_stride i))), ri_width i * 3))"
proof -
  let ?w = "unat (ri_width i)" and ?h = "unat (ri_height i)" and ?s = "unat (ri_stride i)"
  note valid = validated_image [OF img(1)]
  have even: "?w = 2 * (?w div 2)" "?h = 2 * (?h div 2)" using valid(5) img(2) even_half by blast+
  have w: "0 < ?w div 2" "?w \<le> ?s" using valid(1,3) even(1) img(2) by simp_all
  show ?thesis
  proof (cases "2 ^ 32 \<le> ?w * 3")
    case False
    then have small: "unat (ri_width i * 3) = ?w * 3" by (simp add: unat_word_ariths)
    have "?w * ?h \<le> length (ri_data i)" using order_trans [OF mult_le_mono2 [OF w(2)] valid(4)] by (simp add: mult.commute)
    then have size: "?w * 3 * ?h < 2 ^ 63" using memory by simp
    let ?px = "bayer_block cfa (ri_data i) ?s"
    let ?start = "\<lparr> px_data = ri_data i, px_width = ?w, px_height = ?h, px_stride = ?s, px_row = 0, px_col = 0, bx_cfa = cfa \<rparr>"
    let ?items = "map (\<lambda>j. ?px (2 * (j div (?w div 2))) (2 * (j mod (?w div 2)))) [0..<?h div 2 * (?w div 2)]"
    have items: "bayer_items ?start = Some ?items"
      using bayer_items_from [of "?w div 2" ?s "?h div 2" "ri_data i" 0 cfa] w even valid(4) by simp
    have len: "length (replicate (?w * 3 * ?h) (0 :: u8)) = 3 * (2 * (?h div 2) * (2 * (?w div 2)))"
      unfolding even [symmetric] by simp
    from bayer_fill_blocks [OF w(1) _ len, of 0 cfa "ri_data i" ?s] obtain d where
      d: "bayer_fill ?w ?items (replicate (?w * 3 * ?h) 0) = Some d" "length d = 3 * (?h * ?w)"
      "\<And>r c ch. r < ?h \<Longrightarrow> c < ?w \<Longrightarrow> ch < 3 \<Longrightarrow> d ! (3 * (r * ?w + c) + ch) = demosaic cfa (ri_data i) ?s r c ! ch"
      unfolding even [symmetric] by auto
    have "d = flat_image ?h ?w (demosaic cfa (ri_data i) ?s)"
      by (rule flat_imageI [OF valid(1) d(2) _ d(3)]) (simp_all add: demosaic_def Let_def)
    then show ?thesis using False items d(1) small size valid(5) [OF img(2)]
      by (simp add: bayer_to_rgb_def u32_checked_mul_def usize_checked_mul_def bayer8_pixels_new_def)
  qed (simp add: bayer_to_rgb_def u32_checked_mul_def)
qed

lemma convert_raw_reference:
  assumes img: "image_validate_dimensions i = Inr ()" and memory: "length (ri_data i) < 2 ^ 61"
    and dst: "buffer_validate_dimensions B dst (ri_width i) (ri_height i) = Some (Inr ())" "yuv B dst = Some (y, u, v)"
  shows "convert_raw Y FP B i dst = Some (raw_reference Y FP B i (y, u, v) dst)"
proof -
  note buf = validated_buffer [OF dst]
  obtain ys us vs where strides: "yuv_strides B dst = (ys, us, vs)" by (cases "yuv_strides B dst")
  have luma: "\<exists>ps. image_pixels N i = Some ps \<and> mono_to_yuv420 FP B dst (map f ps) =
      Some (put_yuv B (luma_plane FP i (unat ys) y, replicate (length u) 128, replicate (length v) 128) dst)"
    if "bytes_per_pixel (ri_encoding i) = N" "\<not> is_subsampled (ri_encoding i)"
      "\<And>p. f p = mono_value FP (ri_encoding i) p" for N f
  proof -
    have "f = mono_value FP (ri_encoding i)" using that(3) by (rule ext)
    then show ?thesis using luma_plane_ok [OF img that(1,2), of "unat ys" y FP] buf strides dst(2)
      by (auto simp: mono_to_yuv420_def)
  qed
  have packed: "yuv422_to_yuv420 Y B dst e (ri_data i) (ri_stride i) =
      run_conv B (\<lambda>w. from_packed Y e w (packed_rows i) (2 * ri_width i) (ri_width i, ri_height i)) dst"
    if "ri_encoding i = e" "e = Uyvy \<or> e = Yuyv" for e
    using that packed_rows_ok [OF img] validated_image(6) [OF img] buf(1) by (auto simp: yuv422_to_yuv420_def)
  show ?thesis
  proof (cases "ri_encoding i")
    case Mono8
    then show ?thesis using luma [of 1 "\<lambda>p. unit_of_u8 FP (hd p)"] strides
      by (force simp: convert_raw_def raw_reference_def)
  next
    case (Mono16 e)
    then show ?thesis using luma [of 2 "\<lambda>p. unit_of_u16 FP (u16_from_le_bytes (endian_bytes e p))"] strides
      by (force simp: convert_raw_def raw_reference_def)
  next
    case (Mono32F e)
    then show ?thesis using luma [of 4 "\<lambda>p. u32_from_le_bytes (endian_bytes e p)"] strides
      by (force simp: convert_raw_def raw_reference_def)
  next
    case (Bayer8 cfa)
    then show ?thesis using bayer_to_rgb_ok [OF img Bayer8 memory] dst(2)
      by (simp add: convert_raw_def raw_reference_def rgb_to_yuv420_def run_conv_planes Let_def)
  qed (simp_all add: convert_raw_def raw_reference_def rgb_to_yuv420_def packed run_conv_planes [OF dst(2)] Let_def)
qed

section \<open>The contract of a destination\<close>

text \<open>What \<open>Yuv420Buffer\<close> documents: a consistent buffer has its three planes, and writing to them
  changes neither its dimensions nor its strides.\<close>

locale yuv420_buffer =
  fixes B :: "'b yuv_ops" and consistent :: "'b \<Rightarrow> bool"
  assumes has_planes: "consistent b \<Longrightarrow> \<exists>y u v. yuv B b = Some (y, u, v)"
    and write_planes: "consistent b \<Longrightarrow> yuv B b = Some (y, u, v) \<Longrightarrow>
      length y' = length y \<Longrightarrow> length u' = length u \<Longrightarrow> length v' = length v \<Longrightarrow>
      consistent (put_yuv B (y', u', v') b) \<and> yuv B (put_yuv B (y', u', v') b) = Some (y', u', v')
      \<and> dimensions B (put_yuv B (y', u', v') b) = dimensions B b
      \<and> yuv_strides B (put_yuv B (y', u', v') b) = yuv_strides B b"

text \<open>The conversions of the crate write to slices, which keep their lengths.\<close>

definition plane_lengths :: "planes \<Rightarrow> nat \<times> nat \<times> nat" where
  "plane_lengths = (\<lambda>(y, u, v). (length y, length u, length v))"

definition writes_in_place :: "yuv_crate \<Rightarrow> bool" where
  "writes_in_place Y \<longleftrightarrow>
     (\<forall>enc d s p data stride. plane_lengths (snd (from_rgb Y enc (d, s, p) data stride)) = plane_lengths p)
   \<and> (\<forall>enc d s p data stride dims. plane_lengths (snd (from_packed Y enc (d, s, p) data stride dims)) = plane_lengths p)"

context yuv420_buffer
begin

definition same_shape :: "'b \<Rightarrow> 'b \<Rightarrow> bool" where
  "same_shape b b' \<longleftrightarrow> consistent b' \<and> dimensions B b' = dimensions B b \<and> yuv_strides B b' = yuv_strides B b
     \<and> map_option plane_lengths (yuv B b') = map_option plane_lengths (yuv B b)"

lemma write_same_shape:
  "consistent b \<Longrightarrow> yuv B b = Some p \<Longrightarrow> plane_lengths p' = plane_lengths p \<Longrightarrow> same_shape b (put_yuv B p' b)"
  using write_planes [of b "fst p" "fst (snd p)" "snd (snd p)" "fst p'" "fst (snd p')" "snd (snd p')"]
  by (auto simp: same_shape_def plane_lengths_def split: prod.splits)

lemma convert_same_shape:
  assumes "consistent b" "yuv B b = Some p" "plane_lengths (snd x) = plane_lengths p"
  shows "same_shape b (snd (case x of (r, p') \<Rightarrow> (map_sum ConvertToYuv420 id r, put_yuv B p' b)))"
  using write_same_shape [OF assms(1,2)] assms(3) by (cases x) auto

lemma reference_same_shape:
  assumes "consistent dst" "yuv B dst = Some (y, u, v)" "writes_in_place Y"
  shows "same_shape dst (snd (raw_reference Y FP B i (y, u, v) dst))"
proof -
  let ?finish = "\<lambda>x. snd (case x of (r, p') \<Rightarrow> (map_sum ConvertToYuv420 id r, put_yuv B p' dst))"
  have conv: "same_shape dst (?finish (from_rgb Y enc (d, s, y, u, v) data stride))"
    "same_shape dst (?finish (from_packed Y enc (d, s, y, u, v) data stride dims))" for enc d s data stride dims
    using assms(3) unfolding writes_in_place_def by (blast intro: convert_same_shape [OF assms(1,2)])+
  have keep: "same_shape dst dst" using assms(1) by (simp add: same_shape_def)
  have mono: "same_shape dst (put_yuv B (luma_plane FP i ys y, replicate (length u) 128, replicate (length v) 128) dst)" for ys
    by (rule write_same_shape [OF assms(1,2)]) (simp add: plane_lengths_def luma_plane_def)
  show ?thesis
    by (cases "ri_encoding i") (auto simp: raw_reference_def Let_def keep mono conv)
qed

text \<open>The outcome of the conversion.\<close>

lemma outcome:
  assumes "consistent dst" "length (ri_data i) < 2 ^ 61"
  obtains (invalid) e where "raw_to_yuv420 Y FP B i dst = Some (Inl e, dst)" "\<And>m. e \<noteq> ConvertToYuv420 m"
  | (converted) y u v where "yuv B dst = Some (y, u, v)" "image_validate_dimensions i = Inr ()"
      "buffer_validate_dimensions B dst (ri_width i) (ri_height i) = Some (Inr ())"
      "raw_to_yuv420 Y FP B i dst = Some (raw_reference Y FP B i (y, u, v) dst)"
proof -
  obtain y u v where p: "yuv B dst = Some (y, u, v)" using has_planes [OF assms(1)] by blast
  show thesis
  proof (cases "image_validate_dimensions i")
    case (Inl e)
    then show thesis
      by (intro invalid [of e])
        (auto simp: raw_to_yuv420_def image_validate_dimensions_def Let_def split: if_splits RawImageEncoding.splits)
  next
    case (Inr x)
    then have img: "image_validate_dimensions i = Inr ()" by simp
    obtain r where r: "buffer_validate_dimensions B dst (ri_width i) (ri_height i) = Some r" "\<And>m. r \<noteq> Inl (ConvertToYuv420 m)"
      using validation_returns [OF p] by blast
    show thesis
    proof (cases r)
      case (Inl e)
      have "raw_to_yuv420 Y FP B i dst = Some (Inl e, dst)" using img r(1) Inl by (simp add: raw_to_yuv420_def)
      then show thesis using r(2) Inl invalid by blast
    next
      case (Inr x')
      then have dst: "buffer_validate_dimensions B dst (ri_width i) (ri_height i) = Some (Inr ())" using r(1) by simp
      have "raw_to_yuv420 Y FP B i dst = convert_raw Y FP B i dst" using img dst by (simp add: raw_to_yuv420_def)
      then show thesis
        using converted [OF p img dst] unfolding convert_raw_reference [OF img assms(2) dst p, of Y FP] by blast
    qed
  qed
qed

end

section \<open>The vector buffer\<close>

definition vec_ok :: "Yuv420Vec \<Rightarrow> bool" where
  "vec_ok b \<longleftrightarrow> (let ylen = unat (yv_width b) * unat (yv_height b) in ylen + ylen div 4 \<le> length (yv_data b))"

lemma yuv420_vec_planes:
  "yuv420_vec_yuv b = Some (y, u, v) \<longleftrightarrow>
    (let ylen = unat (yv_width b) * unat (yv_height b) in
     yv_data b = y @ u @ v \<and> length y = ylen \<and> length u = ylen div 4)"
proof -
  have split: "split_at n xs = Some (ys, zs) \<longleftrightarrow> xs = ys @ zs \<and> length ys = n" for n and xs ys zs :: "u8 list"
    by (auto simp: split_at_def)
  show ?thesis by (auto simp: yuv420_vec_yuv_def Let_def split bind_eq_Some_conv)
qed

interpretation yvec: yuv420_buffer yuv420_vec_ops vec_ok
proof
  fix b
  assume "vec_ok b"
  then show "\<exists>y u v. yuv yuv420_vec_ops b = Some (y, u, v)"
    by (simp add: yuv420_vec_ops_def vec_ok_def yuv420_vec_yuv_def Let_def split_at_def)
next
  fix b :: Yuv420Vec and y u v y' u' v' :: "u8 list"
  assume "vec_ok b" "yuv yuv420_vec_ops b = Some (y, u, v)" "length y' = length y" "length u' = length u" "length v' = length v"
  then show "vec_ok (put_yuv yuv420_vec_ops (y', u', v') b)
    \<and> yuv yuv420_vec_ops (put_yuv yuv420_vec_ops (y', u', v') b) = Some (y', u', v')
    \<and> dimensions yuv420_vec_ops (put_yuv yuv420_vec_ops (y', u', v') b) = dimensions yuv420_vec_ops b
    \<and> yuv_strides yuv420_vec_ops (put_yuv yuv420_vec_ops (y', u', v') b) = yuv_strides yuv420_vec_ops b"
    by (simp add: yuv420_vec_ops_def yuv420_vec_planes vec_ok_def Let_def)
qed

text \<open>A new buffer is consistent.\<close>

lemma yuv420_vec_new_valid:
  assumes "yuv420_vec_new width height = Some b"
  shows "vec_ok b" "buffer_validate_dimensions yuv420_vec_ops b width height = Some (Inr ())"
proof -
  have even: "width mod 2 = 0" "height mod 2 = 0" and b: "yv_width b = width" "yv_height b = height"
    "length (yv_data b) = unat width * unat height div 2 * 3"
    using assms by (auto simp: yuv420_vec_new_def Let_def split: if_splits)
  define w h where "w = unat width div 2" and "h = unat height div 2"
  have wh: "unat width = 2 * w" "unat height = 2 * h" unfolding w_def h_def using even [THEN even_half] .
  have sizes: "unat width * unat height = 4 * (w * h)" using wh by simp
  have len: "length (yv_data b) = 6 * (w * h)" using b(3) sizes by simp
  show ok: "vec_ok b" using b len sizes by (simp add: vec_ok_def Let_def)
  obtain y u v where p: "yuv420_vec_yuv b = Some (y, u, v)"
    using yvec.has_planes [OF ok] by (auto simp: yuv420_vec_ops_def)
  then have planes: "length y = 4 * (w * h)" "length u = w * h" "length v = w * h"
    using b(1,2) sizes len by (auto simp: yuv420_vec_planes Let_def)
  have "unat (width div 2) = w" using wh by (simp add: unat_div w_def)
  then show "buffer_validate_dimensions yuv420_vec_ops b width height = Some (Inr ())"
    using planes wh b(1,2) p
    by (simp add: buffer_validate_dimensions_def buffer_validate_def yuv420_vec_ops_def Let_def)
qed

section \<open>Properties\<close>

lemma raw_reference_error:
  "raw_reference Y FP B i p dst = (Inl e, dst') \<Longrightarrow> (\<And>m. e \<noteq> ConvertToYuv420 m) \<Longrightarrow> dst' = dst"
proof -
  have sum: "map_sum ConvertToYuv420 id r = Inl e \<Longrightarrow> \<exists>m. e = ConvertToYuv420 m" for r :: "string + unit"
    by (cases r) auto
  assume "raw_reference Y FP B i p dst = (Inl e, dst')" "\<And>m. e \<noteq> ConvertToYuv420 m"
  then show ?thesis using sum
    by (cases p; cases "ri_encoding i") (auto simp: raw_reference_def Let_def split: prod.splits if_splits)
qed

text \<open>C29: For an image that passes the validation and a destination of its dimensions, every encoding is
  converted as the reference says: the crate is given the bytes as they are (RGB), the rows without their
  padding (YUV 4:2:2) or the image demosaiced block by block (Bayer), and a mono image sets exactly
  the luma of its pixels, whatever the strides, and a neutral chroma.\<close>

theorem raw_conversion_reference:
  assumes "yuv420_buffer B consistent" "consistent dst" "length (ri_data i) < 2 ^ 61" "image_validate_dimensions i = Inr ()"
    "buffer_validate_dimensions B dst (ri_width i) (ri_height i) = Some (Inr ())"
  shows "\<exists>y u v. yuv B dst = Some (y, u, v)
    \<and> raw_to_yuv420 Y FP B i dst = Some (raw_reference Y FP B i (y, u, v) dst)"
proof -
  obtain y u v where p: "yuv B dst = Some (y, u, v)" using yuv420_buffer.has_planes [OF assms(1,2)] by blast
  moreover have "raw_to_yuv420 Y FP B i dst = convert_raw Y FP B i dst" using assms(4,5) by (simp add: raw_to_yuv420_def)
  ultimately show ?thesis using convert_raw_reference [OF assms(4,3,5) p] by simp
qed

text \<open>A Bayer image of two by two pixels with a padded row, and a mono image.\<close>

definition sample_crate :: yuv_crate where
  "sample_crate = \<lparr>
     from_rgb = (\<lambda>enc (d, s, y, u, v) data stride. (Inr (), take (length y) (data @ y), u, v)),
     from_packed = (\<lambda>enc (d, s, y, u, v) data stride dims. (Inr (), take (length y) (data @ y), u, v)) \<rparr>"

definition sample_f32 :: f32_ops where
  "sample_f32 = \<lparr> unit_of_u8 = ucast, unit_of_u16 = ucast, luma = ucast \<rparr>"

definition sample_image :: "RawImageEncoding \<Rightarrow> RawImage" where
  "sample_image enc = \<lparr> ri_encoding = enc, ri_width = 2, ri_height = 2, ri_stride = 3, ri_data = [1, 2, 0, 3, 4, 0] \<rparr>"

definition sample_vec :: Yuv420Vec where
  "sample_vec = \<lparr> yv_data = [9, 9, 9, 9, 9, 9], yv_width = 2, yv_height = 2 \<rparr>"

lemma sample_valid:
  "vec_ok sample_vec" "length (ri_data (sample_image enc)) < 2 ^ 61"
  "bytes_per_pixel enc = 1 \<Longrightarrow> image_validate_dimensions (sample_image enc) = Inr ()"
  "buffer_validate_dimensions yuv420_vec_ops sample_vec 2 2 = Some (Inr ())"
  "writes_in_place sample_crate"
proof -
  show "vec_ok sample_vec" by (simp add: vec_ok_def sample_vec_def)
  show "length (ri_data (sample_image enc)) < 2 ^ 61" by (simp add: sample_image_def)
  show "bytes_per_pixel enc = 1 \<Longrightarrow> image_validate_dimensions (sample_image enc) = Inr ()"
    by (cases enc) (simp_all add: image_validate_dimensions_def sample_image_def)
  show "buffer_validate_dimensions yuv420_vec_ops sample_vec 2 2 = Some (Inr ())"
    by (simp add: buffer_validate_dimensions_def buffer_validate_def yuv420_vec_ops_def yuv420_vec_yuv_def
        split_at_def sample_vec_def unat_div)
  show "writes_in_place sample_crate"
    by (auto simp: writes_in_place_def sample_crate_def plane_lengths_def)
qed

theorem raw_conversion_reference_witness:
  "raw_to_yuv420 sample_crate sample_f32 yuv420_vec_ops (sample_image Mono8) sample_vec =
     Some (Inr (), \<lparr> yv_data = [1, 2, 3, 4, 128, 128], yv_width = 2, yv_height = 2 \<rparr>)
   \<and> raw_to_yuv420 sample_crate sample_f32 yuv420_vec_ops (sample_image (Bayer8 Gbrg)) sample_vec =
     Some (Inr (), \<lparr> yv_data = [3, 1, 2, 3, 9, 9], yv_width = 2, yv_height = 2 \<rparr>)"
proof -
  have planes: "yuv yuv420_vec_ops sample_vec = Some ([9, 9, 9, 9], [9], [9])"
    by (simp add: yuv420_vec_ops_def yuv420_vec_yuv_def split_at_def sample_vec_def)
  have converted: "raw_to_yuv420 sample_crate sample_f32 yuv420_vec_ops (sample_image enc) sample_vec =
      Some (raw_reference sample_crate sample_f32 yuv420_vec_ops (sample_image enc) ([9, 9, 9, 9], [9], [9]) sample_vec)"
    if "bytes_per_pixel enc = 1" for enc
    using raw_conversion_reference [OF yvec.yuv420_buffer_axioms sample_valid(1), of "sample_image enc" sample_crate sample_f32]
      sample_valid(2) [of enc] sample_valid(3) [of enc] sample_valid(4) that planes by (simp add: sample_image_def)
  show ?thesis
    unfolding converted [of Mono8, simplified] converted [of "Bayer8 Gbrg", simplified]
    by (simp add: raw_reference_def sample_image_def sample_vec_def sample_crate_def sample_f32_def yuv420_vec_ops_def
        luma_plane_def pixel_at_def flat_image_def demosaic_def sample_of_def upt_rec)
qed

text \<open>A conversion never panics, whatever the image: with a consistent destination it returns, the
  destination keeps its dimensions, strides and consistency, and an error other than the crate's own leaves
  it untouched.\<close>

lemma raw_conversion_safe:
  assumes "yuv420_buffer B consistent" "consistent dst" "length (ri_data i) < 2 ^ 61" "writes_in_place Y"
  shows "\<exists>r dst'. raw_to_yuv420 Y FP B i dst = Some (r, dst') \<and> consistent dst'
    \<and> dimensions B dst' = dimensions B dst \<and> yuv_strides B dst' = yuv_strides B dst
    \<and> ((\<exists>e. r = Inl e \<and> (\<forall>m. e \<noteq> ConvertToYuv420 m)) \<longrightarrow> dst' = dst)"
proof (rule yuv420_buffer.outcome [OF assms(1,2,3), of Y FP])
  fix y u v
  assume p: "yuv B dst = Some (y, u, v)" and eq: "raw_to_yuv420 Y FP B i dst = Some (raw_reference Y FP B i (y, u, v) dst)"
  obtain r dst' where r: "raw_reference Y FP B i (y, u, v) dst = (r, dst')" by fastforce
  have "yuv420_buffer.same_shape B consistent dst dst'"
    using yuv420_buffer.reference_same_shape [OF assms(1,2) p assms(4), of FP i] r by simp
  moreover have "dst' = dst" if "r = Inl e" "\<forall>m. e \<noteq> ConvertToYuv420 m" for e
    using raw_reference_error [of Y FP B i "(y, u, v)" dst e dst'] r that by simp
  ultimately show ?thesis using eq r by (auto simp: yuv420_buffer.same_shape_def [OF assms(1)])
qed (use assms(2) in auto)

end
