(* ===== verification/Wkt_Time.thy ===== *)
theory Wkt_Time
  imports Rust_Prelude
begin

text \<open>
  The well-known time types (\<open>schemas_wkt.rs\<close>, \<open>convert.rs\<close> and the time sources of
  \<open>metadata.rs\<close>): normalisation, range checks, saturation and the conversion to the protobuf
  types. An \<open>i32\<close> or \<open>i64\<close> is an integer with its range checks written out, a \<open>u32\<close> a
  word. A \<open>std::time::Duration\<close> is its number of nanoseconds and a \<open>SystemTime\<close> the number
  of nanoseconds since the Unix epoch, negative before it. The conversions from \<open>f64\<close> are not
  modelled. The locale \<open>normalized_time\<close> is what the two types have in common.
\<close>

section \<open>Normalisation\<close>

datatype RangeError = LowerBound | UpperBound

datatype NormalizeResult = Normal u32 | Overflow u32 u32

definition normalize_nsec :: "u32 \<Rightarrow> NormalizeResult" where
  "normalize_nsec nsec =
     (if nsec < 1000000000 then Normal nsec
      else Overflow (nsec div 1000000000) (nsec mod 1000000000))"

definition i32_min :: int where "i32_min = - (2 ^ 31)"
definition i32_max :: int where "i32_max = 2 ^ 31 - 1"

definition i32_checked_add :: "int \<Rightarrow> int \<Rightarrow> int option" where
  "i32_checked_add a b = (if i32_min \<le> a + b \<and> a + b \<le> i32_max then Some (a + b) else None)"

text \<open>\<open>i32::try_from\<close> of an unsigned value.\<close>

definition i32_try_from :: "nat \<Rightarrow> int option" where
  "i32_try_from n = (if int n \<le> i32_max then Some (int n) else None)"

text \<open>The outer option is the panic of \<open>unreachable!\<close>, the inner one the overflow of the
  seconds.\<close>

fun carry_i32 :: "int \<Rightarrow> NormalizeResult \<Rightarrow> (int \<times> u32) option may_panic" where
  "carry_i32 sec (Normal nsec) = Some (Some (sec, nsec))"
| "carry_i32 sec (Overflow extra_sec nsec) =
     (case i32_try_from (unat extra_sec) of
        None \<Rightarrow> None
      | Some e \<Rightarrow> Some (map_option (\<lambda>sec. (sec, nsec)) (i32_checked_add sec e)))"

fun carry_u32 :: "u32 \<Rightarrow> NormalizeResult \<Rightarrow> (u32 \<times> u32) option" where
  "carry_u32 sec (Normal nsec) = Some (sec, nsec)"
| "carry_u32 sec (Overflow extra_sec nsec) =
     map_option (\<lambda>sec. (sec, nsec)) (u32_checked_add sec extra_sec)"

section \<open>Duration\<close>

datatype Duration = Duration (dur_sec: int) (dur_nsec: u32)

definition duration_max :: Duration where "duration_max = Duration i32_max 999999999"
definition duration_min :: Duration where "duration_min = Duration i32_min 0"

definition duration_new_checked :: "int \<Rightarrow> u32 \<Rightarrow> Duration option may_panic" where
  "duration_new_checked sec nsec =
     map_option (map_option (\<lambda>(sec, nsec). Duration sec nsec)) (carry_i32 sec (normalize_nsec nsec))"

definition duration_new :: "int \<Rightarrow> u32 \<Rightarrow> Duration may_panic" where
  "duration_new sec nsec = do { r \<leftarrow> duration_new_checked sec nsec; r }"

definition duration_normalize :: "Duration \<Rightarrow> Duration option may_panic" where
  "duration_normalize d = duration_new_checked (dur_sec d) (dur_nsec d)"

text \<open>\<open>prost_types::Duration\<close> and \<open>prost_types::Timestamp\<close>: 64-bit seconds and 32-bit
  signed nanoseconds.\<close>

definition duration_to_prost :: "Duration \<Rightarrow> (int \<times> int) may_panic" where
  "duration_to_prost d =
     (case i32_try_from (unat (dur_nsec d)) of None \<Rightarrow> None | Some n \<Rightarrow> Some (dur_sec d, n))"

definition duration_try_from_std :: "nat \<Rightarrow> (Duration, RangeError) result" where
  "duration_try_from_std ns =
     (case i32_try_from (ns div 1000000000) of
        None \<Rightarrow> Inl UpperBound
      | Some sec \<Rightarrow> Inr (Duration sec (word_of_nat (ns mod 1000000000))))"

definition duration_saturating :: "(Duration, RangeError) result \<Rightarrow> Duration" where
  "duration_saturating r =
     (case r of Inr d \<Rightarrow> d | Inl LowerBound \<Rightarrow> duration_min | Inl UpperBound \<Rightarrow> duration_max)"

section \<open>Timestamp\<close>

datatype Timestamp = Timestamp (tm_sec: u32) (tm_nsec: u32)

definition timestamp_max :: Timestamp where "timestamp_max = Timestamp 4294967295 999999999"
definition timestamp_min :: Timestamp where "timestamp_min = Timestamp 0 0"

definition timestamp_new_checked :: "u32 \<Rightarrow> u32 \<Rightarrow> Timestamp option" where
  "timestamp_new_checked sec nsec =
     map_option (\<lambda>(sec, nsec). Timestamp sec nsec) (carry_u32 sec (normalize_nsec nsec))"

definition timestamp_new :: "u32 \<Rightarrow> u32 \<Rightarrow> Timestamp may_panic" where
  "timestamp_new sec nsec = timestamp_new_checked sec nsec"

text \<open>In \<open>u64\<close> arithmetic.\<close>

definition total_nanos :: "Timestamp \<Rightarrow> u64" where
  "total_nanos t = ucast (tm_sec t) * 1000000000 + ucast (tm_nsec t)"

definition timestamp_normalize :: "Timestamp \<Rightarrow> Timestamp option" where
  "timestamp_normalize t = timestamp_new_checked (tm_sec t) (tm_nsec t)"

definition timestamp_to_prost :: "Timestamp \<Rightarrow> (int \<times> int) may_panic" where
  "timestamp_to_prost t =
     (case i32_try_from (unat (tm_nsec t)) of None \<Rightarrow> None | Some n \<Rightarrow> Some (uint (tm_sec t), n))"

definition timestamp_try_from_system :: "int \<Rightarrow> (Timestamp, RangeError) result may_panic" where
  "timestamp_try_from_system time =
     (if time < 0 then Some (Inl LowerBound)
      else let ns = nat time in
        if 2 ^ 32 \<le> ns div 1000000000 then Some (Inl UpperBound)
        else do {
          t \<leftarrow> timestamp_new (word_of_nat (ns div 1000000000)) (word_of_nat (ns mod 1000000000));
          Some (Inr t)
        })"

definition timestamp_saturating :: "(Timestamp, RangeError) result \<Rightarrow> Timestamp" where
  "timestamp_saturating r =
     (case r of Inr d \<Rightarrow> d | Inl LowerBound \<Rightarrow> timestamp_min | Inl UpperBound \<Rightarrow> timestamp_max)"

text \<open>\<open>ToUnixNanos\<close> of a \<open>SystemTime\<close>: the 128-bit count of nanoseconds is truncated.\<close>

definition system_time_to_unix_nanos :: "int \<Rightarrow> u64 may_panic" where
  "system_time_to_unix_nanos time = (if time < 0 then None else Some (word_of_nat (nat time)))"

section \<open>The derived orders\<close>

text \<open>\<open>derive(PartialOrd, Ord)\<close> compares the fields in the order of their declaration.\<close>

instantiation Duration :: linorder
begin

definition less_eq_Duration :: "Duration \<Rightarrow> Duration \<Rightarrow> bool" where
  "less_eq_Duration a b \<longleftrightarrow> dur_sec a < dur_sec b \<or> (dur_sec a = dur_sec b \<and> dur_nsec a \<le> dur_nsec b)"

definition less_Duration :: "Duration \<Rightarrow> Duration \<Rightarrow> bool" where
  "less_Duration a b \<longleftrightarrow> dur_sec a < dur_sec b \<or> (dur_sec a = dur_sec b \<and> dur_nsec a < dur_nsec b)"

instance
  by standard (auto simp: less_eq_Duration_def less_Duration_def intro: Duration.expand)

end

instantiation Timestamp :: linorder
begin

definition less_eq_Timestamp :: "Timestamp \<Rightarrow> Timestamp \<Rightarrow> bool" where
  "less_eq_Timestamp a b \<longleftrightarrow> tm_sec a < tm_sec b \<or> (tm_sec a = tm_sec b \<and> tm_nsec a \<le> tm_nsec b)"

definition less_Timestamp :: "Timestamp \<Rightarrow> Timestamp \<Rightarrow> bool" where
  "less_Timestamp a b \<longleftrightarrow> tm_sec a < tm_sec b \<or> (tm_sec a = tm_sec b \<and> tm_nsec a < tm_nsec b)"

instance
  by standard (auto simp: less_eq_Timestamp_def less_Timestamp_def intro: Timestamp.expand)

end

section \<open>What the two types have in common\<close>

locale normalized_time =
  fixes sec :: "'t \<Rightarrow> int" and nsec :: "'t \<Rightarrow> u32" and valid :: "'t \<Rightarrow> bool"
    and norm :: "'t \<Rightarrow> 't option" and max_sec :: int
  assumes fields: "sec a = sec b \<Longrightarrow> nsec a = nsec b \<Longrightarrow> a = b"
    and norm_Some: "valid t \<Longrightarrow> norm t = Some u \<Longrightarrow> valid u \<and> uint (nsec u) < 1000000000
      \<and> sec u * 1000000000 + uint (nsec u) = sec t * 1000000000 + uint (nsec t)"
    and norm_None: "valid t \<Longrightarrow> norm t = None \<longleftrightarrow>
      max_sec < (sec t * 1000000000 + uint (nsec t)) div 1000000000"
begin

definition nanos :: "'t \<Rightarrow> int" where
  "nanos t = sec t * 1000000000 + uint (nsec t)"

definition normal :: "'t \<Rightarrow> bool" where
  "normal t \<longleftrightarrow> uint (nsec t) < 1000000000"

lemma normal_sec: "normal t \<Longrightarrow> sec t = nanos t div 1000000000"
  by (simp add: normal_def nanos_def)

lemma normal_nsec: "normal t \<Longrightarrow> uint (nsec t) = nanos t mod 1000000000"
  by (simp add: normal_def nanos_def)

lemma normal_unique: "normal a \<Longrightarrow> normal b \<Longrightarrow> nanos a = nanos b \<Longrightarrow> a = b"
  using normal_sec [of a] normal_sec [of b] normal_nsec [of a] normal_nsec [of b]
  by (intro fields) (auto simp: word_uint_eq_iff)

lemma norm_idem:
  assumes "valid t" "norm t = Some u"
  shows "norm u = Some u"
proof -
  have u: "valid u" "normal u" "nanos u = nanos t"
    using norm_Some [OF assms] by (simp_all add: normal_def nanos_def)
  then have "norm u \<noteq> None" using norm_None [OF u(1)] norm_None [OF assms(1)] assms(2)
    by (simp add: nanos_def)
  then obtain v where v: "norm u = Some v" by blast
  with u norm_Some [of u v] have "normal v" "nanos v = nanos u" by (simp_all add: normal_def nanos_def)
  with u v normal_unique [of v u] show ?thesis by simp
qed

lemma order_nanos:
  assumes "normal a" "normal b"
  shows "sec a < sec b \<or> (sec a = sec b \<and> uint (nsec a) \<le> uint (nsec b)) \<longleftrightarrow> nanos a \<le> nanos b"
proof -
  have "0 \<le> uint (nsec a)" "0 \<le> uint (nsec b)" by simp_all
  with assms show ?thesis unfolding normal_def nanos_def by linarith
qed

end

section \<open>Lemmas\<close>

definition duration_valid :: "Duration \<Rightarrow> bool" where
  "duration_valid d \<longleftrightarrow> i32_min \<le> dur_sec d \<and> dur_sec d \<le> i32_max"

text \<open>The carry is at most 4 seconds, so the \<open>unreachable!\<close> is not reached.\<close>

lemma uint_carry: "uint (n div 1000000000 :: u32) = uint n div 1000000000" "uint n div 1000000000 \<le> 4"
proof -
  show "uint (n div 1000000000 :: u32) = uint n div 1000000000" by (simp add: uint_div)
  have "uint n < 2 ^ 32" using uint_lt2p [of n] by simp
  then show "uint n div 1000000000 \<le> 4" by simp
qed

lemma uint_rest: "uint (n mod 1000000000 :: u32) = uint n mod 1000000000"
  by (simp add: uint_mod)

lemma nsec_less_iff: "n < 1000000000 \<longleftrightarrow> uint (n :: u32) < 1000000000"
  by (simp add: word_less_def)

lemma duration_new_checked_eq:
  "duration_new_checked sec nsec = Some (
     let s = sec + uint nsec div 1000000000 in
     if uint nsec < 1000000000 then Some (Duration sec nsec)
     else if i32_min \<le> s \<and> s \<le> i32_max then Some (Duration s (nsec mod 1000000000)) else None)"
  using uint_carry [of nsec]
  by (simp add: duration_new_checked_def normalize_nsec_def i32_checked_add_def i32_try_from_def
      Let_def nsec_less_iff i32_max_def)

lemma timestamp_new_checked_eq:
  "timestamp_new_checked sec nsec =
     (if uint nsec < 1000000000 then Some (Timestamp sec nsec)
      else if uint sec + uint nsec div 1000000000 < 2 ^ 32
      then Some (Timestamp (sec + nsec div 1000000000) (nsec mod 1000000000)) else None)"
proof -
  have "unat sec + unat (nsec div 1000000000) < 2 ^ 32 \<longleftrightarrow> uint sec + uint nsec div 1000000000 < 2 ^ 32"
  proof -
    have "uint sec + uint nsec div 1000000000 = int (unat sec + unat (nsec div 1000000000))"
      by (simp only: of_nat_add of_nat_unat uint_carry(1))
    moreover have "int k < 2 ^ 32 \<longleftrightarrow> k < 2 ^ 32" for k by simp
    ultimately show ?thesis by (simp only:)
  qed
  then show ?thesis
    by (simp add: timestamp_new_checked_def normalize_nsec_def nsec_less_iff u32_checked_add_def)
qed

interpretation dur: normalized_time dur_sec dur_nsec duration_valid
  "\<lambda>d. case duration_normalize d of None \<Rightarrow> None | Some r \<Rightarrow> r" i32_max
proof
  fix a b t u :: Duration
  show "dur_sec a = dur_sec b \<Longrightarrow> dur_nsec a = dur_nsec b \<Longrightarrow> a = b" by (rule Duration.expand) simp
  assume v: "duration_valid t"
  let ?n = "case duration_normalize t of None \<Rightarrow> None | Some r \<Rightarrow> r"
  show "?n = Some u \<Longrightarrow> duration_valid u \<and> uint (dur_nsec u) < 1000000000
      \<and> dur_sec u * 1000000000 + uint (dur_nsec u) = dur_sec t * 1000000000 + uint (dur_nsec t)"
    using v by (auto simp: duration_normalize_def duration_new_checked_eq duration_valid_def uint_rest
        Let_def split: if_splits)
  have "0 \<le> uint (dur_nsec t)" by simp
  moreover have "(dur_sec t * 1000000000 + uint (dur_nsec t)) div 1000000000 =
      dur_sec t + uint (dur_nsec t) div 1000000000"
    by simp
  moreover have "0 \<le> uint (dur_nsec t) div 1000000000" by (simp add: pos_imp_zdiv_nonneg_iff)
  ultimately show "(?n = None) = (i32_max < (dur_sec t * 1000000000 + uint (dur_nsec t)) div 1000000000)"
    using v by (auto simp: duration_normalize_def duration_new_checked_eq duration_valid_def Let_def
        split: if_splits)
qed

interpretation tm: normalized_time "\<lambda>t. uint (tm_sec t)" tm_nsec "\<lambda>_. True" timestamp_normalize "2 ^ 32 - 1"
proof
  fix a b t u :: Timestamp
  show "uint (tm_sec a) = uint (tm_sec b) \<Longrightarrow> tm_nsec a = tm_nsec b \<Longrightarrow> a = b"
    by (rule Timestamp.expand) (simp add: word_uint_eq_iff)
  have sum: "uint (tm_sec t + tm_nsec t div 1000000000) = uint (tm_sec t) + uint (tm_nsec t) div 1000000000"
    if "uint (tm_sec t) + uint (tm_nsec t) div 1000000000 < 2 ^ 32"
  proof -
    have "0 \<le> uint (tm_sec t) + uint (tm_nsec t) div 1000000000" by (simp add: pos_imp_zdiv_nonneg_iff)
    with that show ?thesis using uint_carry [of "tm_nsec t"] by (simp add: uint_word_ariths)
  qed
  show "timestamp_normalize t = Some u \<Longrightarrow> True \<and> uint (tm_nsec u) < 1000000000
      \<and> uint (tm_sec u) * 1000000000 + uint (tm_nsec u) = uint (tm_sec t) * 1000000000 + uint (tm_nsec t)"
    using sum by (auto simp: timestamp_normalize_def timestamp_new_checked_eq uint_rest split: if_splits)
  have "uint (tm_sec t) < 2 ^ 32" using uint_lt2p [of "tm_sec t"] by simp
  then show "(timestamp_normalize t = None) =
      (2 ^ 32 - 1 < (uint (tm_sec t) * 1000000000 + uint (tm_nsec t)) div 1000000000)"
    by (auto simp: timestamp_normalize_def timestamp_new_checked_eq split: if_splits)
qed

section \<open>Properties\<close>

lemma total_nanos_exact: "uint (total_nanos t) = uint (tm_sec t) * 1000000000 + uint (tm_nsec t)"
proof -
  have s: "uint (tm_sec t) < 2 ^ 32" and n: "uint (tm_nsec t) < 2 ^ 32"
    using uint_lt2p [of "tm_sec t"] uint_lt2p [of "tm_nsec t"] by simp_all
  have us: "uint (ucast (tm_sec t) :: u64) = uint (tm_sec t)"
    and un: "uint (ucast (tm_nsec t) :: u64) = uint (tm_nsec t)"
    using s n by (simp_all add: unsigned_ucast_eq take_bit_eq_mod)
  have "0 \<le> uint (tm_sec t)" "0 \<le> uint (tm_nsec t)" by simp_all
  then show ?thesis
    using s n by (simp add: total_nanos_def uint_word_ariths us un)
qed

text \<open>Normalising a duration or a timestamp never panics; it fails exactly when the whole
  seconds do not fit, and otherwise gives the same instant with fewer than a billion
  nanoseconds, on which normalising again changes nothing.\<close>

theorem normalize_time:
  assumes "duration_valid d"
  shows "(\<exists>r. duration_normalize d = Some r \<and>
      (case r of
         None \<Rightarrow> i32_max < dur.nanos d div 1000000000
       | Some u \<Rightarrow> dur.nanos u = dur.nanos d \<and> uint (dur_nsec u) < 1000000000 \<and> duration_valid u
           \<and> duration_normalize u = Some (Some u)))
    \<and> (case timestamp_normalize t of
         None \<Rightarrow> 2 ^ 32 - 1 < tm.nanos t div 1000000000
       | Some u \<Rightarrow> tm.nanos u = tm.nanos t \<and> uint (tm_nsec u) < 1000000000 \<and> timestamp_normalize u = Some u)"
proof -
  have total: "\<exists>r. duration_normalize x = Some r" for x
    by (simp add: duration_normalize_def duration_new_checked_eq)
  obtain r where r: "duration_normalize d = Some r" using total by blast
  have "case r of None \<Rightarrow> i32_max < dur.nanos d div 1000000000
       | Some u \<Rightarrow> dur.nanos u = dur.nanos d \<and> uint (dur_nsec u) < 1000000000 \<and> duration_valid u
           \<and> duration_normalize u = Some (Some u)"
  proof (cases r)
    case None
    then show ?thesis using dur.norm_None [OF assms] r by (simp add: dur.nanos_def)
  next
    case (Some u)
    then have "duration_normalize u = Some (Some u)"
      using dur.norm_idem [OF assms, of u] r total [of u] by auto
    then show ?thesis using Some dur.norm_Some [OF assms, of u] r by (simp add: dur.nanos_def)
  qed
  moreover have "case timestamp_normalize t of
         None \<Rightarrow> 2 ^ 32 - 1 < tm.nanos t div 1000000000
       | Some u \<Rightarrow> tm.nanos u = tm.nanos t \<and> uint (tm_nsec u) < 1000000000 \<and> timestamp_normalize u = Some u"
  proof (cases "timestamp_normalize t")
    case None
    then show ?thesis using tm.norm_None [of t] by (simp add: tm.nanos_def)
  next
    case (Some u)
    then show ?thesis using tm.norm_Some [of t u] tm.norm_idem [of t u] by (simp add: tm.nanos_def)
  qed
  ultimately show ?thesis using r by blast
qed

theorem normalize_time_witness:
  "duration_valid (Duration (- 4) 2858407346) \<and> (\<exists>r. duration_normalize (Duration (- 4) 2858407346) = Some r)"
proof -
  have "duration_valid (Duration (- 4) 2858407346)" by (simp add: duration_valid_def i32_min_def i32_max_def)
  then show ?thesis using normalize_time by blast
qed

text \<open>on normalised values the derived order is the order in time, the total number of
  nanoseconds of a timestamp is computed without overflow for every field value, and the
  conversion to protobuf succeeds exactly when the nanoseconds are below \<open>2 ^ 31\<close>: it
  panics on other values, which deserialisation can produce.\<close>

theorem timestamp_order_and_range:
  "uint (total_nanos t) = uint (tm_sec t) * 1000000000 + uint (tm_nsec t)
   \<and> (timestamp_to_prost t = None \<longleftrightarrow> 2 ^ 31 \<le> uint (tm_nsec t))
   \<and> (duration_to_prost d = None \<longleftrightarrow> 2 ^ 31 \<le> uint (dur_nsec d))
   \<and> (case (timestamp_normalize a, timestamp_normalize b) of
        (Some u, Some v) \<Rightarrow> u \<le> v \<longleftrightarrow> tm.nanos a \<le> tm.nanos b
      | _ \<Rightarrow> True)"
proof -
  have "u \<le> v \<longleftrightarrow> tm.nanos a \<le> tm.nanos b"
    if "timestamp_normalize a = Some u" "timestamp_normalize b = Some v" for u v
  proof -
    have "tm.normal u" "tm.normal v" "tm.nanos u = tm.nanos a" "tm.nanos v = tm.nanos b"
      using tm.norm_Some [of a u] tm.norm_Some [of b v] that by (simp_all add: tm.normal_def tm.nanos_def)
    with tm.order_nanos [of u v] show ?thesis
      by (simp add: less_eq_Timestamp_def word_less_def word_le_def word_uint_eq_iff)
  qed
  then show ?thesis
    by (auto simp: total_nanos_exact timestamp_to_prost_def duration_to_prost_def i32_try_from_def
        i32_max_def split: option.split)
qed

lemma timestamp_try_from_system_eq:
  "timestamp_try_from_system time = Some (
     if time < 0 then Inl LowerBound
     else if 2 ^ 32 \<le> time div 1000000000 then Inl UpperBound
     else Inr (Timestamp (word_of_int (time div 1000000000)) (word_of_int (time mod 1000000000))))"
proof (cases "0 \<le> time")
  case True
  have d: "int (nat time div 1000000000) = time div 1000000000"
    and m: "int (nat time mod 1000000000) = time mod 1000000000"
    using True by (simp_all add: zdiv_int zmod_int)
  then have w: "(word_of_nat (nat time div 1000000000) :: u32) = word_of_int (time div 1000000000)"
    "(word_of_nat (nat time mod 1000000000) :: u32) = word_of_int (time mod 1000000000)"
    by (metis of_int_of_nat_eq)+
  have "uint (word_of_int (time mod 1000000000) :: u32) < 1000000000"
    by (simp add: unsigned_of_int take_bit_int_eq_self)
  then have "timestamp_new s (word_of_int (time mod 1000000000))
      = Some (Timestamp s (word_of_int (time mod 1000000000)))" for s
    by (simp add: timestamp_new_def timestamp_new_checked_eq)
  moreover have "2 ^ 32 \<le> nat time div 1000000000 \<longleftrightarrow> 2 ^ 32 \<le> time div 1000000000"
    by (simp flip: d)
  ultimately show ?thesis
    using True w by (simp add: timestamp_try_from_system_def)
qed (simp add: timestamp_try_from_system_def)

text \<open>Converting a system time never panics; a time from the epoch up to the year 2106 is
  converted exactly, and saturation yields the minimum before the epoch and the maximum
  beyond the range.\<close>

theorem timestamp_from_system_time:
  "\<exists>r. timestamp_try_from_system time = Some r
     \<and> (r = Inl LowerBound \<longleftrightarrow> time < 0)
     \<and> (r = Inl UpperBound \<longleftrightarrow> 2 ^ 32 * 1000000000 \<le> time)
     \<and> tm.nanos (timestamp_saturating r) = max 0 (min (2 ^ 32 * 1000000000 - 1) time)"
proof -
  have "uint (word_of_int (time mod 1000000000) :: u32) = time mod 1000000000"
    by (simp add: unsigned_of_int take_bit_int_eq_self)
  moreover have "uint (word_of_int (time div 1000000000) :: u32) = time div 1000000000"
    if "0 \<le> time" "\<not> 2 ^ 32 \<le> time div 1000000000"
    using that by (simp add: unsigned_of_int take_bit_int_eq_self pos_imp_zdiv_nonneg_iff)
  moreover have "2 ^ 32 \<le> time div 1000000000 \<longleftrightarrow> 2 ^ 32 * 1000000000 \<le> time"
  proof -
    have "time = time div 1000000000 * 1000000000 + time mod 1000000000" "0 \<le> time mod 1000000000"
      "time mod 1000000000 < 1000000000" by simp_all
    then show ?thesis by linarith
  qed
  ultimately show ?thesis
    by (cases "0 \<le> time"; cases "2 ^ 32 \<le> time div 1000000000")
      (simp_all add: timestamp_try_from_system_eq timestamp_saturating_def tm.nanos_def
        timestamp_min_def timestamp_max_def)
qed

end
