(* ===== verification/Image_Message.thy ===== *)
theory Image_Message
  imports Image_Raw Wkt_Time
begin

text \<open>
  Image messages (\<open>img2yuv/compressed.rs\<close>, \<open>img2yuv/message.rs\<close>, \<open>img2yuv/ros1.rs\<close>,
  \<open>img2yuv/ros2.rs\<close> and the enum \<open>Image\<close> of \<open>img2yuv/mod.rs\<close>), with every compression
  feature enabled. The \<open>image\<close>, \<open>regex\<close> and \<open>cdr\<close> crates are parameters. The reads of the \<open>bytes\<close>
  crate on a slice are modelled as the source uses them: a read that is too long is an error with
  the requested and the available length. The locale \<open>wire_format\<close> states what a decoder promises
  with respect to the ROS 1 serialization; every decoder of the file is an interpretation of it.
\<close>

section \<open>Compressed images\<close>

datatype Compression = Png | Jpeg | WebP

text \<open>The left side is \<open>UnknownCompressionError\<close>.\<close>

definition compression_from_str :: "string \<Rightarrow> (Compression, string) result" where
  "compression_from_str s =
     (if s = ''png'' then Inr Png
      else if s = ''jpg'' \<or> s = ''jpeg'' then Inr Jpeg
      else if s = ''webp'' then Inr WebP
      else Inl s)"

text \<open>The two patterns, the words \<open>ORIG_PIXFMT; CODEC compressed [COMPRESSED_PIXFMT]\<close> and
  \<open>ORIG_PIXFMT; compressedDepth CODEC\<close>. The parameter \<open>captures\<close> is the group \<open>codec\<close> of a match.\<close>

datatype ros_pattern = COMPRESSED | COMPRESSED_DEPTH

type_synonym regex_crate = "ros_pattern \<Rightarrow> string \<Rightarrow> string option"

fun first_capture :: "regex_crate \<Rightarrow> ros_pattern list \<Rightarrow> string \<Rightarrow> string \<Rightarrow> string" where
  "first_capture captures [] format codec = codec"
| "first_capture captures (pattern # patterns) format codec =
     (case captures pattern format of
        Some codec' \<Rightarrow> codec'
      | None \<Rightarrow> first_capture captures patterns format codec)"

definition try_from_ros_format :: "regex_crate \<Rightarrow> string \<Rightarrow> (Compression, string) result" where
  "try_from_ros_format captures format =
     compression_from_str (first_capture captures [COMPRESSED, COMPRESSED_DEPTH] format format)"

record CompressedImage =
  ci_compression :: Compression
  ci_data :: "u8 list"

text \<open>\<open>ImageReader::into_dimensions\<close>, and \<open>load_from_memory_with_format\<close> followed by \<open>into_rgb8\<close>.\<close>

record image_crate =
  into_dimensions :: "Compression \<Rightarrow> u8 list \<Rightarrow> (u32 \<times> u32, string) result"
  load_rgb8 :: "Compression \<Rightarrow> u8 list \<Rightarrow> ((u32 \<times> u32) \<times> u8 list, string) result"

definition compressed_probe_dimensions :: "image_crate \<Rightarrow> CompressedImage \<Rightarrow> (u32 \<times> u32, ImageError) result" where
  "compressed_probe_dimensions I c = map_sum ReadDimensions id (into_dimensions I (ci_compression c) (ci_data c))"

definition compressed_to_yuv420 ::
  "image_crate \<Rightarrow> yuv_crate \<Rightarrow> 'b yuv_ops \<Rightarrow> CompressedImage \<Rightarrow> 'b \<Rightarrow> ((unit, ImageError) result \<times> 'b) may_panic" where
  "compressed_to_yuv420 I Y B c dst =
     (case load_rgb8 I (ci_compression c) (ci_data c) of
        Inl e \<Rightarrow> Some (Inl (Decompress e), dst)
      | Inr ((width, height), rgb) \<Rightarrow> do {
          stride \<leftarrow> u32_checked_mul width 3;
          r \<leftarrow> buffer_validate_dimensions B dst width height;
          (case r of
             Inl e \<Rightarrow> Some (Inl e, dst)
           | Inr _ \<Rightarrow> rgb_to_yuv420 Y B dst Rgb8 rgb stride)
        })"

datatype Image = Compressed CompressedImage | Raw RawImage

fun probe_dimensions :: "image_crate \<Rightarrow> Image \<Rightarrow> (u32 \<times> u32, ImageError) result" where
  "probe_dimensions I (Compressed c) = compressed_probe_dimensions I c"
| "probe_dimensions I (Raw i) = Inr (ri_width i, ri_height i)"

fun image_to_yuv420 ::
  "image_crate \<Rightarrow> yuv_crate \<Rightarrow> f32_ops \<Rightarrow> 'b yuv_ops \<Rightarrow> Image \<Rightarrow> 'b \<Rightarrow> ((unit, ImageError) result \<times> 'b) may_panic" where
  "image_to_yuv420 I Y FP B (Compressed c) dst = compressed_to_yuv420 I Y B c dst"
| "image_to_yuv420 I Y FP B (Raw i) dst = raw_to_yuv420 Y FP B i dst"

section \<open>Messages\<close>

record ImageMessage =
  im_timestamp :: "Timestamp option"
  im_frame_id :: string
  im_image :: Image

text \<open>The messages \<open>CompressedImage\<close> and \<open>RawImage\<close> of the Foxglove schemas.\<close>

record CompressedImageMsg =
  cm_timestamp :: "Timestamp option"
  cm_frame_id :: string
  cm_data :: "u8 list"
  cm_format :: string

record RawImageMsg =
  rm_timestamp :: "Timestamp option"
  rm_frame_id :: string
  rm_width :: u32
  rm_height :: u32
  rm_encoding :: string
  rm_step :: u32
  rm_data :: "u8 list"

definition compressed_try_from :: "CompressedImageMsg \<Rightarrow> (ImageMessage, string) result" where
  "compressed_try_from m =
     (case compression_from_str (cm_format m) of
        Inl e \<Rightarrow> Inl e
      | Inr compression \<Rightarrow>
          Inr \<lparr> im_timestamp = cm_timestamp m, im_frame_id = cm_frame_id m,
                im_image = Compressed \<lparr> ci_compression = compression, ci_data = cm_data m \<rparr> \<rparr>)"

definition raw_try_from :: "RawImageMsg \<Rightarrow> (ImageMessage, string) result" where
  "raw_try_from m =
     (case parse_endian (rm_encoding m) Little of
        Inl e \<Rightarrow> Inl e
      | Inr encoding \<Rightarrow>
          Inr \<lparr> im_timestamp = rm_timestamp m, im_frame_id = rm_frame_id m,
                im_image = Raw \<lparr> ri_encoding = encoding, ri_width = rm_width m, ri_height = rm_height m,
                  ri_stride = rm_step m, ri_data = rm_data m \<rparr> \<rparr>)"

section \<open>ROS 1\<close>

datatype Ros1DecodeError =
  UnexpectedEof nat nat
| InvalidUtf8
| UnknownEncoding string
| UnknownCompression string

text \<open>A read consumes a prefix of the slice; \<open>and_then\<close> is \<open>let x = ...?;\<close>.\<close>

type_synonym 'a reader = "u8 list \<Rightarrow> ('a \<times> u8 list, Ros1DecodeError) result may_panic"

definition and_then :: "'a reader \<Rightarrow> ('a \<Rightarrow> 'b reader) \<Rightarrow> 'b reader" where
  "and_then m f = (\<lambda>buf.
     case m buf of
       None \<Rightarrow> None
     | Some (Inl e) \<Rightarrow> Some (Inl e)
     | Some (Inr (x, rest)) \<Rightarrow> f x rest)"

definition ok :: "'a \<Rightarrow> 'a reader" where
  "ok x = (\<lambda>buf. Some (Inr (x, buf)))"

definition try_get_u8 :: "u8 reader" where
  "try_get_u8 buf =
     (case buf of [] \<Rightarrow> Some (Inl (UnexpectedEof 1 0)) | b # rest \<Rightarrow> Some (Inr (b, rest)))"

definition try_get_u32_le :: "u32 reader" where
  "try_get_u32_le buf =
     (if length buf < 4 then Some (Inl (UnexpectedEof 4 (length buf)))
      else Some (Inr (u32_from_le_bytes (take 4 buf), drop 4 buf)))"

definition try_get_ros1_bytes :: "u8 list reader" where
  "try_get_ros1_bytes = and_then try_get_u32_le (\<lambda>n buf.
     let len = unat n in
     if length buf < len then Some (Inl (UnexpectedEof len (length buf)))
     else do { bytes \<leftarrow> slice_to len buf; Some (Inr (bytes, drop len buf)) })"

definition try_get_ros1_str :: "string reader" where
  "try_get_ros1_str = and_then try_get_ros1_bytes (\<lambda>bytes buf.
     case from_utf8 bytes of None \<Rightarrow> Some (Inl InvalidUtf8) | Some s \<Rightarrow> Some (Inr (s, buf)))"

record Ros1Header =
  h1_seq :: u32
  h1_sec :: u32
  h1_nsec :: u32
  h1_frame_id :: string

definition try_get_ros1_header :: "Ros1Header reader" where
  "try_get_ros1_header =
     and_then try_get_u32_le (\<lambda>seq.
     and_then try_get_u32_le (\<lambda>sec.
     and_then try_get_u32_le (\<lambda>nsec.
     and_then try_get_ros1_str (\<lambda>frame_id.
     ok \<lparr> h1_seq = seq, h1_sec = sec, h1_nsec = nsec, h1_frame_id = frame_id \<rparr>))))"

record Ros1Image =
  r1_header :: Ros1Header
  r1_height :: u32
  r1_width :: u32
  r1_encoding :: string
  r1_is_bigendian :: u8
  r1_step :: u32
  r1_data :: "u8 list"

definition get_ros1_image :: "Ros1Image reader" where
  "get_ros1_image =
     and_then try_get_ros1_header (\<lambda>header.
     and_then try_get_u32_le (\<lambda>height.
     and_then try_get_u32_le (\<lambda>width.
     and_then try_get_ros1_str (\<lambda>encoding.
     and_then try_get_u8 (\<lambda>is_bigendian.
     and_then try_get_u32_le (\<lambda>step.
     and_then try_get_ros1_bytes (\<lambda>data.
     ok \<lparr> r1_header = header, r1_height = height, r1_width = width, r1_encoding = encoding,
          r1_is_bigendian = is_bigendian, r1_step = step, r1_data = data \<rparr>)))))))"

record Ros1CompressedImage =
  c1_header :: Ros1Header
  c1_format :: string
  c1_data :: "u8 list"

definition get_ros1_compressed :: "Ros1CompressedImage reader" where
  "get_ros1_compressed =
     and_then try_get_ros1_header (\<lambda>header.
     and_then try_get_ros1_str (\<lambda>format.
     and_then try_get_ros1_bytes (\<lambda>data.
     ok \<lparr> c1_header = header, c1_format = format, c1_data = data \<rparr>)))"

text \<open>The decoders drop what follows the message.\<close>

definition decode_with :: "'a reader \<Rightarrow> u8 list \<Rightarrow> ('a, Ros1DecodeError) result may_panic" where
  "decode_with m buf = map_option (map_sum id fst) (m buf)"

definition ros1_image_decode :: "u8 list \<Rightarrow> (Ros1Image, Ros1DecodeError) result may_panic" where
  "ros1_image_decode = decode_with get_ros1_image"

definition ros1_compressed_decode :: "u8 list \<Rightarrow> (Ros1CompressedImage, Ros1DecodeError) result may_panic" where
  "ros1_compressed_decode = decode_with get_ros1_compressed"

definition endian_of :: "u8 \<Rightarrow> Endian" where
  "endian_of is_bigendian = (if is_bigendian > 0 then Big else Little)"

text \<open>\<open>Timestamp::new\<close> panics.\<close>

definition ros1_image_try_from :: "Ros1Image \<Rightarrow> (ImageMessage, Ros1DecodeError) result may_panic" where
  "ros1_image_try_from m =
     (case parse_endian (r1_encoding m) (endian_of (r1_is_bigendian m)) of
        Inl e \<Rightarrow> Some (Inl (UnknownEncoding e))
      | Inr encoding \<Rightarrow> do {
          timestamp \<leftarrow> timestamp_new (h1_sec (r1_header m)) (h1_nsec (r1_header m));
          Some (Inr \<lparr> im_timestamp = Some timestamp, im_frame_id = h1_frame_id (r1_header m),
            im_image = Raw \<lparr> ri_encoding = encoding, ri_width = r1_width m, ri_height = r1_height m,
              ri_stride = r1_step m, ri_data = r1_data m \<rparr> \<rparr>)
        })"

definition ros1_compressed_try_from ::
  "regex_crate \<Rightarrow> Ros1CompressedImage \<Rightarrow> (ImageMessage, Ros1DecodeError) result may_panic" where
  "ros1_compressed_try_from captures m =
     (case try_from_ros_format captures (c1_format m) of
        Inl e \<Rightarrow> Some (Inl (UnknownCompression e))
      | Inr compression \<Rightarrow> do {
          timestamp \<leftarrow> timestamp_new (h1_sec (c1_header m)) (h1_nsec (c1_header m));
          Some (Inr \<lparr> im_timestamp = Some timestamp, im_frame_id = h1_frame_id (c1_header m),
            im_image = Compressed \<lparr> ci_compression = compression, ci_data = c1_data m \<rparr> \<rparr>)
        })"

section \<open>ROS 2\<close>

datatype Ros2DecodeError =
  NegativeTimestamp
| Cdr string
| UnknownEncoding2 string
| UnknownCompression2 string

record Ros2Time =
  t2_sec :: "32 word"
  t2_nanosec :: u32

text \<open>The seconds are an \<open>i32\<close>.\<close>

definition ros2_time_try_from :: "Ros2Time \<Rightarrow> (Timestamp, Ros2DecodeError) result may_panic" where
  "ros2_time_try_from t =
     (if sint (t2_sec t) < 0 then Some (Inl NegativeTimestamp)
      else do { ts \<leftarrow> timestamp_new (t2_sec t) (t2_nanosec t); Some (Inr ts) })"

record Ros2Header =
  h2_stamp :: Ros2Time
  h2_frame_id :: string

record Ros2Image =
  r2_header :: Ros2Header
  r2_height :: u32
  r2_width :: u32
  r2_encoding :: string
  r2_is_bigendian :: u8
  r2_step :: u32
  r2_data :: "u8 list"

record Ros2CompressedImage =
  c2_header :: Ros2Header
  c2_format :: string
  c2_data :: "u8 list"

text \<open>The parameter is \<open>cdr::deserialize\<close> at the type of the message.\<close>

definition ros2_decode :: "(u8 list \<Rightarrow> ('m, string) result) \<Rightarrow> u8 list \<Rightarrow> ('m, Ros2DecodeError) result" where
  "ros2_decode deserialize data = map_sum Cdr id (deserialize data)"

definition ros2_image_try_from :: "Ros2Image \<Rightarrow> (ImageMessage, Ros2DecodeError) result may_panic" where
  "ros2_image_try_from m =
     (case parse_endian (r2_encoding m) (endian_of (r2_is_bigendian m)) of
        Inl e \<Rightarrow> Some (Inl (UnknownEncoding2 e))
      | Inr encoding \<Rightarrow> do {
          r \<leftarrow> ros2_time_try_from (h2_stamp (r2_header m));
          (case r of
             Inl e \<Rightarrow> Some (Inl e)
           | Inr timestamp \<Rightarrow>
               Some (Inr \<lparr> im_timestamp = Some timestamp, im_frame_id = h2_frame_id (r2_header m),
                 im_image = Raw \<lparr> ri_encoding = encoding, ri_width = r2_width m, ri_height = r2_height m,
                   ri_stride = r2_step m, ri_data = r2_data m \<rparr> \<rparr>))
        })"

definition ros2_compressed_try_from ::
  "regex_crate \<Rightarrow> Ros2CompressedImage \<Rightarrow> (ImageMessage, Ros2DecodeError) result may_panic" where
  "ros2_compressed_try_from captures m =
     (case try_from_ros_format captures (c2_format m) of
        Inl e \<Rightarrow> Some (Inl (UnknownCompression2 e))
      | Inr compression \<Rightarrow> do {
          r \<leftarrow> ros2_time_try_from (h2_stamp (c2_header m));
          (case r of
             Inl e \<Rightarrow> Some (Inl e)
           | Inr timestamp \<Rightarrow>
               Some (Inr \<lparr> im_timestamp = Some timestamp, im_frame_id = h2_frame_id (c2_header m),
                 im_image = Compressed \<lparr> ci_compression = compression, ci_data = c2_data m \<rparr> \<rparr>))
        })"

section \<open>The ROS 1 serialization\<close>

text \<open>The reads are simplified by these two rules.\<close>

lemma and_then_Ok [simp]:
  "and_then m f buf = Some (Inr (y, rest)) \<longleftrightarrow> (\<exists>x mid. m buf = Some (Inr (x, mid)) \<and> f x mid = Some (Inr (y, rest)))"
  by (auto simp: and_then_def split: option.split sum.split)

lemma and_then_panic [simp]:
  "and_then m f buf = None \<longleftrightarrow> m buf = None \<or> (\<exists>x mid. m buf = Some (Inr (x, mid)) \<and> f x mid = None)"
  by (auto simp: and_then_def split: option.split sum.split)

lemma ok_Ok [simp]: "ok x buf = Some (Inr (y, rest)) \<longleftrightarrow> y = x \<and> rest = buf" "ok x buf \<noteq> None"
  by (auto simp: ok_def)

locale wire_format =
  fixes put :: "'a \<Rightarrow> u8 list" and get :: "'a reader" and representable :: "'a \<Rightarrow> bool"
  assumes returns: "get buf \<noteq> None"
    and put_get: "get buf = Some (Inr (x, rest)) \<longleftrightarrow> representable x \<and> buf = put x @ rest"
begin

lemma decode_iff: "decode_with get buf = Some (Inr x) \<longleftrightarrow> representable x \<and> (\<exists>rest. buf = put x @ rest)"
proof -
  have "decode_with get buf = Some (Inr x) \<longleftrightarrow> (\<exists>rest. get buf = Some (Inr (x, rest)))"
    by (cases "get buf") (auto simp: decode_with_def map_sum_def split: sum.split)
  then show ?thesis using put_get by simp
qed

lemma decode_returns: "\<exists>r. decode_with get buf = Some r"
  using returns [of buf] by (auto simp: decode_with_def)

lemma unique: "representable x \<Longrightarrow> representable y \<Longrightarrow> put x @ a = put y @ b \<Longrightarrow> x = y"
  using put_get [of "put x @ a" x a] put_get [of "put x @ a" y b] by simp

text \<open>No message is a proper prefix of another.\<close>

lemma truncated:
  assumes "representable x" "put x = p @ q" "q \<noteq> []"
  shows "\<exists>e. decode_with get p = Some (Inl e)"
proof -
  obtain r where r: "decode_with get p = Some r" using decode_returns by blast
  show ?thesis
  proof (cases r)
    case (Inr y)
    then obtain rest where y: "representable y" "p = put y @ rest" using r decode_iff by auto
    then have "x = y" using assms(1,2) unique [of x y "[]" "rest @ q"] by simp
    then show ?thesis using y(2) assms(2,3) by simp
  qed (use r in simp)
qed

end

definition put_bytes :: "u8 list \<Rightarrow> u8 list" where
  "put_bytes bs = u32_to_le_bytes (word_of_nat (length bs)) @ bs"

definition put_str :: "string \<Rightarrow> u8 list" where
  "put_str s = put_bytes (as_bytes s)"

definition counted :: "'a list \<Rightarrow> bool" where
  "counted xs \<longleftrightarrow> length xs < 2 ^ 32"

definition put_header :: "Ros1Header \<Rightarrow> u8 list" where
  "put_header h = u32_to_le_bytes (h1_seq h) @ u32_to_le_bytes (h1_sec h) @ u32_to_le_bytes (h1_nsec h) @ put_str (h1_frame_id h)"

definition put_ros1_image :: "Ros1Image \<Rightarrow> u8 list" where
  "put_ros1_image m = put_header (r1_header m) @ u32_to_le_bytes (r1_height m) @ u32_to_le_bytes (r1_width m)
     @ put_str (r1_encoding m) @ [r1_is_bigendian m] @ u32_to_le_bytes (r1_step m) @ put_bytes (r1_data m)"

definition put_ros1_compressed :: "Ros1CompressedImage \<Rightarrow> u8 list" where
  "put_ros1_compressed m = put_header (c1_header m) @ put_str (c1_format m) @ put_bytes (c1_data m)"

definition counted_str :: "string \<Rightarrow> bool" where
  "counted_str s \<longleftrightarrow> is_str s \<and> counted s"

definition ros1_image_ok :: "Ros1Image \<Rightarrow> bool" where
  "ros1_image_ok m \<longleftrightarrow> counted_str (h1_frame_id (r1_header m)) \<and> counted_str (r1_encoding m) \<and> counted (r1_data m)"

definition ros1_compressed_ok :: "Ros1CompressedImage \<Rightarrow> bool" where
  "ros1_compressed_ok m \<longleftrightarrow> counted_str (h1_frame_id (c1_header m)) \<and> counted_str (c1_format m) \<and> counted (c1_data m)"

interpretation w8: wire_format "\<lambda>b. [b]" try_get_u8 "\<lambda>_. True"
  by unfold_locales (auto simp: try_get_u8_def split: list.split)

lemma try_get_u32_le_iff: "try_get_u32_le buf = Some (Inr (x, rest)) \<longleftrightarrow> buf = u32_to_le_bytes x @ rest"
proof -
  have "u32_to_le_bytes (u32_from_le_bytes (take 4 buf)) = take 4 buf" if "\<not> length buf < 4"
    using that by (intro u32_to_from_le) simp
  then have "buf = u32_to_le_bytes (u32_from_le_bytes (take 4 buf)) @ drop 4 buf" if "\<not> length buf < 4"
    using that by simp
  then show ?thesis by (auto simp: try_get_u32_le_def le_simps)
qed

interpretation w32: wire_format u32_to_le_bytes try_get_u32_le "\<lambda>_. True"
  by unfold_locales (simp_all only: try_get_u32_le_iff, simp_all add: try_get_u32_le_def)

interpretation wbytes: wire_format put_bytes try_get_ros1_bytes counted
proof
  fix buf
  show "try_get_ros1_bytes buf \<noteq> None"
    using w32.returns by (auto simp: try_get_ros1_bytes_def Let_def slice_to_def)
  fix x rest :: "u8 list"
  have len: "n = word_of_nat (length x) \<and> length x < 2 ^ 32 \<longleftrightarrow> unat n = length x" for n :: u32
  proof
    assume "unat n = length x"
    moreover have "unat n < 2 ^ 32" "word_of_nat (unat n) = n" using unsigned_less [of n, where ?'a = nat] by simp_all
    ultimately show "n = word_of_nat (length x) \<and> length x < 2 ^ 32" by simp
  qed (simp add: unat_of_nat)
  have split: "\<not> length mid < k \<and> take k mid = x \<and> drop k mid = rest \<longleftrightarrow> mid = x @ rest \<and> k = length x" for k mid
    by auto
  have "try_get_ros1_bytes buf = Some (Inr (x, rest)) \<longleftrightarrow> (\<exists>n mid. buf = u32_to_le_bytes n @ mid \<and>
      \<not> length mid < unat n \<and> take (unat n) mid = x \<and> drop (unat n) mid = rest)"
    by (auto simp: try_get_ros1_bytes_def w32.put_get Let_def slice_to_def)
  also have "\<dots> \<longleftrightarrow> (\<exists>n. buf = u32_to_le_bytes n @ x @ rest \<and> unat n = length x)"
    unfolding split by blast
  also have "\<dots> \<longleftrightarrow> counted x \<and> buf = put_bytes x @ rest"
    unfolding len [symmetric] by (auto simp: counted_def put_bytes_def)
  finally show "try_get_ros1_bytes buf = Some (Inr (x, rest)) \<longleftrightarrow> counted x \<and> buf = put_bytes x @ rest" .
qed

interpretation wstr: wire_format put_str try_get_ros1_str counted_str
proof
  fix buf
  show "try_get_ros1_str buf \<noteq> None"
    using wbytes.returns by (auto simp: try_get_ros1_str_def split: option.split)
  fix x rest
  have utf8: "from_utf8 bs = Some x \<longleftrightarrow> is_str x \<and> bs = as_bytes x" for bs
    using from_utf8_Some from_utf8_as_bytes by metis
  have "try_get_ros1_str buf = Some (Inr (x, rest)) \<longleftrightarrow> (\<exists>bs. (counted bs \<and> buf = put_bytes bs @ rest) \<and> from_utf8 bs = Some x)"
    by (auto simp: try_get_ros1_str_def wbytes.put_get split: option.split)
  then show "try_get_ros1_str buf = Some (Inr (x, rest)) \<longleftrightarrow> counted_str x \<and> buf = put_str x @ rest"
    unfolding utf8 by (auto simp: counted_str_def counted_def put_str_def str_simps)
qed

lemmas wire_simps = w8.put_get w32.put_get wbytes.put_get wstr.put_get
lemmas wire_returns = w8.returns w32.returns wbytes.returns wstr.returns

interpretation wheader: wire_format put_header try_get_ros1_header "\<lambda>h. counted_str (h1_frame_id h)"
proof
  fix buf
  show "try_get_ros1_header buf \<noteq> None" by (auto simp: try_get_ros1_header_def wire_returns)
  fix x rest
  show "try_get_ros1_header buf = Some (Inr (x, rest)) \<longleftrightarrow> counted_str (h1_frame_id x) \<and> buf = put_header x @ rest"
    by (cases x) (auto simp: try_get_ros1_header_def wire_simps put_header_def)
qed

interpretation wimage: wire_format put_ros1_image get_ros1_image ros1_image_ok
proof
  fix buf
  show "get_ros1_image buf \<noteq> None" by (auto simp: get_ros1_image_def wire_returns wheader.returns)
  fix x rest
  show "get_ros1_image buf = Some (Inr (x, rest)) \<longleftrightarrow> ros1_image_ok x \<and> buf = put_ros1_image x @ rest"
    by (cases x) (auto simp: get_ros1_image_def wire_simps wheader.put_get put_ros1_image_def ros1_image_ok_def)
qed

interpretation wcompressed: wire_format put_ros1_compressed get_ros1_compressed ros1_compressed_ok
proof
  fix buf
  show "get_ros1_compressed buf \<noteq> None" by (auto simp: get_ros1_compressed_def wire_returns wheader.returns)
  fix x rest
  show "get_ros1_compressed buf = Some (Inr (x, rest)) \<longleftrightarrow> ros1_compressed_ok x \<and> buf = put_ros1_compressed x @ rest"
    by (cases x) (auto simp: get_ros1_compressed_def wire_simps wheader.put_get put_ros1_compressed_def ros1_compressed_ok_def)
qed

section \<open>Properties\<close>

lemma timestamp_new_panics:
  "timestamp_new sec nsec = None \<longleftrightarrow> 2 ^ 32 \<le> uint sec + uint nsec div 1000000000"
proof -
  have "uint sec < 2 ^ 32" using uint_lt2p [of sec] by simp
  then show ?thesis by (auto simp: timestamp_new_def timestamp_new_checked_eq div_pos_pos_trivial)
qed

lemma timestamp_new_exact:
  assumes "timestamp_new sec nsec = Some t"
  shows "uint (tm_nsec t) < 1000000000" "uint (total_nanos t) = uint sec * 1000000000 + uint nsec"
proof -
  have "uint (sec + nsec div 1000000000) = uint sec + uint nsec div 1000000000"
    if "uint sec + uint nsec div 1000000000 < 2 ^ 32"
  proof -
    have "0 \<le> uint nsec div 1000000000" by (simp add: pos_imp_zdiv_nonneg_iff)
    then show ?thesis using that by (simp add: uint_carry(1) uint_word_ariths(1))
  qed
  then show "uint (tm_nsec t) < 1000000000" "uint (total_nanos t) = uint sec * 1000000000 + uint nsec"
    using assms by (auto simp: timestamp_new_def timestamp_new_checked_eq total_nanos_exact uint_rest split: if_splits)
qed

lemma ros2_time_returns:
  "if sint (t2_sec t) < 0 then ros2_time_try_from t = Some (Inl NegativeTimestamp)
   else \<exists>ts. ros2_time_try_from t = Some (Inr ts)"
proof (cases "sint (t2_sec t) < 0")
  case False
  moreover have "uint (t2_sec t) = sint (t2_sec t) mod 2 ^ 32" "sint (t2_sec t) < 2 ^ 31"
    using sint_lt [of "t2_sec t"] by (simp_all add: uint_sint take_bit_eq_mod)
  ultimately have "uint (t2_sec t) < 2 ^ 31" by simp
  moreover have "uint (t2_nanosec t) div 1000000000 \<le> 4" by (rule uint_carry(2))
  ultimately have "timestamp_new (t2_sec t) (t2_nanosec t) \<noteq> None" by (simp add: timestamp_new_panics)
  then show ?thesis using False by (auto simp: ros2_time_try_from_def)
qed (simp add: ros2_time_try_from_def)

text \<open>C31: The decoders of ROS 1 images never panic. They accept exactly the serialized messages, with anything
  behind them, and return the message that was serialized; a message cut short is an error.\<close>

theorem ros1_decode_exact:
  "(ros1_image_decode buf = Some (Inr m) \<longleftrightarrow> ros1_image_ok m \<and> (\<exists>rest. buf = put_ros1_image m @ rest))
    \<and> (ros1_compressed_decode buf = Some (Inr c) \<longleftrightarrow> ros1_compressed_ok c \<and> (\<exists>rest. buf = put_ros1_compressed c @ rest))
    \<and> ros1_image_decode buf \<noteq> None \<and> ros1_compressed_decode buf \<noteq> None
    \<and> (ros1_image_ok m \<and> put_ros1_image m = p @ q \<and> q \<noteq> [] \<longrightarrow> (\<exists>e. ros1_image_decode p = Some (Inl e)))
    \<and> (ros1_compressed_ok c \<and> put_ros1_compressed c = p @ q \<and> q \<noteq> [] \<longrightarrow> (\<exists>e. ros1_compressed_decode p = Some (Inl e)))"
  unfolding ros1_image_decode_def ros1_compressed_decode_def
  using wimage.decode_iff wcompressed.decode_iff wimage.decode_returns [of buf] wcompressed.decode_returns [of buf]
    wimage.truncated wcompressed.truncated by auto

definition sample_ros1 :: Ros1Image where
  "sample_ros1 = \<lparr> r1_header = \<lparr> h1_seq = 42, h1_sec = 100, h1_nsec = 1000000200, h1_frame_id = ''f'' \<rparr>,
     r1_height = 1, r1_width = 2, r1_encoding = ''mono16'', r1_is_bigendian = 1, r1_step = 4, r1_data = [0, 1, 2, 3] \<rparr>"

lemma sample_ros1_ok: "ros1_image_ok sample_ros1"
  by (auto simp: ros1_image_ok_def sample_ros1_def counted_str_def counted_def intro!: is_str_ascii)

theorem ros1_decode_exact_witness:
  "ros1_image_decode (put_ros1_image sample_ros1 @ [7]) = Some (Inr sample_ros1)
    \<and> (\<exists>e. ros1_image_decode (butlast (put_ros1_image sample_ros1)) = Some (Inl e))"
proof -
  have "put_ros1_image sample_ros1 = butlast (put_ros1_image sample_ros1) @ [last (put_ros1_image sample_ros1)]"
    by (rule append_butlast_last_id [symmetric]) (simp add: put_ros1_image_def)
  then show ?thesis
    using ros1_decode_exact [of "put_ros1_image sample_ros1 @ [7]" sample_ros1 undefined
        "butlast (put_ros1_image sample_ros1)" "[last (put_ros1_image sample_ros1)]"] sample_ros1_ok by simp
qed

text \<open>The conversion of a ROS image keeps the frame, the geometry and the bytes, takes the byte order from
  the message and normalizes the timestamp. A ROS 2 message is rejected when its time is negative and never
  panics; a ROS 1 message of a known encoding panics exactly when its normalized time is beyond the range.\<close>

theorem ros_image_try_from:
  "(ros1_image_try_from m = None \<longleftrightarrow>
      (\<exists>enc. parse_endian (r1_encoding m) (endian_of (r1_is_bigendian m)) = Inr enc)
      \<and> 2 ^ 32 \<le> uint (h1_sec (r1_header m)) + uint (h1_nsec (r1_header m)) div 1000000000)
    \<and> ros2_image_try_from m2 \<noteq> None
    \<and> (ros2_image_try_from m2 = Some (Inl NegativeTimestamp) \<longleftrightarrow>
      (\<exists>enc. parse_endian (r2_encoding m2) (endian_of (r2_is_bigendian m2)) = Inr enc) \<and> sint (t2_sec (h2_stamp (r2_header m2))) < 0)
    \<and> (ros1_image_try_from m = Some (Inr msg) \<longrightarrow> im_frame_id msg = h1_frame_id (r1_header m)
      \<and> (\<exists>t i. im_timestamp msg = Some t \<and> uint (tm_nsec t) < 1000000000
        \<and> uint (total_nanos t) = uint (h1_sec (r1_header m)) * 1000000000 + uint (h1_nsec (r1_header m))
        \<and> im_image msg = Raw i \<and> parse_endian (r1_encoding m) (endian_of (r1_is_bigendian m)) = Inr (ri_encoding i)
        \<and> (ri_width i, ri_height i, ri_stride i, ri_data i) = (r1_width m, r1_height m, r1_step m, r1_data m)))"
proof (intro conjI impI)
  let ?parsed = "parse_endian (r1_encoding m) (endian_of (r1_is_bigendian m))" and ?h = "r1_header m"
  show "ros1_image_try_from m = None \<longleftrightarrow>
      (\<exists>enc. ?parsed = Inr enc) \<and> 2 ^ 32 \<le> uint (h1_sec ?h) + uint (h1_nsec ?h) div 1000000000"
    by (cases ?parsed) (auto simp: ros1_image_try_from_def bind_eq_None_conv timestamp_new_panics)
  let ?parsed2 = "parse_endian (r2_encoding m2) (endian_of (r2_is_bigendian m2))" and ?stamp = "h2_stamp (r2_header m2)"
  note time = ros2_time_returns [of ?stamp]
  show "ros2_image_try_from m2 \<noteq> None"
    using time by (cases ?parsed2) (auto simp: ros2_image_try_from_def split: if_splits)
  show "ros2_image_try_from m2 = Some (Inl NegativeTimestamp) \<longleftrightarrow> (\<exists>enc. ?parsed2 = Inr enc) \<and> sint (t2_sec ?stamp) < 0"
    using time by (cases ?parsed2) (auto simp: ros2_image_try_from_def split: if_splits)
  assume msg: "ros1_image_try_from m = Some (Inr msg)"
  obtain enc where enc: "?parsed = Inr enc" using msg by (cases ?parsed) (auto simp: ros1_image_try_from_def)
  obtain t where t: "timestamp_new (h1_sec ?h) (h1_nsec ?h) = Some t"
    using msg enc by (auto simp: ros1_image_try_from_def bind_eq_Some_conv)
  show "im_frame_id msg = h1_frame_id ?h" using msg enc t by (auto simp: ros1_image_try_from_def)
  show "\<exists>t i. im_timestamp msg = Some t \<and> uint (tm_nsec t) < 1000000000
      \<and> uint (total_nanos t) = uint (h1_sec ?h) * 1000000000 + uint (h1_nsec ?h)
      \<and> im_image msg = Raw i \<and> ?parsed = Inr (ri_encoding i)
      \<and> (ri_width i, ri_height i, ri_stride i, ri_data i) = (r1_width m, r1_height m, r1_step m, r1_data m)"
    using msg enc t timestamp_new_exact [OF t] by (auto simp: ros1_image_try_from_def)
qed

theorem ros_image_try_from_witness:
  "ros1_image_try_from sample_ros1 = Some (Inr \<lparr> im_timestamp = Some (Timestamp 101 200), im_frame_id = ''f'',
     im_image = Raw \<lparr> ri_encoding = Mono16 Big, ri_width = 2, ri_height = 1, ri_stride = 4, ri_data = [0, 1, 2, 3] \<rparr> \<rparr>)
   \<and> uint (total_nanos (Timestamp 101 200)) = 101000000200
   \<and> ros1_image_try_from (sample_ros1 \<lparr> r1_header := \<lparr> h1_seq = 0, h1_sec = 4294967295, h1_nsec = 1000000000, h1_frame_id = [] \<rparr> \<rparr>) = None"
  (is "ros1_image_try_from _ = Some (Inr ?msg) \<and> ?nanos \<and> ?late")
proof (intro conjI)
  show good: "ros1_image_try_from sample_ros1 = Some (Inr ?msg)"
    by (simp add: ros1_image_try_from_def sample_ros1_def parse_endian_def endian_of_def timestamp_new_def timestamp_new_checked_eq)
  show ?nanos using ros_image_try_from [of sample_ros1 undefined ?msg] good by (simp add: sample_ros1_def)
  show ?late
    using ros_image_try_from [of "sample_ros1 \<lparr> r1_header := \<lparr> h1_seq = 0, h1_sec = 4294967295, h1_nsec = 1000000000, h1_frame_id = [] \<rparr> \<rparr>" undefined undefined]
    by (simp add: sample_ros1_def parse_endian_def endian_of_def)
qed

text \<open>The stride of a decompressed image is not checked.\<close>

lemma compressed_wide_panics:
  "load_rgb8 I (ci_compression c) (ci_data c) = Inr ((width, height), rgb) \<Longrightarrow> 2 ^ 32 \<le> unat width * 3 \<Longrightarrow>
    compressed_to_yuv420 I Y B c dst = None"
  by (simp add: compressed_to_yuv420_def u32_checked_mul_def)

lemma compressed_conversion_safe:
  assumes "yuv420_buffer B consistent" "consistent dst" "writes_in_place Y"
    "\<And>w h rgb. load_rgb8 I (ci_compression c) (ci_data c) = Inr ((w, h), rgb) \<Longrightarrow> unat w * 3 < 2 ^ 32"
  shows "\<exists>r dst'. compressed_to_yuv420 I Y B c dst = Some (r, dst') \<and> consistent dst'
    \<and> dimensions B dst' = dimensions B dst \<and> yuv_strides B dst' = yuv_strides B dst
    \<and> ((\<exists>e. r = Inl e \<and> (\<forall>m. e \<noteq> ConvertToYuv420 m)) \<longrightarrow> dst' = dst)"
proof (cases "load_rgb8 I (ci_compression c) (ci_data c)")
  case (Inl e)
  then show ?thesis using assms(2) by (simp add: compressed_to_yuv420_def)
next
  case (Inr x)
  then obtain w h rgb where rgb: "load_rgb8 I (ci_compression c) (ci_data c) = Inr ((w, h), rgb)" by (metis surj_pair)
  obtain p where p: "yuv B dst = Some p" using yuv420_buffer.has_planes [OF assms(1,2)] by blast
  obtain r where r: "buffer_validate_dimensions B dst w h = Some r" "\<forall>m. r \<noteq> Inl (ConvertToYuv420 m)"
    using validation_returns [OF p] by blast
  let ?conv = "from_rgb Y Rgb8 (dimensions B dst, yuv_strides B dst, p) rgb (w * 3)"
  have shape: "yuv420_buffer.same_shape B consistent dst (put_yuv B (snd ?conv) dst)"
    using assms(3) unfolding writes_in_place_def by (blast intro: yuv420_buffer.write_same_shape [OF assms(1,2) p])
  have "compressed_to_yuv420 I Y B c dst =
      (case r of Inl e \<Rightarrow> Some (Inl e, dst) | Inr _ \<Rightarrow> Some (map_sum ConvertToYuv420 id (fst ?conv), put_yuv B (snd ?conv) dst))"
    using assms(4) [OF rgb] by (simp add: compressed_to_yuv420_def rgb u32_checked_mul_def r(1) rgb_to_yuv420_def
        run_conv_planes [OF p] case_prod_beta)
  then show ?thesis using shape r(2) assms(2)
    by (cases r; cases "fst ?conv") (auto simp: yuv420_buffer.same_shape_def [OF assms(1)])
qed

text \<open>C30: Converting an image to YUV 4:2:0 does not panic on a consistent destination, for a raw image whatever its
  dimensions, strides and bytes, and for a compressed image that decodes to rows of less than \<open>2 ^ 32\<close> bytes. The
  destination keeps its dimensions, strides and consistency, and an error other than the one of the conversion crate
  leaves it untouched.\<close>

theorem image_conversion_safe:
  assumes "yuv420_buffer B consistent" "consistent dst" "writes_in_place Y"
    "\<And>i. img = Raw i \<Longrightarrow> length (ri_data i) < 2 ^ 61"
    "\<And>c w h rgb. img = Compressed c \<Longrightarrow> load_rgb8 I (ci_compression c) (ci_data c) = Inr ((w, h), rgb) \<Longrightarrow> unat w * 3 < 2 ^ 32"
  shows "\<exists>r dst'. image_to_yuv420 I Y FP B img dst = Some (r, dst') \<and> consistent dst'
    \<and> dimensions B dst' = dimensions B dst \<and> yuv_strides B dst' = yuv_strides B dst
    \<and> ((\<exists>e. r = Inl e \<and> (\<forall>m. e \<noteq> ConvertToYuv420 m)) \<longrightarrow> dst' = dst)"
proof (cases img)
  case (Compressed c)
  then show ?thesis using compressed_conversion_safe [OF assms(1-3) assms(5)] by simp
next
  case (Raw i)
  then show ?thesis using raw_conversion_safe [OF assms(1,2) assms(4) assms(3)] by simp
qed

definition sample_image_crate :: image_crate where
  "sample_image_crate = \<lparr> into_dimensions = (\<lambda>_ _. Inr (2, 2)), load_rgb8 = (\<lambda>_ data. Inr ((2, 4), data)) \<rparr>"

theorem image_conversion_safe_witness:
  "\<exists>r dst'. image_to_yuv420 sample_image_crate sample_crate sample_f32 yuv420_vec_ops
      (Compressed \<lparr> ci_compression = Png, ci_data = [1, 2, 3] \<rparr>) sample_vec = Some (r, dst')
    \<and> r = Inl (DimensionMismatch ''Yuv420Buffer'' (2, 4) (2, 2)) \<and> vec_ok dst' \<and> dst' = sample_vec"
proof -
  let ?img = "Compressed \<lparr> ci_compression = Png, ci_data = [1, 2, 3] \<rparr>"
  have "image_to_yuv420 sample_image_crate sample_crate sample_f32 yuv420_vec_ops ?img sample_vec =
      Some (Inl (DimensionMismatch ''Yuv420Buffer'' (2, 4) (2, 2)), sample_vec)"
    by (simp add: compressed_to_yuv420_def sample_image_crate_def u32_checked_mul_def buffer_validate_dimensions_def
        yuv420_vec_ops_def sample_vec_def)
  moreover have "\<exists>r dst'. image_to_yuv420 sample_image_crate sample_crate sample_f32 yuv420_vec_ops ?img sample_vec = Some (r, dst')
      \<and> vec_ok dst' \<and> dimensions yuv420_vec_ops dst' = dimensions yuv420_vec_ops sample_vec
      \<and> yuv_strides yuv420_vec_ops dst' = yuv_strides yuv420_vec_ops sample_vec
      \<and> ((\<exists>e. r = Inl e \<and> (\<forall>m. e \<noteq> ConvertToYuv420 m)) \<longrightarrow> dst' = sample_vec)"
    by (rule image_conversion_safe [OF yvec.yuv420_buffer_axioms sample_valid(1,5)]) (auto simp: sample_image_crate_def)
  ultimately show ?thesis by simp
qed

end
