(* ===== verification/Protobuf_Field.thy ===== *)
theory Protobuf_Field
  imports Wkt_Time
begin

unbundle bit_operations_syntax

text \<open>
  The protobuf encoding of \<open>#[derive(Encode)]\<close> (\<open>protobuf.rs\<close>, \<open>protobuf/wkt.rs\<close> and the code that
  \<open>foxglove_derive/src/lib.rs\<close> generates). The Rust types that implement \<open>ProtobufField\<close> are the
  datatype \<open>pb_type\<close>, their values \<open>pb_value\<close>; the static functions of the trait are functions of the
  type, its methods functions of the value. The \<open>prost\<close> crate is a parameter with the laws
  \<open>prost_laws\<close>. A buffer is the list of bytes written to it; only \<open>derived_encode\<close> speaks of the room
  that is left. The \<open>chrono\<close> types are not modelled.
\<close>

section \<open>Types and values\<close>

text \<open>The variants of an enum carry their discriminants.\<close>

datatype pb_type =
  T_u64 | T_u32 | T_u16 | T_u8 | T_i64 | T_i32 | T_i16 | T_i8 | T_bool | T_f32 | T_f64
| T_string | T_str | T_bytes | T_timestamp | T_duration
| T_vec pb_type
| T_array pb_type nat
| T_option pb_type
| T_enum string "(string \<times> int) list"
| T_struct string "(string \<times> pb_type) list"

text \<open>A floating-point number is its bit pattern.\<close>

datatype pb_value =
  V_u64 u64 | V_u32 u32 | V_u16 u16 | V_u8 u8
| V_i64 "64 word" | V_i32 "32 word" | V_i16 "16 word" | V_i8 "8 word"
| V_bool bool | V_f32 u32 | V_f64 u64
| V_string string | V_str string | V_bytes "u8 list"
| V_timestamp Timestamp | V_duration Duration
| V_vec pb_type "pb_value list"
| V_array pb_type "pb_value list"
| V_option pb_type "pb_value option"
| V_enum string "(string \<times> int) list" int
| V_struct string "(string \<times> pb_value) list"

fun type_of :: "pb_value \<Rightarrow> pb_type" where
  "type_of (V_u64 _) = T_u64"
| "type_of (V_u32 _) = T_u32"
| "type_of (V_u16 _) = T_u16"
| "type_of (V_u8 _) = T_u8"
| "type_of (V_i64 _) = T_i64"
| "type_of (V_i32 _) = T_i32"
| "type_of (V_i16 _) = T_i16"
| "type_of (V_i8 _) = T_i8"
| "type_of (V_bool _) = T_bool"
| "type_of (V_f32 _) = T_f32"
| "type_of (V_f64 _) = T_f64"
| "type_of (V_string _) = T_string"
| "type_of (V_str _) = T_str"
| "type_of (V_bytes _) = T_bytes"
| "type_of (V_timestamp _) = T_timestamp"
| "type_of (V_duration _) = T_duration"
| "type_of (V_vec t _) = T_vec t"
| "type_of (V_array t vs) = T_array t (length vs)"
| "type_of (V_option t _) = T_option t"
| "type_of (V_enum name variants _) = T_enum name variants"
| "type_of (V_struct name fields) = T_struct name (map (\<lambda>(x, v). (x, type_of v)) fields)"


section \<open>The crate prost\<close>

datatype well_known = Wkt_timestamp Timestamp | Wkt_duration Duration

record prost =
  encode_varint :: "u64 \<Rightarrow> u8 list"
  encoded_len_varint :: "u64 \<Rightarrow> nat"
  encode_length_delimiter :: "nat \<Rightarrow> u8 list"
  length_delimiter_len :: "nat \<Rightarrow> nat"
  message_raw :: "well_known \<Rightarrow> u8 list"
  message_len :: "well_known \<Rightarrow> nat"

text \<open>\<open>decode\<close> reads a varint back; a varint has one to ten bytes, a small one is its byte, and a length delimiter is
  the varint of the length.\<close>

definition prost_laws :: "prost \<Rightarrow> (u8 list \<Rightarrow> (u64 \<times> u8 list) option) \<Rightarrow> bool" where
  "prost_laws P decode \<longleftrightarrow>
     (\<forall>x rest. decode (encode_varint P x @ rest) = Some (x, rest))
   \<and> (\<forall>x. length (encode_varint P x) = encoded_len_varint P x)
   \<and> (\<forall>x. 1 \<le> encoded_len_varint P x \<and> encoded_len_varint P x \<le> 10)
   \<and> (\<forall>x. unat x < 128 \<longrightarrow> encode_varint P x = [ucast x])
   \<and> (\<forall>n. encode_length_delimiter P n = encode_varint P (word_of_nat n))
   \<and> (\<forall>n. length_delimiter_len P n = encoded_len_varint P (word_of_nat n))
   \<and> (\<forall>m. length (message_raw P m) = message_len P m)"

section \<open>The trait\<close>

datatype ProstFieldType =
  Uint64 | Uint32 | Sint64 | Sint32 | BoolType | Float | Double | StringType | BytesType | Message | EnumType

fun field_type :: "pb_type \<Rightarrow> ProstFieldType" where
  "field_type T_u64 = Uint64"
| "field_type T_u32 = Uint32"
| "field_type T_u16 = Uint32"
| "field_type T_u8 = Uint32"
| "field_type T_i64 = Sint64"
| "field_type T_i32 = Sint32"
| "field_type T_i16 = Sint32"
| "field_type T_i8 = Sint32"
| "field_type T_bool = BoolType"
| "field_type T_f32 = Float"
| "field_type T_f64 = Double"
| "field_type T_string = StringType"
| "field_type T_str = StringType"
| "field_type T_bytes = BytesType"
| "field_type T_timestamp = Message"
| "field_type T_duration = Message"
| "field_type (T_vec t) = field_type t"
| "field_type (T_array t _) = field_type t"
| "field_type (T_option t) = field_type t"
| "field_type (T_enum _ _) = EnumType"
| "field_type (T_struct _ _) = Message"

text \<open>The wire types of \<open>prost\<close>: \<open>Varint\<close>, \<open>SixtyFourBit\<close>, \<open>LengthDelimited\<close> and \<open>ThirtyTwoBit\<close>.\<close>

fun wire_type :: "pb_type \<Rightarrow> u32" where
  "wire_type T_u64 = 0"
| "wire_type T_u32 = 0"
| "wire_type T_u16 = 0"
| "wire_type T_u8 = 0"
| "wire_type T_i64 = 0"
| "wire_type T_i32 = 0"
| "wire_type T_i16 = 0"
| "wire_type T_i8 = 0"
| "wire_type T_bool = 0"
| "wire_type T_f32 = 5"
| "wire_type T_f64 = 1"
| "wire_type T_string = 2"
| "wire_type T_str = 2"
| "wire_type T_bytes = 2"
| "wire_type T_timestamp = 2"
| "wire_type T_duration = 2"
| "wire_type (T_vec _) = 2"
| "wire_type (T_array _ _) = 2"
| "wire_type (T_option t) = wire_type t"
| "wire_type (T_enum _ _) = 0"
| "wire_type (T_struct _ _) = 2"

fun repeating :: "pb_type \<Rightarrow> bool" where
  "repeating (T_vec _) \<longleftrightarrow> True"
| "repeating (T_array _ _) \<longleftrightarrow> True"
| "repeating (T_option t) \<longleftrightarrow> repeating t"
| "repeating _ \<longleftrightarrow> False"

fun optional :: "pb_type \<Rightarrow> bool" where
  "optional (T_option _) \<longleftrightarrow> True"
| "optional _ \<longleftrightarrow> False"

text \<open>The signed integers: \<open>((n << 1) ^ (n >> k)) as u64\<close> in a wider type, which holds the shifted value.\<close>

definition zigzag :: "nat \<Rightarrow> int \<Rightarrow> u64" where
  "zigzag k n = word_of_int (push_bit 1 n XOR drop_bit k n)"

text \<open>\<open>(field_number << 3) | wire_type\<close>.\<close>

definition field_tag :: "u32 \<Rightarrow> pb_type \<Rightarrow> u64" where
  "field_tag field_number t = ucast (push_bit 3 field_number OR wire_type t)"

text \<open>The length prefix and the content of a string, of bytes and of a well-known type.\<close>

definition write_delimited :: "prost \<Rightarrow> u8 list \<Rightarrow> u8 list" where
  "write_delimited P bs = encode_length_delimiter P (length bs) @ bs"

definition write_wkt :: "prost \<Rightarrow> well_known \<Rightarrow> u8 list" where
  "write_wkt P m = encode_varint P (word_of_nat (message_len P m)) @ message_raw P m"

text \<open>The methods \<open>write\<close> and \<open>write_tagged\<close>; the fields of a struct are numbered from one.\<close>

function (sequential)
  pb_write :: "prost \<Rightarrow> pb_value \<Rightarrow> u8 list may_panic" and
  write_tagged :: "prost \<Rightarrow> u32 \<Rightarrow> pb_value \<Rightarrow> u8 list may_panic" and
  write_each :: "prost \<Rightarrow> u32 \<Rightarrow> pb_value list \<Rightarrow> u8 list may_panic" and
  write_fields :: "prost \<Rightarrow> u32 \<Rightarrow> (string \<times> pb_value) list \<Rightarrow> u8 list may_panic" where
  "pb_write P (V_u64 x) = Some (encode_varint P x)"
| "pb_write P (V_u32 x) = Some (encode_varint P (ucast x))"
| "pb_write P (V_u16 x) = Some (encode_varint P (ucast x))"
| "pb_write P (V_u8 x) = Some (encode_varint P (ucast x))"
| "pb_write P (V_i64 x) = Some (encode_varint P (zigzag 63 (sint x)))"
| "pb_write P (V_i32 x) = Some (encode_varint P (zigzag 31 (sint x)))"
| "pb_write P (V_i16 x) = Some (encode_varint P (zigzag 15 (sint x)))"
| "pb_write P (V_i8 x) = Some (encode_varint P (zigzag 7 (sint x)))"
| "pb_write P (V_bool b) = Some [if b then 1 else 0]"
| "pb_write P (V_f32 x) = Some (u32_to_le_bytes x)"
| "pb_write P (V_f64 x) = Some (u64_to_le_bytes x)"
| "pb_write P (V_string s) = Some (write_delimited P (as_bytes s))"
| "pb_write P (V_str s) = Some (write_delimited P (as_bytes s))"
| "pb_write P (V_bytes bs) = Some (write_delimited P bs)"
| "pb_write P (V_timestamp t) = Some (write_wkt P (Wkt_timestamp t))"
| "pb_write P (V_duration d) = Some (write_wkt P (Wkt_duration d))"
| "pb_write P (V_vec _ _) = None"
| "pb_write P (V_array _ _) = None"
| "pb_write P (V_option _ _) = None"
| "pb_write P (V_enum _ _ d) = Some (encode_varint P (word_of_int d))"
| "pb_write P (V_struct _ fs) = do {
     buf \<leftarrow> write_fields P 1 fs;
     Some (encode_varint P (word_of_nat (length buf)) @ buf)
   }"
| "write_tagged P n (V_vec _ vs) = write_each P n vs"
| "write_tagged P n (V_array _ vs) = write_each P n vs"
| "write_tagged P n (V_option _ None) = Some []"
| "write_tagged P n (V_option _ (Some v)) = write_tagged P n v"
| "write_tagged P n v = do {
     content \<leftarrow> pb_write P v;
     Some (encode_varint P (field_tag n (type_of v)) @ content)
   }"
| "write_each P n [] = Some []"
| "write_each P n (v # vs) = do {
     a \<leftarrow> write_tagged P n v;
     b \<leftarrow> write_each P n vs;
     Some (a @ b)
   }"
| "write_fields P n [] = Some []"
| "write_fields P n ((_, v) # fs) = do {
     a \<leftarrow> write_tagged P n v;
     b \<leftarrow> write_fields P (n + 1) fs;
     Some (a @ b)
   }"
  by pat_completeness auto

termination
  by (relation "measure (\<lambda>x. case x of
      Inl (Inl (P, v)) \<Rightarrow> 2 * size v
    | Inl (Inr (P, n, v)) \<Rightarrow> 2 * size v + 1
    | Inr (Inl (P, n, vs)) \<Rightarrow> 2 * size_list size vs + 1
    | Inr (Inr (P, n, fs)) \<Rightarrow> 2 * size_list (size_prod (\<lambda>_. 0) size) fs + 1)") auto

text \<open>The methods \<open>encoded_len\<close> and \<open>encoded_len_tagged\<close>. A derived struct sums the tagged lengths of its
  fields.\<close>

definition wkt_len :: "prost \<Rightarrow> well_known \<Rightarrow> nat" where
  "wkt_len P m = encoded_len_varint P (word_of_nat (message_len P m)) + message_len P m"

function (sequential)
  encoded_len :: "prost \<Rightarrow> pb_value \<Rightarrow> nat" and
  encoded_len_tagged :: "prost \<Rightarrow> u32 \<Rightarrow> pb_value \<Rightarrow> nat" and
  each_len :: "prost \<Rightarrow> pb_value list \<Rightarrow> nat" and
  each_len_tagged :: "prost \<Rightarrow> u32 \<Rightarrow> pb_value list \<Rightarrow> nat" and
  fields_len :: "prost \<Rightarrow> u32 \<Rightarrow> (string \<times> pb_value) list \<Rightarrow> nat" where
  "encoded_len P (V_u64 x) = encoded_len_varint P x"
| "encoded_len P (V_u32 x) = encoded_len_varint P (ucast x)"
| "encoded_len P (V_u16 x) = encoded_len_varint P (ucast x)"
| "encoded_len P (V_u8 x) = encoded_len_varint P (ucast x)"
| "encoded_len P (V_i64 x) = encoded_len_varint P (zigzag 63 (sint x))"
| "encoded_len P (V_i32 x) = encoded_len_varint P (zigzag 31 (sint x))"
| "encoded_len P (V_i16 x) = encoded_len_varint P (zigzag 15 (sint x))"
| "encoded_len P (V_i8 x) = encoded_len_varint P (zigzag 7 (sint x))"
| "encoded_len P (V_bool _) = 1"
| "encoded_len P (V_f32 _) = 4"
| "encoded_len P (V_f64 _) = 8"
| "encoded_len P (V_string s) = length_delimiter_len P (length s) + length s"
| "encoded_len P (V_str s) = length_delimiter_len P (length s) + length s"
| "encoded_len P (V_bytes bs) = length_delimiter_len P (length bs) + length bs"
| "encoded_len P (V_timestamp t) = wkt_len P (Wkt_timestamp t)"
| "encoded_len P (V_duration d) = wkt_len P (Wkt_duration d)"
| "encoded_len P (V_vec _ vs) = each_len P vs"
| "encoded_len P (V_array _ vs) = each_len P vs"
| "encoded_len P (V_option _ None) = 0"
| "encoded_len P (V_option _ (Some v)) = encoded_len P v"
| "encoded_len P (V_enum _ _ d) = encoded_len_varint P (word_of_int d)"
| "encoded_len P (V_struct _ fs) = fields_len P 1 fs"
| "encoded_len_tagged P n (V_vec _ vs) = each_len_tagged P n vs"
| "encoded_len_tagged P n (V_array _ vs) = each_len_tagged P n vs"
| "encoded_len_tagged P n (V_option _ None) = 0"
| "encoded_len_tagged P n (V_option _ (Some v)) = encoded_len_tagged P n v"
| "encoded_len_tagged P n v = encoded_len_varint P (field_tag n (type_of v)) + encoded_len P v"
| "each_len P [] = 0"
| "each_len P (v # vs) = encoded_len P v + each_len P vs"
| "each_len_tagged P n [] = 0"
| "each_len_tagged P n (v # vs) = encoded_len_tagged P n v + each_len_tagged P n vs"
| "fields_len P n [] = 0"
| "fields_len P n ((_, v) # fs) = encoded_len_tagged P n v + fields_len P (n + 1) fs"
  by pat_completeness auto

termination
  by (relation "measure (\<lambda>x. case x of
      Inl (Inl (P, v)) \<Rightarrow> 2 * size v
    | Inl (Inr (P, n, v)) \<Rightarrow> 2 * size v + 1
    | Inr (Inl (P, vs)) \<Rightarrow> 2 * size_list size vs + 1
    | Inr (Inr (Inl (P, n, vs))) \<Rightarrow> 2 * size_list size vs + 1
    | Inr (Inr (Inr (P, n, fs))) \<Rightarrow> 2 * size_list (size_prod (\<lambda>_. 0) size) fs + 1)") auto

text \<open>\<open>Encode::encode\<close> of a derived struct, for a buffer with room for \<open>remaining\<close> bytes. The left side is
  \<open>EncodeError\<close>; writing past the room panics.\<close>

definition derived_encode :: "prost \<Rightarrow> (string \<times> pb_value) list \<Rightarrow> nat \<Rightarrow> (u8 list, string) result may_panic" where
  "derived_encode P fs remaining =
     (if fields_len P 1 fs > remaining then Some (Inl ''insufficient buffer'')
      else do {
        bytes \<leftarrow> write_fields P 1 fs;
        (if length bytes > remaining then None else Some (Inr bytes))
      })"

section \<open>The derive macro\<close>

fun is_vec :: "pb_type \<Rightarrow> bool" where
  "is_vec (T_vec _) \<longleftrightarrow> True" | "is_vec _ \<longleftrightarrow> False"

fun is_option :: "pb_type \<Rightarrow> bool" where
  "is_option (T_option _) \<longleftrightarrow> True" | "is_option _ \<longleftrightarrow> False"

fun is_array :: "pb_type \<Rightarrow> bool" where
  "is_array (T_array _ _) \<longleftrightarrow> True" | "is_array _ \<longleftrightarrow> False"

fun unwrap_vec :: "pb_type \<Rightarrow> pb_type option" where
  "unwrap_vec (T_vec t) = Some t" | "unwrap_vec _ = None"

fun unwrap_option :: "pb_type \<Rightarrow> pb_type option" where
  "unwrap_option (T_option t) = Some t" | "unwrap_option _ = None"

fun unwrap_array :: "pb_type \<Rightarrow> pb_type option" where
  "unwrap_array (T_array t _) = Some t" | "unwrap_array _ = None"

datatype derive_error =
  TooManyFields | VecOfOption | OptionOfVec | VecOfVec | ArrayOfOption | OptionOfArray | ArrayOfArray | ArrayOfVec | VecOfArray

definition is_some_and :: "'a option \<Rightarrow> ('a \<Rightarrow> bool) \<Rightarrow> bool" where
  "is_some_and x f \<longleftrightarrow> (case x of Some y \<Rightarrow> f y | None \<Rightarrow> False)"

definition check_field :: "nat \<Rightarrow> pb_type \<Rightarrow> derive_error option" where
  "check_field field_number t =
     (if field_number > 2047 then Some TooManyFields
      else if is_some_and (unwrap_vec t) is_option then Some VecOfOption
      else if is_some_and (unwrap_option t) is_vec then Some OptionOfVec
      else if is_some_and (unwrap_vec t) is_vec then Some VecOfVec
      else if is_some_and (unwrap_array t) is_option then Some ArrayOfOption
      else if is_some_and (unwrap_option t) is_array then Some OptionOfArray
      else if is_some_and (unwrap_array t) is_array then Some ArrayOfArray
      else if is_some_and (unwrap_array t) is_vec then Some ArrayOfVec
      else if is_some_and (unwrap_vec t) is_array then Some VecOfArray
      else None)"

fun derive_fields :: "nat \<Rightarrow> (string \<times> pb_type) list \<Rightarrow> derive_error option" where
  "derive_fields n [] = None"
| "derive_fields n ((_, t) # fs) =
     (case check_field n t of Some e \<Rightarrow> Some e | None \<Rightarrow> derive_fields (n + 1) fs)"

text \<open>The descriptors. The definitions of the enums and messages of the fields are collected in a map with the field
  type as key.\<close>

datatype label = Repeated | Optional | Required

record FieldDescriptor =
  fd_name :: string
  fd_number :: nat
  fd_label :: label
  fd_type :: ProstFieldType
  fd_type_name :: "string option"

type_synonym EnumDescriptor = "string \<times> (string \<times> nat) list"

datatype DescriptorProto =
  DescriptorProto (dp_name: string) (dp_field: "FieldDescriptor list") (dp_enum_type: "EnumDescriptor list")
    (dp_nested_type: "DescriptorProto list")

fun pb_type_name :: "pb_type \<Rightarrow> string option" where
  "pb_type_name T_timestamp = Some ''.google.protobuf.Timestamp''"
| "pb_type_name T_duration = Some ''.google.protobuf.Duration''"
| "pb_type_name (T_vec t) = pb_type_name t"
| "pb_type_name (T_array t _) = pb_type_name t"
| "pb_type_name (T_option t) = pb_type_name t"
| "pb_type_name (T_enum name _) = Some name"
| "pb_type_name (T_struct name _) = Some name"
| "pb_type_name _ = None"

fun enum_descriptor :: "pb_type \<Rightarrow> EnumDescriptor option" where
  "enum_descriptor (T_vec t) = enum_descriptor t"
| "enum_descriptor (T_array t _) = enum_descriptor t"
| "enum_descriptor (T_option t) = enum_descriptor t"
| "enum_descriptor (T_enum name variants) = Some (name, map (\<lambda>(i, variant, _). (variant, i)) (enumerate 0 variants))"
| "enum_descriptor _ = None"

definition field_descriptor :: "nat \<Rightarrow> string \<times> pb_type \<Rightarrow> FieldDescriptor" where
  "field_descriptor n f =
     (case f of (name, t) \<Rightarrow>
        \<lparr> fd_name = name, fd_number = n,
          fd_label = (if repeating t then Repeated else if optional t then Optional else Required),
          fd_type = field_type t, fd_type_name = pb_type_name t \<rparr>)"

definition field_descriptors :: "(string \<times> pb_type) list \<Rightarrow> FieldDescriptor list" where
  "field_descriptors fs = map (\<lambda>(i, f). field_descriptor (i + 1) f) (enumerate 0 fs)"

lemma field_type_smaller: "t \<in> snd ` set fs \<Longrightarrow> size t < size (T_struct name fs)"
proof -
  assume "t \<in> snd ` set fs"
  then obtain x where "(x, t) \<in> set fs" by auto
  then have "size t < size_list (size_prod (\<lambda>_. 0) size) fs + 1"
    using size_list_estimation' [of "(x, t)" fs "size t" "size_prod (\<lambda>_. 0) size"] by simp
  then show "size t < size (T_struct name fs)" by simp
qed

text \<open>A list is as large as its largest type.\<close>

definition types_size :: "pb_type list \<Rightarrow> nat" where
  "types_size ts = foldr (max \<circ> size) ts 0"

lemma types_size_simps [simp]: "types_size [] = 0" "types_size (t # ts) = max (size t) (types_size ts)"
  by (simp_all add: types_size_def)

lemma types_size_less: "(\<And>t. t \<in> set ts \<Longrightarrow> size t < n) \<Longrightarrow> 0 < n \<Longrightarrow> types_size ts < n"
  by (induction ts) simp_all

text \<open>The generated \<open>message_descriptor\<close> keeps its result in a static. A static in generic code is one for all
  instances of the code, so \<open>site\<close> gives the struct definition that a type is an instance of. \<open>Running\<close> is the state of a
  static while its initialiser runs; to initialise it again from there never returns, which is the value \<open>None\<close>.\<close>

datatype once_lock = Running | Ready "DescriptorProto option"

type_synonym descriptor_statics = "nat \<rightharpoonup> once_lock"

function (sequential)
  message_descriptor :: "(pb_type \<Rightarrow> nat) \<Rightarrow> pb_type \<Rightarrow> descriptor_statics \<Rightarrow> (DescriptorProto option \<times> descriptor_statics) may_panic" and
  nested_descriptors :: "(pb_type \<Rightarrow> nat) \<Rightarrow> pb_type list \<Rightarrow> descriptor_statics \<Rightarrow> (DescriptorProto list \<times> descriptor_statics) may_panic" where
  "message_descriptor site (T_vec t) st = message_descriptor site t st"
| "message_descriptor site (T_array t _) st = message_descriptor site t st"
| "message_descriptor site (T_option t) st = message_descriptor site t st"
| "message_descriptor site (T_struct name fs) st =
     (let k = site (T_struct name fs) in
      case st k of
        Some Running \<Rightarrow> None
      | Some (Ready d) \<Rightarrow> Some (d, st)
      | None \<Rightarrow>
          let types = hs_from_iter (map snd fs) in
          do {
            (nested, st1) \<leftarrow> nested_descriptors site types (st(k \<mapsto> Running));
            let d = Some (DescriptorProto name (field_descriptors fs) (List.map_filter enum_descriptor types) nested);
            Some (d, st1(k \<mapsto> Ready d))
          })"
| "message_descriptor site _ st = Some (None, st)"
| "nested_descriptors site [] st = Some ([], st)"
| "nested_descriptors site (t # ts) st = do {
     (d, st1) \<leftarrow> message_descriptor site t st;
     (ds, st2) \<leftarrow> nested_descriptors site ts st1;
     Some ((case d of Some d \<Rightarrow> [d] | None \<Rightarrow> []) @ ds, st2)
   }"
  by pat_completeness auto

termination
proof (relation "measures [\<lambda>x. case x of Inl (_, t, _) \<Rightarrow> size t | Inr (_, ts, _) \<Rightarrow> types_size ts,
    \<lambda>x. case x of Inl _ \<Rightarrow> 0 | Inr (_, ts, _) \<Rightarrow> Suc (length ts)]")
  fix site :: "pb_type \<Rightarrow> nat" and name and fs :: "(string \<times> pb_type) list" and st and types
  assume "types = hs_from_iter (map snd fs)"
  then have "types_size types < size (T_struct name fs)"
    using field_type_smaller [of _ fs name] by (intro types_size_less) (simp_all del: pb_type.size(42), simp)
  then show "(Inr (site, types, st'), Inl (site, T_struct name fs, st)) \<in>
      measures [\<lambda>x. case x of Inl (_, t, _) \<Rightarrow> size t | Inr (_, ts, _) \<Rightarrow> types_size ts,
        \<lambda>x. case x of Inl _ \<Rightarrow> 0 | Inr (_, ts, _) \<Rightarrow> Suc (length ts)]" for st' by simp
qed auto

text \<open>The files that a schema depends on, and the first of every name in the order of the fields.\<close>

datatype wkt_file = TIMESTAMP_FD | DURATION_FD

function (sequential) file_descriptors :: "pb_type \<Rightarrow> wkt_file list" where
  "file_descriptors T_timestamp = [TIMESTAMP_FD]"
| "file_descriptors T_duration = [DURATION_FD]"
| "file_descriptors (T_vec t) = file_descriptors t"
| "file_descriptors (T_array t _) = file_descriptors t"
| "file_descriptors (T_option t) = file_descriptors t"
| "file_descriptors (T_struct name fs) = concat (map file_descriptors (hs_from_iter (map snd fs)))"
| "file_descriptors _ = []"
  by pat_completeness auto

termination
proof (relation "measure size")
  show "(t, T_struct name fs) \<in> measure size" if "t \<in> set (hs_from_iter (map snd fs))" for name fs t
    using that field_type_smaller [of t fs name] by simp
qed simp_all

text \<open>The argument \<open>name_of\<close> is the name in the embedded descriptor.\<close>

fun collect_dependencies :: "(wkt_file \<Rightarrow> string option) \<Rightarrow> wkt_file list \<Rightarrow> string hash_set \<Rightarrow> (string \<times> wkt_file) list" where
  "collect_dependencies name_of [] seen = []"
| "collect_dependencies name_of (fd # fds) seen =
     (case name_of fd of
        None \<Rightarrow> collect_dependencies name_of fds seen
      | Some name \<Rightarrow>
          (if name \<in> set seen then collect_dependencies name_of fds seen
           else (name, fd) # collect_dependencies name_of fds (hs_insert name seen)))"

section \<open>Integers and tags\<close>

lemma zigzag_value:
  assumes "- (2 ^ k) \<le> n" "n < 2 ^ k" "k \<le> 63"
  shows "uint (zigzag k n) = (if 0 \<le> n then 2 * n else - 2 * n - 1)"
proof -
  have "(2 :: int) ^ k \<le> 2 ^ 63" using assms(3) by (intro power_increasing) simp_all
  then have range: "- (2 ^ 63) \<le> n" "n < 2 ^ 63" using assms(1,2) by linarith+
  have "n div 2 ^ k = - 1" if "n < 0"
    using div_add_self1 [of "2 ^ k" n] div_pos_pos_trivial [of "n + 2 ^ k" "2 ^ k"] assms(1) that by (simp add: add.commute)
  then have shift: "drop_bit k n = (if 0 \<le> n then 0 else - 1)"
    using assms(2) by (simp add: drop_bit_eq_div)
  have "push_bit 1 n XOR drop_bit k n = (if 0 \<le> n then 2 * n else - 2 * n - 1)"
    unfolding shift by (simp add: push_bit_eq_mult not_eq_complement)
  then show ?thesis using range by (simp add: zigzag_def uint_word_of_int)
qed

lemma wire_type_small: "unat (wire_type t) < 8"
  by (induction t) simp_all

lemma field_tag_value:
  assumes "unat n < 2 ^ 29"
  shows "unat (field_tag n t) = 8 * unat n + unat (wire_type t)"
proof -
  have zero: "push_bit 3 (unat n) AND unat (wire_type t) = 0"
  proof (rule bit_eqI)
    fix i
    have "\<not> bit (unat (wire_type t)) i" if "3 \<le> i"
    proof -
      have "(2 :: nat) ^ 3 \<le> 2 ^ i" using that by (intro power_increasing) simp_all
      then have "unat (wire_type t) < 2 ^ i" using wire_type_small [of t] by simp
      then show ?thesis by (simp add: bit_iff_odd)
    qed
    then show "bit (push_bit 3 (unat n) AND unat (wire_type t)) i = bit (0 :: nat) i"
      by (auto simp: bit_and_iff bit_push_bit_iff)
  qed
  have "unat (push_bit 3 n) = take_bit 32 (push_bit 3 (unat n))" by (simp only: unsigned_push_bit_eq) simp
  also have "\<dots> = 8 * unat n" using assms by (simp add: push_bit_eq_mult take_bit_eq_mod)
  finally have "unat (push_bit 3 n OR wire_type t) = 8 * unat n OR unat (wire_type t)" by (simp only: unsigned_or_eq)
  also have "\<dots> = 8 * unat n + unat (wire_type t)"
    using disjunctive_add_eq_or [OF zero] by (simp add: push_bit_eq_mult mult.commute)
  finally show ?thesis using assms wire_type_small [of t] by (simp add: field_tag_def unsigned_ucast_eq take_bit_eq_mod)
qed

section \<open>The wire format\<close>

text \<open>The records of a message as the protobuf specification has them: a tag and a payload of one of four wire
  types.\<close>

datatype payload = Varint u64 | Fixed64 u64 | Len "u8 list" | Fixed32 u32

fun payload_wire :: "payload \<Rightarrow> nat" where
  "payload_wire (Varint _) = 0"
| "payload_wire (Fixed64 _) = 1"
| "payload_wire (Len _) = 2"
| "payload_wire (Fixed32 _) = 5"

definition parse_payload :: "(u8 list \<Rightarrow> (u64 \<times> u8 list) option) \<Rightarrow> nat \<Rightarrow> u8 list \<Rightarrow> (payload \<times> u8 list) option" where
  "parse_payload decode w buf =
     (if w = 0 then do { (x, r) \<leftarrow> decode buf; Some (Varint x, r) }
      else if w = 1 then (if length buf < 8 then None else Some (Fixed64 (u64_from_le_bytes (take 8 buf)), drop 8 buf))
      else if w = 2 then do {
        (x, r) \<leftarrow> decode buf;
        (if length r < unat x then None else Some (Len (take (unat x) r), drop (unat x) r))
      }
      else if w = 5 then (if length buf < 4 then None else Some (Fixed32 (u32_from_le_bytes (take 4 buf)), drop 4 buf))
      else None)"

partial_function (option) parse_records :: "(u8 list \<Rightarrow> (u64 \<times> u8 list) option) \<Rightarrow> u8 list \<Rightarrow> (nat \<times> payload) list option" where
  "parse_records decode buf =
     (if buf = [] then Some []
      else do {
        (tag, r) \<leftarrow> decode buf;
        (p, r') \<leftarrow> parse_payload decode (unat tag mod 8) r;
        records \<leftarrow> parse_records decode r';
        Some ((unat tag div 8, p) # records)
      })"

text \<open>The records of a value, and their bytes.\<close>

fun payload_of :: "prost \<Rightarrow> pb_value \<Rightarrow> payload" where
  "payload_of P (V_u64 x) = Varint x"
| "payload_of P (V_u32 x) = Varint (ucast x)"
| "payload_of P (V_u16 x) = Varint (ucast x)"
| "payload_of P (V_u8 x) = Varint (ucast x)"
| "payload_of P (V_i64 x) = Varint (zigzag 63 (sint x))"
| "payload_of P (V_i32 x) = Varint (zigzag 31 (sint x))"
| "payload_of P (V_i16 x) = Varint (zigzag 15 (sint x))"
| "payload_of P (V_i8 x) = Varint (zigzag 7 (sint x))"
| "payload_of P (V_bool b) = Varint (of_bool b)"
| "payload_of P (V_f32 x) = Fixed32 x"
| "payload_of P (V_f64 x) = Fixed64 x"
| "payload_of P (V_string s) = Len (as_bytes s)"
| "payload_of P (V_str s) = Len (as_bytes s)"
| "payload_of P (V_bytes bs) = Len bs"
| "payload_of P (V_timestamp t) = Len (message_raw P (Wkt_timestamp t))"
| "payload_of P (V_duration d) = Len (message_raw P (Wkt_duration d))"
| "payload_of P (V_enum _ _ d) = Varint (word_of_int d)"
| "payload_of P (V_struct _ fs) = Len (the (write_fields P 1 fs))"
| "payload_of P _ = Len []"

fun records :: "prost \<Rightarrow> nat \<Rightarrow> pb_value \<Rightarrow> (nat \<times> payload) list" where
  "records P n (V_vec _ vs) = concat (map (records P n) vs)"
| "records P n (V_array _ vs) = concat (map (records P n) vs)"
| "records P n (V_option _ x) = (case x of None \<Rightarrow> [] | Some v \<Rightarrow> records P n v)"
| "records P n v = [(n, payload_of P v)]"

fun field_records :: "prost \<Rightarrow> nat \<Rightarrow> (string \<times> pb_value) list \<Rightarrow> (nat \<times> payload) list" where
  "field_records P n [] = []"
| "field_records P n ((_, v) # fs) = records P n v @ field_records P (n + 1) fs"

fun payload_bytes :: "prost \<Rightarrow> payload \<Rightarrow> u8 list" where
  "payload_bytes P (Varint x) = encode_varint P x"
| "payload_bytes P (Fixed64 x) = u64_to_le_bytes x"
| "payload_bytes P (Len bs) = encode_varint P (word_of_nat (length bs)) @ bs"
| "payload_bytes P (Fixed32 x) = u32_to_le_bytes x"

definition record_bytes :: "prost \<Rightarrow> nat \<times> payload \<Rightarrow> u8 list" where
  "record_bytes P r = (case r of (n, p) \<Rightarrow> encode_varint P (word_of_nat (8 * n + payload_wire p)) @ payload_bytes P p)"

abbreviation message_bytes :: "prost \<Rightarrow> (nat \<times> payload) list \<Rightarrow> u8 list" where
  "message_bytes P rs \<equiv> concat (map (record_bytes P) rs)"

text \<open>The values that \<open>write_tagged\<close> writes with the default implementation.\<close>

fun plain :: "pb_value \<Rightarrow> bool" where
  "plain (V_vec _ _) \<longleftrightarrow> False"
| "plain (V_array _ _) \<longleftrightarrow> False"
| "plain (V_option _ _) \<longleftrightarrow> False"
| "plain _ \<longleftrightarrow> True"

lemma write_tagged_plain:
  "plain v \<Longrightarrow> write_tagged P n v = do { content \<leftarrow> pb_write P v; Some (encode_varint P (field_tag n (type_of v)) @ content) }"
  by (cases v) simp_all

lemma encoded_len_tagged_plain:
  "plain v \<Longrightarrow> encoded_len_tagged P n v = encoded_len_varint P (field_tag n (type_of v)) + encoded_len P v"
  by (cases v) simp_all

lemma records_plain: "plain v \<Longrightarrow> records P n v = [(n, payload_of P v)]"
  by (cases v) simp_all

lemma payload_wire_plain: "plain v \<Longrightarrow> payload_wire (payload_of P v) = unat (wire_type (type_of v))"
  by (cases v) simp_all

text \<open>The macro accepted every struct of a value.\<close>

fun accepted :: "pb_value \<Rightarrow> bool" where
  "accepted (V_vec _ vs) \<longleftrightarrow> (\<forall>v \<in> set vs. accepted v)"
| "accepted (V_array _ vs) \<longleftrightarrow> (\<forall>v \<in> set vs. accepted v)"
| "accepted (V_option _ x) \<longleftrightarrow> (\<forall>v \<in> set_option x. accepted v)"
| "accepted (V_struct _ fs) \<longleftrightarrow>
     derive_fields 1 (map (\<lambda>(x, v). (x, type_of v)) fs) = None \<and> (\<forall>v \<in> snd ` set fs. accepted v)"
| "accepted _ \<longleftrightarrow> True"

lemma derive_fields_bound: "derive_fields n fs = None \<Longrightarrow> n \<le> 2048 \<Longrightarrow> n + length fs \<le> 2048"
  by (induction n fs rule: derive_fields.induct) (auto simp: check_field_def split: option.splits if_splits)

lemma accepted_bound: "accepted (V_struct name fs) \<Longrightarrow> length fs \<le> 2047"
  using derive_fields_bound [of 1 "map (\<lambda>(x, v). (x, type_of v)) fs"] by simp

lemma pb_write_payload:
  assumes "prost_laws P decode" "plain v" "\<And>name fs. v = V_struct name fs \<Longrightarrow> write_fields P 1 fs \<noteq> None"
  shows "pb_write P v = Some (payload_bytes P (payload_of P v))"
proof (cases v)
  case (V_struct name fs)
  then show ?thesis using assms(3) by auto
qed (use assms(1,2) in \<open>auto simp: prost_laws_def write_delimited_def write_wkt_def\<close>)

lemma write_tagged_record:
  assumes "prost_laws P decode" "plain v" "\<And>name fs. v = V_struct name fs \<Longrightarrow> write_fields P 1 fs \<noteq> None" "unat n < 2 ^ 29"
  shows "write_tagged P n v = Some (message_bytes P (records P (unat n) v))"
proof -
  have "field_tag n (type_of v) = word_of_nat (unat (field_tag n (type_of v)))" by simp
  also have "\<dots> = word_of_nat (8 * unat n + payload_wire (payload_of P v))"
    unfolding field_tag_value [OF assms(4)] payload_wire_plain [OF assms(2)] ..
  finally show ?thesis
    using write_tagged_plain [OF assms(2), of P n] pb_write_payload [OF assms(1-3)] records_plain [OF assms(2)]
    by (simp add: record_bytes_def)
qed

lemma write_each_records:
  assumes "\<And>v. v \<in> set vs \<Longrightarrow> write_tagged P n v = Some (message_bytes P (records P (unat n) v))"
  shows "write_each P n vs = Some (message_bytes P (concat (map (records P (unat n)) vs)))"
  using assms by (induction vs) simp_all

lemma write_fields_records:
  assumes "\<And>v m. v \<in> snd ` set fs \<Longrightarrow> unat m < 2 ^ 29 \<Longrightarrow> write_tagged P m v = Some (message_bytes P (records P (unat m) v))"
    "n + length fs \<le> 2 ^ 29"
  shows "write_fields P (word_of_nat n) fs = Some (message_bytes P (field_records P n fs))"
  using assms
proof (induction fs arbitrary: n)
  case (Cons f fs)
  obtain x v where f: "f = (x, v)" by (cases f)
  have n: "unat (word_of_nat n :: u32) = n" using Cons.prems(2) by (simp add: unat_of_nat)
  have "write_tagged P (word_of_nat n) v = Some (message_bytes P (records P n v))"
    using Cons.prems(1) [of v "word_of_nat n"] Cons.prems(2) f n by simp
  moreover have "write_fields P (word_of_nat (n + 1)) fs = Some (message_bytes P (field_records P (n + 1) fs))"
    using Cons.prems by (intro Cons.IH) simp_all
  ultimately show ?case by (simp add: f add.commute)
qed simp

lemma write_tagged_records:
  assumes "prost_laws P decode"
  shows "accepted v \<Longrightarrow> unat n < 2 ^ 29 \<Longrightarrow> write_tagged P n v = Some (message_bytes P (records P (unat n) v))"
proof (induction v arbitrary: n)
  case (V_vec t vs)
  then show ?case by (simp add: write_each_records)
next
  case (V_array t vs)
  then show ?case by (simp add: write_each_records)
next
  case (V_option t x)
  then show ?case by (cases x) auto
next
  case (V_struct name fs)
  have "write_fields P (word_of_nat 1) fs = Some (message_bytes P (field_records P 1 fs))"
  proof (rule write_fields_records)
    show "1 + length fs \<le> 2 ^ 29" using accepted_bound [OF V_struct.prems(1)] by simp
    show "write_tagged P m v = Some (message_bytes P (records P (unat m) v))" if "v \<in> snd ` set fs" "unat m < 2 ^ 29" for v m
      using that V_struct.IH V_struct.prems(1) by (fastforce simp: snds.simps)
  qed
  then show ?case using V_struct.prems(2) by (intro write_tagged_record [OF assms]) simp_all
qed (rule write_tagged_record [OF assms]; simp)+

section \<open>Reading a message back\<close>

definition record_ok :: "nat \<times> payload \<Rightarrow> bool" where
  "record_ok r \<longleftrightarrow> fst r < 2 ^ 29 \<and> (\<forall>bs. snd r = Len bs \<longrightarrow> length bs < 2 ^ 64)"

lemma parse_payload_bytes:
  assumes "prost_laws P decode" "record_ok (n, p)"
  shows "parse_payload decode (payload_wire p) (payload_bytes P p @ rest) = Some (p, rest)"
proof (cases p)
  case (Len bs)
  then have "unat (word_of_nat (length bs) :: u64) = length bs" using assms(2) by (simp add: record_ok_def unat_of_nat)
  then show ?thesis using assms(1) Len by (simp add: parse_payload_def prost_laws_def)
qed (use assms(1) in \<open>simp_all add: parse_payload_def prost_laws_def le_simps\<close>)

lemma parse_records_Cons:
  assumes "prost_laws P decode" "record_ok r"
  shows "parse_records decode (record_bytes P r @ rest) = map_option (Cons r) (parse_records decode rest)"
proof -
  obtain n p where r: "r = (n, p)" by (cases r)
  have w: "payload_wire p < 8" by (cases p) simp_all
  then have "8 * n + payload_wire p < 2 ^ 64" using assms(2) r by (simp add: record_ok_def)
  note small = this
  define x :: u64 where "x = word_of_nat (8 * n + payload_wire p)"
  have tag: "unat x = 8 * n + payload_wire p" unfolding x_def unat_of_nat using small by simp
  have parts: "(8 * n + payload_wire p) mod 8 = payload_wire p" "(8 * n + payload_wire p) div 8 = n" using w by simp_all
  have bytes: "record_bytes P r = encode_varint P x @ payload_bytes P p" unfolding record_bytes_def r x_def by simp
  then have "decode (record_bytes P r @ rest) = Some (x, payload_bytes P p @ rest)"
    using assms(1) by (simp add: prost_laws_def)
  moreover have "record_bytes P r \<noteq> []"
  proof
    assume "record_bytes P r = []"
    then have "length (encode_varint P x) = 0" using bytes by simp
    then show False using assms(1) by (metis prost_laws_def not_one_le_zero)
  qed
  ultimately show ?thesis
    using parse_payload_bytes [OF assms [unfolded r], of rest]
    by (subst parse_records.simps) (simp add: r tag parts w map_option_case split: option.split)
qed

lemma parse_message_bytes:
  assumes "prost_laws P decode" "\<forall>r \<in> set rs. record_ok r"
  shows "parse_records decode (message_bytes P rs) = Some rs"
  using assms(2)
proof (induction rs)
  case Nil
  show ?case by (subst parse_records.simps) simp
next
  case (Cons r rs)
  then show ?case by (simp add: parse_records_Cons [OF assms(1)])
qed

text \<open>The numbers of the records of a value, and the lengths within a message.\<close>

lemma records_number: "(m, p) \<in> set (records P n v) \<Longrightarrow> m = n"
  by (induction v) (auto split: option.splits)

lemma field_records_number: "(m, p) \<in> set (field_records P n fs) \<Longrightarrow> n \<le> m \<and> m < n + length fs"
  by (induction P n fs rule: field_records.induct) (auto dest: records_number)

lemma record_length: "(n, Len bs) \<in> set rs \<Longrightarrow> length bs \<le> length (message_bytes P rs)"
  by (induction rs) (auto simp: record_bytes_def)

section \<open>Lengths\<close>

text \<open>The length prefixes of the nested structs, which \<open>encoded_len\<close> does not count.\<close>

fun unaccounted :: "prost \<Rightarrow> pb_value \<Rightarrow> nat" where
  "unaccounted P (V_vec _ vs) = sum_list (map (unaccounted P) vs)"
| "unaccounted P (V_array _ vs) = sum_list (map (unaccounted P) vs)"
| "unaccounted P (V_option _ x) = (case x of None \<Rightarrow> 0 | Some v \<Rightarrow> unaccounted P v)"
| "unaccounted P (V_struct _ fs) =
     encoded_len_varint P (word_of_nat (length (the (write_fields P 1 fs)))) + sum_list (map (\<lambda>(x, v). unaccounted P v) fs)"
| "unaccounted P _ = 0"

lemma write_each_length:
  assumes "\<And>v bs. v \<in> set vs \<Longrightarrow> write_tagged P n v = Some bs \<Longrightarrow> length bs = encoded_len_tagged P n v + unaccounted P v"
  shows "write_each P n vs = Some bs \<Longrightarrow> length bs = each_len_tagged P n vs + sum_list (map (unaccounted P) vs)"
  using assms
proof (induction vs arbitrary: bs)
  case (Cons v vs)
  then obtain a b where "write_tagged P n v = Some a" "write_each P n vs = Some b" "bs = a @ b"
    by (auto simp: bind_eq_Some_conv)
  then show ?case using Cons by fastforce
qed simp

lemma write_fields_length:
  assumes "\<And>v n bs. v \<in> snd ` set fs \<Longrightarrow> write_tagged P n v = Some bs \<Longrightarrow> length bs = encoded_len_tagged P n v + unaccounted P v"
  shows "write_fields P n fs = Some bs \<Longrightarrow> length bs = fields_len P n fs + sum_list (map (\<lambda>(x, v). unaccounted P v) fs)"
  using assms
proof (induction fs arbitrary: n bs)
  case (Cons f fs)
  obtain x v where f: "f = (x, v)" by (cases f)
  then obtain a b where ab: "write_tagged P n v = Some a" "write_fields P (n + 1) fs = Some b" "bs = a @ b"
    using Cons.prems(1) by (auto simp: bind_eq_Some_conv)
  have "length b = fields_len P (n + 1) fs + sum_list (map (\<lambda>(x, v). unaccounted P v) fs)"
    using Cons.prems(2) by (intro Cons.IH ab(2)) simp_all
  then show ?case using ab Cons.prems(2) [of v n a] by (simp add: f)
qed simp

lemma write_tagged_length:
  assumes laws: "prost_laws P decode"
  shows "write_tagged P n v = Some bs \<Longrightarrow> length bs = encoded_len_tagged P n v + unaccounted P v"
proof (induction v arbitrary: n bs)
  case (V_vec t vs)
  then show ?case using write_each_length [of vs P n bs] by simp
next
  case (V_array t vs)
  then show ?case using write_each_length [of vs P n bs] by simp
next
  case (V_option t x)
  then show ?case by (cases x) auto
next
  case (V_struct name fs)
  then obtain buf where buf: "write_fields P 1 fs = Some buf"
    "bs = encode_varint P (field_tag n (type_of (V_struct name fs))) @ encode_varint P (word_of_nat (length buf)) @ buf"
    by (auto simp: bind_eq_Some_conv)
  have "length buf = fields_len P 1 fs + sum_list (map (\<lambda>(x, v). unaccounted P v) fs)"
    using V_struct.IH by (intro write_fields_length buf(1)) (fastforce simp: snds.simps)
  then show ?case using buf laws by (simp add: prost_laws_def)
qed (use laws in \<open>auto simp: prost_laws_def write_delimited_def write_wkt_def wkt_len_def str_simps\<close>)

section \<open>Records and descriptors\<close>







lemma length_field_descriptors [simp]: "length (field_descriptors fs) = length fs"
  by (simp add: field_descriptors_def)

section \<open>The statics of the descriptors\<close>


text \<open>A filled static holds the descriptor of some instance of its struct definition.\<close>

definition filled_by :: "(pb_type \<Rightarrow> nat) \<Rightarrow> nat \<Rightarrow> DescriptorProto option \<Rightarrow> bool" where
  "filled_by site k d \<longleftrightarrow> (\<exists>name fs p. site (T_struct name fs) = k \<and> d = Some p \<and> dp_name p = name \<and> dp_field p = field_descriptors fs)"

definition statics_ok :: "(pb_type \<Rightarrow> nat) \<Rightarrow> descriptor_statics \<Rightarrow> bool" where
  "statics_ok site st \<longleftrightarrow> (\<forall>k d. st k = Some (Ready d) \<longrightarrow> filled_by site k d)"

text \<open>A call changes no static that is filled or running, and leaves none running that was not.\<close>

definition statics_grow :: "descriptor_statics \<Rightarrow> descriptor_statics \<Rightarrow> bool" where
  "statics_grow st st' \<longleftrightarrow> (\<forall>k. st k \<noteq> None \<longrightarrow> st' k = st k) \<and> (\<forall>k. st' k = Some Running \<longrightarrow> st k = Some Running)"

lemma statics_grow_refl: "statics_grow st st"
  by (simp add: statics_grow_def)

lemma statics_grow_trans: "statics_grow st st1 \<Longrightarrow> statics_grow st1 st2 \<Longrightarrow> statics_grow st st2"
  unfolding statics_grow_def by metis

lemma statics_grow_init:
  "st k = None \<Longrightarrow> statics_grow (st(k \<mapsto> Running)) st1 \<Longrightarrow> statics_grow st (st1(k \<mapsto> Ready d))"
  unfolding statics_grow_def by (auto split: if_splits)

lemma statics_ok_init:
  "statics_ok site st1 \<Longrightarrow> filled_by site k d \<Longrightarrow> statics_ok site (st1(k \<mapsto> Ready d))"
  "statics_ok site st \<Longrightarrow> statics_ok site (st(k \<mapsto> Running))"
  by (simp_all add: statics_ok_def)

lemma descriptor_statics:
  "message_descriptor site t st = Some (d, st') \<Longrightarrow> statics_ok site st \<Longrightarrow> statics_ok site st' \<and> statics_grow st st'"
  "nested_descriptors site ts st = Some (ds, st') \<Longrightarrow> statics_ok site st \<Longrightarrow> statics_ok site st' \<and> statics_grow st st'"
proof (induction site t st and site ts st arbitrary: d st' and ds st' rule: message_descriptor_nested_descriptors.induct)
  case (4 site name fs st)
  let ?k = "site (T_struct name fs)"
  show ?case
  proof (cases "st ?k")
    case None
    then obtain nested st1 where n: "nested_descriptors site (hs_from_iter (map snd fs)) (st(?k \<mapsto> Running)) = Some (nested, st1)"
      and d: "d = Some (DescriptorProto name (field_descriptors fs) (List.map_filter enum_descriptor (hs_from_iter (map snd fs))) nested)"
        "st' = st1(?k \<mapsto> Ready d)"
      using 4(2) by (auto simp: Let_def bind_eq_Some_conv)
    have "statics_ok site st1 \<and> statics_grow (st(?k \<mapsto> Running)) st1"
      using 4(1) [OF refl None refl n] statics_ok_init(2) [OF 4(3)] by blast
    moreover have "filled_by site ?k d" by (auto simp: filled_by_def d(1))
    ultimately show ?thesis unfolding d(2) using None statics_ok_init(1) statics_grow_init by blast
  next
    case (Some s)
    then show ?thesis using 4(2,3) by (cases s) (simp_all add: statics_grow_refl)
  qed
qed (fastforce simp: statics_grow_refl bind_eq_Some_conv intro: statics_grow_trans)+



section \<open>Properties\<close>

text \<open>A simple implementation of varints, for the examples.\<close>

fun leb :: "nat \<Rightarrow> nat \<Rightarrow> u8 list" where
  "leb 0 n = []"
| "leb (Suc k) n = (if n < 128 then [word_of_nat n] else word_of_nat (n mod 128 + 128) # leb k (n div 128))"

fun unleb :: "nat \<Rightarrow> u8 list \<Rightarrow> (nat \<times> u8 list) option" where
  "unleb 0 bs = None"
| "unleb (Suc k) [] = None"
| "unleb (Suc k) (b # bs) =
     (if unat b < 128 then Some (unat b, bs)
      else map_option (\<lambda>(n, r). (unat b - 128 + 128 * n, r)) (unleb k bs))"

definition sample_prost :: prost where
  "sample_prost = \<lparr> encode_varint = (\<lambda>x. leb 10 (unat x)), encoded_len_varint = (\<lambda>x. length (leb 10 (unat x))),
     encode_length_delimiter = (\<lambda>n. leb 10 (unat (word_of_nat n :: u64))),
     length_delimiter_len = (\<lambda>n. length (leb 10 (unat (word_of_nat n :: u64)))),
     message_raw = (\<lambda>_. []), message_len = (\<lambda>_. 0) \<rparr>"

definition sample_decode :: "u8 list \<Rightarrow> (u64 \<times> u8 list) option" where
  "sample_decode bs = map_option (\<lambda>(n, r). (word_of_nat n, r)) (unleb 10 bs)"

lemma unleb_leb: "0 < k \<Longrightarrow> n < 128 ^ k \<Longrightarrow> unleb k (leb k n @ rest) = Some (n, rest)"
proof (induction k arbitrary: n)
  case (Suc k)
  show ?case
  proof (cases "n < 128")
    case True
    then show ?thesis by (simp add: unat_of_nat)
  next
    case False
    have "n div 128 < 128 ^ k" using Suc.prems by (simp add: less_mult_imp_div_less mult.commute)
    moreover have "0 < k" using False Suc.prems(2) by (cases k) simp_all
    moreover have byte: "unat (word_of_nat (n mod 128 + 128) :: u8) = n mod 128 + 128"
      unfolding unat_of_nat by simp
    ultimately show ?thesis using False Suc.IH [of "n div 128"] by (simp del: of_nat_add add: byte)
  qed
qed simp

lemma length_leb: "length (leb k n) \<le> k" "0 < k \<Longrightarrow> 1 \<le> length (leb k n)"
  by (induction k n rule: leb.induct) auto

lemma sample_prost_laws: "prost_laws sample_prost sample_decode"
proof -
  have "unat (x :: u64) < 128 ^ 10" for x using unsigned_less [of x, where ?'a = nat] by simp
  moreover have "leb 10 (unat x) = [ucast x]" if "unat x < 128" for x :: u64
    using that leb.simps(2) [of 9 "unat x"] by simp
  ultimately show ?thesis
    using length_leb [of 10] by (simp add: prost_laws_def sample_prost_def sample_decode_def unleb_leb)
qed

text \<open>C32: Encoding a derived struct that the macro accepts never panics in the writers, and the bytes are a protobuf message:
  read back by the rules of the wire format they are the records of the fields, in their order, one for a
  value, one for each element of a repeated field and none for an absent optional one, numbered from one. A
  nested struct is a length-delimited record, whose content is again such a message.\<close>

theorem protobuf_wire_format:
  assumes "prost_laws P decode" "accepted (V_struct name fs)" "length (the (write_fields P 1 fs)) < 2 ^ 64"
  shows "\<exists>bytes. write_fields P 1 fs = Some bytes \<and> parse_records decode bytes = Some (field_records P 1 fs)"
proof -
  have "write_fields P (word_of_nat 1) fs = Some (message_bytes P (field_records P 1 fs))"
  proof (rule write_fields_records)
    show "1 + length fs \<le> 2 ^ 29" using accepted_bound [OF assms(2)] by simp
    show "write_tagged P m v = Some (message_bytes P (records P (unat m) v))" if "v \<in> snd ` set fs" "unat m < 2 ^ 29" for v m
      using write_tagged_records [OF assms(1)] assms(2) that by auto
  qed
  then have bytes: "write_fields P 1 fs = Some (message_bytes P (field_records P 1 fs))" by simp
  have "record_ok (m, p)" if r: "(m, p) \<in> set (field_records P 1 fs)" for m p
    using field_records_number [OF r] accepted_bound [OF assms(2)] record_length [of m _ "field_records P 1 fs" P] r assms(3) bytes
    by (fastforce simp: record_ok_def)
  then have "\<forall>r \<in> set (field_records P 1 fs). record_ok r" by auto
  from parse_message_bytes [OF assms(1) this] show ?thesis using bytes by blast
qed

definition sample_fields :: "(string \<times> pb_value) list" where
  "sample_fields = [(''flag'', V_bool True), (''gaps'', V_option T_u8 None), (''xs'', V_vec T_i8 [V_i8 (- 1), V_i8 1]),
     (''inner'', V_struct ''Inner'' [(''s'', V_string ''hi'')])]"

lemma sample_bytes: "write_fields sample_prost 1 sample_fields = Some [8, 1, 24, 1, 24, 2, 34, 4, 10, 2, 104, 105]"
  by (simp add: sample_fields_def sample_prost_def field_tag_def zigzag_def write_delimited_def as_bytes_def byte_of_char_def
      leb.simps(2) [of 9, simplified] leb.simps(2) [of 8, simplified])

theorem protobuf_wire_format_witness:
  "\<exists>bytes. write_fields sample_prost 1 sample_fields = Some bytes
    \<and> parse_records sample_decode bytes = Some [(1, Varint 1), (3, Varint 1), (3, Varint 2), (4, Len [10, 2, 104, 105])]"
proof -
  have "accepted (V_struct ''Outer'' sample_fields)"
    by (simp add: sample_fields_def check_field_def is_some_and_def)
  then have "\<exists>bytes. write_fields sample_prost 1 sample_fields = Some bytes
      \<and> parse_records sample_decode bytes = Some (field_records sample_prost 1 sample_fields)"
    by (rule protobuf_wire_format [OF sample_prost_laws]) (simp add: sample_bytes)
  moreover have "field_records sample_prost 1 sample_fields =
      [(1, Varint 1), (3, Varint 1), (3, Varint 2), (4, Len [10, 2, 104, 105])]"
    by (simp add: sample_fields_def sample_prost_def field_tag_def zigzag_def write_delimited_def as_bytes_def byte_of_char_def
      leb.simps(2) [of 9, simplified] leb.simps(2) [of 8, simplified])
  ultimately show ?thesis by simp
qed







text \<open>A generic struct that is used with two types: the second instance gets the descriptor of the first.\<close>

lemma generic_descriptor_shared:
  defines "S \<equiv> \<lambda>t. T_struct ''S'' [(''val'', t)]"
  shows "(do { (_, st) \<leftarrow> message_descriptor (\<lambda>_. 0) (S T_u32) Map.empty; message_descriptor (\<lambda>_. 0) (S T_string) st }) =
    message_descriptor (\<lambda>_. 0) (S T_u32) Map.empty"
  by (simp add: S_def Let_def hs_from_iter_def hs_insert_def)

text \<open>A generic struct that is nested in itself: its static is initialised from its own initialiser.\<close>

lemma generic_descriptor_nested: "message_descriptor (\<lambda>_. 0) (T_struct ''S'' [(''val'', T_struct ''S'' [(''val'', T_u32)])]) Map.empty = None"
  by (simp add: Let_def hs_from_iter_def hs_insert_def)

text \<open>A value without a struct has nothing unaccounted for.\<close>

fun has_struct :: "pb_value \<Rightarrow> bool" where
  "has_struct (V_vec _ vs) \<longleftrightarrow> (\<exists>v \<in> set vs. has_struct v)"
| "has_struct (V_array _ vs) \<longleftrightarrow> (\<exists>v \<in> set vs. has_struct v)"
| "has_struct (V_option _ x) \<longleftrightarrow> (\<exists>v \<in> set_option x. has_struct v)"
| "has_struct (V_struct _ _) \<longleftrightarrow> True"
| "has_struct _ \<longleftrightarrow> False"

lemma unaccounted_zero_iff:
  assumes "prost_laws P decode"
  shows "unaccounted P v = 0 \<longleftrightarrow> \<not> has_struct v"
proof (induction v)
  case (V_option t x)
  then show ?case by (cases x) auto
next
  case (V_struct name fs)
  have "1 \<le> encoded_len_varint P x" for x using assms by (simp add: prost_laws_def)
  then show ?case by (metis add_is_0 has_struct.simps(4) not_one_le_zero unaccounted.simps(4))
qed auto

text \<open>C34: The length that a derived struct reports is the number of bytes it writes less the length prefixes of the structs
  nested in it, so it is exact if and only if there are none. \<open>encode\<close> therefore does what it says for every size of the buffer when
  no struct is nested, and panics for a buffer that has room for the reported length but not for the prefixes.\<close>

theorem derived_encode_room:
  assumes "prost_laws P decode" "accepted (V_struct name fs)"
  defines "prefixes \<equiv> sum_list (map (\<lambda>(x, v). unaccounted P v) fs)"
  shows "\<exists>bytes. write_fields P 1 fs = Some bytes \<and> length bytes = fields_len P 1 fs + prefixes
    \<and> (prefixes = 0 \<longleftrightarrow> (\<forall>(x, v) \<in> set fs. \<not> has_struct v))
    \<and> derived_encode P fs remaining =
      (if remaining < fields_len P 1 fs then Some (Inl ''insufficient buffer'')
       else if remaining < fields_len P 1 fs + prefixes then None
       else Some (Inr bytes))"
proof -
  have "write_tagged P 1 (V_struct name fs) \<noteq> None" using write_tagged_records [OF assms(1,2), of 1] by simp
  then obtain bytes where bytes: "write_fields P 1 fs = Some bytes" by (cases "write_fields P 1 fs") simp_all
  have "length bytes = fields_len P 1 fs + prefixes"
    unfolding prefixes_def using write_tagged_length [OF assms(1)] by (intro write_fields_length bytes) blast
  moreover have "prefixes = 0 \<longleftrightarrow> (\<forall>(x, v) \<in> set fs. \<not> has_struct v)"
    using unaccounted_zero_iff [OF assms(1)] by (auto simp: prefixes_def)
  ultimately show ?thesis using bytes by (auto simp: derived_encode_def)
qed

theorem derived_encode_room_witness:
  "fields_len sample_prost 1 sample_fields = 11 \<and> derived_encode sample_prost sample_fields 10 = Some (Inl ''insufficient buffer'')
    \<and> derived_encode sample_prost sample_fields 11 = None
    \<and> derived_encode sample_prost sample_fields 12 = Some (Inr [8, 1, 24, 1, 24, 2, 34, 4, 10, 2, 104, 105])"
proof -
  have acc: "accepted (V_struct ''Outer'' sample_fields)" by (simp add: sample_fields_def check_field_def is_some_and_def)
  have len: "fields_len sample_prost 1 sample_fields = 11"
    by (simp add: sample_fields_def sample_prost_def field_tag_def zigzag_def leb.simps(2) [of 9, simplified])
  obtain bytes where "write_fields sample_prost 1 sample_fields = Some bytes"
      "length bytes = fields_len sample_prost 1 sample_fields + sum_list (map (\<lambda>(x, v). unaccounted sample_prost v) sample_fields)"
    using derived_encode_room [OF sample_prost_laws acc] by blast
  then have "sum_list (map (\<lambda>(x, v). unaccounted sample_prost v) sample_fields) = 1" using len by (auto simp: sample_bytes)
  then show ?thesis
    using derived_encode_room [OF sample_prost_laws acc, of 10] derived_encode_room [OF sample_prost_laws acc, of 11]
      derived_encode_room [OF sample_prost_laws acc, of 12] len by (simp add: sample_bytes)
qed

text \<open>The numbers of the variants in the descriptor are their positions, whatever their discriminants, which are what is
  written.\<close>

lemma enum_numbers_differ:
  "enum_descriptor (T_enum ''E'' [(''Neg'', - 10), (''Two'', 2)]) = Some (''E'', [(''Neg'', 0), (''Two'', 1)])"
  "records P 1 (V_enum ''E'' [(''Neg'', - 10), (''Two'', 2)] 2) = [(1, Varint 2)]"
  by simp_all

text \<open>An enum used both directly and as an option is defined twice.\<close>

lemma enum_defined_twice:
  "map_option (map_option dp_enum_type \<circ> fst) (message_descriptor site
     (T_struct ''S'' [(''a'', T_enum ''E'' [(''A'', 0)]), (''b'', T_option (T_enum ''E'' [(''A'', 0)]))]) Map.empty) =
   Some (Some [(''E'', [(''A'', 0)]), (''E'', [(''A'', 0)])])"
  by (simp add: hs_from_iter_def hs_insert_def List.map_filter_def Let_def)

end
