(* ===== verification/App_Url.thy ===== *)
theory App_Url
  imports Rust_Prelude
begin

text \<open>
  The URL of the Foxglove app (\<open>app_url.rs\<close>): the builder and the formatting. The function
  \<open>urlencoding::encode\<close> is a parameter; \<open>urlencoding_laws\<close> says that its result can be decoded and has
  none of the characters that structure a query.
\<close>

section \<open>Definitions\<close>

definition BASE_URL :: string where
  "BASE_URL = ''https://app.foxglove.dev''"

datatype DataSource = WebSocket string

record AppUrl =
  data_source :: "DataSource option"
  layout_id :: "string option"
  open_in_desktop :: bool

definition app_url_new :: AppUrl where
  "app_url_new = \<lparr> data_source = None, layout_id = None, open_in_desktop = False \<rparr>"

definition with_layout_id :: "string \<Rightarrow> AppUrl \<Rightarrow> AppUrl" where
  "with_layout_id l u = u \<lparr> layout_id := Some l \<rparr>"

definition with_open_in_desktop :: "AppUrl \<Rightarrow> AppUrl" where
  "with_open_in_desktop u = u \<lparr> open_in_desktop := True \<rparr>"

definition with_websocket :: "string \<Rightarrow> AppUrl \<Rightarrow> AppUrl" where
  "with_websocket url u = u \<lparr> data_source := Some (WebSocket url) \<rparr>"

definition query_params :: "AppUrl \<Rightarrow> (string \<times> string) list" where
  "query_params u =
     (case data_source u of
        Some (WebSocket url) \<Rightarrow> [(''ds'', ''foxglove-websocket''), (''ds.url'', url)]
      | None \<Rightarrow> [])
     @ (case layout_id u of Some l \<Rightarrow> [(''layoutId'', l)] | None \<Rightarrow> [])
     @ (if open_in_desktop u then [(''openIn'', ''desktop'')] else [])"

fun write_params :: "(string \<Rightarrow> string) \<Rightarrow> nat \<Rightarrow> (string \<times> string) list \<Rightarrow> string" where
  "write_params enc ii [] = []"
| "write_params enc ii ((k, v) # ps) =
     (if ii = 0 then CHR ''?'' else CHR ''&'') # k @ CHR ''='' # enc v @ write_params enc (ii + 1) ps"

definition app_url_fmt :: "(string \<Rightarrow> string) \<Rightarrow> AppUrl \<Rightarrow> string" where
  "app_url_fmt enc u = BASE_URL @ write_params enc 0 (query_params u)"

section \<open>Reading a URL back\<close>

definition urlencoding_laws :: "(string \<Rightarrow> string) \<Rightarrow> (string \<Rightarrow> string) \<Rightarrow> bool" where
  "urlencoding_laws enc dec \<longleftrightarrow> (\<forall>s. dec (enc s) = s) \<and> (\<forall>s. set (enc s) \<inter> {CHR ''?'', CHR ''&'', CHR ''=''} = {})"

fun split_on :: "char \<Rightarrow> string \<Rightarrow> string list" where
  "split_on c [] = [[]]"
| "split_on c (x # xs) =
     (if x = c then [] # split_on c xs
      else case split_on c xs of w # ws \<Rightarrow> (x # w) # ws | [] \<Rightarrow> [[x]])"

definition parse_param :: "(string \<Rightarrow> string) \<Rightarrow> string \<Rightarrow> (string \<times> string) option" where
  "parse_param dec p = (case split_on CHR ''='' p of [k, v] \<Rightarrow> Some (k, dec v) | _ \<Rightarrow> None)"

definition parse_url :: "(string \<Rightarrow> string) \<Rightarrow> string \<Rightarrow> (string \<times> (string \<times> string) option list) option" where
  "parse_url dec url =
     (case split_on CHR ''?'' url of
        [base] \<Rightarrow> Some (base, [])
      | [base, query] \<Rightarrow> Some (base, map (parse_param dec) (split_on CHR ''&'' query))
      | _ \<Rightarrow> None)"

lemma split_on_absent: "c \<notin> set w \<Longrightarrow> split_on c w = [w]"
  by (induction w) auto

lemma split_on_first: "c \<notin> set w \<Longrightarrow> split_on c (w @ c # rest) = w # split_on c rest"
  by (induction w) auto

lemma write_params_split:
  assumes "urlencoding_laws enc dec"
  shows "\<forall>(k, v) \<in> set ps. set k \<inter> {CHR ''?'', CHR ''&'', CHR ''=''} = {} \<Longrightarrow> CHR ''&'' \<notin> set w \<Longrightarrow>
    CHR ''?'' \<notin> set (write_params enc (Suc i) ps)
    \<and> split_on CHR ''&'' (w @ write_params enc (Suc i) ps) = w # map (\<lambda>(k, v). k @ CHR ''='' # enc v) ps"
proof (induction ps arbitrary: i w)
  case Nil
  then show ?case by (simp add: split_on_absent)
next
  case (Cons p ps)
  obtain k v where p: "p = (k, v)" by (cases p)
  have enc: "set (enc v) \<inter> {CHR ''?'', CHR ''&'', CHR ''=''} = {}" using assms by (simp add: urlencoding_laws_def)
  have "CHR ''?'' \<notin> set (write_params enc (Suc (Suc i)) ps)
    \<and> split_on CHR ''&'' ((k @ CHR ''='' # enc v) @ write_params enc (Suc (Suc i)) ps) =
      (k @ CHR ''='' # enc v) # map (\<lambda>(k, v). k @ CHR ''='' # enc v) ps"
    using Cons.prems(1) enc p by (intro Cons.IH) auto
  then show ?case using Cons.prems enc p by (auto simp: split_on_first)
qed

lemma parse_param_pair:
  "urlencoding_laws enc dec \<Longrightarrow> CHR ''='' \<notin> set k \<Longrightarrow> parse_param dec (k @ CHR ''='' # enc v) = Some (k, v)"
  by (auto simp: parse_param_def split_on_first split_on_absent urlencoding_laws_def)

text \<open>The app reads from the URL exactly the parameters that were set, whatever characters they contain.\<close>

theorem app_url_roundtrip:
  assumes "urlencoding_laws enc dec"
  shows "parse_url dec (app_url_fmt enc u) = Some (BASE_URL, map Some (query_params u))"
proof -
  have keys: "\<forall>(k, v) \<in> set (query_params u). set k \<inter> {CHR ''?'', CHR ''&'', CHR ''=''} = {}"
    by (auto simp: query_params_def split: option.splits DataSource.splits)
  have base: "CHR ''?'' \<notin> set BASE_URL" by (simp add: BASE_URL_def)
  show ?thesis
  proof (cases "query_params u")
    case Nil
    then show ?thesis using base by (simp add: parse_url_def app_url_fmt_def split_on_absent)
  next
    case (Cons p ps)
    obtain k v where p: "p = (k, v)" by (cases p)
    let ?first = "k @ CHR ''='' # enc v"
    have enc: "set (enc v) \<inter> {CHR ''?'', CHR ''&'', CHR ''=''} = {}" using assms by (simp add: urlencoding_laws_def)
    have rest: "CHR ''?'' \<notin> set (write_params enc (Suc 0) ps)"
      "split_on CHR ''&'' (?first @ write_params enc (Suc 0) ps) = ?first # map (\<lambda>(k, v). k @ CHR ''='' # enc v) ps"
      using write_params_split [OF assms, of ps ?first 0] keys Cons p enc by auto
    have "map (parse_param dec) (?first # map (\<lambda>(k, v). k @ CHR ''='' # enc v) ps) = map Some (query_params u)"
      using keys Cons p by (auto simp: parse_param_pair [OF assms])
    moreover have "CHR ''?'' \<notin> set (?first @ write_params enc (Suc 0) ps)" using rest(1) keys Cons p enc by auto
    ultimately show ?thesis using base rest(2)
      by (simp add: parse_url_def app_url_fmt_def Cons p split_on_first split_on_absent)
  qed
qed

text \<open>Encoding with the percent sign, for the example.\<close>

definition sample_enc :: "string \<Rightarrow> string" where
  "sample_enc = concat \<circ> map (\<lambda>c. if c \<in> {CHR ''?'', CHR ''&'', CHR ''='', CHR ''%''}
     then [CHR ''%'', if c = CHR ''?'' then CHR ''q'' else if c = CHR ''&'' then CHR ''a'' else if c = CHR ''='' then CHR ''e'' else CHR ''p'']
     else [c])"

fun sample_dec :: "string \<Rightarrow> string" where
  "sample_dec (x # y # s) =
     (if x = CHR ''%''
      then (if y = CHR ''q'' then CHR ''?'' else if y = CHR ''a'' then CHR ''&'' else if y = CHR ''e'' then CHR ''='' else CHR ''%'') # sample_dec s
      else x # sample_dec (y # s))"
| "sample_dec s = s"

lemma sample_dec_Cons: "c \<noteq> CHR ''%'' \<Longrightarrow> sample_dec (c # s) = c # sample_dec s"
  by (cases s) simp_all

lemma sample_urlencoding: "urlencoding_laws sample_enc sample_dec"
proof -
  have "sample_dec (sample_enc s) = s" for s
    by (induction s) (auto simp: sample_enc_def sample_dec_Cons)
  then show ?thesis by (auto simp: urlencoding_laws_def sample_enc_def split: if_splits)
qed

theorem app_url_roundtrip_witness:
  "parse_url sample_dec (app_url_fmt sample_enc (with_open_in_desktop (with_websocket ''ws://a?b=1&c'' app_url_new))) =
     Some (BASE_URL, [Some (''ds'', ''foxglove-websocket''), Some (''ds.url'', ''ws://a?b=1&c''), Some (''openIn'', ''desktop'')])"
  using app_url_roundtrip [OF sample_urlencoding, of "with_open_in_desktop (with_websocket ''ws://a?b=1&c'' app_url_new)"]
  by (simp add: query_params_def with_open_in_desktop_def with_websocket_def app_url_new_def)

end
