(* ===== verification/Spec2Isabelle.thy ===== *)
theory Spec2Isabelle
  imports Poller Mcap_Writer Mcap_Stream C_Arena C_Native C_Graph C_Recording C_Server_Session Image_Message Protobuf_Field App_Url
begin

text \<open>
  A verification library for the Foxglove SDK, the Rust crate \<open>src/rust/foxglove\<close>.

  The program. An application creates channels in a context and logs messages on them; sinks
  that are registered with the context receive the messages of the channels they subscribe
  to. The websocket server registers a sink for each of its clients, advertises channels and
  services to them, and answers their requests in a protocol of binary and JSON messages.

  Theories and the code they model (paths below \<open>src/rust/foxglove/src\<close>):

  \<^item> \<open>Rust_Prelude\<close>: what the code uses of the language and its standard library:
    fixed-width integers as words, hash maps and sets as lists without duplicate keys,
    UTF-8 strings, little-endian bytes, slices, \<open>swap_remove\<close>, \<open>chunks\<close>. A panic is
    \<open>None\<close> of \<open>may_panic\<close>, an error \<open>Inl\<close> of \<open>result\<close>.
  \<^item> \<open>Sync_Primitives\<close>: \<open>throttler.rs\<close>, \<open>websocket/semaphore.rs\<close> (a step relation, one
    step per atomic operation), \<open>websocket/cow_vec.rs\<close>,
    \<open>websocket/connected_client/send_lossy.rs\<close>.
  \<^item> \<open>Subscriptions\<close>: \<open>context/subscriptions.rs\<close>, refined to a pair of sets through the
    locale \<open>subscriber_index\<close>.
  \<^item> \<open>Channels\<close>: \<open>schema.rs\<close>, \<open>metadata.rs\<close>, \<open>channel.rs\<close>, \<open>channel/*.rs\<close>,
    \<open>log_sink_set.rs\<close>, \<open>sink.rs\<close>, \<open>channel_builder.rs\<close>. The trait \<open>Sink\<close> is a record
    of functions on a world shared by the sinks.
  \<^item> \<open>Context\<close>: \<open>context.rs\<close> and the operations of channels that go through it, over an
    explicit heap of channels; the invariant \<open>ctx_wf\<close> holds in every reachable state.
  \<^item> \<open>Protocol_Payload\<close>, \<open>Protocol_Parameter\<close>, \<open>Protocol_Messages\<close>: \<open>protocol/**\<close>, the
    binary payloads through the locale \<open>binary_payload\<close>, parameters and schema data, and
    the framing of both protocol versions.
  \<^item> \<open>Wkt_Time\<close>: \<open>schemas_wkt.rs\<close>, \<open>convert.rs\<close> and the time sources of
    \<open>metadata.rs\<close>, through the locale \<open>normalized_time\<close>.
  \<^item> \<open>Connection_Graph\<close>: \<open>websocket/connection_graph.rs\<close>; the difference of two graphs
    against the view that a receiver of the updates keeps.
  \<^item> \<open>Services\<close>: \<open>websocket/service.rs\<close>, \<open>service/schema.rs\<close>, \<open>service/request.rs\<close>,
    \<open>websocket/advertise.rs\<close>; the locale \<open>service_registry\<close> is what the server relies on.
  \<^item> \<open>Catalogue_Token\<close>: the token of the advertised catalogue (\<open>websocket/server.rs\<close>) and
    the query parameter that carries it (\<open>websocket/handshake.rs\<close>).
  \<^item> \<open>Connected_Client\<close>: the state of a session, its queues, advertised channels and
    subscriptions, and its implementation of \<open>Sink\<close>
    (\<open>websocket/connected_client.rs\<close>, \<open>websocket/client_channel.rs\<close>).
  \<^item> \<open>Server_State\<close>: \<open>websocket/server.rs\<close> and \<open>websocket/capability.rs\<close>: options, start and
    stop, broadcasts, parameter and connection-graph subscriptions; \<open>notified_subscriptions\<close>
    is the contract that these two have in common, interpreted on both.
  \<^item> \<open>Client_Handlers\<close>: every request handler of \<open>websocket/connected_client.rs\<close>, the
    responders of \<open>service/response.rs\<close> and \<open>fetch_asset.rs\<close>, and what the server does through
    the context: registering and unregistering clients, services, session information.
  \<^item> \<open>Server_Invariant\<close>: the invariant of the server, its sessions and the context together.
    \<open>server_reachable\<close> closes a new server under every operation of \<open>server_op\<close>; the locale
    \<open>sink_invariant\<close> is what the context promises to its sinks.
  \<^item> \<open>Server_Properties\<close>: service calls and their answers, adding services, subscribing and
    the delivery of logged messages.
  \<^item> \<open>Poller\<close>: \<open>websocket/connected_client/poller.rs\<close>, the send and receive loops of a session
    as a step relation.
  \<^item> \<open>Mcap_Writer\<close>: \<open>mcap_writer.rs\<close> and \<open>mcap_writer/mcap_sink.rs\<close>, recording to an MCAP file as
    a sink of the context.
  \<^item> \<open>Mcap_Stream\<close>: \<open>stream.rs\<close>, the buffer between the MCAP writer and an asynchronous reader as a
    transition system, with the delivery of every byte under fair polling.
  \<^item> \<open>Image_Raw\<close>, \<open>Image_Message\<close>: \<open>img2yuv/**\<close>, the conversion of raw and compressed images to planar YUV
    against a reference conversion, and the decoding of image messages; the locale \<open>yuv420_buffer\<close> is
    the contract of a destination, \<open>wire_format\<close> that of a decoder.
  \<^item> \<open>Protobuf_Field\<close>: \<open>protobuf.rs\<close>, \<open>protobuf/wkt.rs\<close> and the code that the derive macro
    \<open>src/rust/foxglove_derive\<close> generates, against the wire format of protobuf, with the statics in which the
    generated code keeps its descriptors.
  \<^item> \<open>App_Url\<close>: \<open>app_url.rs\<close>.
  \<^item> \<open>C_Arena\<close>: the memory arena of the C bindings, \<open>src/c/src/arena.rs\<close>.
  \<^item> \<open>C_Error\<close>: the error codes, strings and schemas of the C bindings, \<open>src/c/src/lib.rs\<close>.
  \<^item> \<open>C_Parameter\<close>: the parameters of the C bindings (\<open>src/c/src/parameter.rs\<close>, the strings of
    \<open>src/c/src/lib.rs\<close> and \<open>util.rs\<close>, the parameter functions of \<open>server.rs\<close>) over an explicit memory.
    \<open>C_Ownership\<close> proves what each recursive operation does to the blocks a value owns, \<open>C_Handles\<close> what
    the pointers of a caller own together, through the locale \<open>element\<close> of what a vector holds;
    \<open>C_Api\<close> specifies every function of the interface on trees, as its documentation does
    (\<open>c_spec\<close>), and proves that the memory refines it but for one call (\<open>frees_short\<close>); \<open>C_Native\<close> has the conversions from and to the native parameters and the
    arrays that are lent to callbacks.
  \<^item> \<open>C_Graph\<close>: \<open>src/c/src/connection_graph.rs\<close>; the locale \<open>c_graph_setter\<close> is the contract of its setters.
  \<^item> \<open>C_Channel\<close>: \<open>src/c/src/channel.rs\<close>, \<open>channel_descriptor.rs\<close> and \<open>sink_channel_filter.rs\<close>, with the
    references and boxes that the caller of the C interface owns. \<open>C_Recording\<close> proves what sessions of such
    calls keep, what opening a recorder gives, and that what is written to a channel is what is read from it.

  \<^item> \<open>Server_Api\<close>: the builder of \<open>websocket_server.rs\<close> and the start and stop of a server, with the proof that
    nothing else changes whether the server runs.
  \<^item> \<open>C_Server\<close>: the rest of \<open>src/c/src/server.rs\<close>, with \<open>service.rs\<close>, \<open>fetch_asset.rs\<close> and
    \<open>playback_state.rs\<close>. \<open>C_Server_Session\<close> proves that every call of a program that starts a server through C
    is a step of the server of \<open>Server_Invariant\<close> or leaves it as it is, and when a callback panics.

  What is proved. Each theory proves its invariant for every operation and the behaviour of
  the operations on every branch; a theorem that is a claim of the development follows a text
  block that states it. The claims of this theory follow a client through the whole server:
  from the handshake to its registration, and from a subscription to the messages in its queue.

  State of the server. The context's program state holds the heap of channels and, as the world
  of its sinks, the server, the heap of sessions, the calls made to the listener and the
  outstanding service calls and asset requests. \<open>Arc<RawChannel>\<close> and \<open>Arc<ConnectedClient>\<close>
  are keys of these heaps. A session is never removed from the heap: one that the code has
  dropped is no longer referred to. The listener is user code: its answers are functions of the
  calls it has received. A handler of services or assets is user code that completes its
  responder in a step of its own.

  Conventions and bounds. \<open>usize\<close> has 64 bits. The iteration order of a \<open>HashMap\<close> is not
  specified; the model iterates in insertion order and the claims speak of sets where the
  order is open. A lock is held for a whole operation of the code, so an operation is one
  function on the state; the semaphore, which has no lock, is modelled at its atomic steps.
  Identifier counters are words and wrap; \<open>server_allowed\<close> and the claims that need fresh
  identifiers assume fewer allocations than the width admits, and that services passed to one
  call have different identifiers, as \<open>ServiceId::next\<close> gives them. A backlog size of zero is
  excluded in \<open>server_reachable\<close>, since no message could be queued. Clock readings are
  arguments. Log output is left out. All functions are total; the loops that are not structural
  have termination proofs or, for the iterators over pixels and the reference parser of protobuf,
  are partial functions that are proved to return. The operations of \<open>C_Parameter\<close> that follow pointers
  take a bound on the depth; the claims hold for every bound above the size of the tree (\<open>fits\<close>,
  \<open>call_fits\<close>), for which they always return.

  Code outside the repository is a parameter: the capacities that \<open>Vec\<close> chooses (\<open>vec_ops\<close>), the \<open>bytes\<close> crate (\<open>bytes_ops\<close>), base64
  (\<open>base64_ops\<close>), serde (\<open>serde_ops\<close> and the JSON printers and parsers), the flume queue
  (\<open>flume\<close>), the bimap crate (\<open>bimap_ops\<close>), the implementations of \<open>Sink\<close>. For the server
  they are collected in \<open>ws_env\<close>. For the other components: the \<open>mcap\<close> crate, the channel of \<open>tokio\<close>
  (\<open>mpsc\<close>), the \<open>yuv\<close>, \<open>image\<close>, \<open>regex\<close> and \<open>cdr\<close> crates, arithmetic on \<open>f32\<close> (\<open>f32_ops\<close>), \<open>prost\<close> and
  \<open>urlencoding\<close>. The laws assumed of them are the predicates \<open>bytes_laws\<close>, \<open>base64_laws\<close>, \<open>flume_laws\<close>,
  \<open>bimap_laws\<close>, \<open>mcap_laws\<close>, \<open>mpsc_laws\<close>, \<open>writes_in_place\<close>, \<open>prost_laws\<close>, \<open>urlencoding_laws\<close>, \<open>vec_laws\<close>, that base64 text is ASCII, and, for
  the server, \<open>env_laws\<close>; they are satisfied by the concrete instances of the witnesses.

  Not modelled: sockets, TLS, the websocket handshake and the scheduling of tasks (the outcome
  of binding and of the handshake are arguments); the handles of the public API, which forward to the
  operations above, and the adapters that run user handlers; lazy channels and contexts, which initialise statics
  once; the conversions of times from \<open>f64\<close> and \<open>chrono\<close>; the cloud sink, which is a connection to a
  service; the parsing of Rust syntax in the derive macro; the generated schemas, and the generated
  message types of the C bindings; the choice of a context in the C bindings; the Python bindings.
\<close>

section \<open>Properties of the whole server\<close>

text \<open>C38: a client that reconnects with the token of the current catalogue is registered without
  being sent anything, and its session knows exactly the registered channels that pass the filter,
  so that it can subscribe to them. When the catalogue is empty the suppression is not used up:
  the first channel that is created later is not advertised to the client either.\<close>

theorem reconnect_suppressed:
  assumes "env_laws E" "server_reachable E s" "ctx_alive s" "\<not> frozen (sv_clients (server_of s))"
    "unat (ww_next_client_id (world s)) + 1 < 2 ^ 32" "unat (ww_next_sink_id (world s)) + 1 < 2 ^ 64"
    "\<not> hm_contains (ww_next_sink_id (world s)) (sinks (ctx s))"
  shows "\<exists>s' c. accept_client E lib (Some (advertisement_token s)) True s = (Some (ww_next_client_id (world s)), s')
    \<and> session s' (ww_next_client_id (world s)) = Some c \<and> cc_control_plane c = [] \<and> cc_data_plane c = []
    \<and> (\<forall>r. hm_get (cc_channels c) r =
        (if registered s r \<and> (case env_filter E of None \<Rightarrow> True | Some f \<Rightarrow> f (descriptor (deref s r)))
         then Some (descriptor (deref s r)) else None))
    \<and> (channels (ctx s) = [] \<longrightarrow> (\<forall>ids ch. cc_control_plane (client_add_channels E ids [ch] c) = []))"
proof -
  obtain s' c where s': "accept_client E lib (Some (advertisement_token s)) True s = (Some (ww_next_client_id (world s)), s')"
    "session s' (ww_next_client_id (world s)) = Some c"
    and c: "c = (fresh_session s True True) \<lparr> cc_suppress := (channels (ctx s) = []), cc_channels := cc_channels c \<rparr>"
    and known: "\<forall>r. hm_get (cc_channels c) r =
        (if registered s r \<and> (case env_filter E of None \<Rightarrow> True | Some f \<Rightarrow> f (descriptor (deref s r)))
         then Some (descriptor (deref s r)) else None)"
    using accept_current [OF assms(1) server_reachable_ok [OF assms(1,2)] assms(3-7)] by blast
  have "cc_control_plane c = []" "cc_data_plane c = []" "cc_suppress c \<longleftrightarrow> channels (ctx s) = []"
    by (subst c, simp)+
  then show ?thesis using s' known by (auto simp: add_channels_suppressed)
qed

theorem reconnect_suppressed_witness:
  "\<exists>s' c. accept_client demo_env ''lib'' (Some (advertisement_token demo_with_channel)) True demo_with_channel = (Some 1, s')
    \<and> session s' 1 = Some c \<and> cc_control_plane c = [] \<and> hm_get (cc_channels c) 1 = Some (descriptor (deref demo_with_channel 1))"
  using reconnect_suppressed [OF demo_env_laws demo_with_channel_eval(1,2), of "''lib''"] demo_with_channel_eval demo_world_start
  by (auto simp: server_of_def demo_env_def)

text \<open>C7: a client that subscribes to advertised channels under unused identifiers gets every
  message that is then logged on them, in the order of the calls, each once, under the identifier
  it chose for the channel and with the log time of the call: they are appended to its data queue,
  which keeps the newest messages. A client whose sink is not subscribed to the channels gets
  none of them.\<close>

theorem subscribed_client_receives:
  assumes "env_laws E" "server_reachable E s" "ctx_alive s" "session s cid = Some c"
    "hm_contains (cc_sink_id c) (sinks (ctx s))"
    "\<forall>x \<in> set xs. hm_contains (sv1_channel_id x) (cc_channels c)
      \<and> sv1_channel_id x \<notin> fst ` set (cc_subscriptions c) \<and> sv1_id x \<notin> snd ` set (cc_subscriptions c)"
    "distinct (map sv1_channel_id xs)" "distinct (map sv1_id xs)"
    "\<forall>l \<in> set ls. registered s (channel_of_call l) \<and> channel_of_call l \<in> sv1_channel_id ` set xs"
    "\<forall>x \<in> set xs. sid (sv1_channel_id x) = sv1_id x"
  shows "\<exists>s'. dispatch E cid (CSubscribe xs) s = Some s'
    \<and> (\<exists>c'. session (fold (log_call (ws_sinks E)) ls s') cid = Some c'
        \<and> cc_data_plane c' = last_n (cc_backlog c) (cc_data_plane c @ map (data_of_call E sid) ls))
    \<and> (\<forall>i d. session s' i = Some d \<and> (\<forall>l \<in> set ls. cc_sink_id d \<notin> snd (subs_abs (subs (ctx s'))) (channel_of_call l)) \<longrightarrow>
        session (fold (log_call (ws_sinks E)) ls s') i = Some d)"
proof -
  note ok = server_reachable_ok [OF assms(1,2)]
  obtain s' where s': "on_subscribe E cid xs s = Some s'" "prog_ok E s'"
    "subscribed_state s cid c (subscription_pair ` set xs) s'"
    using on_subscribe_fresh [OF assms(1) ok assms(4,3,5-8)] by blast
  obtain m where m: "session s' cid = Some (c \<lparr> cc_subscriptions := m \<rparr>)" "bimap_wf m"
    "set m = subscription_pair ` set xs \<union> set (cc_subscriptions c)"
    using s'(3) by (auto simp: subscribed_state_def)
  have reg: "\<forall>l \<in> set ls. registered s' (channel_of_call l)"
    using assms(9) s'(3) by (simp add: subscribed_state_def registered_def)
  have "cc_sink_id c \<in> snd (subs_abs (subs (ctx s'))) r \<and> map_of m r = Some (sid r)" if r: "r \<in> sv1_channel_id ` set xs" for r
  proof -
    obtain x where x: "x \<in> set xs" "r = sv1_channel_id x" using r by blast
    have "(r, sid r) \<in> set m" "r \<in> fst ` subscription_pair ` set xs"
      using x assms(10) m(3) by (force simp: subscription_pair_def)+
    then show ?thesis using m(2) s'(3) by (simp add: bimap_wf_def subscribed_state_def)
  qed
  then have "\<exists>c'. session (fold (log_call (ws_sinks E)) ls s') cid = Some c'
        \<and> cc_data_plane c' = last_n (cc_backlog c) (cc_data_plane c @ map (data_of_call E sid) ls)"
    using log_calls_subscribed [OF assms(1) s'(2) m(1), of ls sid] reg assms(9) by simp
  then show ?thesis using s'(1) reg log_calls_unsubscribed [OF assms(1) s'(2)] by auto
qed

theorem subscribed_client_receives_witness:
  "\<exists>s s' c'. server_reachable demo_env s \<and> dispatch demo_env 1 (CSubscribe [\<lparr> sv1_id = 40, sv1_channel_id = 1 \<rparr>]) s = Some s'
    \<and> session (fold (log_call (ws_sinks demo_env)) [(0, 5, 1, [9], partial_metadata_default), (0, 6, 1, [8], partial_metadata_default)] s') 1
        = Some c'
    \<and> (\<exists>n. cc_data_plane c' = last_n n
        [ws demo_env (SMessageData \<lparr> smd_subscription_id = 40, smd_log_time = 5, smd_data = [9] \<rparr>),
         ws demo_env (SMessageData \<lparr> smd_subscription_id = 40, smd_log_time = 6, smd_data = [8] \<rparr>)])"
proof -
  obtain s c where s: "server_reachable demo_env s" "ctx_alive s" "session s 1 = Some c" "hm_contains (cc_sink_id c) (sinks (ctx s))"
    "cc_subscriptions c = []" "cc_data_plane c = []" "hm_contains 1 (cc_channels c)" "registered s 1"
    using demo_connected_current by blast
  show ?thesis
    using subscribed_client_receives [OF demo_env_laws s(1-4), of "[\<lparr> sv1_id = 40, sv1_channel_id = 1 \<rparr>]"
        "[(0, 5, 1, [9], partial_metadata_default), (0, 6, 1, [8], partial_metadata_default)]" "\<lambda>_. 40"] s
    by (auto simp: partial_metadata_default_def stamp_def)
qed

end
